(* ===== verification/Prelude.thy ===== *)
theory Prelude
  imports Main "HOL-Library.Word"
begin

text \<open>
  The shared base of the development: the types that name the model's values, the C
  string functions the server calls (\<^verbatim>\<open>strchr\<close>, \<^verbatim>\<open>strrchr\<close>, \<^verbatim>\<open>strstr\<close>,
  \<^verbatim>\<open>strcasecmp\<close>, \<^verbatim>\<open>strtol\<close>, \<^verbatim>\<open>atoi\<close>), the collections of rewrite rules, and the
  generic lemmas on lists, options and words that several components use.

  A C string is the list of its characters without the terminating NUL; a pointer that
  may be NULL is an option. Allocation is taken to succeed. Log messages are left out.
\<close>

named_theorems c_string \<open>rewrite rules about the C string functions\<close>
named_theorems op_defs \<open>definitions of the operations, unfolded by the component proofs\<close>

type_synonym byte = "8 word"
type_synonym u32 = "32 word"
type_synonym u64 = "64 word"

text \<open>What the code does where its behaviour is undefined: the model stops with a fault.\<close>

datatype fault = Null_deref | Out_of_bounds | Use_after_free | Int_overflow

section \<open>Characters\<close>

text \<open>The unsigned value of a character, 0 to 255.\<close>

definition code :: "char \<Rightarrow> nat" where
  "code c = of_char c"

text \<open>
  The value of a plain \<^verbatim>\<open>char\<close> in an arithmetic comparison. Plain \<^verbatim>\<open>char\<close> is signed in
  the x86-64 ABI, which is the platform the model follows.
\<close>

definition char_val :: "char \<Rightarrow> int" where
  "char_val c = (if code c < 128 then int (code c) else int (code c) - 256)"

definition in_range :: "char \<Rightarrow> char \<Rightarrow> char \<Rightarrow> bool" where
  "in_range lo hi c \<longleftrightarrow> code lo \<le> code c \<and> code c \<le> code hi"

definition is_digit :: "char \<Rightarrow> bool" where
  "is_digit c \<longleftrightarrow> in_range CHR ''0'' CHR ''9'' c"

definition NUL :: char where
  "NUL = CHR 0x00"

definition tolower :: "char \<Rightarrow> char" where
  "tolower c = (if in_range CHR ''A'' CHR ''Z'' c then char_of (code c + 32) else c)"

definition isspace :: "char \<Rightarrow> bool" where
  "isspace c \<longleftrightarrow> c = CHR '' '' \<or> (9 \<le> code c \<and> code c \<le> 13)"

lemma code_less_256 [simp]: "code c < 256"
  by (simp add: code_def)

lemma code_div_16 [simp]: "code c div 16 < 16"
  by (rule less_mult_imp_div_less) simp

lemma char_of_code [simp]: "char_of (code c) = c"
  by (simp add: code_def)

lemma code_char_of [simp]: "n < 256 \<Longrightarrow> code (char_of n) = n"
  by (simp add: code_def)

lemma code_inject [simp]: "code c = code d \<longleftrightarrow> c = d"
  by (metis char_of_code)

section \<open>C strings\<close>

text \<open>The C string that starts a buffer: what stands before the first NUL.\<close>

definition c_str :: "string \<Rightarrow> string" where
  "c_str buf = takeWhile (\<lambda>c. c \<noteq> NUL) buf"

text \<open>A list of characters is the content of a C string when it holds no NUL.\<close>

definition no_nul :: "string \<Rightarrow> bool" where
  "no_nul s \<longleftrightarrow> NUL \<notin> set s"

lemma c_str_no_nul [c_string]: "no_nul s \<Longrightarrow> c_str s = s"
  by (auto simp: no_nul_def c_str_def takeWhile_eq_all_conv)

lemma no_nul_c_str [c_string, simp]: "no_nul (c_str s)"
  by (auto simp: no_nul_def c_str_def dest: set_takeWhileD)

lemma c_str_append_nul [c_string]: "no_nul s \<Longrightarrow> c_str (s @ NUL # t) = s"
  by (auto simp: no_nul_def c_str_def takeWhile_append)

text \<open>
  \<^verbatim>\<open>strchr\<close>: the string from the first occurrence of the character, None for NULL; the
  pair holds what stands before the occurrence and what stands after it.
\<close>

fun strchr :: "char \<Rightarrow> string \<Rightarrow> (string \<times> string) option" where
  "strchr c [] = None"
| "strchr c (x # xs) =
     (if x = c then Some ([], xs)
      else map_option (\<lambda>(a, b). (x # a, b)) (strchr c xs))"

text \<open>\<^verbatim>\<open>strrchr\<close>: the same for the last occurrence.\<close>

fun strrchr :: "char \<Rightarrow> string \<Rightarrow> (string \<times> string) option" where
  "strrchr c [] = None"
| "strrchr c (x # xs) =
     (case strrchr c xs of
        Some (a, b) \<Rightarrow> Some (x # a, b)
      | None \<Rightarrow> if x = c then Some ([], xs) else None)"

lemma strchr_Some: "strchr c s = Some (a, b) \<longleftrightarrow> s = a @ c # b \<and> c \<notin> set a"
proof (induction s arbitrary: a)
  case (Cons x xs)
  then show ?case by (cases a) auto
qed simp

lemma strchr_None: "strchr c s = None \<longleftrightarrow> c \<notin> set s"
  by (induction s) auto

lemma strrchr_None: "strrchr c s = None \<longleftrightarrow> c \<notin> set s"
  by (induction s) (auto split: option.splits)

lemma strrchr_SomeD: "strrchr c s = Some (a, b) \<Longrightarrow> s = a @ c # b \<and> c \<notin> set b"
proof (induction s arbitrary: a)
  case (Cons x xs)
  then show ?case
    by (auto simp: strrchr_None split: option.splits if_splits)
qed simp

lemma strrchr_append: "c \<notin> set b \<Longrightarrow> strrchr c (a @ c # b) = Some (a, b)"
proof (induction a)
  case Nil
  then show ?case by (simp add: strrchr_None [THEN iffD2])
qed simp

text \<open>\<^verbatim>\<open>strstr\<close>: the offset of the first occurrence of the needle, None for NULL.\<close>

fun strstr :: "string \<Rightarrow> string \<Rightarrow> nat option" where
  "strstr hay needle =
     (if take (length needle) hay = needle then Some 0
      else (case hay of [] \<Rightarrow> None | _ # rest \<Rightarrow> map_option Suc (strstr rest needle)))"

declare strstr.simps [simp del]

lemma strstr_Some: "strstr s t = Some p \<Longrightarrow> take (length t) (drop p s) = t \<and> p + length t \<le> length s"
proof (induction s arbitrary: p)
  case Nil
  then show ?case by (subst (asm) strstr.simps) (auto split: if_splits)
next
  case (Cons x xs)
  show ?case
  proof (cases "take (length t) (x # xs) = t")
    case True
    then have "length t \<le> length (x # xs)" by (metis length_take min.cobounded1)
    then show ?thesis using Cons.prems True by (subst (asm) strstr.simps) auto
  next
    case False
    then obtain q where "strstr xs t = Some q" "p = Suc q"
      using Cons.prems by (subst (asm) strstr.simps) auto
    then show ?thesis using Cons.IH by fastforce
  qed
qed

lemma strstr_first: "strstr s t = Some p \<Longrightarrow> q < p \<Longrightarrow> take (length t) (drop q s) \<noteq> t"
proof (induction s arbitrary: p q)
  case Nil
  then show ?case by (subst (asm) strstr.simps) (auto split: if_splits)
next
  case (Cons x xs)
  show ?case
  proof (cases "take (length t) (x # xs) = t")
    case True
    then show ?thesis using Cons.prems by (subst (asm) strstr.simps) auto
  next
    case False
    then obtain r where "strstr xs t = Some r" "p = Suc r"
      using Cons.prems(1) by (subst (asm) strstr.simps) auto
    then show ?thesis using Cons.IH [of r "q - 1"] Cons.prems(2) False by (cases q) auto
  qed
qed

lemma strstr_None: "strstr s t = None \<longleftrightarrow> (\<forall>p. take (length t) (drop p s) \<noteq> t)"
proof (induction s)
  case Nil
  then show ?case by (subst strstr.simps) auto
next
  case (Cons x xs)
  have "(\<forall>p. take (length t) (drop p (x # xs)) \<noteq> t) \<longleftrightarrow>
      take (length t) (x # xs) \<noteq> t \<and> (\<forall>p. take (length t) (drop p xs) \<noteq> t)"
    by (metis drop0 drop_Suc_Cons not0_implies_Suc)
  with Cons.IH show ?case by (subst strstr.simps) auto
qed

text \<open>\<^verbatim>\<open>strncmp (s, t, n) == 0\<close> for a literal \<open>t\<close> of length \<open>n\<close>: \<open>t\<close> starts \<open>s\<close>.\<close>

definition starts_with :: "string \<Rightarrow> string \<Rightarrow> bool" where
  "starts_with t s \<longleftrightarrow> take (length t) s = t"

text \<open>\<^verbatim>\<open>strcasecmp (s, t) == 0\<close> and \<^verbatim>\<open>strncasecmp\<close> against a literal.\<close>

definition strcaseeq :: "string \<Rightarrow> string \<Rightarrow> bool" where
  "strcaseeq s t \<longleftrightarrow> map tolower s = map tolower t"

definition starts_with_case :: "string \<Rightarrow> string \<Rightarrow> bool" where
  "starts_with_case t s \<longleftrightarrow> strcaseeq (take (length t) s) t"

section \<open>Numbers in strings\<close>

fun digits_val :: "int \<Rightarrow> string \<Rightarrow> int \<times> string" where
  "digits_val acc [] = (acc, [])"
| "digits_val acc (c # cs) =
     (if is_digit c then digits_val (acc * 10 + (int (code c) - 48)) cs else (acc, c # cs))"

text \<open>
  \<^verbatim>\<open>strtol (s, &rem, 10)\<close>: white space, a sign, digits; the value is clamped to the
  64-bit \<^verbatim>\<open>long\<close>; without digits the value is 0 and \<^verbatim>\<open>rem\<close> is the whole string.
\<close>

definition clamp_long :: "int \<Rightarrow> int" where
  "clamp_long v = max (- (2 ^ 63)) (min (2 ^ 63 - 1) v)"

definition strtol :: "string \<Rightarrow> int \<times> string" where
  "strtol s =
     (let t = dropWhile isspace s;
          neg = (t \<noteq> [] \<and> hd t = CHR ''-'');
          u = (if t \<noteq> [] \<and> (hd t = CHR ''-'' \<or> hd t = CHR ''+'') then tl t else t)
      in if u = [] \<or> \<not> is_digit (hd u) then (0, s)
         else (let (v, rest) = digits_val 0 u
               in (clamp_long (if neg then - v else v), rest)))"

text \<open>\<^verbatim>\<open>atoi\<close> is \<^verbatim>\<open>(int) strtol\<close>, the conversion keeping the low 32 bits.\<close>

definition atoi :: "string \<Rightarrow> int" where
  "atoi s = sint (word_of_int (fst (strtol s)) :: 32 word)"

section \<open>Printing numbers\<close>

fun show_nat :: "nat \<Rightarrow> string" where
  "show_nat n = (if n < 10 then [char_of (48 + n)] else show_nat (n div 10) @ [char_of (48 + n mod 10)])"

declare show_nat.simps [simp del]

definition show_int :: "int \<Rightarrow> string" where
  "show_int i = (if i < 0 then CHR ''-'' # show_nat (nat (- i)) else show_nat (nat i))"

lemma is_digit_char_of [simp]: "d < 10 \<Longrightarrow> is_digit (char_of (48 + d :: nat))"
proof -
  assume "d < 10"
  then have "code (char_of (48 + d)) = 48 + d" by simp
  with \<open>d < 10\<close> show ?thesis
    unfolding is_digit_def in_range_def by (simp add: code_def)
qed

lemma digits_val_show_nat:
  "digits_val acc (show_nat n @ r) = digits_val (acc * 10 ^ length (show_nat n) + int n) r"
proof (induction n arbitrary: r rule: show_nat.induct)
  case (1 n)
  show ?case
  proof (cases "n < 10")
    case True
    then show ?thesis by (simp add: show_nat.simps [of n])
  next
    case False
    have n: "int n = int (n div 10) * 10 + int (n mod 10)"
      by presburger
    from False 1 have "digits_val acc (show_nat n @ r)
        = digits_val ((acc * 10 ^ length (show_nat (n div 10)) + int (n div 10)) * 10 + int (n mod 10)) r"
      by (simp add: show_nat.simps [of n])
    with False show ?thesis
      by (subst n) (simp add: show_nat.simps [of n] algebra_simps)
  qed
qed

lemma show_nat_digits: "c \<in> set (show_nat n) \<Longrightarrow> is_digit c"
proof (induction n rule: show_nat.induct)
  case (1 n)
  then show ?case
    by (cases "n < 10") (auto simp: show_nat.simps [of n])
qed

lemma show_nat_not_Nil [simp]: "show_nat n \<noteq> []"
  by (subst show_nat.simps) simp

lemma hd_show_nat_digit [simp]: "is_digit (hd (show_nat n))"
  by (rule show_nat_digits [of _ n]) simp

lemma is_digit_not_space: "is_digit c \<Longrightarrow> \<not> isspace c \<and> c \<noteq> CHR ''-'' \<and> c \<noteq> CHR ''+''"
  by (auto simp: is_digit_def in_range_def isspace_def code_def)

text \<open>Reading back a printed number: the value within the range of \<^verbatim>\<open>long\<close>, nothing left over.\<close>

lemma strtol_show_nat: "strtol (show_nat n) = (min (2 ^ 63 - 1) (int n), [])"
proof -
  obtain c cs where s: "show_nat n = c # cs" by (cases "show_nat n") auto
  then have c: "is_digit c" using hd_show_nat_digit [of n] by simp
  have "digits_val 0 (show_nat n) = (int n, [])"
    using digits_val_show_nat [of 0 n "[]"] by simp
  with s c is_digit_not_space [OF c] show ?thesis
    by (auto simp: strtol_def Let_def clamp_long_def)
qed

lemma sint_of_small: "0 \<le> i \<Longrightarrow> i < 2 ^ 31 \<Longrightarrow> sint (word_of_int i :: 32 word) = i"
  by (simp add: sint_sbintrunc' signed_take_bit_int_eq_self)

lemma atoi_show_nat: "n < 2 ^ 31 \<Longrightarrow> atoi (show_nat n) = int n"
  using sint_of_small [of "int n"] by (simp add: atoi_def strtol_show_nat min_def)

section \<open>Repeated operations\<close>

text \<open>Apply an operation that may end the object's life \<open>n\<close> times.\<close>

primrec iter_opt :: "nat \<Rightarrow> ('a \<Rightarrow> 'a option) \<Rightarrow> 'a \<Rightarrow> 'a option" where
  "iter_opt 0 f x = Some x"
| "iter_opt (Suc n) f x = (case f x of None \<Rightarrow> None | Some y \<Rightarrow> iter_opt n f y)"

section \<open>Runs of code that may fault or not end\<close>

text \<open>None when the fuel of a loop is spent, a fault, or the result.\<close>

type_synonym 'a run = "(fault + 'a) option"

definition ok :: "'a \<Rightarrow> 'a run" where
  "ok x = Some (Inr x)"

definition failed :: "fault \<Rightarrow> 'a run" where
  "failed f = Some (Inl f)"

definition seq :: "'a run \<Rightarrow> ('a \<Rightarrow> 'b run) \<Rightarrow> 'b run" where
  "seq m k = (case m of None \<Rightarrow> None | Some (Inl f) \<Rightarrow> Some (Inl f) | Some (Inr x) \<Rightarrow> k x)"

lemma seq_simps [simp]:
  "seq (ok x) k = k x" "seq (failed f) k = failed f" "seq None k = None"
  by (simp_all add: seq_def ok_def failed_def)

lemma ok_inject [simp]: "ok x = ok y \<longleftrightarrow> x = y" "ok x \<noteq> failed f" "failed f \<noteq> ok x" "ok x \<noteq> None"
  by (simp_all add: ok_def failed_def)

lemma seq_assoc: "seq (seq m f) g = seq m (\<lambda>x. seq (f x) g)"
  by (simp add: seq_def split: option.splits sum.splits)

lemma seq_ok: "seq m k = ok y \<longleftrightarrow> (\<exists>x. m = ok x \<and> k x = ok y)"
  by (auto simp: seq_def ok_def split: option.splits sum.splits)

text \<open>A run with more fuel: it agrees wherever the first one ended.\<close>

definition with_more_fuel :: "'a run \<Rightarrow> 'a run \<Rightarrow> bool" where
  "with_more_fuel m m' \<longleftrightarrow> m = None \<or> m' = m"

lemma with_more_fuel_refl [simp, intro]: "with_more_fuel m m" "with_more_fuel None m"
  by (simp_all add: with_more_fuel_def)

lemma with_more_fuel_seq [intro]:
  "with_more_fuel m m' \<Longrightarrow> (\<And>x. with_more_fuel (k x) (k' x)) \<Longrightarrow> with_more_fuel (seq m k) (seq m' k')"
  by (auto simp: with_more_fuel_def seq_def split: option.splits sum.splits)

lemma with_more_fuel_trans: "with_more_fuel a b \<Longrightarrow> with_more_fuel b c \<Longrightarrow> with_more_fuel a c"
  by (auto simp: with_more_fuel_def)

lemma with_more_fuel_ok: "with_more_fuel m m' \<Longrightarrow> m = ok x \<Longrightarrow> m' = ok x"
  by (auto simp: with_more_fuel_def)

lemma with_more_fuel_le:
  assumes "\<And>n. with_more_fuel (f n) (f (Suc n))" and "n \<le> m"
  shows "with_more_fuel (f n) (f m)"
  using assms(2)
proof (induction m)
  case (Suc m)
  then show ?case using assms(1) with_more_fuel_trans by (cases "n = Suc m") (auto simp: le_Suc_eq)
qed simp

section \<open>Steps that may fault\<close>

definition then_do :: "'f + 'a \<Rightarrow> ('a \<Rightarrow> 'f + 'b) \<Rightarrow> 'f + 'b" where
  "then_do m k = (case m of Inl f \<Rightarrow> Inl f | Inr x \<Rightarrow> k x)"

lemma then_do_simps [simp]: "then_do (Inr x) k = k x" "then_do (Inl f) k = Inl f"
  by (simp_all add: then_do_def)

lemma then_do_Inr: "then_do m k = Inr y \<longleftrightarrow> (\<exists>x. m = Inr x \<and> k x = Inr y)"
  by (cases m) simp_all

lemma then_do_cong [fundef_cong]: "m = m' \<Longrightarrow> (\<And>x. m' = Inr x \<Longrightarrow> k x = k' x) \<Longrightarrow> then_do m k = then_do m' k'"
  by (cases m') simp_all

text \<open>A loop over a list.\<close>

lemma map_sum_Inr: "map_sum id f x = Inr y \<longleftrightarrow> (\<exists>z. x = Inr z \<and> y = f z)"
  by (cases x) auto

fun fold_sum :: "('x \<Rightarrow> 's \<Rightarrow> 'f + 's) \<Rightarrow> 'x list \<Rightarrow> 's \<Rightarrow> 'f + 's" where
  "fold_sum f [] s = Inr s"
| "fold_sum f (x # xs) s = then_do (f x s) (fold_sum f xs)"

lemma fold_sum_inv:
  "fold_sum f xs s = Inr s' \<Longrightarrow> P s \<Longrightarrow> (\<And>x s s'. x \<in> set xs \<Longrightarrow> P s \<Longrightarrow> f x s = Inr s' \<Longrightarrow> P s') \<Longrightarrow> P s'"
proof (induction xs arbitrary: s)
  case (Cons x xs)
  then obtain s1 where "f x s = Inr s1" "fold_sum f xs s1 = Inr s'" by (auto simp: then_do_Inr)
  with Cons.IH [OF this(2)] Cons.prems(2,3) show ?case by auto
qed simp

lemma fold_sum_append: "fold_sum f (xs @ ys) s = then_do (fold_sum f xs s) (fold_sum f ys)"
  by (induction xs arbitrary: s) (auto simp: then_do_def split: sum.split)

section \<open>Lists\<close>

lemma takeWhile_neq_append_Cons:
  "c \<notin> set a \<Longrightarrow> takeWhile (\<lambda>x. x \<noteq> c) (a @ c # b) = a"
  by (induction a) auto

text \<open>\<^verbatim>\<open>sscanf\<close> with \<^verbatim>\<open>%u\<close>, which reads like \<^verbatim>\<open>strtoul\<close> and keeps 32 bits.\<close>

definition scan_unsigned :: "string \<Rightarrow> u32 option" where
  "scan_unsigned s =
     (let t = dropWhile isspace s;
          neg = (t \<noteq> [] \<and> hd t = CHR ''-'');
          u = (if t \<noteq> [] \<and> (hd t = CHR ''-'' \<or> hd t = CHR ''+'') then tl t else t)
      in if u = [] \<or> \<not> is_digit (hd u) then None
         else (let v = fst (digits_val 0 u)
               in Some (word_of_int (if v \<ge> 2 ^ 64 then 2 ^ 64 - 1 else if neg then - v else v))))"

text \<open>Strings joined by a separator.\<close>

fun join :: "char \<Rightarrow> string list \<Rightarrow> string" where
  "join d [] = []"
| "join d [e] = e"
| "join d (e # es) = e @ d # join d es"

lemma join_Cons: "es \<noteq> [] \<Longrightarrow> join d (e # es) = e @ d # join d es"
  by (cases es) auto

text \<open>The parts of a string between the occurrences of a separator.\<close>

fun split_on :: "char \<Rightarrow> string \<Rightarrow> string list" where
  "split_on d [] = [[]]"
| "split_on d (c # s) =
     (if c = d then [] # split_on d s
      else (case split_on d s of [] \<Rightarrow> [[c]] | e # es \<Rightarrow> (c # e) # es))"

lemma split_on_part: "d \<notin> set e \<Longrightarrow> split_on d e = [e]"
  by (induction e) auto

lemma split_on_append: "d \<notin> set e \<Longrightarrow> split_on d (e @ d # s) = e # split_on d s"
  by (induction e) auto

lemma split_on_join: "es \<noteq> [] \<Longrightarrow> \<forall>e\<in>set es. d \<notin> set e \<Longrightarrow> split_on d (join d es) = es"
  by (induction d es rule: join.induct) (auto simp: split_on_part split_on_append)

lemma sum_list_append_map:
  "sum_list (map f (xs @ [x])) = sum_list (map f xs) + (f x :: nat)"
  by simp

section \<open>Bytes\<close>

lemma byte_eqI8:
  fixes v w :: byte
  assumes "bit v 0 = bit w 0" "bit v 1 = bit w 1" "bit v 2 = bit w 2" "bit v 3 = bit w 3"
    "bit v 4 = bit w 4" "bit v 5 = bit w 5" "bit v 6 = bit w 6" "bit v 7 = bit w 7"
  shows "v = w"
proof (rule bit_word_eqI)
  fix n
  assume "n < LENGTH(8)"
  then have "n \<in> {0, 1, 2, 3, 4, 5, 6, 7}" by auto
  with assms show "bit v n = bit w n" by auto
qed

end
