(* ===== verification/Interfaces.thy ===== *)
theory Interfaces
  imports Prelude
begin

text \<open>
  The contracts that several components of the server share, each as a locale: the
  operations a client calls are its parameters, the laws the provider promises its
  assumptions, and what a client may conclude is proved once inside it. Every component
  that offers such operations interprets the locale on its own definitions.

  \<^item> \<open>codec\<close>: an encoder and a decoder that inverts it (URL escaping, base64, hex).
  \<^item> \<open>refcounted\<close>: an object with a reference counter (acl, playlist, match file).
  \<^item> \<open>kv_store\<close>: a string dictionary (util\_dict).
  \<^item> \<open>fifo\<close>: a queue that may be bounded (event queue, authentication queue, stats queue).
\<close>

section \<open>Encoder and decoder\<close>

locale codec =
  fixes enc :: "'a \<Rightarrow> 'b"
    and dec :: "'b \<Rightarrow> 'a option"
    and valid :: "'a \<Rightarrow> bool"
  assumes dec_enc: "valid x \<Longrightarrow> dec (enc x) = Some x"
begin

lemma enc_inject: "valid x \<Longrightarrow> valid y \<Longrightarrow> enc x = enc y \<longleftrightarrow> x = y"
  by (metis dec_enc option.inject)

lemma dec_map_enc: "\<forall>x\<in>set xs. valid x \<Longrightarrow> map (\<lambda>x. dec (enc x)) xs = map Some xs"
  by (simp add: dec_enc)

end

section \<open>Reference counting\<close>

locale refcounted =
  fixes count :: "'o \<Rightarrow> nat"
    and addref :: "'o \<Rightarrow> 'o"
    and release :: "'o \<Rightarrow> 'o option"
  assumes count_addref: "count (addref x) = Suc (count x)"
    and release_last: "count x = 1 \<Longrightarrow> release x = None"
    and release_more: "1 < count x \<Longrightarrow> \<exists>y. release x = Some y \<and> count y = count x - 1"
begin

lemma count_addrefs: "count ((addref ^^ n) x) = count x + n"
  by (induction n) (auto simp: count_addref)

lemma alive_below: "n < count x \<Longrightarrow> \<exists>y. iter_opt n release x = Some y \<and> count y = count x - n"
proof (induction n arbitrary: x)
  case (Suc n)
  then have "1 < count x" by simp
  then obtain y where y: "release x = Some y" "count y = count x - 1"
    using release_more by blast
  with Suc.prems have "n < count y" by simp
  with Suc.IH y show ?case by fastforce
qed simp

lemma freed_at: "count x = Suc n \<Longrightarrow> iter_opt (Suc n) release x = None"
proof (induction n arbitrary: x)
  case 0
  then show ?case by (simp add: release_last)
next
  case (Suc n)
  then obtain y where "release x = Some y" "count y = Suc n"
    using release_more [of x] by auto
  with Suc.IH [of y] show ?case by simp
qed

text \<open>
  The contract in one statement: after \<open>n\<close> further references the object survives
  exactly \<open>count x + n - 1\<close> releases and the next one frees it.
\<close>

lemma balanced:
  assumes "0 < count x"
  shows "iter_opt (count x + n) release ((addref ^^ n) x) = None"
    and "m < count x + n \<Longrightarrow> iter_opt m release ((addref ^^ n) x) \<noteq> None"
proof -
  show "iter_opt (count x + n) release ((addref ^^ n) x) = None"
    using freed_at [of "(addref ^^ n) x" "count x + n - 1"] assms by (simp add: count_addrefs)
  assume "m < count x + n"
  then show "iter_opt m release ((addref ^^ n) x) \<noteq> None"
    using alive_below [of m "(addref ^^ n) x"] by (auto simp: count_addrefs)
qed

end

section \<open>Dictionaries\<close>

locale kv_store =
  fixes get :: "'s \<Rightarrow> 'k \<Rightarrow> 'v option"
    and put :: "'k \<Rightarrow> 'v \<Rightarrow> 's \<Rightarrow> 's"
    and wf :: "'s \<Rightarrow> bool"
  assumes get_put: "wf s \<Longrightarrow> get (put k v s) = (get s)(k \<mapsto> v)"
    and wf_put: "wf s \<Longrightarrow> wf (put k v s)"
begin

lemma wf_fold_put: "wf s \<Longrightarrow> wf (fold (\<lambda>(k, v). put k v) kvs s)"
  by (induction kvs arbitrary: s) (auto simp: wf_put)

text \<open>Storing a list of pairs in order leaves, for every key, the last pair stored.\<close>

lemma get_fold_put:
  "wf s \<Longrightarrow> get (fold (\<lambda>(k, v). put k v) kvs s) = get s ++ map_of (rev kvs)"
proof (induction kvs arbitrary: s)
  case (Cons kv kvs)
  then show ?case
    by (cases kv) (auto simp: get_put wf_put map_add_def fun_eq_iff split: option.splits)
qed simp

end

section \<open>Queues\<close>

locale fifo =
  fixes contents :: "'q \<Rightarrow> 'a list"
    and push :: "'a \<Rightarrow> 'q \<Rightarrow> 'q"
    and pop :: "'q \<Rightarrow> ('a \<times> 'q) option"
    and room :: "'q \<Rightarrow> bool"
  assumes push_room: "room q \<Longrightarrow> contents (push x q) = contents q @ [x]"
    and push_full: "\<not> room q \<Longrightarrow> contents (push x q) = contents q"
    and pop_None: "pop q = None \<longleftrightarrow> contents q = []"
    and pop_Some: "pop q = Some (x, q') \<Longrightarrow> contents q = x # contents q'"
begin

lemma pop_push_empty:
  "contents q = [] \<Longrightarrow> room q \<Longrightarrow> \<exists>q'. pop (push x q) = Some (x, q') \<and> contents q' = []"
proof -
  assume "contents q = []" and "room q"
  then have c: "contents (push x q) = [x]" by (simp add: push_room)
  then obtain y q' where p: "pop (push x q) = Some (y, q')"
    using pop_None [of "push x q"] by (cases "pop (push x q)") auto
  with c pop_Some [OF p] show ?thesis by auto
qed

text \<open>Popping \<open>n\<close> times returns the first \<open>n\<close> elements in the order they were pushed.\<close>

lemma pop_order:
  "contents q = xs @ ys \<Longrightarrow>
     \<exists>q'. iter_opt (length xs) (\<lambda>(out, q). map_option (\<lambda>(x, q'). (out @ [x], q')) (pop q)) (out, q)
            = Some (out @ xs, q') \<and> contents q' = ys"
proof (induction xs arbitrary: q out)
  case (Cons x xs)
  then obtain y q1 where p: "pop q = Some (y, q1)"
    using pop_None [of q] by (cases "pop q") auto
  with Cons.prems pop_Some [OF p] have "y = x" and "contents q1 = xs @ ys" by auto
  with Cons.IH [of q1 "out @ [x]"] p show ?case by simp
qed simp

end

end
