(* ===== verification/Util_URI.thy ===== *)
theory Util_URI
  imports Interfaces
begin

text \<open>
  URIs and paths (\<^verbatim>\<open>src/src/util.c\<close>): percent escaping and unescaping, the check that a
  decoded path stays below the web root, the normalisation of a request URI, file
  extensions. The escaped form round-trips, and a path the server accepts has no empty,
  \<open>.\<close> or \<open>..\<close> component before its last one.
\<close>

section \<open>Tables and escaping\<close>

definition hexchars :: string where
  "hexchars = ''0123456789abcdef''"

text \<open>The table of the 256 flags: set for the digits and the ASCII letters only.\<close>

definition safechars :: "nat list" where
  "safechars = replicate 48 0 @ replicate 10 1 @ replicate 7 0 @ replicate 26 1
     @ replicate 6 0 @ replicate 26 1 @ replicate 133 0"

definition is_safe :: "char \<Rightarrow> bool" where
  "is_safe c \<longleftrightarrow> safechars ! code c \<noteq> 0"

definition hex :: "char \<Rightarrow> int" where
  "hex c =
     (if in_range CHR ''0'' CHR ''9'' c then int (code c) - 48
      else if in_range CHR ''A'' CHR ''F'' c then int (code c) - 65 + 10
      else if in_range CHR ''a'' CHR ''f'' c then int (code c) - 97 + 10
      else -1)"

fun url_escape_loop :: "string \<Rightarrow> string" where
  "url_escape_loop [] = []"
| "url_escape_loop (c # cs) =
     (if is_safe c then c # url_escape_loop cs
      else CHR ''%'' # hexchars ! (code c div 16) # hexchars ! (code c mod 16)
             # url_escape_loop cs)"

definition util_url_escape :: "string option \<Rightarrow> string option" where
  "util_url_escape src =
     (case src of None \<Rightarrow> None | Some s \<Rightarrow> Some (url_escape_loop s))"

text \<open>
  The loop of \<^verbatim>\<open>util_url_unescape\<close> writes the decoded bytes to a buffer; the caller sees the
  C string that starts it, so a decoded NUL cuts the result.
\<close>

fun url_unescape_loop :: "string \<Rightarrow> string option" where
  "url_unescape_loop [] = Some []"
| "url_unescape_loop (c # cs) =
     (if c = CHR ''%'' then
        (case cs of
           a # b # rest \<Rightarrow>
             if hex a = -1 \<or> hex b = -1 then None
             else map_option ((#) (char_of (nat (hex a * 16 + hex b)))) (url_unescape_loop rest)
         | _ \<Rightarrow> None)
      else if c = CHR ''#'' then Some []
      else if c = NUL then None
      else map_option ((#) c) (url_unescape_loop cs))"

definition util_url_unescape :: "string \<Rightarrow> string option" where
  "util_url_unescape src = map_option c_str (url_unescape_loop src)"

section \<open>Paths\<close>

definition is_sep :: "char \<Rightarrow> bool" where
  "is_sep c \<longleftrightarrow> c = CHR ''/'' \<or> c = CHR 0x5C"

fun verify_path_loop :: "bool \<Rightarrow> bool \<Rightarrow> string \<Rightarrow> bool" where
  "verify_path_loop dir indotseq [] = True"
| "verify_path_loop dir indotseq (c # cs) =
     (if is_sep c then
        (if indotseq then False
         else if dir then False
         else verify_path_loop True indotseq cs)
      else verify_path_loop False
             (if dir \<or> indotseq then c = CHR ''.'' else indotseq) cs)"

definition verify_path :: "string \<Rightarrow> bool" where
  "verify_path path = verify_path_loop False False path"

definition util_normalise_uri :: "string \<Rightarrow> string option" where
  "util_normalise_uri uri =
     (case uri of
        [] \<Rightarrow> None
      | c # _ \<Rightarrow>
          if c \<noteq> CHR ''/'' then None
          else (case util_url_unescape uri of
                  None \<Rightarrow> None
                | Some path \<Rightarrow> if verify_path path then Some path else None))"

definition util_get_path_from_normalised_uri :: "string \<Rightarrow> string \<Rightarrow> string" where
  "util_get_path_from_normalised_uri webroot uri = webroot @ uri"

definition util_get_path_from_uri :: "string \<Rightarrow> string \<Rightarrow> string option" where
  "util_get_path_from_uri webroot uri =
     map_option (util_get_path_from_normalised_uri webroot) (util_normalise_uri uri)"

definition util_get_extension :: "string \<Rightarrow> string" where
  "util_get_extension path = (case strrchr CHR ''.'' path of None \<Rightarrow> '''' | Some (_, ext) \<Rightarrow> ext)"

datatype content_kind = UNKNOWN_CONTENT | XSLT_CONTENT | HTML_CONTENT

definition util_check_valid_extension :: "string option \<Rightarrow> content_kind" where
  "util_check_valid_extension uri =
     (case uri of
        None \<Rightarrow> UNKNOWN_CONTENT
      | Some u \<Rightarrow>
          (case strrchr CHR ''.'' u of
             None \<Rightarrow> UNKNOWN_CONTENT
           | Some (_, p2) \<Rightarrow>
               if p2 = ''xsl'' \<or> p2 = ''xslt'' then XSLT_CONTENT
               else if p2 = ''htm'' \<or> p2 = ''html'' then HTML_CONTENT
               else UNKNOWN_CONTENT))"

section \<open>Facts about escaping\<close>

lemma hex_hexchars: "n < 16 \<Longrightarrow> hex (hexchars ! n) = int n"
proof -
  assume "n < 16"
  then have "n \<in> set [0..<16]" by simp
  moreover have "\<forall>n\<in>set [0..<16]. hex (hexchars ! n) = int n"
    by (simp add: upt_rec hexchars_def hex_def in_range_def code_def)
  ultimately show ?thesis by blast
qed

lemma safe_not_special:
  "is_safe c \<Longrightarrow> c \<noteq> CHR ''%'' \<and> c \<noteq> CHR ''#'' \<and> c \<noteq> NUL"
  by (auto simp: is_safe_def safechars_def code_def NUL_def nth_append)

lemma url_unescape_escape_loop: "no_nul s \<Longrightarrow> url_unescape_loop (url_escape_loop s) = Some s"
proof (induction s)
  case (Cons c cs)
  have "nat (int (code c div 16) * 16 + int (code c mod 16)) = code c"
    by (metis div_mult_mod_eq nat_int of_nat_add of_nat_mult of_nat_numeral)
  with Cons show ?case
    using safe_not_special [of c] by (auto simp: hex_hexchars no_nul_def)
qed simp

lemma url_escape_length: "length (url_escape_loop s) \<le> length s * 3"
  by (induction s) auto

lemma url_escape_alphabet: "c \<in> set (url_escape_loop s) \<Longrightarrow> is_safe c \<or> c = CHR ''%''"
proof (induction s)
  case (Cons d ds)
  have "n < 16 \<Longrightarrow> is_safe (hexchars ! n)" for n
  proof -
    assume "n < 16"
    then have "n \<in> set [0..<16]" by simp
    moreover have "\<forall>n\<in>set [0..<16]. is_safe (hexchars ! n)"
      by (simp add: upt_rec hexchars_def is_safe_def safechars_def code_def nth_append)
    ultimately show ?thesis by blast
  qed
  with Cons show ?case by (auto split: if_splits)
qed simp

interpretation url: codec url_escape_loop util_url_unescape no_nul
  by unfold_locales (simp add: util_url_unescape_def url_unescape_escape_loop c_str_no_nul)

text \<open>
  escaping a string and unescaping it gives the string back, the escaped form fits the
  buffer of three bytes per character that the code allocates, and it holds only letters,
  digits and the percent sign, so it is safe inside a URI.
\<close>

theorem url_escape_roundtrip:
  assumes "no_nul s"
  shows "\<exists>e. util_url_escape (Some s) = Some e \<and> util_url_unescape e = Some s
     \<and> length e \<le> length s * 3 \<and> (\<forall>c\<in>set e. is_safe c \<or> c = CHR ''%'')"
  using assms url.dec_enc [of s] url_escape_length [of s] url_escape_alphabet [of _ s]
  by (auto simp: util_url_escape_def)

theorem url_escape_roundtrip_witness:
  "\<exists>e. util_url_escape (Some ''a b#c'') = Some e \<and> util_url_unescape e = Some ''a b#c''"
proof -
  have "no_nul ''a b#c''" by (simp add: no_nul_def NUL_def)
  from url_escape_roundtrip [OF this] show ?thesis by blast
qed

section \<open>Facts about paths\<close>

text \<open>The components of a path between the separators that satisfy \<open>S\<close>.\<close>

fun components :: "(char \<Rightarrow> bool) \<Rightarrow> string \<Rightarrow> string list" where
  "components S [] = [[]]"
| "components S (c # cs) =
     (if S c then [] # components S cs
      else (case components S cs of [] \<Rightarrow> [[c]] | k # ks \<Rightarrow> (c # k) # ks))"

text \<open>A component that is not made of dots only (the empty one is).\<close>

definition proper :: "string \<Rightarrow> bool" where
  "proper k \<longleftrightarrow> (\<exists>x\<in>set k. x \<noteq> CHR ''.'')"

lemma not_is_sep_dot [simp]: "\<not> is_sep CHR ''.''"
  by (simp add: is_sep_def)

lemma proper_Cons [simp]: "proper (c # k) \<longleftrightarrow> c \<noteq> CHR ''.'' \<or> proper k"
  by (auto simp: proper_def)

lemma proper_Nil [simp]: "\<not> proper []"
  by (simp add: proper_def)

lemma components_not_Nil [simp]: "components S p \<noteq> []"
  by (cases p) (auto split: list.splits)

text \<open>
  What the two flags of the scan stand for: with one of them set the current component has
  held dots only so far, so it must still become proper; with neither set it is settled.
\<close>

lemma verify_path_loop_sound:
  assumes "\<And>c. S c \<Longrightarrow> is_sep c"
  shows "verify_path_loop d i p \<Longrightarrow>
     \<forall>k\<in>set (butlast (if d \<or> i then components S p else tl (components S p))). proper k"
proof (induction d i p rule: verify_path_loop.induct)
  case (2 d i c cs)
  obtain k ks where ks: "components S cs = k # ks"
    by (cases "components S cs") auto
  show ?case
  proof (cases "is_sep c")
    case True
    with "2.prems" have n: "\<not> d" "\<not> i" and "verify_path_loop True False cs"
      by (auto split: if_splits)
    with "2.IH"(1) [OF True] have IH: "\<forall>k\<in>set (butlast (components S cs)). proper k" by simp
    from True have "c \<noteq> CHR ''.''" by (auto simp: is_sep_def)
    with n IH ks show ?thesis by (auto split: if_splits)
  next
    case False
    with assms have "\<not> S c" by blast
    with False "2.prems" "2.IH"(2) [OF False] ks show ?thesis
      by (cases "c = CHR ''.''") (auto split: if_splits)
  qed
qed simp

lemma verify_path_loop_complete:
  "\<not> (d \<and> i) \<Longrightarrow>
   \<forall>k\<in>set (butlast (if d \<or> i then components is_sep p else tl (components is_sep p))). proper k
   \<Longrightarrow> verify_path_loop d i p"
proof (induction d i p rule: verify_path_loop.induct)
  case (2 d i c cs)
  obtain k ks where "components is_sep cs = k # ks"
    by (cases "components is_sep cs") auto
  with 2 show ?case
    by (cases "c = CHR ''.''") (auto split: if_splits)
qed simp

lemma verify_path_iff:
  "verify_path p \<longleftrightarrow> (\<forall>k\<in>set (butlast (tl (components is_sep p))). proper k)"
  using verify_path_loop_sound [of is_sep False False p] verify_path_loop_complete [of False False p]
  by (auto simp: verify_path_def)

text \<open>
  A lexical walk from the web root: a proper name goes one directory down, \<open>..\<close> one up.
  The walk fails when it leaves the root.
\<close>

fun climb :: "nat \<Rightarrow> string list \<Rightarrow> nat option" where
  "climb d [] = Some d"
| "climb d (k # ks) =
     (if k = [] \<or> k = ''.'' then climb d ks
      else if k = ''..'' then (case d of 0 \<Rightarrow> None | Suc e \<Rightarrow> climb e ks)
      else climb (Suc d) ks)"

lemma climb_proper:
  "\<forall>k\<in>set ks. proper k \<Longrightarrow> l \<noteq> ''..'' \<Longrightarrow> climb d (ks @ [l]) \<noteq> None"
  by (induction ks arbitrary: d) auto

lemma normalise_uri_SomeD:
  assumes "util_normalise_uri uri = Some p"
  shows "verify_path p" and "\<exists>q. p = CHR ''/'' # q"
proof -
  from assms obtain cs where uri: "uri = CHR ''/'' # cs"
    and u: "util_url_unescape uri = Some p" and v: "verify_path p"
    by (auto simp: util_normalise_uri_def split: list.splits if_splits option.splits)
  from v show "verify_path p" .
  from uri u show "\<exists>q. p = CHR ''/'' # q"
    by (auto simp: util_url_unescape_def c_str_def NUL_def)
qed

text \<open>
  C39: a request URI that the server accepts names a path below the web root. The path starts
  with a slash; whether the platform separates directories by the slash alone or by the
  backslash too, no component between the first separator and the last one is empty or made of
  dots, and unless the last component is \<open>..\<close> a walk along the path never leaves the root.
\<close>

theorem normalise_uri_stays_below_root:
  assumes "util_normalise_uri uri = Some p"
    and "S = is_sep \<or> S = (\<lambda>c. c = CHR ''/'')"
  shows "hd p = CHR ''/''
     \<and> (\<forall>k\<in>set (butlast (tl (components S p))). proper k)
     \<and> (last (components S p) \<noteq> ''..'' \<longrightarrow> climb 0 (components S p) \<noteq> None)"
proof -
  from normalise_uri_SomeD [OF assms(1)] obtain q
    where p: "p = CHR ''/'' # q" and v: "verify_path p" by blast
  from assms(2) have S: "\<And>c. S c \<Longrightarrow> is_sep c" and "S CHR ''/''"
    by (auto simp: is_sep_def)
  with p have c: "components S p = [] # components S q" by simp
  from verify_path_loop_sound [where S = S and d = False and i = False and p = p, OF S] v
  have proper: "\<forall>k\<in>set (butlast (components S q)). proper k"
    by (simp add: verify_path_def c)
  have "climb 0 (components S q) \<noteq> None" if "last (components S q) \<noteq> ''..''"
    using climb_proper [of "butlast (components S q)" "last (components S q)"] proper that by simp
  with proper show ?thesis
    unfolding c by (simp add: p)
qed

theorem normalise_uri_stays_below_root_witness:
  "util_normalise_uri ''/a/b%2Fc.ogg'' = Some ''/a/b/c.ogg''
   \<and> climb 0 (components is_sep ''/a/b/c.ogg'') \<noteq> None"
proof -
  have u: "util_normalise_uri ''/a/b%2Fc.ogg'' = Some ''/a/b/c.ogg''"
    by code_simp
  show ?thesis
    using u normalise_uri_stays_below_root [OF u, of is_sep] by (simp add: is_sep_def)
qed

text \<open>
  the check is exactly the rule above, in both directions: a path is accepted if and only if
  every component strictly between the first and the last separator holds a character other than
  a dot. The last component is not looked at, so \<open>/..\<close> is accepted.
\<close>

theorem verify_path_characterisation:
  "verify_path p = (\<forall>k\<in>set (butlast (tl (components is_sep p))). proper k)
   \<and> util_normalise_uri ''/..'' = Some ''/..''"
  using verify_path_iff
  by (simp add: util_normalise_uri_def util_url_unescape_def c_str_def NUL_def verify_path_def
      is_sep_def)

theorem verify_path_characterisation_witness:
  "\<not> verify_path ''/a/../b''"
  using verify_path_characterisation [of "''/a/../b''"] by (simp add: is_sep_def)

end
