(* ===== verification/Util_Base64.thy ===== *)
theory Util_Base64
  imports Util_URI
begin

unbundle bit_operations_syntax

text \<open>
  Base64 and hexadecimal (\<^verbatim>\<open>src/src/util.c\<close>): \<^verbatim>\<open>util_base64_encode\<close>,
  \<^verbatim>\<open>util_base64_decode\<close> and \<^verbatim>\<open>util_bin_to_hex\<close> on bytes, with the code's own tables and
  bit operations. Decoding an encoding gives the data back (padded with NUL bytes to a
  multiple of three, as the code writes them), and neither direction leaves the buffer it
  allocates.
\<close>

section \<open>Definitions\<close>

definition base64table :: string where
  "base64table = ''ABCDEFGHIJKLMNOPQRSTUVWXYZabcdefghijklmnopqrstuvwxyz0123456789+/''"

text \<open>The 256 entries: -2 for a character outside the alphabet, -1 for the padding sign.\<close>

definition base64decode :: "int list" where
  "base64decode = replicate 43 (-2) @ [62] @ replicate 3 (-2) @ [63] @ map int [52..<62]
     @ replicate 3 (-2) @ [-1] @ replicate 3 (-2) @ map int [0..<26] @ replicate 6 (-2)
     @ map int [26..<52] @ replicate 133 (-2)"

definition b64sym :: "byte \<Rightarrow> char" where
  "b64sym w = base64table ! unat w"

definition b64val :: "char \<Rightarrow> int" where
  "b64val c = base64decode ! code c"

text \<open>
  The loop of the encoder. In the last round of a single byte the code reads the byte after
  the data as well; \<open>after\<close> is the byte found there (NUL behind a C string).
\<close>

fun base64_encode_loop :: "byte \<Rightarrow> byte list \<Rightarrow> string" where
  "base64_encode_loop after [] = []"
| "base64_encode_loop after [a] =
     [b64sym (drop_bit 2 (a AND 0xFC)),
      b64sym (push_bit 4 (a AND 0x03) OR drop_bit 4 (after AND 0xF0)),
      CHR ''='', CHR ''='']"
| "base64_encode_loop after [a, b] =
     [b64sym (drop_bit 2 (a AND 0xFC)),
      b64sym (push_bit 4 (a AND 0x03) OR drop_bit 4 (b AND 0xF0)),
      b64sym (push_bit 2 (b AND 0x0F)), CHR ''='']"
| "base64_encode_loop after (a # b # c # rest) =
     b64sym (drop_bit 2 (a AND 0xFC)) #
     b64sym (push_bit 4 (a AND 0x03) OR drop_bit 4 (b AND 0xF0)) #
     b64sym (push_bit 2 (b AND 0x0F) OR drop_bit 6 (c AND 0xC0)) #
     b64sym (c AND 0x3F) # base64_encode_loop after rest"

definition util_base64_encode :: "byte \<Rightarrow> byte list \<Rightarrow> string" where
  "util_base64_encode after data = base64_encode_loop after data"

text \<open>A group of four characters gives three bytes, padding gives NUL bytes.\<close>

definition base64_group :: "int \<Rightarrow> int \<Rightarrow> int \<Rightarrow> int \<Rightarrow> byte list" where
  "base64_group v0 v1 v2 v3 =
     [push_bit 2 (word_of_int v0) OR drop_bit 4 (word_of_int v1),
      if v2 \<ge> 0 then push_bit 4 (word_of_int v1 AND 0x0F) OR drop_bit 2 (word_of_int v2) else 0,
      if v3 \<ge> 0 then push_bit 6 (word_of_int v2 AND 0x03) OR word_of_int v3 else 0]"

fun base64_decode_loop :: "string \<Rightarrow> byte list option" where
  "base64_decode_loop [] = Some []"
| "base64_decode_loop (a # b # c # d # rest) =
     (let v0 = b64val a; v1 = b64val b; v2 = b64val c; v3 = b64val d
      in if v0 < 0 \<or> v1 < 0 \<or> v2 < -1 \<or> v3 < -1 then base64_decode_loop rest
         else map_option (append (base64_group v0 v1 v2 v3)) (base64_decode_loop rest))"
| "base64_decode_loop _ = None"

definition util_base64_decode :: "string \<Rightarrow> byte list option" where
  "util_base64_decode data = base64_decode_loop data"

definition util_bin_to_hex :: "byte list \<Rightarrow> string" where
  "util_bin_to_hex data =
     concat (map (\<lambda>d. [hexchars ! unat (drop_bit 4 (d AND 0xF0)), hexchars ! unat (d AND 0x0F)]) data)"

section \<open>The tables invert each other\<close>

lemma b64val_table: "n < 64 \<Longrightarrow> b64val (base64table ! n) = int n"
proof -
  assume "n < 64"
  then have "n \<in> set [0..<64]" by simp
  moreover have "\<forall>n\<in>set [0..<64]. b64val (base64table ! n) = int n"
    by code_simp
  ultimately show ?thesis by blast
qed

lemma b64val_pad: "b64val CHR ''='' = -1"
  by code_simp

lemma b64val_sym: "unat w < 64 \<Longrightarrow> b64val (b64sym w) = int (unat w)"
  by (simp add: b64sym_def b64val_table)

lemma word_of_int_unat [simp]: "word_of_int (int (unat w)) = w"
  by simp

section \<open>Six-bit groups\<close>

lemma unat_mask_less:
  fixes w :: byte
  shows "unat (w AND 0x3F) < 64"
proof -
  have "w AND 0x3F \<le> 0x3F" by (rule word_and_le1)
  then show ?thesis by (simp add: word_le_nat_alt)
qed

lemma six_bit: "(w :: byte) = w AND 0x3F \<Longrightarrow> unat w < 64"
  using unat_mask_less [of w] by simp

lemma sym_small [simp]:
  fixes a b :: byte
  shows "unat (drop_bit 2 (a AND 0xFC)) < 64"
    and "unat (push_bit 4 (a AND 0x03) OR drop_bit 4 (b AND 0xF0)) < 64"
    and "unat (push_bit 4 (a AND 0x03)) < 64"
    and "unat (push_bit 2 (b AND 0x0F)) < 64"
    and "unat (push_bit 2 (a AND 0x0F) OR drop_bit 6 (b AND 0xC0)) < 64"
    and "unat (a AND 0x3F) < 64"
  by (rule six_bit, rule byte_eqI8; simp add: bit_simps)+

declare push_bit_and [simp del] drop_bit_and [simp del]

text \<open>The three decoding steps undo the four encoding steps.\<close>

lemma regroup [simp]:
  fixes a b c :: byte
  shows "push_bit 2 (drop_bit 2 (a AND 0xFC))
           OR drop_bit 4 (push_bit 4 (a AND 0x03) OR drop_bit 4 (b AND 0xF0)) = a"
    and "push_bit 2 (drop_bit 2 (a AND 0xFC)) OR drop_bit 4 (push_bit 4 (a AND 0x03)) = a"
    and "push_bit 4 ((push_bit 4 (a AND 0x03) OR drop_bit 4 (b AND 0xF0)) AND 0x0F)
           OR drop_bit 2 (push_bit 2 (b AND 0x0F) OR drop_bit 6 (c AND 0xC0)) = b"
    and "push_bit 4 ((push_bit 4 (a AND 0x03) OR drop_bit 4 (b AND 0xF0)) AND 0x0F)
           OR drop_bit 2 (push_bit 2 (b AND 0x0F)) = b"
    and "push_bit 6 ((push_bit 2 (b AND 0x0F) OR drop_bit 6 (c AND 0xC0)) AND 0x03)
           OR (c AND 0x3F) = c"
  by (rule byte_eqI8; simp add: bit_simps)+

lemma uint_not_below [simp]: "\<not> uint w < - 1"
  using uint_ge_0 [of w] by linarith

lemma replicate_two: "replicate 2 x = [x, x]"
  by (simp add: numeral_2_eq_2)

lemma base64_roundtrip_loop:
  "after AND 0xF0 = 0 \<Longrightarrow> base64_decode_loop (base64_encode_loop after bs)
     = Some (bs @ replicate ((3 - length bs mod 3) mod 3) 0)"
proof (induction after bs rule: base64_encode_loop.induct)
  case (2 after a)
  then have "base64_encode_loop after [a] = [b64sym (drop_bit 2 (a AND 0xFC)),
      b64sym (push_bit 4 (a AND 0x03) OR drop_bit 4 (0 AND 0xF0)), CHR ''='', CHR ''='']"
    by simp
  then show ?case
    by (simp del: base64_encode_loop.simps
        add: Let_def b64val_sym b64val_pad base64_group_def replicate_two)
next
  case (3 after a b)
  then show ?case by (simp add: Let_def b64val_sym b64val_pad base64_group_def)
next
  case (4 after a b c rest)
  then show ?case by (simp add: Let_def b64val_sym base64_group_def mod_Suc_eq)
qed simp

section \<open>Buffer sizes\<close>

lemma base64_encode_length: "length (base64_encode_loop after bs) = (length bs + 2) div 3 * 4"
proof (induction after bs rule: base64_encode_loop.induct)
  case (4 after a b c rest)
  have "(length (a # b # c # rest) + 2) div 3 = Suc ((length rest + 2) div 3)"
    by simp
  with 4 show ?case by simp
qed simp_all

lemma base64_decode_length:
  "base64_decode_loop s = Some out \<Longrightarrow> 4 * length out \<le> 3 * length s"
proof (induction s arbitrary: out rule: base64_decode_loop.induct)
  case (2 a b c d rest)
  then show ?case
    by (fastforce simp: Let_def base64_group_def split: if_splits)
qed auto

lemma base64_decode_None: "base64_decode_loop s = None \<longleftrightarrow> length s mod 4 \<noteq> 0"
  by (induction s rule: base64_decode_loop.induct) (auto simp: Let_def)

text \<open>Over C strings the padding NUL bytes end the string, and the round trip is exact.\<close>

interpretation b64: codec "util_base64_encode 0"
  "\<lambda>s. map_option (takeWhile (\<lambda>b. b \<noteq> 0)) (util_base64_decode s)" "\<lambda>bs. 0 \<notin> set bs"
proof
  fix bs :: "byte list"
  assume "0 \<notin> set bs"
  then show "map_option (takeWhile (\<lambda>b. b \<noteq> 0)) (util_base64_decode (util_base64_encode 0 bs)) = Some bs"
    by (auto simp: util_base64_encode_def util_base64_decode_def base64_roundtrip_loop takeWhile_append)
qed

text \<open>
  decoding an encoded block gives the block back, followed by the NUL bytes that stand for
  the padding, and as a C string it is the block itself. The high four bits of the byte behind the
  data, which the encoder reads for a block of length one modulo three, must be clear, as they are
  behind every C string.
\<close>

theorem base64_roundtrip:
  assumes "after AND 0xF0 = 0"
  shows "util_base64_decode (util_base64_encode after bs)
           = Some (bs @ replicate ((3 - length bs mod 3) mod 3) 0)
         \<and> (0 \<notin> set bs \<longrightarrow>
            map_option (takeWhile (\<lambda>b. b \<noteq> 0)) (util_base64_decode (util_base64_encode 0 bs)) = Some bs)"
  using b64.dec_enc [of bs] base64_roundtrip_loop [OF assms, of bs]
  by (simp add: util_base64_encode_def util_base64_decode_def)

theorem base64_roundtrip_witness:
  "util_base64_decode (util_base64_encode 0 [104, 105]) = Some [104, 105, 0]"
  using base64_roundtrip [of 0 "[104, 105]"] by simp

text \<open>
  both directions stay inside the buffers the code allocates, the terminating NUL included:
  \<open>len * 4 / 3 + 4\<close> bytes for the encoder and \<open>len * 3 / 4 + 5\<close> for the decoder; and the decoder
  refuses exactly the strings whose length is not a multiple of four.
\<close>

theorem base64_buffers_suffice:
  "length (util_base64_encode after bs) + 1 \<le> length bs * 4 div 3 + 4
   \<and> (case util_base64_decode s of
        None \<Rightarrow> length s mod 4 \<noteq> 0
      | Some out \<Rightarrow> length s mod 4 = 0 \<and> length out + 1 \<le> length s * 3 div 4 + 5)"
proof -
  have "length (util_base64_encode after bs) + 1 \<le> length bs * 4 div 3 + 4"
    unfolding util_base64_encode_def base64_encode_length by presburger
  moreover have "length out + 1 \<le> length s * 3 div 4 + 5" if "util_base64_decode s = Some out" for out
    using base64_decode_length [of s out] that by (simp add: util_base64_decode_def)
  ultimately show ?thesis
    using base64_decode_None [of s] by (auto simp: util_base64_decode_def split: option.splits)
qed

section \<open>Hexadecimal\<close>

fun hex_bytes :: "string \<Rightarrow> byte list option" where
  "hex_bytes [] = Some []"
| "hex_bytes (a # b # rest) =
     map_option ((#) (push_bit 4 (word_of_int (hex a)) OR word_of_int (hex b))) (hex_bytes rest)"
| "hex_bytes [_] = None"

lemma nibble_small [simp]:
  fixes d :: byte
  shows "unat (drop_bit 4 (d AND 0xF0)) < 16" and "unat (d AND 0x0F) < 16"
proof -
  have less: "unat v < 16" if "v = v AND 0x0F" for v :: byte
  proof -
    have "v AND 0x0F \<le> 0x0F" by (rule word_and_le1)
    with that show ?thesis by (simp add: word_le_nat_alt)
  qed
  show "unat (drop_bit 4 (d AND 0xF0)) < 16" and "unat (d AND 0x0F) < 16"
    by (rule less, rule byte_eqI8; simp add: bit_simps)+
qed

lemma nibbles_join:
  "push_bit 4 (drop_bit 4 (d AND 0xF0)) OR (d AND 0x0F) = (d :: byte)"
  by (rule byte_eqI8; simp add: bit_simps)

interpretation bin_hex: codec util_bin_to_hex hex_bytes "\<lambda>_. True"
proof
  fix x :: "byte list"
  show "hex_bytes (util_bin_to_hex x) = Some x"
    by (induction x)
      (simp_all add: util_bin_to_hex_def hex_hexchars nibbles_join)
qed

text \<open>
  the hexadecimal digest of a binary string is two characters per byte, and two binary
  strings have the same digest only if they are equal, which the comparison of password digests
  relies on.
\<close>

theorem bin_to_hex_faithful:
  "length (util_bin_to_hex bs) = 2 * length bs
   \<and> (util_bin_to_hex as = util_bin_to_hex bs) = (as = bs)"
proof -
  have "length (util_bin_to_hex bs) = 2 * length bs"
    by (induction bs) (simp_all add: util_bin_to_hex_def)
  then show ?thesis using bin_hex.enc_inject [of as bs] by simp
qed

end
