(* ===== verification/Util_Conv.thy ===== *)
theory Util_Conv
  imports Interfaces
begin

text \<open>
  Values in configuration strings (\<^verbatim>\<open>src/src/util.c\<close>): host names, booleans, log levels,
  signed and unsigned numbers, and the reading of one line of a file. Every branch of the
  classification is characterised, and a printed number reads back as itself modulo the
  width of the C type.
\<close>

section \<open>Definitions\<close>

datatype util_hostcheck_type =
  HOSTCHECK_ERROR | HOSTCHECK_SANE | HOSTCHECK_NOT_FQDN | HOSTCHECK_IS_LOCALHOST
  | HOSTCHECK_IS_IPV4 | HOSTCHECK_IS_IPV6 | HOSTCHECK_BADCHAR

definition ipv4_char :: "char \<Rightarrow> bool" where
  "ipv4_char c \<longleftrightarrow> is_digit c \<or> c = CHR ''.''"

definition ipv6_char :: "char \<Rightarrow> bool" where
  "ipv6_char c \<longleftrightarrow> in_range CHR ''a'' CHR ''f'' c \<or> is_digit c \<or> c = CHR '':''"

definition host_char :: "char \<Rightarrow> bool" where
  "host_char c \<longleftrightarrow> in_range CHR ''a'' CHR ''z'' c \<or> is_digit c \<or> c = CHR ''.'' \<or> c = CHR ''-''"

definition util_hostcheck :: "string option \<Rightarrow> util_hostcheck_type" where
  "util_hostcheck hostname =
     (case hostname of
        None \<Rightarrow> HOSTCHECK_ERROR
      | Some h \<Rightarrow>
          if h = ''localhost'' \<or> h = ''localhost.localdomain'' \<or> h = ''localhost.localnet''
          then HOSTCHECK_IS_LOCALHOST
          else if list_all ipv4_char h then HOSTCHECK_IS_IPV4
          else if list_all ipv6_char h \<and> count_list h CHR '':'' \<noteq> 0 then HOSTCHECK_IS_IPV6
          else if \<not> list_all host_char h then HOSTCHECK_BADCHAR
          else if strchr CHR ''.'' h = None then HOSTCHECK_NOT_FQDN
          else HOSTCHECK_SANE)"

definition util_str_to_bool :: "string option \<Rightarrow> bool" where
  "util_str_to_bool str =
     (case str of
        None \<Rightarrow> False
      | Some s \<Rightarrow>
          if s = [] then False
          else if strcaseeq s ''true'' \<or> strcaseeq s ''yes'' \<or> strcaseeq s ''on'' then True
          else atoi s \<noteq> 0)"

text \<open>The numbers of the four levels, from 4 for debug to 1 for error.\<close>

definition util_str_to_loglevel :: "string \<Rightarrow> int" where
  "util_str_to_loglevel s =
     (if strcaseeq s ''debug'' \<or> strcaseeq s ''DBUG'' then 4
      else if strcaseeq s ''information'' \<or> strcaseeq s ''INFO'' then 3
      else if strcaseeq s ''warning'' \<or> strcaseeq s ''WARN'' then 2
      else if strcaseeq s ''error'' \<or> strcaseeq s ''EROR'' then 1
      else atoi s)"

definition util_str_to_int :: "string option \<Rightarrow> int \<Rightarrow> int" where
  "util_str_to_int str default_value =
     (case str of
        None \<Rightarrow> default_value
      | Some s \<Rightarrow> if s = [] then default_value else atoi s)"

definition util_str_to_unsigned_int :: "string option \<Rightarrow> u32 \<Rightarrow> u32" where
  "util_str_to_unsigned_int str default_value =
     (case str of
        None \<Rightarrow> default_value
      | Some s \<Rightarrow>
          if s = [] then default_value
          else (let (val, rem) = strtol s
                in if rem \<noteq> [] then default_value
                   else if val < 0 then default_value
                   else word_of_int val))"

text \<open>
  \<^verbatim>\<open>fgets\<close> on the remaining bytes of a file: up to \<open>siz - 1\<close> characters, ending after a line
  feed; None at the end of the file.
\<close>

fun fgets_loop :: "nat \<Rightarrow> string \<Rightarrow> string \<times> string" where
  "fgets_loop 0 f = ([], f)"
| "fgets_loop (Suc n) [] = ([], [])"
| "fgets_loop (Suc n) (c # cs) =
     (if c = CHR 0x0A then ([c], cs)
      else (let (l, r) = fgets_loop n cs in (c # l, r)))"

definition fgets :: "nat \<Rightarrow> string \<Rightarrow> (string \<times> string) option" where
  "fgets siz f = (if f = [] then None else Some (fgets_loop (siz - 1) f))"

text \<open>One line: the trailing line feed is cut, and a carriage return before it.\<close>

definition cut_line :: "string \<Rightarrow> string" where
  "cut_line buf =
     (if buf \<noteq> [] \<and> last buf = CHR 0x0A then
        (let b = butlast buf
         in if b \<noteq> [] \<and> last b = CHR 0x0D then butlast b else b)
      else buf)"

definition get_line :: "nat \<Rightarrow> string \<Rightarrow> (string \<times> string) option" where
  "get_line siz f = map_option (\<lambda>(buf, r). (cut_line (c_str buf), r)) (fgets siz f)"

section \<open>Reading lines\<close>

lemma fgets_loop_append: "fgets_loop n f = (l, r) \<Longrightarrow> f = l @ r \<and> length l \<le> n"
  by (induction n f arbitrary: l rule: fgets_loop.induct) (auto split: if_splits prod.splits)

lemma fgets_progress: "1 < siz \<Longrightarrow> fgets siz f = Some (l, r) \<Longrightarrow> length r < length f"
  by (cases f; cases "siz - 1") (auto simp: fgets_def split: if_splits prod.splits dest: fgets_loop_append)

lemma get_line_progress: "1 < siz \<Longrightarrow> get_line siz f = Some (l, r) \<Longrightarrow> length r < length f"
  using fgets_progress by (fastforce simp: get_line_def)

lemma fgets_loop_line:
  "length l < n \<Longrightarrow> CHR 0x0A \<notin> set l \<Longrightarrow> fgets_loop n (l @ CHR 0x0A # f) = (l @ [CHR 0x0A], f)"
proof (induction l arbitrary: n)
  case Nil
  then show ?case by (cases n) auto
next
  case (Cons c l)
  then show ?case by (cases n) auto
qed

lemma cut_line_lf: "l = [] \<or> last l \<noteq> CHR 0x0D \<Longrightarrow> cut_line (l @ [CHR 0x0A]) = l"
  by (auto simp: cut_line_def)

lemma get_line_line:
  assumes "length l + 1 < siz" and "CHR 0x0A \<notin> set l" and "no_nul l" and "l = [] \<or> last l \<noteq> CHR 0x0D"
  shows "get_line siz (l @ CHR 0x0A # f) = Some (l, f)"
proof -
  have "fgets siz (l @ CHR 0x0A # f) = Some (l @ [CHR 0x0A], f)"
    using assms by (simp add: fgets_def fgets_loop_line)
  moreover have "c_str (l @ [CHR 0x0A]) = l @ [CHR 0x0A]"
    using assms(3) by (intro c_str_no_nul) (simp add: no_nul_def NUL_def)
  ultimately show ?thesis
    using assms(4) by (simp add: get_line_def cut_line_lf)
qed

text \<open>The lines a loop over \<^verbatim>\<open>get_line\<close> sees, with the buffer size of the server.\<close>

abbreviation (input) MAX_LINE_LEN :: nat where "MAX_LINE_LEN \<equiv> 512"

function all_lines :: "string \<Rightarrow> string list" where
  "all_lines input =
     (case get_line MAX_LINE_LEN input of
        None \<Rightarrow> []
      | Some (line, rest) \<Rightarrow> line # all_lines rest)"
  by pat_completeness auto
termination
  by (relation "measure length") (auto intro: get_line_progress [of 512])

declare all_lines.simps [simp del]

text \<open>A file as the list of its lines, each followed by a line feed.\<close>

definition line_ok :: "string \<Rightarrow> bool" where
  "line_ok l \<longleftrightarrow> length l < 511 \<and> CHR 0x0A \<notin> set l \<and> no_nul l \<and> (l = [] \<or> last l \<noteq> CHR 0x0D)"

definition text_of :: "string list \<Rightarrow> string" where
  "text_of ls = concat (map (\<lambda>l. l @ [CHR 0x0A]) ls)"

definition entry_line :: "string \<Rightarrow> bool" where
  "entry_line l \<longleftrightarrow> l \<noteq> [] \<and> hd l \<noteq> CHR ''#''"

lemma text_of_Cons: "text_of (l # ls) = l @ CHR 0x0A # text_of ls"
  by (simp add: text_of_def)

lemma text_of_append: "text_of (ls @ ms) = text_of ls @ text_of ms"
  by (simp add: text_of_def)

lemma all_lines_text_of: "list_all line_ok ls \<Longrightarrow> all_lines (text_of ls) = ls"
proof (induction ls)
  case Nil
  then show ?case by (simp add: text_of_def all_lines.simps get_line_def fgets_def)
next
  case (Cons l ls)
  then have "get_line MAX_LINE_LEN (l @ CHR 0x0A # text_of ls) = Some (l, text_of ls)"
    by (intro get_line_line) (auto simp: line_ok_def)
  with Cons show ?case by (subst all_lines.simps) (simp add: text_of_Cons)
qed

section \<open>Numbers and hosts\<close>

lemma str_to_unsigned_int_show:
  "util_str_to_unsigned_int (Some (show_nat n)) d = word_of_int (min (2 ^ 63 - 1) (int n))"
  by (simp add: util_str_to_unsigned_int_def strtol_show_nat min_def)

lemma util_str_to_int_show: "n < 2 ^ 31 \<Longrightarrow> util_str_to_int (Some (show_nat n)) d = int n"
  by (simp add: util_str_to_int_def atoi_show_nat)

text \<open>
  a number written in decimal reads back as itself while it fits the unsigned type; the
  next number, two to the power of 32, silently reads back as 0; a missing, empty, negative or
  partly numeric string gives the default.
\<close>

theorem str_to_unsigned_int_reads_back:
  "(n < 2 ^ 32 \<longrightarrow> unat (util_str_to_unsigned_int (Some (show_nat n)) d) = n)
   \<and> util_str_to_unsigned_int (Some (show_nat (2 ^ 32))) d = 0
   \<and> util_str_to_unsigned_int None d = d
   \<and> util_str_to_unsigned_int (Some '''') d = d
   \<and> (snd (strtol s) \<noteq> [] \<or> fst (strtol s) < 0 \<longrightarrow> util_str_to_unsigned_int (Some s) d = d)"
proof -
  have "unat (word_of_int (int n) :: u32) = n" if "n < 2 ^ 32"
    using that by (simp add: unat_of_nat take_bit_nat_eq_self)
  moreover have "(word_of_int (2 ^ 32) :: u32) = 0" by simp
  ultimately show ?thesis
    unfolding str_to_unsigned_int_show
    by (auto simp: util_str_to_unsigned_int_def min_def split: prod.splits)
qed

theorem str_to_unsigned_int_reads_back_witness:
  "unat (util_str_to_unsigned_int (Some (show_nat 8000)) 7) = 8000"
  using str_to_unsigned_int_reads_back [of 8000 7] by simp

text \<open>A name that passes as sane holds host characters only and has a dot.\<close>

lemma hostcheck_sane:
  "util_hostcheck (Some h) = HOSTCHECK_SANE \<Longrightarrow> list_all host_char h \<and> CHR ''.'' \<in> set h"
  by (auto simp: util_hostcheck_def strchr_None split: if_splits)

lemma hostcheck_ipv4:
  "util_hostcheck (Some h) = HOSTCHECK_IS_IPV4 \<longleftrightarrow> list_all ipv4_char h"
  by (auto simp: util_hostcheck_def ipv4_char_def is_digit_def in_range_def code_def split: if_splits)

lemma hostcheck_not_error: "util_hostcheck (Some h) \<noteq> HOSTCHECK_ERROR"
  by (simp add: util_hostcheck_def)

lemma str_to_loglevel_names:
  "map util_str_to_loglevel [''Debug'', ''INFO'', ''warning'', ''EROR''] = [4, 3, 2, 1]"
  by code_simp

end
