(* ===== verification/Util_Dict.thy ===== *)
theory Util_Dict
  imports Util_URI
begin

text \<open>
  String dictionaries (\<^verbatim>\<open>src/src/util.c\<close>, \<^verbatim>\<open>util_dict_*\<close>): a linked list whose nodes hold a
  key and a value, either of which may be NULL. The list is a dictionary in the sense of the
  locale \<open>kv_store\<close>, and its URL encoding can be taken apart again.
\<close>

section \<open>Definitions\<close>

text \<open>The chain of nodes from a pointer on; the NULL pointer is the empty chain.\<close>

record dict_node =
  key :: "string option"
  val :: "string option"

type_synonym util_dict = "dict_node list"

definition util_dict_new :: util_dict where
  "util_dict_new = [\<lparr>key = None, val = None\<rparr>]"

fun util_dict_get :: "util_dict \<Rightarrow> string \<Rightarrow> string option" where
  "util_dict_get [] k = None"
| "util_dict_get (n # ns) k = (if key n = Some k then val n else util_dict_get ns k)"

fun dict_set_loop :: "string \<Rightarrow> string \<Rightarrow> util_dict \<Rightarrow> util_dict" where
  "dict_set_loop k v [] = [\<lparr>key = Some k, val = Some v\<rparr>]"
| "dict_set_loop k v (n # ns) =
     (if key n = None \<or> key n = Some k then \<lparr>key = Some k, val = Some v\<rparr> # ns
      else n # dict_set_loop k v ns)"

text \<open>The return value tells whether the pair was stored.\<close>

definition util_dict_set :: "util_dict \<Rightarrow> string option \<Rightarrow> string \<Rightarrow> bool \<times> util_dict" where
  "util_dict_set dict k v =
     (case k of
        None \<Rightarrow> (False, dict)
      | Some k \<Rightarrow> if dict = [] then (False, dict) else (True, dict_set_loop k v dict))"

text \<open>The text is built from the left; \<open>res\<close> is None until the first key is written.\<close>

fun dict_urlencode_loop :: "char \<Rightarrow> string option \<Rightarrow> util_dict \<Rightarrow> string option" where
  "dict_urlencode_loop delim res [] = res"
| "dict_urlencode_loop delim res (n # ns) =
     (case key n of
        None \<Rightarrow> dict_urlencode_loop delim res ns
      | Some k \<Rightarrow>
          (let res1 = (case res of None \<Rightarrow> k | Some r \<Rightarrow> r @ delim # k)
           in case util_url_escape (val n) of
                None \<Rightarrow> dict_urlencode_loop delim (Some res1) ns
              | Some enc \<Rightarrow> dict_urlencode_loop delim (Some (res1 @ CHR ''='' # enc)) ns))"

definition util_dict_urlencode :: "util_dict \<Rightarrow> char \<Rightarrow> string option" where
  "util_dict_urlencode dict delim = dict_urlencode_loop delim None dict"

section \<open>The dictionary laws\<close>

text \<open>
  Only the node of a new dictionary has no key; the keys of the others are set and pairwise
  different, and a keyed node has a value.
\<close>

definition dict_wf :: "util_dict \<Rightarrow> bool" where
  "dict_wf d \<longleftrightarrow> d = util_dict_new
     \<or> (d \<noteq> [] \<and> (\<forall>n\<in>set d. key n \<noteq> None \<and> val n \<noteq> None) \<and> distinct (map key d))"

lemma dict_set_loop_keys:
  "\<forall>n\<in>set d. key n \<noteq> None \<Longrightarrow>
     set (map key (dict_set_loop k v d)) = insert (Some k) (set (map key d))"
  by (induction d) auto

lemma dict_set_loop_wf:
  "\<forall>n\<in>set d. key n \<noteq> None \<and> val n \<noteq> None \<Longrightarrow> distinct (map key d) \<Longrightarrow>
     (\<forall>n\<in>set (dict_set_loop k v d). key n \<noteq> None \<and> val n \<noteq> None)
     \<and> distinct (map key (dict_set_loop k v d)) \<and> dict_set_loop k v d \<noteq> []"
proof (induction d)
  case (Cons n ns)
  have "key n \<in> set (map key (dict_set_loop k v ns)) \<longleftrightarrow> key n = Some k \<or> key n \<in> set (map key ns)"
    using dict_set_loop_keys [of ns k v] Cons.prems(1) by auto
  with Cons show ?case by (cases "key n = Some k") auto
qed simp

lemma dict_set_loop_get:
  "\<forall>n\<in>set d. key n \<noteq> None \<Longrightarrow>
     util_dict_get (dict_set_loop k v d) j = (if j = k then Some v else util_dict_get d j)"
  by (induction d) auto

interpretation dict: kv_store util_dict_get "\<lambda>k v d. snd (util_dict_set d (Some k) v)" dict_wf
proof
  fix s k v
  assume "dict_wf s"
  then consider "s = util_dict_new"
    | "s \<noteq> []" "\<forall>n\<in>set s. key n \<noteq> None \<and> val n \<noteq> None" "distinct (map key s)"
    by (auto simp: dict_wf_def)
  then show "util_dict_get (snd (util_dict_set s (Some k) v)) = (util_dict_get s)(k \<mapsto> v)"
    by cases (auto simp: util_dict_set_def util_dict_new_def dict_set_loop_get fun_eq_iff)
  show "dict_wf (snd (util_dict_set s (Some k) v))"
    using \<open>dict_wf s\<close>
  proof (unfold dict_wf_def, elim disjE conjE)
    assume "s = util_dict_new"
    then show "snd (util_dict_set s (Some k) v) = util_dict_new
      \<or> (snd (util_dict_set s (Some k) v) \<noteq> []
         \<and> (\<forall>n\<in>set (snd (util_dict_set s (Some k) v)). key n \<noteq> None \<and> val n \<noteq> None)
         \<and> distinct (map key (snd (util_dict_set s (Some k) v))))"
      by (simp add: util_dict_set_def util_dict_new_def)
  next
    assume "s \<noteq> []" and "\<forall>n\<in>set s. key n \<noteq> None \<and> val n \<noteq> None" and "distinct (map key s)"
    then show "snd (util_dict_set s (Some k) v) = util_dict_new
      \<or> (snd (util_dict_set s (Some k) v) \<noteq> []
         \<and> (\<forall>n\<in>set (snd (util_dict_set s (Some k) v)). key n \<noteq> None \<and> val n \<noteq> None)
         \<and> distinct (map key (snd (util_dict_set s (Some k) v))))"
      using dict_set_loop_wf [of s k v] by (simp add: util_dict_set_def)
  qed
qed

lemma dict_wf_new: "dict_wf util_dict_new"
  by (simp add: dict_wf_def)

text \<open>
  filling a new dictionary with a list of pairs leaves a well-formed dictionary in which
  every key has the value it was last given and no other key is present; a NULL dictionary or a
  NULL key is refused and changes nothing.
\<close>

theorem dict_fill_lookup:
  "let d = fold (\<lambda>(k, v) d. snd (util_dict_set d (Some k) v)) kvs util_dict_new
   in dict_wf d \<and> util_dict_get d = map_of (rev kvs)
      \<and> util_dict_set d None x = (False, d) \<and> util_dict_set [] k x = (False, [])"
proof -
  have "util_dict_get util_dict_new = Map.empty"
    by (simp add: util_dict_new_def fun_eq_iff)
  then show ?thesis
    using dict.get_fold_put [OF dict_wf_new, of kvs] dict.wf_fold_put [OF dict_wf_new, of kvs]
    by (auto simp: Let_def util_dict_set_def split: option.splits)
qed

section \<open>URL encoding\<close>

text \<open>One entry of the encoded text, and the text as a joined list of entries.\<close>

definition dict_entry :: "dict_node \<Rightarrow> string" where
  "dict_entry n = the (key n)
     @ (case val n of None \<Rightarrow> [] | Some v \<Rightarrow> CHR ''='' # url_escape_loop v)"

definition keyed :: "dict_node \<Rightarrow> bool" where
  "keyed n \<longleftrightarrow> key n \<noteq> None"

lemma keyed_iff: "key n = Some k \<Longrightarrow> keyed n" "key n = None \<Longrightarrow> \<not> keyed n"
  by (simp_all add: keyed_def)

lemma dict_entry_keyed:
  "key n = Some k \<Longrightarrow> val n = None \<Longrightarrow> dict_entry n = k"
  "key n = Some k \<Longrightarrow> val n = Some v \<Longrightarrow> dict_entry n = k @ CHR ''='' # url_escape_loop v"
  by (simp_all add: dict_entry_def)

lemma dict_urlencode_loop_Some:
  "dict_urlencode_loop d (Some r) ns
     = Some (join d (r # map dict_entry (filter keyed ns)))"
proof (induction ns arbitrary: r)
  case (Cons n ns)
  have step: "join d ((r @ d # e) # es) = r @ d # join d (e # es)" for e es
    by (cases es) auto
  from Cons show ?case
    by (auto simp: Let_def util_url_escape_def dict_entry_keyed keyed_iff step split: option.splits)
qed simp

lemma dict_urlencode_join:
  "util_dict_urlencode ns d =
     (let es = map dict_entry (filter keyed ns)
      in if es = [] then None else Some (join d es))"
proof -
  have "dict_urlencode_loop d None ns =
     (let es = map dict_entry (filter keyed ns)
      in if es = [] then None else Some (join d es))"
    by (induction ns)
      (auto simp: Let_def util_url_escape_def dict_urlencode_loop_Some dict_entry_keyed keyed_iff
          split: option.splits)
  then show ?thesis by (simp add: util_dict_urlencode_def)
qed

lemma components_entry:
  "d \<notin> set e \<Longrightarrow> components (\<lambda>c. c = d) e = [e]"
  by (induction e) auto

lemma components_append_sep:
  "d \<notin> set e \<Longrightarrow> components (\<lambda>c. c = d) (e @ d # s) = e # components (\<lambda>c. c = d) s"
  by (induction e) auto

lemma components_join:
  "es \<noteq> [] \<Longrightarrow> \<forall>e\<in>set es. d \<notin> set e \<Longrightarrow> components (\<lambda>c. c = d) (join d es) = es"
  by (induction es rule: join.induct) (auto simp: components_entry components_append_sep)

lemma entry_no_delim:
  assumes "d \<notin> set (the (key n))" and "d \<noteq> CHR ''=''" and "d \<noteq> CHR ''%''" and "\<not> is_safe d"
  shows "d \<notin> set (dict_entry n)"
  using assms url_escape_alphabet [of d] by (auto simp: dict_entry_def split: option.splits)

text \<open>
  the encoded dictionary can be read back. Split at the delimiter, the text gives one entry
  per keyed node, in order, and splitting an entry at its first equals sign gives the key and a
  text whose unescaping is the value, provided the delimiter is not a letter, digit, equals or
  percent sign, the keys hold neither it nor an equals sign, and the values hold no NUL.
\<close>

theorem dict_urlencode_roundtrip:
  assumes delim: "\<not> is_safe d" "d \<noteq> CHR ''=''" "d \<noteq> CHR ''%''"
    and nodes: "ns \<noteq> []"
      "\<forall>n\<in>set ns. \<exists>k v. n = \<lparr>key = Some k, val = Some v\<rparr> \<and> d \<notin> set k
         \<and> CHR ''='' \<notin> set k \<and> no_nul v"
  shows "\<exists>s. util_dict_urlencode ns d = Some s
     \<and> map (\<lambda>e. map_option (\<lambda>(k, v). (k, util_url_unescape v)) (strchr CHR ''='' e))
         (components (\<lambda>c. c = d) s)
       = map (\<lambda>n. Some (the (key n), val n)) ns"
proof -
  have f: "filter keyed ns = ns"
    using nodes(2) by (intro filter_True) (auto simp: keyed_def)
  have "\<forall>e\<in>set (map dict_entry ns). d \<notin> set e"
    using entry_no_delim delim nodes(2) by fastforce
  with nodes(1) have c: "components (\<lambda>c. c = d) (join d (map dict_entry ns)) = map dict_entry ns"
    by (intro components_join) auto
  have e: "strchr CHR ''='' (dict_entry n) = Some (the (key n), url_escape_loop (the (val n)))
      \<and> util_url_unescape (url_escape_loop (the (val n))) = val n" if "n \<in> set ns" for n
    using nodes(2) that url.dec_enc by (auto simp: dict_entry_def strchr_Some)
  show ?thesis
    using nodes(1) by (simp add: dict_urlencode_join f c e)
qed

theorem dict_urlencode_roundtrip_witness:
  "\<exists>s. util_dict_urlencode [\<lparr>key = Some ''mount'', val = Some ''/a b''\<rparr>] CHR ''&'' = Some s"
proof -
  have "\<not> is_safe CHR ''&''" by code_simp
  then show ?thesis
    using dict_urlencode_roundtrip
      [of "CHR ''&''" "[\<lparr>key = Some ''mount'', val = Some ''/a b''\<rparr>]"]
    by (auto simp: no_nul_def NUL_def)
qed

end
