(* ===== verification/Util_HTTP_CN.thy ===== *)
theory Util_HTTP_CN
  imports Util_Dict
begin

text \<open>
  Content negotiation (\<^verbatim>\<open>src/src/util.c\<close>): the tokenizer for \<^verbatim>\<open>Accept\<close> style header
  values, \<^verbatim>\<open>util_parse_http_cn\<close> with its two growing arrays, the quality parameter and
  \<^verbatim>\<open>util_http_select_best\<close>. A list of items printed in the header's syntax parses back to
  itself; the parser stays inside its arrays; the selection returns an offered option of the
  best quality. The fault values mark the reads the code makes outside an object.
\<close>

section \<open>Tokens\<close>

fun skip_space :: "string \<Rightarrow> string" where
  "skip_space [] = []"
| "skip_space (c # cs) = (if c = CHR '' '' then skip_space cs else c # cs)"

definition is_token :: "char \<Rightarrow> bool" where
  "is_token c \<longleftrightarrow> in_range CHR ''a'' CHR ''z'' c \<or> in_range CHR ''A'' CHR ''Z'' c \<or> is_digit c
     \<or> c \<in> set ''!#$%&*+-.^_|~/'' \<or> c = CHR 0x27"

datatype tokenizer_result =
  TOKENIZER_RESULT_COMMA | TOKENIZER_RESULT_EQ | TOKENIZER_RESULT_SEMICOLON
  | TOKENIZER_RESULT_ILSEQ | TOKENIZER_RESULT_EOS

text \<open>The character at a pointer: the first one of the rest, or the terminating NUL.\<close>

definition tokenizer_res_from_char :: "char \<Rightarrow> tokenizer_result" where
  "tokenizer_res_from_char p =
     (if p = NUL then TOKENIZER_RESULT_EOS
      else if p = CHR '','' then TOKENIZER_RESULT_COMMA
      else if p = CHR ''='' then TOKENIZER_RESULT_EQ
      else if p = CHR '';'' then TOKENIZER_RESULT_SEMICOLON
      else TOKENIZER_RESULT_ILSEQ)"

definition char_at :: "string \<Rightarrow> char" where
  "char_at s = (case s of [] \<Rightarrow> NUL | c # _ \<Rightarrow> c)"

text \<open>
  The scan of a quoted string. \<open>gap\<close> tells that the output position has fallen behind the
  input position, as it does after an escape. The closing quote is overwritten by the NUL when
  there is no gap, and the test for the quote that follows then fails. Plain \<^verbatim>\<open>char\<close> being
  signed, the range from 0x80 on never matches. The result is the text after the closing quote.
\<close>

definition is_qdtext :: "char \<Rightarrow> bool" where
  "is_qdtext c \<longleftrightarrow> c = CHR 0x09 \<or> c = CHR '' '' \<or> char_val c = 0x21
     \<or> (0x23 \<le> char_val c \<and> char_val c \<le> 0x5B) \<or> (0x5D \<le> char_val c \<and> char_val c \<le> 0x7E)
     \<or> (0x80 \<le> char_val c \<and> char_val c \<le> 0xFF)"

fun quoted_loop :: "bool \<Rightarrow> string \<Rightarrow> string option" where
  "quoted_loop gap [] = None"
| "quoted_loop gap (c # cs) =
     (if is_qdtext c then quoted_loop gap cs
      else if c = CHR 0x5C then (case cs of [] \<Rightarrow> None | _ # cs' \<Rightarrow> quoted_loop True cs')
      else if c = CHR 0x22 then (if gap then Some cs else None)
      else None)"

text \<open>
  \<open>__tokenizer_str\<close> leaves the token pointer alone; \<open>None\<close> stands for the NULL it holds. The
  new position is one past the character after the quote, outside the string when the quote is
  the last character.
\<close>

definition tokenizer_str ::
    "string \<Rightarrow> fault + (string option \<times> tokenizer_result \<times> string)" where
  "tokenizer_str in0 =
     (case skip_space in0 of
        [] \<Rightarrow> Inr (None, TOKENIZER_RESULT_ILSEQ, [])
      | c # cs \<Rightarrow>
          if c \<noteq> CHR 0x22 then Inr (None, TOKENIZER_RESULT_ILSEQ, c # cs)
          else (case quoted_loop False cs of
                  None \<Rightarrow> Inr (None, TOKENIZER_RESULT_ILSEQ, c # cs)
                | Some [] \<Rightarrow> Inl Out_of_bounds
                | Some (d # ds) \<Rightarrow> Inr (None, tokenizer_res_from_char d, skip_space ds)))"

definition tokenizer ::
    "string \<Rightarrow> fault + (string option \<times> tokenizer_result \<times> string)" where
  "tokenizer in0 =
     (let p = skip_space in0; c0 = char_at p
      in if c0 = CHR ''='' \<or> c0 = CHR '','' \<or> c0 = CHR '';''
         then Inr (None, TOKENIZER_RESULT_ILSEQ, p)
         else if c0 = NUL then Inr (None, TOKENIZER_RESULT_EOS, p)
         else if c0 = CHR 0x22 then tokenizer_str p
         else (let out = takeWhile is_token p;
                   in1 = skip_space (dropWhile is_token p)
               in Inr (Some out, tokenizer_res_from_char (char_at in1),
                       case in1 of [] \<Rightarrow> [] | _ # r \<Rightarrow> r)))"

section \<open>The parser\<close>

record icecast_kv =
  kv_key :: "string option"
  kv_value :: "string option"

text \<open>
  The arrays are the lists of their used entries; the two counters are the numbers of entries
  allocated. Entries from the used ones on are zero.
\<close>

record icecast_kva =
  index :: "nat list"
  kv :: "icecast_kv list"
  indexphylen :: nat
  kvphylen :: nat

abbreviation (input) HTTP_CN_INDEX_INCREMENT :: nat where "HTTP_CN_INDEX_INCREMENT \<equiv> 8"
abbreviation (input) HTTP_CN_KV_INCREMENT :: nat where "HTTP_CN_KV_INCREMENT \<equiv> 8"

definition resize_array :: "nat \<Rightarrow> nat \<Rightarrow> nat \<Rightarrow> nat" where
  "resize_array len revlen inc = (if len > revlen then len else len + inc)"

definition empty_kv :: icecast_kv where
  "empty_kv = \<lparr>kv_key = None, kv_value = None\<rparr>"

text \<open>A token goes into the key of the current entry, then into its value; a third one fails.\<close>

definition store_token :: "string option \<Rightarrow> icecast_kv \<Rightarrow> icecast_kv option" where
  "store_token out e =
     (if kv_key e = None then Some (e\<lparr>kv_key := out\<rparr>)
      else if kv_value e = None then Some (e\<lparr>kv_value := out\<rparr>)
      else None)"

definition cn_resize :: "icecast_kva \<Rightarrow> icecast_kva" where
  "cn_resize ret = ret\<lparr>kvphylen := resize_array (kvphylen ret) (length (kv ret)) HTTP_CN_KV_INCREMENT,
     indexphylen := resize_array (indexphylen ret) (length (index ret)) HTTP_CN_INDEX_INCREMENT\<rparr>"

text \<open>The next entry, opened by a semicolon, and by a comma together with a new index.\<close>

definition cn_next_kv :: "icecast_kva \<Rightarrow> icecast_kva" where
  "cn_next_kv ret = ret\<lparr>kv := kv ret @ [empty_kv]\<rparr>"

definition cn_next_index :: "icecast_kva \<Rightarrow> icecast_kva" where
  "cn_next_index ret = cn_next_kv (ret\<lparr>index := index ret @ [length (kv ret)]\<rparr>)"

text \<open>One round of the loop after the tokenizer: None when the code frees all and gives up.\<close>

definition cn_round ::
    "icecast_kva \<Rightarrow> string option \<Rightarrow> tokenizer_result \<Rightarrow> fault + icecast_kva option" where
  "cn_round ret out res =
     (if res = TOKENIZER_RESULT_ILSEQ then Inr None
      else
        (let ret = cn_resize ret
         in if \<not> length (kv ret) - 1 < kvphylen ret then Inl Out_of_bounds
            else (case store_token out (last (kv ret)) of
                    None \<Rightarrow> Inr None
                  | Some e \<Rightarrow>
                      (let ret = ret\<lparr>kv := butlast (kv ret) @ [e]\<rparr>
                       in if res = TOKENIZER_RESULT_COMMA then
                            (if length (index ret) < indexphylen ret
                             then Inr (Some (cn_next_index ret)) else Inl Out_of_bounds)
                          else if res = TOKENIZER_RESULT_SEMICOLON then Inr (Some (cn_next_kv ret))
                          else Inr (Some ret)))))"

lemma skip_space_length: "length (skip_space s) \<le> length s"
  by (induction s) auto

lemma quoted_loop_length: "quoted_loop g s = Some r \<Longrightarrow> length r < length s"
  by (induction g s rule: quoted_loop.induct) (auto split: if_splits list.splits)

lemma tokenizer_quote:
  assumes "char_at (skip_space s) = CHR 0x22" and "tokenizer s = Inr (out, res, r)"
  obtains "res = TOKENIZER_RESULT_ILSEQ" "r = skip_space s"
  | cs d ds where "skip_space s = CHR 0x22 # cs" "quoted_loop False cs = Some (d # ds)"
      "r = skip_space ds"
proof -
  obtain cs where s: "skip_space s = CHR 0x22 # cs"
    using assms(1) by (cases "skip_space s") (auto simp: char_at_def NUL_def)
  have "tokenizer s = tokenizer_str (CHR 0x22 # cs)"
    by (simp add: tokenizer_def s char_at_def NUL_def)
  with assms(2) s that show thesis
    by (cases "quoted_loop False cs")
      (auto simp: tokenizer_str_def split: list.splits)
qed

lemma tokenizer_shorter:
  "tokenizer s = Inr (out, res, r) \<Longrightarrow> res \<noteq> TOKENIZER_RESULT_ILSEQ \<Longrightarrow>
     res \<noteq> TOKENIZER_RESULT_EOS \<Longrightarrow> length r < length s"
proof -
  assume t: "tokenizer s = Inr (out, res, r)"
    and n: "res \<noteq> TOKENIZER_RESULT_ILSEQ" "res \<noteq> TOKENIZER_RESULT_EOS"
  have s: "length (skip_space s) \<le> length s" by (rule skip_space_length)
  show ?thesis
  proof (cases "char_at (skip_space s) = CHR 0x22")
    case True
    from this t show ?thesis
    proof (cases rule: tokenizer_quote)
      case (2 cs d ds)
      with s quoted_loop_length [of False cs "d # ds"] skip_space_length [of ds] show ?thesis by simp
    qed (use n in simp)
  next
    case False
    define in1 where "in1 = skip_space (dropWhile is_token (skip_space s))"
    have "length in1 \<le> length s"
      using s skip_space_length [of "dropWhile is_token (skip_space s)"]
        length_dropWhile_le [of is_token "skip_space s"] by (simp add: in1_def)
    moreover from False t n have "in1 \<noteq> []" and "r = tl in1"
      by (auto simp: tokenizer_def Let_def in1_def char_at_def tokenizer_res_from_char_def
          split: if_splits list.splits)
    ultimately show ?thesis by (cases in1) auto
  qed
qed

function cn_loop :: "icecast_kva \<Rightarrow> string \<Rightarrow> fault + icecast_kva option" where
  "cn_loop ret in0 =
     (case tokenizer in0 of
        Inl f \<Rightarrow> Inl f
      | Inr (out, res, in1) \<Rightarrow>
          (case cn_round ret out res of
             Inl f \<Rightarrow> Inl f
           | Inr None \<Rightarrow> Inr None
           | Inr (Some ret1) \<Rightarrow>
               if res = TOKENIZER_RESULT_EOS \<or> res = TOKENIZER_RESULT_ILSEQ then Inr (Some ret1)
               else cn_loop ret1 in1))"
  by auto
termination
  by (relation "measure (\<lambda>(ret, s). length s)") (auto dest: tokenizer_shorter)

declare cn_loop.simps [simp del]

definition cn_start :: icecast_kva where
  "cn_start = \<lparr>index = [0], kv = [empty_kv], indexphylen = HTTP_CN_INDEX_INCREMENT,
     kvphylen = HTTP_CN_KV_INCREMENT\<rparr>"

definition util_parse_http_cn :: "string option \<Rightarrow> fault + icecast_kva option" where
  "util_parse_http_cn cnstr =
     (case cnstr of
        None \<Rightarrow> Inr None
      | Some s \<Rightarrow> if s = [] then Inr None else cn_loop cn_start s)"


section \<open>Selection\<close>

fun parse_q_loop :: "int \<Rightarrow> int \<Rightarrow> string \<Rightarrow> int" where
  "parse_q_loop ret mul [] = ret"
| "parse_q_loop ret mul (c # cs) =
     (if is_digit c then parse_q_loop (ret + mul * (int (code c) - 48)) (mul div 10) cs
      else if c = CHR ''.'' then parse_q_loop ret 100 cs
      else -1)"

definition parse_q :: "string \<Rightarrow> int" where
  "parse_q str = parse_q_loop 0 1000 str"

text \<open>The first parameter named \<open>q\<close> among the entries of an alternative; its value may be NULL.\<close>

fun q_scan :: "icecast_kv list \<Rightarrow> fault + int" where
  "q_scan [] = Inr 1000"
| "q_scan (e # es) =
     (case kv_key e of
        None \<Rightarrow> q_scan es
      | Some k \<Rightarrow>
          if strcaseeq k ''q'' then
            (case kv_value e of None \<Rightarrow> Inl Null_deref | Some v \<Rightarrow> Inr (parse_q v))
          else q_scan es)"

definition find_q_in_index :: "icecast_kva \<Rightarrow> nat \<Rightarrow> fault + int" where
  "find_q_in_index ret idx =
     (let i = index ret ! idx + 1;
          lst = (if length (index ret) \<le> idx + 1 then length (kv ret) - 1
                 else index ret ! (idx + 1) - 1)
      in q_scan (take (lst + 1 - i) (drop i (kv ret))))"

record select_arg =
  comp :: string
  grp :: string
  best_comp :: int
  best_group :: int

definition fill_arg :: "string \<Rightarrow> select_arg" where
  "fill_arg str = \<lparr>comp = str,
     grp = (case strchr CHR ''/'' str of None \<Rightarrow> str | Some (g, _) \<Rightarrow> g @ ''/*''),
     best_comp = 0, best_group = 0\<rparr>"

definition note_match :: "string \<Rightarrow> int \<Rightarrow> select_arg \<Rightarrow> select_arg" where
  "note_match p q a =
     (let a = (if strcaseeq p (comp a) \<and> best_comp a < q then a\<lparr>best_comp := q\<rparr> else a)
      in if strcaseeq p (grp a) \<and> best_group a < q then a\<lparr>best_group := q\<rparr> else a)"

fun select_inner ::
    "icecast_kva \<Rightarrow> nat list \<Rightarrow> int \<Rightarrow> select_arg \<Rightarrow> fault + (int \<times> select_arg)" where
  "select_inner ret [] best_q a = Inr (best_q, a)"
| "select_inner ret (i # is) best_q a =
     (case kv_key (kv ret ! (index ret ! i)) of
        None \<Rightarrow> select_inner ret is best_q a
      | Some p \<Rightarrow>
          (case find_q_in_index ret i of
             Inl f \<Rightarrow> Inl f
           | Inr q \<Rightarrow> select_inner ret is (if best_q < q then q else best_q) (note_match p q a)))"

fun select_outer ::
    "icecast_kva \<Rightarrow> int \<Rightarrow> select_arg list \<Rightarrow> fault + (int \<times> select_arg list)" where
  "select_outer ret best_q [] = Inr (best_q, [])"
| "select_outer ret best_q (a # as) =
     (case select_inner ret [0..<length (index ret)] best_q a of
        Inl f \<Rightarrow> Inl f
      | Inr (q1, a1) \<Rightarrow>
          (case select_outer ret q1 as of
             Inl f \<Rightarrow> Inl f
           | Inr (q2, as2) \<Rightarrow> Inr (q2, a1 # as2)))"

definition pick :: "int \<Rightarrow> select_arg list \<Rightarrow> string \<Rightarrow> string" where
  "pick best_q as fst_opt =
     (case find (\<lambda>a. best_comp a = best_q) as of
        Some a \<Rightarrow> comp a
      | None \<Rightarrow>
          (case find (\<lambda>a. best_group a = best_q) as of
             Some a \<Rightarrow> comp a
           | None \<Rightarrow> fst_opt))"

abbreviation (input) SELECT_BEST_MAX_ARGS :: nat where "SELECT_BEST_MAX_ARGS \<equiv> 8"

definition util_http_select_best :: "string option \<Rightarrow> string \<Rightarrow> string list \<Rightarrow> fault + string" where
  "util_http_select_best input fst_opt opts =
     (let as = map fill_arg (take SELECT_BEST_MAX_ARGS (fst_opt # opts))
      in case util_parse_http_cn input of
           Inl f \<Rightarrow> Inl f
         | Inr None \<Rightarrow> Inr fst_opt
         | Inr (Some ret) \<Rightarrow>
             (case select_outer ret 0 as of
                Inl f \<Rightarrow> Inl f
              | Inr (best_q, as) \<Rightarrow> Inr (pick best_q as fst_opt)))"

section \<open>The arrays\<close>

definition cn_inv :: "icecast_kva \<Rightarrow> bool" where
  "cn_inv r \<longleftrightarrow> kv r \<noteq> [] \<and> length (kv r) \<le> kvphylen r \<and> length (index r) \<le> indexphylen r
     \<and> index r \<noteq> [] \<and> hd (index r) = 0 \<and> sorted_wrt (<) (index r)
     \<and> (\<forall>i\<in>set (index r). i < length (kv r))"

lemma cn_inv_start: "cn_inv cn_start"
  by (simp add: cn_inv_def cn_start_def)

text \<open>One round never leaves an array, and keeps the invariant.\<close>

lemma cn_round_safe:
  assumes "cn_inv r"
  shows "cn_round r out res = Inr None \<or> (\<exists>r'. cn_round r out res = Inr (Some r') \<and> cn_inv r')"
proof -
  have "resize_array l n inc > n" if "n \<le> l" and "0 < inc" for l n inc
    using that by (simp add: resize_array_def)
  with assms have k: "length (kv r) < kvphylen (cn_resize r)"
    and i: "length (index r) < indexphylen (cn_resize r)"
    by (auto simp: cn_inv_def cn_resize_def)
  have same: "kv (cn_resize r) = kv r" "index (cn_resize r) = index r"
    by (simp_all add: cn_resize_def)
  have pos: "Suc (length (kv r) - Suc 0) = length (kv r)"
    using assms by (cases "kv r") (auto simp: cn_inv_def)
  show ?thesis
    using assms k i
    by (auto simp: cn_round_def Let_def same cn_inv_def cn_next_index_def cn_next_kv_def pos
        sorted_wrt_append less_Suc_eq split: option.splits)
qed

lemma set_skip_space: "set (skip_space s) \<subseteq> set s"
  by (induction s) auto

lemma quoted_loop_set: "quoted_loop g s = Some r \<Longrightarrow> set r \<subseteq> set s"
  by (induction g s rule: quoted_loop.induct) (auto split: if_splits list.splits)

lemma tokenizer_set: "tokenizer s = Inr (out, res, r) \<Longrightarrow> set r \<subseteq> set s"
proof -
  assume t: "tokenizer s = Inr (out, res, r)"
  have s: "set (skip_space s) \<subseteq> set s" by (rule set_skip_space)
  show ?thesis
  proof (cases "char_at (skip_space s) = CHR 0x22")
    case True
    from this t show ?thesis
    proof (cases rule: tokenizer_quote)
      case (2 cs d ds)
      with s quoted_loop_set [OF 2(2)] set_skip_space [of ds] show ?thesis by auto
    qed (use s in simp)
  next
    case False
    define in1 where "in1 = skip_space (dropWhile is_token (skip_space s))"
    have "set in1 \<subseteq> set s"
      using s set_skip_space [of "dropWhile is_token (skip_space s)"]
      by (auto simp: in1_def dest: set_dropWhileD)
    moreover from False t have "set r \<subseteq> set in1 \<or> r = skip_space s"
      by (auto simp: tokenizer_def Let_def in1_def [symmetric] split: if_splits list.splits)
    ultimately show ?thesis using s by blast
  qed
qed

lemma tokenizer_fault: "tokenizer s = Inl f \<Longrightarrow> CHR 0x22 \<in> set s"
  using set_skip_space [of s]
  by (cases "skip_space s") (auto simp: tokenizer_def Let_def char_at_def split: if_splits)

lemma cn_loop_safe:
  "cn_inv r \<Longrightarrow> case cn_loop r s of
     Inl f \<Rightarrow> CHR 0x22 \<in> set s | Inr None \<Rightarrow> True | Inr (Some r') \<Rightarrow> cn_inv r'"
proof (induction r s rule: cn_loop.induct)
  case (1 r s)
  show ?case
  proof (cases "tokenizer s")
    case (Inl f)
    then show ?thesis by (simp add: cn_loop.simps [of r] tokenizer_fault)
  next
    case (Inr b)
    obtain out res s1 where b: "tokenizer s = Inr (out, res, s1)"
      using Inr by (cases b) auto
    from cn_round_safe [OF "1.prems", of out res]
    consider "cn_round r out res = Inr None"
      | r1 where "cn_round r out res = Inr (Some r1)" "cn_inv r1" by blast
    then show ?thesis
    proof cases
      case 1
      with b show ?thesis by (simp add: cn_loop.simps [of r])
    next
      case (2 r1)
      show ?thesis
      proof (cases "res = TOKENIZER_RESULT_EOS \<or> res = TOKENIZER_RESULT_ILSEQ")
        case True
        with b 2 show ?thesis by (auto simp: cn_loop.simps [of r])
      next
        case False
        have eq: "cn_loop r s = cn_loop r1 s1"
          using b 2(1) False by (simp add: cn_loop.simps [of r])
        from "1.IH" [OF b refl refl 2(1) refl False 2(2)] tokenizer_set [OF b] show ?thesis
          unfolding eq by (auto split: sum.splits option.splits)
      qed
    qed
  qed
qed

text \<open>
  parsing a header value that has no quoted string in it touches no memory outside the
  string and the two arrays, whatever the value, and always ends; a result has a first
  alternative that starts at entry 0, the starts strictly increase and each is an existing entry.
\<close>

theorem parse_http_cn_safe:
  assumes "CHR 0x22 \<notin> set s"
  shows "util_parse_http_cn (Some s) = Inr None
     \<or> (\<exists>r. util_parse_http_cn (Some s) = Inr (Some r) \<and> kv r \<noteq> [] \<and> index r \<noteq> []
          \<and> hd (index r) = 0 \<and> sorted_wrt (<) (index r) \<and> (\<forall>i\<in>set (index r). i < length (kv r))
          \<and> length (kv r) \<le> kvphylen r \<and> length (index r) \<le> indexphylen r)"
  using cn_loop_safe [OF cn_inv_start, of s] assms
  by (auto simp: util_parse_http_cn_def cn_inv_def split: sum.splits option.splits)

theorem parse_http_cn_safe_witness:
  "\<exists>r. util_parse_http_cn (Some ''text/html, text/plain;q=0.5'') = Inr (Some r) \<and> length (kv r) = 3
     \<and> (util_parse_http_cn (Some ''text/html, text/plain;q=0.5'') = Inr None \<or> kv r \<noteq> [])"
proof -
  have "map_sum id (map_option (\<lambda>r. length (kv r)))
      (util_parse_http_cn (Some ''text/html, text/plain;q=0.5'')) = Inr (Some 3)"
    by code_simp
  then show ?thesis
    using parse_http_cn_safe [of "''text/html, text/plain;q=0.5''"]
    by (cases "util_parse_http_cn (Some ''text/html, text/plain;q=0.5'')") auto
qed

section \<open>Printing and parsing\<close>

text \<open>
  The header syntax: entries of a token and an optional value, each later entry flagged by
  whether it starts a new alternative (after a comma) or continues one (after a semicolon).
\<close>

type_synonym cn_entry = "string \<times> string option"

definition token :: "string \<Rightarrow> bool" where
  "token t \<longleftrightarrow> t \<noteq> [] \<and> list_all is_token t"

definition entry_ok :: "cn_entry \<Rightarrow> bool" where
  "entry_ok e \<longleftrightarrow> token (fst e) \<and> (case snd e of None \<Rightarrow> True | Some v \<Rightarrow> token v)"

definition print_entry :: "cn_entry \<Rightarrow> string" where
  "print_entry e = fst e @ (case snd e of None \<Rightarrow> [] | Some v \<Rightarrow> CHR ''='' # v)"

fun print_rest :: "(bool \<times> cn_entry) list \<Rightarrow> string" where
  "print_rest [] = []"
| "print_rest ((b, e) # es) = (if b then CHR '','' else CHR '';'') # print_entry e @ print_rest es"

fun starts :: "nat \<Rightarrow> (bool \<times> cn_entry) list \<Rightarrow> nat list" where
  "starts n [] = []"
| "starts n ((b, e) # es) = (if b then [n] else []) @ starts (Suc n) es"

definition entry_kv :: "cn_entry \<Rightarrow> icecast_kv" where
  "entry_kv e = \<lparr>kv_key = Some (fst e), kv_value = snd e\<rparr>"

lemma is_token_facts:
  "is_token c \<Longrightarrow> c \<noteq> CHR '' '' \<and> c \<noteq> CHR ''='' \<and> c \<noteq> CHR '','' \<and> c \<noteq> CHR '';'' \<and> c \<noteq> NUL
     \<and> c \<noteq> CHR 0x22"
  by (auto simp: is_token_def in_range_def is_digit_def code_def NUL_def)

lemma not_is_token_sep:
  "\<not> is_token CHR '',''" "\<not> is_token CHR '';''" "\<not> is_token CHR ''=''"
  by (auto dest: is_token_facts)

text \<open>A token followed by a separator, or by the end of the string.\<close>

lemma tokenizer_token:
  assumes "token t"
  shows "s = [] \<Longrightarrow> tokenizer (t @ s) = Inr (Some t, TOKENIZER_RESULT_EOS, [])"
    and "s = c # s' \<Longrightarrow> c \<in> {CHR '','', CHR '';'', CHR ''=''} \<Longrightarrow>
           tokenizer (t @ s) = Inr (Some t, tokenizer_res_from_char c, s')"
proof -
  obtain d ds where t: "t = d # ds" and d: "is_token d" and all: "list_all is_token t"
    using assms by (cases t) (auto simp: token_def)
  have sk: "skip_space (t @ s) = t @ s" for s
    using is_token_facts [OF d] by (simp add: t)
  have c: "char_at (t @ s) = d" for s by (simp add: t char_at_def)
  show "s = [] \<Longrightarrow> tokenizer (t @ s) = Inr (Some t, TOKENIZER_RESULT_EOS, [])"
  proof -
    have "takeWhile is_token t = t" "dropWhile is_token t = []"
      using all by (simp_all add: takeWhile_eq_all_conv list_all_iff)
    note tw = this
    from sk [of "[]"] c [of "[]"] is_token_facts [OF d]
    show "s = [] \<Longrightarrow> tokenizer (t @ s) = Inr (Some t, TOKENIZER_RESULT_EOS, [])"
      by (simp add: tokenizer_def Let_def tokenizer_res_from_char_def char_at_def tw)
  qed
  assume s: "s = c # s'" and cc: "c \<in> {CHR '','', CHR '';'', CHR ''=''}"
  then have "\<not> is_token c" "c \<noteq> CHR '' ''" using not_is_token_sep by auto
  then have "takeWhile is_token (t @ s) = t" "dropWhile is_token (t @ s) = c # s'"
    "skip_space (c # s') = c # s'"
    using all by (simp_all add: s list_all_iff takeWhile_append dropWhile_append)
  with sk [of s] c [of s] is_token_facts [OF d]
  show "tokenizer (t @ s) = Inr (Some t, tokenizer_res_from_char c, s')"
    by (simp add: tokenizer_def Let_def char_at_def)
qed

lemma res_from_sep [simp]:
  "tokenizer_res_from_char CHR '','' = TOKENIZER_RESULT_COMMA"
  "tokenizer_res_from_char CHR '';'' = TOKENIZER_RESULT_SEMICOLON"
  "tokenizer_res_from_char CHR ''='' = TOKENIZER_RESULT_EQ"
  by (simp_all add: tokenizer_res_from_char_def NUL_def)

lemma cn_round_result:
  assumes "cn_inv r" and "kv r = ks @ [e]" and "store_token out e = Some e'"
    and "res \<noteq> TOKENIZER_RESULT_ILSEQ"
  shows "\<exists>r'. cn_round r out res = Inr (Some r') \<and> cn_inv r'
     \<and> kv r' = ks @ e' # (if res = TOKENIZER_RESULT_COMMA \<or> res = TOKENIZER_RESULT_SEMICOLON
                          then [empty_kv] else [])
     \<and> index r' = index r @ (if res = TOKENIZER_RESULT_COMMA then [Suc (length ks)] else [])"
proof -
  have k: "kv (cn_resize r) = ks @ [e]" "index (cn_resize r) = index r"
    using assms(2) by (simp_all add: cn_resize_def)
  show ?thesis
    using cn_round_safe [OF assms(1), of out res] assms(3, 4)
    by (auto simp: cn_round_def Let_def k cn_next_index_def cn_next_kv_def split: if_splits)
qed

lemma cn_loop_step:
  "tokenizer s = Inr (out, res, s1) \<Longrightarrow> cn_round r out res = Inr (Some r1) \<Longrightarrow>
     cn_loop r s = (if res = TOKENIZER_RESULT_EOS \<or> res = TOKENIZER_RESULT_ILSEQ
                    then Inr (Some r1) else cn_loop r1 s1)"
  by (simp add: cn_loop.simps [of r])

lemma store_token_key: "store_token (Some t) empty_kv = Some \<lparr>kv_key = Some t, kv_value = None\<rparr>"
  by (simp add: store_token_def empty_kv_def)

lemma store_token_value:
  "store_token (Some v) \<lparr>kv_key = Some t, kv_value = None\<rparr> = Some \<lparr>kv_key = Some t, kv_value = Some v\<rparr>"
  by (simp add: store_token_def)

text \<open>The name of an entry, up to its value if it has one.\<close>

lemma cn_loop_entry_value:
  assumes "cn_inv r" and "kv r = ks @ [empty_kv]" and "token k"
  shows "\<exists>r'. cn_loop r (k @ CHR ''='' # s) = cn_loop r' s \<and> cn_inv r'
     \<and> kv r' = ks @ [\<lparr>kv_key = Some k, kv_value = None\<rparr>] \<and> index r' = index r"
proof -
  from cn_round_result [OF assms(1, 2) store_token_key, of TOKENIZER_RESULT_EQ k]
  obtain r' where "cn_round r (Some k) TOKENIZER_RESULT_EQ = Inr (Some r')" "cn_inv r'"
    "kv r' = ks @ [\<lparr>kv_key = Some k, kv_value = None\<rparr>]" "index r' = index r"
    by auto
  moreover have "tokenizer (k @ CHR ''='' # s) = Inr (Some k, TOKENIZER_RESULT_EQ, s)"
    using tokenizer_token(2) [OF assms(3), of "CHR ''='' # s"] by simp
  ultimately show ?thesis using cn_loop_step by fastforce
qed

text \<open>The last token of an entry, followed by a separator or by the end of the string.\<close>

lemma cn_loop_entry_end:
  assumes "cn_inv r" and "kv r = ks @ [e]" and "token t" and "store_token (Some t) e = Some e'"
  shows "\<exists>r'. cn_loop r t = Inr (Some r') \<and> kv r' = ks @ [e'] \<and> index r' = index r"
    and "\<exists>r'. cn_loop r (t @ (if b then CHR '','' else CHR '';'') # s) = cn_loop r' s \<and> cn_inv r'
           \<and> kv r' = ks @ [e', empty_kv]
           \<and> index r' = index r @ (if b then [Suc (length ks)] else [])"
proof -
  from cn_round_result [OF assms(1, 2, 4), of TOKENIZER_RESULT_EOS]
  obtain r' where "cn_round r (Some t) TOKENIZER_RESULT_EOS = Inr (Some r')"
    "kv r' = ks @ [e']" "index r' = index r" by auto
  moreover have "tokenizer t = Inr (Some t, TOKENIZER_RESULT_EOS, [])"
    using tokenizer_token(1) [OF assms(3), of "[]"] by simp
  ultimately show "\<exists>r'. cn_loop r t = Inr (Some r') \<and> kv r' = ks @ [e'] \<and> index r' = index r"
    using cn_loop_step by fastforce
  define res where "res = (if b then TOKENIZER_RESULT_COMMA else TOKENIZER_RESULT_SEMICOLON)"
  from cn_round_result [OF assms(1, 2, 4), of res]
  obtain r' where "cn_round r (Some t) res = Inr (Some r')" "cn_inv r'"
    "kv r' = ks @ [e', empty_kv]" "index r' = index r @ (if b then [Suc (length ks)] else [])"
    by (cases b) (auto simp: res_def)
  moreover have "tokenizer (t @ (if b then CHR '','' else CHR '';'') # s) = Inr (Some t, res, s)"
    using tokenizer_token(2) [OF assms(3), of "(if b then CHR '','' else CHR '';'') # s"]
    by (simp add: res_def)
  moreover have "res \<noteq> TOKENIZER_RESULT_EOS" "res \<noteq> TOKENIZER_RESULT_ILSEQ"
    by (simp_all add: res_def)
  ultimately show "\<exists>r'. cn_loop r (t @ (if b then CHR '','' else CHR '';'') # s) = cn_loop r' s
      \<and> cn_inv r' \<and> kv r' = ks @ [e', empty_kv]
      \<and> index r' = index r @ (if b then [Suc (length ks)] else [])"
    using cn_loop_step by fastforce
qed

lemma cn_loop_entry:
  assumes "cn_inv r" and "kv r = ks @ [empty_kv]" and "entry_ok e"
  shows "\<exists>r'. cn_loop r (print_entry e) = Inr (Some r')
           \<and> kv r' = ks @ [entry_kv e] \<and> index r' = index r"
    and "\<exists>r'. cn_loop r (print_entry e @ (if b then CHR '','' else CHR '';'') # s) = cn_loop r' s
           \<and> cn_inv r' \<and> kv r' = ks @ [entry_kv e, empty_kv]
           \<and> index r' = index r @ (if b then [Suc (length ks)] else [])"
proof -
  obtain k v where e: "e = (k, v)" by (cases e)
  with assms(3) have k: "token k" and v: "\<And>w. v = Some w \<Longrightarrow> token w"
    by (auto simp: entry_ok_def)
  show "\<exists>r'. cn_loop r (print_entry e) = Inr (Some r')
           \<and> kv r' = ks @ [entry_kv e] \<and> index r' = index r"
  proof (cases v)
    case None
    then show ?thesis
      using cn_loop_entry_end(1) [OF assms(1, 2) k store_token_key]
      by (simp add: e print_entry_def entry_kv_def)
  next
    case (Some w)
    from cn_loop_entry_value [OF assms(1, 2) k, of w] obtain r1 where
      r1: "cn_loop r (k @ CHR ''='' # w) = cn_loop r1 w" "cn_inv r1"
        "kv r1 = ks @ [\<lparr>kv_key = Some k, kv_value = None\<rparr>]" "index r1 = index r" by blast
    show ?thesis
      using cn_loop_entry_end(1) [OF r1(2, 3) v [OF Some] store_token_value] r1(1, 4)
      by (simp add: e Some print_entry_def entry_kv_def)
  qed
  show "\<exists>r'. cn_loop r (print_entry e @ (if b then CHR '','' else CHR '';'') # s) = cn_loop r' s
           \<and> cn_inv r' \<and> kv r' = ks @ [entry_kv e, empty_kv]
           \<and> index r' = index r @ (if b then [Suc (length ks)] else [])"
  proof (cases v)
    case None
    then show ?thesis
      using cn_loop_entry_end(2) [OF assms(1, 2) k store_token_key]
      by (simp add: e print_entry_def entry_kv_def)
  next
    case (Some w)
    from cn_loop_entry_value [OF assms(1, 2) k, of "w @ (if b then CHR '','' else CHR '';'') # s"]
    obtain r1 where r1: "cn_loop r (k @ CHR ''='' # w @ (if b then CHR '','' else CHR '';'') # s)
        = cn_loop r1 (w @ (if b then CHR '','' else CHR '';'') # s)" "cn_inv r1"
        "kv r1 = ks @ [\<lparr>kv_key = Some k, kv_value = None\<rparr>]" "index r1 = index r" by blast
    show ?thesis
      using cn_loop_entry_end(2) [OF r1(2, 3) v [OF Some] store_token_value, of b s] r1(1, 4)
      by (simp add: e Some print_entry_def entry_kv_def)
  qed
qed

lemma cn_loop_print:
  "cn_inv r \<Longrightarrow> kv r = ks @ [empty_kv] \<Longrightarrow> entry_ok e \<Longrightarrow> \<forall>(b, e)\<in>set es. entry_ok e \<Longrightarrow>
     \<exists>r'. cn_loop r (print_entry e @ print_rest es) = Inr (Some r')
       \<and> kv r' = ks @ entry_kv e # map (entry_kv \<circ> snd) es
       \<and> index r' = index r @ starts (Suc (length ks)) es"
proof (induction es arbitrary: r ks e)
  case Nil
  then show ?case using cn_loop_entry(1) [OF Nil(1, 2, 3)] by auto
next
  case (Cons be es)
  obtain b e' where be: "be = (b, e')" by (cases be)
  from cn_loop_entry(2) [OF Cons.prems(1, 2, 3), of b "print_entry e' @ print_rest es"]
  obtain r1 where r1: "cn_loop r (print_entry e @ print_rest (be # es))
        = cn_loop r1 (print_entry e' @ print_rest es)" "cn_inv r1"
      "kv r1 = (ks @ [entry_kv e]) @ [empty_kv]"
      "index r1 = index r @ (if b then [Suc (length ks)] else [])"
    by (auto simp: be)
  from Cons.IH [OF r1(2, 3), of e'] Cons.prems(4) show ?case
    unfolding r1(1) by (auto simp: be r1(4))
qed

text \<open>
  a negotiation header printed from a list of entries parses back to exactly these
  entries, with the positions at which the alternatives start, for any number of entries.
\<close>

theorem parse_http_cn_roundtrip:
  assumes "entry_ok e" and "\<forall>(b, e)\<in>set es. entry_ok e"
  shows "\<exists>r. util_parse_http_cn (Some (print_entry e @ print_rest es)) = Inr (Some r)
     \<and> kv r = entry_kv e # map (entry_kv \<circ> snd) es \<and> index r = 0 # starts 1 es"
proof -
  have "print_entry e \<noteq> []"
    using assms(1) by (auto simp: print_entry_def entry_ok_def token_def)
  moreover have "kv cn_start = [] @ [empty_kv]" "index cn_start = [0]"
    by (simp_all add: cn_start_def)
  ultimately show ?thesis
    using cn_loop_print [OF cn_inv_start _ assms, of "[]"]
    by (auto simp: util_parse_http_cn_def)
qed

theorem parse_http_cn_roundtrip_witness:
  "\<exists>r. util_parse_http_cn (Some ''text/html;q=0.8,text/plain'') = Inr (Some r) \<and> index r = [0, 2]"
proof -
  have "entry_ok (''text/html'', None)" "\<forall>(b, e)\<in>set [(False, ''q'', Some ''0.8''),
      (True, ''text/plain'', None)]. entry_ok e"
    by code_simp+
  from parse_http_cn_roundtrip [OF this] show ?thesis
    by (auto simp: print_entry_def)
qed

section \<open>Selection against a reference\<close>

text \<open>
  The alternatives of a parsed header with their qualities, None when a quality parameter has
  no value; the best quality among those a predicate accepts; and the choice made from them.
\<close>

fun quals :: "icecast_kva \<Rightarrow> nat list \<Rightarrow> (string \<times> int) list option" where
  "quals r [] = Some []"
| "quals r (i # is) =
     (case kv_key (kv r ! (index r ! i)) of
        None \<Rightarrow> quals r is
      | Some p \<Rightarrow>
          (case find_q_in_index r i of
             Inl _ \<Rightarrow> None
           | Inr q \<Rightarrow> map_option ((#) (p, q)) (quals r is)))"

definition best :: "(string \<Rightarrow> bool) \<Rightarrow> (string \<times> int) list \<Rightarrow> int" where
  "best P qs = Max (insert 0 (snd ` {(p, q) \<in> set qs. P p}))"

definition range_of :: "string \<Rightarrow> string" where
  "range_of a = (case strchr CHR ''/'' a of None \<Rightarrow> a | Some (g, _) \<Rightarrow> g @ ''/*'')"

definition choose_opt :: "(string \<times> int) list \<Rightarrow> string \<Rightarrow> string list \<Rightarrow> string" where
  "choose_opt qs fst_opt opts =
     (let top = best (\<lambda>_. True) qs;
          as = take SELECT_BEST_MAX_ARGS (fst_opt # opts)
      in case find (\<lambda>a. best (\<lambda>p. strcaseeq p a) qs = top) as of
           Some a \<Rightarrow> a
         | None \<Rightarrow>
             (case find (\<lambda>a. best (\<lambda>p. strcaseeq p (range_of a)) qs = top) as of
                Some a \<Rightarrow> a
              | None \<Rightarrow> fst_opt))"

lemma finite_quals [simp]: "finite {(p, q) \<in> set qs. P p}"
  by (rule finite_subset [of _ "set qs"]) auto

lemma best_Nil [simp]: "best P [] = 0"
  by (simp add: best_def)

lemma best_Cons: "best P ((p, q) # qs) = (if P p then max q (best P qs) else best P qs)"
proof -
  have "{(a, b) \<in> set ((p, q) # qs). P a} =
      (if P p then insert (p, q) {(a, b) \<in> set qs. P a} else {(a, b) \<in> set qs. P a})"
    by auto
  moreover have "Max (insert 0 (insert q A)) = max q (Max (insert 0 A))" if "finite A" for A :: "int set"
    using that by (metis Max_insert finite.insertI insert_commute insert_not_empty)
  ultimately show ?thesis by (simp add: best_def)
qed

lemma best_ge_0: "0 \<le> best P qs"
  by (simp add: best_def)

text \<open>The accumulators of the inner loop hold the maxima seen so far.\<close>

lemma select_inner_quals:
  "quals r is = Some qs \<Longrightarrow> 0 \<le> bq \<Longrightarrow> 0 \<le> best_comp a \<Longrightarrow> 0 \<le> best_group a \<Longrightarrow>
     select_inner r is bq a = Inr (max bq (best (\<lambda>_. True) qs),
       a\<lparr>best_comp := max (best_comp a) (best (\<lambda>p. strcaseeq p (comp a)) qs),
         best_group := max (best_group a) (best (\<lambda>p. strcaseeq p (grp a)) qs)\<rparr>)"
proof (induction r "is" bq a arbitrary: qs rule: select_inner.induct)
  case (2 r i "is" bq a)
  show ?case
  proof (cases "kv_key (kv r ! (index r ! i))")
    case None
    with 2 show ?thesis by simp
  next
    case (Some p)
    with "2.prems"(1) obtain q qs' where q: "find_q_in_index r i = Inr q"
      and qs: "quals r is = Some qs'" "qs = (p, q) # qs'"
      by (auto split: sum.splits)
    have n: "note_match p q a = a\<lparr>
        best_comp := (if strcaseeq p (comp a) then max (best_comp a) q else best_comp a),
        best_group := (if strcaseeq p (grp a) then max (best_group a) q else best_group a)\<rparr>"
      by (auto simp: note_match_def Let_def max_def)
    have m: "(if bq < q then q else bq) = max bq q" by (simp add: max_def)
    from "2.IH"(2) [OF Some q qs(1)] "2.prems"(2-4) show ?thesis
      by (simp add: Some q qs(2) n m best_Cons max.assoc le_max_iff_disj)
  qed
qed (simp add: max_def)

definition scored :: "(string \<times> int) list \<Rightarrow> string \<Rightarrow> select_arg" where
  "scored qs a = \<lparr>comp = a, grp = range_of a, best_comp = best (\<lambda>p. strcaseeq p a) qs,
     best_group = best (\<lambda>p. strcaseeq p (range_of a)) qs\<rparr>"

lemma select_outer_quals:
  assumes "quals r [0..<length (index r)] = Some qs"
  shows "0 \<le> bq \<Longrightarrow> as \<noteq> [] \<Longrightarrow> select_outer r bq (map fill_arg as)
     = Inr (max bq (best (\<lambda>_. True) qs), map (scored qs) as)"
proof (induction as arbitrary: bq)
  case (Cons a as)
  have f: "fill_arg a = \<lparr>comp = a, grp = range_of a, best_comp = 0, best_group = 0\<rparr>"
    by (simp add: fill_arg_def range_of_def)
  have i: "select_inner r [0..<length (index r)] bq (fill_arg a)
      = Inr (max bq (best (\<lambda>_. True) qs), scored qs a)"
    using select_inner_quals [OF assms, of bq "fill_arg a"] Cons.prems(1)
    by (simp add: f scored_def best_ge_0)
  show ?case
  proof (cases as)
    case Nil
    with i show ?thesis by simp
  next
    case (Cons b bs)
    with i Cons.IH [of "max bq (best (\<lambda>_. True) qs)"] Cons.prems(1) show ?thesis
      by (simp add: le_max_iff_disj)
  qed
qed simp

text \<open>
  the nested loops with their running maxima choose as the reference does: for a header
  that parses and whose quality parameters have values, the result is the first offered option
  (of the first eight) that some alternative names with the best quality of the whole header,
  else the first one whose group \<open>type/*\<close> is named with it, else the first option.
\<close>

theorem select_best_refines:
  assumes "util_parse_http_cn input = Inr (Some r)"
    and "quals r [0..<length (index r)] = Some qs"
  shows "util_http_select_best input fst_opt opts = Inr (choose_opt qs fst_opt opts)"
proof -
  define as where "as = take SELECT_BEST_MAX_ARGS (fst_opt # opts)"
  have "as \<noteq> []" by (simp add: as_def)
  moreover have "find (\<lambda>a. best_comp a = t) (map (scored qs) xs)
      = map_option (scored qs) (find (\<lambda>a. best (\<lambda>p. strcaseeq p a) qs = t) xs)"
    and "find (\<lambda>a. best_group a = t) (map (scored qs) xs)
      = map_option (scored qs) (find (\<lambda>a. best (\<lambda>p. strcaseeq p (range_of a)) qs = t) xs)" for t xs
    by (induction xs) (auto simp: scored_def)
  moreover from \<open>as \<noteq> []\<close> have "util_http_select_best input fst_opt opts
      = Inr (pick (best (\<lambda>_. True) qs) (map (scored qs) as) fst_opt)"
    unfolding util_http_select_best_def as_def [symmetric]
    using select_outer_quals [OF assms(2), of 0 as] assms(1)
    by (simp add: best_ge_0 max_absorb2)
  ultimately show ?thesis
    unfolding choose_opt_def as_def [symmetric]
    by (auto simp: pick_def Let_def scored_def split: option.splits)
qed

theorem select_best_refines_witness:
  "util_http_select_best (Some ''text/html;q=0.5, application/json'') ''text/html'' [''application/json'']
     = Inr ''application/json''"
proof -
  let ?s = "Some ''text/html;q=0.5, application/json''"
  obtain r where r: "util_parse_http_cn ?s = Inr (Some r)"
    and q: "quals r [0..<length (index r)] = Some [(''text/html'', 500), (''application/json'', 1000)]"
  proof -
    have "(case util_parse_http_cn ?s of Inr (Some r) \<Rightarrow> quals r [0..<length (index r)] | _ \<Rightarrow> None)
        = Some [(''text/html'', 500), (''application/json'', 1000)]"
      by code_simp
    then show thesis using that by (auto split: sum.splits option.splits)
  qed
  have "choose_opt [(''text/html'', 500), (''application/json'', 1000)] ''text/html'' [''application/json'']
      = ''application/json''"
    by (simp add: choose_opt_def best_Cons Let_def)
      (simp add: strcaseeq_def range_of_def)
  with select_best_refines [OF r q] show ?thesis by simp
qed

section \<open>Where the code leaves its objects\<close>

lemma quoted_loop_no_escape:
  "CHR 0x5C \<notin> set s \<Longrightarrow> quoted_loop False s = None"
  by (induction s) auto

text \<open>
  the parser does not read quoted values. A value in quotes without an escape makes the
  whole header unparsable, one with an escape at the end of the header is read past its end; and a
  quality parameter without a value is read through a NULL pointer.
\<close>

theorem http_cn_quoted_and_empty_q:
  assumes "token k" and "CHR 0x5C \<notin> set v"
  shows "util_parse_http_cn (Some (k @ CHR ''='' # CHR 0x22 # v)) = Inr None
    \<and> util_parse_http_cn (Some [CHR ''a'', CHR ''='', CHR 0x22, CHR 0x5C, CHR ''b'', CHR 0x22])
        = Inl Out_of_bounds
    \<and> util_http_select_best (Some ''text/html;q'') ''text/html'' [] = Inl Null_deref"
proof -
  have "k \<noteq> []" using assms(1) by (simp add: token_def)
  have "kv cn_start = [] @ [empty_kv]" by (simp add: cn_start_def)
  from cn_loop_entry_value [OF cn_inv_start this assms(1), of "CHR 0x22 # v"] obtain r' where
    r': "cn_loop cn_start (k @ CHR ''='' # CHR 0x22 # v) = cn_loop r' (CHR 0x22 # v)" by blast
  have "tokenizer (CHR 0x22 # v) = Inr (None, TOKENIZER_RESULT_ILSEQ, CHR 0x22 # v)"
    using quoted_loop_no_escape [OF assms(2)]
    by (simp add: tokenizer_def tokenizer_str_def char_at_def NUL_def)
  then have "cn_loop r' (CHR 0x22 # v) = Inr None"
    by (simp add: cn_loop.simps cn_round_def)
  moreover have "util_parse_http_cn
      (Some [CHR ''a'', CHR ''='', CHR 0x22, CHR 0x5C, CHR ''b'', CHR 0x22]) = Inl Out_of_bounds"
    by code_simp
  moreover have "util_http_select_best (Some ''text/html;q'') ''text/html'' [] = Inl Null_deref"
    by code_simp
  ultimately show ?thesis
    using r' \<open>k \<noteq> []\<close> by (simp add: util_parse_http_cn_def)
qed

theorem http_cn_quoted_and_empty_q_witness:
  "util_parse_http_cn (Some (''q'' @ CHR ''='' # CHR 0x22 # ''1'' @ [CHR 0x22])) = Inr None"
  using http_cn_quoted_and_empty_q [of "''q''" "''1'' @ [CHR 0x22]"]
  by (simp add: token_def is_token_def in_range_def code_def)

end
