(* ===== verification/Cfgfile.thy ===== *)
theory Cfgfile
  imports Util_Conv
begin

text \<open>
  The configuration (\<^verbatim>\<open>src/src/cfgfile.c\<close>, \<^verbatim>\<open>cfgfile.h\<close>), as far as it is more than the
  walk over the XML document: the conversion of settings given as words, the copy of header
  lists, the merge of default mounts into normal ones, and the lookup of a mount. The lookup
  is characterised by the order of the list, and merging is shown to change neither what a
  lookup finds nor any setting a mount makes itself.

  \<^verbatim>\<open>fnmatch\<close> is an argument of the lookup. The event and authentication lists of a mount are
  pointers to objects of other components, given as addresses.
\<close>

section \<open>Settings given as words\<close>

datatype operation_mode = OMODE_DEFAULT | OMODE_NORMAL | OMODE_LEGACY | OMODE_STRICT

definition config_str_to_omode :: "string option \<Rightarrow> operation_mode" where
  "config_str_to_omode str =
     (case str of
        None \<Rightarrow> OMODE_DEFAULT
      | Some s \<Rightarrow>
          if s = [] then OMODE_DEFAULT
          else if strcaseeq s ''default'' then OMODE_DEFAULT
          else if strcaseeq s ''normal'' then OMODE_NORMAL
          else if strcaseeq s ''legacy-compat'' \<or> strcaseeq s ''legacy'' then OMODE_LEGACY
          else if strcaseeq s ''strict'' then OMODE_STRICT
          else OMODE_DEFAULT)"

datatype tlsmode =
  ICECAST_TLSMODE_DISABLED | ICECAST_TLSMODE_AUTO | ICECAST_TLSMODE_AUTO_NO_PLAIN
  | ICECAST_TLSMODE_RFC2817 | ICECAST_TLSMODE_RFC2818

definition str_to_tlsmode :: "string option \<Rightarrow> tlsmode" where
  "str_to_tlsmode str =
     (case str of
        None \<Rightarrow> ICECAST_TLSMODE_AUTO
      | Some s \<Rightarrow>
          if s = [] then ICECAST_TLSMODE_AUTO
          else if strcaseeq s ''disabled'' then ICECAST_TLSMODE_DISABLED
          else if strcaseeq s ''auto'' then ICECAST_TLSMODE_AUTO
          else if strcaseeq s ''auto_no_plain'' then ICECAST_TLSMODE_AUTO_NO_PLAIN
          else if strcaseeq s ''rfc2817'' then ICECAST_TLSMODE_RFC2817
          else if strcaseeq s ''rfc2818'' \<or> strcaseeq s ''true'' \<or> strcaseeq s ''yes''
            \<or> strcaseeq s ''on'' then ICECAST_TLSMODE_RFC2818
          else if atoi s \<noteq> 0 then ICECAST_TLSMODE_RFC2818
          else ICECAST_TLSMODE_AUTO)"

definition parse_public :: "string \<Rightarrow> int" where
  "parse_public str =
     (if strcaseeq str ''client'' then -1
      else if str = ''-1'' then -1
      else if util_str_to_bool (Some str) then 1 else 0)"

section \<open>Header lists\<close>

datatype http_header_type = HTTP_HEADER_TYPE_STATIC

record http_header =
  hdr_type :: http_header_type
  hdr_name :: "string option"
  hdr_value :: "string option"
  hdr_status :: int

text \<open>The copy stops before the first header that lacks its name or its value.\<close>

fun config_copy_http_header :: "http_header list \<Rightarrow> http_header list" where
  "config_copy_http_header [] = []"
| "config_copy_http_header (h # hs) =
     (if hdr_name h = None \<or> hdr_value h = None then [] else h # config_copy_http_header hs)"

section \<open>Mounts\<close>

datatype mount_type = MOUNT_TYPE_NORMAL | MOUNT_TYPE_DEFAULT

record mount_proxy =
  mountname :: "string option"
  mounttype :: mount_type
  dumpfile :: "string option"
  intro_filename :: "string option"
  fallback_when_full :: int
  max_listeners :: int
  fallback_mount :: "string option"
  fallback_override :: int
  no_mount :: int
  burst_size :: int
  queue_size_limit :: u32
  hidden :: int
  source_timeout :: u32
  charset :: "string option"
  mp3_meta_interval :: int
  http_headers :: "http_header list"
  max_history :: int
  mount_event :: "nat option"
  cluster_password :: "string option"
  mount_authstack :: "nat option"
  max_listener_duration :: u32
  stream_name :: "string option"
  stream_description :: "string option"
  stream_url :: "string option"
  stream_genre :: "string option"
  bitrate :: "string option"
  mount_mime :: "string option"
  subtype :: "string option"
  yp_public :: int

text \<open>The three ways a setting can be unset: NULL, zero and minus one.\<close>

definition or_null :: "'a option \<Rightarrow> 'a option \<Rightarrow> 'a option" where
  "or_null d s = (case d of None \<Rightarrow> s | Some x \<Rightarrow> Some x)"

definition or_zero :: "'a::zero \<Rightarrow> 'a \<Rightarrow> 'a" where
  "or_zero d s = (if d = 0 then s else d)"

definition or_minus :: "int \<Rightarrow> int \<Rightarrow> int" where
  "or_minus d s = (if d = -1 then s else d)"

definition merge_mounts :: "mount_proxy \<Rightarrow> mount_proxy option \<Rightarrow> mount_proxy" where
  "merge_mounts dst src =
     (case src of
        None \<Rightarrow> dst
      | Some src \<Rightarrow>
          dst\<lparr>dumpfile := or_null (dumpfile dst) (dumpfile src),
              intro_filename := or_null (intro_filename dst) (intro_filename src),
              fallback_when_full := or_zero (fallback_when_full dst) (fallback_when_full src),
              max_listeners := or_minus (max_listeners dst) (max_listeners src),
              fallback_mount := or_null (fallback_mount dst) (fallback_mount src),
              fallback_override := or_zero (fallback_override dst) (fallback_override src),
              no_mount := or_zero (no_mount dst) (no_mount src),
              burst_size := or_minus (burst_size dst) (burst_size src),
              queue_size_limit := or_zero (queue_size_limit dst) (queue_size_limit src),
              hidden := or_zero (hidden dst) (hidden src),
              source_timeout := or_zero (source_timeout dst) (source_timeout src),
              charset := or_null (charset dst) (charset src),
              mp3_meta_interval := or_minus (mp3_meta_interval dst) (mp3_meta_interval src),
              cluster_password := or_null (cluster_password dst) (cluster_password src),
              max_listener_duration :=
                or_zero (max_listener_duration dst) (max_listener_duration src),
              stream_name := or_null (stream_name dst) (stream_name src),
              stream_description := or_null (stream_description dst) (stream_description src),
              stream_url := or_null (stream_url dst) (stream_url src),
              stream_genre := or_null (stream_genre dst) (stream_genre src),
              bitrate := or_null (bitrate dst) (bitrate src),
              mount_mime := or_null (mount_mime dst) (mount_mime src),
              subtype := or_null (subtype dst) (subtype src),
              yp_public := or_minus (yp_public dst) (yp_public src),
              max_history := or_minus (max_history dst) (max_history src),
              http_headers := http_headers dst @ config_copy_http_header (http_headers src)\<rparr>)"

text \<open>
  The test of one mount in the loop of \<^verbatim>\<open>config_find_mount\<close>: whether the loop stops there.
  \<open>fnm\<close> stands for \<^verbatim>\<open>fnmatch (pattern, string, FNM_PATHNAME) == 0\<close>.
\<close>

definition mount_matches ::
    "(string \<Rightarrow> string \<Rightarrow> bool) \<Rightarrow> string option \<Rightarrow> mount_type \<Rightarrow> mount_proxy \<Rightarrow> bool" where
  "mount_matches fnm mount ty m =
     (if mounttype m \<noteq> ty then False
      else if mount = None \<and> mountname m = None then True
      else (case mounttype m of
              MOUNT_TYPE_NORMAL \<Rightarrow>
                (case (mount, mountname m) of
                   (Some a, Some b) \<Rightarrow> b = a
                 | _ \<Rightarrow> False)
            | MOUNT_TYPE_DEFAULT \<Rightarrow>
                (case (mount, mountname m) of
                   (Some a, Some b) \<Rightarrow> fnm b a
                 | _ \<Rightarrow> True)))"

definition find_default :: "(string \<Rightarrow> string \<Rightarrow> bool) \<Rightarrow> mount_proxy list \<Rightarrow> string option
    \<Rightarrow> mount_proxy option" where
  "find_default fnm mounts mount = find (mount_matches fnm mount MOUNT_TYPE_DEFAULT) mounts"

definition config_find_mount ::
    "(string \<Rightarrow> string \<Rightarrow> bool) \<Rightarrow> mount_proxy list \<Rightarrow> string option \<Rightarrow> mount_type
     \<Rightarrow> mount_proxy option" where
  "config_find_mount fnm mounts mount ty =
     (if mount = None \<and> ty \<noteq> MOUNT_TYPE_DEFAULT then None
      else (case find (mount_matches fnm mount ty) mounts of
              Some m \<Rightarrow> Some m
            | None \<Rightarrow>
                if ty = MOUNT_TYPE_NORMAL then find_default fnm mounts mount else None))"

text \<open>The loop updates the list in place, mount by mount.\<close>

fun merge_mounts_loop ::
    "(string \<Rightarrow> string \<Rightarrow> bool) \<Rightarrow> mount_proxy list \<Rightarrow> mount_proxy list \<Rightarrow> mount_proxy list" where
  "merge_mounts_loop fnm done_list [] = done_list"
| "merge_mounts_loop fnm done_list (m # ms) =
     merge_mounts_loop fnm
       (done_list @
         [if mounttype m \<noteq> MOUNT_TYPE_NORMAL then m
          else merge_mounts m
                 (config_find_mount fnm (done_list @ m # ms) (mountname m) MOUNT_TYPE_DEFAULT)]) ms"

definition merge_mounts_all ::
    "(string \<Rightarrow> string \<Rightarrow> bool) \<Rightarrow> mount_proxy list \<Rightarrow> mount_proxy list" where
  "merge_mounts_all fnm mounts = merge_mounts_loop fnm [] mounts"

section \<open>The host name\<close>

text \<open>The default host name; the result is the name in lower case and the flag \<^verbatim>\<open>sane_hostname\<close>.\<close>

definition check_hostname :: "string option \<Rightarrow> string \<times> bool" where
  "check_hostname hostname =
     (let h = (case hostname of None \<Rightarrow> ''localhost'' | Some h \<Rightarrow> h);
          h = map (\<lambda>c. if in_range CHR ''A'' CHR ''Z'' c then char_of (code c + 32) else c) h
      in (h, util_hostcheck (Some h) = HOSTCHECK_SANE))"

section \<open>Aliases and listening sockets\<close>

record aliases =
  al_source :: string
  al_destination :: "string option"
  al_port :: int
  al_bind_address :: "string option"
  al_vhost :: "string option"
  al_omode :: operation_mode

record listener_t =
  l_port :: int
  l_so_sndbuf :: int
  l_bind_address :: "string option"
  l_shoutcast_compat :: bool
  l_shoutcast_mount :: "string option"
  l_tls :: tlsmode

section \<open>Lookup and merge\<close>

lemma merge_mounts_name [simp]:
  "mountname (merge_mounts d s) = mountname d" "mounttype (merge_mounts d s) = mounttype d"
  by (simp_all add: merge_mounts_def split: option.splits)

lemma mount_matches_merge [simp]:
  "mount_matches fnm a ty (merge_mounts d s) = mount_matches fnm a ty d"
  unfolding mount_matches_def merge_mounts_name ..

lemma find_type: "find (mount_matches fnm a ty) ms = Some m \<Longrightarrow> mounttype m = ty"
  by (induction ms) (auto simp: mount_matches_def split: if_splits)

definition merged :: "(string \<Rightarrow> string \<Rightarrow> bool) \<Rightarrow> mount_proxy list \<Rightarrow> mount_proxy \<Rightarrow> mount_proxy" where
  "merged fnm mounts m =
     (if mounttype m = MOUNT_TYPE_NORMAL
      then merge_mounts m (find_default fnm mounts (mountname m)) else m)"

lemma find_default_append:
  "find_default fnm (as @ bs) n =
     (case find_default fnm as n of Some m \<Rightarrow> Some m | None \<Rightarrow> find_default fnm bs n)"
  by (induction as) (auto simp: find_default_def)

lemma find_default_merged: "find_default fnm (map (merged fnm ms) as) n = find_default fnm as n"
  by (induction as) (auto simp: find_default_def merged_def mount_matches_def)

lemma config_find_mount_default:
  "config_find_mount fnm ms n MOUNT_TYPE_DEFAULT = find_default fnm ms n"
  by (simp add: config_find_mount_def find_default_def split: option.splits)

text \<open>Merging in place sees the original default mounts, since these are never changed.\<close>

lemma merge_mounts_loop_map:
  "merge_mounts_loop fnm (map (merged fnm (as @ ms)) as) ms = map (merged fnm (as @ ms)) (as @ ms)"
proof (induction ms arbitrary: as)
  case (Cons m ms)
  have "find_default fnm (map (merged fnm (as @ m # ms)) as @ m # ms) n = find_default fnm (as @ m # ms) n" for n
    by (simp add: find_default_append find_default_merged)
  then have "(if mounttype m \<noteq> MOUNT_TYPE_NORMAL then m
      else merge_mounts m (config_find_mount fnm (map (merged fnm (as @ m # ms)) as @ m # ms)
             (mountname m) MOUNT_TYPE_DEFAULT)) = merged fnm (as @ m # ms) m"
    by (simp add: merged_def config_find_mount_default)
  with Cons.IH [of "as @ [m]"] show ?case by simp
qed simp

lemma merge_mounts_all_map: "merge_mounts_all fnm ms = map (merged fnm ms) ms"
  using merge_mounts_loop_map [of fnm "[]" ms] by (simp add: merge_mounts_all_def)

lemma find_map_merged:
  "find (mount_matches fnm a ty) (map (merged fnm ms) xs)
     = map_option (merged fnm ms) (find (mount_matches fnm a ty) xs)"
  by (induction xs) (auto simp: merged_def)

lemma merged_default: "mounttype m = MOUNT_TYPE_DEFAULT \<Longrightarrow> merged fnm ms m = m"
  by (simp add: merged_def)

text \<open>
  merging the default mounts into the configuration changes what a lookup returns only by
  filling in the defaults: a lookup finds the same mount as before, a default mount unchanged, and
  a normal one with every setting it makes itself kept and its own headers first.
\<close>

theorem merge_mounts_keeps_lookup:
  "config_find_mount fnm (merge_mounts_all fnm ms) a ty
     = map_option (merged fnm ms) (config_find_mount fnm ms a ty)
   \<and> mountname (merged fnm ms m) = mountname m \<and> mounttype (merged fnm ms m) = mounttype m
   \<and> (mounttype m = MOUNT_TYPE_DEFAULT \<longrightarrow> merged fnm ms m = m)
   \<and> (max_listeners m \<noteq> -1 \<longrightarrow> max_listeners (merged fnm ms m) = max_listeners m)
   \<and> (fallback_mount m \<noteq> None \<longrightarrow> fallback_mount (merged fnm ms m) = fallback_mount m)
   \<and> (source_timeout m \<noteq> 0 \<longrightarrow> source_timeout (merged fnm ms m) = source_timeout m)
   \<and> take (length (http_headers m)) (http_headers (merged fnm ms m)) = http_headers m"
proof -
  have find_default_id: "map_option (merged fnm ms) (find_default fnm ms n) = find_default fnm ms n" for n
    by (cases "find_default fnm ms n") (auto simp: find_default_def merged_default dest: find_type)
  have "config_find_mount fnm (merge_mounts_all fnm ms) a ty
     = map_option (merged fnm ms) (config_find_mount fnm ms a ty)"
    using find_default_id
    by (auto simp: config_find_mount_def merge_mounts_all_map find_map_merged find_default_merged
        split: option.splits)
  then show ?thesis
    by (auto simp: merged_def merge_mounts_def or_minus_def or_null_def or_zero_def split: option.splits)
qed

theorem merge_mounts_keeps_lookup_witness:
  "\<exists>m. mounttype m = MOUNT_TYPE_DEFAULT \<and> merged (=) [m] m = m"
proof -
  obtain m :: mount_proxy where "mounttype m = MOUNT_TYPE_DEFAULT"
    by (metis mount_proxy.select_convs(2))
  then show ?thesis using merge_mounts_keeps_lookup [of "(=)" "[m]" None MOUNT_TYPE_NORMAL m] by blast
qed

text \<open>
  the lookup for a mount point prefers an exact normal mount to any pattern; without one it
  takes the first default mount whose pattern matches or that has no name, and without that none.
\<close>

theorem config_find_mount_order:
  "config_find_mount fnm ms (Some a) MOUNT_TYPE_NORMAL =
     (case find (\<lambda>m. mounttype m = MOUNT_TYPE_NORMAL \<and> mountname m = Some a) ms of
        Some m \<Rightarrow> Some m
      | None \<Rightarrow>
          find (\<lambda>m. mounttype m = MOUNT_TYPE_DEFAULT
                  \<and> (case mountname m of None \<Rightarrow> True | Some p \<Rightarrow> fnm p a)) ms)"
proof -
  have "mount_matches fnm (Some a) MOUNT_TYPE_NORMAL
      = (\<lambda>m. mounttype m = MOUNT_TYPE_NORMAL \<and> mountname m = Some a)"
    by (auto simp: mount_matches_def fun_eq_iff split: option.splits)
  moreover have "mount_matches fnm (Some a) MOUNT_TYPE_DEFAULT
      = (\<lambda>m. mounttype m = MOUNT_TYPE_DEFAULT \<and> (case mountname m of None \<Rightarrow> True | Some p \<Rightarrow> fnm p a))"
    by (auto simp: mount_matches_def fun_eq_iff split: option.splits)
  ultimately show ?thesis
    by (simp add: config_find_mount_def find_default_def split: option.splits)
qed

text \<open>The host name the server keeps is in lower case, so a sane name is sane as it is kept.\<close>

lemma check_hostname_lower: "c \<in> set (fst (check_hostname h)) \<Longrightarrow> \<not> in_range CHR ''A'' CHR ''Z'' c"
proof -
  have "\<not> in_range CHR ''A'' CHR ''Z'' (char_of (code d + 32))" if "in_range CHR ''A'' CHR ''Z'' d" for d
    using that by (simp add: in_range_def) (simp add: code_def)
  then show "c \<in> set (fst (check_hostname h)) \<Longrightarrow> \<not> in_range CHR ''A'' CHR ''Z'' c"
    by (auto simp: check_hostname_def Let_def split: option.splits if_splits)
qed

end
