(* ===== verification/Util_Header.thy ===== *)
theory Util_Header
  imports Cfgfile
begin

text \<open>
  Response headers (\<^verbatim>\<open>src/src/util.c\<close>): the configured extra headers and
  \<^verbatim>\<open>util_http_build_header\<close>, with the 80-byte buffers for the status line and the content
  type and the caller's buffer. The header is a sequence of complete lines as long as these
  two lines fit, and nothing is written past the caller's buffer. The date line is a
  parameter, since the time comes from the system.
\<close>

section \<open>Definitions\<close>

definition crlf :: string where
  "crlf = [CHR 0x0D, CHR 0x0A]"

text \<open>The list of configured headers is followed to its end, the header text grows.\<close>

definition header_line :: "int \<Rightarrow> http_header \<Rightarrow> string" where
  "header_line status h =
     (if hdr_status h \<noteq> 0 \<and> hdr_status h \<noteq> status then []
      else (case (hdr_name h, case hdr_type h of HTTP_HEADER_TYPE_STATIC \<Rightarrow> hdr_value h) of
              (Some n, Some v) \<Rightarrow> n @ '': '' @ v @ crlf
            | _ \<Rightarrow> []))"

fun build_headers_loop :: "string \<Rightarrow> http_header list \<Rightarrow> int \<Rightarrow> string" where
  "build_headers_loop ret [] status = ret"
| "build_headers_loop ret (h # hs) status = build_headers_loop (ret @ header_line status h) hs status"

record header_config =
  server_id :: string
  cfg_headers :: "http_header list"
  cfg_mounts :: "mount_proxy list"

definition build_headers ::
    "(string \<Rightarrow> string \<Rightarrow> bool) \<Rightarrow> int \<Rightarrow> header_config \<Rightarrow> string option \<Rightarrow> string" where
  "build_headers fnm status config source_mount =
     (let mountproxy = (case source_mount of
                          None \<Rightarrow> None
                        | Some m \<Rightarrow> config_find_mount fnm (cfg_mounts config) (Some m) MOUNT_TYPE_NORMAL);
          ret = build_headers_loop [] (cfg_headers config) status
      in case mountproxy of
           None \<Rightarrow> ret
         | Some mp \<Rightarrow> build_headers_loop ret (http_headers mp) status)"

datatype reuse = ICECAST_REUSE_CLOSE | ICECAST_REUSE_KEEPALIVE | ICECAST_REUSE_UPGRADETLS

text \<open>What the function reads of the client.\<close>

record header_client =
  con_tlsmode :: tlsmode
  client_reuse :: reuse
  admin_command_error :: bool

definition upgrade_header :: "header_client option \<Rightarrow> string" where
  "upgrade_header client =
     (case client of
        None \<Rightarrow> []
      | Some c \<Rightarrow>
          if client_reuse c = ICECAST_REUSE_UPGRADETLS then []
          else if con_tlsmode c \<noteq> ICECAST_TLSMODE_DISABLED then ''Upgrade: TLS/1.0'' @ crlf
          else [])"

definition connection_header :: "header_client option \<Rightarrow> string" where
  "connection_header client =
     (case client of
        None \<Rightarrow> ''Close''
      | Some c \<Rightarrow>
          (case client_reuse c of
             ICECAST_REUSE_CLOSE \<Rightarrow> ''Close''
           | ICECAST_REUSE_KEEPALIVE \<Rightarrow> ''Keep-Alive''
           | ICECAST_REUSE_UPGRADETLS \<Rightarrow> ''Upgrade''))"

text \<open>The message and the protocol version the code gives a status without a message.\<close>

definition status_message :: "int \<Rightarrow> string \<times> string" where
  "status_message status =
     (if status = 100 then (''Continue'', ''1.1'')
      else if status = 101 then (''Switching Protocols'', ''1.1'')
      else if status = 200 then (''OK'', ''1.0'')
      else if status = 206 then (''Partial Content'', ''1.1'')
      else if status = 400 then (''Bad Request'', ''1.0'')
      else if status = 401 then (''Authentication Required'', ''1.0'')
      else if status = 403 then (''Forbidden'', ''1.0'')
      else if status = 404 then (''File Not Found'', ''1.0'')
      else if status = 405 then (''Method Not Allowed'', ''1.0'')
      else if status = 409 then (''Conflict'', ''1.0'')
      else if status = 415 then (''Unsupported Media Type'', ''1.0'')
      else if status = 416 then (''Request Range Not Satisfiable'', ''1.0'')
      else if status = 426 then (''Upgrade Required'', ''1.1'')
      else if status = 429 then (''Too Many Requests'', ''1.0'')
      else if status = 501 then (''Unimplemented'', ''1.0'')
      else if status = 503 then (''Service Unavailable'', ''1.0'')
      else (''(unknown status code)'', ''1.0''))"

text \<open>\<^verbatim>\<open>snprintf\<close> into a buffer of \<open>n\<close> bytes keeps at most \<open>n - 1\<close> characters.\<close>

definition snprintf :: "nat \<Rightarrow> string \<Rightarrow> string" where
  "snprintf n s = take (n - 1) s"

definition status_line :: "int \<Rightarrow> string option \<Rightarrow> string" where
  "status_line status statusmsg =
     (let (msg, ver) = (case statusmsg of None \<Rightarrow> status_message status | Some m \<Rightarrow> (m, ''1.0''))
      in ''HTTP/'' @ ver @ '' '' @ show_int status @ '' '' @ msg @ crlf)"

definition status_buffer :: "int \<Rightarrow> string option \<Rightarrow> string" where
  "status_buffer status statusmsg =
     (if status = -1 then [] else snprintf 80 (status_line status statusmsg))"

definition contenttype_line :: "string \<Rightarrow> string option \<Rightarrow> string" where
  "contenttype_line contenttype cset =
     (case cset of
        Some cs \<Rightarrow> ''Content-Type: '' @ contenttype @ ''; charset='' @ cs @ crlf
      | None \<Rightarrow> ''Content-Type: '' @ contenttype @ crlf)"

definition contenttype_buffer :: "string option \<Rightarrow> string option \<Rightarrow> string" where
  "contenttype_buffer contenttype cset =
     (case contenttype of None \<Rightarrow> [] | Some ct \<Rightarrow> snprintf 80 (contenttype_line ct cset))"

definition header_text ::
    "(string \<Rightarrow> string \<Rightarrow> bool) \<Rightarrow> string option \<Rightarrow> header_config \<Rightarrow> bool \<Rightarrow> int \<Rightarrow> string option
     \<Rightarrow> string option \<Rightarrow> string option \<Rightarrow> string option \<Rightarrow> header_client option \<Rightarrow> string" where
  "header_text fnm date config cache status statusmsg contenttype cset source_mount client =
     status_buffer status statusmsg
     @ ''Server: '' @ server_id config @ crlf
     @ ''Connection: '' @ connection_header client @ crlf
     @ ''Accept-Encoding: identity'' @ crlf
     @ ''Allow: '' @ (case client of
                        Some c \<Rightarrow> if admin_command_error c then ''GET, SOURCE'' else ''GET''
                      | None \<Rightarrow> ''GET'') @ crlf
     @ upgrade_header client
     @ (case date of None \<Rightarrow> [] | Some d \<Rightarrow> d)
     @ contenttype_buffer contenttype cset
     @ (if status = 401
        then ''WWW-Authenticate: Basic realm='' @ [CHR 0x22] @ ''Icecast2 Server'' @ [CHR 0x22] @ crlf
        else [])
     @ (if cache then []
        else ''Cache-Control: no-cache'' @ crlf @ ''Expires: Mon, 26 Jul 1997 05:00:00 GMT'' @ crlf
             @ ''Pragma: no-cache'' @ crlf)
     @ build_headers fnm status config source_mount"

text \<open>
  The whole function: \<open>out\<close> is the string in the caller's buffer, \<open>len\<close> its size. The result is
  the return value of \<^verbatim>\<open>snprintf\<close>, the length of the untruncated text, and the new string. The
  size left is computed in an unsigned type.
\<close>

definition util_http_build_header ::
    "(string \<Rightarrow> string \<Rightarrow> bool) \<Rightarrow> string option \<Rightarrow> header_config \<Rightarrow> string option \<Rightarrow> u64 \<Rightarrow> int \<Rightarrow> bool
     \<Rightarrow> int \<Rightarrow> string option \<Rightarrow> string option \<Rightarrow> string option \<Rightarrow> string option \<Rightarrow> string option
     \<Rightarrow> header_client option \<Rightarrow> int \<times> string option" where
  "util_http_build_header fnm date config out len offset cache status statusmsg contenttype cset
       datablock source_mount client =
     (case out of
        None \<Rightarrow> (-1, None)
      | Some buf \<Rightarrow>
          (let offset = (if offset = -1 then int (length buf) else offset);
               room = len - word_of_int offset;
               text = header_text fnm date config cache status statusmsg contenttype cset
                        source_mount client
                      @ (case datablock of None \<Rightarrow> [] | Some d \<Rightarrow> crlf @ d)
           in (int (length text),
               Some (if room = 0 then buf else take (nat offset) buf @ snprintf (unat room) text))))"

section \<open>Lines\<close>

text \<open>A text made of complete lines, each ended by carriage return and line feed.\<close>

definition plain :: "string \<Rightarrow> bool" where
  "plain s \<longleftrightarrow> CHR 0x0D \<notin> set s \<and> CHR 0x0A \<notin> set s"

definition lines :: "string \<Rightarrow> bool" where
  "lines s \<longleftrightarrow> (\<exists>ls. list_all plain ls \<and> s = concat (map (\<lambda>l. l @ crlf) ls))"

lemma lines_Nil [simp]: "lines []"
  unfolding lines_def by (rule exI [of _ "[]"]) simp

lemma lines_line: "plain l \<Longrightarrow> lines (l @ crlf)"
  unfolding lines_def by (rule exI [of _ "[l]"]) simp

lemma lines_append: "lines s \<Longrightarrow> lines t \<Longrightarrow> lines (s @ t)"
proof -
  assume "lines s" and "lines t"
  then obtain ls ls' where "list_all plain ls" "s = concat (map (\<lambda>l. l @ crlf) ls)"
    and "list_all plain ls'" "t = concat (map (\<lambda>l. l @ crlf) ls')"
    unfolding lines_def by blast
  then show ?thesis
    unfolding lines_def by (intro exI [of _ "ls @ ls'"]) simp
qed

lemma lines_line_append: "plain l \<Longrightarrow> lines t \<Longrightarrow> lines (l @ crlf @ t)"
  using lines_append [OF lines_line, of l t] by simp

lemma plain_append [simp]: "plain (s @ t) \<longleftrightarrow> plain s \<and> plain t"
  by (auto simp: plain_def)

lemma plain_Nil [simp]: "plain []"
  by (simp add: plain_def)

lemma plain_Cons [simp]: "plain (c # s) \<longleftrightarrow> c \<noteq> CHR 0x0D \<and> c \<noteq> CHR 0x0A \<and> plain s"
  by (auto simp: plain_def)

lemma plain_digits: "\<forall>c\<in>set s. is_digit c \<Longrightarrow> plain s"
  by (auto simp: plain_def is_digit_def in_range_def code_def)

lemma plain_show_int [simp]: "plain (show_int i)"
  by (auto simp: show_int_def intro!: plain_digits dest: show_nat_digits)

definition header_ok :: "http_header \<Rightarrow> bool" where
  "header_ok h \<longleftrightarrow> (case hdr_name h of None \<Rightarrow> True | Some n \<Rightarrow> plain n)
     \<and> (case hdr_value h of None \<Rightarrow> True | Some v \<Rightarrow> plain v)"

lemma header_line_lines: "header_ok h \<Longrightarrow> lines (header_line status h)"
proof -
  have "lines (n @ '': '' @ v @ crlf)" if "plain n" "plain v" for n v
    using lines_line [of "n @ '': '' @ v"] that by simp
  then show "header_ok h \<Longrightarrow> lines (header_line status h)"
    by (auto simp: header_line_def header_ok_def split: option.splits http_header_type.splits)
qed

lemma build_headers_loop_concat:
  "build_headers_loop ret hs status = ret @ concat (map (header_line status) hs)"
  by (induction hs arbitrary: ret) auto

lemma concat_lines: "\<forall>x\<in>set xs. lines x \<Longrightarrow> lines (concat xs)"
  by (induction xs) (auto intro: lines_append)

lemma build_headers_lines:
  assumes "list_all header_ok (cfg_headers config)"
    and "\<forall>m\<in>set (cfg_mounts config). list_all header_ok (http_headers m)"
  shows "lines (build_headers fnm status config source_mount)"
proof -
  have m: "m \<in> set (cfg_mounts config)"
    if "config_find_mount fnm (cfg_mounts config) a ty = Some m" for a ty m
    using that
    by (auto simp: config_find_mount_def find_default_def find_Some_iff split: if_splits option.splits)
  have l: "lines (concat (map (header_line status) hs))" if "list_all header_ok hs" for hs
    using that by (intro concat_lines) (auto simp: list_all_iff header_line_lines)
  show ?thesis
    using assms l m
    by (auto simp: build_headers_def Let_def build_headers_loop_concat intro!: lines_append
        split: option.splits)
qed

lemma snprintf_fits: "length s < n \<Longrightarrow> snprintf n s = s"
  by (simp add: snprintf_def)

lemma status_buffer_lines:
  assumes "case statusmsg of None \<Rightarrow> True | Some m \<Rightarrow> plain m"
    and "length (status_line status statusmsg) < 80"
  shows "lines (status_buffer status statusmsg)"
proof -
  have "plain (fst (status_message status))" "plain (snd (status_message status))"
    by (simp_all add: status_message_def)
  then have "lines ((''HTTP/'' @ ver @ '' '' @ show_int status @ '' '' @ msg) @ crlf)"
    if "(msg, ver) = (case statusmsg of None \<Rightarrow> status_message status | Some m \<Rightarrow> (m, ''1.0''))" for msg ver
    using assms(1) that
    by (intro lines_line) (cases statusmsg; auto simp: prod_eq_iff)
  then have "lines (status_line status statusmsg)"
    by (auto simp: status_line_def Let_def split: prod.splits)
  with assms(2) show ?thesis by (simp add: status_buffer_def snprintf_fits)
qed

lemma contenttype_buffer_lines:
  assumes "\<forall>ct\<in>set_option contenttype. plain ct \<and> length (contenttype_line ct cset) < 80"
    and "\<forall>cs\<in>set_option cset. plain cs"
  shows "lines (contenttype_buffer contenttype cset)"
proof (cases contenttype)
  case (Some ct)
  have "lines (contenttype_line ct cset)"
    using assms lines_line [of "''Content-Type: '' @ ct"] lines_line [of "''Content-Type: '' @ ct @ ''; charset='' @ the cset"]
    by (auto simp: contenttype_line_def Some split: option.splits)
  with assms(1) Some show ?thesis by (simp add: contenttype_buffer_def snprintf_fits)
qed (simp add: contenttype_buffer_def)

lemma lines_if: "(b \<Longrightarrow> lines s) \<Longrightarrow> (\<not> b \<Longrightarrow> lines t) \<Longrightarrow> lines (if b then s else t)"
  by simp

lemma fixed_lines:
  "lines (''Accept-Encoding: identity'' @ crlf)"
  "lines (''WWW-Authenticate: Basic realm='' @ [CHR 0x22] @ ''Icecast2 Server'' @ [CHR 0x22] @ crlf)"
  "lines (''Cache-Control: no-cache'' @ crlf @ ''Expires: Mon, 26 Jul 1997 05:00:00 GMT'' @ crlf
     @ ''Pragma: no-cache'' @ crlf)"
  "lines (upgrade_header client)"
proof -
  show "lines (''Accept-Encoding: identity'' @ crlf)" by (rule lines_line) simp
  show "lines (''WWW-Authenticate: Basic realm='' @ [CHR 0x22] @ ''Icecast2 Server'' @ [CHR 0x22] @ crlf)"
    using lines_line [of "''WWW-Authenticate: Basic realm='' @ [CHR 0x22] @ ''Icecast2 Server'' @ [CHR 0x22]"]
    by simp
  show "lines (''Cache-Control: no-cache'' @ crlf @ ''Expires: Mon, 26 Jul 1997 05:00:00 GMT'' @ crlf
     @ ''Pragma: no-cache'' @ crlf)"
    by (intro lines_line_append lines_line) simp_all
  have "lines (''Upgrade: TLS/1.0'' @ crlf)" by (rule lines_line) simp
  then show "lines (upgrade_header client)"
    by (simp add: upgrade_header_def split: option.splits)
qed

text \<open>The inputs carry no line breaks, and the two lines built in small buffers fit.\<close>

definition inputs_ok ::
    "string option \<Rightarrow> header_config \<Rightarrow> int \<Rightarrow> string option \<Rightarrow> string option \<Rightarrow> string option \<Rightarrow> bool" where
  "inputs_ok date config status statusmsg contenttype cset \<longleftrightarrow>
     (\<forall>d\<in>set_option date. \<exists>l. plain l \<and> d = l @ crlf)
     \<and> plain (server_id config) \<and> list_all header_ok (cfg_headers config)
     \<and> (\<forall>m\<in>set (cfg_mounts config). list_all header_ok (http_headers m))
     \<and> (case statusmsg of None \<Rightarrow> True | Some m \<Rightarrow> plain m)
     \<and> length (status_line status statusmsg) < 80
     \<and> (\<forall>ct\<in>set_option contenttype. plain ct \<and> length (contenttype_line ct cset) < 80)
     \<and> (\<forall>cs\<in>set_option cset. plain cs)"

lemma header_text_lines:
  assumes "inputs_ok date config status statusmsg contenttype cset"
  shows "lines (header_text fnm date config cache status statusmsg contenttype cset source_mount client)"
proof -
  have s: "lines (''Server: '' @ server_id config @ crlf)"
    using lines_line [of "''Server: '' @ server_id config"] assms by (simp add: inputs_ok_def)
  have "plain (connection_header client)"
    by (simp add: connection_header_def split: option.splits reuse.splits)
  then have c: "lines (''Connection: '' @ connection_header client @ crlf)"
    using lines_line [of "''Connection: '' @ connection_header client"] by simp
  have a: "lines (''Allow: '' @ (case client of
                        Some c \<Rightarrow> if admin_command_error c then ''GET, SOURCE'' else ''GET''
                      | None \<Rightarrow> ''GET'') @ crlf)"
    using lines_line [of "''Allow: '' @ ''GET''"] lines_line [of "''Allow: '' @ ''GET, SOURCE''"]
    by (simp split: option.splits)
  have d: "lines (case date of None \<Rightarrow> [] | Some d \<Rightarrow> d)"
    using assms lines_line by (auto simp: inputs_ok_def split: option.splits)
  have h: "lines ((''Server: '' @ server_id config @ crlf) @ (''Connection: '' @ connection_header client @ crlf)
     @ (''Accept-Encoding: identity'' @ crlf)
     @ (''Allow: '' @ (case client of
                        Some c \<Rightarrow> if admin_command_error c then ''GET, SOURCE'' else ''GET''
                      | None \<Rightarrow> ''GET'') @ crlf))"
    by (intro lines_append s c a fixed_lines)
  have t: "lines (upgrade_header client @ (case date of None \<Rightarrow> [] | Some d \<Rightarrow> d)
     @ contenttype_buffer contenttype cset
     @ (if status = 401
        then ''WWW-Authenticate: Basic realm='' @ [CHR 0x22] @ ''Icecast2 Server'' @ [CHR 0x22] @ crlf
        else [])
     @ (if cache then []
        else ''Cache-Control: no-cache'' @ crlf @ ''Expires: Mon, 26 Jul 1997 05:00:00 GMT'' @ crlf
             @ ''Pragma: no-cache'' @ crlf)
     @ build_headers fnm status config source_mount)"
    using assms
    by (intro lines_append lines_if fixed_lines d build_headers_lines contenttype_buffer_lines lines_Nil)
      (auto simp: inputs_ok_def)
  have st: "lines (status_buffer status statusmsg)"
    using assms by (intro status_buffer_lines) (simp_all add: inputs_ok_def)
  from lines_append [OF st lines_append [OF h t]] show ?thesis
    unfolding header_text_def by (simp only: append_assoc)
qed

text \<open>
  with inputs that hold no line break and a status line and content type that fit their
  80-byte buffers, the header that is written is a sequence of complete lines, followed by an
  empty line and the data block if there is one; the string ends inside the caller's buffer in
  every case, and it is whole exactly when the returned length is less than the size left.
\<close>

theorem build_header_wellformed:
  assumes "inputs_ok date config status statusmsg contenttype cset"
    and "length buf < unat len"
    and "util_http_build_header fnm date config (Some buf) len (-1) cache status statusmsg contenttype
           cset datablock source_mount client = (ret, Some out)"
  shows "\<exists>t. lines t
     \<and> (let whole = t @ (case datablock of None \<Rightarrow> [] | Some d \<Rightarrow> crlf @ d)
        in ret = int (length whole) \<and> length out < unat len
           \<and> (length whole < unat len - length buf \<longrightarrow> out = buf @ whole)
           \<and> (length whole \<ge> unat len - length buf \<longrightarrow> out = buf @ take (unat len - length buf - 1) whole))"
proof (intro exI conjI)
  let ?t = "header_text fnm date config cache status statusmsg contenttype cset source_mount client"
  show "lines ?t" by (rule header_text_lines) (rule assms(1))
  have u: "unat (word_of_nat (length buf) :: u64) = length buf"
    using assms(2) unsigned_less [of len, where 'a = nat] by (simp add: unat_of_nat take_bit_nat_eq_self)
  then have "word_of_nat (length buf) \<le> len"
    using assms(2) by (simp add: word_le_nat_alt)
  then have room: "unat (len - word_of_nat (length buf)) = unat len - length buf"
    by (simp add: unat_sub u)
  then have "len - word_of_nat (length buf) \<noteq> 0"
    using assms(2) by (metis unat_0 zero_less_diff less_numeral_extra(3))
  moreover define whole where "whole = ?t @ (case datablock of None \<Rightarrow> [] | Some d \<Rightarrow> crlf @ d)"
  ultimately have "ret = int (length whole)" and "out = buf @ take (unat len - length buf - 1) whole"
    using assms(2, 3) room
    by (simp_all add: util_http_build_header_def Let_def snprintf_def del: take_append)
  with assms(2) show "let whole = ?t @ (case datablock of None \<Rightarrow> [] | Some d \<Rightarrow> crlf @ d)
        in ret = int (length whole) \<and> length out < unat len
           \<and> (length whole < unat len - length buf \<longrightarrow> out = buf @ whole)
           \<and> (length whole \<ge> unat len - length buf \<longrightarrow> out = buf @ take (unat len - length buf - 1) whole)"
    unfolding whole_def [symmetric] Let_def by auto
qed

theorem build_header_wellformed_witness:
  "let r = util_http_build_header (=) None
        \<lparr>server_id = ''Icecast'', cfg_headers = [], cfg_mounts = []\<rparr> (Some []) 4096 (-1) False 200 None
        (Some ''audio/mpeg'') None None None None
   in snd r \<noteq> None \<and> length (the (snd r)) < 4096"
proof -
  let ?c = "\<lparr>server_id = ''Icecast'', cfg_headers = [], cfg_mounts = []\<rparr> :: header_config"
  obtain ret out where r: "util_http_build_header (=) None ?c (Some []) 4096 (-1) False 200 None
        (Some ''audio/mpeg'') None None None None = (ret, Some out)"
    by (simp add: util_http_build_header_def Let_def)
  have i: "inputs_ok None ?c 200 None (Some ''audio/mpeg'') None"
  proof -
    have "length (status_line 200 None) < 80" "length (contenttype_line ''audio/mpeg'' None) < 80"
      by code_simp+
    then show ?thesis by (simp add: inputs_ok_def)
  qed
  have "length ([] :: string) < unat (4096 :: u64)" by simp
  from build_header_wellformed [OF i this r] r show ?thesis
    by (auto simp: Let_def)
qed

text \<open>
  a content type of 65 characters or more loses its line end in the 80-byte buffer, so the
  next header is read as part of it.
\<close>

theorem long_contenttype_breaks_header:
  assumes "65 \<le> length ct" and "plain ct"
  shows "\<not> lines (contenttype_buffer (Some ct) None)"
proof
  assume "lines (contenttype_buffer (Some ct) None)"
  moreover have "contenttype_buffer (Some ct) None \<noteq> []"
    by (simp add: contenttype_buffer_def contenttype_line_def snprintf_def)
  ultimately have "CHR 0x0A \<in> set (contenttype_buffer (Some ct) None)"
    by (auto simp: lines_def crlf_def)
  moreover have "contenttype_buffer (Some ct) None = take 79 (''Content-Type: '' @ ct)"
    using assms(1) by (simp add: contenttype_buffer_def contenttype_line_def snprintf_def)
  ultimately have "CHR 0x0A \<in> set (''Content-Type: '' @ ct)"
    by (metis in_set_takeD)
  with assms(2) show False by (simp add: plain_def)
qed

theorem long_contenttype_breaks_header_witness:
  "\<not> lines (contenttype_buffer (Some (replicate 70 CHR ''a'')) None)"
  by (rule long_contenttype_breaks_header) (simp_all add: plain_def)

end
