(* ===== verification/MD5.thy ===== *)
theory MD5
  imports Interfaces
begin

unbundle bit_operations_syntax

text \<open>
  The MD5 message digest (\<^verbatim>\<open>src/src/md5.c\<close>), which the password files use: the context
  with its bit counter in two 32-bit words and its 64-byte buffer, \<^verbatim>\<open>MD5Init\<close>,
  \<^verbatim>\<open>MD5Update\<close>, \<^verbatim>\<open>MD5Final\<close> and the 64 steps of \<^verbatim>\<open>MD5Transform\<close>, on a little-endian
  machine. Feeding a message in pieces of any sizes gives the digest of the padded message
  as RFC 1321 defines it, and the core functions are those of the RFC.
\<close>

section \<open>Words in memory\<close>

definition le32 :: "byte \<Rightarrow> byte \<Rightarrow> byte \<Rightarrow> byte \<Rightarrow> u32" where
  "le32 b0 b1 b2 b3 =
     push_bit 16 (push_bit 8 (ucast b3) OR ucast b2) OR (push_bit 8 (ucast b1) OR ucast b0)"

text \<open>The four bytes of a word as the machine stores them.\<close>

definition bytes_of :: "u32 \<Rightarrow> byte list" where
  "bytes_of w = [ucast w, ucast (drop_bit 8 w), ucast (drop_bit 16 w), ucast (drop_bit 24 w)]"

fun byteReverse :: "byte list \<Rightarrow> nat \<Rightarrow> byte list" where
  "byteReverse (b0 # b1 # b2 # b3 # bs) (Suc longs) =
     bytes_of (le32 b0 b1 b2 b3) @ byteReverse bs longs"
| "byteReverse bs _ = bs"

text \<open>The buffer read as an array of words.\<close>

fun words_of :: "byte list \<Rightarrow> u32 list" where
  "words_of (b0 # b1 # b2 # b3 # bs) = le32 b0 b1 b2 b3 # words_of bs"
| "words_of _ = []"

section \<open>The compression function\<close>

definition F1 :: "u32 \<Rightarrow> u32 \<Rightarrow> u32 \<Rightarrow> u32" where
  "F1 x y z = z XOR (x AND (y XOR z))"

definition F2 :: "u32 \<Rightarrow> u32 \<Rightarrow> u32 \<Rightarrow> u32" where
  "F2 x y z = F1 z x y"

definition F3 :: "u32 \<Rightarrow> u32 \<Rightarrow> u32 \<Rightarrow> u32" where
  "F3 x y z = x XOR y XOR z"

definition F4 :: "u32 \<Rightarrow> u32 \<Rightarrow> u32 \<Rightarrow> u32" where
  "F4 x y z = y XOR (x OR NOT z)"

type_synonym md5_state = "u32 \<times> u32 \<times> u32 \<times> u32"

text \<open>
  One \<^verbatim>\<open>MD5STEP\<close> updates its first register; the next step of the source takes the four
  registers turned by one place, so the result is the tuple in the order of the next step.
\<close>

definition MD5STEP :: "(u32 \<Rightarrow> u32 \<Rightarrow> u32 \<Rightarrow> u32) \<Rightarrow> md5_state \<Rightarrow> u32 \<Rightarrow> nat \<Rightarrow> md5_state" where
  "MD5STEP f st data s =
     (case st of (w, x, y, z) \<Rightarrow>
        (let w = w + f x y z + data;
             w = push_bit s w OR drop_bit (32 - s) w;
             w = w + x
         in (z, w, x, y)))"

text \<open>The steps of the source: function, index into the block, constant, rotation.\<close>

definition md5_steps :: "((u32 \<Rightarrow> u32 \<Rightarrow> u32 \<Rightarrow> u32) \<times> nat \<times> u32 \<times> nat) list" where
  "md5_steps =
    [
     (F1, 0, 0xd76aa478, 7), (F1, 1, 0xe8c7b756, 12), (F1, 2, 0x242070db, 17), (F1, 3, 0xc1bdceee, 22),
     (F1, 4, 0xf57c0faf, 7), (F1, 5, 0x4787c62a, 12), (F1, 6, 0xa8304613, 17), (F1, 7, 0xfd469501, 22),
     (F1, 8, 0x698098d8, 7), (F1, 9, 0x8b44f7af, 12), (F1, 10, 0xffff5bb1, 17), (F1, 11, 0x895cd7be, 22),
     (F1, 12, 0x6b901122, 7), (F1, 13, 0xfd987193, 12), (F1, 14, 0xa679438e, 17), (F1, 15, 0x49b40821, 22),
     (F2, 1, 0xf61e2562, 5), (F2, 6, 0xc040b340, 9), (F2, 11, 0x265e5a51, 14), (F2, 0, 0xe9b6c7aa, 20),
     (F2, 5, 0xd62f105d, 5), (F2, 10, 0x02441453, 9), (F2, 15, 0xd8a1e681, 14), (F2, 4, 0xe7d3fbc8, 20),
     (F2, 9, 0x21e1cde6, 5), (F2, 14, 0xc33707d6, 9), (F2, 3, 0xf4d50d87, 14), (F2, 8, 0x455a14ed, 20),
     (F2, 13, 0xa9e3e905, 5), (F2, 2, 0xfcefa3f8, 9), (F2, 7, 0x676f02d9, 14), (F2, 12, 0x8d2a4c8a, 20),
     (F3, 5, 0xfffa3942, 4), (F3, 8, 0x8771f681, 11), (F3, 11, 0x6d9d6122, 16), (F3, 14, 0xfde5380c, 23),
     (F3, 1, 0xa4beea44, 4), (F3, 4, 0x4bdecfa9, 11), (F3, 7, 0xf6bb4b60, 16), (F3, 10, 0xbebfbc70, 23),
     (F3, 13, 0x289b7ec6, 4), (F3, 0, 0xeaa127fa, 11), (F3, 3, 0xd4ef3085, 16), (F3, 6, 0x04881d05, 23),
     (F3, 9, 0xd9d4d039, 4), (F3, 12, 0xe6db99e5, 11), (F3, 15, 0x1fa27cf8, 16), (F3, 2, 0xc4ac5665, 23),
     (F4, 0, 0xf4292244, 6), (F4, 7, 0x432aff97, 10), (F4, 14, 0xab9423a7, 15), (F4, 5, 0xfc93a039, 21),
     (F4, 12, 0x655b59c3, 6), (F4, 3, 0x8f0ccc92, 10), (F4, 10, 0xffeff47d, 15), (F4, 1, 0x85845dd1, 21),
     (F4, 8, 0x6fa87e4f, 6), (F4, 15, 0xfe2ce6e0, 10), (F4, 6, 0xa3014314, 15), (F4, 13, 0x4e0811a1, 21),
     (F4, 4, 0xf7537e82, 6), (F4, 11, 0xbd3af235, 10), (F4, 2, 0x2ad7d2bb, 15), (F4, 9, 0xeb86d391, 21)]"

definition MD5Transform :: "md5_state \<Rightarrow> u32 list \<Rightarrow> md5_state" where
  "MD5Transform buf ws =
     (case buf of (a0, b0, c0, d0) \<Rightarrow>
        (case fold (\<lambda>(f, k, const, s) st. MD5STEP f st (ws ! k + const) s) md5_steps buf of
           (a, b, c, d) \<Rightarrow> (a0 + a, b0 + b, c0 + c, d0 + d)))"

section \<open>The context\<close>

record md5_context =
  ctx_buf :: md5_state
  bits0 :: u32
  bits1 :: u32
  ctx_in :: "byte list"

definition MD5Init :: "md5_context \<Rightarrow> md5_context" where
  "MD5Init ctx = ctx\<lparr>ctx_buf := (0x67452301, 0xefcdab89, 0x98badcfe, 0x10325476),
     bits0 := 0, bits1 := 0\<rparr>"

text \<open>The two lines that every full block goes through: byte order, then the compression.\<close>

definition md5_block :: "md5_context \<Rightarrow> md5_context" where
  "md5_block ctx =
     (let ctx = ctx\<lparr>ctx_in := byteReverse (ctx_in ctx) 16\<rparr>
      in ctx\<lparr>ctx_buf := MD5Transform (ctx_buf ctx) (words_of (ctx_in ctx))\<rparr>)"

text \<open>\<^verbatim>\<open>memcpy (ctx->in + off, data, length data)\<close>.\<close>

definition md5_copy :: "nat \<Rightarrow> byte list \<Rightarrow> md5_context \<Rightarrow> md5_context" where
  "md5_copy off data ctx =
     ctx\<lparr>ctx_in := take off (ctx_in ctx) @ data @ drop (off + length data) (ctx_in ctx)\<rparr>"

function md5_loop :: "md5_context \<Rightarrow> byte list \<Rightarrow> md5_context \<times> byte list" where
  "md5_loop ctx data =
     (if 64 \<le> length data
      then md5_loop (md5_block (md5_copy 0 (take 64 data) ctx)) (drop 64 data)
      else (ctx, data))"
  by auto
termination by (relation "measure (\<lambda>(ctx, data). length data)") auto

declare md5_loop.simps [simp del]

definition md5_count :: "md5_context \<Rightarrow> u32 \<Rightarrow> md5_context" where
  "md5_count ctx len =
     (let t = bits0 ctx;
          ctx = ctx\<lparr>bits0 := t + push_bit 3 len\<rparr>;
          ctx = (if bits0 ctx < t then ctx\<lparr>bits1 := bits1 ctx + 1\<rparr> else ctx)
      in ctx\<lparr>bits1 := bits1 ctx + drop_bit 29 len\<rparr>)"

definition MD5Update :: "md5_context \<Rightarrow> byte list \<Rightarrow> md5_context" where
  "MD5Update ctx data =
     (let t = unat (drop_bit 3 (bits0 ctx) AND 0x3f);
          ctx = md5_count ctx (of_nat (length data))
      in if t \<noteq> 0 \<and> length data < 64 - t then md5_copy t data ctx
         else (let (ctx, data) =
                 (if t \<noteq> 0
                  then (md5_block (md5_copy t (take (64 - t) data) ctx), drop (64 - t) data)
                  else (ctx, data));
                 (ctx, data) = md5_loop ctx data
               in md5_copy 0 data ctx))"

definition MD5Final :: "md5_context \<Rightarrow> byte list" where
  "MD5Final ctx =
     (let count = unat (drop_bit 3 (bits0 ctx) AND 0x3f);
          ctx = md5_copy count [0x80] ctx;
          p = count + 1;
          count = 64 - 1 - count;
          ctx = (if count < 8
                 then md5_copy 0 (replicate 56 0) (md5_block (md5_copy p (replicate count 0) ctx))
                 else md5_copy p (replicate (count - 8) 0) ctx);
          ctx = ctx\<lparr>ctx_in := byteReverse (ctx_in ctx) 14\<rparr>;
          ctx = md5_copy 56 (bytes_of (bits0 ctx)) ctx;
          ctx = md5_copy 60 (bytes_of (bits1 ctx)) ctx
      in case MD5Transform (ctx_buf ctx) (words_of (ctx_in ctx)) of
           (a, b, c, d) \<Rightarrow> byteReverse (concat (map bytes_of [a, b, c, d])) 4)"

section \<open>Byte order\<close>

lemma byte_high_bit: "8 \<le> n \<Longrightarrow> \<not> bit (b :: byte) n"
  by (auto dest: bit_imp_le_length)

lemma bytes_of_le32 [simp]: "bytes_of (le32 b0 b1 b2 b3) = [b0, b1, b2, b3]"
proof -
  have "ucast (le32 b0 b1 b2 b3) = b0" "ucast (drop_bit 8 (le32 b0 b1 b2 b3)) = b1"
    "ucast (drop_bit 16 (le32 b0 b1 b2 b3)) = b2" "ucast (drop_bit 24 (le32 b0 b1 b2 b3)) = b3"
    unfolding le32_def by (rule byte_eqI8; simp add: bit_simps byte_high_bit)+
  then show ?thesis by (simp add: bytes_of_def)
qed

text \<open>On a little-endian machine the reversal is the identity.\<close>

lemma byteReverse_id [simp]: "byteReverse bs n = bs"
  by (induction bs n rule: byteReverse.induct) auto

lemma length_bytes_of [simp]: "length (bytes_of w) = 4"
  by (simp add: bytes_of_def)

section \<open>The reference\<close>

text \<open>
  RFC 1321: the message, a byte 0x80, zeros up to 56 modulo 64, the bit length modulo two to the
  power of 64 in eight bytes; the blocks of 64 bytes go through the compression in order.
\<close>

definition md5_iv :: md5_state where
  "md5_iv = (0x67452301, 0xefcdab89, 0x98badcfe, 0x10325476)"

function absorb :: "md5_state \<Rightarrow> byte list \<Rightarrow> md5_state" where
  "absorb st bs =
     (if 64 \<le> length bs then absorb (MD5Transform st (words_of (take 64 bs))) (drop 64 bs) else st)"
  by auto
termination by (relation "measure (\<lambda>(st, bs). length bs)") auto

declare absorb.simps [simp del]

definition lo_bits :: "nat \<Rightarrow> u32" where
  "lo_bits n = of_nat (8 * n)"

definition hi_bits :: "nat \<Rightarrow> u32" where
  "hi_bits n = of_nat (8 * n div 2 ^ 32)"

definition bit_length :: "nat \<Rightarrow> byte list" where
  "bit_length n = bytes_of (lo_bits n) @ bytes_of (hi_bits n)"

definition md5_pad :: "byte list \<Rightarrow> byte list" where
  "md5_pad msg = 0x80 # replicate ((119 - length msg mod 64) mod 64) 0 @ bit_length (length msg)"

definition md5_digest :: "byte list \<Rightarrow> byte list" where
  "md5_digest msg =
     (case absorb md5_iv (msg @ md5_pad msg) of (a, b, c, d) \<Rightarrow> concat (map bytes_of [a, b, c, d]))"

lemma absorb_short: "length bs < 64 \<Longrightarrow> absorb st bs = st"
  by (subst absorb.simps) simp

lemma absorb_block:
  "length b = 64 \<Longrightarrow> absorb st (b @ bs) = absorb (MD5Transform st (words_of b)) bs"
  by (subst absorb.simps) simp

lemma absorb_one: "length b = 64 \<Longrightarrow> absorb st b = MD5Transform st (words_of b)"
  using absorb_block [of b st "[]"] by (simp add: absorb_short)

lemma absorb_append:
  "length as mod 64 = 0 \<Longrightarrow> absorb st (as @ bs) = absorb (absorb st as) bs"
proof (induction st as rule: absorb.induct)
  case (1 st as)
  show ?case
  proof (cases "64 \<le> length as")
    case True
    with "1.prems" have "length (drop 64 as) mod 64 = 0" by (simp add: le_mod_geq)
    from "1.IH" [OF True this] True show ?thesis
      by (subst (1 2) absorb.simps) simp
  next
    case False
    with "1.prems" have "as = []" by simp
    then show ?thesis by (simp add: absorb_short)
  qed
qed

text \<open>The part of a message after its last full block, and the blocks before it.\<close>

definition tail :: "byte list \<Rightarrow> byte list" where
  "tail msg = drop (length msg - length msg mod 64) msg"

definition full :: "byte list \<Rightarrow> byte list" where
  "full msg = take (length msg - length msg mod 64) msg"

lemma full_tail: "full msg @ tail msg = msg"
  by (simp add: full_def tail_def)

lemma length_tail: "length (tail msg) = length msg mod 64"
  by (simp add: tail_def)

lemma length_full: "length (full msg) mod 64 = 0"
  by (simp add: full_def)

lemma full_tail_unique:
  assumes "length a mod 64 = 0" and "length b < 64"
  shows "full (a @ b) = a" and "tail (a @ b) = b"
proof -
  have "length (a @ b) mod 64 = length b"
    using assms by (metis length_append mod_add_left_eq add_0 mod_less)
  then show "full (a @ b) = a" and "tail (a @ b) = b"
    by (simp_all add: full_def tail_def)
qed

section \<open>The context follows the message\<close>

text \<open>What the context holds after the bytes \<open>msg\<close> have been fed in.\<close>

definition tracks :: "md5_context \<Rightarrow> byte list \<Rightarrow> bool" where
  "tracks ctx msg \<longleftrightarrow> ctx_buf ctx = absorb md5_iv (full msg)
     \<and> bits0 ctx = lo_bits (length msg) \<and> bits1 ctx = hi_bits (length msg)
     \<and> length (ctx_in ctx) = 64 \<and> take (length msg mod 64) (ctx_in ctx) = tail msg"

lemma tracks_init: "length (ctx_in ctx) = 64 \<Longrightarrow> tracks (MD5Init ctx) []"
  by (simp add: tracks_def MD5Init_def md5_iv_def full_def tail_def absorb_short
      lo_bits_def hi_bits_def)

lemma unat_lo_bits: "unat (lo_bits n) = 8 * n mod 2 ^ 32"
  unfolding lo_bits_def unat_of_nat by simp

lemma unat_hi_bits: "unat (hi_bits n) = 8 * n div 2 ^ 32 mod 2 ^ 32"
  unfolding hi_bits_def unat_of_nat by simp

lemma unat_drop_bit: "unat (drop_bit n w) = unat w div 2 ^ n"
  unfolding unat_drop_bit_eq by (simp add: drop_bit_eq_div)

lemma bits_in_block:
  assumes "tracks ctx msg"
  shows "unat (drop_bit 3 (bits0 ctx) AND 0x3f) = length msg mod 64"
proof -
  have m: "(0x3f :: u32) = mask 6" by (simp add: mask_eq_exp_minus_1)
  have "unat (drop_bit 3 (bits0 ctx) AND 0x3f) = unat (bits0 ctx) div 8 mod 64"
    unfolding m take_bit_eq_mask [symmetric] unsigned_take_bit_eq
    by (simp add: take_bit_eq_mod unat_drop_bit)
  also have "\<dots> = 8 * length msg mod 2 ^ 32 div 8 mod 64"
    using assms by (simp add: tracks_def unat_lo_bits)
  also have "\<dots> = length msg mod 64"
  proof -
    have "8 * length msg mod 2 ^ 32 = 8 * (length msg mod 2 ^ 29)"
      using mult_mod_right [of 8 "length msg" "2 ^ 29"] by simp
    then have "8 * length msg mod 2 ^ 32 div 8 = length msg mod 2 ^ 29" by simp
    then show ?thesis by (simp only:) (simp add: mod_mod_cancel)
  qed
  finally show ?thesis .
qed

lemma carry:
  fixes a b :: nat
  assumes "0 < M"
  shows "(a + b) div M = a div M + b div M + (if (a + b) mod M < a mod M then 1 else 0)"
proof -
  have m: "a mod M < M" "b mod M < M" using assms by simp_all
  have s: "(a + b) mod M = (a mod M + b mod M) mod M" by (simp add: mod_add_eq)
  show ?thesis
  proof (cases "a mod M + b mod M < M")
    case True
    then show ?thesis by (simp add: s div_add1_eq [of a b])
  next
    case False
    then obtain r where r: "a mod M + b mod M = r + M" "r < M" "r < a mod M"
      using m that [of "a mod M + b mod M - M"] by linarith
    moreover have "(r + M) mod M = r" "(r + M) div M = 1"
      using r(2) assms by (simp_all add: div_add_self2)
    ultimately show ?thesis by (simp add: s div_add1_eq [of a b])
  qed
qed

text \<open>The counter with its carry is the 64-bit number of bits.\<close>

lemma md5_count_bits:
  assumes "bits0 ctx = lo_bits n" and "bits1 ctx = hi_bits n" and "l < 2 ^ 32"
  shows "bits0 (md5_count ctx (of_nat l)) = lo_bits (n + l)"
    and "bits1 (md5_count ctx (of_nat l)) = hi_bits (n + l)"
proof -
  have p: "push_bit 3 (of_nat l :: u32) = of_nat (8 * l)"
    by (simp add: push_bit_eq_mult)
  have lo: "lo_bits n + of_nat (8 * l) = lo_bits (n + l)"
    by (simp add: lo_bits_def)
  show "bits0 (md5_count ctx (of_nat l)) = lo_bits (n + l)"
    by (simp only: md5_count_def Let_def p assms(1)) (simp add: lo [symmetric])
  have c: "lo_bits (n + l) < lo_bits n \<longleftrightarrow> 8 * (n + l) mod 2 ^ 32 < 8 * n mod 2 ^ 32"
    by (simp only: word_less_nat_alt unat_lo_bits)
  have d: "drop_bit 29 (of_nat l :: u32) = of_nat (l div 2 ^ 29)"
    using assms(3) by (intro word_unat_eq_iff [THEN iffD2]) (simp add: unat_drop_bit unat_of_nat take_bit_nat_eq_self)
  have e: "l div 2 ^ 29 = 8 * l div 2 ^ 32" by simp
  have "hi_bits (n + l) = of_nat (8 * n div 2 ^ 32 + 8 * l div 2 ^ 32
      + (if (8 * n + 8 * l) mod 2 ^ 32 < 8 * n mod 2 ^ 32 then 1 else 0))"
    unfolding hi_bits_def distrib_left by (subst carry) simp_all
  also have "\<dots> = bits1 (md5_count ctx (of_nat l))"
    unfolding md5_count_def Let_def p assms(1) lo d e
    by (simp add: lo c [unfolded distrib_left] assms(2) hi_bits_def del: of_nat_mult)
  finally show "bits1 (md5_count ctx (of_nat l)) = hi_bits (n + l)" ..
qed

lemma md5_count_other [simp]:
  "ctx_buf (md5_count ctx l) = ctx_buf ctx" "ctx_in (md5_count ctx l) = ctx_in ctx"
  by (simp_all add: md5_count_def Let_def)

lemma md5_copy_fields [simp]:
  "ctx_buf (md5_copy o1 d ctx) = ctx_buf ctx" "bits0 (md5_copy o1 d ctx) = bits0 ctx"
  "bits1 (md5_copy o1 d ctx) = bits1 ctx"
  by (simp_all add: md5_copy_def)

lemma md5_block_fields [simp]:
  "ctx_buf (md5_block ctx) = MD5Transform (ctx_buf ctx) (words_of (ctx_in ctx))"
  "bits0 (md5_block ctx) = bits0 ctx" "bits1 (md5_block ctx) = bits1 ctx"
  "ctx_in (md5_block ctx) = ctx_in ctx"
  by (simp_all add: md5_block_def Let_def)

lemma md5_copy_in:
  "length (ctx_in ctx) = 64 \<Longrightarrow> o1 + length d \<le> 64 \<Longrightarrow>
     length (ctx_in (md5_copy o1 d ctx)) = 64
     \<and> take (o1 + length d) (ctx_in (md5_copy o1 d ctx)) = take o1 (ctx_in ctx) @ d"
  by (simp add: md5_copy_def)

text \<open>The loop takes the full blocks and leaves the rest.\<close>

lemma md5_loop_blocks:
  "length (ctx_in ctx) = 64 \<Longrightarrow> md5_loop ctx data = (ctx', rest) \<Longrightarrow>
     rest = tail data \<and> ctx_buf ctx' = absorb (ctx_buf ctx) (full data)
     \<and> bits0 ctx' = bits0 ctx \<and> bits1 ctx' = bits1 ctx \<and> length (ctx_in ctx') = 64"
proof (induction ctx data arbitrary: ctx' rest rule: md5_loop.induct)
  case (1 ctx data)
  show ?case
  proof (cases "64 \<le> length data")
    case False
    with "1.prems" show ?thesis
      by (simp add: md5_loop.simps [of ctx] tail_def full_def absorb_short)
  next
    case True
    let ?c = "md5_block (md5_copy 0 (take 64 data) ctx)"
    have i: "ctx_in ?c = take 64 data"
      using True "1.prems"(1) by (simp add: md5_copy_def)
    have l: "md5_loop ?c (drop 64 data) = (ctx', rest)"
      using True "1.prems"(2) by (simp add: md5_loop.simps [of ctx])
    have ft: "data = (take 64 data @ full (drop 64 data)) @ tail (drop 64 data)"
      by (simp add: full_tail)
    have len: "length (take 64 data @ full (drop 64 data)) mod 64 = 0"
      using True length_full [of "drop 64 data"] by (simp add: mod_add_self1)
    have "full data = take 64 data @ full (drop 64 data)" "tail data = tail (drop 64 data)"
      using full_tail_unique [OF len, of "tail (drop 64 data)"] ft length_tail [of "drop 64 data"]
      by auto
    with "1.IH" [OF True _ l] i True show ?thesis
      by (simp add: absorb_block i)
  qed
qed

lemma tracks_copy_tail:
  assumes "ctx_buf ctx = absorb md5_iv (full msg)" and "bits0 ctx = lo_bits (length msg)"
    and "bits1 ctx = hi_bits (length msg)" and "length (ctx_in ctx) = 64"
  shows "tracks (md5_copy 0 (tail msg) ctx) msg"
proof -
  have "length (tail msg) \<le> 64" by (simp add: length_tail)
  with md5_copy_in [OF assms(4), of 0 "tail msg"] assms(1-3) show ?thesis
    by (simp add: tracks_def length_tail)
qed

text \<open>Feeding more bytes tracks the longer message, whatever was fed before.\<close>

lemma tracks_update:
  assumes tr: "tracks ctx msg" and len: "length data < 2 ^ 32"
  shows "tracks (MD5Update ctx data) (msg @ data)"
proof -
  define t where "t = length msg mod 64"
  define c where "c = md5_count ctx (of_nat (length data))"
  have t64: "t < 64" by (simp add: t_def)
  have in64: "length (ctx_in c) = 64" and buf: "ctx_buf c = absorb md5_iv (full msg)"
    and pre: "take t (ctx_in c) = tail msg"
    using tr by (simp_all add: tracks_def c_def t_def)
  have bits: "bits0 c = lo_bits (length (msg @ data))" "bits1 c = hi_bits (length (msg @ data))"
    using tr len md5_count_bits [of ctx "length msg" "length data"] by (simp_all add: tracks_def c_def)
  have upd: "MD5Update ctx data =
      (if t \<noteq> 0 \<and> length data < 64 - t then md5_copy t data c
       else (let (c1, data1) = (if t \<noteq> 0 then (md5_block (md5_copy t (take (64 - t) data) c), drop (64 - t) data)
                               else (c, data));
                 (c2, data2) = md5_loop c1 data1
             in md5_copy 0 data2 c2))"
    by (simp add: MD5Update_def Let_def bits_in_block [OF tr] t_def c_def)
  have msg: "msg @ data = full msg @ (tail msg @ data)"
    using full_tail [of msg] by (metis append.assoc)
  show ?thesis
  proof (cases "t \<noteq> 0 \<and> length data < 64 - t")
    case True
    then have short: "length (tail msg @ data) < 64" by (auto simp: length_tail t_def [symmetric])
    have ft: "full (msg @ data) = full msg" "tail (msg @ data) = tail msg @ data"
      using full_tail_unique [OF length_full short, of msg] unfolding msg [symmetric] by simp_all
    have m: "length (msg @ data) mod 64 = t + length data"
      using length_tail [of "msg @ data"] ft(2) length_tail [of msg] by (simp add: t_def)
    have "t + length data \<le> 64" using True by auto
    from md5_copy_in [OF in64 this] True show ?thesis
      using m by (simp add: upd tracks_def buf bits [simplified] ft pre)
  next
    case False
    define c1 where "c1 = (if t \<noteq> 0 then md5_block (md5_copy t (take (64 - t) data) c) else c)"
    define data1 where "data1 = (if t \<noteq> 0 then drop (64 - t) data else data)"
    define done1 where "done1 = (if t \<noteq> 0 then tail msg @ take (64 - t) data else [])"
    obtain c2 data2 where l: "md5_loop c1 data1 = (c2, data2)" by fastforce
    have u: "MD5Update ctx data = md5_copy 0 data2 c2"
      using False l by (auto simp: upd c1_def data1_def)
    have d1: "length done1 mod 64 = 0" "tail msg @ data = done1 @ data1"
      using False length_tail [of msg] by (auto simp: done1_def data1_def t_def)
    have c1: "ctx_buf c1 = absorb md5_iv (full msg @ done1)" "length (ctx_in c1) = 64"
      "bits0 c1 = bits0 c" "bits1 c1 = bits1 c"
    proof -
      have cp: "ctx_in (md5_copy t (take (64 - t) data) c) = tail msg @ take (64 - t) data" if "t \<noteq> 0"
        using False that in64 t64 by (simp add: md5_copy_def pre)
      have "length (tail msg @ take (64 - t) data) = 64" if "t \<noteq> 0"
        using False that t64 by (simp add: length_tail t_def [symmetric])
      then show "ctx_buf c1 = absorb md5_iv (full msg @ done1)"
        using absorb_append [OF length_full, of md5_iv msg] absorb_one cp buf
        by (simp add: c1_def done1_def absorb_short)
      show "length (ctx_in c1) = 64"
        using md5_copy_in [OF in64, of t "take (64 - t) data"] in64 t64 by (simp add: c1_def)
      show "bits0 c1 = bits0 c" "bits1 c1 = bits1 c"
        by (simp_all add: c1_def)
    qed
    from md5_loop_blocks [OF c1(2) l] have c2: "data2 = tail data1"
      "ctx_buf c2 = absorb md5_iv ((full msg @ done1) @ full data1)" "bits0 c2 = bits0 c"
      "bits1 c2 = bits1 c" "length (ctx_in c2) = 64"
      using c1 absorb_append [of "full msg @ done1" md5_iv "full data1"] d1(1) length_full [of msg]
      by (auto simp: mod_add_eq [symmetric])
    have "msg @ data = ((full msg @ done1) @ full data1) @ tail data1"
      using msg d1(2) full_tail [of data1] by simp
    moreover have "length ((full msg @ done1) @ full data1) mod 64 = 0"
      using d1(1) length_full [of msg] length_full [of data1] by (simp add: mod_add_eq [symmetric])
    ultimately have "full (msg @ data) = (full msg @ done1) @ full data1" "tail (msg @ data) = tail data1"
      using full_tail_unique [of "(full msg @ done1) @ full data1" "tail data1"] length_tail [of data1]
      by auto
    with c2 bits tracks_copy_tail [of c2 "msg @ data"] show ?thesis by (simp add: u)
  qed
qed

lemma tracks_updates:
  "tracks ctx msg \<Longrightarrow> \<forall>d\<in>set ds. length d < 2 ^ 32 \<Longrightarrow> tracks (fold (\<lambda>d c. MD5Update c d) ds ctx) (msg @ concat ds)"
proof (induction ds arbitrary: ctx msg)
  case (Cons d ds)
  from tracks_update [of ctx msg d] Cons.prems Cons.IH [of "MD5Update ctx d" "msg @ d"] show ?case by simp
qed simp

text \<open>The padding that the wrap-up writes into the buffer completes the padded message.\<close>

lemma tail_pad:
  assumes "length msg mod 64 = t"
  shows "msg @ md5_pad msg = full msg @ tail msg @ 0x80 # replicate ((119 - t) mod 64) 0 @ bit_length (length msg)"
  using full_tail [of msg] assms by (metis append.assoc md5_pad_def)

text \<open>The end of the wrap-up: the two words of the length, then the last block.\<close>

lemma final_block:
  assumes "length (ctx_in c) = 64" and "take 56 (ctx_in c) = b" and "length b = 56"
  shows "ctx_in (md5_copy 60 (bytes_of h) (md5_copy 56 (bytes_of l) c)) = b @ bytes_of l @ bytes_of h"
  using assms by (simp add: md5_copy_def)

lemma final_unfold:
  assumes tr: "tracks ctx msg" and t: "length msg mod 64 = t"
    and c: "c = (if 63 - t < 8
       then md5_copy 0 (replicate 56 0) (md5_block (md5_copy (t + 1) (replicate (63 - t) 0) (md5_copy t [0x80] ctx)))
       else md5_copy (t + 1) (replicate (63 - t - 8) 0) (md5_copy t [0x80] ctx))"
  shows "MD5Final ctx = (case MD5Transform (ctx_buf c) (words_of (ctx_in
       (md5_copy 60 (bytes_of (hi_bits (length msg))) (md5_copy 56 (bytes_of (lo_bits (length msg))) c)))) of
       (a, b, c, d) \<Rightarrow> concat (map bytes_of [a, b, c, d]))"
proof -
  have "bits0 ctx = lo_bits (length msg)" "bits1 ctx = hi_bits (length msg)"
    using tr by (auto simp: tracks_def)
  then show ?thesis
    unfolding MD5Final_def Let_def bits_in_block [OF tr] t c by simp
qed

lemma final_digest:
  assumes tr: "tracks ctx msg"
  shows "MD5Final ctx = md5_digest msg"
proof -
  define t where "t = length msg mod 64"
  have t64: "t < 64" by (simp add: t_def)
  have in64: "length (ctx_in ctx) = 64" and pre: "take t (ctx_in ctx) = tail msg"
    and buf: "ctx_buf ctx = absorb md5_iv (full msg)"
    and bits: "bits0 ctx = lo_bits (length msg)" "bits1 ctx = hi_bits (length msg)"
    using tr by (simp_all add: tracks_def t_def)
  have lt: "length (tail msg) = t" by (simp add: length_tail t_def)
  let ?bl = "bit_length (length msg)"
  have bl: "?bl = bytes_of (lo_bits (length msg)) @ bytes_of (hi_bits (length msg))"
    by (simp add: bit_length_def)
  have ab: "absorb md5_iv (msg @ md5_pad msg) = absorb (absorb md5_iv (full msg))
      (tail msg @ 0x80 # replicate ((119 - t) mod 64) 0 @ ?bl)"
    unfolding tail_pad [OF t_def [symmetric]] by (rule absorb_append [OF length_full])
  show ?thesis
  proof (cases "63 - t < 8")
    case True
    define b1 where "b1 = tail msg @ 0x80 # replicate (63 - t) 0"
    have "(119 - t) mod 64 = (63 - t) + 56" using True t64 by simp
    then have e: "tail msg @ 0x80 # replicate ((119 - t) mod 64) 0 @ ?bl = b1 @ (replicate 56 0 @ ?bl)"
      unfolding b1_def by (simp only: replicate_add append_assoc append_Cons)
    have l: "length b1 = 64" "length (replicate 56 0 @ ?bl) = 64"
      using t64 by (simp_all add: b1_def lt bl)
    let ?c = "md5_copy (t + 1) (replicate (63 - t) 0) (md5_copy t [0x80] ctx)"
    have "ctx_in ?c = b1"
      using md5_copy_in [of "md5_copy t [0x80] ctx" "t + 1" "replicate (63 - t) 0"]
        md5_copy_in [OF in64, of t "[0x80]"] t64 by (auto simp: pre b1_def)
    moreover have "ctx_in (md5_copy 60 (bytes_of (hi_bits (length msg))) (md5_copy 56 (bytes_of
        (lo_bits (length msg))) (md5_copy 0 (replicate 56 0) (md5_block ?c)))) = replicate 56 0 @ ?bl"
      using calculation l by (subst final_block) (simp_all add: md5_copy_def bl)
    ultimately have "MD5Final ctx = (case MD5Transform (MD5Transform (ctx_buf ctx) (words_of b1))
        (words_of (replicate 56 0 @ ?bl)) of (a, b, c, d) \<Rightarrow> concat (map bytes_of [a, b, c, d]))"
      using True by (subst final_unfold [OF tr t_def [symmetric] refl]) simp
    then show ?thesis
      by (simp only: md5_digest_def ab e buf absorb_block [OF l(1)] absorb_one [OF l(2)])
  next
    case False
    define b1 where "b1 = tail msg @ 0x80 # replicate (63 - t - 8) 0 @ ?bl"
    have "(119 - t) mod 64 = 63 - t - 8" using False t64 by (simp add: le_mod_geq)
    then have e: "tail msg @ 0x80 # replicate ((119 - t) mod 64) 0 @ ?bl = b1"
      by (simp add: b1_def)
    have l: "length b1 = 64" using t64 False by (simp add: b1_def lt bl)
    let ?c = "md5_copy (t + 1) (replicate (63 - t - 8) 0) (md5_copy t [0x80] ctx)"
    have "take 56 (ctx_in ?c) = tail msg @ 0x80 # replicate (63 - t - 8) 0" "length (ctx_in ?c) = 64"
      using md5_copy_in [of "md5_copy t [0x80] ctx" "t + 1" "replicate (63 - t - 8) 0"]
        md5_copy_in [OF in64, of t "[0x80]"] t64 False by (simp_all add: pre)
    then have "ctx_in (md5_copy 60 (bytes_of (hi_bits (length msg))) (md5_copy 56 (bytes_of
        (lo_bits (length msg))) ?c)) = b1"
      using False t64 by (subst final_block) (auto simp: lt b1_def bl)
    then have "MD5Final ctx = (case MD5Transform (ctx_buf ctx) (words_of b1) of
        (a, b, c, d) \<Rightarrow> concat (map bytes_of [a, b, c, d]))"
      using False by (subst final_unfold [OF tr t_def [symmetric] refl]) simp
    then show ?thesis
      by (simp only: md5_digest_def ab e buf absorb_one [OF l])
  qed
qed

text \<open>
  feeding a message into a fresh context in any number of pieces, each shorter than two to
  the power of 32, and finishing gives the MD5 digest of the whole message, the padding and the
  bit length included; how the message is cut does not matter.
\<close>

theorem md5_streaming:
  assumes "length (ctx_in ctx) = 64" and "\<forall>d\<in>set ds. length d < 2 ^ 32"
  shows "MD5Final (fold (\<lambda>d c. MD5Update c d) ds (MD5Init ctx)) = md5_digest (concat ds)"
  using final_digest [OF tracks_updates [OF tracks_init [OF assms(1)] assms(2)]] by simp

theorem md5_streaming_witness:
  "MD5Final (fold (\<lambda>d c. MD5Update c d) [[97], [98, 99]]
     (MD5Init \<lparr>ctx_buf = (0, 0, 0, 0), bits0 = 0, bits1 = 0, ctx_in = replicate 64 0\<rparr>))
   = md5_digest [97, 98, 99]"
  using md5_streaming
    [of "\<lparr>ctx_buf = (0, 0, 0, 0), bits0 = 0, bits1 = 0, ctx_in = replicate 64 0\<rparr>" "[[97], [98, 99]]"]
  by simp

text \<open>
  the optimised core functions are those of RFC 1321, and the implementation reproduces the
  test vectors of the RFC for the empty message and for \<open>abc\<close>.
\<close>

theorem md5_core_functions:
  "F1 x y z = (x AND y) OR (NOT x AND z)
   \<and> F2 x y z = (x AND z) OR (y AND NOT z)
   \<and> MD5Final (MD5Init \<lparr>ctx_buf = (0, 0, 0, 0), bits0 = 0, bits1 = 0, ctx_in = replicate 64 0\<rparr>)
       = [0xd4, 0x1d, 0x8c, 0xd9, 0x8f, 0x00, 0xb2, 0x04, 0xe9, 0x80, 0x09, 0x98, 0xec, 0xf8, 0x42, 0x7e]
   \<and> MD5Final (MD5Update (MD5Init
         \<lparr>ctx_buf = (0, 0, 0, 0), bits0 = 0, bits1 = 0, ctx_in = replicate 64 0\<rparr>) [97, 98, 99])
       = [0x90, 0x01, 0x50, 0x98, 0x3c, 0xd2, 0x4f, 0xb0, 0xd6, 0x96, 0x3f, 0x7d, 0x28, 0xe1, 0x7f, 0x72]"
proof (intro conjI)
  show "F1 x y z = (x AND y) OR (NOT x AND z)"
    by (rule bit_word_eqI) (auto simp: F1_def bit_simps)
  show "F2 x y z = (x AND z) OR (y AND NOT z)"
    by (rule bit_word_eqI) (auto simp: F1_def F2_def bit_simps)
qed code_simp+

end
