(* ===== verification/Admin_Commands.thy ===== *)
theory Admin_Commands
  imports Interfaces
begin

text \<open>
  The table of administration commands (\<^verbatim>\<open>src/src/admin.c\<close>): route, type, response format and
  handler function of every command, and the three lookups in it. Index 0 is the wildcard
  entry of the access control lists; routes are found by their first entry.
\<close>

datatype admin_type = ADMINTYPE_ERROR | ADMINTYPE_GENERAL | ADMINTYPE_MOUNT | ADMINTYPE_HYBRID

datatype admin_format = RAW | TRANSFORMED | PLAINTEXT

text \<open>The handler functions by name; the wildcard entry has none.\<close>

datatype admin_function =
  Command_fallback | Command_metadata | Command_shoutcast_metadata | Command_show_listeners
  | Command_stats | Command_queue_reload | Command_list_mounts | Command_move_clients
  | Command_kill_client | Command_kill_source | Command_manageauth | Command_updatemetadata
  | Command_buildm3u

record admin_command_handler =
  route :: string
  adm_type :: admin_type
  adm_format :: admin_format
  adm_function :: "admin_function option"

definition handler :: "string \<Rightarrow> admin_type \<Rightarrow> admin_format \<Rightarrow> admin_function option \<Rightarrow> admin_command_handler" where
  "handler r t f fn = \<lparr>route = r, adm_type = t, adm_format = f, adm_function = fn\<rparr>"

definition handlers :: "admin_command_handler list" where
  "handlers =
    [handler ''*'' ADMINTYPE_GENERAL TRANSFORMED None,
     handler ''fallbacks'' ADMINTYPE_MOUNT RAW (Some Command_fallback),
     handler ''fallbacks.xsl'' ADMINTYPE_MOUNT TRANSFORMED (Some Command_fallback),
     handler ''metadata'' ADMINTYPE_MOUNT RAW (Some Command_metadata),
     handler ''metadata.xsl'' ADMINTYPE_MOUNT TRANSFORMED (Some Command_metadata),
     handler ''admin.cgi'' ADMINTYPE_MOUNT TRANSFORMED (Some Command_shoutcast_metadata),
     handler ''listclients'' ADMINTYPE_MOUNT RAW (Some Command_show_listeners),
     handler ''listclients.xsl'' ADMINTYPE_MOUNT TRANSFORMED (Some Command_show_listeners),
     handler ''stats'' ADMINTYPE_HYBRID RAW (Some Command_stats),
     handler ''stats.xsl'' ADMINTYPE_HYBRID TRANSFORMED (Some Command_stats),
     handler ''stats.xml'' ADMINTYPE_HYBRID RAW (Some Command_stats),
     handler ''reloadconfig'' ADMINTYPE_GENERAL RAW (Some Command_queue_reload),
     handler ''reloadconfig.xsl'' ADMINTYPE_GENERAL TRANSFORMED (Some Command_queue_reload),
     handler ''listmounts'' ADMINTYPE_GENERAL RAW (Some Command_list_mounts),
     handler ''listmounts.xsl'' ADMINTYPE_GENERAL TRANSFORMED (Some Command_list_mounts),
     handler ''streamlist'' ADMINTYPE_GENERAL RAW (Some Command_list_mounts),
     handler ''streamlist.txt'' ADMINTYPE_GENERAL PLAINTEXT (Some Command_list_mounts),
     handler ''streamlist.xsl'' ADMINTYPE_GENERAL TRANSFORMED (Some Command_list_mounts),
     handler ''moveclients'' ADMINTYPE_MOUNT RAW (Some Command_move_clients),
     handler ''moveclients.xsl'' ADMINTYPE_HYBRID TRANSFORMED (Some Command_move_clients),
     handler ''killclient'' ADMINTYPE_MOUNT RAW (Some Command_kill_client),
     handler ''killclient.xsl'' ADMINTYPE_MOUNT TRANSFORMED (Some Command_kill_client),
     handler ''killsource'' ADMINTYPE_MOUNT RAW (Some Command_kill_source),
     handler ''killsource.xsl'' ADMINTYPE_MOUNT TRANSFORMED (Some Command_kill_source),
     handler ''manageauth'' ADMINTYPE_GENERAL RAW (Some Command_manageauth),
     handler ''manageauth.xsl'' ADMINTYPE_GENERAL TRANSFORMED (Some Command_manageauth),
     handler ''updatemetadata'' ADMINTYPE_MOUNT RAW (Some Command_updatemetadata),
     handler ''updatemetadata.xsl'' ADMINTYPE_MOUNT TRANSFORMED (Some Command_updatemetadata),
     handler ''buildm3u'' ADMINTYPE_MOUNT RAW (Some Command_buildm3u),
     handler '''' ADMINTYPE_HYBRID TRANSFORMED (Some Command_stats),
     handler '''' ADMINTYPE_HYBRID TRANSFORMED (Some Command_stats)]"

abbreviation (input) ADMIN_COMMAND_ERROR :: int where "ADMIN_COMMAND_ERROR \<equiv> -1"
abbreviation (input) ADMIN_COMMAND_ANY :: int where "ADMIN_COMMAND_ANY \<equiv> 0"

fun get_command_loop :: "int \<Rightarrow> admin_command_handler list \<Rightarrow> string \<Rightarrow> int" where
  "get_command_loop i [] command = ADMIN_COMMAND_ERROR"
| "get_command_loop i (h # hs) command =
     (if route h = command then i else get_command_loop (i + 1) hs command)"

definition admin_get_command :: "string \<Rightarrow> int" where
  "admin_get_command command = get_command_loop 0 handlers command"

definition admin_get_handler :: "int \<Rightarrow> admin_command_handler option" where
  "admin_get_handler command =
     (if 0 < command \<and> command < int (length handlers) then Some (handlers ! nat command) else None)"

definition admin_get_command_type :: "int \<Rightarrow> admin_type" where
  "admin_get_command_type command =
     (case admin_get_handler command of Some h \<Rightarrow> adm_type h | None \<Rightarrow> ADMINTYPE_ERROR)"

section \<open>Lookups\<close>

lemma get_command_loop_found:
  "get_command_loop i hs c = ADMIN_COMMAND_ERROR \<or>
     (\<exists>n<length hs. get_command_loop i hs c = i + int n \<and> route (hs ! n) = c)"
proof (induction hs arbitrary: i)
  case (Cons h hs)
  show ?case
  proof (cases "route h = c")
    case False
    from Cons.IH [of "i + 1"] show ?thesis
    proof (elim disjE exE conjE)
      fix n
      assume "n < length hs" "get_command_loop (i + 1) hs c = i + 1 + int n" "route (hs ! n) = c"
      with False show ?thesis by (intro disjI2 exI [of _ "Suc n"]) simp
    qed (use False in simp)
  qed (auto intro!: exI [of _ 0])
qed simp

text \<open>A command number found for a route other than the wildcard has a handler for that route.\<close>

lemma admin_get_command_handler:
  assumes "admin_get_command c \<noteq> ADMIN_COMMAND_ERROR" and "c \<noteq> ''*''"
  shows "\<exists>h. admin_get_handler (admin_get_command c) = Some h \<and> route h = c \<and> adm_function h \<noteq> None"
proof -
  from assms(1) obtain n where n: "n < length handlers" "admin_get_command c = int n"
    "route (handlers ! n) = c"
    using get_command_loop_found [of 0 handlers c] by (auto simp: admin_get_command_def)
  have zero: "route (handlers ! 0) = ''*''" by (simp add: handlers_def handler_def)
  with n assms(2) have "0 < n" by (cases n) auto
  moreover have "\<forall>h\<in>set (tl handlers). adm_function h \<noteq> None"
    by (simp add: handlers_def handler_def)
  ultimately have "adm_function (handlers ! n) \<noteq> None"
    using n(1) by (cases n) (auto simp: nth_tl [symmetric])
  with n \<open>0 < n\<close> show ?thesis by (simp add: admin_get_handler_def)
qed

lemma admin_get_command_any: "admin_get_command c = ADMIN_COMMAND_ANY \<longleftrightarrow> c = ''*''"
proof
  assume a: "admin_get_command c = ADMIN_COMMAND_ANY"
  then obtain n where "n < length handlers" "int n = 0" "route (handlers ! n) = c"
    using get_command_loop_found [of 0 handlers c] by (auto simp: admin_get_command_def)
  then show "c = ''*''" by (simp add: handlers_def handler_def)
qed (simp add: admin_get_command_def handlers_def handler_def)

end
