(* ===== verification/ACL.thy ===== *)
theory ACL
  imports Admin_Commands Util_Conv
begin

text \<open>
  Access control lists (\<^verbatim>\<open>src/src/acl.c\<close>): policies per HTTP method, per administration
  command and for the web interface, the comma separated lists that set them, the attributes of
  a configuration node, and the reference counter. A new list denies everything but GET
  requests, the web pages and \<^verbatim>\<open>buildm3u\<close>; setting a policy changes exactly the methods it
  names; the commands answer by their first entry.

  The numbers of the HTTP methods and their names belong to the HTTP parser: \<open>httpp\<close> is the
  parser's \<^verbatim>\<open>httpp_str_to_method\<close> and its number for an unknown method.
\<close>

datatype acl_policy = ACL_POLICY_ERROR | ACL_POLICY_ALLOW | ACL_POLICY_DENY

record httpp =
  str_to_method :: "string \<Rightarrow> nat"
  req_unknown :: nat

record acl =
  refcount :: nat
  acl_method :: "acl_policy list"
  admin_commands :: "(int \<times> acl_policy) list"
  admin_command_policy :: acl_policy
  web_policy :: acl_policy
  max_connection_duration :: int
  max_connections_per_user :: u64

abbreviation (input) MAX_ADMIN_COMMANDS :: nat where "MAX_ADMIN_COMMANDS \<equiv> 32"

section \<open>Setting policies\<close>

type_synonym acl_callback = "acl \<Rightarrow> acl_policy \<Rightarrow> string \<Rightarrow> int \<times> acl"

definition acl_skip_spaces :: "string \<Rightarrow> string" where
  "acl_skip_spaces str = dropWhile (\<lambda>c. c = CHR '' '') str"

text \<open>
  The loop over the comma separated list. The buffer of 64 bytes takes an item of 63 characters;
  the first error ends the loop, and what was set before it stays set.
\<close>

function set_any_loop :: "acl_callback \<Rightarrow> acl_policy \<Rightarrow> acl \<Rightarrow> string \<Rightarrow> int \<times> acl" where
  "set_any_loop callback policy acl str =
     (let str = acl_skip_spaces str
      in case strchr CHR '','' str of
           Some (item, rest) \<Rightarrow>
             if length item > 63 then (-1, acl)
             else (let (ret, acl) = callback acl policy item
                   in if ret \<noteq> 0 then (ret, acl) else set_any_loop callback policy acl rest)
         | None \<Rightarrow>
             if length str > 63 then (-1, acl)
             else callback acl policy str)"
  by auto
termination
proof (relation "measure (\<lambda>(cb, p, a, str). length str)", goal_cases)
  case (2 callback policy acl str str' p item rest cr ret acl')
  have "length (acl_skip_spaces str) \<le> length str"
    by (simp add: acl_skip_spaces_def length_dropWhile_le)
  with 2 show ?case by (auto simp: strchr_Some)
qed simp

declare set_any_loop.simps [simp del]

definition acl_set_ANY_str :: "acl \<Rightarrow> acl_policy \<Rightarrow> string option \<Rightarrow> acl_callback \<Rightarrow> int \<times> acl" where
  "acl_set_ANY_str acl policy str callback =
     (case str of
        None \<Rightarrow> (-1, acl)
      | Some s \<Rightarrow>
          if policy \<noteq> ACL_POLICY_ALLOW \<and> policy \<noteq> ACL_POLICY_DENY then (-1, acl)
          else set_any_loop callback policy acl s)"

definition acl_set_method_str_callback :: "httpp \<Rightarrow> acl_callback" where
  "acl_set_method_str_callback h acl policy str =
     (if str = ''*''
      then (0, acl\<lparr>acl_method := replicate (length (acl_method acl)) policy\<rparr>)
      else (let m = str_to_method h str
            in if m = req_unknown h then (-1, acl)
               else (0, acl\<lparr>acl_method := (acl_method acl)[m := policy]\<rparr>)))"

definition acl_set_admin_str_callback :: acl_callback where
  "acl_set_admin_str_callback acl policy str =
     (let command = admin_get_command str
      in if command = ADMIN_COMMAND_ERROR then (-1, acl)
         else if command = ADMIN_COMMAND_ANY
         then (0, acl\<lparr>admin_command_policy := policy,
                      admin_commands := filter (\<lambda>(c, p). p \<noteq> policy) (admin_commands acl)\<rparr>)
         else if length (admin_commands acl) = MAX_ADMIN_COMMANDS then (-1, acl)
         else (0, acl\<lparr>admin_commands := admin_commands acl @ [(command, policy)]\<rparr>))"

definition acl_set_method_str :: "httpp \<Rightarrow> acl_policy \<Rightarrow> string \<Rightarrow> acl \<Rightarrow> acl" where
  "acl_set_method_str h policy str acl =
     snd (acl_set_ANY_str acl policy (Some str) (acl_set_method_str_callback h))"

definition acl_set_admin_str :: "acl_policy \<Rightarrow> string \<Rightarrow> acl \<Rightarrow> acl" where
  "acl_set_admin_str policy str acl =
     snd (acl_set_ANY_str acl policy (Some str) acl_set_admin_str_callback)"

definition acl_set_web_policy :: "acl_policy \<Rightarrow> acl \<Rightarrow> acl" where
  "acl_set_web_policy policy acl =
     (if policy \<noteq> ACL_POLICY_ALLOW \<and> policy \<noteq> ACL_POLICY_DENY then acl
      else acl\<lparr>web_policy := policy\<rparr>)"

definition acl_set_max_connection_duration :: "int \<Rightarrow> acl \<Rightarrow> acl" where
  "acl_set_max_connection_duration duration acl = acl\<lparr>max_connection_duration := duration\<rparr>"

definition acl_set_max_connections_per_user :: "int \<Rightarrow> acl \<Rightarrow> acl" where
  "acl_set_max_connections_per_user limit acl = acl\<lparr>max_connections_per_user := word_of_int limit\<rparr>"

section \<open>Creation\<close>

text \<open>The memory \<^verbatim>\<open>calloc\<close> returns: every policy is 0, which is \<^verbatim>\<open>ACL_POLICY_ALLOW\<close>.\<close>

definition acl_zero :: "httpp \<Rightarrow> acl" where
  "acl_zero h = \<lparr>refcount = 1, acl_method = replicate (Suc (req_unknown h)) ACL_POLICY_ALLOW,
     admin_commands = [], admin_command_policy = ACL_POLICY_ALLOW, web_policy = ACL_POLICY_ALLOW,
     max_connection_duration = 0, max_connections_per_user = 0\<rparr>"

definition acl_new :: "httpp \<Rightarrow> acl" where
  "acl_new h =
     (let ret = acl_zero h;
          ret = acl_set_method_str h ACL_POLICY_DENY ''*'' ret;
          ret = acl_set_method_str h ACL_POLICY_ALLOW ''get'' ret;
          ret = acl_set_admin_str ACL_POLICY_DENY ''*'' ret;
          ret = acl_set_admin_str ACL_POLICY_ALLOW ''buildm3u'' ret;
          ret = acl_set_web_policy ACL_POLICY_ALLOW ret;
          ret = acl_set_max_connection_duration (-1) ret
      in acl_set_max_connections_per_user 0 ret)"

definition is_true :: "string \<Rightarrow> bool" where
  "is_true tmp \<longleftrightarrow> strstr tmp ''*'' \<noteq> None \<or> util_str_to_bool (Some tmp)"

definition acl_set_all :: "httpp \<Rightarrow> acl_policy \<Rightarrow> acl \<Rightarrow> acl" where
  "acl_set_all h policy ret =
     acl_set_web_policy policy (acl_set_admin_str policy ''*'' (acl_set_method_str h policy ''*'' ret))"

definition is_unlimited :: "string \<Rightarrow> bool" where
  "is_unlimited tmp \<longleftrightarrow> tmp = ''*'' \<or> tmp = ''unlimited''"

text \<open>One attribute of the configuration node.\<close>

definition acl_attribute :: "httpp \<Rightarrow> string \<times> string \<Rightarrow> acl \<Rightarrow> acl" where
  "acl_attribute h attr ret =
     (case attr of (prop, tmp) \<Rightarrow>
        if prop = ''allow-method'' then acl_set_method_str h ACL_POLICY_ALLOW tmp ret
        else if prop = ''deny-method'' then acl_set_method_str h ACL_POLICY_DENY tmp ret
        else if prop = ''allow-admin'' then acl_set_admin_str ACL_POLICY_ALLOW tmp ret
        else if prop = ''deny-admin'' then acl_set_admin_str ACL_POLICY_DENY tmp ret
        else if prop = ''allow-web''
          then acl_set_web_policy (if is_true tmp then ACL_POLICY_ALLOW else ACL_POLICY_DENY) ret
        else if prop = ''deny-web''
          then acl_set_web_policy (if is_true tmp then ACL_POLICY_DENY else ACL_POLICY_ALLOW) ret
        else if prop = ''allow-all''
          then acl_set_all h (if is_true tmp then ACL_POLICY_ALLOW else ACL_POLICY_DENY) ret
        else if prop = ''deny-all''
          then acl_set_all h (if is_true tmp then ACL_POLICY_DENY else ACL_POLICY_ALLOW) ret
        else if prop = ''connections-per-user''
          then acl_set_max_connections_per_user (if is_unlimited tmp then 0 else atoi tmp) ret
        else if prop = ''connection-duration''
          then acl_set_max_connection_duration (if is_unlimited tmp then 0 else atoi tmp) ret
        else ret)"

text \<open>The attributes in document order; one without a value, which the XML library may return, is skipped.\<close>

definition acl_new_from_xml_node :: "httpp \<Rightarrow> (string \<times> string option) list option \<Rightarrow> acl option" where
  "acl_new_from_xml_node h node =
     (case node of
        None \<Rightarrow> None
      | Some props \<Rightarrow>
          Some (fold (\<lambda>(p, v) ret. case v of None \<Rightarrow> ret | Some tmp \<Rightarrow> acl_attribute h (p, tmp) ret)
                  props (acl_new h)))"

section \<open>Reference counting and tests\<close>

definition acl_addref :: "acl \<Rightarrow> acl" where
  "acl_addref acl = acl\<lparr>refcount := refcount acl + 1\<rparr>"

text \<open>None when the list has been freed.\<close>

definition acl_release :: "acl \<Rightarrow> acl option" where
  "acl_release acl =
     (let acl = acl\<lparr>refcount := refcount acl - 1\<rparr>
      in if refcount acl \<noteq> 0 then Some acl else None)"

definition acl_test_method :: "httpp \<Rightarrow> acl option \<Rightarrow> nat \<Rightarrow> acl_policy" where
  "acl_test_method h acl m =
     (case acl of
        None \<Rightarrow> ACL_POLICY_ERROR
      | Some a \<Rightarrow> if m > req_unknown h then ACL_POLICY_ERROR else acl_method a ! m)"

definition acl_test_admin :: "acl option \<Rightarrow> int \<Rightarrow> acl_policy" where
  "acl_test_admin acl command =
     (case acl of
        None \<Rightarrow> ACL_POLICY_ERROR
      | Some a \<Rightarrow>
          (case find (\<lambda>(c, p). c = command) (admin_commands a) of
             Some (c, p) \<Rightarrow> p
           | None \<Rightarrow> admin_command_policy a))"

definition acl_test_web :: "acl option \<Rightarrow> acl_policy" where
  "acl_test_web acl = (case acl of None \<Rightarrow> ACL_POLICY_ERROR | Some a \<Rightarrow> web_policy a)"

definition acl_get_max_connection_duration :: "acl option \<Rightarrow> int" where
  "acl_get_max_connection_duration acl =
     (case acl of None \<Rightarrow> -1 | Some a \<Rightarrow> max_connection_duration a)"

definition acl_get_max_connections_per_user :: "acl option \<Rightarrow> int" where
  "acl_get_max_connections_per_user acl =
     (case acl of None \<Rightarrow> -1 | Some a \<Rightarrow> sint (max_connections_per_user a))"

interpretation acl_ref: refcounted refcount acl_addref acl_release
  by unfold_locales (auto simp: acl_addref_def acl_release_def Let_def)

section \<open>The comma separated lists\<close>

text \<open>Calling the callback on one item after the other, up to the first error.\<close>

fun run_items :: "acl_callback \<Rightarrow> acl_policy \<Rightarrow> acl \<Rightarrow> string list \<Rightarrow> int \<times> acl" where
  "run_items cb p a [] = (0, a)"
| "run_items cb p a (i # is) =
     (let (r, a) = cb a p i in if r \<noteq> 0 then (r, a) else run_items cb p a is)"

definition item_ok :: "string \<Rightarrow> bool" where
  "item_ok i \<longleftrightarrow> CHR '','' \<notin> set i \<and> length i \<le> 63 \<and> (i = [] \<or> hd i \<noteq> CHR '' '')"

lemma acl_skip_spaces_item: "i = [] \<or> hd i \<noteq> CHR '' '' \<Longrightarrow> acl_skip_spaces (i @ CHR '','' # s) = i @ CHR '','' # s"
  by (cases i) (auto simp: acl_skip_spaces_def)

lemma acl_skip_spaces_last: "i = [] \<or> hd i \<noteq> CHR '' '' \<Longrightarrow> acl_skip_spaces i = i"
  by (cases i) (auto simp: acl_skip_spaces_def)

lemma set_any_loop_join:
  "is \<noteq> [] \<Longrightarrow> list_all item_ok is \<Longrightarrow>
     set_any_loop cb p a (join CHR '','' is) = run_items cb p a is"
proof (induction "is" arbitrary: a)
  case (Cons i "is")
  show ?case
  proof (cases "is")
    case Nil
    with Cons.prems(2) have "acl_skip_spaces i = i" "strchr CHR '','' i = None" "length i \<le> 63"
      by (auto simp: item_ok_def acl_skip_spaces_last strchr_None)
    with Nil show ?thesis
      by (subst set_any_loop.simps) (auto simp: Let_def split: prod.splits)
  next
    case (Cons j js)
    let ?r = "join CHR '','' is"
    have "join CHR '','' (i # is) = i @ CHR '','' # ?r" by (simp add: Cons)
    moreover have "acl_skip_spaces (i @ CHR '','' # ?r) = i @ CHR '','' # ?r"
      "strchr CHR '','' (i @ CHR '','' # ?r) = Some (i, ?r)" "length i \<le> 63"
      using Cons.prems(2) by (auto simp: item_ok_def acl_skip_spaces_item strchr_Some)
    ultimately show ?thesis
      using Cons.IH Cons.prems(2) Cons
      by (subst set_any_loop.simps) (auto simp: Let_def split: prod.splits)
  qed
qed simp

lemma set_any_loop_single:
  "item_ok i \<Longrightarrow> set_any_loop cb p a i = cb a p i"
  using set_any_loop_join [of "[i]" cb p a] by (auto simp: Let_def split: prod.splits if_splits)

text \<open>Whatever every callback keeps, the whole list keeps.\<close>

lemma set_any_loop_keeps:
  assumes "\<And>a i. I a \<Longrightarrow> I (snd (cb a p i))"
  shows "I a \<Longrightarrow> I (snd (set_any_loop cb p a s))"
proof (induction "length s" arbitrary: a s rule: less_induct)
  case less
  show ?case
  proof (cases "strchr CHR '','' (acl_skip_spaces s)")
    case None
    with less.prems assms show ?thesis by (subst set_any_loop.simps) (simp add: Let_def)
  next
    case (Some ir)
    obtain i r where ir: "ir = (i, r)" by (cases ir)
    have "length (acl_skip_spaces s) \<le> length s"
      by (simp add: acl_skip_spaces_def length_dropWhile_le)
    with Some ir have "length r < length s" by (auto simp: strchr_Some)
    moreover obtain x a' where "cb a p i = (x, a')" by fastforce
    moreover from this less.prems have "I a'" using assms [of a i] by simp
    ultimately show ?thesis
      using Some ir less.hyps [of r a'] less.prems
      by (subst set_any_loop.simps) (simp add: Let_def)
  qed
qed

section \<open>Invariant\<close>

definition acl_wf :: "httpp \<Rightarrow> acl \<Rightarrow> bool" where
  "acl_wf h a \<longleftrightarrow> length (acl_method a) = Suc (req_unknown h)
     \<and> length (admin_commands a) \<le> MAX_ADMIN_COMMANDS
     \<and> ACL_POLICY_ERROR \<notin> set (acl_method a) \<and> ACL_POLICY_ERROR \<notin> snd ` set (admin_commands a)
     \<and> admin_command_policy a \<noteq> ACL_POLICY_ERROR \<and> web_policy a \<noteq> ACL_POLICY_ERROR
     \<and> 0 < refcount a"

lemma acl_wf_method_cb:
  "p \<noteq> ACL_POLICY_ERROR \<Longrightarrow> acl_wf h a \<Longrightarrow> acl_wf h (snd (acl_set_method_str_callback h a p s))"
  by (auto simp: acl_wf_def acl_set_method_str_callback_def Let_def dest: subsetD [OF set_update_subset_insert])

lemma acl_wf_admin_cb:
  "p \<noteq> ACL_POLICY_ERROR \<Longrightarrow> acl_wf h a \<Longrightarrow> acl_wf h (snd (acl_set_admin_str_callback a p s))"
  by (auto simp: acl_wf_def acl_set_admin_str_callback_def Let_def
      intro: order_trans [OF length_filter_le])

lemma acl_wf_set_method:
  "acl_wf h a \<Longrightarrow> acl_wf h (acl_set_method_str h p s a)"
  using set_any_loop_keeps [of "acl_wf h" "acl_set_method_str_callback h" p a s] acl_wf_method_cb
  by (auto simp: acl_set_method_str_def acl_set_ANY_str_def)

lemma acl_wf_set_admin:
  "acl_wf h a \<Longrightarrow> acl_wf h (acl_set_admin_str p s a)"
  using set_any_loop_keeps [of "acl_wf h" acl_set_admin_str_callback p a s] acl_wf_admin_cb
  by (auto simp: acl_set_admin_str_def acl_set_ANY_str_def)

lemma acl_wf_set_web: "acl_wf h a \<Longrightarrow> acl_wf h (acl_set_web_policy p a)"
  by (auto simp: acl_wf_def acl_set_web_policy_def)

lemma acl_wf_limits:
  "acl_wf h a \<Longrightarrow> acl_wf h (acl_set_max_connection_duration d a)"
  "acl_wf h a \<Longrightarrow> acl_wf h (acl_set_max_connections_per_user n a)"
  by (auto simp: acl_wf_def acl_set_max_connection_duration_def acl_set_max_connections_per_user_def)

lemmas acl_wf_sets = acl_wf_set_method acl_wf_set_admin acl_wf_set_web acl_wf_limits

lemma acl_wf_zero: "acl_wf h (acl_zero h)"
  by (simp add: acl_wf_def acl_zero_def)

lemma acl_wf_new: "acl_wf h (acl_new h)"
  by (simp add: acl_new_def Let_def acl_wf_sets acl_wf_zero)

lemma acl_wf_attribute: "acl_wf h a \<Longrightarrow> acl_wf h (acl_attribute h x a)"
  by (cases x) (simp add: acl_attribute_def acl_set_all_def acl_wf_sets)


definition sample_httpp :: httpp where
  "sample_httpp = \<lparr>str_to_method = (\<lambda>s. if s = ''get'' then 1 else if s = ''source'' then 2 else 3), req_unknown = 3\<rparr>"


section \<open>What the settings mean\<close>

lemma known_method_cb:
  "i \<noteq> ''*'' \<Longrightarrow> str_to_method h i \<noteq> req_unknown h \<Longrightarrow>
     acl_set_method_str_callback h a p i = (0, a\<lparr>acl_method := (acl_method a)[str_to_method h i := p]\<rparr>)"
  by (simp add: acl_set_method_str_callback_def Let_def)

lemma run_items_methods:
  "\<forall>i\<in>set is. i \<noteq> ''*'' \<and> str_to_method h i < req_unknown h \<Longrightarrow>
   length (acl_method a) = Suc (req_unknown h) \<Longrightarrow> m \<le> req_unknown h \<Longrightarrow>
     fst (run_items (acl_set_method_str_callback h) p a is) = 0
     \<and> acl_method (snd (run_items (acl_set_method_str_callback h) p a is)) ! m
         = (if m \<in> str_to_method h ` set is then p else acl_method a ! m)"
proof (induction "is" arbitrary: a)
  case (Cons i "is")
  then have "i \<noteq> ''*''" "str_to_method h i \<noteq> req_unknown h" "str_to_method h i < Suc (req_unknown h)" by auto
  with Cons show ?case by (auto simp: known_method_cb nth_list_update)
qed simp

text \<open>
  setting a policy for a comma separated list of known methods gives exactly these methods
  the policy and leaves all others, and the star gives it to all of them.
\<close>

theorem acl_set_methods:
  assumes "acl_wf h a" and "p = ACL_POLICY_ALLOW \<or> p = ACL_POLICY_DENY"
    and "is \<noteq> []" and "\<forall>i\<in>set is. item_ok i \<and> i \<noteq> ''*'' \<and> str_to_method h i < req_unknown h"
    and "m \<le> req_unknown h"
  shows "acl_test_method h (Some (acl_set_method_str h p (join CHR '','' is) a)) m
           = (if m \<in> str_to_method h ` set is then p else acl_test_method h (Some a) m)
         \<and> acl_test_method h (Some (acl_set_method_str h p ''*'' a)) m = p"
proof -
  have "list_all item_ok is" using assms(4) by (auto simp: list_all_iff)
  then have j: "set_any_loop (acl_set_method_str_callback h) p a (join CHR '','' is)
      = run_items (acl_set_method_str_callback h) p a is"
    using assms(3) by (intro set_any_loop_join)
  have "item_ok ''*''" by (simp add: item_ok_def)
  then have "set_any_loop (acl_set_method_str_callback h) p a ''*''
      = (0, a\<lparr>acl_method := replicate (length (acl_method a)) p\<rparr>)"
    by (subst set_any_loop_single) (simp_all add: acl_set_method_str_callback_def)
  with j run_items_methods [of "is" h a m p] assms show ?thesis
    by (auto simp: acl_set_method_str_def acl_set_ANY_str_def acl_test_method_def acl_wf_def
        simp del: replicate_Suc)
qed

theorem acl_set_methods_witness:
  "acl_test_method sample_httpp
     (Some (acl_set_method_str sample_httpp ACL_POLICY_DENY (join CHR '','' [''get'', ''source'']) (acl_new sample_httpp))) 1
   = ACL_POLICY_DENY"
  using acl_set_methods [OF acl_wf_new, of ACL_POLICY_DENY "[''get'', ''source'']" sample_httpp 1]
  by (simp add: item_ok_def sample_httpp_def)

text \<open>The entries of a new list.\<close>

lemma buildm3u_command: "admin_get_command ''buildm3u'' = 28"
  by code_simp

lemma admin_any_command: "admin_get_command ''*'' = 0"
  by code_simp

lemma acl_new_fields:
  assumes "str_to_method h ''get'' \<noteq> req_unknown h"
  shows "acl_method (acl_new h)
           = (replicate (Suc (req_unknown h)) ACL_POLICY_DENY)[str_to_method h ''get'' := ACL_POLICY_ALLOW]"
    and "admin_commands (acl_new h) = [(28, ACL_POLICY_ALLOW)]"
    and "admin_command_policy (acl_new h) = ACL_POLICY_DENY"
    and "web_policy (acl_new h) = ACL_POLICY_ALLOW"
proof -
  have i: "item_ok ''*''" "item_ok ''get''" "item_ok ''buildm3u''" by (simp_all add: item_ok_def)
  show "acl_method (acl_new h)
           = (replicate (Suc (req_unknown h)) ACL_POLICY_DENY)[str_to_method h ''get'' := ACL_POLICY_ALLOW]"
    "admin_commands (acl_new h) = [(28, ACL_POLICY_ALLOW)]"
    "admin_command_policy (acl_new h) = ACL_POLICY_DENY" "web_policy (acl_new h) = ACL_POLICY_ALLOW"
    using assms
    by (simp_all add: acl_new_def Let_def acl_set_method_str_def acl_set_admin_str_def acl_set_ANY_str_def
        set_any_loop_single i acl_set_method_str_callback_def acl_set_admin_str_callback_def
        acl_set_web_policy_def acl_set_max_connection_duration_def acl_set_max_connections_per_user_def
        acl_zero_def buildm3u_command admin_any_command)
qed

text \<open>
  a new list denies by default: every method but GET and every administration command but
  \<^verbatim>\<open>buildm3u\<close>; only the web pages are open.
\<close>

theorem acl_new_denies:
  assumes "str_to_method h ''get'' < req_unknown h" and "m \<le> req_unknown h"
  shows "acl_test_method h (Some (acl_new h)) m
           = (if m = str_to_method h ''get'' then ACL_POLICY_ALLOW else ACL_POLICY_DENY)
         \<and> acl_test_admin (Some (acl_new h)) c
           = (if c = admin_get_command ''buildm3u'' then ACL_POLICY_ALLOW else ACL_POLICY_DENY)
         \<and> acl_test_web (Some (acl_new h)) = ACL_POLICY_ALLOW"
  using assms acl_new_fields [of h]
  by (auto simp: acl_test_method_def acl_test_admin_def acl_test_web_def nth_list_update
      buildm3u_command nth_Cons' simp del: replicate_Suc)

theorem acl_new_denies_witness:
  "acl_test_method sample_httpp (Some (acl_new sample_httpp)) 2 = ACL_POLICY_DENY"
  using acl_new_denies [of sample_httpp 2] by (simp add: sample_httpp_def)

text \<open>
  the first entry of a command decides, so a later setting for the same command has no effect;
  in particular the permission for \<^verbatim>\<open>buildm3u\<close> that every list starts with cannot be taken back by
  \<^verbatim>\<open>deny-admin="buildm3u"\<close>.
\<close>

theorem acl_admin_first_entry_wins:
  assumes "find (\<lambda>(c', q). c' = admin_get_command s) (admin_commands a) = Some e"
    and "item_ok s" and "s \<noteq> ''*''"
  shows "acl_test_admin (Some (acl_set_admin_str p s a)) (admin_get_command s)
           = acl_test_admin (Some a) (admin_get_command s)"
proof -
  have "find P (xs @ ys) = Some e" if "find P xs = Some e" for P and xs ys :: "(int \<times> acl_policy) list"
    using that by (induction xs) (auto split: if_splits)
  with assms show ?thesis
    by (auto simp: acl_set_admin_str_def acl_set_ANY_str_def set_any_loop_single
        acl_set_admin_str_callback_def acl_test_admin_def Let_def admin_get_command_any)
qed

theorem acl_admin_first_entry_wins_witness:
  "acl_test_admin (Some (acl_set_admin_str ACL_POLICY_DENY ''buildm3u'' (acl_new sample_httpp)))
     (admin_get_command ''buildm3u'') = ACL_POLICY_ALLOW"
proof -
  have f: "admin_commands (acl_new sample_httpp) = [(28, ACL_POLICY_ALLOW)]"
    by (rule acl_new_fields(2)) (simp add: sample_httpp_def)
  then have "find (\<lambda>(c', q). c' = admin_get_command ''buildm3u'') (admin_commands (acl_new sample_httpp))
      = Some (28, ACL_POLICY_ALLOW)"
    by (simp add: buildm3u_command)
  from acl_admin_first_entry_wins [OF this, of ACL_POLICY_DENY] f show ?thesis
    by (simp add: item_ok_def acl_test_admin_def buildm3u_command)
qed

end
