(* ===== verification/Errors.thy ===== *)
theory Errors
  imports Interfaces
begin

text \<open>
  The table of errors the server reports to clients (\<^verbatim>\<open>src/src/errors.c\<close>, \<^verbatim>\<open>errors.h\<close>): every
  error number has exactly one entry, with its own UUID and an HTTP error status.
\<close>

abbreviation (input) ICECAST_ERROR_ADMIN_DEST_NOT_RUNNING :: int where "ICECAST_ERROR_ADMIN_DEST_NOT_RUNNING \<equiv> 1"
abbreviation (input) ICECAST_ERROR_ADMIN_METADAT_BADCALL :: int where "ICECAST_ERROR_ADMIN_METADAT_BADCALL \<equiv> 2"
abbreviation (input) ICECAST_ERROR_ADMIN_METADAT_NO_SUCH_ACTION :: int where "ICECAST_ERROR_ADMIN_METADAT_NO_SUCH_ACTION \<equiv> 3"
abbreviation (input) ICECAST_ERROR_ADMIN_MISSING_PARAMETER :: int where "ICECAST_ERROR_ADMIN_MISSING_PARAMETER \<equiv> 4"
abbreviation (input) ICECAST_ERROR_ADMIN_missing_parameter :: int where "ICECAST_ERROR_ADMIN_missing_parameter \<equiv> 5"
abbreviation (input) ICECAST_ERROR_ADMIN_MOUNT_NOT_ACCEPT_URL_UPDATES :: int where "ICECAST_ERROR_ADMIN_MOUNT_NOT_ACCEPT_URL_UPDATES \<equiv> 6"
abbreviation (input) ICECAST_ERROR_ADMIN_NO_SUCH_DESTINATION :: int where "ICECAST_ERROR_ADMIN_NO_SUCH_DESTINATION \<equiv> 7"
abbreviation (input) ICECAST_ERROR_ADMIN_ROLEMGN_ADD_NOSYS :: int where "ICECAST_ERROR_ADMIN_ROLEMGN_ADD_NOSYS \<equiv> 8"
abbreviation (input) ICECAST_ERROR_ADMIN_ROLEMGN_DELETE_NOSYS :: int where "ICECAST_ERROR_ADMIN_ROLEMGN_DELETE_NOSYS \<equiv> 9"
abbreviation (input) ICECAST_ERROR_ADMIN_ROLEMGN_ROLE_NOT_FOUND :: int where "ICECAST_ERROR_ADMIN_ROLEMGN_ROLE_NOT_FOUND \<equiv> 10"
abbreviation (input) ICECAST_ERROR_ADMIN_SOURCE_DOES_NOT_EXIST :: int where "ICECAST_ERROR_ADMIN_SOURCE_DOES_NOT_EXIST \<equiv> 11"
abbreviation (input) ICECAST_ERROR_ADMIN_SOURCE_IS_NOT_AVAILABLE :: int where "ICECAST_ERROR_ADMIN_SOURCE_IS_NOT_AVAILABLE \<equiv> 12"
abbreviation (input) ICECAST_ERROR_ADMIN_SUPPLIED_MOUNTPOINTS_ARE_IDENTICAL :: int where "ICECAST_ERROR_ADMIN_SUPPLIED_MOUNTPOINTS_ARE_IDENTICAL \<equiv> 13"
abbreviation (input) ICECAST_ERROR_ADMIN_UNRECOGNISED_COMMAND :: int where "ICECAST_ERROR_ADMIN_UNRECOGNISED_COMMAND \<equiv> 14"
abbreviation (input) ICECAST_ERROR_AUTH_BUSY :: int where "ICECAST_ERROR_AUTH_BUSY \<equiv> 15"
abbreviation (input) ICECAST_ERROR_CON_CONTENT_TYPE_NOSYS :: int where "ICECAST_ERROR_CON_CONTENT_TYPE_NOSYS \<equiv> 16"
abbreviation (input) ICECAST_ERROR_CON_INTERNAL_FORMAT_ALLOC_ERROR :: int where "ICECAST_ERROR_CON_INTERNAL_FORMAT_ALLOC_ERROR \<equiv> 17"
abbreviation (input) ICECAST_ERROR_CON_MISSING_PASS_PARAMETER :: int where "ICECAST_ERROR_CON_MISSING_PASS_PARAMETER \<equiv> 18"
abbreviation (input) ICECAST_ERROR_CON_MOUNT_IN_USE :: int where "ICECAST_ERROR_CON_MOUNT_IN_USE \<equiv> 19"
abbreviation (input) ICECAST_ERROR_CON_MOUNTPOINT_NOT_STARTING_WITH_SLASH :: int where "ICECAST_ERROR_CON_MOUNTPOINT_NOT_STARTING_WITH_SLASH \<equiv> 20"
abbreviation (input) ICECAST_ERROR_CON_NO_CONTENT_TYPE_GIVEN :: int where "ICECAST_ERROR_CON_NO_CONTENT_TYPE_GIVEN \<equiv> 21"
abbreviation (input) ICECAST_ERROR_CON_PER_CRED_CLIENT_LIMIT :: int where "ICECAST_ERROR_CON_PER_CRED_CLIENT_LIMIT \<equiv> 22"
abbreviation (input) ICECAST_ERROR_CON_rejecting_client_for_whatever_reason :: int where "ICECAST_ERROR_CON_rejecting_client_for_whatever_reason \<equiv> 23"
abbreviation (input) ICECAST_ERROR_CON_SOURCE_CLIENT_LIMIT :: int where "ICECAST_ERROR_CON_SOURCE_CLIENT_LIMIT \<equiv> 24"
abbreviation (input) ICECAST_ERROR_CON_UNIMPLEMENTED :: int where "ICECAST_ERROR_CON_UNIMPLEMENTED \<equiv> 25"
abbreviation (input) ICECAST_ERROR_CON_UNKNOWN_REQUEST :: int where "ICECAST_ERROR_CON_UNKNOWN_REQUEST \<equiv> 26"
abbreviation (input) ICECAST_ERROR_CON_UPGRADE_ERROR :: int where "ICECAST_ERROR_CON_UPGRADE_ERROR \<equiv> 27"
abbreviation (input) ICECAST_ERROR_FSERV_FILE_NOT_FOUND :: int where "ICECAST_ERROR_FSERV_FILE_NOT_FOUND \<equiv> 28"
abbreviation (input) ICECAST_ERROR_FSERV_FILE_NOT_READABLE :: int where "ICECAST_ERROR_FSERV_FILE_NOT_READABLE \<equiv> 29"
abbreviation (input) ICECAST_ERROR_FSERV_REQUEST_RANGE_NOT_SATISFIABLE :: int where "ICECAST_ERROR_FSERV_REQUEST_RANGE_NOT_SATISFIABLE \<equiv> 30"
abbreviation (input) ICECAST_ERROR_GEN_BUFFER_REALLOC :: int where "ICECAST_ERROR_GEN_BUFFER_REALLOC \<equiv> 31"
abbreviation (input) ICECAST_ERROR_GEN_CLIENT_LIMIT :: int where "ICECAST_ERROR_GEN_CLIENT_LIMIT \<equiv> 32"
abbreviation (input) ICECAST_ERROR_GEN_CLIENT_NEEDS_TO_AUTHENTICATE :: int where "ICECAST_ERROR_GEN_CLIENT_NEEDS_TO_AUTHENTICATE \<equiv> 33"
abbreviation (input) ICECAST_ERROR_GEN_HEADER_GEN_FAILED :: int where "ICECAST_ERROR_GEN_HEADER_GEN_FAILED \<equiv> 34"
abbreviation (input) ICECAST_ERROR_GEN_MEMORY_EXHAUSTED :: int where "ICECAST_ERROR_GEN_MEMORY_EXHAUSTED \<equiv> 35"
abbreviation (input) ICECAST_ERROR_SOURCE_MOUNT_UNAVAILABLE :: int where "ICECAST_ERROR_SOURCE_MOUNT_UNAVAILABLE \<equiv> 36"
abbreviation (input) ICECAST_ERROR_SOURCE_STREAM_PREPARATION_ERROR :: int where "ICECAST_ERROR_SOURCE_STREAM_PREPARATION_ERROR \<equiv> 37"
abbreviation (input) ICECAST_ERROR_XSLT_PARSE :: int where "ICECAST_ERROR_XSLT_PARSE \<equiv> 38"
abbreviation (input) ICECAST_ERROR_XSLT_problem :: int where "ICECAST_ERROR_XSLT_problem \<equiv> 39"

record icecast_error =
  err_id :: int
  http_status :: int
  uuid :: string
  err_message :: string

definition err :: "int \<Rightarrow> int \<Rightarrow> string \<Rightarrow> string \<Rightarrow> icecast_error" where
  "err i s u m = \<lparr>err_id = i, http_status = s, uuid = u, err_message = m\<rparr>"

definition errors :: "icecast_error list" where
  "errors =
    [err ICECAST_ERROR_ADMIN_DEST_NOT_RUNNING 400 ''52735a81-16fe-4d7e-9984-5aed8a941055'' ''Destination not running'',
     err ICECAST_ERROR_ADMIN_METADAT_BADCALL 400 ''85d33e67-5c4e-4511-b4fa-3ca69ccd03de'' ''illegal metadata call'',
     err ICECAST_ERROR_ADMIN_METADAT_NO_SUCH_ACTION 501 ''14f4d814-98d9-468c-8a0b-ba5e74c9d771'' ''No such action'',
     err ICECAST_ERROR_ADMIN_MISSING_PARAMETER 400 ''cb11dc71-6149-454c-8d4e-47a3af26b03a'' ''Missing parameter'',
     err ICECAST_ERROR_ADMIN_missing_parameter 400 ''8be9ef0a-2b32-450c-aec9-a414ca0c074c'' ''missing parameter'',
     err ICECAST_ERROR_ADMIN_MOUNT_NOT_ACCEPT_URL_UPDATES 501 ''3bed51bb-a10f-4af3-9965-4e67181de7d6'' ''mountpoint will not accept URL updates'',
     err ICECAST_ERROR_ADMIN_NO_SUCH_DESTINATION 404 ''c5f1ee06-46a0-4697-9f01-6e9fc333d555'' ''No such destination'',
     err ICECAST_ERROR_ADMIN_ROLEMGN_ADD_NOSYS 501 ''7e1a8426-2ae1-4a6b-bfd9-59d8f8153021'' ''Adding users to role not supported by role'',
     err ICECAST_ERROR_ADMIN_ROLEMGN_DELETE_NOSYS 501 ''367fbad1-389e-4292-bba8-c97984e616cc'' ''Deleting users from role not supported by role'',
     err ICECAST_ERROR_ADMIN_ROLEMGN_ROLE_NOT_FOUND 404 ''59fe9c81-8c34-49ff-800f-7ec42ea498be'' ''Role not found'',
     err ICECAST_ERROR_ADMIN_SOURCE_DOES_NOT_EXIST 404 ''2f51a026-02e4-4fe4-bf9d-cc16557b3b65'' ''Source does not exist'',
     err ICECAST_ERROR_ADMIN_SOURCE_IS_NOT_AVAILABLE 400 ''00b9d977-f41d-455f-820f-6d457dffb246'' ''Source is not available'',
     err ICECAST_ERROR_ADMIN_SUPPLIED_MOUNTPOINTS_ARE_IDENTICAL 400 ''4be9a010-7a3f-44e4-b74d-3c6d9c4f7236'' ''supplied mountpoints are identical'',
     err ICECAST_ERROR_ADMIN_UNRECOGNISED_COMMAND 400 ''811bddac-5be5-4580-9cde-7b849e66dfe5'' ''unrecognised command'',
     err ICECAST_ERROR_AUTH_BUSY 503 ''26708754-8f98-4191-81d1-7fb7246200d6'' ''busy, please try again later'',
     err ICECAST_ERROR_CON_CONTENT_TYPE_NOSYS 415 ''f684ad3c-513b-4d87-9a66-424788bc6adb'' ''Content-type not supported'',
     err ICECAST_ERROR_CON_INTERNAL_FORMAT_ALLOC_ERROR 500 ''47a4b11b-5d2a-46e2-8948-942e7b0af3e6'' ''internal format allocation problem'',
     err ICECAST_ERROR_CON_MISSING_PASS_PARAMETER 400 ''b59c3a05-e2b1-4a14-8798-bbe1ae46603b'' ''missing pass parameter'',
     err ICECAST_ERROR_CON_MOUNT_IN_USE 409 ''c5724467-5f85-48c7-b45a-915c3150c292'' ''Mountpoint in use'',
     err ICECAST_ERROR_CON_MOUNTPOINT_NOT_STARTING_WITH_SLASH 400 ''1ae45ead-40fc-4de2-b56f-e54d3247f2ee'' ''source mountpoint not starting with /'',
     err ICECAST_ERROR_CON_NO_CONTENT_TYPE_GIVEN 400 ''2cd86778-ac30-49e7-a108-26d627a7923b'' ''No Content-type given'',
     err ICECAST_ERROR_CON_PER_CRED_CLIENT_LIMIT 429 ''9c72c1ec-f638-4d33-a077-6acbbff25317'' ''Reached limit of concurrent connections on those credentials'',
     err ICECAST_ERROR_CON_rejecting_client_for_whatever_reason 403 ''534ee9af-8be5-4645-a839-501d22d541bd'' ''Rejecting client for whatever reason'',
     err ICECAST_ERROR_CON_SOURCE_CLIENT_LIMIT 503 ''c770182d-c854-422a-a8e5-7142689234a3'' ''too many sources connected'',
     err ICECAST_ERROR_CON_UNIMPLEMENTED 501 ''58ce6cb4-72b4-49da-8ad2-feaf775bc61e'' ''Unimplemented'',
     err ICECAST_ERROR_CON_UNKNOWN_REQUEST 405 ''78f590cc-8812-40d5-a4ef-17344ab75b35'' ''unknown request'',
     err ICECAST_ERROR_CON_UPGRADE_ERROR 400 ''ec16f654-f262-415f-ab91-95703ae33704'' ''Can not upgrade protocol'',
     err ICECAST_ERROR_FSERV_FILE_NOT_FOUND 404 ''18c32b43-0d8e-469d-b434-10133cdd06ad'' ''The file you requested could not be found'',
     err ICECAST_ERROR_FSERV_FILE_NOT_READABLE 404 ''c883d55d-fb41-4f4c-8800-563f5542f51d'' ''File not readable'',
     err ICECAST_ERROR_FSERV_REQUEST_RANGE_NOT_SATISFIABLE 416 ''5874cc51-770b-42b5-82d2-737b2b406b30'' ''Request Range Not Satisfiable'',
     err ICECAST_ERROR_GEN_BUFFER_REALLOC 500 ''cda8203e-f237-4090-8d43-544efdd6295c'' ''Buffer reallocation failed.'',
     err ICECAST_ERROR_GEN_CLIENT_LIMIT 503 ''87fd3e61-6702-4473-b506-f616d27a142f'' ''Icecast connection limit reached'',
     err ICECAST_ERROR_GEN_CLIENT_NEEDS_TO_AUTHENTICATE 401 ''25387198-0643-4577-9139-7c4f24f59d4a'' ''You need to authenticate'',
     err ICECAST_ERROR_GEN_HEADER_GEN_FAILED 500 ''a8b3c3fe-cb87-45fe-9a9d-ee4c2075d43a'' ''Header generation failed.'',
     err ICECAST_ERROR_GEN_MEMORY_EXHAUSTED 503 ''18411e73-713e-4910-b7e4-52a2e324b4e0'' ''memory exhausted'',
     err ICECAST_ERROR_SOURCE_MOUNT_UNAVAILABLE 404 ''88d06875-fcf2-4417-84af-05866c97745c'' ''Mount unavailable'',
     err ICECAST_ERROR_SOURCE_STREAM_PREPARATION_ERROR 500 ''9e50d94d-f03d-4515-8216-577bf8e9f70d'' ''Stream preparation error'',
     err ICECAST_ERROR_XSLT_PARSE 404 ''f86b5b28-c1f8-49f6-a4cd-a18e2a6a44fd'' ''Could not parse XSLT file'',
     err ICECAST_ERROR_XSLT_problem 500 ''d3c6e4b3-7d6e-4191-a81b-970273067ae3'' ''XSLT problem'']"

fun error_loop :: "icecast_error list \<Rightarrow> int \<Rightarrow> icecast_error option" where
  "error_loop [] n = None"
| "error_loop (e # es) n = (if err_id e = n then Some e else error_loop es n)"

definition error_get_by_id :: "int \<Rightarrow> icecast_error option" where
  "error_get_by_id n = error_loop errors n"

lemma error_ids: "map err_id errors = [1..39]"
  by code_simp

lemma error_loop_None: "error_loop es n = None \<longleftrightarrow> n \<notin> set (map err_id es)"
  by (induction es) auto

lemma error_loop_Some: "error_loop es n = Some e \<Longrightarrow> e \<in> set es \<and> err_id e = n"
  by (induction es) (auto split: if_splits)

text \<open>
  every error number from 1 to 39 has its entry and no other number has one; the entry's
  status is a client or server error of HTTP, and no two entries share their UUID.
\<close>

theorem error_table_complete:
  "(1 \<le> n \<and> n \<le> 39 \<longleftrightarrow> error_get_by_id n \<noteq> None)
   \<and> (\<forall>e\<in>set errors. 400 \<le> http_status e \<and> http_status e < 600)
   \<and> distinct (map uuid errors)
   \<and> (\<forall>e. error_get_by_id n = Some e \<longrightarrow> err_id e = n)"
proof (intro conjI)
  show "1 \<le> n \<and> n \<le> 39 \<longleftrightarrow> error_get_by_id n \<noteq> None"
    unfolding error_get_by_id_def error_loop_None error_ids by auto
  show "\<forall>e\<in>set errors. 400 \<le> http_status e \<and> http_status e < 600"
    by (simp add: errors_def err_def)
  show "distinct (map uuid errors)" by code_simp
  show "\<forall>e. error_get_by_id n = Some e \<longrightarrow> err_id e = n"
    unfolding error_get_by_id_def by (simp add: error_loop_Some)
qed

theorem error_table_complete_witness:
  "error_get_by_id ICECAST_ERROR_GEN_CLIENT_NEEDS_TO_AUTHENTICATE \<noteq> None"
  using error_table_complete [of 33] by simp

end
