(* ===== verification/Matchfile.thy ===== *)
theory Matchfile
  imports Util_Conv
begin

text \<open>
  Allow and deny files (\<^verbatim>\<open>src/src/matchfile.c\<close>): a list of strings read from a file, reread
  when the file has changed but at most every ten seconds. After a reload a key matches exactly
  if it is a line of the file that is not empty and not a comment, and the deny file takes
  precedence over the allow file.

  The balanced tree that holds the lines comes from a library: \<open>avl_ops\<close> are its operations on
  a tree compared by \<^verbatim>\<open>strcmp\<close>, and \<open>avl_set\<close> says that a lookup finds what was inserted. The clock
  and the file system are the argument \<open>env\<close>.
\<close>

record 't avl_ops =
  tree_new :: 't
  tree_insert :: "string \<Rightarrow> 't \<Rightarrow> 't"
  tree_get :: "'t \<Rightarrow> string \<Rightarrow> bool"

definition avl_set :: "'t avl_ops \<Rightarrow> bool" where
  "avl_set avl \<longleftrightarrow> (\<forall>k. \<not> tree_get avl (tree_new avl) k)
     \<and> (\<forall>t x k. tree_get avl (tree_insert avl x t) k \<longleftrightarrow> k = x \<or> tree_get avl t k)"

record env =
  clock :: int
  stat_mtime :: "int option"
  file_bytes :: "string option"

record 't matchfile =
  mf_refcount :: nat
  filename :: string
  file_recheck :: int
  file_mtime :: int
  contents :: "'t option"

section \<open>Definitions\<close>

function read_entries :: "'t avl_ops \<Rightarrow> 't \<Rightarrow> string \<Rightarrow> 't" where
  "read_entries avl new_contents input =
     (case get_line MAX_LINE_LEN input of
        None \<Rightarrow> new_contents
      | Some (line, rest) \<Rightarrow>
          if line = [] \<or> hd line = CHR ''#'' then read_entries avl new_contents rest
          else read_entries avl (tree_insert avl line new_contents) rest)"
  by pat_completeness auto
termination
  by (relation "measure (\<lambda>(avl, t, s). length s)") (auto intro: get_line_progress [of 512])

declare read_entries.simps [simp del]

definition func_recheck :: "'t avl_ops \<Rightarrow> env \<Rightarrow> 't matchfile \<Rightarrow> 't matchfile" where
  "func_recheck avl env file =
     (if clock env < file_recheck file then file
      else
        (let file = file\<lparr>file_recheck := clock env + 10\<rparr>
         in case stat_mtime env of
              None \<Rightarrow> file
            | Some mtime \<Rightarrow>
                if mtime = file_mtime file then file
                else
                  (let file = file\<lparr>file_mtime := mtime\<rparr>
                   in case file_bytes env of
                        None \<Rightarrow> file
                      | Some bytes \<Rightarrow>
                          file\<lparr>contents := Some (read_entries avl (tree_new avl) bytes)\<rparr>)))"

definition matchfile_new :: "'t avl_ops \<Rightarrow> env \<Rightarrow> string option \<Rightarrow> 't matchfile option" where
  "matchfile_new avl env name =
     (case name of
        None \<Rightarrow> None
      | Some n \<Rightarrow>
          Some (func_recheck avl env
            \<lparr>mf_refcount = 1, filename = n, file_recheck = 0, file_mtime = 0, contents = None\<rparr>))"

definition matchfile_addref :: "'t matchfile \<Rightarrow> 't matchfile" where
  "matchfile_addref file = file\<lparr>mf_refcount := mf_refcount file + 1\<rparr>"

text \<open>None when the object has been freed.\<close>

definition matchfile_release :: "'t matchfile \<Rightarrow> 't matchfile option" where
  "matchfile_release file =
     (let file = file\<lparr>mf_refcount := mf_refcount file - 1\<rparr>
      in if mf_refcount file \<noteq> 0 then Some file else None)"

text \<open>A NULL file gives -1, which the caller treats as no match.\<close>

definition matchfile_match ::
    "'t avl_ops \<Rightarrow> env \<Rightarrow> 't matchfile option \<Rightarrow> string \<Rightarrow> int \<times> 't matchfile option" where
  "matchfile_match avl env file k =
     (case file of
        None \<Rightarrow> (-1, None)
      | Some f \<Rightarrow>
          (let f = func_recheck avl env f
           in case contents f of
                None \<Rightarrow> (0, Some f)
              | Some t \<Rightarrow> (if tree_get avl t k then 1 else 0, Some f)))"

text \<open>The two files are reread as they are consulted; each has its own view of the file system.\<close>

definition matchfile_match_allow_deny ::
    "'t avl_ops \<Rightarrow> env \<Rightarrow> env \<Rightarrow> 't matchfile option \<Rightarrow> 't matchfile option \<Rightarrow> string option
     \<Rightarrow> bool \<times> 't matchfile option \<times> 't matchfile option" where
  "matchfile_match_allow_deny avl env_a env_d allow deny k =
     (if allow = None \<and> deny = None then (True, allow, deny)
      else (case k of
              None \<Rightarrow> (False, allow, deny)
            | Some k \<Rightarrow>
                (let (r, deny) = matchfile_match avl env_d deny k
                 in if r > 0 then (False, allow, deny)
                    else (let (r, allow') = matchfile_match avl env_a allow k
                          in if r > 0 then (True, allow', deny)
                             else if allow \<noteq> None then (False, allow', deny)
                             else (True, allow', deny)))))"

interpretation mf_ref: refcounted mf_refcount matchfile_addref matchfile_release
  by unfold_locales (auto simp: matchfile_addref_def matchfile_release_def Let_def)

section \<open>What a file means\<close>

lemma read_entries_get:
  assumes "avl_set avl"
  shows "list_all line_ok ls \<Longrightarrow>
     tree_get avl (read_entries avl t (text_of ls)) k \<longleftrightarrow> (k \<in> set ls \<and> entry_line k) \<or> tree_get avl t k"
proof (induction ls arbitrary: t)
  case Nil
  then show ?case by (simp add: text_of_def read_entries.simps get_line_def fgets_def)
next
  case (Cons l ls)
  then have "get_line MAX_LINE_LEN (l @ CHR 0x0A # text_of ls) = Some (l, text_of ls)"
    by (intro get_line_line) (auto simp: line_ok_def)
  moreover have "text_of (l # ls) = l @ CHR 0x0A # text_of ls" by (simp add: text_of_def)
  ultimately show ?case
    using Cons assms by (subst read_entries.simps) (auto simp: entry_line_def avl_set_def)
qed

text \<open>What a file holds after a check that reloaded it.\<close>

definition loaded :: "'t avl_ops \<Rightarrow> 't matchfile \<Rightarrow> string list \<Rightarrow> bool" where
  "loaded avl f ls \<longleftrightarrow>
     (\<exists>t. contents f = Some t \<and> (\<forall>k. tree_get avl t k \<longleftrightarrow> k \<in> set ls \<and> entry_line k))"

lemma recheck_loads:
  assumes "avl_set avl" and "file_recheck f \<le> clock env" and "stat_mtime env = Some m"
    and "m \<noteq> file_mtime f" and "file_bytes env = Some (text_of ls)" and "list_all line_ok ls"
  shows "loaded avl (func_recheck avl env f) ls"
  using assms read_entries_get [OF assms(1, 6), of "tree_new avl"]
  by (auto simp: loaded_def func_recheck_def Let_def avl_set_def)

lemma recheck_keeps:
  assumes "clock env < file_recheck f \<or> stat_mtime env = None \<or> stat_mtime env = Some (file_mtime f)
     \<or> file_bytes env = None"
  shows "contents (func_recheck avl env f) = contents f"
  using assms by (auto simp: func_recheck_def Let_def split: option.splits)

text \<open>
  with both files loaded, a client is rejected if its key is listed in the deny file; else it is
  accepted if there is no allow file or its key is listed there. A file that cannot be read again, or
  has not changed, or was checked in the last ten seconds, keeps its previous contents.
\<close>

theorem allow_deny_decision:
  assumes "avl_set avl" and "list_all line_ok allow_lines" and "list_all line_ok deny_lines"
    and "file_recheck fa \<le> clock env_a" "stat_mtime env_a = Some ma" "ma \<noteq> file_mtime fa"
      "file_bytes env_a = Some (text_of allow_lines)"
    and "file_recheck fd \<le> clock env_d" "stat_mtime env_d = Some md" "md \<noteq> file_mtime fd"
      "file_bytes env_d = Some (text_of deny_lines)"
  shows "fst (matchfile_match_allow_deny avl env_a env_d (Some fa) (Some fd) (Some k))
           = (\<not> (k \<in> set deny_lines \<and> entry_line k) \<and> k \<in> set allow_lines \<and> entry_line k)
       \<and> fst (matchfile_match_allow_deny avl env_a env_d None (Some fd) (Some k))
           = (\<not> (k \<in> set deny_lines \<and> entry_line k))
       \<and> fst (matchfile_match_allow_deny avl env_a env_d None None (Some k))
       \<and> \<not> fst (matchfile_match_allow_deny avl env_a env_d (Some fa) (Some fd) None)"
proof -
  have "loaded avl (func_recheck avl env_a fa) allow_lines"
    using assms by (intro recheck_loads) auto
  moreover have "loaded avl (func_recheck avl env_d fd) deny_lines"
    using assms by (intro recheck_loads) auto
  ultimately have
    "fst (matchfile_match avl env_a (Some fa) k) = (if k \<in> set allow_lines \<and> entry_line k then 1 else 0)"
    "fst (matchfile_match avl env_d (Some fd) k) = (if k \<in> set deny_lines \<and> entry_line k then 1 else 0)"
    "matchfile_match avl env_a None k = (-1, None)"
    by (auto simp: loaded_def matchfile_match_def Let_def)
  then show ?thesis
    by (auto simp: matchfile_match_allow_deny_def Let_def split: prod.splits if_splits)
qed

text \<open>A list with linear search as the tree shows that the assumption can hold.\<close>

definition list_avl :: "string list avl_ops" where
  "list_avl = \<lparr>tree_new = [], tree_insert = (#), tree_get = (\<lambda>t k. k \<in> set t)\<rparr>"

theorem allow_deny_decision_witness:
  "fst (matchfile_match_allow_deny list_avl
      \<lparr>clock = 5, stat_mtime = Some 1, file_bytes = Some (text_of [''10.0.0.1''])\<rparr>
      \<lparr>clock = 5, stat_mtime = Some 1, file_bytes = Some (text_of [''10.0.0.2''])\<rparr>
      (Some \<lparr>mf_refcount = 1, filename = ''a'', file_recheck = 0, file_mtime = 0, contents = None\<rparr>)
      (Some \<lparr>mf_refcount = 1, filename = ''d'', file_recheck = 0, file_mtime = 0, contents = None\<rparr>)
      (Some ''10.0.0.1''))"
proof -
  have "avl_set list_avl" by (simp add: avl_set_def list_avl_def)
  moreover have "list_all line_ok [''10.0.0.1'']" "list_all line_ok [''10.0.0.2'']"
    by (simp_all add: line_ok_def no_nul_def NUL_def)
  ultimately show ?thesis
    using allow_deny_decision [of list_avl "[''10.0.0.1'']" "[''10.0.0.2'']"
      "\<lparr>mf_refcount = 1, filename = ''a'', file_recheck = 0, file_mtime = 0, contents = None\<rparr>"
      "\<lparr>clock = 5, stat_mtime = Some 1, file_bytes = Some (text_of [''10.0.0.1''])\<rparr>" 1
      "\<lparr>mf_refcount = 1, filename = ''d'', file_recheck = 0, file_mtime = 0, contents = None\<rparr>"
      "\<lparr>clock = 5, stat_mtime = Some 1, file_bytes = Some (text_of [''10.0.0.2''])\<rparr>" 1 "''10.0.0.1''"]
    by (simp add: entry_line_def)
qed

end
