(* ===== verification/Playlist.thy ===== *)
theory Playlist
  imports Interfaces
begin

text \<open>
  The history of played tracks (\<^verbatim>\<open>src/src/playlist.c\<close>): a linked list of tracks, bounded by
  \<^verbatim>\<open>max_tracks\<close> if that is positive, with a reference counter. Pushing keeps the newest tracks
  in order; the bound is kept however it is changed in between, from the next push on.

  \<open>query\<close> stands for \<^verbatim>\<open>vorbis_comment_query (vc, key, 0)\<close> of the Vorbis library. The rendering as
  XML is the list of the elements the code adds.
\<close>

section \<open>Definitions\<close>

record track =
  title :: "string option"
  creator :: "string option"
  album :: "string option"
  trackNum :: "string option"

record playlist =
  refc :: nat
  max_tracks :: int
  tracks :: "track list"

definition playlist_new :: "int \<Rightarrow> playlist" where
  "playlist_new mt = \<lparr>refc = 1, max_tracks = mt, tracks = []\<rparr>"

definition playlist_ref :: "playlist \<Rightarrow> playlist" where
  "playlist_ref p = p\<lparr>refc := refc p + 1\<rparr>"

definition playlist_release :: "playlist \<Rightarrow> playlist option" where
  "playlist_release p = (let p = p\<lparr>refc := refc p - 1\<rparr> in if refc p \<noteq> 0 then Some p else None)"

definition playlist_set_max_tracks :: "playlist \<Rightarrow> int \<Rightarrow> playlist" where
  "playlist_set_max_tracks p mt = p\<lparr>max_tracks := mt\<rparr>"

definition empty_track :: track where
  "empty_track = \<lparr>title = None, creator = None, album = None, trackNum = None\<rparr>"

definition query_vc :: "(string \<Rightarrow> string option) \<Rightarrow> string \<Rightarrow> string option" where
  "query_vc query k = query k"

text \<open>The fields of the new track; it has none without comments.\<close>

definition fill_track :: "(string \<Rightarrow> string option) option \<Rightarrow> track" where
  "fill_track vc =
     (case vc of
        None \<Rightarrow> empty_track
      | Some query \<Rightarrow>
          (let t = \<lparr>title = query_vc query ''TITLE'', creator = query_vc query ''ARTIST'',
                    album = query_vc query ''ALBUM'', trackNum = query_vc query ''TRACKNUMBER''\<rparr>
           in if title t = None \<and> creator t = None \<and> album t = None \<and> trackNum t = None
              then t\<lparr>title := query_vc query ''X_ICY_TITLE''\<rparr> else t))"

text \<open>
  The loop that drops the oldest tracks. It would read through a NULL pointer if the list ran out
  before the bound is reached. \<open>num\<close> counts the tracks.
\<close>

fun trim_loop :: "int \<Rightarrow> int \<Rightarrow> track list \<Rightarrow> fault + track list" where
  "trim_loop mt num [] = (if mt > 0 \<and> num > mt then Inl Null_deref else Inr [])"
| "trim_loop mt num (t # ts) =
     (if mt > 0 \<and> num > mt then trim_loop mt (num - 1) ts else Inr (t # ts))"

text \<open>
  The new track is linked in first, then the list is trimmed, then its fields are set; a positive
  bound never removes the new track, so setting the fields before or after makes no difference.
\<close>

definition playlist_push_track ::
    "playlist \<Rightarrow> (string \<Rightarrow> string option) option \<Rightarrow> fault + playlist" where
  "playlist_push_track p vc =
     (case trim_loop (max_tracks p) (int (length (tracks p)) + 1) (tracks p @ [empty_track]) of
        Inl f \<Rightarrow> Inl f
      | Inr ts \<Rightarrow>
          if ts = [] then Inl Use_after_free
          else Inr (p\<lparr>tracks := butlast ts @ [fill_track vc]\<rparr>))"

datatype xspf = Element string "(string \<times> string) list" "xspf list" | Text_element string string

definition opt_child :: "string \<Rightarrow> string option \<Rightarrow> xspf list" where
  "opt_child name v = (case v of None \<Rightarrow> [] | Some s \<Rightarrow> [Text_element name s])"

definition render_track :: "track \<Rightarrow> xspf" where
  "render_track t = Element ''track'' []
     (opt_child ''title'' (title t) @ opt_child ''creator'' (creator t)
      @ opt_child ''album'' (album t) @ opt_child ''trackNum'' (trackNum t))"

definition playlist_render_xspf :: "playlist option \<Rightarrow> xspf option" where
  "playlist_render_xspf pl =
     (case pl of
        None \<Rightarrow> None
      | Some p \<Rightarrow>
          Some (Element ''playlist'' [(''version'', ''1''), (''xmlns'', ''http://xspf.org/ns/0/'')]
            [Element ''trackList'' [] (map render_track (tracks p))]))"

interpretation pl_ref: refcounted refc playlist_ref playlist_release
  by unfold_locales (auto simp: playlist_ref_def playlist_release_def Let_def)

section \<open>The history\<close>

text \<open>The last \<open>n\<close> elements of a list.\<close>

definition lastn :: "nat \<Rightarrow> 'a list \<Rightarrow> 'a list" where
  "lastn n xs = drop (length xs - n) xs"

lemma trim_loop_lastn:
  "trim_loop mt (int (length ts)) ts = Inr (if mt > 0 then lastn (nat mt) ts else ts)"
proof (induction ts)
  case (Cons t ts)
  then show ?case
    by (auto simp: lastn_def Suc_diff_le nat_le_iff)
qed (simp add: lastn_def)

lemma push_track_value:
  "playlist_push_track p vc =
     Inr (p\<lparr>tracks := (if max_tracks p > 0 then lastn (nat (max_tracks p)) (tracks p @ [fill_track vc])
                       else tracks p @ [fill_track vc])\<rparr>)"
proof -
  have "trim_loop (max_tracks p) (int (length (tracks p)) + 1) (tracks p @ [empty_track])
      = Inr (if max_tracks p > 0 then lastn (nat (max_tracks p)) (tracks p @ [empty_track])
             else tracks p @ [empty_track])"
    using trim_loop_lastn [of "max_tracks p" "tracks p @ [empty_track]"] by (simp add: add.commute)
  moreover have "lastn n (ts @ [t]) = lastn (n - 1) ts @ [t]" if "n > 0" for n t and ts :: "track list"
    using that by (cases n) (auto simp: lastn_def)
  ultimately show ?thesis
    by (auto simp: playlist_push_track_def)
qed

lemma lastn_lastn: "m \<le> n \<Longrightarrow> lastn m (lastn n xs) = lastn m xs"
proof -
  assume "m \<le> n"
  then have "length xs - (length xs - n + m) + (length xs - n) = length xs - m" by arith
  then show ?thesis by (simp add: lastn_def)
qed

lemma lastn_append: "lastn n (lastn n xs @ ys) = lastn n (xs @ ys)"
proof (cases "n \<le> length ys")
  case False
  then have "length xs + length ys - (length xs - n + n) + (length xs - n) = length xs + length ys - n" by arith
  then show ?thesis using False by (auto simp: lastn_def)
qed (auto simp: lastn_def)

text \<open>Pushing a sequence of comments.\<close>

fun push_tracks :: "playlist \<Rightarrow> (string \<Rightarrow> string option) option list \<Rightarrow> fault + playlist" where
  "push_tracks p [] = Inr p"
| "push_tracks p (v # vs) = (case playlist_push_track p v of Inl f \<Rightarrow> Inl f | Inr q \<Rightarrow> push_tracks q vs)"

lemma lastn_all: "length xs \<le> n \<Longrightarrow> lastn n xs = xs"
  by (simp add: lastn_def)

text \<open>
  pushing tracks never faults, and after any sequence of pushes onto a list within its bound
  the list holds the newest tracks in the order they came: all of them without a bound, and exactly
  the last \<open>max_tracks\<close> with one.
\<close>

theorem playlist_keeps_newest:
  assumes "max_tracks p > 0 \<Longrightarrow> length (tracks p) \<le> nat (max_tracks p)"
  shows "\<exists>q. push_tracks p vs = Inr q \<and> max_tracks q = max_tracks p
     \<and> tracks q = (if max_tracks p > 0
                   then lastn (nat (max_tracks p)) (tracks p @ map fill_track vs)
                   else tracks p @ map fill_track vs)"
  using assms
proof (induction vs arbitrary: p)
  case Nil
  then show ?case by (simp add: lastn_all)
next
  case (Cons v vs)
  obtain q where q: "playlist_push_track p v = Inr q" "max_tracks q = max_tracks p"
    "tracks q = (if max_tracks p > 0 then lastn (nat (max_tracks p)) (tracks p @ [fill_track v])
                 else tracks p @ [fill_track v])"
    by (simp add: push_track_value)
  then have "max_tracks q > 0 \<Longrightarrow> length (tracks q) \<le> nat (max_tracks q)"
    by (simp add: lastn_def)
  from Cons.IH [OF this] q show ?case
    using lastn_append [of "nat (max_tracks p)" "tracks p @ [fill_track v]" "map fill_track vs"]
    by auto
qed

theorem playlist_keeps_newest_witness:
  "\<exists>q. push_tracks (playlist_new 2) [None, None, None] = Inr q \<and> length (tracks q) = 2"
  using playlist_keeps_newest [of "playlist_new 2" "[None, None, None]"]
  by (auto simp: playlist_new_def lastn_def)

end
