(* ===== verification/Events.thy ===== *)
theory Events
  imports Cfgfile Admin_Commands
begin

text \<open>
  Events (\<^verbatim>\<open>src/src/event.c\<close>): the queue of pending events, bounded by 128; the registration lists
  an event refers to, at most eight; the thread that takes the oldest event and tries every
  registration of its lists; and the event a client causes. The queue is a bounded \<open>fifo\<close>. Every
  event that is accepted reaches, in order, exactly the back ends registered for its trigger.

  Objects are values here, so the two reference counters of the code are not counted; a
  registration list is the chain of its entries, found by its address in \<open>regs\<close>. \<open>emit\<close> stands for the
  back ends' callbacks: what a run of the thread does is the list of the calls it makes.
\<close>

section \<open>Definitions\<close>

record registration =
  reg_trigger :: string
  has_emit :: bool
  reg_state :: nat

record event =
  trigger :: string
  reglist :: "nat list"
  event_uri :: "string option"
  connection_id :: nat
  connection_ip :: "string option"
  connection_time :: int
  client_role :: "string option"
  client_username :: "string option"
  client_useragent :: "string option"
  client_admin_command :: int

abbreviation (input) MAX_REGLISTS_PER_EVENT :: nat where "MAX_REGLISTS_PER_EVENT \<equiv> 8"
abbreviation (input) EVENT_QUEUE_LIMIT :: nat where "EVENT_QUEUE_LIMIT \<equiv> 128"

definition event_new :: "string option \<Rightarrow> event option" where
  "event_new trig =
     (case trig of
        None \<Rightarrow> None
      | Some t \<Rightarrow>
          Some \<lparr>trigger = t, reglist = [], event_uri = None, connection_id = 0, connection_ip = None,
            connection_time = 0, client_role = None, client_username = None, client_useragent = None,
            client_admin_command = ADMIN_COMMAND_ERROR\<rparr>)"

text \<open>
  The walk to the end of the queue. \<open>i\<close> counts the elements passed; at the limit the event is
  dropped.
\<close>

fun event_push_loop :: "nat \<Rightarrow> event \<Rightarrow> event list \<Rightarrow> event list" where
  "event_push_loop i e [] = (if i = EVENT_QUEUE_LIMIT then [] else [e])"
| "event_push_loop i e (q # qs) =
     (if i < EVENT_QUEUE_LIMIT then q # event_push_loop (i + 1) e qs else q # qs)"

definition event_push :: "event \<Rightarrow> event list \<Rightarrow> event list" where
  "event_push e queue = event_push_loop 0 e queue"

text \<open>The first free slot of the event; a NULL list is ignored, and so is one too many.\<close>

definition event_push_reglist :: "nat option \<Rightarrow> event \<Rightarrow> event" where
  "event_push_reglist r e =
     (case r of
        None \<Rightarrow> e
      | Some r \<Rightarrow>
          if length (reglist e) < MAX_REGLISTS_PER_EVENT then e\<lparr>reglist := reglist e @ [r]\<rparr> else e)"

text \<open>The calls of a registration: its state and the event it is given.\<close>

definition try_event :: "registration \<Rightarrow> event \<Rightarrow> (nat \<times> event) list" where
  "try_event er e =
     (if reg_trigger er \<noteq> trigger e then [] else if has_emit er then [(reg_state er, e)] else [])"

fun try_registrations :: "registration list \<Rightarrow> event \<Rightarrow> (nat \<times> event) list" where
  "try_registrations [] e = []"
| "try_registrations (er # ers) e = try_event er e @ try_registrations ers e"

definition event_pop :: "event list \<Rightarrow> (event \<times> event list) option" where
  "event_pop queue = (case queue of [] \<Rightarrow> None | e # q \<Rightarrow> Some (e, q))"

text \<open>One round of the thread: nothing to do, or the calls for the oldest event.\<close>

definition event_run_round ::
    "(nat \<Rightarrow> registration list) \<Rightarrow> event list \<Rightarrow> (nat \<times> event) list \<times> event list" where
  "event_run_round regs queue =
     (case event_pop queue of
        None \<Rightarrow> ([], queue)
      | Some (e, q) \<Rightarrow> (concat (map (\<lambda>r. try_registrations (regs r) e) (reglist e)), q))"

text \<open>Appending a registration to the end of a list; the head may be NULL.\<close>

definition event_registration_push :: "registration list \<Rightarrow> registration option \<Rightarrow> registration list" where
  "event_registration_push er tl_reg = (case tl_reg of None \<Rightarrow> er | Some r \<Rightarrow> er @ [r])"

definition event_emit :: "event \<Rightarrow> event list \<Rightarrow> event list" where
  "event_emit e queue = event_push e queue"

text \<open>What the function reads of the client.\<close>

record event_client =
  con_id :: nat
  con_ip :: string
  con_time :: int
  cl_role :: "string option"
  cl_username :: "string option"
  cl_user_agent :: "string option"
  cl_admin_command :: int

definition fill_event :: "event_client option \<Rightarrow> string option \<Rightarrow> event \<Rightarrow> event" where
  "fill_event client uri e =
     (let e = (case client of
                 None \<Rightarrow> e
               | Some c \<Rightarrow>
                   e\<lparr>connection_id := con_id c, connection_time := con_time c,
                     client_admin_command := cl_admin_command c, connection_ip := Some (con_ip c),
                     client_role := cl_role c, client_username := cl_username c,
                     client_useragent := cl_user_agent c\<rparr>)
      in case uri of None \<Rightarrow> e | Some u \<Rightarrow> e\<lparr>event_uri := Some u\<rparr>)"

definition push_mount_reglist :: "mount_type \<Rightarrow> mount_proxy option \<Rightarrow> event \<Rightarrow> event" where
  "push_mount_reglist ty mount e =
     (case mount of
        None \<Rightarrow> e
      | Some m \<Rightarrow> if mounttype m = ty then event_push_reglist (mount_event m) e else e)"

definition event_emit_clientevent ::
    "(string \<Rightarrow> string \<Rightarrow> bool) \<Rightarrow> nat option \<Rightarrow> mount_proxy list \<Rightarrow> string option
     \<Rightarrow> event_client option \<Rightarrow> string option \<Rightarrow> event list \<Rightarrow> event list" where
  "event_emit_clientevent fnm config_event mounts trig client uri queue =
     (case event_new trig of
        None \<Rightarrow> queue
      | Some e \<Rightarrow>
          (let e = event_push_reglist config_event e;
               e = push_mount_reglist MOUNT_TYPE_NORMAL
                     (config_find_mount fnm mounts uri MOUNT_TYPE_NORMAL) e;
               e = push_mount_reglist MOUNT_TYPE_DEFAULT
                     (config_find_mount fnm mounts uri MOUNT_TYPE_DEFAULT) e
           in if reglist e = [] then queue else event_emit (fill_event client uri e) queue))"

section \<open>The queue\<close>

lemma event_push_loop_value:
  "i \<le> 128 \<Longrightarrow> event_push_loop i e q = (if i + length q < 128 then q @ [e] else q)"
  by (induction i e q rule: event_push_loop.induct) auto

lemma event_push_value: "event_push e q = (if length q < 128 then q @ [e] else q)"
  by (simp add: event_push_def event_push_loop_value)

interpretation evq: fifo "\<lambda>q. q" event_push event_pop "\<lambda>q. length q < 128"
  by unfold_locales (auto simp: event_push_value event_pop_def split: list.splits)

text \<open>Running the thread for a number of rounds.\<close>

fun run_rounds :: "(nat \<Rightarrow> registration list) \<Rightarrow> nat \<Rightarrow> event list \<Rightarrow> (nat \<times> event) list \<times> event list" where
  "run_rounds regs 0 q = ([], q)"
| "run_rounds regs (Suc n) q =
     (let (out, q) = event_run_round regs q; (outs, q) = run_rounds regs n q in (out @ outs, q))"

text \<open>The calls an event must cause: every matching registration of its lists, in list order.\<close>

definition calls :: "(nat \<Rightarrow> registration list) \<Rightarrow> event \<Rightarrow> (nat \<times> event) list" where
  "calls regs e = [(reg_state r, e). l \<leftarrow> reglist e, r \<leftarrow> regs l, reg_trigger r = trigger e \<and> has_emit r]"

lemma try_registrations_value:
  "try_registrations ers e = [(reg_state r, e). r \<leftarrow> ers, reg_trigger r = trigger e \<and> has_emit r]"
  by (induction ers) (auto simp: try_event_def)

lemma event_run_round_Cons: "event_run_round regs (e # q) = (calls regs e, q)"
  by (simp add: event_run_round_def event_pop_def try_registrations_value calls_def)

lemma run_rounds_all:
  "run_rounds regs (length q) q = (concat (map (calls regs) q), [])"
  by (induction q) (auto simp: event_run_round_Cons)

text \<open>
  C40: emitting events and running the thread until the queue is empty delivers every accepted event,
  oldest first, to exactly the registrations of its lists whose trigger is the event's and that have a
  back end; the queue never grows past 128 and an event that finds it full is dropped.
\<close>

theorem events_delivered_in_order:
  "(let q = fold event_emit es [] in
      q = take 128 es \<and> run_rounds regs (length q) q = (concat (map (calls regs) (take 128 es)), []))"
proof -
  have "fold event_emit es q = q @ take (128 - length q) es" if "length q \<le> 128" for q
    using that
  proof (induction es arbitrary: q)
    case (Cons e es)
    show ?case
    proof (cases "length q < 128")
      case True
      with Cons show ?thesis
        by (simp add: event_emit_def event_push_value take_Cons' Suc_diff_Suc)
    next
      case False
      with Cons show ?thesis by (simp add: event_emit_def event_push_value)
    qed
  qed simp
  from this [of "[]"] show ?thesis by (simp add: run_rounds_all Let_def)
qed

section \<open>Client events\<close>

lemma event_push_reglist_fields [simp]:
  "trigger (event_push_reglist r e) = trigger e"
  by (simp add: event_push_reglist_def split: option.splits)

lemma push_mount_reglist_fields [simp]:
  "trigger (push_mount_reglist ty m e) = trigger e"
  by (simp add: push_mount_reglist_def split: option.splits)

lemma fill_event_fields [simp]:
  "trigger (fill_event c u e) = trigger e" "reglist (fill_event c u e) = reglist e"
  by (simp_all add: fill_event_def Let_def split: option.splits)

definition mount_list :: "mount_type \<Rightarrow> mount_proxy option \<Rightarrow> nat list" where
  "mount_list ty m = (case m of
     None \<Rightarrow> [] | Some m \<Rightarrow> if mounttype m = ty then (case mount_event m of None \<Rightarrow> [] | Some r \<Rightarrow> [r]) else [])"

lemma push_mount_reglist_value:
  "length (reglist e) < 8 \<Longrightarrow> reglist (push_mount_reglist ty m e) = reglist e @ mount_list ty m"
  by (simp add: push_mount_reglist_def mount_list_def event_push_reglist_def split: option.splits)

text \<open>The registration lists a client event must carry.\<close>

definition event_lists ::
    "(string \<Rightarrow> string \<Rightarrow> bool) \<Rightarrow> nat option \<Rightarrow> mount_proxy list \<Rightarrow> string option \<Rightarrow> nat list" where
  "event_lists fnm config_event mounts uri =
     (case config_event of None \<Rightarrow> [] | Some r \<Rightarrow> [r])
     @ mount_list MOUNT_TYPE_NORMAL (config_find_mount fnm mounts uri MOUNT_TYPE_NORMAL)
     @ mount_list MOUNT_TYPE_DEFAULT (config_find_mount fnm mounts uri MOUNT_TYPE_DEFAULT)"

lemma length_mount_list: "length (mount_list ty m) \<le> 1"
  by (simp add: mount_list_def split: option.splits)

lemma emit_clientevent_value:
  "\<exists>e. event_emit_clientevent fnm config_event mounts (Some t) client uri queue
      = (if event_lists fnm config_event mounts uri = [] then queue
         else event_emit (fill_event client uri e) queue)
     \<and> trigger e = t \<and> reglist e = event_lists fnm config_event mounts uri \<and> event_uri e = None"
proof -
  obtain e0 where e0: "event_new (Some t) = Some e0" "trigger e0 = t" "reglist e0 = []" "event_uri e0 = None"
    by (simp add: event_new_def)
  define e1 where "e1 = event_push_reglist config_event e0"
  define e2 where "e2 = push_mount_reglist MOUNT_TYPE_NORMAL
      (config_find_mount fnm mounts uri MOUNT_TYPE_NORMAL) e1"
  define e3 where "e3 = push_mount_reglist MOUNT_TYPE_DEFAULT
      (config_find_mount fnm mounts uri MOUNT_TYPE_DEFAULT) e2"
  have l1: "reglist e1 = (case config_event of None \<Rightarrow> [] | Some r \<Rightarrow> [r])"
    by (simp add: e1_def event_push_reglist_def e0 split: option.splits)
  then have n1: "length (reglist e1) \<le> 1" by (simp split: option.splits)
  then have l2: "reglist e2 = reglist e1 @ mount_list MOUNT_TYPE_NORMAL
      (config_find_mount fnm mounts uri MOUNT_TYPE_NORMAL)"
    unfolding e2_def by (intro push_mount_reglist_value) simp
  have "length (reglist e2) < 8"
    using n1 length_mount_list [of MOUNT_TYPE_NORMAL "config_find_mount fnm mounts uri MOUNT_TYPE_NORMAL"]
    unfolding l2 length_append by linarith
  then have l3: "reglist e3 = event_lists fnm config_event mounts uri"
    unfolding e3_def event_lists_def by (simp add: push_mount_reglist_value l2 l1)
  have "trigger e3 = t" by (simp add: e3_def e2_def e1_def e0)
  moreover have "event_uri e3 = None"
    by (simp add: e3_def e2_def e1_def e0 push_mount_reglist_def event_push_reglist_def split: option.splits)
  moreover have "event_emit_clientevent fnm config_event mounts (Some t) client uri queue
      = (if event_lists fnm config_event mounts uri = [] then queue
         else event_emit (fill_event client uri e3) queue)"
    by (simp add: event_emit_clientevent_def e0 Let_def e1_def [symmetric] e2_def [symmetric]
        e3_def [symmetric] l3)
  ultimately show ?thesis using l3 by blast
qed

text \<open>
  a client event is queued with the registration lists of the configuration, of the mount with
  the exact name, and of the first matching default mount, in this order; without any list it is
  dropped. It carries the address, user and request of its client.
\<close>

theorem client_event_lists:
  assumes "length queue < 128" and "event_lists fnm config_event mounts uri \<noteq> []"
  shows "\<exists>e. event_emit_clientevent fnm config_event mounts (Some t) (Some c) uri queue = queue @ [e]
     \<and> trigger e = t \<and> reglist e = event_lists fnm config_event mounts uri
     \<and> connection_ip e = Some (con_ip c) \<and> client_username e = cl_username c \<and> event_uri e = uri"
proof -
  obtain e where "event_emit_clientevent fnm config_event mounts (Some t) (Some c) uri queue
      = event_emit (fill_event (Some c) uri e) queue"
    "trigger e = t" "reglist e = event_lists fnm config_event mounts uri" "event_uri e = None"
    using emit_clientevent_value [of fnm config_event mounts t "Some c" uri queue] assms(2) by auto
  with assms(1) show ?thesis
    by (auto simp: event_emit_def event_push_value fill_event_def Let_def split: option.splits)
qed

theorem client_event_lists_witness:
  "\<exists>e. event_emit_clientevent (=) (Some 7) [] (Some ''source-connect'')
     (Some \<lparr>con_id = 1, con_ip = ''10.0.0.1'', con_time = 0, cl_role = None, cl_username = None,
            cl_user_agent = None, cl_admin_command = -1\<rparr>) (Some ''/a'') [] = [e] \<and> reglist e = [7]"
proof -
  have "event_lists (=) (Some 7) [] (Some ''/a'') = [7]"
    by (simp add: event_lists_def mount_list_def config_find_mount_def find_default_def)
  then show ?thesis
    using client_event_lists [of "[]" "(=)" "Some 7" "[]" "Some ''/a''" "''source-connect''"
      "\<lparr>con_id = 1, con_ip = ''10.0.0.1'', con_time = 0, cl_role = None, cl_username = None,
            cl_user_agent = None, cl_admin_command = -1\<rparr>"] by auto
qed

end
