(* ===== verification/Refbuf.thy ===== *)
theory Refbuf
  imports Interfaces
begin

text \<open>
  Reference counted buffers (\<^verbatim>\<open>src/src/refbuf.c\<close>) in an explicit heap: an address is allocated
  exactly if the heap is defined there, and using a freed buffer is a fault. A buffer may hold a
  chain of associated buffers, which it releases when it dies; the two functions that do so call
  each other, so they carry fuel. Releasing a buffer frees it at its last reference only, and the
  associated chain loses exactly one reference each.
\<close>

type_synonym addr = nat

record refbuf =
  rb_len :: u32
  rb_count :: nat
  rb_data :: "byte list"
  associated :: "addr option"
  nxt :: "addr option"
  sync_point :: bool

type_synonym heap = "addr \<Rightarrow> refbuf option"

text \<open>\<open>a\<close> is the address \<^verbatim>\<open>malloc\<close> returns.\<close>

definition refbuf_new :: "addr \<Rightarrow> u32 \<Rightarrow> heap \<Rightarrow> heap" where
  "refbuf_new a sz h = h(a \<mapsto> \<lparr>rb_len = sz, rb_count = 1, rb_data = replicate (unat sz) 0,
     associated = None, nxt = None, sync_point = False\<rparr>)"

definition refbuf_addref :: "addr \<Rightarrow> heap \<Rightarrow> heap run" where
  "refbuf_addref a h =
     (case h a of
        None \<Rightarrow> failed Use_after_free
      | Some r \<Rightarrow> ok (h(a \<mapsto> r\<lparr>rb_count := rb_count r + 1\<rparr>)))"

text \<open>The decrement of an unsigned counter.\<close>

definition dec_count :: "nat \<Rightarrow> nat" where
  "dec_count c = (if c = 0 then 2 ^ 32 - 1 else c - 1)"

fun refbuf_release :: "nat \<Rightarrow> addr option \<Rightarrow> heap \<Rightarrow> heap run"
  and refbuf_release_associated :: "nat \<Rightarrow> addr option \<Rightarrow> heap \<Rightarrow> heap run" where
  "refbuf_release 0 self h = None"
| "refbuf_release (Suc n) self h =
     (case self of
        None \<Rightarrow> ok h
      | Some a \<Rightarrow>
          (case h a of
             None \<Rightarrow> failed Use_after_free
           | Some r \<Rightarrow>
               (let r = r\<lparr>rb_count := dec_count (rb_count r)\<rparr>; h = h(a \<mapsto> r)
                in if rb_count r = 0
                   then seq (refbuf_release_associated n (associated r) h) (\<lambda>h. ok (h(a := None)))
                   else ok h)))"
| "refbuf_release_associated 0 ref h = None"
| "refbuf_release_associated (Suc n) ref h =
     (case ref of
        None \<Rightarrow> ok h
      | Some a \<Rightarrow>
          (case h a of
             None \<Rightarrow> failed Use_after_free
           | Some r \<Rightarrow>
               (let ref = nxt r;
                    h = (if rb_count r = 1 then h(a \<mapsto> r\<lparr>nxt := None\<rparr>) else h)
                in seq (refbuf_release n (Some a) h) (refbuf_release_associated n ref))))"

section \<open>Chains\<close>

text \<open>The buffers reached from a pointer along \<^verbatim>\<open>next\<close>, up to NULL.\<close>

fun chain :: "heap \<Rightarrow> addr option \<Rightarrow> addr list \<Rightarrow> bool" where
  "chain h p [] \<longleftrightarrow> p = None"
| "chain h p (a # as) \<longleftrightarrow> p = Some a \<and> (\<exists>r. h a = Some r \<and> chain h (nxt r) as)"

lemma chain_cong: "(\<And>a. a \<in> set as \<Longrightarrow> map_option nxt (h a) = map_option nxt (h' a)) \<Longrightarrow> chain h p as = chain h' p as"
proof (induction as arbitrary: p)
  case (Cons a as)
  have "map_option nxt (h a) = map_option nxt (h' a)" by (rule Cons.prems) simp
  moreover have "chain h q as = chain h' q as" for q by (rule Cons.IH) (auto intro: Cons.prems)
  ultimately show ?case by (auto simp: option.map_comp split: option.splits) (metis option.map_sel option.sel option.simps(9) map_option_eq_Some)+
qed simp

lemma chain_allocated: "chain h p as \<Longrightarrow> a \<in> set as \<Longrightarrow> h a \<noteq> None"
  by (induction as arbitrary: p) auto

lemma chain_unique: "chain h p as \<Longrightarrow> chain h p bs \<Longrightarrow> as = bs"
proof (induction as arbitrary: p bs)
  case Nil
  then show ?case by (cases bs) auto
next
  case (Cons a as)
  then show ?case by (cases bs) auto
qed

section \<open>Releasing\<close>

lemma release_more:
  "h a = Some r \<Longrightarrow> 1 < rb_count r \<Longrightarrow>
     refbuf_release (Suc n) (Some a) h = ok (h(a \<mapsto> r\<lparr>rb_count := rb_count r - 1\<rparr>))"
  by (simp add: dec_count_def Let_def)

lemma release_last:
  "h a = Some r \<Longrightarrow> rb_count r = 1 \<Longrightarrow> associated r = None \<Longrightarrow>
     refbuf_release (Suc (Suc n)) (Some a) h = ok (h(a := None))"
  by (simp add: dec_count_def Let_def)

text \<open>What happens to one buffer of the chain: its last reference frees it, another one is dropped.\<close>

definition drop_ref :: "refbuf option \<Rightarrow> refbuf option" where
  "drop_ref x = (case x of
     None \<Rightarrow> None | Some r \<Rightarrow> if rb_count r = 1 then None else Some (r\<lparr>rb_count := rb_count r - 1\<rparr>))"

lemma release_associated_chain:
  "chain h p as \<Longrightarrow> distinct as \<Longrightarrow> \<forall>a\<in>set as. \<forall>r. h a = Some r \<longrightarrow> 0 < rb_count r \<and> associated r = None \<Longrightarrow>
   length as + 2 \<le> n \<Longrightarrow>
     refbuf_release_associated n p h = ok (\<lambda>a. if a \<in> set as then drop_ref (h a) else h a)"
proof (induction as arbitrary: p h n)
  case Nil
  then obtain m where "n = Suc m" by (cases n) auto
  with Nil show ?case by simp
next
  case (Cons a as)
  then obtain r where r: "p = Some a" "h a = Some r" "chain h (nxt r) as" by auto
  from Cons.prems(4) obtain m where m: "n = Suc (Suc (Suc m))" "length as \<le> m"
    by (metis Suc_le_D add_2_eq_Suc' length_Cons Suc_le_mono add_Suc)
  define h1 where "h1 = (if rb_count r = 1 then h(a \<mapsto> r\<lparr>nxt := None\<rparr>) else h)"
  define h2 where "h2 = (if rb_count r = 1 then h(a := None) else h(a \<mapsto> r\<lparr>rb_count := rb_count r - 1\<rparr>))"
  have "refbuf_release (Suc (Suc m)) (Some a) h1 = ok h2"
    using r(2) Cons.prems(3) release_more [of h a r "Suc m"]
      release_last [of "h(a \<mapsto> r\<lparr>nxt := None\<rparr>)" a "r\<lparr>nxt := None\<rparr>" m]
    by (auto simp: h1_def h2_def nat_neq_iff simp del: refbuf_release.simps)
  then have "refbuf_release_associated n p h = refbuf_release_associated (Suc (Suc m)) (nxt r) h2"
    by (simp add: m(1) r h1_def [symmetric] Let_def del: refbuf_release.simps refbuf_release_associated.simps(2))
      (simp only: refbuf_release_associated.simps(2) [of "Suc (Suc m)"] r option.case Let_def h1_def [symmetric] seq_simps)
  also have "\<dots> = ok (\<lambda>b. if b \<in> set as then drop_ref (h2 b) else h2 b)"
  proof (rule Cons.IH)
    have "h2 b = h b" if "b \<in> set as" for b using that Cons.prems(2) by (auto simp: h2_def)
    then show "chain h2 (nxt r) as" "\<forall>b\<in>set as. \<forall>r. h2 b = Some r \<longrightarrow> 0 < rb_count r \<and> associated r = None"
      using r(3) Cons.prems(3) chain_cong [of as h2 h "nxt r"] by auto
  qed (use Cons.prems(2) m in auto)
  also have "(\<lambda>b. if b \<in> set as then drop_ref (h2 b) else h2 b)
      = (\<lambda>b. if b \<in> set (a # as) then drop_ref (h b) else h b)"
    using Cons.prems(2) r(2) by (auto simp: h2_def drop_ref_def fun_eq_iff)
  finally show ?case .
qed

text \<open>
  releasing the last reference of a buffer frees the buffer and takes one reference from every
  buffer of its associated chain, freeing those that had no other; an earlier release only counts
  down; nothing else in the heap changes, and no freed buffer is touched. The fuel needed is the
  length of the chain plus three.
\<close>

theorem refbuf_release_effect:
  assumes "h a = Some r" and "0 < rb_count r" and "chain h (associated r) as" and "distinct (a # as)"
    and "\<forall>b\<in>set as. \<forall>q. h b = Some q \<longrightarrow> 0 < rb_count q \<and> associated q = None"
    and "length as + 3 \<le> n"
  shows "refbuf_release n (Some a) h =
     ok (if rb_count r = 1
         then (\<lambda>b. if b = a then None else if b \<in> set as then drop_ref (h b) else h b)
         else h(a \<mapsto> r\<lparr>rb_count := rb_count r - 1\<rparr>))"
proof -
  obtain m where m: "n = Suc m" "length as + 2 \<le> m" using assms(6) by (cases n) auto
  show ?thesis
  proof (cases "rb_count r = 1")
    case False
    with assms(1, 2) show ?thesis using release_more [of h a r m] by (simp add: m(1) del: refbuf_release.simps)
  next
    case True
    let ?h = "h(a \<mapsto> r\<lparr>rb_count := 0\<rparr>)"
    have same: "?h b = h b" if "b \<in> set as" for b using that assms(4) by auto
    then have c: "chain ?h (associated r) as"
      using assms(3) chain_cong [of as ?h h "associated r"] by simp
    have "refbuf_release_associated m (associated r) ?h
        = ok (\<lambda>b. if b \<in> set as then drop_ref (?h b) else ?h b)"
      using assms(4, 5) same m(2) by (intro release_associated_chain c) auto
    moreover have "(\<lambda>b. if b \<in> set as then drop_ref (?h b) else ?h b)(a := None)
        = (\<lambda>b. if b = a then None else if b \<in> set as then drop_ref (h b) else h b)"
      using same by (auto simp: fun_eq_iff)
    ultimately show ?thesis
      using True assms(1) by (simp add: m(1) dec_count_def Let_def)
  qed
qed

theorem refbuf_release_effect_witness:
  "refbuf_release 4 (Some 1)
     ((refbuf_new 2 10 Map.empty)(1 \<mapsto> \<lparr>rb_len = 3, rb_count = 1, rb_data = [], associated = Some 2,
        nxt = None, sync_point = True\<rparr>)) = ok Map.empty"
proof -
  let ?h = "(refbuf_new 2 10 Map.empty)(1 \<mapsto> \<lparr>rb_len = 3, rb_count = 1, rb_data = [], associated = Some 2,
        nxt = None, sync_point = True\<rparr>)"
  have "refbuf_release 4 (Some 1) ?h
      = ok (\<lambda>b. if b = 1 then None else if b \<in> set [2] then drop_ref (?h b) else ?h b)"
    by (subst refbuf_release_effect [of ?h 1 _ "[2]" 4]) (auto simp: refbuf_new_def)
  then show ?thesis by (simp add: refbuf_new_def drop_ref_def fun_eq_iff)
qed

end
