(* ===== verification/Stream_Queue.thy ===== *)
theory Stream_Queue
  imports Refbuf
begin

text \<open>
  The stream queue of a source and the listeners that read it (\<^verbatim>\<open>src/src/source.c\<close>
  \<^verbatim>\<open>source_main\<close>, \<^verbatim>\<open>src/src/format.c\<close>, \<^verbatim>\<open>src/src/client.c\<close>): buffers are appended at the tail,
  the burst point moves forward, listeners hold a reference to the buffer they send and follow
  \<^verbatim>\<open>next\<close>, and the head is released when nobody needs it. The invariant accounts for every
  reference; from it, no operation touches a freed buffer, the branch for an unexpected queue
  state is dead, and the sizes the source keeps are the sizes of its lists.

  A listener is a number with the address of its buffer and its position in it. The buffers a
  format delivers carry no associated chain here. The loops along the queue carry fuel; the length of
  the queue is enough.
\<close>

section \<open>Definitions\<close>

text \<open>The callback that looks after the buffer of a listener.\<close>

datatype check_buffer = Format_check_http_buffer | Format_check_file_buffer | Format_advance_queue

record listener =
  cl_check :: check_buffer
  cl_refbuf :: "addr option"
  cl_pos :: u32
  intro_offset :: int

record stream =
  mem :: heap
  stream_data :: "addr option"
  stream_data_tail :: "addr option"
  burst_point :: "addr option"
  queue_size :: u32
  queue_size_limit :: u32
  burst_size :: u32
  burst_offset :: u32
  running :: bool
  listeners_of :: "nat \<Rightarrow> listener option"

text \<open>Reading a buffer, and the fault of reading through a NULL or freed pointer.\<close>

definition deref :: "stream \<Rightarrow> addr option \<Rightarrow> refbuf run" where
  "deref s p =
     (case p of
        None \<Rightarrow> failed Null_deref
      | Some a \<Rightarrow> (case mem s a of None \<Rightarrow> failed Use_after_free | Some r \<Rightarrow> ok r))"

definition in_mem :: "stream \<Rightarrow> (heap \<Rightarrow> heap run) \<Rightarrow> stream run" where
  "in_mem s f = seq (f (mem s)) (\<lambda>h. ok (s\<lparr>mem := h\<rparr>))"

text \<open>The fuel of a release: buffers without associated chain need two.\<close>

definition release :: "addr option \<Rightarrow> stream \<Rightarrow> stream run" where
  "release p s = in_mem s (refbuf_release 2 p)"

fun burst_loop :: "nat \<Rightarrow> stream \<Rightarrow> stream run" where
  "burst_loop 0 s = None"
| "burst_loop (Suc n) s =
     (if burst_offset s > burst_size s then
        seq (deref s (burst_point s)) (\<lambda>to_release.
          case nxt to_release of
            None \<Rightarrow> ok s
          | Some a \<Rightarrow>
              seq (release (burst_point s)
                     (s\<lparr>burst_point := Some a, burst_offset := burst_offset s - rb_len to_release\<rparr>))
                (burst_loop n))
      else ok s)"

text \<open>The part of the main loop that takes the new buffer at address \<open>a\<close> into the queue.\<close>

definition source_append :: "nat \<Rightarrow> addr \<Rightarrow> stream \<Rightarrow> stream run" where
  "source_append n a s =
     (let s = (if stream_data s = None then s\<lparr>stream_data := Some a, burst_point := Some a\<rparr> else s)
      in seq (case stream_data_tail s of
                None \<Rightarrow> ok s
              | Some t \<Rightarrow>
                  seq (deref s (Some t)) (\<lambda>r. ok (s\<lparr>mem := (mem s)(t \<mapsto> r\<lparr>nxt := Some a\<rparr>)\<rparr>)))
          (\<lambda>s. let s = s\<lparr>stream_data_tail := Some a\<rparr>
               in seq (deref s (Some a)) (\<lambda>r.
                    seq (in_mem (s\<lparr>queue_size := queue_size s + rb_len r\<rparr>) (refbuf_addref a)) (\<lambda>s.
                      burst_loop n (s\<lparr>burst_offset := burst_offset s + rb_len r\<rparr>)))))"

definition queue_full :: "stream \<Rightarrow> bool" where
  "queue_full s \<longleftrightarrow> queue_size s > queue_size_limit s"

text \<open>The part of the main loop that reduces the queue.\<close>

fun reduce_loop :: "nat \<Rightarrow> stream \<Rightarrow> stream run" where
  "reduce_loop 0 s = None"
| "reduce_loop (Suc n) s =
     seq (deref s (stream_data s)) (\<lambda>to_go.
       if rb_count to_go = 1 then
         (if nxt to_go = None \<or> burst_point s = stream_data s
          then ok (s\<lparr>running := False\<rparr>)
          else seq (release (stream_data s)
                 (s\<lparr>stream_data := nxt to_go, queue_size := queue_size s - rb_len to_go,
                    mem := (mem s)(the (stream_data s) \<mapsto> to_go\<lparr>nxt := None\<rparr>)\<rparr>))
               (reduce_loop n))
       else ok s)"

definition source_reduce :: "nat \<Rightarrow> stream \<Rightarrow> stream run" where
  "source_reduce n s = (if stream_data s = None then ok s else reduce_loop n s)"

section \<open>Listeners\<close>

definition client_set_queue :: "nat \<Rightarrow> addr option \<Rightarrow> stream \<Rightarrow> stream run" where
  "client_set_queue c p s =
     (case listeners_of s c of
        None \<Rightarrow> failed Use_after_free
      | Some l \<Rightarrow>
          (let s' = s\<lparr>listeners_of := (listeners_of s)(c \<mapsto> l\<lparr>cl_refbuf := p, cl_pos := 0\<rparr>)\<rparr>
           in seq (case p of None \<Rightarrow> ok s' | Some a \<Rightarrow> in_mem s' (refbuf_addref a))
                (\<lambda>s. if cl_refbuf l = None then ok s else release (cl_refbuf l) s)))"

text \<open>The result tells whether there is something to write: -1 if not.\<close>

definition format_advance_queue :: "nat \<Rightarrow> stream \<Rightarrow> (int \<times> stream) run" where
  "format_advance_queue c s =
     (case listeners_of s c of
        None \<Rightarrow> failed Use_after_free
      | Some l \<Rightarrow>
          (case cl_refbuf l of
             None \<Rightarrow> ok (-1, s)
           | Some a \<Rightarrow>
               seq (deref s (Some a)) (\<lambda>r.
                 if nxt r = None \<and> cl_pos l = rb_len r then ok (-1, s)
                 else if nxt r \<noteq> None \<and> cl_pos l = rb_len r
                 then seq (client_set_queue c (nxt r) s) (\<lambda>s. ok (0, s))
                 else ok (0, s))))"

text \<open>The walk over the intro: the size left is an unsigned 64-bit number that may wrap.\<close>

fun skip_intro :: "nat \<Rightarrow> u64 \<Rightarrow> addr option \<Rightarrow> stream \<Rightarrow> addr option run" where
  "skip_intro 0 left p s = None"
| "skip_intro (Suc n) left p s =
     (case p of
        None \<Rightarrow> ok None
      | Some a \<Rightarrow>
          if left = 0 then ok (Some a)
          else seq (deref s (Some a)) (\<lambda>r.
                 case nxt r of
                   None \<Rightarrow> ok (Some a)
                 | Some b \<Rightarrow> skip_intro n (left - ucast (rb_len r)) (Some b) s))"

text \<open>The first buffer from here on that a listener can start with.\<close>

fun find_sync :: "nat \<Rightarrow> addr option \<Rightarrow> stream \<Rightarrow> addr option run" where
  "find_sync 0 p s = None"
| "find_sync (Suc n) p s =
     (case p of
        None \<Rightarrow> ok None
      | Some a \<Rightarrow>
          seq (deref s (Some a)) (\<lambda>r. if sync_point r then ok (Some a) else find_sync n (nxt r) s))"

definition tail_is_sync :: "stream \<Rightarrow> bool run" where
  "tail_is_sync s =
     (case stream_data_tail s of
        None \<Rightarrow> ok False
      | Some t \<Rightarrow> seq (deref s (Some t)) (\<lambda>r. ok (sync_point r)))"

definition find_client_start :: "nat \<Rightarrow> nat \<Rightarrow> stream \<Rightarrow> stream run" where
  "find_client_start n c s =
     (case listeners_of s c of
        None \<Rightarrow> failed Use_after_free
      | Some l \<Rightarrow>
          seq (if intro_offset l = -1 then tail_is_sync s else ok False) (\<lambda>ts.
            seq (if ts then ok (stream_data_tail s)
                 else skip_intro n (word_of_int (intro_offset l)) (burst_point s) s) (\<lambda>p.
              seq (find_sync n p s) (\<lambda>q.
                case q of
                  None \<Rightarrow> ok s
                | Some a \<Rightarrow>
                    seq (client_set_queue c (Some a) s) (\<lambda>s.
                      ok (s\<lparr>listeners_of := (listeners_of s)(c := map_option
                            (\<lambda>l. l\<lparr>cl_check := Format_advance_queue, intro_offset := -1\<rparr>) (listeners_of s c))\<rparr>))))))"

text \<open>A listener that joins has no buffer of the queue; one that leaves drops its reference.\<close>

definition listener_join :: "nat \<Rightarrow> listener \<Rightarrow> stream \<Rightarrow> stream" where
  "listener_join c l s = s\<lparr>listeners_of := (listeners_of s)(c \<mapsto> l\<lparr>cl_refbuf := None\<rparr>)\<rparr>"

definition listener_leave :: "nat \<Rightarrow> stream \<Rightarrow> stream run" where
  "listener_leave c s =
     (case listeners_of s c of
        None \<Rightarrow> failed Use_after_free
      | Some l \<Rightarrow>
          seq (if cl_refbuf l = None then ok s else release (cl_refbuf l) s)
            (\<lambda>s. ok (s\<lparr>listeners_of := (listeners_of s)(c := None)\<rparr>)))"

text \<open>
  A listener writes from its buffer; \<open>client_send_bytes\<close> is the result of the send on what is left of
  the buffer, negative on an error.
\<close>

definition format_generic_write_to_client :: "(u32 \<Rightarrow> int) \<Rightarrow> nat \<Rightarrow> stream \<Rightarrow> (int \<times> stream) run" where
  "format_generic_write_to_client client_send_bytes c s =
     (case listeners_of s c of
        None \<Rightarrow> failed Use_after_free
      | Some l \<Rightarrow>
          seq (deref s (cl_refbuf l)) (\<lambda>r.
            let ret = client_send_bytes (rb_len r - cl_pos l)
            in ok (ret, if ret > 0
                 then s\<lparr>listeners_of := (listeners_of s)(c \<mapsto> l\<lparr>cl_pos := cl_pos l + word_of_int ret\<rparr>)\<rparr>
                 else s)))"

text \<open>The end of a turn of the main loop: who still reads the head of a queue that is too long is removed.\<close>

definition fallen_behind :: "bool \<Rightarrow> stream \<Rightarrow> listener \<Rightarrow> bool" where
  "fallen_behind deletion_expected s l \<longleftrightarrow>
     deletion_expected \<and> cl_refbuf l \<noteq> None \<and> cl_refbuf l = stream_data s"

fun remove_slow :: "bool \<Rightarrow> nat list \<Rightarrow> stream \<Rightarrow> stream run" where
  "remove_slow del [] s = ok s"
| "remove_slow del (c # cs) s =
     (case listeners_of s c of
        None \<Rightarrow> failed Use_after_free
      | Some l \<Rightarrow>
          seq (if fallen_behind del s l then listener_leave c s else ok s) (remove_slow del cs))"

definition source_turn_end :: "nat \<Rightarrow> nat list \<Rightarrow> stream \<Rightarrow> stream run" where
  "source_turn_end n cs s = seq (remove_slow (queue_full s) cs s) (source_reduce n)"

text \<open>When the source ends the listeners are gone and every buffer is released until it is free.\<close>

fun clear_loop :: "nat \<Rightarrow> stream \<Rightarrow> stream run" where
  "clear_loop 0 s = None"
| "clear_loop (Suc n) s =
     (case stream_data s of
        None \<Rightarrow> ok s
      | Some a \<Rightarrow>
          seq (deref s (Some a)) (\<lambda>p.
            seq (((\<lambda>m. seq m (release (Some a))) ^^ (if rb_count p > 1 then rb_count p - 1 else 0))
                  (ok (s\<lparr>stream_data := nxt p, mem := (mem s)(a \<mapsto> p\<lparr>nxt := None\<rparr>)\<rparr>))) (\<lambda>s.
              seq (release (Some a) s) (clear_loop n))))"

definition source_clear_queue :: "nat \<Rightarrow> stream \<Rightarrow> stream run" where
  "source_clear_queue n s =
     seq (clear_loop n s) (\<lambda>s. ok (s\<lparr>stream_data_tail := None, burst_point := None, burst_size := 0,
       burst_offset := 0, queue_size := 0, queue_size_limit := 0\<rparr>))"

section \<open>The invariant\<close>

definition holders :: "stream \<Rightarrow> addr \<Rightarrow> nat set" where
  "holders s a = {c. \<exists>l. listeners_of s c = Some l \<and> cl_refbuf l = Some a}"

definition blen :: "stream \<Rightarrow> addr \<Rightarrow> u32" where
  "blen s a = (case mem s a of None \<Rightarrow> 0 | Some r \<Rightarrow> rb_len r)"

text \<open>
  The queue is the list \<open>as @ bs\<close>, the burst buffers \<open>bs\<close>; every buffer counts one reference for the
  queue, one if it is a burst buffer, and one per listener that holds it. \<open>d\<close> counts the references
  that an operation has taken and not yet placed, or placed and not yet taken; between operations
  it is 0.
\<close>

definition shape :: "addr list \<Rightarrow> addr list \<Rightarrow> stream \<Rightarrow> bool" where
  "shape as bs s \<longleftrightarrow>
     chain (mem s) (stream_data s) (as @ bs) \<and> distinct (as @ bs)
     \<and> stream_data_tail s = (if as @ bs = [] then None else Some (last (as @ bs)))
     \<and> (bs = [] \<longrightarrow> as = [])
     \<and> burst_point s = (if bs = [] then None else Some (hd bs))
     \<and> finite (dom (listeners_of s))
     \<and> (\<forall>c l a. listeners_of s c = Some l \<longrightarrow> cl_refbuf l = Some a \<longrightarrow> a \<in> set (as @ bs))
     \<and> queue_size s = sum_list (map (blen s) (as @ bs))
     \<and> burst_offset s = sum_list (map (blen s) bs)"

definition refs_at :: "(addr \<Rightarrow> int) \<Rightarrow> addr list \<Rightarrow> stream \<Rightarrow> addr \<Rightarrow> int" where
  "refs_at d bs s a = 1 + (if a \<in> set bs then 1 else 0) + int (card (holders s a)) + d a"

definition counted :: "(addr \<Rightarrow> int) \<Rightarrow> addr list \<Rightarrow> addr list \<Rightarrow> stream \<Rightarrow> bool" where
  "counted d as bs s \<longleftrightarrow>
     (\<forall>a\<in>set (as @ bs). \<exists>r. mem s a = Some r \<and> associated r = None
        \<and> int (rb_count r) = refs_at d bs s a)"

definition inv_with :: "(addr \<Rightarrow> int) \<Rightarrow> addr list \<Rightarrow> addr list \<Rightarrow> stream \<Rightarrow> bool" where
  "inv_with d as bs s \<longleftrightarrow> shape as bs s \<and> counted d as bs s"

abbreviation queue_inv :: "addr list \<Rightarrow> addr list \<Rightarrow> stream \<Rightarrow> bool" where
  "queue_inv \<equiv> inv_with (\<lambda>_. 0)"

section \<open>Elementary changes\<close>

lemma blen_count: "mem s a = Some r \<Longrightarrow> blen (s\<lparr>mem := (mem s)(a \<mapsto> r\<lparr>rb_count := k\<rparr>)\<rparr>) = blen s"
  by (auto simp: blen_def fun_eq_iff)

lemma chain_count:
  "h a = Some r \<Longrightarrow> chain (h(a \<mapsto> r\<lparr>rb_count := k\<rparr>)) p xs = chain h p xs"
  by (rule chain_cong) auto

lemma holders_mem [simp]: "holders (s\<lparr>mem := h\<rparr>) = holders s"
  by (simp add: holders_def fun_eq_iff)

lemma holders_queue [simp]:
  "holders (s\<lparr>burst_point := b, burst_offset := o1\<rparr>) = holders s"
  "holders (s\<lparr>stream_data := p, queue_size := q\<rparr>) = holders s"
  by (simp_all add: holders_def fun_eq_iff)

lemma inv_withD:
  assumes "inv_with d as bs s" and "a \<in> set (as @ bs)"
  obtains r where "mem s a = Some r" "associated r = None" "int (rb_count r) = refs_at d bs s a"
  using assms unfolding inv_with_def counted_def by blast

text \<open>Changing the counter of one buffer by \<open>k\<close>.\<close>

lemma shape_count:
  "shape as bs s \<Longrightarrow> mem s a = Some r \<Longrightarrow> shape as bs (s\<lparr>mem := (mem s)(a \<mapsto> r\<lparr>rb_count := c\<rparr>)\<rparr>)"
  by (simp add: shape_def chain_count blen_count)

lemma inv_count:
  assumes "inv_with d as bs s" and "mem s a = Some r" and "int c = int (rb_count r) + k"
  shows "inv_with (d(a := d a + k)) as bs (s\<lparr>mem := (mem s)(a \<mapsto> r\<lparr>rb_count := c\<rparr>)\<rparr>)"
  unfolding inv_with_def
proof
  let ?s = "s\<lparr>mem := (mem s)(a \<mapsto> r\<lparr>rb_count := c\<rparr>)\<rparr>"
  show "shape as bs ?s" using assms(1, 2) by (simp add: inv_with_def shape_count)
  show "counted (d(a := d a + k)) as bs ?s"
    unfolding counted_def
  proof
    fix b
    assume b: "b \<in> set (as @ bs)"
    with assms(1) obtain q where q: "mem s b = Some q" "associated q = None"
      "int (rb_count q) = refs_at d bs s b" by (rule inv_withD)
    with assms(2, 3) show "\<exists>r'. mem ?s b = Some r' \<and> associated r' = None
        \<and> int (rb_count r') = refs_at (d(a := d a + k)) bs ?s b"
      by (cases "b = a") (auto simp: refs_at_def)
  qed
qed

lemma inv_addref:
  assumes "inv_with d as bs s" and "a \<in> set (as @ bs)"
  shows "\<exists>s'. in_mem s (refbuf_addref a) = ok s' \<and> inv_with (d(a := d a + 1)) as bs s' \<and> s' = s\<lparr>mem := mem s'\<rparr>"
proof -
  obtain r where r: "mem s a = Some r" using assms by (rule inv_withD)
  then have "in_mem s (refbuf_addref a) = ok (s\<lparr>mem := (mem s)(a \<mapsto> r\<lparr>rb_count := rb_count r + 1\<rparr>)\<rparr>)"
    by (simp add: in_mem_def refbuf_addref_def)
  with inv_count [OF assms(1) r, of "rb_count r + 1" 1] show ?thesis by simp
qed

lemma inv_release:
  assumes "inv_with d as bs s" and "a \<in> set (as @ bs)"
    and "2 \<le> refs_at d bs s a"
  shows "\<exists>s'. release (Some a) s = ok s' \<and> inv_with (d(a := d a - 1)) as bs s' \<and> s' = s\<lparr>mem := mem s'\<rparr>"
proof -
  obtain r where r: "mem s a = Some r" "associated r = None"
    "int (rb_count r) = refs_at d bs s a"
    using assms(1, 2) by (rule inv_withD)
  with assms(3) have c: "1 < rb_count r" by linarith
  have "refbuf_release 2 (Some a) (mem s) = ok ((mem s)(a \<mapsto> r\<lparr>rb_count := rb_count r - 1\<rparr>))"
    using release_more [of "mem s" a r 1] r(1) c by (simp add: numeral_2_eq_2 del: refbuf_release.simps)
  then have "release (Some a) s = ok (s\<lparr>mem := (mem s)(a \<mapsto> r\<lparr>rb_count := rb_count r - 1\<rparr>)\<rparr>)"
    by (simp add: release_def in_mem_def)
  with inv_count [OF assms(1) r(1), of "rb_count r - 1" "-1"] c show ?thesis by auto
qed

text \<open>Pointing a listener elsewhere moves its reference.\<close>

lemma card_holders_upd:
  assumes "finite (dom (listeners_of s))" and "listeners_of s c = Some l"
  shows "int (card (holders (s\<lparr>listeners_of := (listeners_of s)(c := l')\<rparr>) x))
     = int (card (holders s x)) - (if cl_refbuf l = Some x then 1 else 0)
       + (if map_option cl_refbuf l' = Some (Some x) then 1 else 0)"
proof -
  have f: "finite (holders s x)"
    using assms(1) by (rule finite_subset [rotated]) (auto simp: holders_def)
  have h: "holders (s\<lparr>listeners_of := (listeners_of s)(c := l')\<rparr>) x
      = (if map_option cl_refbuf l' = Some (Some x) then insert c (holders s x - {c}) else holders s x - {c})"
    by (auto simp: holders_def)
  have m: "c \<in> holders s x \<longleftrightarrow> cl_refbuf l = Some x"
    using assms(2) by (auto simp: holders_def)
  have "card (holders s x) > 0" if "c \<in> holders s x" using that f card_gt_0_iff by blast
  then show ?thesis using f m by (auto simp: h card_Diff_singleton_if of_nat_diff insert_absorb)
qed

lemma inv_point:
  assumes "inv_with d as bs s" and "listeners_of s c = Some l"
    and "\<And>a. map_option cl_refbuf l' = Some (Some a) \<Longrightarrow> a \<in> set (as @ bs)"
  shows "inv_with (\<lambda>x. d x + (if cl_refbuf l = Some x then 1 else 0)
            - (if map_option cl_refbuf l' = Some (Some x) then 1 else 0))
           as bs (s\<lparr>listeners_of := (listeners_of s)(c := l')\<rparr>)"
proof -
  let ?s = "s\<lparr>listeners_of := (listeners_of s)(c := l')\<rparr>"
  have fin: "finite (dom (listeners_of s))" using assms(1) by (simp add: inv_with_def shape_def)
  have "blen ?s = blen s" by (auto simp: blen_def fun_eq_iff)
  moreover have "finite (dom (listeners_of ?s))"
    using fin by (auto intro: finite_subset [of _ "insert c (dom (listeners_of s))"])
  moreover have "\<forall>e k a. listeners_of ?s e = Some k \<longrightarrow> cl_refbuf k = Some a \<longrightarrow> a \<in> set (as @ bs)"
  proof (intro allI impI)
    fix e k a
    assume "listeners_of ?s e = Some k" "cl_refbuf k = Some a"
    then show "a \<in> set (as @ bs)"
      using assms(1) assms(3) [of a] unfolding inv_with_def shape_def by (cases "e = c") auto
  qed
  ultimately have "shape as bs ?s" using assms(1) by (simp add: inv_with_def shape_def)
  moreover have "refs_at (\<lambda>x. d x + (if cl_refbuf l = Some x then 1 else 0)
            - (if map_option cl_refbuf l' = Some (Some x) then 1 else 0)) bs ?s a = refs_at d bs s a" for a
    unfolding refs_at_def card_holders_upd [OF fin assms(2)] by simp
  ultimately show ?thesis using assms(1) by (simp add: inv_with_def counted_def)
qed

section \<open>The operations keep the invariant\<close>

text \<open>A buffer leaves the burst list and stays in the queue.\<close>

lemma inv_burst_step:
  assumes "inv_with d as (b # b' # bs) s"
  shows "inv_with (d(b := d b + 1)) (as @ [b]) (b' # bs)
     (s\<lparr>burst_point := Some b', burst_offset := burst_offset s - blen s b\<rparr>)"
proof -
  let ?s = "s\<lparr>burst_point := Some b', burst_offset := burst_offset s - blen s b\<rparr>"
  have "blen ?s = blen s" by (auto simp: blen_def fun_eq_iff)
  then have "shape (as @ [b]) (b' # bs) ?s" using assms by (simp add: inv_with_def shape_def)
  moreover have "refs_at (d(b := d b + 1)) (b' # bs) ?s a = refs_at d (b # b' # bs) s a" for a
    using assms by (auto simp: refs_at_def inv_with_def shape_def)
  ultimately show ?thesis using assms by (simp add: inv_with_def counted_def)
qed

lemma inv_next:
  assumes "inv_with d as bs s" and "as @ bs = xs @ a # ys" and "mem s a = Some r"
  shows "nxt r = (case ys of [] \<Rightarrow> None | b # _ \<Rightarrow> Some b)"
proof -
  have "chain (mem s) p (xs @ a # ys) \<Longrightarrow> nxt r = (case ys of [] \<Rightarrow> None | b # _ \<Rightarrow> Some b)" for p
    using assms(3) by (induction xs arbitrary: p) (auto split: list.splits)
  then show ?thesis using assms(1, 2) unfolding inv_with_def shape_def by metis
qed

text \<open>Fields no queue operation changes.\<close>

definition same_rest :: "stream \<Rightarrow> stream \<Rightarrow> bool" where
  "same_rest s s' \<longleftrightarrow> listeners_of s' = listeners_of s \<and> running s' = running s
     \<and> burst_size s' = burst_size s \<and> queue_size_limit s' = queue_size_limit s"

lemma same_rest_refl [simp]: "same_rest s s"
  by (simp add: same_rest_def)

lemma same_rest_trans: "same_rest s t \<Longrightarrow> same_rest t u \<Longrightarrow> same_rest s u"
  by (simp add: same_rest_def)

lemma burst_loop_inv:
  "queue_inv as bs s \<Longrightarrow> bs \<noteq> [] \<Longrightarrow> length bs \<le> n \<Longrightarrow>
     \<exists>s' as' bs'. burst_loop n s = ok s' \<and> queue_inv as' bs' s' \<and> as' @ bs' = as @ bs \<and> same_rest s s'
       \<and> (burst_offset s' \<le> burst_size s' \<or> length bs' = 1)"
proof (induction bs arbitrary: as s n)
  case (Cons b bs)
  then obtain m where m: "n = Suc m" "length bs \<le> m" by (cases n) auto
  obtain r where r: "mem s b = Some r" using inv_withD [OF Cons.prems(1), of b] by auto
  have bp: "burst_point s = Some b" using Cons.prems(1) by (simp add: inv_with_def shape_def)
  have nx: "nxt r = (case bs of [] \<Rightarrow> None | b' # _ \<Rightarrow> Some b')"
    using Cons.prems(1) r by (rule_tac inv_next [of _ as "b # bs" s as b bs]) auto
  show ?case
  proof (cases "burst_offset s > burst_size s \<and> bs \<noteq> []")
    case False
    then have "burst_loop n s = ok s" using nx r by (auto simp: m bp deref_def)
    with False Cons.prems(1) show ?thesis
      by (intro exI [of _ s] exI [of _ as] exI [of _ "b # bs"]) (auto simp: same_rest_def)
  next
    case True
    then obtain b' bs' where bs: "bs = b' # bs'" by (cases bs) auto
    let ?s1 = "s\<lparr>burst_point := Some b', burst_offset := burst_offset s - blen s b\<rparr>"
    have i1: "inv_with ((\<lambda>_. 0)(b := 1)) (as @ [b]) (b' # bs') ?s1"
      using inv_burst_step [of "\<lambda>_. 0" as b b' bs' s] Cons.prems(1) by (simp add: bs)
    have "2 \<le> refs_at ((\<lambda>_. 0)(b := 1)) (b' # bs') ?s1 b" by (simp add: refs_at_def)
    from inv_release [OF i1 _ this] obtain s2 where s2: "release (Some b) ?s1 = ok s2"
      "queue_inv (as @ [b]) bs s2" "s2 = ?s1\<lparr>mem := mem s2\<rparr>" by (auto simp: bs fun_upd_idem)
    have "burst_loop n s = burst_loop m s2"
      using True r nx s2(1) by (simp add: m bp deref_def bs blen_def)
    moreover from Cons.IH [OF s2(2) _ m(2)] True obtain s' as' bs'' where
      "burst_loop m s2 = ok s'" "queue_inv as' bs'' s'" "as' @ bs'' = as @ b # bs" "same_rest s2 s'"
      "burst_offset s' \<le> burst_size s' \<or> length bs'' = 1" by auto
    moreover have "same_rest s s2" by (subst s2(3)) (simp add: same_rest_def)
    ultimately show ?thesis using same_rest_trans by metis
  qed
qed simp

text \<open>Appending a buffer: the link from the old tail, then the reference for the burst.\<close>

lemma chain_snoc:
  "chain h p (xs @ [t]) \<Longrightarrow> distinct (xs @ [t, a]) \<Longrightarrow> h t = Some q \<Longrightarrow> h a = Some r \<Longrightarrow> nxt r = None \<Longrightarrow>
     chain (h(t \<mapsto> q\<lparr>nxt := Some a\<rparr>)) p (xs @ [t, a])"
  by (induction xs arbitrary: p) auto

lemma blen_link: "mem s t = Some q \<Longrightarrow> blen (s\<lparr>mem := (mem s)(t \<mapsto> q\<lparr>nxt := p\<rparr>)\<rparr>) = blen s"
  by (auto simp: blen_def fun_eq_iff)

definition fresh_buffer :: "addr list \<Rightarrow> addr \<Rightarrow> refbuf \<Rightarrow> stream \<Rightarrow> bool" where
  "fresh_buffer xs a r s \<longleftrightarrow>
     a \<notin> set xs \<and> mem s a = Some r \<and> rb_count r = 1 \<and> nxt r = None \<and> associated r = None"

lemma no_holders: "inv_with d as bs s \<Longrightarrow> a \<notin> set (as @ bs) \<Longrightarrow> holders s a = {}"
  unfolding inv_with_def shape_def holders_def by blast

definition linked :: "addr list \<Rightarrow> addr \<Rightarrow> refbuf \<Rightarrow> stream \<Rightarrow> stream" where
  "linked xs a r s =
     (if xs = [] then s\<lparr>stream_data := Some a, burst_point := Some a\<rparr>
      else s\<lparr>mem := (mem s)(last xs \<mapsto> (the (mem s (last xs)))\<lparr>nxt := Some a\<rparr>)\<rparr>)
     \<lparr>stream_data_tail := Some a, queue_size := queue_size s + rb_len r, burst_offset := burst_offset s + rb_len r\<rparr>"

lemma linked_same:
  assumes "inv_with d as bs s" and "fresh_buffer (as @ bs) a r s"
  shows "holders (linked (as @ bs) a r s) = holders s" "blen (linked (as @ bs) a r s) = blen s"
    "mem (linked (as @ bs) a r s) a = Some r" "same_rest s (linked (as @ bs) a r s)"
proof -
  have t: "as @ bs \<noteq> [] \<Longrightarrow> \<exists>q. mem s (last (as @ bs)) = Some q"
    using inv_withD [OF assms(1), of "last (as @ bs)"] last_in_set by blast
  moreover have "as @ bs \<noteq> [] \<Longrightarrow> last (as @ bs) \<noteq> a"
    using assms(2) last_in_set unfolding fresh_buffer_def by metis
  ultimately show "holders (linked (as @ bs) a r s) = holders s" "blen (linked (as @ bs) a r s) = blen s"
    "mem (linked (as @ bs) a r s) a = Some r" "same_rest s (linked (as @ bs) a r s)"
    using assms(2)
    by (auto simp: linked_def holders_def blen_def fun_eq_iff fresh_buffer_def same_rest_def split: option.splits)
qed

lemma shape_linked:
  assumes "inv_with d as bs s" and "fresh_buffer (as @ bs) a r s"
  shows "shape as (bs @ [a]) (linked (as @ bs) a r s)"
proof -
  let ?s = "linked (as @ bs) a r s"
  have sh: "shape as bs s" using assms(1) by (simp add: inv_with_def)
  have a: "a \<notin> set (as @ bs)" "mem s a = Some r" "nxt r = None" using assms(2) by (auto simp: fresh_buffer_def)
  have l: "blen ?s = blen s" "blen s a = rb_len r" "listeners_of ?s = listeners_of s"
    using linked_same [OF assms] a by (auto simp: blen_def same_rest_def)
  have "chain (mem ?s) (stream_data ?s) (as @ bs @ [a])"
  proof (cases "as @ bs" rule: rev_cases)
    case Nil
    then show ?thesis using a by (simp add: linked_def)
  next
    case (snoc xs t)
    then obtain q where q: "mem s t = Some q" using inv_withD [OF assms(1), of t] by auto
    have "chain (mem s) (stream_data s) (xs @ [t])" "distinct (xs @ [t, a])"
      using sh a(1) unfolding shape_def snoc by auto
    from chain_snoc [OF this q a(2, 3)] have "chain (mem ?s) (stream_data ?s) ((xs @ [t]) @ [a])"
      by (simp add: linked_def snoc q)
    then show ?thesis by (simp add: snoc [symmetric])
  qed
  moreover have "burst_point ?s = Some (hd (bs @ [a]))"
    using sh by (auto simp: linked_def shape_def)
  moreover have "stream_data_tail ?s = Some a" "queue_size ?s = queue_size s + rb_len r"
    "burst_offset ?s = burst_offset s + rb_len r" by (simp_all add: linked_def)
  ultimately show ?thesis using sh a(1) l unfolding shape_def by auto
qed

lemma inv_linked:
  assumes "queue_inv as bs s" and "fresh_buffer (as @ bs) a r s"
  shows "inv_with ((\<lambda>_. 0)(a := -1)) as (bs @ [a]) (linked (as @ bs) a r s)"
  unfolding inv_with_def counted_def
proof (intro conjI ballI)
  let ?s = "linked (as @ bs) a r s"
  show "shape as (bs @ [a]) ?s" using assms by (rule shape_linked)
  fix b
  assume b: "b \<in> set (as @ bs @ [a])"
  show "\<exists>r'. mem ?s b = Some r' \<and> associated r' = None
      \<and> int (rb_count r') = refs_at ((\<lambda>_. 0)(a := -1)) (bs @ [a]) ?s b"
  proof (cases "b = a")
    case True
    then show ?thesis
      using assms(2) linked_same [OF assms] no_holders [OF assms(1), of a]
      by (simp add: refs_at_def fresh_buffer_def)
  next
    case False
    then obtain q where "mem s b = Some q" "associated q = None" "int (rb_count q) = refs_at (\<lambda>_. 0) bs s b"
      using inv_withD [OF assms(1), of b] b by auto
    moreover have "\<exists>n. q = q\<lparr>nxt := n\<rparr>" by (rule exI [of _ "nxt q"]) simp
    then have "\<exists>n. mem ?s b = Some (q\<lparr>nxt := n\<rparr>)" using calculation(1) by (auto simp: linked_def)
    ultimately show ?thesis using False linked_same(1) [OF assms] by (auto simp: refs_at_def)
  qed
qed

lemma offset_mem_commute: "s\<lparr>mem := h, burst_offset := k\<rparr> = s\<lparr>burst_offset := k, mem := h\<rparr>"
  by (rule stream.equality) simp_all

lemma source_append_linked:
  assumes "queue_inv as bs s" and "fresh_buffer (as @ bs) a r s"
  shows "source_append n a s = seq (in_mem (linked (as @ bs) a r s) (refbuf_addref a)) (burst_loop n)"
proof -
  have sd: "stream_data s = None \<longleftrightarrow> as @ bs = []"
    using assms(1) unfolding inv_with_def shape_def by (cases "as @ bs") auto
  have tl: "stream_data_tail s = (if as @ bs = [] then None else Some (last (as @ bs)))"
    using assms(1) by (simp add: inv_with_def shape_def)
  have r: "mem s a = Some r" using assms(2) by (simp add: fresh_buffer_def)
  show ?thesis
  proof (cases "as @ bs = []")
    case True
    with sd tl r show ?thesis
      by (simp add: source_append_def linked_def deref_def in_mem_def refbuf_addref_def offset_mem_commute)
  next
    case False
    then have t: "last (as @ bs) \<in> set (as @ bs)" by (rule last_in_set)
    then obtain q where q: "mem s (last (as @ bs)) = Some q" using inv_withD [OF assms(1)] by blast
    have "last (as @ bs) \<noteq> a" using t assms(2) unfolding fresh_buffer_def by metis
    with False sd tl r q show ?thesis
      by (simp only: source_append_def linked_def deref_def in_mem_def refbuf_addref_def Let_def) (simp add: offset_mem_commute)
  qed
qed

lemma source_append_inv:
  assumes "queue_inv as bs s" and "fresh_buffer (as @ bs) a r s" and "length bs < n"
  shows "\<exists>s' as' bs'. source_append n a s = ok s' \<and> queue_inv as' bs' s' \<and> as' @ bs' = as @ bs @ [a]
     \<and> same_rest s s' \<and> (burst_offset s' \<le> burst_size s' \<or> length bs' = 1)"
proof -
  obtain s1 where s1: "in_mem (linked (as @ bs) a r s) (refbuf_addref a) = ok s1"
    "queue_inv as (bs @ [a]) s1" "s1 = (linked (as @ bs) a r s)\<lparr>mem := mem s1\<rparr>"
    using inv_addref [OF inv_linked [OF assms(1, 2)], of a] by (auto simp: fun_upd_idem)
  have "same_rest (linked (as @ bs) a r s) s1" by (subst s1(3)) (simp add: same_rest_def)
  with linked_same(4) [OF assms(1, 2)] have "same_rest s s1" by (rule same_rest_trans)
  moreover have "source_append n a s = burst_loop n s1"
    using source_append_linked [OF assms(1, 2)] s1(1) by simp
  moreover obtain s' as' bs' where "burst_loop n s1 = ok s'" "queue_inv as' bs' s'"
    "as' @ bs' = as @ bs @ [a]" "same_rest s1 s'" "burst_offset s' \<le> burst_size s' \<or> length bs' = 1"
    using burst_loop_inv [OF s1(2), of n] assms(3) by auto
  ultimately show ?thesis using same_rest_trans by metis
qed

text \<open>Reducing the queue: a head with one reference is neither a burst buffer nor held by a listener.\<close>

definition dropped :: "addr list \<Rightarrow> stream \<Rightarrow> stream \<Rightarrow> bool" where
  "dropped xs s s' \<longleftrightarrow> mem s' = (\<lambda>a. if a \<in> set xs then None else mem s a) \<and> same_rest s s'
     \<and> burst_point s' = burst_point s \<and> stream_data_tail s' = stream_data_tail s"

lemma inv_drop_head:
  assumes "queue_inv (a # as) bs s" and "mem s a = Some r" and "rb_count r = 1"
  shows "queue_inv as bs (s\<lparr>stream_data := nxt r, queue_size := queue_size s - rb_len r, mem := (mem s)(a := None)\<rparr>)"
    (is "queue_inv as bs ?s")
proof -
  have sh: "shape (a # as) bs s" and co: "counted (\<lambda>_. 0) (a # as) bs s"
    using assms(1) by (simp_all add: inv_with_def)
  have na: "a \<notin> set (as @ bs)" "bs \<noteq> []" using sh by (auto simp: shape_def)
  have "refs_at (\<lambda>_. 0) bs s a = 1" using co assms(2, 3) by (auto simp: counted_def)
  moreover have "finite (holders s a)"
    using sh unfolding shape_def by (auto intro: finite_subset [of _ "dom (listeners_of s)"] simp: holders_def)
  ultimately have ho: "holders s a = {}" by (simp add: refs_at_def split: if_splits)
  have h: "holders ?s = holders s" by (simp add: holders_def fun_eq_iff)
  have "map (blen ?s) xs = map (blen s) xs" if "a \<notin> set xs" for xs
    using that by (auto simp: blen_def)
  then have b: "sum_list (map (blen ?s) as) = sum_list (map (blen s) as)"
    "sum_list (map (blen ?s) bs) = sum_list (map (blen s) bs)" using na(1) by (metis UnCI set_append)+
  have "chain (mem s) (nxt r) (as @ bs)" using sh assms(2) by (simp add: shape_def)
  moreover have "chain ((mem s)(a := None)) (nxt r) (as @ bs) = chain (mem s) (nxt r) (as @ bs)"
    using na(1) by (intro chain_cong) auto
  ultimately have "chain (mem ?s) (stream_data ?s) (as @ bs)" by simp
  moreover have "\<forall>c l x. listeners_of ?s c = Some l \<longrightarrow> cl_refbuf l = Some x \<longrightarrow> x \<in> set (as @ bs)"
    using sh ho unfolding shape_def holders_def by fastforce
  moreover have "queue_size s - rb_len r = sum_list (map (blen s) (as @ bs))"
    using sh assms(2) by (simp add: shape_def blen_def)
  ultimately have "shape as bs ?s"
    using sh na b unfolding shape_def by simp
  moreover have "counted (\<lambda>_. 0) as bs ?s"
    using co na(1) h unfolding counted_def refs_at_def by auto
  ultimately show ?thesis by (simp add: inv_with_def)
qed

lemma reduce_loop_inv:
  "queue_inv as bs s \<Longrightarrow> bs \<noteq> [] \<Longrightarrow> length as < n \<Longrightarrow>
     \<exists>s' ds as'. reduce_loop n s = ok s' \<and> as = ds @ as' \<and> queue_inv as' bs s' \<and> dropped ds s s'
       \<and> (as' = [] \<or> holders s' (hd as') \<noteq> {})"
proof (induction n arbitrary: as s)
  case (Suc n)
  obtain a xs where q: "as @ bs = a # xs" using Suc.prems(2) by (cases "as @ bs") auto
  have sd: "stream_data s = Some a" using Suc.prems(1) q by (auto simp: inv_with_def shape_def)
  obtain r where r: "mem s a = Some r" "associated r = None" "int (rb_count r) = refs_at (\<lambda>_. 0) bs s a"
    using inv_withD [OF Suc.prems(1), of a] q by auto
  show ?case
  proof (cases "rb_count r = 1")
    case False
    then have "reduce_loop (Suc n) s = ok s" using sd r by (simp add: deref_def)
    moreover have "as = [] \<or> holders s (hd as) \<noteq> {}"
    proof (cases as)
      case (Cons b bs')
      then have "a = b" "a \<notin> set bs" using q Suc.prems(1) by (auto simp: inv_with_def shape_def)
      then show ?thesis using Cons False r(3) by (auto simp: refs_at_def)
    qed simp
    ultimately show ?thesis using Suc.prems(1) 
      by (intro exI [of _ s] exI [of _ "[]"] exI [of _ as]) (simp add: dropped_def del: reduce_loop.simps)
  next
    case True
    then have nb: "a \<notin> set bs" using r(3) by (auto simp: refs_at_def)
    then obtain as1 where as: "as = a # as1" using q Suc.prems(2) by (cases as) auto
    let ?s = "s\<lparr>stream_data := nxt r, queue_size := queue_size s - rb_len r, mem := (mem s)(a := None)\<rparr>"
    have i: "queue_inv as1 bs ?s" using inv_drop_head [OF _ r(1) True] Suc.prems(1) by (simp add: as)
    have "nxt r \<noteq> None" using Suc.prems(2) inv_next [OF Suc.prems(1) _ r(1), of "[]" "as1 @ bs"]
      by (auto simp: as split: list.splits)
    moreover have "burst_point s \<noteq> Some a"
      using Suc.prems(1, 2) nb by (auto simp: inv_with_def shape_def)
    moreover have "release (Some a) (s\<lparr>stream_data := nxt r, queue_size := queue_size s - rb_len r,
        mem := (mem s)(a \<mapsto> r\<lparr>nxt := None\<rparr>)\<rparr>) = ok ?s"
      using release_last [of "(mem s)(a \<mapsto> r\<lparr>nxt := None\<rparr>)" a "r\<lparr>nxt := None\<rparr>" 0] True r(2)
      by (simp add: release_def in_mem_def numeral_2_eq_2 del: refbuf_release.simps)
    ultimately have "reduce_loop (Suc n) s = reduce_loop n ?s" using sd r(1) True by (auto simp: deref_def)
    moreover obtain s' ds as' where "reduce_loop n ?s = ok s'" "as1 = ds @ as'" "queue_inv as' bs s'"
      "dropped ds ?s s'" "as' = [] \<or> holders s' (hd as') \<noteq> {}"
      using Suc.IH [OF i Suc.prems(2)] Suc.prems(3) as by auto
    moreover have "dropped (a # ds) s s'" using \<open>dropped ds ?s s'\<close>
      by (auto simp: dropped_def same_rest_def fun_eq_iff)
    ultimately show ?thesis using as by (metis append_Cons)
  qed
qed simp

text \<open>Moving a listener to a buffer of the queue, or off the queue.\<close>

lemma inv_release_pending:
  assumes "inv_with d as bs s" and "d = (\<lambda>x. if p = Some x then 1 else 0)"
    and "\<forall>a. p = Some a \<longrightarrow> a \<in> set (as @ bs)"
  shows "\<exists>s'. (if p = None then ok s else release p s) = ok s' \<and> queue_inv as bs s' \<and> s' = s\<lparr>mem := mem s'\<rparr>"
proof (cases p)
  case None
  with assms show ?thesis by simp
next
  case (Some a)
  have "2 \<le> refs_at d bs s a" by (simp add: refs_at_def assms(2) Some)
  moreover have "d(a := d a - 1) = (\<lambda>_. 0)" by (auto simp: assms(2) Some fun_eq_iff)
  ultimately show ?thesis using inv_release [OF assms(1), of a] assms(3) Some by auto
qed

lemma client_set_queue_inv:
  assumes "queue_inv as bs s" and "listeners_of s c = Some l" and "\<forall>a. p = Some a \<longrightarrow> a \<in> set (as @ bs)"
  shows "\<exists>s'. client_set_queue c p s = ok s' \<and> queue_inv as bs s'
     \<and> s' = s\<lparr>listeners_of := (listeners_of s)(c \<mapsto> l\<lparr>cl_refbuf := p, cl_pos := 0\<rparr>), mem := mem s'\<rparr>"
proof -
  let ?s1 = "s\<lparr>listeners_of := (listeners_of s)(c \<mapsto> l\<lparr>cl_refbuf := p, cl_pos := 0\<rparr>)\<rparr>"
  let ?d = "\<lambda>x. (if cl_refbuf l = Some x then 1 else 0) - (if p = Some x then 1 else (0::int))"
  have i1: "inv_with ?d as bs ?s1"
    using inv_point [OF assms(1, 2), of "Some (l\<lparr>cl_refbuf := p, cl_pos := 0\<rparr>)"] assms(3) by auto
  have "\<exists>s2. (case p of None \<Rightarrow> ok ?s1 | Some a \<Rightarrow> in_mem ?s1 (refbuf_addref a)) = ok s2
      \<and> inv_with (\<lambda>x. if cl_refbuf l = Some x then 1 else 0) as bs s2 \<and> s2 = ?s1\<lparr>mem := mem s2\<rparr>"
  proof (cases p)
    case None
    with i1 show ?thesis by simp
  next
    case (Some a)
    have "?d(a := ?d a + 1) = (\<lambda>x. if cl_refbuf l = Some x then 1 else 0)" by (auto simp: Some fun_eq_iff)
    then show ?thesis using inv_addref [OF i1, of a] assms(3) Some by simp
  qed
  then obtain s2 where s2: "(case p of None \<Rightarrow> ok ?s1 | Some a \<Rightarrow> in_mem ?s1 (refbuf_addref a)) = ok s2"
    "inv_with (\<lambda>x. if cl_refbuf l = Some x then 1 else 0) as bs s2" "s2 = ?s1\<lparr>mem := mem s2\<rparr>" by blast
  have "\<forall>a. cl_refbuf l = Some a \<longrightarrow> a \<in> set (as @ bs)"
    using assms(1, 2) unfolding inv_with_def shape_def by blast
  then obtain s3 where s3: "(if cl_refbuf l = None then ok s2 else release (cl_refbuf l) s2) = ok s3"
    "queue_inv as bs s3" "s3 = s2\<lparr>mem := mem s3\<rparr>"
    using inv_release_pending [OF s2(2)] by blast
  have "client_set_queue c p s = ok s3"
    unfolding client_set_queue_def using assms(2) s2(1) s3(1) by (simp only: option.case Let_def seq_simps)
  moreover have "s3 = ?s1\<lparr>mem := mem s3\<rparr>" by (subst s3(3), subst s2(3)) simp
  ultimately show ?thesis using s3(2) by blast
qed

lemma listener_leave_inv:
  assumes "queue_inv as bs s" and "listeners_of s c = Some l"
  shows "\<exists>s'. listener_leave c s = ok s' \<and> queue_inv as bs s'
     \<and> s' = s\<lparr>mem := mem s', listeners_of := (listeners_of s)(c := None)\<rparr>"
proof -
  let ?f = "\<lambda>s. s\<lparr>listeners_of := (listeners_of s)(c := None)\<rparr>"
  have i: "inv_with (\<lambda>x. if cl_refbuf l = Some x then 1 else 0) as bs (?f s)"
    using inv_point [OF assms, of None] by simp
  have "\<forall>a. cl_refbuf l = Some a \<longrightarrow> a \<in> set (as @ bs)"
    using assms unfolding inv_with_def shape_def by blast
  then obtain s2 where s2: "(if cl_refbuf l = None then ok (?f s) else release (cl_refbuf l) (?f s)) = ok s2"
    "queue_inv as bs s2" "s2 = (?f s)\<lparr>mem := mem s2\<rparr>"
    using inv_release_pending [OF i] by blast
  have comm: "seq (in_mem s g) (\<lambda>s. ok (?f s)) = in_mem (?f s) g" for g
    by (auto simp: in_mem_def seq_def ok_def split: option.splits sum.splits)
  have "listener_leave c s = ok s2"
    using s2(1) assms(2) comm [of "refbuf_release 2 (cl_refbuf l)"]
    by (auto simp: listener_leave_def release_def split: if_splits)
  moreover have "s2 = s\<lparr>mem := mem s2, listeners_of := (listeners_of s)(c := None)\<rparr>"
    by (subst s2(3)) simp
  ultimately show ?thesis using s2(2) by blast
qed

lemma inv_same_refbuf:
  assumes "queue_inv as bs s" and "listeners_of s c = Some l" and "cl_refbuf l' = cl_refbuf l"
  shows "queue_inv as bs (s\<lparr>listeners_of := (listeners_of s)(c \<mapsto> l')\<rparr>)"
proof -
  have "\<And>a. cl_refbuf l = Some a \<Longrightarrow> a \<in> set (as @ bs)"
    using assms(1, 2) unfolding inv_with_def shape_def by blast
  then show ?thesis using inv_point [OF assms(1, 2), of "Some l'"] assms(3) by auto
qed

lemma listener_join_inv:
  assumes "queue_inv as bs s" and "listeners_of s c = None"
  shows "queue_inv as bs (listener_join c l s)"
proof -
  let ?s = "listener_join c l s"
  have h: "holders ?s = holders s" using assms(2) by (auto simp: holders_def listener_join_def fun_eq_iff)
  have b: "blen ?s = blen s" by (auto simp: listener_join_def blen_def fun_eq_iff)
  have "shape as bs ?s"
    using assms b unfolding inv_with_def shape_def by (auto simp: listener_join_def)
  then show ?thesis using assms(1) h by (simp add: inv_with_def counted_def refs_at_def listener_join_def)
qed

text \<open>Advancing, and finding a place to start.\<close>

lemma format_advance_queue_inv:
  assumes "queue_inv as bs s" and "listeners_of s c = Some l"
  shows "\<exists>v s'. format_advance_queue c s = ok (v, s') \<and> queue_inv as bs s' \<and> running s' = running s
     \<and> dom (listeners_of s') = dom (listeners_of s)"
proof (cases "cl_refbuf l")
  case None
  with assms show ?thesis by (simp add: format_advance_queue_def)
next
  case (Some a)
  then have a: "a \<in> set (as @ bs)" using assms unfolding inv_with_def shape_def by blast
  then obtain r where r: "mem s a = Some r" using inv_withD [OF assms(1)] by blast
  obtain xs ys where q: "as @ bs = xs @ a # ys" using split_list [OF a] by blast
  have n: "\<forall>b. nxt r = Some b \<longrightarrow> b \<in> set (as @ bs)"
    using inv_next [OF assms(1) q r] unfolding q by (auto split: list.splits)
  obtain s' where s': "client_set_queue c (nxt r) s = ok s'" "queue_inv as bs s'"
     "s' = s\<lparr>listeners_of := (listeners_of s)(c \<mapsto> l\<lparr>cl_refbuf := nxt r, cl_pos := 0\<rparr>), mem := mem s'\<rparr>"
    using client_set_queue_inv [OF assms n] by blast
  have "running s' = running s" "dom (listeners_of s') = dom (listeners_of s)"
    using arg_cong [OF s'(3), of listeners_of] arg_cong [OF s'(3), of running] assms(2) by auto
  with s'(1, 2) assms r Some show ?thesis by (auto simp: format_advance_queue_def deref_def)
qed

lemma chain_drop: "chain h p (xs @ ys) \<Longrightarrow> \<exists>q. chain h q ys"
  by (induction xs arbitrary: p) auto

lemma chain_hd: "chain h p xs \<Longrightarrow> p = (if xs = [] then None else Some (hd xs))"
  by (cases xs) auto

lemma chain_burst: "inv_with d as bs s \<Longrightarrow> chain (mem s) (burst_point s) bs"
  unfolding inv_with_def shape_def by (metis chain_drop chain_hd)

lemma skip_intro_chain:
  "chain (mem s) p xs \<Longrightarrow> length xs < n \<Longrightarrow>
     \<exists>q ys zs. skip_intro n k p s = ok q \<and> xs = zs @ ys \<and> chain (mem s) q ys"
proof (induction xs arbitrary: p n k)
  case Nil
  then show ?case by (cases n) auto
next
  case (Cons a xs)
  then obtain m r where m: "n = Suc m" and r: "p = Some a" "mem s a = Some r" "chain (mem s) (nxt r) xs"
    by (cases n) auto
  from Cons.IH [OF r(3), of m "k - ucast (rb_len r)"] Cons.prems(2) m obtain q ys zs where
    "skip_intro m (k - ucast (rb_len r)) (nxt r) s = ok q" "xs = zs @ ys" "chain (mem s) q ys" by auto
  note rest = this
  show ?case
  proof (cases "k = 0 \<or> nxt r = None")
    case True
    then have "skip_intro n k p s = ok p" using m r by (auto simp: deref_def)
    then show ?thesis using Cons.prems(1) by blast
  next
    case False
    then have "skip_intro n k p s = ok q" using m r rest(1) by (auto simp: deref_def)
    moreover have "a # xs = (a # zs) @ ys" using rest(2) by simp
    ultimately show ?thesis using rest(3) by blast
  qed
qed

definition syncs :: "stream \<Rightarrow> addr \<Rightarrow> bool" where
  "syncs s a \<longleftrightarrow> (case mem s a of None \<Rightarrow> False | Some r \<Rightarrow> sync_point r)"

lemma find_sync_chain: "chain (mem s) p xs \<Longrightarrow> length xs < n \<Longrightarrow> find_sync n p s = ok (find (syncs s) xs)"
proof (induction xs arbitrary: p n)
  case Nil
  then show ?case by (cases n) auto
next
  case (Cons a xs)
  then obtain m where m: "n = Suc m" by (cases n) auto
  with Cons show ?case by (auto simp: deref_def syncs_def)
qed

lemma find_client_start_inv:
  assumes "queue_inv as bs s" and "listeners_of s c = Some l" and "length bs < n"
  shows "\<exists>s'. find_client_start n c s = ok s' \<and> queue_inv as bs s' \<and> running s' = running s
     \<and> dom (listeners_of s') = dom (listeners_of s)"
proof -
  have tl: "tail_is_sync s = ok (bs \<noteq> [] \<and> syncs s (last bs))"
  proof (cases "bs = []")
    case False
    then have "last bs \<in> set (as @ bs)" by simp
    then obtain r where "mem s (last bs) = Some r" using inv_withD [OF assms(1)] by blast
    then show ?thesis using assms(1) False
      by (auto simp: inv_with_def shape_def tail_is_sync_def deref_def syncs_def)
  qed (use assms(1) in \<open>auto simp: inv_with_def shape_def tail_is_sync_def\<close>)
  have "\<exists>p ys. seq (if intro_offset l = -1 then tail_is_sync s else ok False) (\<lambda>ts.
            if ts then ok (stream_data_tail s)
                 else skip_intro n (word_of_int (intro_offset l)) (burst_point s) s) = ok p
      \<and> chain (mem s) p ys \<and> length ys < n \<and> set ys \<subseteq> set (as @ bs)"
  proof (cases "intro_offset l = -1 \<and> bs \<noteq> [] \<and> syncs s (last bs)")
    case True
    then obtain xs b where xs: "bs = xs @ [b]" by (cases bs rule: rev_cases) auto
    have "chain (mem s) (stream_data_tail s) [b]"
      using assms(1) chain_drop [of "mem s" "stream_data s" "as @ xs" "[b]"]
      unfolding inv_with_def shape_def xs by auto
    then show ?thesis using True assms(3) tl by (intro exI [of _ "Some b"] exI [of _ "[b]"]) (auto simp: xs)
  next
    case False
    obtain q ys zs where q: "skip_intro n (word_of_int (intro_offset l)) (burst_point s) s = ok q" "bs = zs @ ys"
      "chain (mem s) q ys"
      using skip_intro_chain [OF chain_burst [OF assms(1)] assms(3)] by blast
    then show ?thesis using False tl assms(3) by (intro exI [of _ q] exI [of _ ys]) auto
  qed
  then obtain p ys where p: "seq (if intro_offset l = -1 then tail_is_sync s else ok False) (\<lambda>ts.
            if ts then ok (stream_data_tail s)
                 else skip_intro n (word_of_int (intro_offset l)) (burst_point s) s) = ok p"
    "chain (mem s) p ys" "length ys < n" "set ys \<subseteq> set (as @ bs)" by blast
  have fc: "find_client_start n c s = seq (ok (find (syncs s) ys)) (\<lambda>q.
      case q of None \<Rightarrow> ok s
      | Some a \<Rightarrow> seq (client_set_queue c (Some a) s) (\<lambda>s.
          ok (s\<lparr>listeners_of := (listeners_of s)(c := map_option
            (\<lambda>l. l\<lparr>cl_check := Format_advance_queue, intro_offset := -1\<rparr>) (listeners_of s c))\<rparr>)))"
    unfolding find_client_start_def
    by (simp only: assms(2) option.case seq_assoc [symmetric] p(1) find_sync_chain [OF p(2, 3)] seq_simps)
  show ?thesis
  proof (cases "find (syncs s) ys")
    case None
    then show ?thesis using fc assms(1) by simp
  next
    case (Some a)
    then have "a \<in> set (as @ bs)" using p(4) nth_mem by (fastforce simp: find_Some_iff)
    then obtain s' where s': "client_set_queue c (Some a) s = ok s'" "queue_inv as bs s'"
      "s' = s\<lparr>listeners_of := (listeners_of s)(c \<mapsto> l\<lparr>cl_refbuf := Some a, cl_pos := 0\<rparr>), mem := mem s'\<rparr>"
      using client_set_queue_inv [OF assms(1, 2), of "Some a"] by blast
    have l': "listeners_of s' c = Some (l\<lparr>cl_refbuf := Some a, cl_pos := 0\<rparr>)" "running s' = running s"
      "dom (listeners_of s') = dom (listeners_of s)"
      using arg_cong [OF s'(3), of listeners_of] arg_cong [OF s'(3), of running] assms(2) by auto
    then show ?thesis using fc Some s'(1) inv_same_refbuf [OF s'(2) l'(1)] by auto
  qed
qed

section \<open>More fuel gives the same result\<close>

lemma burst_loop_Suc: "with_more_fuel (burst_loop n s) (burst_loop (Suc n) s)"
proof (induction n arbitrary: s)
  case (Suc n)
  show ?case
    by (simp only: burst_loop.simps(2) [of n] burst_loop.simps(2) [of "Suc n"])
      (auto intro!: with_more_fuel_seq Suc.IH split: option.splits simp del: burst_loop.simps)
qed simp

lemma reduce_loop_Suc: "with_more_fuel (reduce_loop n s) (reduce_loop (Suc n) s)"
proof (induction n arbitrary: s)
  case (Suc n)
  show ?case
    by (simp only: reduce_loop.simps(2) [of n] reduce_loop.simps(2) [of "Suc n"])
      (auto intro!: with_more_fuel_seq Suc.IH simp del: reduce_loop.simps)
qed simp

lemma skip_intro_Suc: "with_more_fuel (skip_intro n k p s) (skip_intro (Suc n) k p s)"
proof (induction n arbitrary: k p)
  case (Suc n)
  show ?case
    by (subst skip_intro.simps(2), subst skip_intro.simps(2)) (auto intro!: with_more_fuel_seq Suc.IH split: option.splits simp del: skip_intro.simps)
qed simp

lemma find_sync_Suc: "with_more_fuel (find_sync n p s) (find_sync (Suc n) p s)"
proof (induction n arbitrary: p)
  case (Suc n)
  show ?case
    by (subst find_sync.simps(2), subst find_sync.simps(2)) (auto intro!: with_more_fuel_seq Suc.IH split: option.splits simp del: find_sync.simps)
qed simp

lemmas loop_fuel =
  with_more_fuel_le [of "\<lambda>n. burst_loop n s" for s, OF burst_loop_Suc]
  with_more_fuel_le [of "\<lambda>n. reduce_loop n s" for s, OF reduce_loop_Suc]
  with_more_fuel_le [of "\<lambda>n. skip_intro n k p s" for k p s, OF skip_intro_Suc]
  with_more_fuel_le [of "\<lambda>n. find_sync n p s" for p s, OF find_sync_Suc]

lemma source_append_mono: "n \<le> m \<Longrightarrow> with_more_fuel (source_append n a s) (source_append m a s)"
  unfolding source_append_def Let_def by (intro with_more_fuel_seq loop_fuel with_more_fuel_refl)

lemma source_turn_end_mono: "n \<le> m \<Longrightarrow> with_more_fuel (source_turn_end n cs s) (source_turn_end m cs s)"
  unfolding source_turn_end_def source_reduce_def
  by (intro with_more_fuel_seq) (auto intro: loop_fuel)

lemma find_client_start_mono: "n \<le> m \<Longrightarrow> with_more_fuel (find_client_start n c s) (find_client_start m c s)"
  unfolding find_client_start_def
  by (cases "listeners_of s c") (auto intro!: with_more_fuel_seq intro: loop_fuel)

section \<open>Reachable states\<close>

text \<open>
  A source starts with an empty queue and no listener. A step is one operation: a new buffer with
  one reference is appended, the turn ends for the listeners \<open>cs\<close>, a listener joins, leaves, looks for
  its start, advances or writes. The operations run with whatever fuel lets them return.
\<close>

definition fresh_stream :: "u32 \<Rightarrow> u32 \<Rightarrow> stream" where
  "fresh_stream limit burst =
     \<lparr>mem = Map.empty, stream_data = None, stream_data_tail = None, burst_point = None, queue_size = 0,
      queue_size_limit = limit, burst_size = burst, burst_offset = 0, running = True,
      listeners_of = Map.empty\<rparr>"

inductive queue_step :: "stream \<Rightarrow> stream \<Rightarrow> bool" where
  append: "mem s a = None \<Longrightarrow> rb_count r = 1 \<Longrightarrow> nxt r = None \<Longrightarrow> associated r = None \<Longrightarrow>
    source_append n a (s\<lparr>mem := (mem s)(a \<mapsto> r)\<rparr>) = ok s' \<Longrightarrow> queue_step s s'"
| turn_end: "distinct cs \<Longrightarrow> set cs = dom (listeners_of s) \<Longrightarrow> source_turn_end n cs s = ok s' \<Longrightarrow> queue_step s s'"
| join: "listeners_of s c = None \<Longrightarrow> queue_step s (listener_join c l s)"
| leave: "listener_leave c s = ok s' \<Longrightarrow> queue_step s s'"
| start: "find_client_start n c s = ok s' \<Longrightarrow> queue_step s s'"
| advance: "format_advance_queue c s = ok (v, s') \<Longrightarrow> queue_step s s'"
| writes: "format_generic_write_to_client send c s = ok (v, s') \<Longrightarrow> queue_step s s'"

inductive queue_reach :: "stream \<Rightarrow> bool" where
  initial: "queue_reach (fresh_stream limit burst)"
| step: "queue_reach s \<Longrightarrow> queue_step s s' \<Longrightarrow> queue_reach s'"

inductive_cases queue_stepE: "queue_step s s'"

lemma fresh_stream_inv: "queue_inv [] [] (fresh_stream limit burst)"
  by (simp add: inv_with_def shape_def counted_def fresh_stream_def)

lemma blen_other:
  "a \<notin> set xs \<Longrightarrow> sum_list (map (blen (s\<lparr>mem := (mem s)(a := v)\<rparr>)) xs) = sum_list (map (blen s) xs)"
  by (induction xs) (auto simp: blen_def)

lemma inv_alloc:
  assumes "queue_inv as bs s" and "mem s a = None"
  shows "queue_inv as bs (s\<lparr>mem := (mem s)(a \<mapsto> r)\<rparr>)" "a \<notin> set (as @ bs)"
proof -
  let ?s = "s\<lparr>mem := (mem s)(a \<mapsto> r)\<rparr>"
  show a: "a \<notin> set (as @ bs)" 
  proof
    assume "a \<in> set (as @ bs)"
    with assms(1) obtain q where "mem s a = Some q" by (rule inv_withD)
    with assms(2) show False by simp
  qed
  have b: "sum_list (map (blen ?s) (as @ bs)) = sum_list (map (blen s) (as @ bs))"
    "sum_list (map (blen ?s) bs) = sum_list (map (blen s) bs)"
    using a blen_other [of a "as @ bs" s "Some r"] blen_other [of a bs s "Some r"] by simp_all
  have "chain ((mem s)(a \<mapsto> r)) (stream_data s) (as @ bs) = chain (mem s) (stream_data s) (as @ bs)"
    using a by (intro chain_cong) auto
  then have "shape as bs ?s"
    using assms(1) unfolding inv_with_def shape_def b by simp
  moreover have "counted (\<lambda>_. 0) as bs ?s"
    unfolding counted_def
  proof
    fix b
    assume b: "b \<in> set (as @ bs)"
    then have "b \<noteq> a" using a by blast
    moreover obtain q where "mem s b = Some q" "associated q = None" "int (rb_count q) = refs_at (\<lambda>_. 0) bs s b"
      using assms(1) b by (rule inv_withD)
    ultimately show "\<exists>r. mem ?s b = Some r \<and> associated r = None
        \<and> int (rb_count r) = refs_at (\<lambda>_. 0) bs ?s b" by (simp add: refs_at_def)
  qed
  ultimately show "queue_inv as bs ?s" by (simp add: inv_with_def)
qed

lemma remove_slow_inv:
  "queue_inv as bs s \<Longrightarrow> distinct cs \<Longrightarrow> set cs \<subseteq> dom (listeners_of s) \<Longrightarrow>
     \<exists>s'. remove_slow del cs s = ok s' \<and> queue_inv as bs s' \<and> running s' = running s \<and> stream_data s' = stream_data s
       \<and> listeners_of s' = (\<lambda>c. if c \<in> set cs \<and> (\<exists>l. listeners_of s c = Some l \<and> fallen_behind del s l)
            then None else listeners_of s c)"
proof (induction cs arbitrary: s)
  case (Cons c cs)
  then obtain l where l: "listeners_of s c = Some l" by auto
  obtain s1 where s1: "listener_leave c s = ok s1" "queue_inv as bs s1"
    "s1 = s\<lparr>mem := mem s1, listeners_of := (listeners_of s)(c := None)\<rparr>"
    using listener_leave_inv [OF Cons.prems(1) l] by blast
  let ?s1 = "if fallen_behind del s l then s1 else s"
  have f: "listeners_of ?s1 = (if fallen_behind del s l then (listeners_of s)(c := None) else listeners_of s)"
    "stream_data ?s1 = stream_data s" "running ?s1 = running s"
    using arg_cong [OF s1(3), of listeners_of] arg_cong [OF s1(3), of stream_data]
      arg_cong [OF s1(3), of running] by auto
  have fb: "fallen_behind del ?s1 k = fallen_behind del s k" for k
    using f(2) by (simp add: fallen_behind_def)
  have "remove_slow del (c # cs) s = remove_slow del cs ?s1" using l s1(1) by simp
  moreover have "queue_inv as bs ?s1" "distinct cs" "set cs \<subseteq> dom (listeners_of ?s1)"
    using s1(2) Cons.prems f(1) by auto
  from Cons.IH [OF this] obtain s' where s': "remove_slow del cs ?s1 = ok s'" "queue_inv as bs s'"
    "running s' = running s" "stream_data s' = stream_data s"
    "listeners_of s' = (\<lambda>c. if c \<in> set cs \<and> (\<exists>l. listeners_of ?s1 c = Some l \<and> fallen_behind del s l)
            then None else listeners_of ?s1 c)" using f(2, 3) unfolding fb by auto
  moreover have "listeners_of s' = (\<lambda>x. if x \<in> set (c # cs) \<and> (\<exists>l. listeners_of s x = Some l \<and> fallen_behind del s l)
            then None else listeners_of s x)"
    using l Cons.prems(2) unfolding s'(5) f(1) by (auto simp: fun_eq_iff)
  ultimately show ?case by auto
qed simp

lemma source_reduce_inv:
  assumes "queue_inv as bs s" and "length as < n"
  shows "\<exists>s' ds as'. source_reduce n s = ok s' \<and> as = ds @ as' \<and> queue_inv as' bs s' \<and> dropped ds s s'
     \<and> (as' = [] \<or> holders s' (hd as') \<noteq> {})"
proof (cases "bs = []")
  case True
  then have "as = []" "stream_data s = None" using assms(1) by (auto simp: inv_with_def shape_def)
  then show ?thesis using assms(1)
    by (intro exI [of _ s] exI [of _ "[]"]) (simp add: source_reduce_def dropped_def)
next
  case False
  then have "stream_data s \<noteq> None" using assms(1) by (cases "as @ bs") (auto simp: inv_with_def shape_def)
  then show ?thesis using reduce_loop_inv [OF assms(1) False assms(2)] by (simp only: source_reduce_def if_False)
qed

lemma source_turn_end_inv:
  assumes "queue_inv as bs s" and "length as < n" and "distinct cs" and "set cs = dom (listeners_of s)"
  shows "\<exists>s' ds as'. source_turn_end n cs s = ok s' \<and> as = ds @ as' \<and> queue_inv as' bs s' \<and> running s' = running s
     \<and> (\<forall>a\<in>set ds. mem s' a = None) \<and> (queue_full s \<longrightarrow> as \<noteq> [] \<longrightarrow> ds \<noteq> [])"
proof -
  obtain s1 where s1: "remove_slow (queue_full s) cs s = ok s1" "queue_inv as bs s1" "running s1 = running s"
    "stream_data s1 = stream_data s" "listeners_of s1 = (\<lambda>c. if c \<in> set cs \<and>
       (\<exists>l. listeners_of s c = Some l \<and> fallen_behind (queue_full s) s l) then None else listeners_of s c)"
    using remove_slow_inv [OF assms(1, 3)] assms(4) by blast
  obtain s' ds as' where s': "source_reduce n s1 = ok s'" "as = ds @ as'" "queue_inv as' bs s'"
    "dropped ds s1 s'" "as' = [] \<or> holders s' (hd as') \<noteq> {}"
    using source_reduce_inv [OF s1(2) assms(2)] by blast
  have "ds \<noteq> []" if "queue_full s" "as \<noteq> []"
  proof
    assume "ds = []"
    then have e: "holders s' (hd as) \<noteq> {}" using s'(2, 5) that(2) by simp
    have "stream_data s = Some (hd as)"
      using assms(1) that(2) by (cases as) (auto simp: inv_with_def shape_def)
    then have "holders s1 (hd as) = {}"
      using that(1) assms(4) unfolding holders_def s1(5) by (auto simp: fallen_behind_def)
    moreover have "holders s' = holders s1"
      using s'(4) by (simp add: dropped_def same_rest_def holders_def fun_eq_iff)
    ultimately show False using e by simp
  qed
  then show ?thesis using s1(1, 3) s' by (auto simp: source_turn_end_def dropped_def same_rest_def)
qed

lemma queue_step_inv: "queue_step s s' \<Longrightarrow> \<exists>as bs. queue_inv as bs s \<Longrightarrow> \<exists>as bs. queue_inv as bs s' \<and> running s' = running s"
proof (induction rule: queue_step.induct)
  case (append s a r n s')
  then obtain as bs where i: "queue_inv as bs s" by blast
  let ?n = "Suc (n + length bs)"
  have "source_append ?n a (s\<lparr>mem := (mem s)(a \<mapsto> r)\<rparr>) = ok s'"
    using with_more_fuel_ok [OF source_append_mono append(5)] by simp
  then show ?case
    using source_append_inv [OF inv_alloc(1) [OF i append(1)], of a r r ?n] inv_alloc(2) [OF i append(1)] append(2-4)
    by (auto simp: fresh_buffer_def same_rest_def)
next
  case (turn_end cs s n s')
  then obtain as bs where i: "queue_inv as bs s" by blast
  let ?n = "Suc (n + length as)"
  have "source_turn_end ?n cs s = ok s'"
    using with_more_fuel_ok [OF source_turn_end_mono turn_end(3)] by simp
  then show ?case using source_turn_end_inv [OF i, of ?n cs] turn_end(1, 2) by auto
next
  case (join s c l)
  then have "\<exists>as bs. queue_inv as bs (listener_join c l s)" using listener_join_inv by blast
  then show ?case by (simp add: listener_join_def)
next
  case (leave c s s')
  then obtain as bs l where i: "queue_inv as bs s" "listeners_of s c = Some l"
    by (auto simp: listener_leave_def split: option.splits)
  then show ?case using listener_leave_inv [OF i] leave(1) by (auto dest: arg_cong [of _ _ running])
next
  case (start n c s s')
  then obtain as bs l where i: "queue_inv as bs s" "listeners_of s c = Some l"
    by (auto simp: find_client_start_def split: option.splits)
  let ?n = "Suc (n + length bs)"
  have "find_client_start ?n c s = ok s'"
    using with_more_fuel_ok [OF find_client_start_mono start(1)] by simp
  then show ?case using find_client_start_inv [OF i, of ?n] by auto
next
  case (advance c s v s')
  then obtain as bs l where i: "queue_inv as bs s" "listeners_of s c = Some l"
    by (auto simp: format_advance_queue_def split: option.splits)
  then show ?case using format_advance_queue_inv [OF i] advance(1) by auto
next
  case (writes send c s v s')
  then obtain as bs l where i: "queue_inv as bs s" "listeners_of s c = Some l"
    by (auto simp: format_generic_write_to_client_def split: option.splits)
  with writes(1) obtain k where
    "s' = s \<or> s' = s\<lparr>listeners_of := (listeners_of s)(c \<mapsto> l\<lparr>cl_pos := k\<rparr>)\<rparr>"
    by (auto simp: format_generic_write_to_client_def seq_ok Let_def split: if_splits)
  moreover have "queue_inv as bs (s\<lparr>listeners_of := (listeners_of s)(c \<mapsto> l\<lparr>cl_pos := k\<rparr>)\<rparr>)"
    using inv_same_refbuf [OF i] by simp
  ultimately show ?case using i(1) by auto
qed

lemma queue_reach_inv: "queue_reach s \<Longrightarrow> \<exists>as bs. queue_inv as bs s \<and> running s"
proof (induction rule: queue_reach.induct)
  case (initial limit burst)
  have "running (fresh_stream limit burst)" by (simp add: fresh_stream_def)
  then show ?case using fresh_stream_inv by blast
next
  case (step s s')
  then show ?case using queue_step_inv [OF step(2)] by blast
qed

section \<open>Properties\<close>

text \<open>
  A state to try the operations on: a listener at the first of two buffers, of which only the second
  is still in the burst, and the queue over its limit.
\<close>

definition demo_buffer :: "bool \<Rightarrow> refbuf" where
  "demo_buffer sy = \<lparr>rb_len = 4, rb_count = 1, rb_data = [1, 2, 3, 4], associated = None, nxt = None,
     sync_point = sy\<rparr>"

definition demo_run :: "bool \<Rightarrow> stream run" where
  "demo_run sy =
     seq (source_append (Suc 0) 1 ((fresh_stream 6 5)\<lparr>mem := (mem (fresh_stream 6 5))(1 \<mapsto> demo_buffer True)\<rparr>)) (\<lambda>s.
       seq (find_client_start (Suc (Suc 0)) 7 (listener_join 7
             \<lparr>cl_check = Format_check_file_buffer, cl_refbuf = None, cl_pos = 0, intro_offset = 0\<rparr> s)) (\<lambda>s.
         source_append (Suc (Suc 0)) 2 (s\<lparr>mem := (mem s)(2 \<mapsto> demo_buffer sy)\<rparr>)))"

definition demo_state :: "bool \<Rightarrow> stream" where
  "demo_state sy =
     \<lparr>mem = [2 \<mapsto> \<lparr>rb_len = 4, rb_count = Suc (Suc 0), rb_data = [1, 2, 3, 4], associated = None, nxt = None,
                  sync_point = sy\<rparr>,
             1 \<mapsto> \<lparr>rb_len = 4, rb_count = Suc (Suc 0), rb_data = [1, 2, 3, 4], associated = None, nxt = Some 2,
                  sync_point = True\<rparr>],
      stream_data = Some 1, stream_data_tail = Some 2, burst_point = Some 2, queue_size = 8,
      queue_size_limit = 6, burst_size = 5, burst_offset = 4, running = True,
      listeners_of = [7 \<mapsto> \<lparr>cl_check = Format_advance_queue, cl_refbuf = Some 1, cl_pos = 0, intro_offset = -1\<rparr>]\<rparr>"

lemma release_unfold: "release p s = in_mem s (refbuf_release (Suc (Suc 0)) p)"
  by (simp add: release_def numeral_2_eq_2)

lemmas queue_ops = source_append_def find_client_start_def client_set_queue_def deref_def in_mem_def
  refbuf_addref_def release_unfold listener_join_def tail_is_sync_def dec_count_def

lemma demo_run_ok: "demo_run sy = ok (demo_state sy)"
  by (simp add: demo_run_def demo_state_def queue_ops demo_buffer_def fresh_stream_def Let_def)

lemma demo_reach: "queue_reach (demo_state sy)"
proof -
  obtain s1 s2 where s1: "source_append (Suc 0) 1 ((fresh_stream 6 5)\<lparr>mem := (mem (fresh_stream 6 5))(1 \<mapsto> demo_buffer True)\<rparr>) = ok s1"
    and s2: "find_client_start (Suc (Suc 0)) 7 (listener_join 7
             \<lparr>cl_check = Format_check_file_buffer, cl_refbuf = None, cl_pos = 0, intro_offset = 0\<rparr> s1) = ok s2"
    and s3: "source_append (Suc (Suc 0)) 2 (s2\<lparr>mem := (mem s2)(2 \<mapsto> demo_buffer sy)\<rparr>) = ok (demo_state sy)"
    using demo_run_ok [of sy] by (auto simp: demo_run_def seq_ok)
  have e: "mem s2 2 = None" "listeners_of s1 7 = None"
    using s1 s2 by (auto simp: queue_ops demo_buffer_def fresh_stream_def Let_def)
  have "queue_reach s1"
    by (rule queue_reach.step [OF queue_reach.initial queue_step.append [OF _ _ _ _ s1]])
      (simp_all add: fresh_stream_def demo_buffer_def)
  then have "queue_reach s2"
    by (rule queue_reach.step [OF queue_reach.step [OF _ queue_step.join [OF e(2)]] queue_step.start [OF s2]])
  then show ?thesis
    by (rule queue_reach.step [OF _ queue_step.append [OF e(1) _ _ _ s3]]) (simp_all add: demo_buffer_def)
qed





text \<open>
  C5: at the end of a turn in which the queue is over its limit and holds buffers that are not part of
  the burst, the oldest buffer is freed, because the listeners that still send it have been removed.
  So the queue never keeps growing behind a slow listener.
\<close>

theorem full_queue_shrinks:
  assumes "queue_reach s" and "queue_full s" and "stream_data s = Some a" and "burst_point s \<noteq> Some a"
    and "set cs = dom (listeners_of s)" and "distinct cs"
  shows "\<exists>n s'. source_turn_end n cs s = ok s' \<and> mem s' a = None \<and> stream_data s' \<noteq> Some a"
proof -
  obtain as bs where i: "queue_inv as bs s" using queue_reach_inv [OF assms(1)] by blast
  have as: "as \<noteq> []" "hd as = a"
    using i assms(3, 4) by (cases as; cases bs; auto simp: inv_with_def shape_def)+
  obtain s' ds as' where s': "source_turn_end (Suc (length as)) cs s = ok s'" "as = ds @ as'" "queue_inv as' bs s'"
    "\<forall>a\<in>set ds. mem s' a = None" "ds \<noteq> []"
    using source_turn_end_inv [OF i lessI assms(6, 5)] assms(2) as(1) by blast
  then have m: "mem s' a = None" using as by (cases ds) auto
  moreover have "stream_data s' \<noteq> Some a"
  proof
    assume "stream_data s' = Some a"
    then have "a \<in> set (as' @ bs)" using s'(3) by (cases "as' @ bs") (auto simp: inv_with_def shape_def)
    with s'(3) m show False by (auto elim: inv_withD)
  qed
  ultimately show ?thesis using s'(1) by blast
qed

theorem full_queue_shrinks_witness:
  "\<exists>n s'. source_turn_end n [7] (demo_state True) = ok s' \<and> mem s' 1 = None \<and> stream_data s' \<noteq> Some 1"
  by (rule full_queue_shrinks [OF demo_reach [of True]]) (simp_all add: demo_state_def queue_full_def)

text \<open>Where a listener is placed when the walk over the intro ends at \<open>p\<close>.\<close>

lemma find_client_start_at:
  assumes "queue_inv as bs s" and "listeners_of s c = Some l" and "chain (mem s) p ys" and "length ys < n"
    and "seq (if intro_offset l = -1 then tail_is_sync s else ok False) (\<lambda>ts.
           if ts then ok (stream_data_tail s)
           else skip_intro n (word_of_int (intro_offset l)) (burst_point s) s) = ok p"
    and "set ys \<subseteq> set (as @ bs)"
  shows "case find (syncs s) ys of
       None \<Rightarrow> find_client_start n c s = ok s
     | Some a \<Rightarrow> \<exists>s'. find_client_start n c s = ok s' \<and> listeners_of s' = (listeners_of s)(c \<mapsto>
         l\<lparr>cl_refbuf := Some a, cl_pos := 0, cl_check := Format_advance_queue, intro_offset := -1\<rparr>)"
proof -
  have fc: "find_client_start n c s = seq (ok (find (syncs s) ys)) (\<lambda>q.
      case q of None \<Rightarrow> ok s
      | Some a \<Rightarrow> seq (client_set_queue c (Some a) s) (\<lambda>s.
          ok (s\<lparr>listeners_of := (listeners_of s)(c := map_option
            (\<lambda>l. l\<lparr>cl_check := Format_advance_queue, intro_offset := -1\<rparr>) (listeners_of s c))\<rparr>)))"
    unfolding find_client_start_def
    by (simp only: assms(2) option.case seq_assoc [symmetric] assms(5) find_sync_chain [OF assms(3, 4)] seq_simps)
  show ?thesis
  proof (cases "find (syncs s) ys")
    case (Some a)
    then have "a \<in> set (as @ bs)" using assms(6) nth_mem by (fastforce simp: find_Some_iff)
    then obtain s' where s': "client_set_queue c (Some a) s = ok s'"
      "s' = s\<lparr>listeners_of := (listeners_of s)(c \<mapsto> l\<lparr>cl_refbuf := Some a, cl_pos := 0\<rparr>), mem := mem s'\<rparr>"
      using client_set_queue_inv [OF assms(1, 2), of "Some a"] by blast
    have "listeners_of s' = (listeners_of s)(c \<mapsto> l\<lparr>cl_refbuf := Some a, cl_pos := 0\<rparr>)"
      using arg_cong [OF s'(2), of listeners_of] by simp
    then show ?thesis using fc Some s'(1) by simp
  qed (use fc in simp)
qed

text \<open>
  C37: a new listener (no intro played) is placed on the first buffer of the burst, from \<^verbatim>\<open>burst_point\<close> on,
  that is a point to start from, at its first byte; without one it stays where it is and the state
  does not change.
\<close>

theorem new_listener_gets_burst:
  assumes "queue_reach s" and "listeners_of s c = Some l" and "intro_offset l = 0"
    and "chain (mem s) (burst_point s) bs" and "length bs < n"
  shows "case find (syncs s) bs of
       None \<Rightarrow> find_client_start n c s = ok s
     | Some a \<Rightarrow> \<exists>s'. find_client_start n c s = ok s' \<and> listeners_of s' = (listeners_of s)(c \<mapsto>
         l\<lparr>cl_refbuf := Some a, cl_pos := 0, cl_check := Format_advance_queue, intro_offset := -1\<rparr>)"
proof -
  obtain as bs' where i: "queue_inv as bs' s" using queue_reach_inv [OF assms(1)] by blast
  have "bs' = bs" using chain_burst [OF i] assms(4) by (rule chain_unique)
  moreover have "skip_intro n 0 (burst_point s) s = ok (burst_point s)"
    using assms(5) by (cases n) (auto split: option.splits)
  ultimately show ?thesis
    using find_client_start_at [OF i assms(2, 4, 5)] assms(3) by simp
qed

theorem new_listener_gets_burst_witness:
  "\<exists>s' l. find_client_start 3 8 (listener_join 8
     \<lparr>cl_check = Format_check_file_buffer, cl_refbuf = None, cl_pos = 0, intro_offset = 0\<rparr> (demo_state True)) = ok s'
     \<and> listeners_of s' 8 = Some l \<and> cl_refbuf l = Some 2"
proof -
  let ?l = "\<lparr>cl_check = Format_check_file_buffer, cl_refbuf = None, cl_pos = 0, intro_offset = 0\<rparr>"
  let ?s = "listener_join 8 ?l (demo_state True)"
  have "queue_reach ?s"
    by (rule queue_reach.step [OF demo_reach queue_step.join]) (simp add: demo_state_def)
  moreover have "chain (mem ?s) (burst_point ?s) [2]" "find (syncs ?s) [2] = Some 2"
    by (simp_all add: listener_join_def demo_state_def syncs_def)
  moreover have "listeners_of ?s 8 = Some ?l" by (simp add: listener_join_def)
  ultimately show ?thesis using new_listener_gets_burst [of ?s 8 ?l "[2]" 3] by auto
qed

lemma skip_intro_to_last:
  "chain (mem s) p xs \<Longrightarrow> xs \<noteq> [] \<Longrightarrow> length xs \<le> n \<Longrightarrow> sum_list (map (\<lambda>a. unat (blen s a)) xs) < unat k \<Longrightarrow>
     skip_intro n k p s = ok (Some (last xs))"
proof (induction xs arbitrary: p n k)
  case (Cons a xs)
  then obtain m r where m: "n = Suc m" and r: "p = Some a" "mem s a = Some r" "chain (mem s) (nxt r) xs"
    by (cases n) auto
  have b: "unat (blen s a) = unat (rb_len r)" by (simp add: blen_def r)
  have le: "unat (rb_len r) \<le> unat k" using Cons.prems(4) b by simp
  have "unat (ucast (rb_len r) :: u64) = unat (rb_len r)"
    using unsigned_less [of "rb_len r", where 'a = nat] by (simp add: unsigned_ucast_eq take_bit_nat_eq_self_iff)
  then have "unat (k - ucast (rb_len r)) = unat k - unat (rb_len r)"
    using le by (simp add: unat_sub_if')
  then have lt: "sum_list (map (\<lambda>a. unat (blen s a)) xs) < unat (k - ucast (rb_len r))"
    using Cons.prems(4) b by simp
  have k: "k \<noteq> 0" using Cons.prems(4) by auto
  show ?case
  proof (cases xs)
    case Nil
    then show ?thesis using m r k by (simp add: deref_def)
  next
    case (Cons b ys)
    then show ?thesis using m r k Cons.prems(3) Cons.IH [OF r(3) _ _ lt, of m] by (simp add: deref_def)
  qed
qed simp

text \<open>
  a listener that joins midstream (intro offset -1) while the newest buffer is not a point to start
  from is not placed, even when an earlier buffer of the burst is: the offset -1 becomes the largest
  64-bit size, so the walk that should look from the burst point skips to the newest buffer.
\<close>

theorem midstream_listener_waits:
  assumes "queue_reach s" and "listeners_of s c = Some l" and "intro_offset l = -1"
    and "chain (mem s) (burst_point s) bs" and "bs \<noteq> []" and "length bs < n" and "\<not> syncs s (last bs)"
    and "sum_list (map (\<lambda>a. unat (blen s a)) bs) < 2 ^ 64 - 1"
  shows "find_client_start n c s = ok s"
proof -
  obtain as bs' where i: "queue_inv as bs' s" using queue_reach_inv [OF assms(1)] by blast
  have bs: "bs' = bs" using chain_burst [OF i] assms(4) by (rule chain_unique)
  obtain xs b where xs: "bs = xs @ [b]" using assms(5) by (cases bs rule: rev_cases) auto
  obtain r where r: "mem s b = Some r" "nxt r = None"
    using chain_drop [of "mem s" "burst_point s" xs "[b]"] assms(4) xs by auto
  have t: "tail_is_sync s = ok False"
    using i assms(7) r bs by (simp add: inv_with_def shape_def tail_is_sync_def deref_def syncs_def xs)
  have "unat (- 1 :: u64) = 2 ^ 64 - 1" by (simp add: unsigned_minus_1_eq_mask mask_eq_exp_minus_1)
  then have "skip_intro n (- 1) (burst_point s) s = ok (Some b)"
    using skip_intro_to_last [OF assms(4, 5), of n "- 1"] assms(6, 8) by (simp add: xs)
  then show ?thesis
    using find_client_start_at [OF i assms(2), of "Some b" "[b]" n] r t assms(3, 6, 7) bs
    by (simp add: xs syncs_def split: option.splits)
qed

theorem midstream_listener_waits_witness:
  "find_client_start 2 7 (demo_state False) = ok (demo_state False)"
proof -
  have "chain (mem (demo_state False)) (burst_point (demo_state False)) [2]" by (simp add: demo_state_def)
  then show ?thesis
    using midstream_listener_waits [OF demo_reach, of False 7 _ "[2]" 2]
    by (simp add: demo_state_def syncs_def blen_def)
qed

text \<open>
  a listener reads the queue in order and without a gap: a check of its buffer leaves it where it
  is as long as the buffer has bytes left or is the newest one (then there is nothing to write), and
  otherwise puts it at the first byte of the next buffer of the queue.
\<close>

theorem listener_follows_queue:
  assumes "queue_reach s" and "listeners_of s c = Some l" and "cl_refbuf l = Some a"
    and "chain (mem s) (stream_data s) (xs @ a # ys)" and "mem s a = Some r"
  shows "if cl_pos l \<noteq> rb_len r then format_advance_queue c s = ok (0, s)
     else if ys = [] then format_advance_queue c s = ok (-1, s)
     else (\<exists>s'. format_advance_queue c s = ok (0, s') \<and>
            listeners_of s' = (listeners_of s)(c \<mapsto> l\<lparr>cl_refbuf := Some (hd ys), cl_pos := 0\<rparr>))"
proof -
  obtain as bs where i: "queue_inv as bs s" using queue_reach_inv [OF assms(1)] by blast
  have "chain (mem s) (stream_data s) (as @ bs)" using i by (simp add: inv_with_def shape_def)
  then have q: "as @ bs = xs @ a # ys" using assms(4) by (rule chain_unique)
  have n: "nxt r = (if ys = [] then None else Some (hd ys))"
    using inv_next [OF i q assms(5)] by (cases ys) auto
  show ?thesis
  proof (cases "ys \<noteq> [] \<and> cl_pos l = rb_len r")
    case True
    then have "hd ys \<in> set (as @ bs)" unfolding q by (cases ys) auto
    then obtain s' where s': "client_set_queue c (Some (hd ys)) s = ok s'"
      "s' = s\<lparr>listeners_of := (listeners_of s)(c \<mapsto> l\<lparr>cl_refbuf := Some (hd ys), cl_pos := 0\<rparr>), mem := mem s'\<rparr>"
      using client_set_queue_inv [OF i assms(2), of "Some (hd ys)"] by blast
    have "listeners_of s' = (listeners_of s)(c \<mapsto> l\<lparr>cl_refbuf := Some (hd ys), cl_pos := 0\<rparr>)"
      using arg_cong [OF s'(2), of listeners_of] by simp
    then show ?thesis using True assms n s'(1) by (simp add: format_advance_queue_def deref_def)
  next
    case False
    then show ?thesis using assms n by (auto simp: format_advance_queue_def deref_def)
  qed
qed

theorem listener_follows_queue_witness:
  "format_advance_queue 7 (demo_state True) = ok (0, demo_state True)"
proof -
  have c: "chain (mem (demo_state True)) (stream_data (demo_state True)) ([] @ 1 # [2])" by (simp add: demo_state_def)
  obtain l r where "listeners_of (demo_state True) 7 = Some l" "cl_refbuf l = Some 1" "mem (demo_state True) 1 = Some r"
    "cl_pos l \<noteq> rb_len r" by (simp add: demo_state_def)
  then show ?thesis using listener_follows_queue [OF demo_reach _ _ c, of 7 l r] by simp
qed

section \<open>The end of a source\<close>

lemma release_times:
  "mem s a = Some r \<Longrightarrow> k < rb_count r \<Longrightarrow>
     ((\<lambda>m. seq m (release (Some a))) ^^ k) (ok s) = ok (s\<lparr>mem := (mem s)(a \<mapsto> r\<lparr>rb_count := rb_count r - k\<rparr>)\<rparr>)"
proof (induction k)
  case (Suc k)
  let ?r = "r\<lparr>rb_count := rb_count r - k\<rparr>"
  have "refbuf_release (Suc (Suc 0)) (Some a) ((mem s)(a \<mapsto> ?r))
      = ok ((mem s)(a \<mapsto> r\<lparr>rb_count := rb_count r - Suc k\<rparr>))"
    using release_more [of "(mem s)(a \<mapsto> ?r)" a ?r "Suc 0"] Suc.prems(2) by (simp del: refbuf_release.simps)
  then have "release (Some a) (s\<lparr>mem := (mem s)(a \<mapsto> ?r)\<rparr>) = ok (s\<lparr>mem := (mem s)(a \<mapsto> r\<lparr>rb_count := rb_count r - Suc k\<rparr>)\<rparr>)"
    by (simp add: release_unfold in_mem_def del: refbuf_release.simps)
  with Suc show ?case by (simp add: fun_upd_def)
qed (simp add: fun_upd_idem)

lemma clear_loop_frees:
  "chain (mem s) (stream_data s) xs \<Longrightarrow> distinct xs \<Longrightarrow>
   \<forall>a\<in>set xs. \<exists>r. mem s a = Some r \<and> 0 < rb_count r \<and> associated r = None \<Longrightarrow> length xs < n \<Longrightarrow>
     clear_loop n s = ok (s\<lparr>stream_data := None, mem := (\<lambda>a. if a \<in> set xs then None else mem s a)\<rparr>)"
proof (induction xs arbitrary: s n)
  case Nil
  then show ?case by (cases n) auto
next
  case (Cons a xs)
  then obtain m r where m: "n = Suc m" and r: "stream_data s = Some a" "mem s a = Some r" "chain (mem s) (nxt r) xs"
    "0 < rb_count r" "associated r = None"
    by (cases n) auto
  let ?s1 = "s\<lparr>stream_data := nxt r, mem := (mem s)(a \<mapsto> r\<lparr>nxt := None\<rparr>)\<rparr>"
  let ?s2 = "s\<lparr>stream_data := nxt r, mem := (mem s)(a \<mapsto> r\<lparr>nxt := None, rb_count := 1\<rparr>)\<rparr>"
  let ?s3 = "s\<lparr>stream_data := nxt r, mem := (mem s)(a := None)\<rparr>"
  have "((\<lambda>m. seq m (release (Some a))) ^^ (if rb_count r > 1 then rb_count r - 1 else 0)) (ok ?s1) = ok ?s2"
  proof -
    have "(if rb_count r > 1 then rb_count r - 1 else 0) = rb_count r - 1" by simp
    then show ?thesis
      using release_times [of ?s1 a "r\<lparr>nxt := None\<rparr>" "rb_count r - 1"] r(4) by (simp only:) simp
  qed
  moreover have "release (Some a) ?s2 = ok ?s3"
    using release_last [of "mem ?s2" a "r\<lparr>nxt := None, rb_count := 1\<rparr>" 0] r(5)
    by (simp add: release_unfold in_mem_def del: refbuf_release.simps)
  ultimately have "clear_loop n s = clear_loop m ?s3" using r(1, 2) by (simp add: m deref_def)
  also have "\<dots> = ok (?s3\<lparr>stream_data := None, mem := (\<lambda>b. if b \<in> set xs then None else mem ?s3 b)\<rparr>)"
  proof (rule Cons.IH)
    have "chain ((mem s)(a := None)) (nxt r) xs = chain (mem s) (nxt r) xs"
      using Cons.prems(2) by (intro chain_cong) auto
    then show "chain (mem ?s3) (stream_data ?s3) xs" using r(3) by simp
  qed (use Cons.prems m in auto)
  also have "\<dots> = ok (s\<lparr>stream_data := None, mem := (\<lambda>b. if b \<in> set (a # xs) then None else mem s b)\<rparr>)"
    by (auto simp: fun_eq_iff intro!: stream.equality)
  finally show ?case .
qed

text \<open>
  when a source ends, clearing its queue frees every buffer of the queue, whatever references the
  burst still had, frees nothing else, touches no freed buffer, and leaves an empty queue with the
  sizes at 0. The fuel needed is one more than the number of buffers.
\<close>

theorem clear_frees_queue:
  assumes "queue_reach s" and "chain (mem s) (stream_data s) xs" and "length xs < n"
  shows "\<exists>s'. source_clear_queue n s = ok s' \<and> mem s' = (\<lambda>a. if a \<in> set xs then None else mem s a)
     \<and> stream_data s' = None \<and> stream_data_tail s' = None \<and> burst_point s' = None
     \<and> queue_size s' = 0 \<and> burst_offset s' = 0"
proof -
  obtain as bs where i: "queue_inv as bs s" using queue_reach_inv [OF assms(1)] by blast
  have "chain (mem s) (stream_data s) (as @ bs)" using i by (simp add: inv_with_def shape_def)
  then have xs: "xs = as @ bs" using assms(2) by (rule chain_unique [THEN sym])
  have "\<exists>r. mem s a = Some r \<and> 0 < rb_count r \<and> associated r = None" if a: "a \<in> set xs" for a
  proof -
    obtain r where "mem s a = Some r" "associated r = None" "int (rb_count r) = refs_at (\<lambda>_. 0) bs s a"
      using inv_withD [OF i] a xs by blast
    moreover have "0 < refs_at (\<lambda>_. 0) bs s a" by (simp add: refs_at_def)
    ultimately show ?thesis by simp
  qed
  moreover have "distinct xs" using i xs by (simp add: inv_with_def shape_def)
  ultimately show ?thesis
    using clear_loop_frees [OF assms(2) _ _ assms(3)] by (simp add: source_clear_queue_def)
qed

theorem clear_frees_queue_witness:
  "\<exists>s'. source_clear_queue 3 (demo_state True) = ok s' \<and> stream_data s' = None \<and> mem s' 1 = None \<and> mem s' 2 = None"
proof -
  have "chain (mem (demo_state True)) (stream_data (demo_state True)) [1, 2]" by (simp add: demo_state_def)
  then show ?thesis using clear_frees_queue [OF demo_reach, of True "[1, 2]" 3] by auto
qed

end
