(* ===== verification/String_Tree.thy ===== *)
theory String_Tree
  imports Prelude "HOL-Library.Tree"
begin

text \<open>
  Search trees ordered by a string, as the AVL trees of the library that the server uses: \<^verbatim>\<open>strcmp\<close>,
  the search the server writes out itself, and what it relies on of the insertion and the deletion
  of the library, stated for any key.
\<close>

section \<open>Comparing strings\<close>

text \<open>\<^verbatim>\<open>strcmp\<close>: the sign of the comparison as unsigned characters.\<close>

fun strcmp :: "string \<Rightarrow> string \<Rightarrow> int" where
  "strcmp [] [] = 0"
| "strcmp [] (y # ys) = -1"
| "strcmp (x # xs) [] = 1"
| "strcmp (x # xs) (y # ys) =
     (if code x < code y then -1 else if code y < code x then 1 else strcmp xs ys)"

lemma strcmp_eq_0 [simp]: "strcmp s t = 0 \<longleftrightarrow> s = t"
proof (induction s t rule: strcmp.induct)
  case (4 x xs y ys)
  have "code x < code y \<or> code y < code x \<or> x = y" by (metis code_inject linorder_neqE_nat)
  then show ?case using 4 by auto
qed auto

lemma strcmp_zero: "\<not> strcmp s t < 0 \<Longrightarrow> \<not> 0 < strcmp s t \<Longrightarrow> s = t"
  using strcmp_eq_0 [of s t] by linarith

lemma strcmp_refl [simp]: "strcmp s s = 0"
  by simp

lemma strcmp_swap: "strcmp t s = - strcmp s t"
  by (induction s t rule: strcmp.induct) auto

lemma strcmp_less_trans: "strcmp s t < 0 \<Longrightarrow> strcmp t u < 0 \<Longrightarrow> strcmp s u < 0"
proof (induction s t arbitrary: u rule: strcmp.induct)
  case (2 y ys)
  then show ?case by (cases u) auto
next
  case (4 x xs y ys)
  then obtain z zs where u: "u = z # zs" by (cases u) auto
  have a: "code x < code y \<or> code x = code y \<and> strcmp xs ys < 0"
    using "4.prems"(1) by (simp split: if_split_asm)
  have b: "code y < code z \<or> code y = code z \<and> strcmp ys zs < 0"
    using "4.prems"(2) unfolding u by (simp split: if_split_asm)
  show ?case
  proof (cases "code x < code z")
    case False
    with a b have "code x = code y" "code y = code z" "strcmp xs ys < 0" "strcmp ys zs < 0" by linarith+
    then show ?thesis unfolding u using "4.IH" [of zs] by simp
  qed (simp add: u)
qed simp_all

section \<open>Trees\<close>

text \<open>The search, as the server writes it for each kind of tree.\<close>

fun find_in :: "('a \<Rightarrow> string) \<Rightarrow> string \<Rightarrow> 'a tree \<Rightarrow> 'a option" where
  "find_in key name Leaf = None"
| "find_in key name (Node l x r) =
     (let cmp = strcmp name (key x)
      in if cmp < 0 then find_in key name l
         else if cmp > 0 then find_in key name r
         else Some x)"

fun in_order :: "('a \<Rightarrow> string) \<Rightarrow> 'a tree \<Rightarrow> bool" where
  "in_order key Leaf = True"
| "in_order key (Node l x r) \<longleftrightarrow>
     (\<forall>y\<in>set_tree l. strcmp (key y) (key x) < 0) \<and> (\<forall>y\<in>set_tree r. strcmp (key x) (key y) < 0)
     \<and> in_order key l \<and> in_order key r"

record 'a tree_ops =
  t_insert :: "'a \<Rightarrow> 'a tree \<Rightarrow> 'a tree"
  t_delete :: "'a \<Rightarrow> 'a tree \<Rightarrow> 'a tree"

text \<open>What the library promises.\<close>

definition ops_ok :: "('a \<Rightarrow> string) \<Rightarrow> 'a tree_ops \<Rightarrow> bool" where
  "ops_ok key ops \<longleftrightarrow>
     (\<forall>x t. in_order key t \<longrightarrow> find_in key (key x) t = None \<longrightarrow>
        in_order key (t_insert ops x t) \<and> set_tree (t_insert ops x t) = insert x (set_tree t))
     \<and> (\<forall>x t. in_order key t \<longrightarrow>
        in_order key (t_delete ops x t) \<and> set_tree (t_delete ops x t) = {y \<in> set_tree t. key y \<noteq> key x})"

text \<open>A change of an element through its pointer.\<close>

definition put_in :: "('a \<Rightarrow> string) \<Rightarrow> 'a \<Rightarrow> 'a tree \<Rightarrow> 'a tree" where
  "put_in key x t = map_tree (\<lambda>y. if key y = key x then x else y) t"

lemma find_in_Some: "in_order key t \<Longrightarrow> find_in key m t = Some x \<longleftrightarrow> x \<in> set_tree t \<and> key x = m"
proof (induction t)
  case (Node l y r)
  consider "strcmp m (key y) < 0" | "strcmp m (key y) > 0" | "m = key y"
    by (metis linorder_neqE strcmp_eq_0)
  then show ?case
  proof cases
    case 1
    then have "key z \<noteq> m" if "z \<in> set_tree r" for z
      using that Node.prems strcmp_less_trans [of m "key y" "key z"] by auto
    then show ?thesis using 1 Node by auto
  next
    case 2
    then have "strcmp (key y) m < 0" using strcmp_swap [of m "key y"] by simp
    then have "key z \<noteq> m" if "z \<in> set_tree l" for z
      using that Node.prems strcmp_less_trans [of "key z" "key y" m] by auto
    then show ?thesis using 2 Node by auto
  next
    case 3
    then have "key z \<noteq> m" if "z \<in> set_tree l \<union> set_tree r" for z
      using that Node.prems by auto
    then show ?thesis using 3 by auto
  qed
qed simp

lemma find_in_key: "find_in key m t = Some x \<Longrightarrow> key x = m"
proof (induction t)
  case (Node l y r)
  then show ?case using strcmp_zero [of m "key y"] by (auto simp: Let_def split: if_splits)
qed simp

lemma find_in_eqI:
  assumes "in_order key t" and "in_order key t'" and "\<And>x. key x = m \<Longrightarrow> x \<in> set_tree t \<longleftrightarrow> x \<in> set_tree t'"
  shows "find_in key m t = find_in key m t'"
proof (cases "find_in key m t")
  case None
  then show ?thesis using find_in_Some [OF assms(1)] find_in_Some [OF assms(2)] assms(3)
    by (metis option.exhaust option.distinct(1))
next
  case (Some x)
  then show ?thesis using find_in_Some [OF assms(1)] find_in_Some [OF assms(2), of m x] assms(3) by auto
qed

lemma find_in_insert:
  assumes "ops_ok key ops" and "in_order key t" and "find_in key (key x) t = None"
  shows "in_order key (t_insert ops x t)"
    and "find_in key m (t_insert ops x t) = (if m = key x then Some x else find_in key m t)"
proof -
  have i: "in_order key (t_insert ops x t)" "set_tree (t_insert ops x t) = insert x (set_tree t)"
    using assms by (simp_all add: ops_ok_def)
  have "find_in key (key x) (t_insert ops x t) = Some x" using find_in_Some [OF i(1)] i(2) by simp
  moreover have "find_in key m (t_insert ops x t) = find_in key m t" if "m \<noteq> key x"
    using i that by (intro find_in_eqI assms(2)) auto
  ultimately show "find_in key m (t_insert ops x t) = (if m = key x then Some x else find_in key m t)" by simp
  show "in_order key (t_insert ops x t)" by (rule i(1))
qed

lemma find_in_delete:
  assumes "ops_ok key ops" and "in_order key t"
  shows "in_order key (t_delete ops x t)"
    and "find_in key m (t_delete ops x t) = (if m = key x then None else find_in key m t)"
proof -
  have d: "in_order key (t_delete ops x t)" "set_tree (t_delete ops x t) = {y \<in> set_tree t. key y \<noteq> key x}"
    using assms by (simp_all add: ops_ok_def)
  have "find_in key (key x) (t_delete ops x t) = None"
    using find_in_Some [OF d(1), of "key x"] d(2) by (cases "find_in key (key x) (t_delete ops x t)") auto
  moreover have "find_in key m (t_delete ops x t) = find_in key m t" if "m \<noteq> key x"
    using d that by (intro find_in_eqI assms(2)) auto
  ultimately show "find_in key m (t_delete ops x t) = (if m = key x then None else find_in key m t)" by simp
  show "in_order key (t_delete ops x t)" by (rule d(1))
qed

lemma in_order_map: "(\<And>x. key (f x) = key x) \<Longrightarrow> in_order key (map_tree f t) = in_order key t"
  by (induction t) (simp_all add: tree.set_map)

lemma in_order_put [simp]: "in_order key (put_in key x t) = in_order key t"
  unfolding put_in_def by (rule in_order_map) simp

lemma find_in_map:
  "(\<And>x. key (f x) = key x) \<Longrightarrow> find_in key m (map_tree f t) = map_option f (find_in key m t)"
  by (induction t) (simp_all add: Let_def)

lemma find_in_put:
  "find_in key m (put_in key x t) = (if m = key x \<and> find_in key m t \<noteq> None then Some x else find_in key m t)"
proof -
  have "find_in key m (put_in key x t) = map_option (\<lambda>y. if key y = key x then x else y) (find_in key m t)"
    unfolding put_in_def by (rule find_in_map) simp
  then show ?thesis by (cases "find_in key m t") (auto dest: find_in_key)
qed

lemma set_put: "y \<in> set_tree (put_in key x t) \<Longrightarrow> y = x \<or> y \<in> set_tree t"
  by (auto simp: put_in_def tree.set_map)

section \<open>An example of such a library\<close>

text \<open>Insertion without balancing, and deletion by building the tree anew.\<close>

fun bst_insert :: "('a \<Rightarrow> string) \<Rightarrow> 'a \<Rightarrow> 'a tree \<Rightarrow> 'a tree" where
  "bst_insert key x Leaf = Node Leaf x Leaf"
| "bst_insert key x (Node l y r) =
     (if strcmp (key x) (key y) < 0 then Node (bst_insert key x l) y r else Node l y (bst_insert key x r))"

definition bst_ops :: "('a \<Rightarrow> string) \<Rightarrow> 'a tree_ops" where
  "bst_ops key = \<lparr>t_insert = bst_insert key,
     t_delete = (\<lambda>x t. fold (bst_insert key) (filter (\<lambda>y. key y \<noteq> key x) (inorder t)) Leaf)\<rparr>"

lemma bst_insert_ok:
  "in_order key t \<Longrightarrow> find_in key (key x) t = None \<Longrightarrow>
     in_order key (bst_insert key x t) \<and> set_tree (bst_insert key x t) = insert x (set_tree t)"
proof (induction t)
  case (Node l y r)
  show ?case
  proof (cases "strcmp (key x) (key y) < 0")
    case True
    then show ?thesis using Node by auto
  next
    case False
    then have "strcmp (key y) (key x) < 0" "0 < strcmp (key x) (key y)"
      using Node.prems(2) strcmp_swap [of "key y" "key x"]
      by (auto simp: Let_def linorder_neq_iff split: if_splits simp del: strcmp_eq_0)
    then show ?thesis using Node by auto
  qed
qed simp

lemma fold_bst_insert:
  "in_order key t \<Longrightarrow> distinct (map key ys) \<Longrightarrow> (\<forall>y\<in>set ys. find_in key (key y) t = None) \<Longrightarrow>
     in_order key (fold (bst_insert key) ys t) \<and> set_tree (fold (bst_insert key) ys t) = set ys \<union> set_tree t"
proof (induction ys arbitrary: t)
  case (Cons y ys)
  have y: "in_order key (bst_insert key y t)" "set_tree (bst_insert key y t) = insert y (set_tree t)"
    using bst_insert_ok [of key t y] Cons.prems by simp_all
  have "find_in key (key z) (bst_insert key y t) = find_in key (key z) t" if "z \<in> set ys" for z
    using y that Cons.prems by (intro find_in_eqI) auto
  with Cons.prems have "\<forall>z\<in>set ys. find_in key (key z) (bst_insert key y t) = None" by simp
  with Cons.IH [OF y(1)] Cons.prems(2) y(2) show ?case by auto
qed simp

lemma in_order_distinct: "in_order key t \<Longrightarrow> distinct (map key (inorder t))"
proof (induction t)
  case (Node l s r)
  have less: "strcmp (key x) (key y) < 0" if "x \<in> set_tree l" "y \<in> set_tree r" for x y
    using Node.prems that strcmp_less_trans [of "key x" "key s" "key y"] by auto
  show ?case using Node less by force
qed simp

lemma bst_ops_ok: "ops_ok key (bst_ops key)"
proof -
  have "in_order key (t_delete (bst_ops key) x t)
      \<and> set_tree (t_delete (bst_ops key) x t) = {y \<in> set_tree t. key y \<noteq> key x}"
    if "in_order key t" for x t
    using fold_bst_insert [of key Leaf "filter (\<lambda>y. key y \<noteq> key x) (inorder t)"] in_order_distinct [OF that]
    by (auto simp: bst_ops_def distinct_map_filter)
  then show ?thesis using bst_insert_ok by (simp add: ops_ok_def) (simp add: bst_ops_def bst_insert_ok)
qed

end
