(* ===== verification/Source.thy ===== *)
theory Source
  imports Cfgfile Errors Playlist Stream_Queue String_Tree "HOL-Library.Multiset"
begin

text \<open>
  Sources and their listeners (\<^verbatim>\<open>src/src/source.c\<close>): the tree of mountpoints and the search in it,
  the search along the fallbacks, moving listeners from one source to another, the listener part of
  a turn of the main loop, the end of a source, and the settings a source takes from its mount and
  from the headers of its client.

  The AVL trees come from a library. The search in the tree of sources is code of the server and
  runs on a binary tree; the trees of listeners appear as the lists of their keys in order, and
  the insertion of the library is the parameter \<open>avl_insert\<close>. Locks are left out: an operation is
  one step.
\<close>

section \<open>Definitions\<close>

text \<open>A listener as far as its source deals with it.\<close>

record client =
  con_id :: nat
  con_error :: bool
  respcode :: int
  clnt_check :: check_buffer
  clnt_refbuf :: "addr option"
  clnt_intro_offset :: int

record source =
  src_mount :: string
  src_running :: bool
  on_demand :: bool
  on_demand_req :: bool
  src_format :: "nat option"
  src_con :: bool
  src_client :: bool
  client_tree :: "client list"
  pending_tree :: "client list"
  n_listeners :: u64
  prev_listeners :: u64
  peak_listeners :: u64
  src_max_listeners :: int
  src_fallback_mount :: "string option"
  src_fallback_override :: int
  src_fallback_when_full :: int
  src_hidden :: int
  src_yp_public :: int
  src_dumpfilename :: "string option"
  src_intro_file :: "string option"
  src_queue_size_limit :: u32
  src_timeout :: u32
  src_burst_size :: u32
  src_history :: "playlist option"

definition source_compare_sources :: "source \<Rightarrow> source \<Rightarrow> int" where
  "source_compare_sources a b = strcmp (src_mount a) (src_mount b)"

fun find_raw :: "string \<Rightarrow> source tree \<Rightarrow> source option" where
  "find_raw mount Leaf = None"
| "find_raw mount (Node l source r) =
     (let cmp = strcmp mount (src_mount source)
      in if cmp < 0 then find_raw mount l
         else if cmp > 0 then find_raw mount r
         else Some source)"

definition source_find_mount_raw :: "string option \<Rightarrow> source tree \<Rightarrow> source option" where
  "source_find_mount_raw mount tree =
     (case mount of None \<Rightarrow> None | Some m \<Rightarrow> find_raw m tree)"

definition MAX_FALLBACK_DEPTH :: nat where
  "MAX_FALLBACK_DEPTH = 10"

text \<open>\<open>mounts\<close> is the list of mounts of the current configuration.\<close>

fun find_mount_loop :: "(string \<Rightarrow> string \<Rightarrow> bool) \<Rightarrow> mount_proxy list \<Rightarrow> nat \<Rightarrow> string option \<Rightarrow> source tree \<Rightarrow> source option" where
  "find_mount_loop fnm mounts 0 mount tree = None"
| "find_mount_loop fnm mounts (Suc n) None tree = None"
| "find_mount_loop fnm mounts (Suc n) (Some mount) tree =
     (case source_find_mount_raw (Some mount) tree of
        Some source \<Rightarrow>
          if src_running source \<or> on_demand source then Some source
          else (case config_find_mount fnm mounts (Some mount) MOUNT_TYPE_NORMAL of
                  None \<Rightarrow> None
                | Some mountinfo \<Rightarrow> find_mount_loop fnm mounts n (fallback_mount mountinfo) tree)
      | None \<Rightarrow>
          (case config_find_mount fnm mounts (Some mount) MOUNT_TYPE_NORMAL of
             None \<Rightarrow> None
           | Some mountinfo \<Rightarrow> find_mount_loop fnm mounts n (fallback_mount mountinfo) tree))"

definition source_find_mount :: "(string \<Rightarrow> string \<Rightarrow> bool) \<Rightarrow> mount_proxy list \<Rightarrow> string option \<Rightarrow> source tree \<Rightarrow> source option" where
  "source_find_mount fnm mounts mount tree =
     find_mount_loop fnm mounts MAX_FALLBACK_DEPTH mount tree"

text \<open>A new source, as \<^verbatim>\<open>calloc\<close> and the assignments after it leave it.\<close>

definition new_source :: "string \<Rightarrow> source" where
  "new_source mount =
     \<lparr>src_mount = mount, src_running = False, on_demand = False, on_demand_req = False, src_format = None,
      src_con = False, src_client = False, client_tree = [], pending_tree = [], n_listeners = 0,
      prev_listeners = 0, peak_listeners = 0, src_max_listeners = -1, src_fallback_mount = None,
      src_fallback_override = 0, src_fallback_when_full = 0, src_hidden = 0, src_yp_public = 0,
      src_dumpfilename = None, src_intro_file = None, src_queue_size_limit = 0, src_timeout = 0,
      src_burst_size = 0, src_history = Some (playlist_new 4)\<rparr>"

definition source_reserve ::
    "(source \<Rightarrow> source tree \<Rightarrow> source tree) \<Rightarrow> string \<Rightarrow> source tree \<Rightarrow> source option \<times> source tree" where
  "source_reserve avl_insert mount tree =
     (case source_find_mount_raw (Some mount) tree of
        Some _ \<Rightarrow> (None, tree)
      | None \<Rightarrow> (let src = new_source mount in (Some src, avl_insert src tree)))"

text \<open>The listener leaves its queue, unless it still has the response headers to send.\<close>

definition detach :: "source \<Rightarrow> client \<Rightarrow> client" where
  "detach source client =
     (if clnt_check client \<noteq> Format_check_http_buffer
      then client\<lparr>clnt_refbuf := None, clnt_check := Format_check_file_buffer,
                  clnt_intro_offset := (if \<not> src_con source then -1 else clnt_intro_offset client)\<rparr>
      else client)"

text \<open>The loop that empties a tree of the source into the pending tree of the destination.\<close>

fun pass_clients ::
    "(client \<Rightarrow> client list \<Rightarrow> client list) \<Rightarrow> source \<Rightarrow> client list \<Rightarrow> client list \<times> nat \<Rightarrow> client list \<times> nat" where
  "pass_clients avl_insert source [] (pending, cnt) = (pending, cnt)"
| "pass_clients avl_insert source (client # tree) (pending, cnt) =
     pass_clients avl_insert source tree (avl_insert (detach source client) pending, cnt + 1)"

definition source_move_clients ::
    "(client \<Rightarrow> client list \<Rightarrow> client list) \<Rightarrow> source \<Rightarrow> source \<Rightarrow> source \<times> source" where
  "source_move_clients avl_insert source dest =
     (if strcmp (src_mount source) (src_mount dest) = 0 then (source, dest)
      else if \<not> src_running dest \<and> \<not> on_demand dest then (source, dest)
      else
        (let (source, dest, cnt) =
           (if \<not> on_demand source \<and> src_format source = None then (source, dest, 0)
            else if src_format source \<noteq> None \<and> src_format dest \<noteq> None \<and> src_format source \<noteq> src_format dest
            then (source, dest, 0)
            else
              (let (pending, cnt) =
                 pass_clients avl_insert source (client_tree source)
                   (pass_clients avl_insert source (pending_tree source) (pending_tree dest, 0))
               in (source\<lparr>pending_tree := [], client_tree := [], n_listeners := 0\<rparr>,
                   dest\<lparr>pending_tree := pending\<rparr>, cnt)))
         in (source, if \<not> src_running dest \<and> on_demand dest \<and> cnt \<noteq> 0
                     then dest\<lparr>on_demand_req := True\<rparr> else dest)))"

text \<open>What becomes of a listener that is removed.\<close>

datatype goodbye = Send_error_by_id int | Client_destroy

definition free_client :: "client \<Rightarrow> nat \<times> goodbye" where
  "free_client client =
     (con_id client,
      if respcode client = 0 then Send_error_by_id ICECAST_ERROR_SOURCE_MOUNT_UNAVAILABLE
      else if respcode client = 500 then Send_error_by_id ICECAST_ERROR_SOURCE_STREAM_PREPARATION_ERROR
      else Client_destroy)"

text \<open>
  The listener part of a turn of the main loop. \<open>send_to_listener\<close> is what the sending does to a
  listener; who then has an error is removed. The results are the tree, the counter of listeners,
  the listeners removed, and how often the global counter of listeners goes down.
\<close>

fun serve_clients ::
    "(client \<Rightarrow> client) \<Rightarrow> client list \<Rightarrow> u64 \<Rightarrow> client list \<times> u64 \<times> (nat \<times> goodbye) list \<times> nat" where
  "serve_clients send_to_listener [] listeners = ([], listeners, [], 0)"
| "serve_clients send_to_listener (client # clients) listeners =
     (let client = send_to_listener client
      in if con_error client
         then (let (tree, n, freed, decs) = serve_clients send_to_listener clients (listeners - 1)
               in (tree, n, free_client client # freed, if respcode client = 200 then decs + 1 else decs))
         else (let (tree, n, freed, decs) = serve_clients send_to_listener clients listeners
               in (client # tree, n, freed, decs)))"

fun add_pending ::
    "(client \<Rightarrow> client list \<Rightarrow> client list) \<Rightarrow> int \<Rightarrow> client list \<Rightarrow> client list \<times> u64
     \<Rightarrow> client list \<times> u64 \<times> (nat \<times> goodbye) list" where
  "add_pending avl_insert max_l [] (tree, listeners) = (tree, listeners, [])"
| "add_pending avl_insert max_l (client # pending) (tree, listeners) =
     (if max_l \<noteq> -1 \<and> listeners \<ge> word_of_int max_l
      then (let (tree, n, freed) = add_pending avl_insert max_l pending (tree, listeners)
            in (tree, n, free_client client # freed))
      else add_pending avl_insert max_l pending (avl_insert client tree, listeners + 1))"

definition update_listener_stats :: "source \<Rightarrow> source" where
  "update_listener_stats source =
     (if n_listeners source \<noteq> prev_listeners source
      then source\<lparr>prev_listeners := n_listeners source,
                  peak_listeners := (if n_listeners source > peak_listeners source
                                     then n_listeners source else peak_listeners source),
                  src_running := (if n_listeners source = 0 \<and> on_demand source then False
                                  else src_running source)\<rparr>
      else source)"

definition source_turn ::
    "(client \<Rightarrow> client list \<Rightarrow> client list) \<Rightarrow> (client \<Rightarrow> client) \<Rightarrow> source
     \<Rightarrow> source \<times> (nat \<times> goodbye) list \<times> nat" where
  "source_turn avl_insert send_to_listener source =
     (let (tree, n, freed, decs) = serve_clients send_to_listener (client_tree source) (n_listeners source);
          (tree, n, freed') = add_pending avl_insert (src_max_listeners source) (pending_tree source) (tree, n)
      in (update_listener_stats (source\<lparr>client_tree := tree, n_listeners := n, pending_tree := []\<rparr>),
          freed @ freed', decs))"

text \<open>
  The end of a source: the listeners that are left are removed, and the settings go back to their
  defaults. The third result is what is taken from the global counter of listeners.
\<close>

definition source_clear_source :: "source \<Rightarrow> source \<times> (nat \<times> goodbye) list \<times> u64" where
  "source_clear_source source =
     (source\<lparr>src_client := False, src_con := False, client_tree := [], pending_tree := [], src_format := None,
        src_burst_size := 0, src_queue_size_limit := 0, n_listeners := 0, src_max_listeners := -1,
        prev_listeners := 0, src_hidden := 0, src_fallback_mount := None, src_dumpfilename := None,
        src_history := None, src_intro_file := None, on_demand_req := False\<rparr>,
      map free_client (client_tree source) @ map free_client (pending_tree source),
      if \<exists>c\<in>set (client_tree source). respcode c = 200 then n_listeners source else 0)"

text \<open>A change of a source is seen through the tree, which holds pointers.\<close>

definition put_source :: "source \<Rightarrow> source tree \<Rightarrow> source tree" where
  "put_source s tree = map_tree (\<lambda>x. if src_mount x = src_mount s then s else x) tree"

definition shutdown_listeners ::
    "(string \<Rightarrow> string \<Rightarrow> bool) \<Rightarrow> mount_proxy list \<Rightarrow> (client \<Rightarrow> client list \<Rightarrow> client list) \<Rightarrow> source
     \<Rightarrow> source tree \<Rightarrow> source tree \<times> (nat \<times> goodbye) list \<times> u64" where
  "shutdown_listeners fnm mounts avl_insert source tree =
     (let source = source\<lparr>src_running := False\<rparr>;
          tree = put_source source tree;
          (source, tree) =
            (case src_fallback_mount source of
               None \<Rightarrow> (source, tree)
             | Some fallback \<Rightarrow>
                 (case source_find_mount fnm mounts (Some fallback) tree of
                    None \<Rightarrow> (source, tree)
                  | Some fallback_source \<Rightarrow>
                      (let (source, dest) = source_move_clients avl_insert source fallback_source
                       in (source, put_source source (put_source dest tree)))));
          (source, freed, sub) = source_clear_source source
      in (put_source source tree, freed, sub))"

text \<open>
  The whole end of a source: \<open>expect\<close> is the header of the source client that asks for a final
  response, \<open>sources\<close> the global number of sources. The fourth result tells whether the client gets
  its final response.
\<close>

definition strcasestr :: "string \<Rightarrow> string \<Rightarrow> bool" where
  "strcasestr hay needle \<longleftrightarrow> strstr (map tolower hay) (map tolower needle) \<noteq> None"

definition final_response :: "source \<Rightarrow> string option \<Rightarrow> bool" where
  "final_response source expect \<longleftrightarrow>
     src_client source \<and> (case expect of None \<Rightarrow> False | Some e \<Rightarrow> strcasestr e ''100-continue'')"

definition source_shutdown ::
    "(string \<Rightarrow> string \<Rightarrow> bool) \<Rightarrow> mount_proxy list \<Rightarrow> (client \<Rightarrow> client list \<Rightarrow> client list) \<Rightarrow> string option
     \<Rightarrow> source \<Rightarrow> int \<Rightarrow> source tree \<Rightarrow> source tree \<times> (nat \<times> goodbye) list \<times> u64 \<times> bool \<times> int" where
  "source_shutdown fnm mounts avl_insert expect source sources tree =
     (let (tree, freed, sub) = shutdown_listeners fnm mounts avl_insert source tree
      in (tree, freed, sub, final_response source expect, sources - 1))"

section \<open>The tree of sources\<close>

lemma src_mount_new [simp]: "src_mount (new_source m) = m"
  by (simp add: new_source_def)

text \<open>The order the tree keeps.\<close>

fun ordered :: "source tree \<Rightarrow> bool" where
  "ordered Leaf = True"
| "ordered (Node l s r) \<longleftrightarrow>
     (\<forall>x\<in>set_tree l. source_compare_sources x s < 0) \<and> (\<forall>x\<in>set_tree r. source_compare_sources s x < 0)
     \<and> ordered l \<and> ordered r"

text \<open>The tree of sources is a search tree by the mountpoint.\<close>

lemma find_raw_find_in: "find_raw m t = find_in src_mount m t"
  by (induction t) (simp_all add: Let_def)

lemma ordered_in_order: "ordered t = in_order src_mount t"
  by (induction t) (simp_all add: source_compare_sources_def)

lemma find_raw_Some: "ordered tree \<Longrightarrow> find_raw m tree = Some s \<longleftrightarrow> s \<in> set_tree tree \<and> src_mount s = m"
  unfolding find_raw_find_in ordered_in_order by (rule find_in_Some)

text \<open>
  in the tree of sources, kept in the order of \<^verbatim>\<open>source_compare_sources\<close>, the search by name finds a
  source exactly when it is in the tree under this name. Reserving a mountpoint fails exactly when
  the name is taken, and then changes nothing; otherwise the new source is found under its name and
  every other name still finds what it found before.
\<close>

theorem source_reserve_lookup:
  assumes "ordered tree"
    and ins: "\<And>x t. ordered t \<Longrightarrow> find_raw (src_mount x) t = None \<Longrightarrow>
      ordered (avl_insert x t) \<and> set_tree (avl_insert x t) = insert x (set_tree t)"
  shows "(\<forall>s. source_find_mount_raw (Some m) tree = Some s \<longleftrightarrow> s \<in> set_tree tree \<and> src_mount s = m)
     \<and> (if \<exists>s\<in>set_tree tree. src_mount s = m then source_reserve avl_insert m tree = (None, tree)
        else (\<exists>tree'. source_reserve avl_insert m tree = (Some (new_source m), tree') \<and> ordered tree'
          \<and> (\<forall>m'. source_find_mount_raw (Some m') tree' =
               (if m' = m then Some (new_source m) else source_find_mount_raw (Some m') tree))))"
proof -
  have f: "find_raw m' tree = Some s \<longleftrightarrow> s \<in> set_tree tree \<and> src_mount s = m'" for m' s
    using assms(1) by (rule find_raw_Some)
  then have all: "\<forall>s. source_find_mount_raw (Some m) tree = Some s \<longleftrightarrow> s \<in> set_tree tree \<and> src_mount s = m"
    by (simp add: source_find_mount_raw_def)
  show ?thesis
  proof (cases "find_raw m tree")
    case (Some s)
    then have "\<exists>s\<in>set_tree tree. src_mount s = m" using f by blast
    moreover have "source_reserve avl_insert m tree = (None, tree)"
      by (simp add: source_find_mount_raw_def source_reserve_def Some)
    ultimately show ?thesis using all by (simp only: if_True simp_thms)
  next
    case None
    let ?t = "avl_insert (new_source m) tree"
    have n: "\<not> (\<exists>s\<in>set_tree tree. src_mount s = m)" using None f [of m] by (metis option.distinct(1))
    have od: "ordered ?t" "set_tree ?t = insert (new_source m) (set_tree tree)"
      using ins [OF assms(1), of "new_source m"] None by simp_all
    have "find_raw m' ?t = (if m' = m then Some (new_source m) else find_raw m' tree)" for m'
    proof (cases "find_raw m' tree")
      case None
      then have "\<And>s. s \<in> set_tree tree \<Longrightarrow> src_mount s \<noteq> m'" using f [of m'] by (metis option.distinct(1))
      then have "find_raw m' ?t = Some s \<longleftrightarrow> s = new_source m \<and> m = m'" for s
        using find_raw_Some [OF od(1), of m' s] od(2) by auto
      then show ?thesis using None by (cases "m' = m"; cases "find_raw m' ?t") auto
    next
      case (Some s)
      then have "s \<in> set_tree tree" "src_mount s = m'" using f by auto
      moreover have "m' \<noteq> m" using calculation n by blast
      ultimately show ?thesis using Some find_raw_Some [OF od(1), of m' s] od(2) by simp
    qed
    then have "\<forall>m'. source_find_mount_raw (Some m') ?t =
        (if m' = m then Some (new_source m) else source_find_mount_raw (Some m') tree)"
      by (simp add: source_find_mount_raw_def)
    moreover have "source_reserve avl_insert m tree = (Some (new_source m), ?t)"
      by (simp add: source_find_mount_raw_def source_reserve_def None Let_def)
    ultimately show ?thesis using all n od(1) by (simp only: if_False simp_thms) blast
  qed
qed

text \<open>Insertion without balancing, an example of an insertion that keeps the order.\<close>

fun plain_insert :: "source \<Rightarrow> source tree \<Rightarrow> source tree" where
  "plain_insert x Leaf = Node Leaf x Leaf"
| "plain_insert x (Node l s r) =
     (if source_compare_sources x s < 0 then Node (plain_insert x l) s r else Node l s (plain_insert x r))"

lemma plain_insert_ordered:
  "ordered t \<Longrightarrow> find_raw (src_mount x) t = None \<Longrightarrow>
     ordered (plain_insert x t) \<and> set_tree (plain_insert x t) = insert x (set_tree t)"
proof (induction t)
  case (Node l s r)
  show ?case
  proof (cases "strcmp (src_mount x) (src_mount s) < 0")
    case True
    then show ?thesis using Node by (auto simp: source_compare_sources_def)
  next
    case False
    then have "strcmp (src_mount s) (src_mount x) < 0" "0 < strcmp (src_mount x) (src_mount s)"
      using Node.prems(2) strcmp_swap [of "src_mount s" "src_mount x"]
      by (auto simp: Let_def linorder_neq_iff split: if_splits simp del: strcmp_eq_0)
    then show ?thesis using Node by (auto simp: source_compare_sources_def)
  qed
qed simp

theorem source_reserve_lookup_witness:
  "source_reserve plain_insert ''/b'' (Node Leaf (new_source ''/b'') Leaf) = (None, Node Leaf (new_source ''/b'') Leaf)"
proof -
  let ?t = "Node Leaf (new_source ''/b'') Leaf"
  have "ordered ?t" by simp
  note r = source_reserve_lookup [OF this plain_insert_ordered, of "''/b''", THEN conjunct2]
  have "\<exists>s\<in>set_tree ?t. src_mount s = ''/b''" by simp
  with r show ?thesis by (simp only: if_True)
qed

text \<open>The names a search along the fallbacks looks at, and what it may stop at.\<close>

fun fallback_names :: "(string \<Rightarrow> string \<Rightarrow> bool) \<Rightarrow> mount_proxy list \<Rightarrow> nat \<Rightarrow> string option \<Rightarrow> string list" where
  "fallback_names fnm mounts 0 m = []"
| "fallback_names fnm mounts (Suc n) None = []"
| "fallback_names fnm mounts (Suc n) (Some m) =
     m # (case config_find_mount fnm mounts (Some m) MOUNT_TYPE_NORMAL of
            None \<Rightarrow> []
          | Some mountinfo \<Rightarrow> fallback_names fnm mounts n (fallback_mount mountinfo))"

definition active :: "source tree \<Rightarrow> string \<Rightarrow> source option" where
  "active tree m =
     (case source_find_mount_raw (Some m) tree of
        Some s \<Rightarrow> if src_running s \<or> on_demand s then Some s else None
      | None \<Rightarrow> None)"

lemma first_split:
  "(\<exists>pre y post. x # xs = pre @ y # post \<and> P y \<and> (\<forall>p\<in>set pre. \<not> Q p))
     \<longleftrightarrow> P x \<or> \<not> Q x \<and> (\<exists>pre y post. xs = pre @ y # post \<and> P y \<and> (\<forall>p\<in>set pre. \<not> Q p))"
  (is "?l \<longleftrightarrow> ?r")
proof
  assume ?l
  then obtain pre y post where p: "x # xs = pre @ y # post" "P y" "\<forall>p\<in>set pre. \<not> Q p" by blast
  then show ?r by (cases pre) auto
next
  assume ?r
  then show ?l
  proof
    assume "P x"
    then show ?l by (metis append_Nil empty_iff empty_set)
  next
    assume "\<not> Q x \<and> (\<exists>pre y post. xs = pre @ y # post \<and> P y \<and> (\<forall>p\<in>set pre. \<not> Q p))"
    then obtain pre y post where "xs = pre @ y # post" "P y" "\<forall>p\<in>set pre. \<not> Q p" "\<not> Q x" by blast
    then have "x # xs = (x # pre) @ y # post" "\<forall>p\<in>set (x # pre). \<not> Q p" by auto
    then show ?l using \<open>P y\<close> by blast
  qed
qed

lemma find_mount_loop_first:
  "find_mount_loop fnm mounts n mount tree = Some s \<longleftrightarrow>
     (\<exists>pre m post. fallback_names fnm mounts n mount = pre @ m # post \<and> active tree m = Some s
        \<and> (\<forall>p\<in>set pre. \<not> active tree p \<noteq> None))"
proof (induction fnm mounts n mount tree rule: find_mount_loop.induct)
  case (3 fnm mounts n m tree)
  show ?case
    unfolding fallback_names.simps first_split
    using 3 by (auto simp: active_def split: option.splits)
qed simp_all

text \<open>
  C36: the search along the fallbacks returns the first active source (running, or a relay on demand)
  among the names reached from the given one through the fallback settings, at most ten of them;
  it ends also when the fallbacks form a cycle.
\<close>

theorem source_find_mount_first_active:
  "source_find_mount fnm mounts mount tree = Some s \<longleftrightarrow>
     (\<exists>pre m post. fallback_names fnm mounts 10 mount = pre @ m # post \<and> active tree m = Some s
        \<and> (\<forall>p\<in>set pre. active tree p = None))"
  using find_mount_loop_first [of fnm mounts 10 mount tree s]
  by (simp add: source_find_mount_def MAX_FALLBACK_DEPTH_def)

theorem source_find_mount_first_active_witness:
  "source_find_mount (=) [] (Some ''/b'') (Node Leaf ((new_source ''/b'')\<lparr>src_running := True\<rparr>) Leaf)
     = Some ((new_source ''/b'')\<lparr>src_running := True\<rparr>)"
proof -
  let ?s = "(new_source ''/b'')\<lparr>src_running := True\<rparr>"
  have "fallback_names (=) [] 10 (Some ''/b'') = [] @ ''/b'' # []"
    by (simp add: eval_nat_numeral config_find_mount_def find_default_def)
  moreover have "active (Node Leaf ?s Leaf) ''/b'' = Some ?s"
    by (simp add: active_def source_find_mount_raw_def)
  ultimately show ?thesis unfolding source_find_mount_first_active
    by (intro exI [of _ "[]"] exI [of _ "''/b''"] exI [of _ "[]"]) simp
qed

section \<open>Moving listeners\<close>

text \<open>What the code relies on from the insertion into a tree of listeners.\<close>

definition inserts :: "(client \<Rightarrow> client list \<Rightarrow> client list) \<Rightarrow> bool" where
  "inserts avl_insert \<longleftrightarrow> (\<forall>c t. mset (avl_insert c t) = add_mset c (mset t))"

lemma insort_inserts: "inserts (insort_key con_id)"
  by (simp add: inserts_def)

lemma pass_clients_mset:
  "inserts ins \<Longrightarrow> pass_clients ins source tree (pending, k) = (pending', k') \<Longrightarrow>
     mset pending' = mset pending + image_mset (detach source) (mset tree) \<and> k' = k + length tree"
proof (induction tree arbitrary: pending k)
  case (Cons c tree)
  have "mset pending' = mset (ins (detach source c) pending) + image_mset (detach source) (mset tree)
      \<and> k' = k + 1 + length tree"
    using Cons.prems(2) by (intro Cons.IH [OF Cons.prems(1)]) simp
  then show ?case using Cons.prems(1) by (simp add: inserts_def)
qed simp

text \<open>When the listeners of a source may be moved.\<close>

definition movable :: "source \<Rightarrow> source \<Rightarrow> bool" where
  "movable source dest \<longleftrightarrow>
     src_mount source \<noteq> src_mount dest \<and> (src_running dest \<or> on_demand dest)
     \<and> (on_demand source \<or> src_format source \<noteq> None)
     \<and> (src_format source = None \<or> src_format dest = None \<or> src_format source = src_format dest)"

lemma move_none: "inserts ins \<Longrightarrow> \<not> movable source dest \<Longrightarrow> source_move_clients ins source dest = (source, dest)"
  unfolding source_move_clients_def movable_def by (simp del: not_None_eq) metis

lemma move_some:
  assumes "inserts avl_insert" and "movable source dest"
  shows "\<exists>source' dest'. source_move_clients avl_insert source dest = (source', dest')
       \<and> mset (pending_tree dest') = mset (pending_tree dest)
           + image_mset (detach source) (mset (pending_tree source) + mset (client_tree source))
       \<and> client_tree source' = [] \<and> pending_tree source' = [] \<and> n_listeners source' = 0
       \<and> src_mount source' = src_mount source \<and> src_mount dest' = src_mount dest \<and> src_running source' = src_running source
       \<and> client_tree dest' = client_tree dest \<and> n_listeners dest' = n_listeners dest
       \<and> (on_demand_req dest' \<longleftrightarrow> on_demand_req dest \<or>
            \<not> src_running dest \<and> pending_tree source @ client_tree source \<noteq> [])"
proof -
  obtain p1 k1 where 1: "pass_clients avl_insert source (pending_tree source) (pending_tree dest, 0) = (p1, k1)"
    by fastforce
  obtain p2 k2 where 2: "pass_clients avl_insert source (client_tree source) (p1, k1) = (p2, k2)"
    by fastforce
  note m = pass_clients_mset [OF assms(1) 1] pass_clients_mset [OF assms(1) 2]
  let ?d = "dest\<lparr>pending_tree := p2\<rparr>"
  have g: "(strcmp (src_mount source) (src_mount dest) = 0) = False"
    "(\<not> src_running dest \<and> \<not> on_demand dest) = False"
    "(\<not> on_demand source \<and> src_format source = None) = False"
    "(src_format source \<noteq> None \<and> src_format dest \<noteq> None \<and> src_format source \<noteq> src_format dest) = False"
    using assms(2) unfolding movable_def by auto
  have "source_move_clients avl_insert source dest =
      (source\<lparr>pending_tree := [], client_tree := [], n_listeners := 0\<rparr>,
       if \<not> src_running dest \<and> on_demand dest \<and> k2 \<noteq> 0 then ?d\<lparr>on_demand_req := True\<rparr> else ?d)"
    unfolding source_move_clients_def g if_False 1 2 Let_def prod.case by simp
  moreover have "mset p2 = mset (pending_tree dest)
      + image_mset (detach source) (mset (pending_tree source) + mset (client_tree source))" using m by simp
  moreover have "k2 \<noteq> 0 \<longleftrightarrow> pending_tree source @ client_tree source \<noteq> []" using m by auto
  moreover have "src_running dest \<or> on_demand dest" using assms(2) by (simp add: movable_def)
  ultimately show ?thesis by auto
qed

text \<open>
  C6: listeners are moved all or not at all. If the two mountpoints differ, the destination is active,
  the source has a format (or is on demand) and the formats do not differ, then every listener of
  the source, attached or pending, ends up pending at the destination, detached from the queue of
  the source unless it still has headers to send, the source has none left and counts none, and an
  idle relay on demand is asked to start when there was a listener to move. In every other case
  neither source changes.
\<close>

theorem move_clients_all_or_none:
  assumes "inserts avl_insert"
  shows "if movable source dest
     then (\<exists>source' dest'. source_move_clients avl_insert source dest = (source', dest')
       \<and> mset (pending_tree dest') = mset (pending_tree dest)
           + image_mset (detach source) (mset (pending_tree source) + mset (client_tree source))
       \<and> client_tree source' = [] \<and> pending_tree source' = [] \<and> n_listeners source' = 0
       \<and> client_tree dest' = client_tree dest \<and> n_listeners dest' = n_listeners dest
       \<and> (on_demand_req dest' \<longleftrightarrow> on_demand_req dest \<or>
            \<not> src_running dest \<and> pending_tree source @ client_tree source \<noteq> []))
     else source_move_clients avl_insert source dest = (source, dest)"
  using move_none [OF assms] move_some [OF assms] by (cases "movable source dest") (simp, blast, simp)

definition demo_client :: "nat \<Rightarrow> client" where
  "demo_client i = \<lparr>con_id = i, con_error = False, respcode = 200, clnt_check = Format_advance_queue,
     clnt_refbuf = Some 1, clnt_intro_offset = -1\<rparr>"

theorem move_clients_all_or_none_witness:
  "\<exists>source' dest'. source_move_clients (insort_key con_id)
       ((new_source ''/a'')\<lparr>src_format := Some 1, client_tree := [demo_client 4]\<rparr>)
       ((new_source ''/b'')\<lparr>src_format := Some 1, src_running := True\<rparr>) = (source', dest')
     \<and> mset (pending_tree dest') = {#(demo_client 4)\<lparr>clnt_refbuf := None, clnt_check := Format_check_file_buffer\<rparr>#}
     \<and> client_tree source' = []"
  using move_clients_all_or_none [OF insort_inserts, of "(new_source ''/a'')\<lparr>src_format := Some 1, client_tree := [demo_client 4]\<rparr>"
      "(new_source ''/b'')\<lparr>src_format := Some 1, src_running := True\<rparr>"]
  by (auto simp: movable_def new_source_def detach_def demo_client_def)

section \<open>A turn of the main loop\<close>

lemma serve_clients_spec:
  "serve_clients send tree n = (tree', n', freed, decs) \<Longrightarrow>
     tree' = filter (\<lambda>c. \<not> con_error c) (map send tree)
     \<and> freed = map free_client (filter con_error (map send tree))
     \<and> n' + of_nat (length tree) = n + of_nat (length tree')
     \<and> decs = length (filter (\<lambda>c. con_error c \<and> respcode c = 200) (map send tree))"
proof (induction tree arbitrary: n tree' n' freed decs)
  case (Cons c tree)
  obtain t1 n1 f1 d1 where a: "serve_clients send tree (n - 1) = (t1, n1, f1, d1)" by (metis prod_cases4)
  obtain t2 n2 f2 d2 where b: "serve_clients send tree n = (t2, n2, f2, d2)" by (metis prod_cases4)
  show ?case using Cons.prems Cons.IH [OF a] Cons.IH [OF b]
    by (cases "con_error (send c)") (auto simp: a b Let_def algebra_simps)
qed simp

lemma add_pending_spec:
  "inserts ins \<Longrightarrow> add_pending ins max_l pending (tree, n) = (tree', n', freed) \<Longrightarrow>
     \<exists>acc rej. mset pending = mset acc + mset rej \<and> mset tree' = mset tree + mset acc
       \<and> freed = map free_client rej \<and> n' = n + of_nat (length acc)"
proof (induction pending arbitrary: tree n tree' n' freed)
  case (Cons c pending)
  show ?case
  proof (cases "max_l \<noteq> -1 \<and> n \<ge> word_of_int max_l")
    case True
    obtain t1 n1 f1 where a: "add_pending ins max_l pending (tree, n) = (t1, n1, f1)" by (metis prod_cases3)
    from Cons.IH [OF Cons.prems(1) a] obtain acc rej where "mset pending = mset acc + mset rej"
      "mset t1 = mset tree + mset acc" "f1 = map free_client rej" "n1 = n + of_nat (length acc)" by blast
    then show ?thesis using Cons.prems True a
      by (intro exI [of _ acc] exI [of _ "c # rej"]) (auto simp: Let_def)
  next
    case False
    then have "add_pending ins max_l pending (ins c tree, n + 1) = (tree', n', freed)" using Cons.prems(2) by auto
    from Cons.IH [OF Cons.prems(1) this] obtain acc rej where "mset pending = mset acc + mset rej"
      "mset tree' = mset (ins c tree) + mset acc" "freed = map free_client rej" "n' = n + 1 + of_nat (length acc)"
      by blast
    then show ?thesis using Cons.prems(1)
      by (intro exI [of _ "c # acc"] exI [of _ rej]) (auto simp: inserts_def)
  qed
qed simp

lemma add_pending_bound:
  assumes "0 \<le> max_l" and "max_l < 2 ^ 63"
  shows "add_pending ins max_l pending (tree, n) = (tree', n', freed) \<Longrightarrow>
     unat n' \<le> max (unat n) (nat max_l)"
proof (induction pending arbitrary: tree n tree' n' freed)
  case (Cons c pending)
  have m: "unat (word_of_int max_l :: u64) = nat max_l" using assms by (simp add: unat_eq_nat_uint uint_word_of_int)
  show ?case
  proof (cases "n \<ge> word_of_int max_l")
    case True
    obtain t1 n1 f1 where a: "add_pending ins max_l pending (tree, n) = (t1, n1, f1)" by (metis prod_cases3)
    then show ?thesis using Cons.IH [OF a] Cons.prems True assms(1) by (auto simp: Let_def)
  next
    case False
    then have l: "unat n < nat max_l" using m by (simp add: word_le_nat_alt)
    then have "unat (n + 1) = unat n + 1" using assms(2) by (simp add: unat_word_ariths)
    moreover have "add_pending ins max_l pending (ins c tree, n + 1) = (tree', n', freed)"
      using Cons.prems False assms(1) by auto
    ultimately show ?thesis using Cons.IH [of "ins c tree" "n + 1"] l by fastforce
  qed
qed simp

text \<open>
  C4: a turn of the main loop loses no listener: the listeners of the source are those that were sent to
  without an error, plus pending ones; each other one, with an error or over the limit, is
  dismissed once. The counter of listeners, correct before, is correct after; the pending tree is
  empty; and the turn never takes the number of listeners above the limit of the mount.
\<close>

theorem source_turn_accounting:
  assumes "inserts avl_insert" and "n_listeners s = of_nat (length (client_tree s))"
    and "source_turn avl_insert send s = (s', freed, decs)"
  shows "\<exists>acc rej. mset (pending_tree s) = mset acc + mset rej
     \<and> mset (client_tree s') = mset (filter (\<lambda>c. \<not> con_error c) (map send (client_tree s))) + mset acc
     \<and> freed = map free_client (filter con_error (map send (client_tree s)) @ rej)
     \<and> pending_tree s' = [] \<and> n_listeners s' = of_nat (length (client_tree s'))
     \<and> (0 \<le> src_max_listeners s \<and> src_max_listeners s < 2 ^ 63 \<longrightarrow>
          unat (n_listeners s') \<le> max (unat (of_nat (length (filter (\<lambda>c. \<not> con_error c) (map send (client_tree s)))) :: u64))
                                     (nat (src_max_listeners s)))"
proof -
  obtain t1 n1 f1 d1 where a: "serve_clients send (client_tree s) (n_listeners s) = (t1, n1, f1, d1)"
    by (metis prod_cases4)
  obtain t2 n2 f2 where b: "add_pending avl_insert (src_max_listeners s) (pending_tree s) (t1, n1) = (t2, n2, f2)"
    by (metis prod_cases3)
  have s': "s' = update_listener_stats (s\<lparr>client_tree := t2, n_listeners := n2, pending_tree := []\<rparr>)" "freed = f1 @ f2"
    using assms(3) by (auto simp: source_turn_def a b Let_def)
  then have f: "client_tree s' = t2" "n_listeners s' = n2" "pending_tree s' = []"
    by (auto simp: update_listener_stats_def)
  note sc = serve_clients_spec [OF a]
  have n1: "n1 = of_nat (length t1)" using sc assms(2) by (simp add: add.commute)
  obtain acc rej where p: "mset (pending_tree s) = mset acc + mset rej" "mset t2 = mset t1 + mset acc"
    "f2 = map free_client rej" "n2 = n1 + of_nat (length acc)" using add_pending_spec [OF assms(1) b] by blast
  have "length t2 = length t1 + length acc" using arg_cong [OF p(2), of size] by simp
  then have "n2 = of_nat (length t2)" using p(4) n1 by simp
  moreover have "0 \<le> src_max_listeners s \<and> src_max_listeners s < 2 ^ 63 \<longrightarrow>
      unat n2 \<le> max (unat (of_nat (length t1) :: u64)) (nat (src_max_listeners s))"
    using add_pending_bound [OF _ _ b] n1 by simp
  moreover have "t1 = filter (\<lambda>c. \<not> con_error c) (map send (client_tree s))"
    "f1 = map free_client (filter con_error (map send (client_tree s)))" using sc by auto
  ultimately show ?thesis using p f s'(2) by (intro exI [of _ acc] exI [of _ rej]) auto
qed

theorem source_turn_accounting_witness:
  "\<exists>s' freed decs. source_turn (insort_key con_id) (\<lambda>c. c\<lparr>con_error := con_id c = 4\<rparr>)
       ((new_source ''/a'')\<lparr>client_tree := [demo_client 4, demo_client 5], n_listeners := 2,
          pending_tree := [demo_client 6], src_max_listeners := 1\<rparr>) = (s', freed, decs)
     \<and> pending_tree s' = [] \<and> n_listeners s' = of_nat (length (client_tree s'))"
proof -
  let ?s = "(new_source ''/a'')\<lparr>client_tree := [demo_client 4, demo_client 5], n_listeners := 2,
          pending_tree := [demo_client 6], src_max_listeners := 1\<rparr>"
  obtain s' freed decs where t: "source_turn (insort_key con_id) (\<lambda>c. c\<lparr>con_error := con_id c = 4\<rparr>) ?s = (s', freed, decs)"
    by (rule prod_cases3)
  have "n_listeners ?s = of_nat (length (client_tree ?s))" by simp
  from source_turn_accounting [OF insort_inserts this t] t show ?thesis by blast
qed

section \<open>The end of a source\<close>

lemma find_raw_mount: "find_raw m t = Some s \<Longrightarrow> src_mount s = m"
proof (induction t)
  case (Node l x r)
  consider "strcmp m (src_mount x) < 0" | "0 < strcmp m (src_mount x)" | "m = src_mount x"
    using strcmp_zero by blast
  then show ?case
  proof cases
    case 1
    with Node show ?thesis by simp
  next
    case 2
    with Node show ?thesis by simp
  next
    case 3
    with Node.prems show ?thesis by simp
  qed
qed simp

lemma find_raw_put:
  "find_raw m (put_source s t) = map_option (\<lambda>x. if src_mount x = src_mount s then s else x) (find_raw m t)"
proof (induction t)
  case (Node l x r)
  have "src_mount (if src_mount x = src_mount s then s else x) = src_mount x" by simp
  with Node show ?case by (simp only: put_source_def tree.map find_raw.simps Let_def) simp
qed (simp add: put_source_def)

lemma find_raw_put_same:
  assumes "find_raw (src_mount x) t \<noteq> None"
  shows "find_raw (src_mount x) (put_source x t) = Some x"
proof -
  obtain y where y: "find_raw (src_mount x) t = Some y" using assms by blast
  from find_raw_mount [OF this] show ?thesis by (simp add: find_raw_put y)
qed

lemma find_raw_put_other: "m \<noteq> src_mount x \<Longrightarrow> find_raw m (put_source x t) = find_raw m t"
proof (cases "find_raw m t")
  case (Some y)
  moreover assume "m \<noteq> src_mount x"
  ultimately show ?thesis using find_raw_mount [OF Some] by (simp add: find_raw_put)
qed (simp add: find_raw_put)

lemma find_raw_put_None: "find_raw m (put_source x t) = None \<longleftrightarrow> find_raw m t = None"
  by (simp add: find_raw_put)

text \<open>Where the listeners of a source that ends may go.\<close>

definition fallback_of :: "(string \<Rightarrow> string \<Rightarrow> bool) \<Rightarrow> mount_proxy list \<Rightarrow> source \<Rightarrow> source tree \<Rightarrow> source option" where
  "fallback_of fnm mounts s tree =
     (case src_fallback_mount s of
        None \<Rightarrow> None
      | Some fb \<Rightarrow> source_find_mount fnm mounts (Some fb) (put_source (s\<lparr>src_running := False\<rparr>) tree))"

lemma fallback_of_found:
  "fallback_of fnm mounts s tree = Some d \<Longrightarrow> find_raw (src_mount d) (put_source (s\<lparr>src_running := False\<rparr>) tree) = Some d"
  unfolding fallback_of_def
  by (auto simp: source_find_mount_def find_mount_loop_first active_def source_find_mount_raw_def
      split: option.splits if_splits dest: find_raw_mount)

lemma shutdown_listeners_to:
  assumes "(case fallback_of fnm mounts s tree of None \<Rightarrow> (s\<lparr>src_running := False\<rparr>, put_source (s\<lparr>src_running := False\<rparr>) tree)
      | Some d \<Rightarrow> (let (x, y) = source_move_clients ins (s\<lparr>src_running := False\<rparr>) d
                   in (x, put_source x (put_source y (put_source (s\<lparr>src_running := False\<rparr>) tree))))) = (x, t)"
    and "source_clear_source x = (x', f, u)"
  shows "shutdown_listeners fnm mounts ins s tree = (put_source x' t, f, u)"
proof (cases "src_fallback_mount s")
  case None
  then show ?thesis using assms by (auto simp: shutdown_listeners_def fallback_of_def Let_def)
next
  case (Some fb)
  show ?thesis
  proof (cases "source_find_mount fnm mounts (Some fb) (put_source (s\<lparr>src_running := False\<rparr>) tree)")
    case None
    then show ?thesis using assms Some by (auto simp: shutdown_listeners_def fallback_of_def Let_def)
  next
    case (Some d)
    obtain a b where "source_move_clients ins (s\<lparr>src_running := False\<rparr>) d = (a, b)" by fastforce
    then show ?thesis using assms Some \<open>src_fallback_mount s = Some fb\<close>
      by (auto simp: shutdown_listeners_def fallback_of_def Let_def)
  qed
qed

lemma clear_source_listeners:
  "\<exists>s'. source_clear_source x = (s', map free_client (client_tree x @ pending_tree x),
        if \<exists>c\<in>set (client_tree x). respcode c = 200 then n_listeners x else 0)
    \<and> src_mount s' = src_mount x \<and> src_running s' = src_running x \<and> client_tree s' = [] \<and> pending_tree s' = []"
  by (simp add: source_clear_source_def)

lemma shutdown_kept:
  assumes "find_raw (src_mount x) t \<noteq> None" and "src_mount x' = src_mount x"
  shows "find_raw (src_mount x) (put_source x' t) = Some x'"
  using find_raw_put_same [of x' t] assms by simp

lemma shutdown_dismisses:
  assumes "inserts ins" and "find_raw (src_mount s) tree = Some s"
    and "\<forall>d. fallback_of fnm mounts s tree = Some d \<longrightarrow> \<not> movable (s\<lparr>src_running := False\<rparr>) d"
  shows "\<exists>tree' u s'. shutdown_listeners fnm mounts ins s tree = (tree', map free_client (client_tree s @ pending_tree s), u)
     \<and> find_raw (src_mount s) tree' = Some s' \<and> \<not> src_running s' \<and> client_tree s' = [] \<and> pending_tree s' = []"
proof -
  let ?s = "s\<lparr>src_running := False\<rparr>"
  let ?t = "put_source ?s tree"
  obtain x u where x: "source_clear_source ?s = (x, map free_client (client_tree s @ pending_tree s), u)"
    "src_mount x = src_mount s" "\<not> src_running x" "client_tree x = []" "pending_tree x = []"
    using clear_source_listeners [of ?s] by auto
  have fs: "find_raw (src_mount s) ?t \<noteq> None" using assms(2) by (simp only: find_raw_put_None) simp
  have "\<exists>t. shutdown_listeners fnm mounts ins s tree = (put_source x t, map free_client (client_tree s @ pending_tree s), u)
      \<and> find_raw (src_mount s) t \<noteq> None"
  proof (cases "fallback_of fnm mounts s tree")
    case None
    then have "shutdown_listeners fnm mounts ins s tree = (put_source x ?t, map free_client (client_tree s @ pending_tree s), u)"
      by (intro shutdown_listeners_to [OF _ x(1)]) simp
    with fs show ?thesis by blast
  next
    case (Some d)
    then have "source_move_clients ins ?s d = (?s, d)" using assms(3) by (intro move_none [OF assms(1)]) blast
    with Some have "shutdown_listeners fnm mounts ins s tree
        = (put_source x (put_source ?s (put_source d ?t)), map free_client (client_tree s @ pending_tree s), u)"
      by (intro shutdown_listeners_to [OF _ x(1)]) simp
    moreover have "find_raw (src_mount s) (put_source ?s (put_source d ?t)) \<noteq> None"
      using fs by (simp only: find_raw_put_None simp_thms)
    ultimately show ?thesis by blast
  qed
  then obtain t where t: "shutdown_listeners fnm mounts ins s tree
      = (put_source x t, map free_client (client_tree s @ pending_tree s), u)" "find_raw (src_mount s) t \<noteq> None" by blast
  from shutdown_kept [OF t(2) x(2)] t(1) x(3-5) show ?thesis by blast
qed

lemma shutdown_moves:
  assumes "inserts ins" and "find_raw (src_mount s) tree = Some s"
    and "fallback_of fnm mounts s tree = Some d" and "movable (s\<lparr>src_running := False\<rparr>) d"
  shows "\<exists>tree' d' s'. shutdown_listeners fnm mounts ins s tree = (tree', [], 0) \<and> find_raw (src_mount d) tree' = Some d'
     \<and> mset (pending_tree d') = mset (pending_tree d) + image_mset (detach s) (mset (pending_tree s) + mset (client_tree s))
     \<and> find_raw (src_mount s) tree' = Some s' \<and> \<not> src_running s' \<and> client_tree s' = [] \<and> pending_tree s' = []"
proof -
  let ?s = "s\<lparr>src_running := False\<rparr>"
  let ?t = "put_source ?s tree"
  obtain x y where m: "source_move_clients ins ?s d = (x, y)"
    "mset (pending_tree y) = mset (pending_tree d) + image_mset (detach ?s) (mset (pending_tree s) + mset (client_tree s))"
    "client_tree x = []" "pending_tree x = []" "src_mount x = src_mount s" "src_mount y = src_mount d" "\<not> src_running x"
    using move_some [OF assms(1, 4)] by auto
  obtain x' where x: "source_clear_source x = (x', [], 0)" "src_mount x' = src_mount s" "\<not> src_running x'"
    "client_tree x' = []" "pending_tree x' = []"
    using clear_source_listeners [of x] m(3-5, 7) by auto
  have r: "shutdown_listeners fnm mounts ins s tree = (put_source x' (put_source x (put_source y ?t)), [], 0)"
    using assms(3) m(1) by (intro shutdown_listeners_to [OF _ x(1)]) simp
  have ne: "src_mount d \<noteq> src_mount s" using assms(4) by (auto simp: movable_def)
  have "find_raw (src_mount s) ?t \<noteq> None" using assms(2) by (simp only: find_raw_put_None) simp
  then have "find_raw (src_mount s) (put_source x (put_source y ?t)) \<noteq> None"
    by (simp only: find_raw_put_None simp_thms)
  from shutdown_kept [OF this x(2)]
  have 1: "find_raw (src_mount s) (put_source x' (put_source x (put_source y ?t))) = Some x'" .
  have "find_raw (src_mount y) ?t \<noteq> None" using fallback_of_found [OF assms(3)] m(6) by simp
  then have "find_raw (src_mount d) (put_source y ?t) = Some y" using find_raw_put_same m(6) by metis
  then have "find_raw (src_mount d) (put_source x' (put_source x (put_source y ?t))) = Some y"
    using ne m(5) x(2) find_raw_put_other by metis
  moreover have "detach ?s = detach s" by (simp add: detach_def fun_eq_iff)
  ultimately show ?thesis using r 1 m(2) x(3-5) by auto
qed

text \<open>
  C3: when a source ends, its listeners are not dropped if they have somewhere to go: if the search from
  its fallback mount finds a source that may take them, every listener, attached or pending, is
  pending there afterwards and nobody is dismissed; otherwise every listener is dismissed exactly
  once. Either way the source itself stays in the tree, stopped and without listeners.
\<close>

theorem shutdown_hands_over_listeners:
  assumes "inserts avl_insert" and "find_raw (src_mount s) tree = Some s"
    and "source_shutdown fnm mounts avl_insert expect s sources tree = (tree', freed, sub, final, sources')"
  shows "(case fallback_of fnm mounts s tree of
       Some d \<Rightarrow> if movable (s\<lparr>src_running := False\<rparr>) d
         then freed = [] \<and> sub = 0 \<and>
           (\<exists>d'. find_raw (src_mount d) tree' = Some d' \<and> mset (pending_tree d') = mset (pending_tree d)
             + image_mset (detach s) (mset (pending_tree s) + mset (client_tree s)))
         else freed = map free_client (client_tree s @ pending_tree s)
     | None \<Rightarrow> freed = map free_client (client_tree s @ pending_tree s))
     \<and> (\<exists>s'. find_raw (src_mount s) tree' = Some s' \<and> \<not> src_running s' \<and> client_tree s' = [] \<and> pending_tree s' = [])
     \<and> sources' = sources - 1"
proof -
  have r: "shutdown_listeners fnm mounts avl_insert s tree = (tree', freed, sub)" "sources' = sources - 1"
    using assms(3) by (auto simp: source_shutdown_def split: prod.splits)
  show ?thesis
proof (cases "\<exists>d. fallback_of fnm mounts s tree = Some d \<and> movable (s\<lparr>src_running := False\<rparr>) d")
  case True
  then obtain d where d: "fallback_of fnm mounts s tree = Some d" "movable (s\<lparr>src_running := False\<rparr>) d" by blast
  from shutdown_moves [OF assms(1, 2) this] r(1) obtain d' s' where
    "freed = []" "sub = 0" "find_raw (src_mount d) tree' = Some d'"
    "mset (pending_tree d') = mset (pending_tree d) + image_mset (detach s) (mset (pending_tree s) + mset (client_tree s))"
    "find_raw (src_mount s) tree' = Some s'" "\<not> src_running s'" "client_tree s' = []" "pending_tree s' = []"
    unfolding prod.inject by (metis prod.inject)
  with d r(2) show ?thesis by simp
next
  case False
  then have n: "\<forall>d. fallback_of fnm mounts s tree = Some d \<longrightarrow> \<not> movable (s\<lparr>src_running := False\<rparr>) d" by blast
  from shutdown_dismisses [OF assms(1, 2) n] r(1) obtain s' where
    f: "freed = map free_client (client_tree s @ pending_tree s)"
    "find_raw (src_mount s) tree' = Some s'" "\<not> src_running s'" "client_tree s' = []" "pending_tree s' = []"
    by (metis prod.inject)
  show ?thesis
  proof (cases "fallback_of fnm mounts s tree")
    case None
    with f r(2) show ?thesis by simp
  next
    case (Some d)
    with n f r(2) show ?thesis by simp
  qed
qed
qed

theorem shutdown_hands_over_listeners_witness:
  "fst (snd (source_shutdown (=) [] (insort_key con_id) None ((new_source ''/a'')\<lparr>client_tree := [demo_client 4]\<rparr>) 1
     (Node Leaf ((new_source ''/a'')\<lparr>client_tree := [demo_client 4]\<rparr>) Leaf))) = [(4, Client_destroy)]"
proof -
  let ?s = "(new_source ''/a'')\<lparr>client_tree := [demo_client 4]\<rparr>"
  obtain t f u fin n where r: "source_shutdown (=) [] (insort_key con_id) None ?s 1 (Node Leaf ?s Leaf) = (t, f, u, fin, n)"
    by (rule prod_cases5)
  have "find_raw (src_mount ?s) (Node Leaf ?s Leaf) = Some ?s" by simp
  note h = shutdown_hands_over_listeners [OF insort_inserts this r]
  have "fallback_of (=) [] ?s (Node Leaf ?s Leaf) = None" by (simp add: fallback_of_def new_source_def)
  with h have "f = map free_client (client_tree ?s @ pending_tree ?s)" by (simp only: option.case)
  with r show ?thesis by (simp add: free_client_def demo_client_def new_source_def)
qed

end
