(* ===== verification/Source_Settings.thy ===== *)
theory Source_Settings
  imports Source ACL
begin

text \<open>
  The settings of a source (\<^verbatim>\<open>src/src/source.c\<close>, \<^verbatim>\<open>source_update_settings\<close> and
  \<^verbatim>\<open>source_apply_mount\<close>): what the mount says, else what the headers of the source client say, else a
  default. The changes of the statistics and of the directory listing are the list of the calls, in
  order.

  \<open>getvar\<close> is the header lookup of the HTTP parser, \<open>can_open\<close> tells which files can be opened. The
  ACLs are those of the anonymous user for GET in the stacks of the mount and of the configuration.
\<close>

section \<open>Definitions\<close>

datatype call =
  Apply_settings
| Stats_event string "string option"
| Stats_event_conv string string
| Stats_event_hidden int
| Yp_add
| Yp_remove

record settings =
  cfg_queue_size_limit :: u32
  cfg_source_timeout :: u32
  cfg_burst_size :: u32
  cfg_hostname :: string
  cfg_port :: int
  cfg_webroot_dir :: string

text \<open>The first of the headers that is there.\<close>

fun first_var :: "(string \<Rightarrow> string option) \<Rightarrow> string list \<Rightarrow> string option" where
  "first_var getvar [] = None"
| "first_var getvar (h # hs) = (case getvar h of Some v \<Rightarrow> Some v | None \<Rightarrow> first_var getvar hs)"

definition or_default :: "string option \<Rightarrow> string \<Rightarrow> string" where
  "or_default v d = (case v of Some x \<Rightarrow> x | None \<Rightarrow> d)"

text \<open>A field of the mount, if there is a mount and it has it.\<close>

definition of_mount :: "mount_proxy option \<Rightarrow> (mount_proxy \<Rightarrow> 'a option) \<Rightarrow> 'a option" where
  "of_mount mountinfo f = (case mountinfo of None \<Rightarrow> None | Some m \<Rightarrow> f m)"

definition public_value :: "(string \<Rightarrow> string option) \<Rightarrow> mount_proxy option \<Rightarrow> int" where
  "public_value getvar mountinfo =
     (case of_mount mountinfo (\<lambda>m. if yp_public m \<ge> 0 then Some (yp_public m) else None) of
        Some v \<Rightarrow> v
      | None \<Rightarrow> atoi (or_default (first_var getvar
                   [''ice-public'', ''icy-pub'', ''x-audiocast-public'', ''icy-public'']) ''0''))"

definition public_calls :: "source \<Rightarrow> int \<Rightarrow> call list" where
  "public_calls source val =
     Stats_event ''public'' (Some (show_int val))
     # (if src_yp_public source \<noteq> val then [if val \<noteq> 0 then Yp_add else Yp_remove] else [])"

text \<open>A description of the stream: from the mount, else from a header or the default, if there is a format.\<close>

definition stat_from ::
    "source \<Rightarrow> (string \<Rightarrow> string option) \<Rightarrow> string \<Rightarrow> string option \<Rightarrow> string list \<Rightarrow> string option \<Rightarrow> call list" where
  "stat_from source getvar name mount_val headers dflt =
     (case mount_val of
        Some v \<Rightarrow> [Stats_event name (Some v)]
      | None \<Rightarrow>
          (case (case first_var getvar headers of Some v \<Rightarrow> Some v | None \<Rightarrow> dflt) of
             Some v \<Rightarrow> if src_format source \<noteq> None then [Stats_event_conv name v] else []
           | None \<Rightarrow> []))"

definition description_calls :: "source \<Rightarrow> (string \<Rightarrow> string option) \<Rightarrow> mount_proxy option \<Rightarrow> call list" where
  "description_calls source getvar mountinfo =
     stat_from source getvar ''server_name'' (of_mount mountinfo stream_name)
       [''ice-name'', ''icy-name'', ''x-audiocast-name''] (Some ''Unspecified name'')
     @ stat_from source getvar ''server_description'' (of_mount mountinfo stream_description)
       [''ice-description'', ''icy-description'', ''x-audiocast-description''] (Some ''Unspecified description'')
     @ stat_from source getvar ''server_url'' (of_mount mountinfo stream_url)
       [''ice-url'', ''icy-url'', ''x-audiocast-url''] None
     @ stat_from source getvar ''genre'' (of_mount mountinfo stream_genre)
       [''ice-genre'', ''icy-genre'', ''x-audiocast-genre''] (Some ''various'')
     @ [Stats_event ''bitrate'' (case of_mount mountinfo bitrate of
          Some v \<Rightarrow> Some v
        | None \<Rightarrow> first_var getvar [''ice-bitrate'', ''icy-br'', ''x-audiocast-bitrate''])]"

definition type_calls :: "source \<Rightarrow> string \<Rightarrow> mount_proxy option \<Rightarrow> call list" where
  "type_calls source contenttype mountinfo =
     (case of_mount mountinfo mount_mime of
        Some v \<Rightarrow> [Stats_event ''server_type'' (Some v)]
      | None \<Rightarrow> if src_format source \<noteq> None then [Stats_event ''server_type'' (Some contenttype)] else [])
     @ (case of_mount mountinfo subtype of Some v \<Rightarrow> [Stats_event ''subtype'' (Some v)] | None \<Rightarrow> [])"

definition authenticator_call :: "acl option \<Rightarrow> acl option \<Rightarrow> mount_proxy option \<Rightarrow> call" where
  "authenticator_call mount_acl config_acl mountinfo =
     (let a = (if mountinfo \<noteq> None then mount_acl else None);
          a = (if a = None then config_acl else a)
      in if a \<noteq> None \<and> acl_test_web a = ACL_POLICY_DENY then Stats_event ''authenticator'' (Some ''(dummy)'')
         else Stats_event ''authenticator'' None)"

definition intro_path :: "settings \<Rightarrow> string \<Rightarrow> string" where
  "intro_path config name = cfg_webroot_dir config @ ''/'' @ name"

definition source_apply_mount ::
    "settings \<Rightarrow> (string \<Rightarrow> bool) \<Rightarrow> (string \<Rightarrow> string option) \<Rightarrow> string \<Rightarrow> acl option \<Rightarrow> acl option
     \<Rightarrow> source \<Rightarrow> mount_proxy option \<Rightarrow> source \<times> call list" where
  "source_apply_mount config can_open getvar contenttype mount_acl config_acl source mountinfo =
     (let peak = Stats_event ''listener_peak'' (Some (show_nat (unat (peak_listeners source))));
          source = (case mountinfo of
              None \<Rightarrow> source
            | Some m \<Rightarrow> source\<lparr>src_max_listeners := max_listeners m, src_fallback_override := fallback_override m,
                              src_hidden := hidden m\<rparr>);
          val = public_value getvar mountinfo;
          calls = peak # (if src_format source \<noteq> None then [Apply_settings] else [])
            @ public_calls source val @ description_calls source getvar mountinfo
            @ type_calls source contenttype mountinfo
            @ [authenticator_call mount_acl config_acl mountinfo];
          source = source\<lparr>src_yp_public := val,
            src_fallback_mount := of_mount mountinfo fallback_mount,
            src_dumpfilename := of_mount mountinfo dumpfile,
            src_intro_file := (case of_mount mountinfo intro_filename of
                None \<Rightarrow> None
              | Some f \<Rightarrow> if can_open (intro_path config f) then Some (intro_path config f) else None)\<rparr>;
          source = (case mountinfo of
              None \<Rightarrow> source
            | Some m \<Rightarrow> source\<lparr>
                src_queue_size_limit := (if Cfgfile.queue_size_limit m \<noteq> 0 then Cfgfile.queue_size_limit m
                                         else src_queue_size_limit source),
                src_timeout := (if source_timeout m \<noteq> 0 then source_timeout m else src_timeout source),
                src_burst_size := (if Cfgfile.burst_size m \<ge> 0 then word_of_int (Cfgfile.burst_size m)
                                   else src_burst_size source),
                src_fallback_when_full := (if fallback_when_full m \<noteq> 0 then fallback_when_full m
                                           else src_fallback_when_full source),
                src_history := (if max_history m > 0
                                then map_option (\<lambda>p. playlist_set_max_tracks p (max_history m)) (src_history source)
                                else src_history source)\<rparr>)
      in (source, calls))"

definition listenurl :: "settings \<Rightarrow> string \<Rightarrow> string" where
  "listenurl config mount =
     ''http://'' @ cfg_hostname config @ '':'' @ show_int (cfg_port config) @ mount"

text \<open>\<^verbatim>\<open>snprintf\<close> into ten bytes keeps nine characters.\<close>

definition max_listeners_stat :: "int \<Rightarrow> string" where
  "max_listeners_stat n = (if n = -1 then ''unlimited'' else take 9 (show_int n))"

definition source_update_settings ::
    "settings \<Rightarrow> (string \<Rightarrow> bool) \<Rightarrow> (string \<Rightarrow> string option) \<Rightarrow> string \<Rightarrow> acl option \<Rightarrow> acl option
     \<Rightarrow> source \<Rightarrow> mount_proxy option \<Rightarrow> source \<times> call list" where
  "source_update_settings config can_open getvar contenttype mount_acl config_acl source mountinfo =
     (if src_running source \<and> \<not> src_client source then (source, [Stats_event_hidden 1])
      else
        (let source = source\<lparr>src_queue_size_limit := cfg_queue_size_limit config,
               src_timeout := cfg_source_timeout config, src_burst_size := cfg_burst_size config\<rparr>;
             url = Stats_event ''listenurl'' (Some (listenurl config (src_mount source)));
             (source, calls) =
               source_apply_mount config can_open getvar contenttype mount_acl config_acl source mountinfo
         in (source, url # calls
              @ (if on_demand source
                 then [Stats_event ''on_demand'' (Some ''1''),
                       Stats_event ''listeners'' (Some (show_int (sint (n_listeners source))))]
                 else [Stats_event ''on_demand'' None])
              @ [Stats_event_hidden (if src_hidden source \<noteq> 0 then 1 else 0),
                 Stats_event ''max_listeners'' (Some (max_listeners_stat (src_max_listeners source)))])))"

section \<open>Properties\<close>

text \<open>The last value a list of calls leaves for a statistic.\<close>

fun stat_value :: "string \<Rightarrow> call list \<Rightarrow> string option option" where
  "stat_value n [] = None"
| "stat_value n (c # cs) =
     (case stat_value n cs of
        Some v \<Rightarrow> Some v
      | None \<Rightarrow> (case c of
          Stats_event m v \<Rightarrow> if m = n then Some v else None
        | Stats_event_conv m v \<Rightarrow> if m = n then Some (Some v) else None
        | _ \<Rightarrow> None))"

lemma stat_value_append:
  "stat_value n (a @ b) = (case stat_value n b of Some v \<Rightarrow> Some v | None \<Rightarrow> stat_value n a)"
  by (induction a) (auto split: option.splits)

lemma stat_value_stat_from:
  "stat_value n (stat_from source getvar name mount_val headers dflt) =
     (if n \<noteq> name then None
      else (case mount_val of
              Some v \<Rightarrow> Some (Some v)
            | None \<Rightarrow>
                (case first_var getvar headers of
                   Some v \<Rightarrow> if src_format source \<noteq> None then Some (Some v) else None
                 | None \<Rightarrow> (case dflt of
                     Some v \<Rightarrow> if src_format source \<noteq> None then Some (Some v) else None
                   | None \<Rightarrow> None))))"
  by (auto simp: stat_from_def split: option.splits)

lemma apply_mount_name:
  "stat_value ''server_name'' (snd (source_apply_mount config can_open getvar contenttype mount_acl config_acl source mountinfo))
     = (case of_mount mountinfo stream_name of
          Some v \<Rightarrow> Some (Some v)
        | None \<Rightarrow> if src_format source = None then None
                  else Some (Some (or_default (first_var getvar [''ice-name'', ''icy-name'', ''x-audiocast-name''])
                         ''Unspecified name'')))"
proof -
  have t: "stat_value ''server_name'' (type_calls x contenttype mountinfo) = None" for x
    by (auto simp: type_calls_def split: option.splits)
  have a: "stat_value ''server_name'' [authenticator_call mount_acl config_acl mountinfo] = None"
    by (auto simp: authenticator_call_def Let_def)
  have p: "stat_value ''server_name'' (public_calls x v) = None" for x v
    by (auto simp: public_calls_def)
  have d: "stat_value ''server_name'' (description_calls x getvar mountinfo) =
      (case of_mount mountinfo stream_name of
          Some v \<Rightarrow> Some (Some v)
        | None \<Rightarrow> if src_format x = None then None
                  else Some (Some (or_default (first_var getvar [''ice-name'', ''icy-name'', ''x-audiocast-name''])
                         ''Unspecified name'')))" for x
    unfolding description_calls_def stat_value_append stat_value_stat_from
    by (simp add: or_default_def split: option.splits)
  have "\<exists>x v fs. snd (source_apply_mount config can_open getvar contenttype mount_acl config_acl source mountinfo)
      = fs @ public_calls x v @ description_calls x getvar mountinfo @ type_calls x contenttype mountinfo
        @ [authenticator_call mount_acl config_acl mountinfo]
      \<and> src_format x = src_format source \<and> stat_value ''server_name'' fs = None"
    unfolding source_apply_mount_def Let_def snd_conv append_Cons [symmetric] append_assoc [symmetric]
    by (intro exI conjI, rule refl) (auto split: option.splits)
  then obtain x v fs where c: "snd (source_apply_mount config can_open getvar contenttype mount_acl config_acl source mountinfo)
      = fs @ public_calls x v @ description_calls x getvar mountinfo @ type_calls x contenttype mountinfo
        @ [authenticator_call mount_acl config_acl mountinfo]"
    "src_format x = src_format source" "stat_value ''server_name'' fs = None" by blast
  show ?thesis unfolding c(1) stat_value_append t a p d c(2) option.case
    by (simp add: c(3) split: option.splits)
qed

lemma apply_mount_fields:
  "src_queue_size_limit (fst (source_apply_mount config can_open getvar ct a1 a2 source mi)) =
     (case mi of Some m \<Rightarrow> if Cfgfile.queue_size_limit m \<noteq> 0 then Cfgfile.queue_size_limit m else src_queue_size_limit source
      | None \<Rightarrow> src_queue_size_limit source)"
  "src_timeout (fst (source_apply_mount config can_open getvar ct a1 a2 source mi)) =
     (case mi of Some m \<Rightarrow> if source_timeout m \<noteq> 0 then source_timeout m else src_timeout source
      | None \<Rightarrow> src_timeout source)"
  "src_burst_size (fst (source_apply_mount config can_open getvar ct a1 a2 source mi)) =
     (case mi of Some m \<Rightarrow> if Cfgfile.burst_size m \<ge> 0 then word_of_int (Cfgfile.burst_size m) else src_burst_size source
      | None \<Rightarrow> src_burst_size source)"
  "src_max_listeners (fst (source_apply_mount config can_open getvar ct a1 a2 source mi)) =
     (case mi of Some m \<Rightarrow> max_listeners m | None \<Rightarrow> src_max_listeners source)"
  "src_fallback_mount (fst (source_apply_mount config can_open getvar ct a1 a2 source mi)) = of_mount mi fallback_mount"
  unfolding source_apply_mount_def Let_def fst_conv
  by (cases mi; simp)+

text \<open>
  when the settings of a source are updated, the mount comes first: its queue size, timeout and burst
  size if set, else those of the configuration; its limit of listeners, else the one the source
  had; its fallback, else none; its stream name, else the first of the three name headers of the
  source client, else a fixed text. A source that plays a fallback file is left as it is.
\<close>

theorem settings_precedence:
  assumes "source_update_settings config can_open getvar ct a1 a2 s mi = (s', calls)"
  shows "if src_running s \<and> \<not> src_client s then s' = s
     else src_queue_size_limit s' = (case mi of
            Some m \<Rightarrow> if Cfgfile.queue_size_limit m \<noteq> 0 then Cfgfile.queue_size_limit m else cfg_queue_size_limit config
          | None \<Rightarrow> cfg_queue_size_limit config)
       \<and> src_timeout s' = (case mi of
            Some m \<Rightarrow> if source_timeout m \<noteq> 0 then source_timeout m else cfg_source_timeout config
          | None \<Rightarrow> cfg_source_timeout config)
       \<and> src_burst_size s' = (case mi of
            Some m \<Rightarrow> if Cfgfile.burst_size m \<ge> 0 then word_of_int (Cfgfile.burst_size m) else cfg_burst_size config
          | None \<Rightarrow> cfg_burst_size config)
       \<and> src_max_listeners s' = (case mi of Some m \<Rightarrow> max_listeners m | None \<Rightarrow> src_max_listeners s)
       \<and> src_fallback_mount s' = of_mount mi fallback_mount
       \<and> (src_format s \<noteq> None \<longrightarrow> stat_value ''server_name'' calls = Some (Some
            (case of_mount mi stream_name of
               Some v \<Rightarrow> v
             | None \<Rightarrow> or_default (first_var getvar [''ice-name'', ''icy-name'', ''x-audiocast-name'']) ''Unspecified name'')))"
proof (cases "src_running s \<and> \<not> src_client s")
  case True
  with assms show ?thesis by (simp add: source_update_settings_def)
next
  case False
  let ?s = "s\<lparr>src_queue_size_limit := cfg_queue_size_limit config,
               src_timeout := cfg_source_timeout config, src_burst_size := cfg_burst_size config\<rparr>"
  obtain x cs where a: "source_apply_mount config can_open getvar ct a1 a2 ?s mi = (x, cs)" by fastforce
  have c: "s' = x" "calls = Stats_event ''listenurl'' (Some (listenurl config (src_mount s))) # cs
              @ (if on_demand x
                 then [Stats_event ''on_demand'' (Some ''1''),
                       Stats_event ''listeners'' (Some (show_int (sint (n_listeners x))))]
                 else [Stats_event ''on_demand'' None])
              @ [Stats_event_hidden (if src_hidden x \<noteq> 0 then 1 else 0),
                 Stats_event ''max_listeners'' (Some (max_listeners_stat (src_max_listeners x)))]"
    using assms a False unfolding source_update_settings_def Let_def by auto
  have "stat_value ''server_name'' calls = stat_value ''server_name'' cs"
    unfolding c(2) by (simp add: stat_value_append split: option.splits)
  then have "src_format s \<noteq> None \<longrightarrow> stat_value ''server_name'' calls = Some (Some
            (case of_mount mi stream_name of
               Some v \<Rightarrow> v
             | None \<Rightarrow> or_default (first_var getvar [''ice-name'', ''icy-name'', ''x-audiocast-name'']) ''Unspecified name''))"
    using apply_mount_name [of config can_open getvar ct a1 a2 ?s mi] a by (simp split: option.splits)
  moreover note apply_mount_fields [of config can_open getvar ct a1 a2 ?s mi, unfolded a fst_conv]
  ultimately show ?thesis using False c(1) by (simp only: if_False) (cases mi; simp)
qed

theorem settings_precedence_witness:
  "\<exists>s' calls. source_update_settings \<lparr>cfg_queue_size_limit = 524288, cfg_source_timeout = 10, cfg_burst_size = 65536,
       cfg_hostname = ''h'', cfg_port = 8000, cfg_webroot_dir = ''/w''\<rparr> (\<lambda>_. False)
       (\<lambda>h. if h = ''icy-name'' then Some ''radio'' else None) ''audio/mpeg'' None None
       ((new_source ''/a'')\<lparr>src_format := Some 1\<rparr>) None = (s', calls)
     \<and> src_timeout s' = 10 \<and> stat_value ''server_name'' calls = Some (Some ''radio'')"
proof -
  let ?c = "\<lparr>cfg_queue_size_limit = 524288, cfg_source_timeout = 10, cfg_burst_size = 65536,
       cfg_hostname = ''h'', cfg_port = 8000, cfg_webroot_dir = ''/w''\<rparr>"
  let ?g = "\<lambda>h. if h = ''icy-name'' then Some ''radio'' else None"
  let ?s = "(new_source ''/a'')\<lparr>src_format := Some 1\<rparr>"
  obtain s' calls where u: "source_update_settings ?c (\<lambda>_. False) ?g ''audio/mpeg'' None None ?s None = (s', calls)"
    by fastforce
  have "\<not> (src_running ?s \<and> \<not> src_client ?s)" "src_format ?s \<noteq> None" by (simp_all add: new_source_def)
  with settings_precedence [OF u] have "src_timeout s' = 10"
    "stat_value ''server_name'' calls = Some (Some (or_default (first_var ?g [''ice-name'', ''icy-name'', ''x-audiocast-name'']) ''Unspecified name''))"
    by (simp_all only: if_False of_mount_def option.case settings.simps simp_thms)
  then show ?thesis using u by (simp add: or_default_def)
qed

lemma show_nat_length: "0 < k \<Longrightarrow> length (show_nat n) \<le> k \<longleftrightarrow> n < 10 ^ k"
proof (induction k arbitrary: n)
  case (Suc k)
  show ?case
  proof (cases "n < 10")
    case True
    moreover have "(10::nat) \<le> 10 ^ Suc k" by simp
    ultimately have "n < 10 ^ Suc k" by linarith
    then show ?thesis using True by (subst show_nat.simps) simp
  next
    case False
    show ?thesis
    proof (cases "k = 0")
      case True
      then show ?thesis using False by (subst show_nat.simps) simp
    next
      case k: False
      have "n div 10 < 10 ^ k \<longleftrightarrow> n < 10 ^ Suc k" by (simp add: div_less_iff_less_mult mult.commute)
      then show ?thesis using False Suc.IH [of "n div 10"] k by (subst show_nat.simps) simp
    qed
  qed
qed simp

text \<open>
  the statistic for the limit of listeners shows the limit as long as it has at most nine digits;
  from 1000000000 on the buffer of ten bytes cuts it off, and the statistic is wrong.
\<close>

theorem max_listeners_stat_exact:
  "0 \<le> n \<Longrightarrow> max_listeners_stat n = show_int n \<longleftrightarrow> n < 1000000000"
  using show_nat_length [of 9 "nat n"] by (auto simp: max_listeners_stat_def show_int_def)

theorem max_listeners_stat_exact_witness: "max_listeners_stat 1000000000 \<noteq> show_int 1000000000"
  using max_listeners_stat_exact [of 1000000000] by simp

end
