(* ===== verification/Auth_Backends.thy ===== *)
theory Auth_Backends
  imports Util_Base64
begin

text \<open>
  Authenticators that decide at once (\<^verbatim>\<open>src/src/auth_anonymous.c\<close>, \<^verbatim>\<open>src/src/auth_static.c\<close>), the result
  codes of \<^verbatim>\<open>auth.h\<close>, and the credentials a client brings in its authorization header
  (\<^verbatim>\<open>auth_client_setup\<close> of \<^verbatim>\<open>src/src/auth.c\<close>).
\<close>

section \<open>Definitions\<close>

datatype auth_result =
  AUTH_UNDEFINED | AUTH_OK | AUTH_FAILED | AUTH_RELEASED | AUTH_FORBIDDEN | AUTH_NOMATCH
| AUTH_USERADDED | AUTH_USEREXISTS | AUTH_USERDELETED

definition auth_result2str :: "auth_result \<Rightarrow> string" where
  "auth_result2str res =
     (case res of
        AUTH_UNDEFINED \<Rightarrow> ''undefined''
      | AUTH_OK \<Rightarrow> ''ok''
      | AUTH_FAILED \<Rightarrow> ''failed''
      | AUTH_RELEASED \<Rightarrow> ''released''
      | AUTH_FORBIDDEN \<Rightarrow> ''forbidden''
      | AUTH_NOMATCH \<Rightarrow> ''no match''
      | AUTH_USERADDED \<Rightarrow> ''user added''
      | AUTH_USEREXISTS \<Rightarrow> ''user exists''
      | AUTH_USERDELETED \<Rightarrow> ''user deleted'')"

record credentials =
  username :: "string option"
  password :: "string option"

text \<open>The bytes the decoder returns, read as a C string.\<close>

definition bytes_str :: "byte list \<Rightarrow> string" where
  "bytes_str bs = c_str (map (\<lambda>b. char_of (unat b)) bs)"

text \<open>The credentials of a client: what it has, else what its authorization header says.\<close>

definition auth_client_setup :: "string option \<Rightarrow> credentials \<Rightarrow> credentials" where
  "auth_client_setup header c =
     (if username c \<noteq> None \<or> password c \<noteq> None then c
      else (case header of
              None \<Rightarrow> c
            | Some h \<Rightarrow>
                if starts_with ''Basic '' h
                then (case util_base64_decode (drop 6 h) of
                        None \<Rightarrow> c
                      | Some userpass \<Rightarrow>
                          (case strchr CHR '':'' (bytes_str userpass) of
                             None \<Rightarrow> c
                           | Some (u, p) \<Rightarrow> c\<lparr>username := Some u, password := Some p\<rparr>))
                else c))"

definition anonymous_auth :: "credentials \<Rightarrow> auth_result" where
  "anonymous_auth c = AUTH_OK"

section \<open>The static authenticator\<close>

record auth_static =
  st_username :: "string option"
  st_password :: "string option"

text \<open>Comparing with a missing password would read through NULL.\<close>

definition static_auth :: "auth_static \<Rightarrow> credentials \<Rightarrow> fault + auth_result" where
  "static_auth info c =
     (if st_username info \<noteq> None \<and> username c = None then Inr AUTH_NOMATCH
      else if st_username info \<noteq> None \<and> st_username info \<noteq> username c then Inr AUTH_NOMATCH
      else (case password c of
              None \<Rightarrow> Inr AUTH_NOMATCH
            | Some p \<Rightarrow>
                (case st_password info of
                   None \<Rightarrow> Inl Null_deref
                 | Some q \<Rightarrow> Inr (if q = p then AUTH_OK else AUTH_FAILED))))"

text \<open>The last option of a name wins; other options are reported and ignored.\<close>

fun static_options :: "(string \<times> string) list \<Rightarrow> auth_static \<Rightarrow> auth_static" where
  "static_options [] info = info"
| "static_options ((name, value) # options) info =
     static_options options
       (if name = ''username'' then info\<lparr>st_username := Some value\<rparr>
        else if name = ''password'' then info\<lparr>st_password := Some value\<rparr>
        else info)"

text \<open>
  Setting the authenticator up: the state it has afterwards (None for NULL) and whether it failed.
  The functions of the authenticator are set in every case but the first.
\<close>

definition auth_get_static_auth ::
    "string \<Rightarrow> (string \<times> string) list \<Rightarrow> int \<times> auth_static option \<times> bool" where
  "auth_get_static_auth type options =
     (if type \<noteq> ''static'' \<and> type \<noteq> ''legacy-password'' then (-1, None, False)
      else
        (let info = static_options options \<lparr>st_username = None, st_password = None\<rparr>
         in if type = ''static'' \<and> st_username info = None then (-1, None, True)
            else if st_password info = None then (-1, None, True)
            else (0, Some info, True)))"

definition clear_auth :: "auth_static option \<Rightarrow> fault + auth_static option" where
  "clear_auth state = (case state of None \<Rightarrow> Inl Null_deref | Some _ \<Rightarrow> Inr None)"

text \<open>A failed setup is followed by the release of the authenticator, which calls its \<^verbatim>\<open>free\<close> function if set.\<close>

definition static_setup ::
    "string \<Rightarrow> (string \<times> string) list \<Rightarrow> fault + auth_static option" where
  "static_setup type options =
     (case auth_get_static_auth type options of
        (r, state, has_free) \<Rightarrow>
          if r < 0 then (if has_free then clear_auth state else Inr None) else Inr state)"

section \<open>Properties\<close>

lemma static_options_value:
  "static_options options info =
     \<lparr>st_username = (case map_of (rev options) ''username'' of Some v \<Rightarrow> Some v | None \<Rightarrow> st_username info),
      st_password = (case map_of (rev options) ''password'' of Some v \<Rightarrow> Some v | None \<Rightarrow> st_password info)\<rparr>"
proof (induction options arbitrary: info)
  case (Cons o1 options)
  obtain n v where "o1 = (n, v)" by (cases o1)
  then show ?case using Cons by (auto simp: map_add_def split: option.splits)
qed simp

lemma static_setup_value:
  "type = ''static'' \<or> type = ''legacy-password'' \<Longrightarrow>
     static_setup type options =
       (if type = ''static'' \<and> map_of (rev options) ''username'' = None
           \<or> map_of (rev options) ''password'' = None then Inl Null_deref
        else Inr (Some \<lparr>st_username = map_of (rev options) ''username'',
                        st_password = map_of (rev options) ''password''\<rparr>))"
  by (auto simp: static_setup_def auth_get_static_auth_def clear_auth_def static_options_value Let_def
      split: option.splits)

lemma static_auth_value:
  "static_auth \<lparr>st_username = u, st_password = Some p\<rparr> c =
     Inr (if (u = None \<or> username c = u) \<and> password c = Some p then AUTH_OK
          else if (u = None \<or> username c = u) \<and> password c \<noteq> None then AUTH_FAILED
          else AUTH_NOMATCH)"
  by (cases u; cases "username c"; cases "password c") (auto simp: static_auth_def)

text \<open>
  A static authenticator that was set up accepts exactly the user name and password of its options
  (the last ones if repeated), with \<open>legacy-password\<close> any user name; it never faults. A missing user
  name or password in the configuration is not reported as an error but crashes the server: the
  state is cleared twice.
\<close>

theorem static_auth_decision:
  assumes "type = ''static'' \<or> type = ''legacy-password''"
  shows "case static_setup type options of
       Inr (Some info) \<Rightarrow>
         static_auth info c =
           Inr (if (st_username info = None \<or> username c = map_of (rev options) ''username'')
                   \<and> password c = map_of (rev options) ''password'' then AUTH_OK
                else if (st_username info = None \<or> username c = map_of (rev options) ''username'')
                   \<and> password c \<noteq> None then AUTH_FAILED
                else AUTH_NOMATCH)
         \<and> (type = ''static'' \<longrightarrow> st_username info \<noteq> None)
     | Inr None \<Rightarrow> False
     | Inl f \<Rightarrow> f = Null_deref \<and> (map_of (rev options) ''password'' = None
                 \<or> type = ''static'' \<and> map_of (rev options) ''username'' = None)"
proof (cases "map_of (rev options) ''password''")
  case None
  then show ?thesis using assms by (simp add: static_setup_value)
next
  case (Some p)
  show ?thesis
  proof (cases "type = ''static'' \<and> map_of (rev options) ''username'' = None")
    case True
    then show ?thesis using static_setup_value [OF assms, of options] by simp
  next
    case False
    then have "static_setup type options =
        Inr (Some \<lparr>st_username = map_of (rev options) ''username'', st_password = Some p\<rparr>)"
      using static_setup_value [OF assms, of options] Some by (simp only: if_False) simp
    then show ?thesis using False Some by (simp add: static_auth_value)
  qed
qed

theorem static_auth_decision_witness:
  "static_setup ''static'' [(''username'', ''source'')] = Inl Null_deref
   \<and> static_auth \<lparr>st_username = Some ''u'', st_password = Some ''p''\<rparr> \<lparr>username = Some ''u'', password = Some ''p''\<rparr> = Inr AUTH_OK"
  using static_auth_decision [of "''static''" "[(''username'', ''u''), (''password'', ''p'')]" "\<lparr>username = Some ''u'', password = Some ''p''\<rparr>"]
  by (simp add: static_setup_def auth_get_static_auth_def clear_auth_def Let_def)

section \<open>The authorization header\<close>

definition str_bytes :: "string \<Rightarrow> byte list" where
  "str_bytes s = map (\<lambda>c. of_nat (code c)) s"

lemma unat_code [simp]: "unat (of_nat (code c) :: byte) = code c"
  by (simp add: unat_of_nat take_bit_nat_eq_self)

lemma code_eq_0 [simp]: "code c = 0 \<longleftrightarrow> c = NUL"
proof -
  have "code NUL = 0" by (simp add: code_def NUL_def)
  then show ?thesis by (metis code_inject)
qed

lemma char_of_unat_0: "char_of (unat (b::byte)) = NUL \<longleftrightarrow> b = 0"
proof -
  have "unat b < 256" using unsigned_less [of b, where 'a = nat] by simp
  then have "char_of (unat b) = NUL \<longleftrightarrow> unat b = code NUL" by (metis code_char_of char_of_code)
  then show ?thesis by (simp add: code_def NUL_def unsigned_eq_0_iff)
qed

lemma bytes_str_takeWhile: "bytes_str bs = map (\<lambda>b. char_of (unat b)) (takeWhile (\<lambda>b. b \<noteq> 0) bs)"
  by (simp add: bytes_str_def c_str_def takeWhile_map comp_def char_of_unat_0)

lemma bytes_str_str_bytes: "map (\<lambda>b. char_of (unat b)) (str_bytes s) = s"
  by (simp add: str_bytes_def comp_def)

lemma str_bytes_no_nul: "no_nul s \<Longrightarrow> 0 \<notin> set (str_bytes s)"
proof
  assume "no_nul s" "0 \<in> set (str_bytes s)"
  then obtain c where "c \<in> set s" "(of_nat (code c) :: byte) = 0" by (auto simp: str_bytes_def)
  then have "unat (of_nat (code c) :: byte) = 0" by simp
  then have "c = NUL" by simp
  with \<open>c \<in> set s\<close> \<open>no_nul s\<close> show False by (simp add: no_nul_def)
qed

text \<open>
  A client that sends a user name without a colon and a password in a basic authorization header
  is seen with exactly this user name and password, whatever else the password holds.
\<close>

theorem basic_authorization_roundtrip:
  assumes "no_nul u" and "no_nul p" and "CHR '':'' \<notin> set u"
  shows "auth_client_setup (Some (''Basic '' @ util_base64_encode 0 (str_bytes (u @ '':'' @ p))))
           \<lparr>username = None, password = None\<rparr> = \<lparr>username = Some u, password = Some p\<rparr>"
proof -
  have "no_nul (u @ '':'' @ p)" using assms(1, 2) by (auto simp: no_nul_def NUL_def)
  then obtain out where out: "util_base64_decode (util_base64_encode 0 (str_bytes (u @ '':'' @ p))) = Some out"
    "takeWhile (\<lambda>b. b \<noteq> 0) out = str_bytes (u @ '':'' @ p)"
    using b64.dec_enc [of "str_bytes (u @ '':'' @ p)"] str_bytes_no_nul [of "u @ '':'' @ p"] by blast
  have "bytes_str out = u @ CHR '':'' # p"
    unfolding bytes_str_takeWhile out(2) bytes_str_str_bytes by simp
  moreover have "strchr CHR '':'' (u @ CHR '':'' # p) = Some (u, p)"
    using assms(3) by (simp add: strchr_Some)
  ultimately show ?thesis using out(1) by (simp add: auth_client_setup_def starts_with_def)
qed

theorem basic_authorization_roundtrip_witness:
  "auth_client_setup (Some (''Basic '' @ util_base64_encode 0 (str_bytes (''source'' @ '':'' @ ''hack:me''))))
     \<lparr>username = None, password = None\<rparr> = \<lparr>username = Some ''source'', password = Some ''hack:me''\<rparr>"
  by (rule basic_authorization_roundtrip) (simp_all add: no_nul_def NUL_def)

end
