(* ===== verification/Auth_Htpasswd.thy ===== *)
theory Auth_Htpasswd
  imports Auth_Backends Util_Conv MD5
begin

text \<open>
  The password file authenticator (\<^verbatim>\<open>src/src/auth_htpasswd.c\<close>): reading the file into a tree of users
  when its modification time changes, checking a password against its MD5 hash, adding and deleting
  users, and listing them.

  The tree comes from a library and is a parameter, with its operations in \<open>users\<close>. The file is its bytes and
  its modification time; \<open>env\<close> says which of the file operations succeed and what time it is.
\<close>

section \<open>Definitions\<close>

record htpasswd_user =
  user_name :: string
  user_pass :: string

record 't user_tree =
  users_new :: 't
  users_insert :: "htpasswd_user \<Rightarrow> 't \<Rightarrow> 't"
  users_get :: "'t \<Rightarrow> string \<Rightarrow> htpasswd_user option"
  users_list :: "'t \<Rightarrow> htpasswd_user list"

record 't htpasswd =
  ht_filename :: "string option"
  ht_users :: "'t option"
  ht_mtime :: int

record passwd_file =
  pf_bytes :: string
  pf_mtime :: int

text \<open>The file, None if there is none, and what can be done with it.\<close>

record disk =
  passwd :: "passwd_file option"
  readable :: bool
  appendable :: bool
  tmp_exists :: bool
  tmp_creatable :: bool
  removable :: bool
  renamable :: bool
  now :: int

definition get_hash :: "string \<Rightarrow> string" where
  "get_hash data =
     util_bin_to_hex (MD5Final (MD5Update (MD5Init
       \<lparr>ctx_buf = (0, 0, 0, 0), bits0 = 0, bits1 = 0, ctx_in = replicate 64 0\<rparr>) (str_bytes data)))"

text \<open>One line of the file: comments and lines without a colon are skipped; the last colon separates.\<close>

definition parse_user :: "string \<Rightarrow> htpasswd_user option" where
  "parse_user line =
     (if line = [] \<or> hd line = CHR ''#'' then None
      else (case strrchr CHR '':'' line of
              None \<Rightarrow> None
            | Some (name, pass) \<Rightarrow> Some \<lparr>user_name = name, user_pass = pass\<rparr>))"

definition add_line :: "'t user_tree \<Rightarrow> string \<Rightarrow> 't \<Rightarrow> 't" where
  "add_line users line t = (case parse_user line of None \<Rightarrow> t | Some u \<Rightarrow> users_insert users u t)"

definition htpasswd_recheckfile :: "'t user_tree \<Rightarrow> disk \<Rightarrow> 't htpasswd \<Rightarrow> 't htpasswd" where
  "htpasswd_recheckfile users env htpasswd =
     (case ht_filename htpasswd of
        None \<Rightarrow> htpasswd
      | Some _ \<Rightarrow>
          (case passwd env of
             None \<Rightarrow> (if ht_users htpasswd = None then htpasswd\<lparr>ht_users := Some (users_new users)\<rparr> else htpasswd)
           | Some f \<Rightarrow>
               if pf_mtime f = ht_mtime htpasswd then htpasswd
               else if \<not> readable env then htpasswd
               else htpasswd\<lparr>ht_mtime := pf_mtime f,
                      ht_users := Some (fold (add_line users) (all_lines (pf_bytes f)) (users_new users))\<rparr>))"

text \<open>Searching in a tree that was never made reads through NULL.\<close>

definition find_user :: "'t user_tree \<Rightarrow> 't htpasswd \<Rightarrow> string \<Rightarrow> fault + htpasswd_user option" where
  "find_user users htpasswd name =
     (case ht_users htpasswd of None \<Rightarrow> Inl Null_deref | Some t \<Rightarrow> Inr (users_get users t name))"

definition htpasswd_auth ::
    "'t user_tree \<Rightarrow> disk \<Rightarrow> credentials \<Rightarrow> 't htpasswd \<Rightarrow> (fault + auth_result) \<times> 't htpasswd" where
  "htpasswd_auth users env c htpasswd =
     (case (username c, password c) of
        (Some u, Some p) \<Rightarrow>
          if ht_filename htpasswd = None then (Inr AUTH_NOMATCH, htpasswd)
          else
            (let htpasswd = htpasswd_recheckfile users env htpasswd
             in (case find_user users htpasswd u of
                   Inl f \<Rightarrow> Inl f
                 | Inr None \<Rightarrow> Inr AUTH_NOMATCH
                 | Inr (Some found) \<Rightarrow> Inr (if user_pass found = get_hash p then AUTH_OK else AUTH_FAILED),
                 htpasswd))
      | _ \<Rightarrow> (Inr AUTH_NOMATCH, htpasswd))"

text \<open>The last \<^verbatim>\<open>filename\<close> option counts.\<close>

definition htpasswd_options :: "(string \<times> string) list \<Rightarrow> string option" where
  "htpasswd_options options = map_of (rev options) ''filename''"

definition auth_get_htpasswd_auth :: "'t user_tree \<Rightarrow> disk \<Rightarrow> (string \<times> string) list \<Rightarrow> 't htpasswd" where
  "auth_get_htpasswd_auth users env options =
     htpasswd_recheckfile users env
       \<lparr>ht_filename = htpasswd_options options, ht_users = None, ht_mtime = 0\<rparr>"

definition user_line :: "string \<Rightarrow> string \<Rightarrow> string" where
  "user_line name pw = name @ '':'' @ get_hash pw"

definition append_user :: "disk \<Rightarrow> string \<Rightarrow> string \<Rightarrow> disk" where
  "append_user env name pw =
     env\<lparr>passwd := Some \<lparr>pf_bytes = (case passwd env of None \<Rightarrow> [] | Some f \<Rightarrow> pf_bytes f) @ user_line name pw @ [CHR 0x0A],
                         pf_mtime = now env\<rparr>\<rparr>"

definition htpasswd_adduser ::
    "'t user_tree \<Rightarrow> disk \<Rightarrow> string \<Rightarrow> string \<Rightarrow> 't htpasswd \<Rightarrow> (fault + auth_result) \<times> 't htpasswd \<times> disk" where
  "htpasswd_adduser users env name pw htpasswd =
     (let htpasswd = htpasswd_recheckfile users env htpasswd
      in case find_user users htpasswd name of
           Inl f \<Rightarrow> (Inl f, htpasswd, env)
         | Inr (Some _) \<Rightarrow> (Inr AUTH_USEREXISTS, htpasswd, env)
         | Inr None \<Rightarrow>
             if \<not> appendable env then (Inr AUTH_FAILED, htpasswd, env)
             else (Inr AUTH_USERADDED, htpasswd, append_user env name pw))"

text \<open>Which lines of the file are copied: the first colon separates here.\<close>

definition keep_line :: "string \<Rightarrow> string \<Rightarrow> bool" where
  "keep_line name line \<longleftrightarrow>
     \<not> (line = [] \<or> hd line = CHR ''#'')
     \<and> (case strchr CHR '':'' line of None \<Rightarrow> False | Some (n, _) \<Rightarrow> name \<noteq> n)"

definition htpasswd_deleteuser ::
    "'t user_tree \<Rightarrow> disk \<Rightarrow> string \<Rightarrow> 't htpasswd \<Rightarrow> auth_result \<times> 't htpasswd \<times> disk" where
  "htpasswd_deleteuser users env name htpasswd =
     (case passwd env of
        None \<Rightarrow> (AUTH_FAILED, htpasswd, env)
      | Some f \<Rightarrow>
          if \<not> readable env then (AUTH_FAILED, htpasswd, env)
          else if tmp_exists env then (AUTH_FAILED, htpasswd, env)
          else if \<not> tmp_creatable env then (AUTH_FAILED, htpasswd, env)
          else
            (let tmp = \<lparr>pf_bytes = text_of (filter (keep_line name) (all_lines (pf_bytes f))), pf_mtime = now env\<rparr>;
                 env = (if \<not> removable env then env\<lparr>tmp_exists := True\<rparr>
                        else if \<not> renamable env then env\<lparr>passwd := None, tmp_exists := True\<rparr>
                        else env\<lparr>passwd := Some tmp\<rparr>)
             in (AUTH_USERDELETED, htpasswd_recheckfile users env htpasswd, env)))"

definition htpasswd_userlist :: "'t user_tree \<Rightarrow> disk \<Rightarrow> 't htpasswd \<Rightarrow> (fault + string list) \<times> 't htpasswd" where
  "htpasswd_userlist users env htpasswd =
     (let htpasswd = htpasswd_recheckfile users env htpasswd
      in (case ht_users htpasswd of
            None \<Rightarrow> Inl Null_deref
          | Some t \<Rightarrow> Inr (map user_name (users_list users t)), htpasswd))"

section \<open>The tree of users\<close>

text \<open>What the code relies on from the tree.\<close>

definition user_tree_ok :: "'t user_tree \<Rightarrow> bool" where
  "user_tree_ok users \<longleftrightarrow>
     (\<forall>k. users_get users (users_new users) k = None)
     \<and> (\<forall>u t k. k \<noteq> user_name u \<longrightarrow> users_get users (users_insert users u t) k = users_get users t k)
     \<and> (\<forall>u t. users_get users t (user_name u) = None \<longrightarrow> users_get users (users_insert users u t) (user_name u) = Some u)
     \<and> (\<forall>u t. \<exists>v. users_get users (users_insert users u t) (user_name u) = Some v)"

definition entries :: "string list \<Rightarrow> htpasswd_user list" where
  "entries ls = List.map_filter parse_user ls"

lemma fold_add_line: "fold (add_line users) ls t = fold (users_insert users) (entries ls) t"
  by (induction ls arbitrary: t) (auto simp: entries_def add_line_def List.map_filter_simps split: option.splits)

lemma get_fold_other:
  "user_tree_ok users \<Longrightarrow> k \<notin> user_name ` set us \<Longrightarrow>
     users_get users (fold (users_insert users) us t) k = users_get users t k"
proof (induction us arbitrary: t)
  case (Cons u us)
  then show ?case by (auto simp: user_tree_ok_def)
qed simp

lemma get_fold_unique:
  assumes "user_tree_ok users" and "users_get users t k = None"
    and "filter (\<lambda>u. user_name u = k) us = [v]"
  shows "users_get users (fold (users_insert users) us t) k = Some v"
  using assms(2, 3)
proof (induction us arbitrary: t)
  case (Cons u us)
  show ?case
  proof (cases "user_name u = k")
    case True
    then have "u = v" "k \<notin> user_name ` set us" using Cons.prems(2) by (auto simp: filter_empty_conv)
    moreover have "users_get users (users_insert users u t) k = Some u"
      using assms(1) Cons.prems(1) True by (auto simp: user_tree_ok_def)
    ultimately show ?thesis using get_fold_other [OF assms(1)] by simp
  next
    case False
    then have "users_get users (users_insert users u t) k = None"
      using assms(1) Cons.prems(1) by (auto simp: user_tree_ok_def)
    then show ?thesis using Cons.IH Cons.prems(2) False by simp
  qed
qed simp

lemma get_fold_some:
  "user_tree_ok users \<Longrightarrow> k \<in> user_name ` set us \<or> users_get users t k \<noteq> None \<Longrightarrow>
     users_get users (fold (users_insert users) us t) k \<noteq> None"
proof (induction us arbitrary: t)
  case (Cons u us)
  have "k \<in> user_name ` set us \<or> users_get users (users_insert users u t) k \<noteq> None"
  proof (cases "k = user_name u")
    case True
    then show ?thesis using Cons.prems(1) by (auto simp: user_tree_ok_def)
  next
    case False
    then show ?thesis using Cons.prems by (auto simp: user_tree_ok_def)
  qed
  then show ?case using Cons.IH [OF Cons.prems(1)] by simp
qed simp

section \<open>Reading the file\<close>

text \<open>A file that holds the lines \<open>ls\<close> and has changed since the tree was made.\<close>

definition changed_file :: "disk \<Rightarrow> 't htpasswd \<Rightarrow> string list \<Rightarrow> int \<Rightarrow> bool" where
  "changed_file env h ls m \<longleftrightarrow>
     ht_filename h \<noteq> None \<and> readable env \<and> passwd env = Some \<lparr>pf_bytes = text_of ls, pf_mtime = m\<rparr>
     \<and> list_all line_ok ls \<and> m \<noteq> ht_mtime h"

lemma recheck_changed:
  assumes "changed_file env h ls m"
  shows "htpasswd_recheckfile users env h =
     h\<lparr>ht_mtime := m, ht_users := Some (fold (users_insert users) (entries ls) (users_new users))\<rparr>"
  using assms by (auto simp: changed_file_def htpasswd_recheckfile_def all_lines_text_of fold_add_line)

lemma auth_changed:
  assumes "changed_file env h ls m"
  shows "fst (htpasswd_auth users env \<lparr>username = Some k, password = Some p\<rparr> h) =
     (case users_get users (fold (users_insert users) (entries ls) (users_new users)) k of
        None \<Rightarrow> Inr AUTH_NOMATCH
      | Some u \<Rightarrow> Inr (if user_pass u = get_hash p then AUTH_OK else AUTH_FAILED))"
  using assms recheck_changed [OF assms, of users]
  by (auto simp: htpasswd_auth_def find_user_def Let_def changed_file_def split: option.splits)

lemma hex_no_colon: "CHR '':'' \<notin> set (util_bin_to_hex bs)"
proof -
  have h: "set hexchars \<subseteq> set (''0123456789abcdefABCDEF'')" by (simp add: hexchars_def)
  have l: "length hexchars = 16" by (simp add: hexchars_def)
  have "unat (drop_bit 4 (d AND 0xF0)) < 16" "unat (d AND 0x0F) < 16" for d :: byte
  proof -
    have "unat (drop_bit 4 (d AND 0xF0)) < 2 ^ 4"
      unfolding unsigned_drop_bit_eq using unsigned_less [of "d AND 0xF0", where 'a = nat]
      by (simp add: drop_bit_eq_div less_mult_imp_div_less take_bit_nat_eq_self)
    then show "unat (drop_bit 4 (d AND 0xF0)) < 16" by simp
    have "d AND 0x0F = take_bit 4 d" by (simp add: take_bit_eq_mask mask_eq_exp_minus_1)
    then have "unat (d AND 0x0F) < 2 ^ 4"
      using take_bit_nat_less_exp [of 4 "unat d"] by (simp add: unsigned_take_bit_eq)
    then show "unat (d AND 0x0F) < 16" by simp
  qed
  then have "c \<in> set hexchars" if "c \<in> set (util_bin_to_hex bs)" for c
    using that l unfolding util_bin_to_hex_def by (auto intro: nth_mem)
  then show ?thesis using h by auto
qed

lemma parse_user_line:
  "name \<noteq> [] \<Longrightarrow> hd name \<noteq> CHR ''#'' \<Longrightarrow>
     parse_user (user_line name pw) = Some \<lparr>user_name = name, user_pass = get_hash pw\<rparr>"
  using strrchr_append [of "CHR '':''" "get_hash pw" name] hex_no_colon
  by (simp add: parse_user_def user_line_def get_hash_def)

lemma entries_append: "entries (ls @ ms) = entries ls @ entries ms"
  by (simp add: entries_def map_filter_def)

section \<open>Properties\<close>


text \<open>A tree as the list of its users, the first one of a name counting.\<close>

definition list_tree :: "htpasswd_user list user_tree" where
  "list_tree = \<lparr>users_new = [], users_insert = (\<lambda>u t. t @ [u]),
     users_get = (\<lambda>t k. find (\<lambda>u. user_name u = k) t), users_list = (\<lambda>t. t)\<rparr>"

lemma find_snoc: "find P (xs @ [x]) = (case find P xs of Some y \<Rightarrow> Some y | None \<Rightarrow> if P x then Some x else None)"
  by (induction xs) auto

lemma list_tree_ok: "user_tree_ok list_tree"
  by (auto simp: user_tree_ok_def list_tree_def find_snoc split: option.splits)

definition demo_disk :: "string list \<Rightarrow> disk" where
  "demo_disk ls = \<lparr>passwd = Some \<lparr>pf_bytes = text_of ls, pf_mtime = 5\<rparr>, readable = True, appendable = True,
     tmp_exists = False, tmp_creatable = True, removable = True, renamable = True, now = 7\<rparr>"

definition demo_ht :: "htpasswd_user list htpasswd" where
  "demo_ht = \<lparr>ht_filename = Some ''users'', ht_users = None, ht_mtime = 0\<rparr>"


lemma keep_line_parse:
  assumes "\<forall>u. parse_user l = Some u \<longrightarrow> CHR '':'' \<notin> set (user_name u)" and "parse_user l = Some u"
  shows "keep_line name l \<longleftrightarrow> user_name u \<noteq> name"
proof -
  obtain p where l: "strrchr CHR '':'' l = Some (user_name u, p)" "l \<noteq> []" "hd l \<noteq> CHR ''#''"
    using assms(2) by (auto simp: parse_user_def split: if_splits option.splits)
  then have "strchr CHR '':'' l = Some (user_name u, p)"
    using strrchr_SomeD [OF l(1)] assms by (simp add: strchr_Some)
  with l(2, 3) show ?thesis by (auto simp: keep_line_def)
qed

lemma keep_line_entry: "keep_line name l \<Longrightarrow> parse_user l \<noteq> None"
  by (auto simp: keep_line_def parse_user_def strchr_Some strrchr_None split: option.splits)

lemma entries_keep:
  "\<forall>u\<in>set (entries ls). CHR '':'' \<notin> set (user_name u) \<Longrightarrow>
     entries (filter (keep_line name) ls) = filter (\<lambda>u. user_name u \<noteq> name) (entries ls)"
proof (induction ls)
  case (Cons l ls)
  have IH: "entries (filter (keep_line name) ls) = filter (\<lambda>u. user_name u \<noteq> name) (entries ls)"
    using Cons by (auto simp: entries_def List.map_filter_simps split: option.splits)
  show ?case
  proof (cases "parse_user l")
    case None
    then show ?thesis using IH keep_line_entry [of name l] by (auto simp: entries_def List.map_filter_simps)
  next
    case (Some u)
    then have "CHR '':'' \<notin> set (user_name u)" using Cons.prems by (simp add: entries_def List.map_filter_simps)
    then have "keep_line name l \<longleftrightarrow> user_name u \<noteq> name" using keep_line_parse [of l u name] Some by simp
    then show ?thesis using IH Some by (simp add: entries_def List.map_filter_simps)
  qed
qed (simp add: entries_def List.map_filter_simps)

lemma auth_in_sync:
  assumes "ht_filename h \<noteq> None" and "passwd env = Some f" and "pf_mtime f = ht_mtime h" and "ht_users h = Some t"
  shows "fst (htpasswd_auth users env \<lparr>username = Some k, password = Some p\<rparr> h) =
     (case users_get users t k of
        None \<Rightarrow> Inr AUTH_NOMATCH
      | Some u \<Rightarrow> Inr (if user_pass u = get_hash p then AUTH_OK else AUTH_FAILED))"
  using assms by (auto simp: htpasswd_auth_def htpasswd_recheckfile_def find_user_def Let_def split: option.splits)

lemma delete_reloads:
  assumes "changed_file env h ls m" and "htpasswd_deleteuser users env name h = (AUTH_USERDELETED, h', env')"
    and "removable env" and "renamable env" and "now env \<noteq> ht_mtime h"
  shows "ht_filename h' \<noteq> None" "passwd env' = Some \<lparr>pf_bytes = text_of (filter (keep_line name) ls), pf_mtime = now env\<rparr>"
    "ht_mtime h' = now env"
    "ht_users h' = Some (fold (users_insert users) (entries (filter (keep_line name) ls)) (users_new users))"
proof -
  have l: "all_lines (text_of ls) = ls" using assms(1) by (simp add: changed_file_def all_lines_text_of)
  have e: "env' = env\<lparr>passwd := Some \<lparr>pf_bytes = text_of (filter (keep_line name) ls), pf_mtime = now env\<rparr>\<rparr>"
    "h' = htpasswd_recheckfile users env' h"
    using assms by (auto simp: htpasswd_deleteuser_def changed_file_def l Let_def split: if_splits)
  have "list_all line_ok (filter (keep_line name) ls)"
    using assms(1) by (auto simp: changed_file_def list_all_iff)
  then have "changed_file env' h (filter (keep_line name) ls) (now env)"
    using assms(1, 5) by (simp add: changed_file_def e(1))
  from recheck_changed [OF this, of users] e assms(1)
  show "ht_filename h' \<noteq> None" "passwd env' = Some \<lparr>pf_bytes = text_of (filter (keep_line name) ls), pf_mtime = now env\<rparr>"
    "ht_mtime h' = now env"
    "ht_users h' = Some (fold (users_insert users) (entries (filter (keep_line name) ls)) (users_new users))"
    by (simp_all add: changed_file_def)
qed

text \<open>
  Deleting a user removes it and nobody else, as long as no user name holds a colon: afterwards a
  login under the deleted name finds no user, and a login of any other user of the file gives what
  it gave before.
\<close>

theorem deleted_user_is_gone:
  assumes "user_tree_ok users" and "changed_file env h ls m"
    and "htpasswd_deleteuser users env name h = (AUTH_USERDELETED, h', env')"
    and "removable env" and "renamable env" and "now env \<noteq> ht_mtime h"
    and "\<forall>u\<in>set (entries ls). CHR '':'' \<notin> set (user_name u)"
    and "filter (\<lambda>u. user_name u = k) (entries ls) = [v]" and "k \<noteq> name"
  shows "fst (htpasswd_auth users env' \<lparr>username = Some name, password = Some p\<rparr> h') = Inr AUTH_NOMATCH
     \<and> fst (htpasswd_auth users env' \<lparr>username = Some k, password = Some p\<rparr> h')
       = fst (htpasswd_auth users env \<lparr>username = Some k, password = Some p\<rparr> h)"
proof -
  note d = delete_reloads [OF assms(2-6)]
  note au = auth_in_sync [OF d(1, 2) _ d(4), of users, unfolded d(3), simplified]
  let ?es = "filter (\<lambda>u. user_name u \<noteq> name) (entries ls)"
  have "users_get users (fold (users_insert users) ?es (users_new users)) name = None"
    using get_fold_other [OF assms(1), of name ?es "users_new users"] assms(1) by (auto simp: user_tree_ok_def)
  moreover have "filter (\<lambda>u. user_name u = k) ?es = [v]"
    using assms(8, 9) by (simp add: filter_filter conj_commute) (metis (mono_tags, lifting) filter_cong)
  then have "users_get users (fold (users_insert users) ?es (users_new users)) k = Some v"
    using assms(1) by (intro get_fold_unique) (auto simp: user_tree_ok_def)
  moreover have "users_get users (fold (users_insert users) (entries ls) (users_new users)) k = Some v"
    using assms(1, 8) by (intro get_fold_unique) (auto simp: user_tree_ok_def)
  ultimately show ?thesis
    unfolding au auth_changed [OF assms(2)] entries_keep [OF assms(7)] by simp
qed

theorem deleted_user_is_gone_witness:
  "\<exists>h' env'. htpasswd_deleteuser list_tree (demo_disk [''joe:x'', ''ann:y'']) ''joe'' demo_ht = (AUTH_USERDELETED, h', env')
     \<and> fst (htpasswd_auth list_tree env' \<lparr>username = Some ''joe'', password = Some ''pw''\<rparr> h') = Inr AUTH_NOMATCH"
proof -
  let ?ls = "[''joe:x'', ''ann:y'']"
  have c: "changed_file (demo_disk ?ls) demo_ht ?ls 5"
    by (simp add: changed_file_def demo_disk_def demo_ht_def line_ok_def no_nul_def NUL_def)
  have e: "entries ?ls = [\<lparr>user_name = ''joe'', user_pass = ''x''\<rparr>, \<lparr>user_name = ''ann'', user_pass = ''y''\<rparr>]"
    by (simp add: entries_def List.map_filter_simps parse_user_def)
  obtain h' env' where a: "htpasswd_deleteuser list_tree (demo_disk ?ls) ''joe'' demo_ht = (AUTH_USERDELETED, h', env')"
    by (simp add: htpasswd_deleteuser_def demo_disk_def Let_def)
  have "now (demo_disk ?ls) \<noteq> ht_mtime demo_ht" "removable (demo_disk ?ls)" "renamable (demo_disk ?ls)"
    by (simp_all add: demo_disk_def demo_ht_def)
  with deleted_user_is_gone [OF list_tree_ok c a, of "''ann''" "\<lparr>user_name = ''ann'', user_pass = ''y''\<rparr>" "''pw''"] a e
  show ?thesis by simp
qed

text \<open>
  Adding and reading take the last colon of a line, deleting the first: a user whose name holds a
  colon cannot be deleted under its name, and is deleted together with the user named like the part
  before the colon.
\<close>

theorem colon_in_user_name:
  assumes "a \<noteq> []" and "hd a \<noteq> CHR ''#''" and "CHR '':'' \<notin> set a"
  shows "parse_user (user_line (a @ '':'' @ b) pw) = Some \<lparr>user_name = a @ '':'' @ b, user_pass = get_hash pw\<rparr>
     \<and> keep_line (a @ '':'' @ b) (user_line (a @ '':'' @ b) pw)
     \<and> \<not> keep_line a (user_line (a @ '':'' @ b) pw)"
proof -
  have "strchr CHR '':'' (user_line (a @ '':'' @ b) pw) = Some (a, b @ '':'' @ get_hash pw)"
    using assms(3) by (simp add: user_line_def strchr_Some)
  moreover have "user_line (a @ '':'' @ b) pw \<noteq> []" "hd (user_line (a @ '':'' @ b) pw) \<noteq> CHR ''#''"
    using assms(1, 2) by (simp_all add: user_line_def)
  ultimately show ?thesis
    using parse_user_line [of "a @ '':'' @ b" pw] assms(1, 2) by (simp add: keep_line_def)
qed

theorem colon_in_user_name_witness: "\<not> keep_line ''a'' (user_line (''a'' @ '':'' @ ''b'') ''pw'')"
  using colon_in_user_name [of "''a''" "''b''" "''pw''"] by simp

end
