(* ===== verification/Auth.thy ===== *)
theory Auth
  imports Auth_Backends ACL Errors "HOL-Library.Multiset" "HOL-Library.Sublist"
begin

text \<open>
  Authentication of a client through a stack of authenticators (\<^verbatim>\<open>src/src/auth.c\<close>). An authenticator that
  decides at once is asked on the spot; another one has a queue and a thread. A client that no
  authenticator knows moves forward in the stack. The callback of the client is called with the
  result.

  An authenticator is known by its number, \<open>auths\<close> gives its settings; its function \<open>authenticate\<close> is
  the one its backend set (\<^verbatim>\<open>authenticate_client\<close>, None for NULL). The state holds the queues with their
  counters, the reference counters, the callbacks made so far and the clients turned away.
\<close>

section \<open>Definitions\<close>

record auth =
  auth_type :: string
  auth_role :: "string option"
  auth_method :: "nat \<Rightarrow> bool"
  immediate :: bool
  authenticate :: "(credentials \<Rightarrow> auth_result) option"
  auth_acl :: acl

record aclient =
  clnt_id :: nat
  req_type :: nat
  authorization :: "string option"
  creds :: credentials
  client_auth :: "nat option"
  client_acl :: "acl option"
  client_role :: "string option"
  authstack :: "nat list"

record auth_state =
  queue_of :: "nat \<Rightarrow> aclient list"
  pending_count :: "nat \<Rightarrow> int"
  auth_refs :: "nat \<Rightarrow> int"
  results :: "(aclient \<times> auth_result) list"
  busy :: "aclient list"

definition auth_addref :: "nat \<Rightarrow> auth_state \<Rightarrow> auth_state" where
  "auth_addref i w = w\<lparr>auth_refs := (auth_refs w)(i := auth_refs w i + 1)\<rparr>"

definition auth_release :: "nat option \<Rightarrow> auth_state \<Rightarrow> auth_state" where
  "auth_release p w =
     (case p of None \<Rightarrow> w | Some i \<Rightarrow> w\<lparr>auth_refs := (auth_refs w)(i := auth_refs w i - 1)\<rparr>)"

text \<open>A result other than success drops the reference to the authenticator; without a function nothing is dropped.\<close>

definition auth_new_client :: "auth \<Rightarrow> aclient \<Rightarrow> auth_state \<Rightarrow> auth_result \<times> aclient \<times> auth_state" where
  "auth_new_client a c w =
     (case authenticate a of
        None \<Rightarrow> (AUTH_FAILED, c, w)
      | Some f \<Rightarrow>
          (let ret = f (creds c)
           in if ret \<noteq> AUTH_OK then (ret, c\<lparr>client_auth := None\<rparr>, auth_release (client_auth c) w)
              else (ret, c, w)))"

definition on_result :: "aclient \<Rightarrow> auth_result \<Rightarrow> auth_state \<Rightarrow> auth_state" where
  "on_result c r w = w\<lparr>results := results w @ [(c, r)]\<rparr>"

text \<open>\<open>on_no_match\<close> is called instead of the callback when the authenticator does not know the client.\<close>

definition handle_auth_client ::
    "auth \<Rightarrow> (aclient \<Rightarrow> auth_state \<Rightarrow> auth_state) \<Rightarrow> aclient \<Rightarrow> auth_state \<Rightarrow> auth_state" where
  "handle_auth_client a on_no_match c w =
     (let (result, c, w) = auth_new_client a c w;
          c = (if result = AUTH_OK
               then c\<lparr>client_acl := Some (auth_acl a),
                      client_role := (if auth_role a \<noteq> None then auth_role a else client_role c)\<rparr>
               else c)
      in if result = AUTH_NOMATCH then on_no_match c w else on_result c result w)"

definition queue_auth_client ::
    "auth \<Rightarrow> nat \<Rightarrow> (aclient \<Rightarrow> auth_state \<Rightarrow> auth_state) \<Rightarrow> aclient \<Rightarrow> auth_state \<Rightarrow> auth_state" where
  "queue_auth_client a i on_no_match c w =
     (if immediate a then handle_auth_client a on_no_match c w
      else w\<lparr>queue_of := (queue_of w)(i := queue_of w i @ [c]),
             pending_count := (pending_count w)(i := pending_count w i + 1)\<rparr>)"

definition auth_add_client ::
    "auth \<Rightarrow> nat \<Rightarrow> (aclient \<Rightarrow> auth_state \<Rightarrow> auth_state) \<Rightarrow> aclient \<Rightarrow> auth_state \<Rightarrow> auth_state" where
  "auth_add_client a i on_no_match c w =
     (if pending_count w i > 100 then w\<lparr>busy := busy w @ [c]\<rparr>
      else if \<not> auth_method a (req_type c) then on_no_match c w
      else
        (let w = auth_addref i (auth_release (client_auth c) w);
             c = c\<lparr>client_auth := Some i, creds := auth_client_setup (authorization c) (creds c)\<rparr>
         in queue_auth_client a i on_no_match c w))"

text \<open>
  A client enters the stack at its first authenticator; who has nobody left gets the result that
  nothing matched. The reference taken while the authenticator is asked is dropped afterwards.
\<close>

fun auth_stack_add_client :: "(nat \<Rightarrow> auth) \<Rightarrow> nat list \<Rightarrow> aclient \<Rightarrow> auth_state \<Rightarrow> auth_state" where
  "auth_stack_add_client auths [] c w = w"
| "auth_stack_add_client auths (i # rest) c w =
     (if authstack c \<noteq> [] \<and> authstack c \<noteq> i # rest then w
      else
        (let c = c\<lparr>authstack := i # rest\<rparr>
         in auth_release (Some i)
           (auth_add_client (auths i) i
             (\<lambda>c w. let c = c\<lparr>authstack := rest\<rparr>
                    in if rest = [] then on_result c AUTH_NOMATCH w else auth_stack_add_client auths rest c w)
             c (auth_addref i w))))"

definition move_client_forward :: "(nat \<Rightarrow> auth) \<Rightarrow> aclient \<Rightarrow> auth_state \<Rightarrow> auth_state" where
  "move_client_forward auths c w =
     (let c = c\<lparr>authstack := tl (authstack c)\<rparr>
      in if authstack c = [] then on_result c AUTH_NOMATCH w
         else auth_stack_add_client auths (authstack c) c w)"

text \<open>One round of the thread of an authenticator.\<close>

definition auth_run_round :: "(nat \<Rightarrow> auth) \<Rightarrow> nat \<Rightarrow> auth_state \<Rightarrow> auth_state" where
  "auth_run_round auths i w =
     (case queue_of w i of
        [] \<Rightarrow> w
      | c # cs \<Rightarrow>
          handle_auth_client (auths i) (move_client_forward auths) c
            (w\<lparr>queue_of := (queue_of w)(i := cs), pending_count := (pending_count w)(i := pending_count w i - 1)\<rparr>))"

section \<open>The decision of a stack\<close>

text \<open>What a stack decides: the first authenticator for the method of the client that knows it.\<close>

fun deciding :: "(nat \<Rightarrow> auth) \<Rightarrow> nat list \<Rightarrow> nat \<Rightarrow> credentials \<Rightarrow> (nat \<times> auth_result) option" where
  "deciding auths [] m cr = None"
| "deciding auths (i # rest) m cr =
     (if \<not> auth_method (auths i) m then deciding auths rest m cr
      else (case authenticate (auths i) of
              None \<Rightarrow> Some (i, AUTH_FAILED)
            | Some f \<Rightarrow> if f cr = AUTH_NOMATCH then deciding auths rest m cr else Some (i, f cr)))"

lemma auth_client_setup_idem [simp]: "auth_client_setup h (auth_client_setup h c) = auth_client_setup h c"
  by (auto simp: auth_client_setup_def split: option.splits prod.splits)

section \<open>A client is in exactly one place\<close>

text \<open>The references change by those the client holds.\<close>

definition refs_follow :: "aclient \<Rightarrow> auth_state \<Rightarrow> aclient \<Rightarrow> auth_state \<Rightarrow> bool" where
  "refs_follow c w c' w' \<longleftrightarrow>
     (\<forall>j. auth_refs w' j = auth_refs w j + of_bool (client_auth c' = Some j) - of_bool (client_auth c = Some j))"

definition called_back :: "aclient \<Rightarrow> auth_state \<Rightarrow> auth_state \<Rightarrow> bool" where
  "called_back c' w w' \<longleftrightarrow> (\<exists>r. results w' = results w @ [(c', r)]) \<and> busy w' = busy w
     \<and> queue_of w' = queue_of w \<and> pending_count w' = pending_count w"

definition turned_away :: "aclient \<Rightarrow> auth_state \<Rightarrow> auth_state \<Rightarrow> bool" where
  "turned_away c' w w' \<longleftrightarrow> results w' = results w \<and> busy w' = busy w @ [c']
     \<and> queue_of w' = queue_of w \<and> pending_count w' = pending_count w"

definition queued :: "(nat \<Rightarrow> auth) \<Rightarrow> nat list \<Rightarrow> aclient \<Rightarrow> auth_state \<Rightarrow> auth_state \<Rightarrow> bool" where
  "queued auths stack c' w w' \<longleftrightarrow>
     (\<exists>i rest. suffix (i # rest) stack \<and> \<not> immediate (auths i) \<and> pending_count w i \<le> 100 \<and> authstack c' = i # rest
        \<and> results w' = results w \<and> busy w' = busy w
        \<and> queue_of w' = (queue_of w)(i := queue_of w i @ [c'])
        \<and> pending_count w' = (pending_count w)(i := pending_count w i + 1))"

definition placed :: "(nat \<Rightarrow> auth) \<Rightarrow> nat list \<Rightarrow> aclient \<Rightarrow> auth_state \<Rightarrow> auth_state \<Rightarrow> bool" where
  "placed auths stack c w w' \<longleftrightarrow>
     (\<exists>c'. clnt_id c' = clnt_id c \<and> refs_follow c w c' w'
        \<and> (called_back c' w w' \<or> turned_away c' w w' \<or> queued auths stack c' w w'))"

lemma placedI:
  "clnt_id c' = clnt_id c \<Longrightarrow> refs_follow c w c' w' \<Longrightarrow>
     called_back c' w w' \<or> turned_away c' w w' \<or> queued auths stack c' w w' \<Longrightarrow> placed auths stack c w w'"
  unfolding placed_def by blast

text \<open>Only the reference counters and the client's fields differ between the start of two placements.\<close>

definition same_places :: "auth_state \<Rightarrow> auth_state \<Rightarrow> bool" where
  "same_places w v \<longleftrightarrow> results v = results w \<and> busy v = busy w \<and> queue_of v = queue_of w
     \<and> pending_count v = pending_count w"

lemma placed_from:
  assumes "placed auths stack d v w'" and "same_places w v" and "clnt_id d = clnt_id c" and "refs_follow c w d v"
  shows "placed auths stack c w w'"
  using assms unfolding placed_def refs_follow_def called_back_def turned_away_def queued_def same_places_def
  by (auto simp: algebra_simps)

lemma placed_suffix: "placed auths rest c w w' \<Longrightarrow> placed auths (i # rest) c w w'"
  unfolding placed_def queued_def by (meson suffix_ConsI)

lemma placed_result: "clnt_id c' = clnt_id c \<Longrightarrow> refs_follow c w c' v \<Longrightarrow> same_places w v \<Longrightarrow>
    placed auths stack c w (on_result c' r v)"
  unfolding placed_def called_back_def same_places_def on_result_def refs_follow_def by (intro exI [of _ c']) auto

lemma same_places_refs [simp]:
  "same_places w w" "same_places w (auth_addref i w)" "same_places w (auth_release p w)"
  by (auto simp: same_places_def auth_addref_def auth_release_def split: option.splits)

lemma refs_follow_refl [simp]: "refs_follow c w c w"
  by (simp add: refs_follow_def)

lemma refs_follow_drop: "refs_follow c w (c\<lparr>client_auth := None\<rparr>) (auth_release (client_auth c) w)"
  by (auto simp: refs_follow_def auth_release_def split: option.splits)

lemma handle_places:
  assumes "\<And>d v. authstack d = authstack c \<Longrightarrow> placed auths stack d v (fwd d v)"
  shows "placed auths stack c w (handle_auth_client a fwd c w)"
proof (cases "authenticate a")
  case None
  then show ?thesis
    by (auto simp: handle_auth_client_def auth_new_client_def intro: placed_result)
next
  case (Some f)
  let ?d = "c\<lparr>client_auth := None\<rparr>" and ?v = "auth_release (client_auth c) w"
  show ?thesis
  proof (cases "f (creds c) = AUTH_OK")
    case True
    let ?c' = "c\<lparr>client_acl := Some (auth_acl a), client_role := (if auth_role a \<noteq> None then auth_role a else client_role c)\<rparr>"
    have "handle_auth_client a fwd c w = on_result ?c' AUTH_OK w"
      using Some True by (simp add: handle_auth_client_def auth_new_client_def Let_def)
    moreover have "refs_follow c w ?c' w" by (simp add: refs_follow_def)
    ultimately show ?thesis using placed_result [of ?c' c w w] by simp
  next
    case False
    then have "handle_auth_client a fwd c w =
        (if f (creds c) = AUTH_NOMATCH then fwd ?d ?v else on_result ?d (f (creds c)) ?v)"
      using Some by (simp add: handle_auth_client_def auth_new_client_def Let_def)
    moreover have "placed auths stack c w (fwd ?d ?v)"
      by (rule placed_from [OF assms]) (simp_all add: refs_follow_drop)
    moreover have "placed auths stack c w (on_result ?d (f (creds c)) ?v)"
      by (rule placed_result) (simp_all add: refs_follow_drop)
    ultimately show ?thesis by simp
  qed
qed

lemma refs_follow_take:
  "refs_follow c w (c\<lparr>client_auth := Some i, creds := cr\<rparr>) (auth_addref i (auth_release (client_auth c) w))"
  by (auto simp: refs_follow_def auth_release_def auth_addref_def split: option.splits)

lemma add_client_places:
  assumes "\<And>c w. placed auths (i # rest) c w (fwd c w)" and "authstack c = i # rest"
  shows "placed auths (i # rest) c w (auth_add_client (auths i) i fwd c w)"
proof (cases "pending_count w i > 100")
  case True
  then show ?thesis
    by (intro placedI [of c]) (auto simp: auth_add_client_def turned_away_def refs_follow_def)
next
  case le: False
  show ?thesis
  proof (cases "auth_method (auths i) (req_type c)")
    case False
    with le assms(1) show ?thesis by (simp add: auth_add_client_def)
  next
    case True
    let ?c = "c\<lparr>client_auth := Some i, creds := auth_client_setup (authorization c) (creds c)\<rparr>"
    let ?v = "auth_addref i (auth_release (client_auth c) w)"
    have s: "same_places w ?v" using same_places_refs by (simp add: same_places_def)
    have eq: "auth_add_client (auths i) i fwd c w = queue_auth_client (auths i) i fwd ?c ?v"
      using le True by (simp add: auth_add_client_def Let_def)
    have "placed auths (i # rest) ?c ?v (queue_auth_client (auths i) i fwd ?c ?v)"
    proof (cases "immediate (auths i)")
      case True
      then show ?thesis using handle_places [of ?c auths "i # rest" fwd, OF assms(1)] by (simp add: queue_auth_client_def)
    next
      case False
      have "pending_count ?v i \<le> 100" using le s by (simp add: same_places_def)
      with False assms(2) show ?thesis
        by (intro placedI [of ?c]) (auto simp: queue_auth_client_def queued_def refs_follow_def)
    qed
    then show ?thesis unfolding eq by (rule placed_from [OF _ s]) (simp_all add: refs_follow_take)
  qed
qed

lemma placed_pinned:
  assumes "placed auths stack c (auth_addref i w) v" and "stack \<noteq> []"
  shows "placed auths stack c w (auth_release (Some i) v)"
proof -
  obtain c' where c': "clnt_id c' = clnt_id c" "refs_follow c (auth_addref i w) c' v"
    "called_back c' (auth_addref i w) v \<or> turned_away c' (auth_addref i w) v \<or> queued auths stack c' (auth_addref i w) v"
    using assms(1) unfolding placed_def by blast
  have "refs_follow c w c' (auth_release (Some i) v)"
    using c'(2) by (auto simp: refs_follow_def auth_addref_def auth_release_def)
  moreover have "called_back c' w (auth_release (Some i) v) \<or> turned_away c' w (auth_release (Some i) v)
      \<or> queued auths stack c' w (auth_release (Some i) v)"
    using c'(3) by (auto simp: called_back_def turned_away_def queued_def auth_addref_def auth_release_def)
  ultimately show ?thesis using c'(1) by (intro placedI) auto
qed

lemma stack_add_places:
  "stack \<noteq> [] \<Longrightarrow> authstack c = [] \<or> authstack c = stack \<Longrightarrow>
     placed auths stack c w (auth_stack_add_client auths stack c w)"
proof (induction stack arbitrary: c w)
  case (Cons i rest)
  let ?f = "\<lambda>c w. let c = c\<lparr>authstack := rest\<rparr>
     in if rest = [] then on_result c AUTH_NOMATCH w else auth_stack_add_client auths rest c w"
  have f: "placed auths (i # rest) c w (?f c w)" for c w
  proof (cases "rest = []")
    case True
    have "refs_follow c w (c\<lparr>authstack := rest\<rparr>) w" by (simp add: refs_follow_def)
    then show ?thesis using True placed_result [of "c\<lparr>authstack := rest\<rparr>" c w w] by (simp add: Let_def)
  next
    case False
    have "placed auths (i # rest) c w (auth_stack_add_client auths rest (c\<lparr>authstack := rest\<rparr>) w)"
      by (rule placed_from [OF placed_suffix [OF Cons.IH [OF False]]]) (auto simp: refs_follow_def)
    then show ?thesis using False by (simp add: Let_def)
  qed
  let ?c = "c\<lparr>authstack := i # rest\<rparr>"
  have "placed auths (i # rest) ?c (auth_addref i w) (auth_add_client (auths i) i ?f ?c (auth_addref i w))"
    by (rule add_client_places [OF f]) simp
  then have "placed auths (i # rest) ?c w (auth_release (Some i) (auth_add_client (auths i) i ?f ?c (auth_addref i w)))"
    by (rule placed_pinned) simp
  then have "placed auths (i # rest) c w (auth_release (Some i) (auth_add_client (auths i) i ?f ?c (auth_addref i w)))"
    by (rule placed_from) (simp_all add: refs_follow_def)
  then show ?case using Cons.prems(2) by (auto simp: Let_def)
qed simp

lemma move_forward_places: "placed auths (tl (authstack c)) c w (move_client_forward auths c w)"
proof (cases "tl (authstack c) = []")
  case True
  have "refs_follow c w (c\<lparr>authstack := []\<rparr>) w" by (simp add: refs_follow_def)
  then show ?thesis using True placed_result [of "c\<lparr>authstack := []\<rparr>" c w w] by (simp add: move_client_forward_def)
next
  case False
  have "placed auths (tl (authstack c)) c w
      (auth_stack_add_client auths (tl (authstack c)) (c\<lparr>authstack := tl (authstack c)\<rparr>) w)"
    by (rule placed_from [OF stack_add_places [OF False]]) (simp_all add: refs_follow_def)
  then show ?thesis using False by (simp add: move_client_forward_def Let_def)
qed

lemma run_places:
  assumes "queue_of w i = c # cs"
  shows "placed auths (tl (authstack c)) c
     (w\<lparr>queue_of := (queue_of w)(i := cs), pending_count := (pending_count w)(i := pending_count w i - 1)\<rparr>)
     (auth_run_round auths i w)"
proof -
  have "placed auths (tl (authstack c)) d v (move_client_forward auths d v)" if "authstack d = authstack c" for d v
    using move_forward_places [of auths d v] that by simp
  from handle_places [of c auths "tl (authstack c)" "move_client_forward auths", OF this] show ?thesis
    using assms by (simp add: auth_run_round_def)
qed

section \<open>Reachable states\<close>

text \<open>Clients enter with a stack of authenticators from \<open>I\<close>; the threads run in any order.\<close>

inductive auth_step :: "(nat \<Rightarrow> auth) \<Rightarrow> nat set \<Rightarrow> auth_state \<Rightarrow> auth_state \<Rightarrow> bool" for auths I where
  enter: "stack \<noteq> [] \<Longrightarrow> set stack \<subseteq> I \<Longrightarrow> client_auth c = None \<Longrightarrow> authstack c = [] \<Longrightarrow>
    auth_step auths I w (auth_stack_add_client auths stack c w)"
| run: "i \<in> I \<Longrightarrow> auth_step auths I w (auth_run_round auths i w)"

definition idle_state :: "(nat \<Rightarrow> int) \<Rightarrow> auth_state" where
  "idle_state base = \<lparr>queue_of = (\<lambda>_. []), pending_count = (\<lambda>_. 0), auth_refs = base, results = [], busy = []\<rparr>"

inductive auth_reach :: "(nat \<Rightarrow> auth) \<Rightarrow> nat set \<Rightarrow> (nat \<Rightarrow> int) \<Rightarrow> auth_state \<Rightarrow> bool" for auths I base where
  initial: "auth_reach auths I base (idle_state base)"
| step: "auth_reach auths I base w \<Longrightarrow> auth_step auths I w w' \<Longrightarrow> auth_reach auths I base w'"

text \<open>Everybody the state knows, and how many of them refer to an authenticator.\<close>

definition everybody :: "nat set \<Rightarrow> auth_state \<Rightarrow> aclient multiset" where
  "everybody I w = mset (map fst (results w)) + mset (busy w) + (\<Sum>i\<in>I. mset (queue_of w i))"

definition referring :: "nat \<Rightarrow> aclient multiset \<Rightarrow> int" where
  "referring j M = int (size {#c \<in># M. client_auth c = Some j#})"

definition queues_ok :: "(nat \<Rightarrow> auth) \<Rightarrow> nat set \<Rightarrow> auth_state \<Rightarrow> bool" where
  "queues_ok auths I w \<longleftrightarrow>
     (\<forall>i. pending_count w i = int (length (queue_of w i)) \<and> length (queue_of w i) \<le> 101
        \<and> (immediate (auths i) \<longrightarrow> queue_of w i = [])
        \<and> (\<forall>c\<in>set (queue_of w i). \<exists>rest. authstack c = i # rest \<and> set rest \<subseteq> I))"

lemma referring_add [simp]: "referring j (add_mset c M) = of_bool (client_auth c = Some j) + referring j M"
  by (simp add: referring_def)

lemma everybody_queue:
  assumes "finite I" and "i \<in> I"
  shows "(\<Sum>k\<in>I. mset (((queue_of w)(i := q)) k)) + mset (queue_of w i) = (\<Sum>k\<in>I. mset (queue_of w k)) + mset q"
proof -
  have "(\<Sum>k\<in>I. mset (((queue_of w)(i := q)) k)) = mset q + (\<Sum>k\<in>I - {i}. mset (queue_of w k))"
    using assms by (subst sum.remove [of I i]) (auto intro!: arg_cong2 [where f = "(+)"] sum.cong)
  moreover have "(\<Sum>k\<in>I. mset (queue_of w k)) = mset (queue_of w i) + (\<Sum>k\<in>I - {i}. mset (queue_of w k))"
    using assms by (rule sum.remove)
  ultimately show ?thesis by simp
qed

lemma placed_everybody:
  assumes "finite I" and "placed auths stack c w w'" and "set stack \<subseteq> I"
  shows "\<exists>c'. everybody I w' = add_mset c' (everybody I w) \<and> clnt_id c' = clnt_id c \<and> refs_follow c w c' w'"
proof -
  obtain c' where c': "clnt_id c' = clnt_id c" "refs_follow c w c' w'"
    "called_back c' w w' \<or> turned_away c' w w' \<or> queued auths stack c' w w'"
    using assms(2) unfolding placed_def by blast
  have "everybody I w' = add_mset c' (everybody I w)"
    using c'(3)
  proof (elim disjE)
    assume "queued auths stack c' w w'"
    then obtain i rest where q: "suffix (i # rest) stack" "results w' = results w" "busy w' = busy w"
      "queue_of w' = (queue_of w)(i := queue_of w i @ [c'])" unfolding queued_def by blast
    have "i \<in> I" using q(1) assms(3) by (auto simp: suffix_def)
    from everybody_queue [OF assms(1) this, of w "queue_of w i @ [c']"]
    have "(\<Sum>k\<in>I. mset (queue_of w' k)) = add_mset c' (\<Sum>k\<in>I. mset (queue_of w k))" unfolding q(4) by simp
    then show ?thesis by (simp add: everybody_def q(2, 3))
  qed (auto simp: everybody_def called_back_def turned_away_def)
  with c' show ?thesis by blast
qed

lemma placed_queues_ok:
  assumes "placed auths stack c w w'" and "queues_ok auths I w" and "set stack \<subseteq> I"
  shows "queues_ok auths I w'"
proof -
  obtain c' where c': "called_back c' w w' \<or> turned_away c' w w' \<or> queued auths stack c' w w'"
    using assms(1) unfolding placed_def by blast
  then show ?thesis
  proof (elim disjE)
    assume "queued auths stack c' w w'"
    then obtain i rest where q: "suffix (i # rest) stack" "\<not> immediate (auths i)" "pending_count w i \<le> 100"
      "authstack c' = i # rest" "queue_of w' = (queue_of w)(i := queue_of w i @ [c'])"
      "pending_count w' = (pending_count w)(i := pending_count w i + 1)" unfolding queued_def by blast
    have "set rest \<subseteq> I" using q(1) assms(3) by (auto simp: suffix_def)
    then show ?thesis using assms(2) q(2-6) by (auto simp: queues_ok_def)
  qed (use assms(2) in \<open>auto simp: called_back_def turned_away_def queues_ok_def\<close>)
qed

text \<open>The state a thread sees after it took the first client off its queue.\<close>

definition popped :: "nat \<Rightarrow> aclient list \<Rightarrow> auth_state \<Rightarrow> auth_state" where
  "popped i cs w = w\<lparr>queue_of := (queue_of w)(i := cs), pending_count := (pending_count w)(i := pending_count w i - 1)\<rparr>"

lemma popped_everybody:
  assumes "finite I" and "i \<in> I" and "queue_of w i = c # cs"
  shows "everybody I w = add_mset c (everybody I (popped i cs w))"
proof -
  have "(\<Sum>k\<in>I. mset (queue_of w k)) = add_mset c (\<Sum>k\<in>I. mset (((queue_of w)(i := cs)) k))"
    using everybody_queue [OF assms(1, 2), of w cs] assms(3) by simp
  then show ?thesis by (simp add: everybody_def popped_def)
qed

lemma popped_queues_ok: "queues_ok auths I w \<Longrightarrow> queue_of w i = c # cs \<Longrightarrow> queues_ok auths I (popped i cs w)"
  unfolding queues_ok_def popped_def by (auto simp: Suc_le_eq) (metis Suc_leD length_Cons)+

lemma queued_stack:
  assumes "queues_ok auths I w" and "queue_of w i = c # cs"
  shows "authstack c = i # tl (authstack c)" and "set (tl (authstack c)) \<subseteq> I"
proof -
  have "\<exists>rest. authstack c = i # rest \<and> set rest \<subseteq> I"
    using assms by (auto simp: queues_ok_def dest!: spec [of _ i])
  then show "authstack c = i # tl (authstack c)" "set (tl (authstack c)) \<subseteq> I" by auto
qed

lemma round_places:
  assumes "finite I" and "i \<in> I" and "queues_ok auths I w" and "queue_of w i = c # cs"
  shows "\<exists>c'. everybody I (auth_run_round auths i w) = add_mset c' (everybody I (popped i cs w))
      \<and> clnt_id c' = clnt_id c \<and> refs_follow c w c' (auth_run_round auths i w)"
    and "queues_ok auths I (auth_run_round auths i w)"
proof -
  have p: "placed auths (tl (authstack c)) c (popped i cs w) (auth_run_round auths i w)"
    using run_places [OF assms(4), of auths] by (simp add: popped_def)
  have r: "auth_refs (popped i cs w) = auth_refs w" by (simp add: popped_def)
  show "\<exists>c'. everybody I (auth_run_round auths i w) = add_mset c' (everybody I (popped i cs w))
      \<and> clnt_id c' = clnt_id c \<and> refs_follow c w c' (auth_run_round auths i w)"
    using placed_everybody [OF assms(1) p queued_stack(2) [OF assms(3, 4)]] unfolding refs_follow_def r .
  show "queues_ok auths I (auth_run_round auths i w)"
    by (rule placed_queues_ok [OF p popped_queues_ok [OF assms(3, 4)] queued_stack(2) [OF assms(3, 4)]])
qed

definition refs_ok :: "nat set \<Rightarrow> (nat \<Rightarrow> int) \<Rightarrow> auth_state \<Rightarrow> bool" where
  "refs_ok I base w \<longleftrightarrow> (\<forall>j. auth_refs w j = base j + referring j (everybody I w))"

lemma step_keeps:
  assumes "auth_step auths I w w'" and "finite I" and "queues_ok auths I w" and "refs_ok I base w"
  shows "queues_ok auths I w' \<and> refs_ok I base w'"
  using assms(1)
proof cases
  case (enter stack c)
  have p: "placed auths stack c w w'" using enter stack_add_places by simp
  obtain c' where e: "everybody I w' = add_mset c' (everybody I w)" and r: "refs_follow c w c' w'"
    using placed_everybody [OF assms(2) p enter(3)] by blast
  have "refs_ok I base w'"
    using assms(4) r enter(4) by (simp add: refs_ok_def refs_follow_def e)
  with placed_queues_ok [OF p assms(3) enter(3)] show ?thesis by simp
next
  case (run i)
  show ?thesis
  proof (cases "queue_of w i")
    case Nil
    then show ?thesis using run assms(3, 4) by (simp add: auth_run_round_def)
  next
    case (Cons c cs)
    obtain c' where e: "everybody I w' = add_mset c' (everybody I (popped i cs w))" and r: "refs_follow c w c' w'"
      using round_places(1) [OF assms(2) run(2) assms(3) Cons] run(1) by blast
    have "refs_ok I base w'"
      using assms(4) r by (simp add: refs_ok_def refs_follow_def e popped_everybody [OF assms(2) run(2) Cons])
    with round_places(2) [OF assms(2) run(2) assms(3) Cons] run(1) show ?thesis by simp
  qed
qed

lemma reach_keeps:
  assumes "auth_reach auths I base w" and "finite I"
  shows "queues_ok auths I w \<and> refs_ok I base w"
  using assms(1)
proof induction
  case initial
  show ?case by (simp add: queues_ok_def refs_ok_def idle_state_def everybody_def referring_def)
next
  case (step w w')
  then show ?case using step_keeps [OF _ assms(2)] by blast
qed


section \<open>Every client gets its answer\<close>

text \<open>The authenticators the waiting clients can still be asked for bound the rounds of the threads.\<close>

definition work :: "nat set \<Rightarrow> auth_state \<Rightarrow> nat" where
  "work I w = (\<Sum>i\<in>I. \<Sum>c\<leftarrow>queue_of w i. length (authstack c))"

definition run_pass :: "(nat \<Rightarrow> auth) \<Rightarrow> nat list \<Rightarrow> auth_state \<Rightarrow> auth_state" where
  "run_pass auths threads w = fold (auth_run_round auths) threads w"

lemma work_queue:
  assumes "finite I" and "i \<in> I" and "queue_of v = (queue_of w)(i := q)"
  shows "work I v + (\<Sum>c\<leftarrow>queue_of w i. length (authstack c)) = work I w + (\<Sum>c\<leftarrow>q. length (authstack c))"
proof -
  have "work I v = (\<Sum>c\<leftarrow>q. length (authstack c)) + (\<Sum>k\<in>I - {i}. \<Sum>c\<leftarrow>queue_of w k. length (authstack c))"
    unfolding work_def using assms by (subst sum.remove [of I i]) (auto intro!: arg_cong2 [where f = "(+)"] sum.cong)
  moreover have "work I w = (\<Sum>c\<leftarrow>queue_of w i. length (authstack c)) + (\<Sum>k\<in>I - {i}. \<Sum>c\<leftarrow>queue_of w k. length (authstack c))"
    unfolding work_def using assms(1, 2) by (rule sum.remove)
  ultimately show ?thesis by simp
qed

lemma placed_work:
  assumes "finite I" and "placed auths stack c w w'" and "set stack \<subseteq> I"
  shows "work I w' \<le> work I w + length stack"
proof -
  obtain c' where "called_back c' w w' \<or> turned_away c' w w' \<or> queued auths stack c' w w'"
    using assms(2) unfolding placed_def by blast
  then show ?thesis
  proof (elim disjE)
    assume "queued auths stack c' w w'"
    then obtain i rest where q: "suffix (i # rest) stack" "authstack c' = i # rest"
      "queue_of w' = (queue_of w)(i := queue_of w i @ [c'])" unfolding queued_def by blast
    have "i \<in> I" using q(1) assms(3) by (auto simp: suffix_def)
    from work_queue [OF assms(1) this q(3)] q(2) suffix_length_le [OF q(1)] show ?thesis by simp
  qed (auto simp: called_back_def turned_away_def work_def)
qed

lemma round_work:
  assumes "finite I" and "i \<in> I" and "queues_ok auths I w" and "queue_of w i \<noteq> []"
  shows "work I (auth_run_round auths i w) < work I w"
proof -
  obtain c cs where q: "queue_of w i = c # cs" using assms(4) by (cases "queue_of w i") auto
  have "placed auths (tl (authstack c)) c (popped i cs w) (auth_run_round auths i w)"
    using run_places [OF q, of auths] by (simp add: popped_def)
  from placed_work [OF assms(1) this queued_stack(2) [OF assms(3) q]]
  have "work I (auth_run_round auths i w) \<le> work I (popped i cs w) + length (tl (authstack c))" .
  moreover have "work I (popped i cs w) + length (authstack c) = work I w"
    using work_queue [OF assms(1, 2), of "popped i cs w" w cs] q by (simp add: popped_def)
  moreover have "length (authstack c) = Suc (length (tl (authstack c)))"
    using queued_stack(1) [OF assms(3) q] by (metis length_Cons)
  ultimately show ?thesis by linarith
qed

lemma round_keeps:
  assumes "finite I" and "i \<in> I" and "queues_ok auths I w"
  shows "queues_ok auths I (auth_run_round auths i w)"
    and "image_mset clnt_id (everybody I (auth_run_round auths i w)) = image_mset clnt_id (everybody I w)"
proof -
  have "queues_ok auths I (auth_run_round auths i w)
      \<and> image_mset clnt_id (everybody I (auth_run_round auths i w)) = image_mset clnt_id (everybody I w)"
  proof (cases "queue_of w i")
    case Nil
    then show ?thesis using assms(3) by (simp add: auth_run_round_def)
  next
    case (Cons c cs)
    show ?thesis
      using round_places [OF assms Cons] by (auto simp: popped_everybody [OF assms(1, 2) Cons])
  qed
  then show "queues_ok auths I (auth_run_round auths i w)"
    "image_mset clnt_id (everybody I (auth_run_round auths i w)) = image_mset clnt_id (everybody I w)" by auto
qed

lemma pass_keeps:
  assumes "finite I" and "set threads \<subseteq> I" and "queues_ok auths I w"
  shows "queues_ok auths I (run_pass auths threads w)
    \<and> image_mset clnt_id (everybody I (run_pass auths threads w)) = image_mset clnt_id (everybody I w)
    \<and> work I (run_pass auths threads w) \<le> work I w
    \<and> (work I (run_pass auths threads w) = work I w \<longrightarrow>
         run_pass auths threads w = w \<and> (\<forall>i\<in>set threads. queue_of w i = []))"
  using assms(2, 3)
proof (induction threads arbitrary: w)
  case (Cons i threads)
  let ?v = "auth_run_round auths i w"
  have i: "i \<in> I" and rest: "set threads \<subseteq> I" using Cons.prems(1) by auto
  note v = round_keeps [OF assms(1) i Cons.prems(2)]
  note IH = Cons.IH [OF rest v(1)]
  have eq: "run_pass auths (i # threads) w = run_pass auths threads ?v" by (simp add: run_pass_def)
  have idle: "?v = w" if "queue_of w i = []" using that by (simp add: auth_run_round_def)
  show ?case
  proof (cases "queue_of w i = []")
    case True
    then show ?thesis using IH idle unfolding eq by simp
  next
    case False
    have "work I ?v < work I w" by (rule round_work [OF assms(1) i Cons.prems(2) False])
    then show ?thesis using IH v(2) unfolding eq by (intro conjI) (auto simp: not_less)
  qed
qed (simp add: run_pass_def)

lemma passes_drain:
  assumes "finite I" and "set threads = I" and "queues_ok auths I w" and "work I w \<le> n"
  shows "(\<forall>i\<in>I. queue_of ((run_pass auths threads ^^ n) w) i = [])
    \<and> image_mset clnt_id (everybody I ((run_pass auths threads ^^ n) w)) = image_mset clnt_id (everybody I w)"
  using assms(3, 4)
proof (induction n arbitrary: w)
  case 0
  have "queue_of w i = []" if "i \<in> I" for i
  proof (rule ccontr)
    assume "queue_of w i \<noteq> []"
    from round_work [OF assms(1) that 0(1) this] 0(2) show False by simp
  qed
  then show ?case by simp
next
  case (Suc n)
  let ?v = "run_pass auths threads w"
  have p: "queues_ok auths I ?v" "image_mset clnt_id (everybody I ?v) = image_mset clnt_id (everybody I w)"
    "work I ?v \<le> work I w" "work I ?v = work I w \<longrightarrow> (\<forall>i\<in>I. queue_of w i = [])"
    using pass_keeps [OF assms(1) _ Suc.prems(1), of threads] assms(2) by auto
  have "work I ?v \<le> n"
  proof (cases "work I ?v = work I w")
    case True
    then have "work I w = 0" using p(4) by (simp add: work_def)
    then show ?thesis using p(3) by simp
  qed (use p(3) Suc.prems(2) in linarith)
  from Suc.IH [OF p(1) this] p(2) show ?case by (simp add: funpow_swap1)
qed

text \<open>
  C27: From every reachable state, when nobody new enters, the threads come to an end: after as many
  passes over the threads as there are authenticators left to ask, in whatever order a pass takes
  them, all queues are empty, and every client known before has been called back or turned away,
  exactly once.
\<close>

theorem every_client_is_answered:
  assumes "auth_reach auths I base w" and "finite I" and "set threads = I"
  shows "(let w' = (run_pass auths threads ^^ work I w) w
     in (\<forall>i\<in>I. queue_of w' i = [])
        \<and> image_mset clnt_id (everybody I w) = image_mset clnt_id (mset (map fst (results w')) + mset (busy w')))"
proof -
  have "queues_ok auths I w" using reach_keeps [OF assms(1, 2)] by simp
  note d = passes_drain [OF assms(2, 3) this order_refl]
  let ?w = "(run_pass auths threads ^^ work I w) w"
  have "(\<Sum>i\<in>I. mset (queue_of ?w i)) = {#}" using d by (intro sum.neutral) simp
  then have "everybody I ?w = mset (map fst (results ?w)) + mset (busy ?w)" by (simp add: everybody_def)
  with d show ?thesis by (simp add: Let_def)
qed

section \<open>The decision\<close>

text \<open>What happens to a client whose authenticators all decide at once.\<close>

definition answer :: "(nat \<Rightarrow> auth) \<Rightarrow> nat list \<Rightarrow> aclient \<Rightarrow> auth_result \<times> nat option \<times> acl option \<times> string option" where
  "answer auths stack c =
     (case deciding auths stack (req_type c) (auth_client_setup (authorization c) (creds c)) of
        None \<Rightarrow> (AUTH_NOMATCH, None, client_acl c, client_role c)
      | Some (i, r) \<Rightarrow>
          (r, if r = AUTH_OK \<or> authenticate (auths i) = None then Some i else None,
           if r = AUTH_OK then Some (auth_acl (auths i)) else client_acl c,
           if r = AUTH_OK \<and> auth_role (auths i) \<noteq> None then auth_role (auths i) else client_role c))"

definition shown :: "aclient \<times> auth_result \<Rightarrow> auth_result \<times> nat option \<times> acl option \<times> string option" where
  "shown p = (snd p, client_auth (fst p), client_acl (fst p), client_role (fst p))"

lemma pending_refs [simp]:
  "pending_count (auth_addref i w) = pending_count w" "results (auth_addref i w) = results w"
  "pending_count (auth_release p w) = pending_count w" "results (auth_release p w) = results w"
  by (auto simp: auth_addref_def auth_release_def split: option.splits)

lemma stack_answer:
  assumes "\<And>i. i \<in> set stack \<Longrightarrow> immediate (auths i) \<and> pending_count w i \<le> 100" and "stack \<noteq> []" and "client_auth c = None" and "authstack c = [] \<or> authstack c = stack"
  shows "\<exists>c'. clnt_id c' = clnt_id c \<and> shown (c', fst (answer auths stack c)) = answer auths stack c
     \<and> results (auth_stack_add_client auths stack c w) = results w @ [(c', fst (answer auths stack c))]"
  using assms
proof (induction stack arbitrary: c w)
  case (Cons i rest)
  let ?cr = "auth_client_setup (authorization c) (creds c)"
  have im: "immediate (auths i)" and pe: "pending_count w i \<le> 100" using Cons.prems(1) by auto
  have step: "\<exists>c'. clnt_id c' = clnt_id c \<and> shown (c', fst (answer auths rest c)) = answer auths rest c
     \<and> results (let d = d\<lparr>authstack := rest\<rparr> in if rest = [] then on_result d AUTH_NOMATCH v
               else auth_stack_add_client auths rest d v) = results w @ [(c', fst (answer auths rest c))]"
    if d: "clnt_id d = clnt_id c" "client_auth d = None" "client_acl d = client_acl c" "client_role d = client_role c"
       "req_type d = req_type c" "authorization d = authorization c" "creds d = creds c \<or> creds d = ?cr"
     and v: "results v = results w" "pending_count v = pending_count w" for d v
  proof (cases "rest = []")
    case True
    then show ?thesis using d v by (auto simp: answer_def shown_def on_result_def Let_def)
  next
    case False
    have "answer auths rest (d\<lparr>authstack := rest\<rparr>) = answer auths rest c"
      using d by (cases "deciding auths rest (req_type c) ?cr") (auto simp: answer_def)
    then show ?thesis
      using Cons.IH [of v "d\<lparr>authstack := rest\<rparr>"] Cons.prems(1) False d(1, 2) v by (simp add: Let_def)
  qed
  show ?case
  proof (cases "auth_method (auths i) (req_type c)")
    case False
    have "answer auths (i # rest) c = answer auths rest c" using False by (simp add: answer_def)
    then show ?thesis using step [of "c\<lparr>authstack := i # rest\<rparr>" "auth_addref i w"] pe False Cons.prems(3, 4)
      by (simp add: auth_add_client_def)
  next
    case True
    show ?thesis
    proof (cases "authenticate (auths i)")
      case None
      then show ?thesis using True im pe Cons.prems(3, 4)
        by (simp add: auth_add_client_def queue_auth_client_def handle_auth_client_def auth_new_client_def
            on_result_def answer_def shown_def Let_def)
    next
      case (Some f)
      show ?thesis
      proof (cases "f ?cr = AUTH_NOMATCH")
        case nm: True
        have "answer auths (i # rest) c = answer auths rest c" using True Some nm by (simp add: answer_def)
        then show ?thesis using True Some nm im pe Cons.prems(3, 4)
          using step [of "c\<lparr>authstack := i # rest, creds := ?cr, client_auth := None\<rparr>"
            "auth_release (Some i) (auth_addref i (auth_release None (auth_addref i w)))"]
          by (cases "rest = []") (simp_all add: auth_add_client_def queue_auth_client_def handle_auth_client_def auth_new_client_def Let_def)
      next
        case False
        then show ?thesis using True Some im pe Cons.prems(3, 4)
          by (auto simp: auth_add_client_def queue_auth_client_def handle_auth_client_def auth_new_client_def
            on_result_def answer_def shown_def Let_def)
      qed
    qed
  qed
qed simp

text \<open>
  C33: A client whose authenticators all decide at once is called back exactly once, before the call
  returns, with the answer of the first authenticator of its stack that handles the method and knows
  the client: on success it has the access control list of that authenticator and its role, if it
  gives one; when nobody knows the client the result is that nothing matched and it keeps its list.
\<close>

theorem first_match_decides:
  assumes "\<And>i. i \<in> set stack \<Longrightarrow> immediate (auths i) \<and> pending_count w i \<le> 100"
    and "stack \<noteq> []" and "client_auth c = None" and "authstack c = [] \<or> authstack c = stack"
  shows "\<exists>c'. clnt_id c' = clnt_id c \<and> shown (c', fst (answer auths stack c)) = answer auths stack c
     \<and> results (auth_stack_add_client auths stack c w) = results w @ [(c', fst (answer auths stack c))]"
  using stack_answer [OF assms] .

section \<open>An example\<close>

definition closed_acl :: acl where
  "closed_acl = acl_new sample_httpp"

text \<open>Authenticator 1 has a thread and knows only users; 2 decides at once and lets everybody in.\<close>

definition example_auths :: "nat \<Rightarrow> auth" where
  "example_auths i =
     (if i = 1 then \<lparr>auth_type = ''htpasswd'', auth_role = None, auth_method = (\<lambda>_. True), immediate = False,
        authenticate = Some (\<lambda>cr. if username cr = None then AUTH_NOMATCH else AUTH_OK), auth_acl = closed_acl\<rparr>
      else \<lparr>auth_type = ''anonymous'', auth_role = Some ''guest'', auth_method = (\<lambda>_. True), immediate = True,
        authenticate = Some anonymous_auth, auth_acl = closed_acl\<rparr>)"

definition example_aclient :: aclient where
  "example_aclient = \<lparr>clnt_id = 7, req_type = 0, authorization = None, creds = \<lparr>username = None, password = None\<rparr>,
     client_auth = None, client_acl = None, client_role = None, authstack = []\<rparr>"

definition example_world :: auth_state where
  "example_world = auth_stack_add_client example_auths [1, 2] example_aclient (idle_state (\<lambda>_. 1))"

lemma example_reach: "auth_reach example_auths {1, 2} (\<lambda>_. 1) example_world"
  unfolding example_world_def
  by (rule auth_reach.step [OF auth_reach.initial], rule auth_step.enter) (simp_all add: example_aclient_def)

lemma example_queue: "queue_of example_world 1 = [example_aclient\<lparr>client_auth := Some 1, authstack := [1, 2]\<rparr>]"
  by (simp add: example_world_def auth_add_client_def queue_auth_client_def example_auths_def idle_state_def
      auth_addref_def auth_release_def auth_client_setup_def example_aclient_def)


theorem every_client_is_answered_witness:
  "(let w' = (run_pass example_auths [2, 1] ^^ work {1, 2} example_world) example_world
    in queue_of w' 1 = [] \<and> queue_of example_world 1 \<noteq> []
       \<and> image_mset clnt_id (everybody {1, 2} example_world) = image_mset clnt_id (mset (map fst (results w')) + mset (busy w')))"
  using every_client_is_answered [OF example_reach, of "[2, 1]"] example_queue
  by (simp add: Let_def insert_commute)

theorem first_match_decides_witness:
  "fst (answer example_auths [2] example_aclient) = AUTH_OK
   \<and> (\<exists>c'. clnt_id c' = 7 \<and> shown (c', AUTH_OK) = (AUTH_OK, Some 2, Some closed_acl, Some ''guest'')
     \<and> results (auth_stack_add_client example_auths [2] example_aclient (idle_state (\<lambda>_. 1))) = [(c', AUTH_OK)])"
proof -
  have a: "answer example_auths [2] example_aclient = (AUTH_OK, Some 2, Some closed_acl, Some ''guest'')"
    by (simp add: answer_def example_auths_def anonymous_auth_def)
  show ?thesis
    using first_match_decides [of "[2]" example_auths "idle_state (\<lambda>_. 1)" example_aclient] unfolding a
    by (simp add: example_auths_def idle_state_def example_aclient_def)
qed

end
