(* ===== verification/Conn_Queue.thy ===== *)
theory Conn_Queue
  imports Cfgfile Interfaces "HOL-Library.Multiset"
begin

text \<open>
  New connections (\<^verbatim>\<open>src/src/connection.c\<close>): the queue of clients whose request is still being
  read, the search for the end of the headers, the queue of clients whose request is complete, and
  the two extra steps of the Shoutcast protocol, where a line with the password comes before the
  headers.

  The sockets are outside: \<open>input\<close> is what a read of at most the given length returns, \<open>peek\<close> the next
  byte of the socket. \<open>httpp_parse\<close> is the parser of the library for HTTP requests. A client appears
  with the fields this code uses; its buffer is the whole block of memory.
\<close>

section \<open>Definitions\<close>

definition PER_CLIENT_REFBUF_SIZE :: nat where
  "PER_CLIENT_REFBUF_SIZE = 4096"

record 'p request =
  rq_id :: nat
  tls_mode :: tlsmode
  has_tls :: bool
  con_time :: int
  rq_buf :: string
  rq_len :: nat
  rq_offset :: nat
  rq_stream_offset :: nat
  rq_shoutcast :: nat
  rq_shoutcast_mount :: "string option"
  rq_username :: "string option"
  rq_password :: "string option"
  rq_parser :: "'p option"
  rq_icy :: bool

text \<open>A read: some bytes, the end of the stream, nothing yet, or an error of the connection.\<close>

datatype incoming = Got string | Closed | Again | Broken

record 'p conn_env =
  header_timeout :: int
  now :: int
  peek :: "nat \<Rightarrow> char option"
  input :: "nat \<Rightarrow> nat \<Rightarrow> incoming"
  shoutcast_user :: string
  shoutcast_mount :: string
  httpp_parse :: "string \<Rightarrow> 'p option"

record 'p conn_state =
  req_queue :: "'p request list"
  con_queue :: "'p request list"
  destroyed :: "nat list"

abbreviation (input) CR :: char where "CR \<equiv> CHR 0x0D"
abbreviation (input) LF :: char where "LF \<equiv> CHR 0x0A"

definition add_connection :: "'p request \<Rightarrow> 'p conn_state \<Rightarrow> 'p conn_state" where
  "add_connection node s = s\<lparr>con_queue := con_queue s @ [node]\<rparr>"

definition get_connection :: "'p conn_state \<Rightarrow> ('p request \<times> 'p conn_state) option" where
  "get_connection s = (case con_queue s of [] \<Rightarrow> None | n # ns \<Rightarrow> Some (n, s\<lparr>con_queue := ns\<rparr>))"

definition add_request_queue :: "'p request \<Rightarrow> 'p conn_state \<Rightarrow> 'p conn_state" where
  "add_request_queue node s = s\<lparr>req_queue := req_queue s @ [node]\<rparr>"

definition connection_uses_tls :: "'p request \<Rightarrow> 'p request" where
  "connection_uses_tls n = (if has_tls n then n else n\<lparr>tls_mode := ICECAST_TLSMODE_RFC2818, has_tls := True\<rparr>)"

text \<open>The end of the headers, as the offset of what follows; the three line ends are tried in turn.\<close>

definition header_end :: "string \<Rightarrow> nat option" where
  "header_end s =
     (case strstr s [CR, CR, LF, CR, CR, LF] of
        Some p \<Rightarrow> Some (p + 6)
      | None \<Rightarrow>
          (case strstr s [CR, LF, CR, LF] of
             Some p \<Rightarrow> Some (p + 4)
           | None \<Rightarrow> (case strstr s [LF, LF] of Some p \<Rightarrow> Some (p + 2) | None \<Rightarrow> None)))"

definition password_line :: "string \<Rightarrow> bool" where
  "password_line s \<longleftrightarrow> strstr s [CR, CR, LF] \<noteq> None \<or> strstr s [CR, LF] \<noteq> None \<or> strstr s [LF] \<noteq> None"

text \<open>Bytes written into a buffer at an offset, and bytes moved to its start.\<close>

definition store :: "nat \<Rightarrow> string \<Rightarrow> string \<Rightarrow> string" where
  "store off bytes buf = take off buf @ bytes @ drop (off + length bytes) buf"

definition move_down :: "nat \<Rightarrow> nat \<Rightarrow> string \<Rightarrow> string" where
  "move_down from n buf = take n (drop from buf) @ drop n buf"

text \<open>What becomes of one node of the request queue.\<close>

datatype 'p fate = Keep "'p request" | Pass "'p request" | Drop nat

definition received :: "string \<Rightarrow> 'p request \<Rightarrow> 'p request" where
  "received bytes n =
     n\<lparr>rq_offset := rq_offset n + length bytes,
       rq_buf := store (rq_offset n + length bytes) [NUL] (store (rq_offset n) bytes (rq_buf n))\<rparr>"

definition check_headers :: "'p request \<Rightarrow> 'p fate" where
  "check_headers n =
     (let s = c_str (rq_buf n)
      in if rq_shoutcast n = 1 \<and> password_line s then Pass n
         else (case header_end s of
                 Some k \<Rightarrow> Pass (n\<lparr>rq_stream_offset := k\<rparr>)
               | None \<Rightarrow> Keep n))"

definition detect_tls :: "'p conn_env \<Rightarrow> 'p request \<Rightarrow> 'p request" where
  "detect_tls e n =
     (if (tls_mode n = ICECAST_TLSMODE_AUTO \<or> tls_mode n = ICECAST_TLSMODE_AUTO_NO_PLAIN)
         \<and> peek e (rq_id n) = Some (CHR 0x16)
      then connection_uses_tls n else n)"

definition read_node :: "'p conn_env \<Rightarrow> 'p request \<Rightarrow> 'p fate" where
  "read_node e n =
     (let n = detect_tls e n;
          len = PER_CLIENT_REFBUF_SIZE - 1 - rq_offset n;
          got = (if len > 0 \<and> con_time n + header_timeout e > now e then input e (rq_id n) len else Closed)
      in case got of
           Got bytes \<Rightarrow> if bytes = [] then Drop (rq_id n) else check_headers (received bytes n)
         | Closed \<Rightarrow> Drop (rq_id n)
         | Again \<Rightarrow> Keep n
         | Broken \<Rightarrow> Drop (rq_id n))"

fun process_requests :: "'p conn_env \<Rightarrow> 'p request list \<Rightarrow> 'p conn_state \<Rightarrow> 'p conn_state" where
  "process_requests e [] s = s"
| "process_requests e (n # ns) s =
     process_requests e ns
       (case read_node e n of
          Keep n \<Rightarrow> s\<lparr>req_queue := req_queue s @ [n]\<rparr>
        | Pass n \<Rightarrow> add_connection n s
        | Drop i \<Rightarrow> s\<lparr>destroyed := destroyed s @ [i]\<rparr>)"

definition process_request_queue :: "'p conn_env \<Rightarrow> 'p conn_state \<Rightarrow> 'p conn_state" where
  "process_request_queue e s = process_requests e (req_queue s) (s\<lparr>req_queue := []\<rparr>)"

text \<open>What was read after the headers becomes the content of the buffer.\<close>

definition keep_rest :: "'p request \<Rightarrow> 'p request" where
  "keep_rest n =
     (if rq_stream_offset n = rq_offset n then n\<lparr>rq_len := 0\<rparr>
      else n\<lparr>rq_len := rq_offset n - rq_stream_offset n,
             rq_buf := move_down (rq_stream_offset n) (rq_offset n - rq_stream_offset n) (rq_buf n)\<rparr>)"

text \<open>The end of the password line: where it starts, and where the headers start.\<close>

definition password_end :: "string \<Rightarrow> (nat \<times> nat) option" where
  "password_end s =
     (case strstr s [CR, CR, LF] of
        Some p \<Rightarrow> Some (p, p + 3)
      | None \<Rightarrow>
          (case strstr s [CR, LF] of
             Some p \<Rightarrow> Some (p, p + 2)
           | None \<Rightarrow> (case strstr s [LF] of Some p \<Rightarrow> Some (p, p + 1) | None \<Rightarrow> None)))"

text \<open>The request the Shoutcast headers stand for, in a buffer of computed size.\<close>

definition http_compliant_len :: "string \<Rightarrow> nat \<Rightarrow> nat" where
  "http_compliant_len mount off = 20 + length mount + off"

definition http_compliant :: "string \<Rightarrow> 'p request \<Rightarrow> string" where
  "http_compliant mount n =
     take (http_compliant_len mount (rq_offset n) - 1)
       (''SOURCE '' @ mount @ '' HTTP/1.0'' @ [CR, LF] @ c_str (rq_buf n))"

text \<open>
  The Shoutcast steps. The node goes back to the request queue, or on to the normal handling, or it
  has been freed, together with its client.
\<close>

datatype 'p shoutcast_result = Requeued "'p request" | Continue "'p request" | Freed nat

definition handle_shoutcast_compatible :: "'p conn_env \<Rightarrow> 'p request \<Rightarrow> 'p shoutcast_result" where
  "handle_shoutcast_compatible e n =
     (if rq_shoutcast n = 1 then
        (case password_end (c_str (rq_buf n)) of
           None \<Rightarrow> Freed (rq_id n)
         | Some (p, headers) \<Rightarrow>
             (let buf = store p [NUL] (rq_buf n);
                  off = rq_offset n - headers
              in Requeued (n\<lparr>rq_password := Some (c_str buf), rq_username := Some (shoutcast_user e),
                   rq_offset := off, rq_buf := move_down headers (off + 1) buf, rq_shoutcast := 2\<rparr>)))
      else
        (let mount = (case rq_shoutcast_mount n of Some m \<Rightarrow> m | None \<Rightarrow> shoutcast_mount e)
         in case httpp_parse e (http_compliant mount n) of
              Some p \<Rightarrow> Continue ((keep_rest n)\<lparr>rq_parser := Some p, rq_icy := True, rq_shoutcast := 0\<rparr>)
            | None \<Rightarrow> Freed (rq_id n)))"

section \<open>The queue of complete requests\<close>

interpretation con_fifo: fifo con_queue add_connection get_connection "\<lambda>_. True"
  by unfold_locales (auto simp: add_connection_def get_connection_def split: list.splits)

section \<open>Buffers\<close>

lemma length_store: "off + length bytes \<le> length buf \<Longrightarrow> length (store off bytes buf) = length buf"
  by (simp add: store_def)

lemma store_nth:
  "off + length bytes \<le> length buf \<Longrightarrow> i < length buf \<Longrightarrow>
     store off bytes buf ! i = (if off \<le> i \<and> i < off + length bytes then bytes ! (i - off) else buf ! i)"
  by (auto simp: store_def nth_append)

lemma length_move_down: "from + n \<le> length buf \<Longrightarrow> length (move_down from n buf) = length buf"
  by (simp add: move_down_def)

lemma move_down_nth:
  "from + n \<le> length buf \<Longrightarrow> i < length buf \<Longrightarrow>
     move_down from n buf ! i = (if i < n then buf ! (from + i) else buf ! i)"
  by (auto simp: move_down_def nth_append)

lemma c_str_length: "i < length buf \<Longrightarrow> buf ! i = NUL \<Longrightarrow> length (c_str buf) \<le> i"
  by (metis (mono_tags, lifting) c_str_def linorder_not_le nth_mem set_takeWhileD takeWhile_nth)

lemma header_end_bound: "header_end s = Some k \<Longrightarrow> k \<le> length s"
  by (auto simp: header_end_def split: option.splits dest!: strstr_Some)

lemma password_end_bound: "password_end s = Some (p, h) \<Longrightarrow> p < h \<and> h \<le> length s"
  by (auto simp: password_end_def split: option.splits dest!: strstr_Some)

section \<open>Reading requests\<close>

text \<open>What holds of every client in the two queues.\<close>

definition request_wf :: "'p request \<Rightarrow> bool" where
  "request_wf n \<longleftrightarrow> length (rq_buf n) = PER_CLIENT_REFBUF_SIZE \<and> rq_offset n < PER_CLIENT_REFBUF_SIZE
     \<and> rq_stream_offset n \<le> rq_offset n \<and> (rq_offset n = 0 \<or> rq_buf n ! rq_offset n = NUL)"

definition reads_ok :: "'p conn_env \<Rightarrow> bool" where
  "reads_ok e \<longleftrightarrow> (\<forall>i len bytes. input e i len = Got bytes \<longrightarrow> length bytes \<le> len)"

lemma received_wf:
  assumes "request_wf n" and "rq_offset n + length bytes < PER_CLIENT_REFBUF_SIZE"
  shows "request_wf (received bytes n) \<and> rq_buf (received bytes n) ! rq_offset (received bytes n) = NUL"
  using assms by (auto simp: request_wf_def received_def length_store store_nth)

lemma check_headers_wf:
  assumes "request_wf n" and "rq_buf n ! rq_offset n = NUL"
  shows "case check_headers n of Keep m \<Rightarrow> request_wf m \<and> rq_id m = rq_id n | Pass m \<Rightarrow> request_wf m \<and> rq_id m = rq_id n
    | Drop i \<Rightarrow> False"
proof -
  have "length (c_str (rq_buf n)) \<le> rq_offset n"
    using assms by (intro c_str_length) (auto simp: request_wf_def)
  then show ?thesis
    using assms by (auto simp: check_headers_def Let_def request_wf_def split: option.splits dest!: header_end_bound)
qed

lemma detect_tls_same [simp]:
  "rq_id (detect_tls e n) = rq_id n" "rq_offset (detect_tls e n) = rq_offset n"
  "request_wf (detect_tls e n) = request_wf n"
  by (auto simp: detect_tls_def connection_uses_tls_def request_wf_def)

lemma read_node_wf:
  assumes "reads_ok e" and "request_wf n"
  shows "case read_node e n of Keep m \<Rightarrow> request_wf m \<and> rq_id m = rq_id n | Pass m \<Rightarrow> request_wf m \<and> rq_id m = rq_id n
    | Drop i \<Rightarrow> i = rq_id n"
proof -
  let ?n = "detect_tls e n" and ?len = "PER_CLIENT_REFBUF_SIZE - 1 - rq_offset n"
  have got: "case check_headers (received bytes ?n) of Keep m \<Rightarrow> request_wf m \<and> rq_id m = rq_id n
      | Pass m \<Rightarrow> request_wf m \<and> rq_id m = rq_id n | Drop i \<Rightarrow> i = rq_id n"
    if "?len > 0" and "input e (rq_id n) ?len = Got bytes" for bytes
  proof -
    have "length bytes \<le> ?len" using assms(1) that(2) by (auto simp: reads_ok_def)
    then have r: "request_wf (received bytes ?n) \<and> rq_buf (received bytes ?n) ! rq_offset (received bytes ?n) = NUL"
      using assms(2) that(1) by (intro received_wf) auto
    then show ?thesis
      using check_headers_wf [of "received bytes ?n"] by (cases "check_headers (received bytes ?n)") (simp_all add: received_def)
  qed
  show ?thesis
  proof (cases "?len > 0 \<and> con_time ?n + header_timeout e > now e")
    case False
    then have "read_node e n = Drop (rq_id n)" unfolding read_node_def Let_def by (simp only: detect_tls_same if_False incoming.case)
    then show ?thesis by simp
  next
    case True
    then show ?thesis
      using got assms(2) by (cases "input e (rq_id n) ?len") (simp_all add: read_node_def Let_def)
  qed
qed

definition queues_wf :: "'p conn_state \<Rightarrow> bool" where
  "queues_wf s \<longleftrightarrow> (\<forall>n\<in>set (req_queue s) \<union> set (con_queue s). request_wf n)"

text \<open>The clients of a state, wherever they are.\<close>

definition clients_of :: "'p conn_state \<Rightarrow> nat multiset" where
  "clients_of s = mset (map rq_id (req_queue s)) + mset (map rq_id (con_queue s)) + mset (destroyed s)"

lemma queue_steps:
  "queues_wf (s\<lparr>req_queue := req_queue s @ [m]\<rparr>) \<longleftrightarrow> queues_wf s \<and> request_wf m"
  "queues_wf (add_connection m s) \<longleftrightarrow> queues_wf s \<and> request_wf m"
  "queues_wf (s\<lparr>destroyed := destroyed s @ [i]\<rparr>) \<longleftrightarrow> queues_wf s"
  "clients_of (s\<lparr>req_queue := req_queue s @ [m]\<rparr>) = add_mset (rq_id m) (clients_of s)"
  "clients_of (add_connection m s) = add_mset (rq_id m) (clients_of s)"
  "clients_of (s\<lparr>destroyed := destroyed s @ [i]\<rparr>) = add_mset i (clients_of s)"
  by (auto simp: queues_wf_def clients_of_def add_connection_def)

lemma process_requests_wf:
  assumes "reads_ok e" and "\<forall>n\<in>set ns. request_wf n" and "queues_wf s"
  shows "queues_wf (process_requests e ns s) \<and> clients_of (process_requests e ns s) = mset (map rq_id ns) + clients_of s"
  using assms(2, 3)
proof (induction ns arbitrary: s)
  case (Cons n ns)
  have wf: "request_wf n" and ns: "\<forall>n\<in>set ns. request_wf n" using Cons.prems(1) by simp_all
  note r = read_node_wf [OF assms(1) wf]
  show ?case
  proof (cases "read_node e n")
    case (Keep m)
    show ?thesis using r Cons.prems(2) Cons.IH [OF ns, of "s\<lparr>req_queue := req_queue s @ [m]\<rparr>"]
      by (simp add: Keep queue_steps)
  next
    case (Pass m)
    show ?thesis using r Cons.prems(2) Cons.IH [OF ns, of "add_connection m s"] by (simp add: Pass queue_steps)
  next
    case (Drop i)
    show ?thesis using r Cons.prems(2) Cons.IH [OF ns, of "s\<lparr>destroyed := destroyed s @ [i]\<rparr>"]
      by (simp add: Drop queue_steps)
  qed
qed simp

text \<open>
  C29: Reading requests stays within the buffers and loses nobody: the offset of a client is always
  smaller than its buffer, which has a NUL there, and what follows the headers starts at or before
  it. After a pass over the request queue every client is still in that queue, or in the queue of
  complete requests, or destroyed, and in only one of these places.
\<close>

theorem requests_stay_in_bounds:
  assumes "reads_ok e" and "queues_wf s"
  shows "queues_wf (process_request_queue e s) \<and> clients_of (process_request_queue e s) = clients_of s"
proof -
  have "\<forall>n\<in>set (req_queue s). request_wf n" and "queues_wf (s\<lparr>req_queue := []\<rparr>)"
    using assms(2) by (simp_all add: queues_wf_def)
  from process_requests_wf [OF assms(1) this] show ?thesis
    by (simp add: process_request_queue_def) (simp add: clients_of_def)
qed

definition ready :: "nat \<Rightarrow> string \<Rightarrow> nat request" where
  "ready sc text =
     \<lparr>rq_id = 7, tls_mode = ICECAST_TLSMODE_DISABLED, has_tls = False, con_time = 100,
      rq_buf = text @ replicate (PER_CLIENT_REFBUF_SIZE - length text) NUL, rq_len = 0, rq_offset = length text,
      rq_stream_offset = 0, rq_shoutcast = sc, rq_shoutcast_mount = None, rq_username = None, rq_password = None,
      rq_parser = None, rq_icy = False\<rparr>"

lemma ready_wf: "length text < PER_CLIENT_REFBUF_SIZE \<Longrightarrow> request_wf (ready sc text)"
  by (auto simp: ready_def request_wf_def nth_append)

definition example_env :: "nat conn_env" where
  "example_env = \<lparr>header_timeout = 15, now = 101, peek = (\<lambda>_. None),
     input = (\<lambda>i len. if len < 4 then Closed else Got [CR, LF, CR, LF]), shoutcast_user = ''source'',
     shoutcast_mount = ''/stream'', httpp_parse = (\<lambda>s. Some (length s))\<rparr>"

theorem requests_stay_in_bounds_witness:
  "queues_wf (process_request_queue example_env \<lparr>req_queue = [ready 0 ''GET / HTTP/1.0''], con_queue = [], destroyed = []\<rparr>)
   \<and> clients_of (process_request_queue example_env \<lparr>req_queue = [ready 0 ''GET / HTTP/1.0''], con_queue = [], destroyed = []\<rparr>)
       = {#7#}"
proof -
  have "request_wf (ready 0 ''GET / HTTP/1.0'')" by (rule ready_wf) (simp add: PER_CLIENT_REFBUF_SIZE_def)
  then have q: "queues_wf \<lparr>req_queue = [ready 0 ''GET / HTTP/1.0''], con_queue = [], destroyed = []\<rparr>"
    by (simp add: queues_wf_def)
  have r: "reads_ok example_env" by (simp add: reads_ok_def example_env_def)
  from requests_stay_in_bounds [OF r q] show ?thesis by (simp add: clients_of_def ready_def)
qed

section \<open>The end of the headers\<close>

lemma occurs_at: "t \<noteq> [] \<Longrightarrow> take (length t) (drop p s) = t \<Longrightarrow> p < length s \<and> s ! p = hd t"
  by (cases "drop p s"; cases t)
    (auto simp: nth_via_drop, metis drop_all leI list.distinct(1))

lemma strstr_after:
  assumes "t \<noteq> []" and "hd t \<notin> set a"
  shows "strstr (a @ s) t = None \<longleftrightarrow> strstr s t = None"
    and "strstr (a @ s) t = Some p \<Longrightarrow> length a \<le> p"
proof -
  have in_a: "\<not> p < length a" if "take (length t) (drop p (a @ s)) = t" for p
    using occurs_at [OF assms(1) that] assms(2) by (auto simp: nth_append in_set_conv_nth)
  show "length a \<le> p" if "strstr (a @ s) t = Some p"
    using in_a [of p] strstr_Some [OF that] by simp
  show "strstr (a @ s) t = None \<longleftrightarrow> strstr s t = None"
  proof
    assume "strstr (a @ s) t = None"
    then show "strstr s t = None" unfolding strstr_None
      by (auto dest: spec [of _ "length a + p" for p])
  next
    assume s: "strstr s t = None"
    show "strstr (a @ s) t = None" unfolding strstr_None
    proof (intro allI notI)
      fix p assume p: "take (length t) (drop p (a @ s)) = t"
      then have "drop p (a @ s) = drop (p - length a) s" using in_a [of p] by simp
      with p s show False by (simp add: strstr_None)
    qed
  qed
qed

lemma strstr_prefix: "strstr (a @ t) t = Some (length a) \<Longrightarrow> strstr (a @ t @ s) t = Some (length a)"
proof (induction a)
  case Nil
  then show ?case by (subst strstr.simps) simp
next
  case (Cons x xs)
  have "take (length t) (x # xs @ t) \<noteq> t" using Cons.prems by (auto simp: strstr.simps [of "x # xs @ t"] split: if_splits)
  moreover have "take (length t) (x # xs @ t @ s) = take (length t) (x # xs @ t)"
    using take_append [of "length t" "x # xs @ t" s] by simp
  moreover have "strstr (xs @ t) t = Some (length xs)"
    using Cons.prems by (auto simp: strstr.simps [of "x # xs @ t"] split: if_splits)
  ultimately show ?case using Cons.IH by (subst strstr.simps) simp
qed

text \<open>
  When the lines of the headers end in line feeds, what follows the headers starts after the first
  empty line exactly if no empty line with carriage returns occurs in it: the search for \<^verbatim>\<open>\r\n\r\n\<close> goes
  over the whole of the data and comes first, so such bytes in the body move the start of the stream
  behind them.
\<close>

theorem headers_with_line_feeds:
  assumes "CR \<notin> set h" and "strstr (h @ [LF, LF]) [LF, LF] = Some (length h)"
  shows "header_end (h @ [LF, LF] @ body) = Some (length h + 2) \<longleftrightarrow>
     strstr body [CR, LF, CR, LF] = None \<and> strstr body [CR, CR, LF, CR, CR, LF] = None"
proof -
  let ?a = "h @ [LF, LF]" and ?t1 = "[CR, CR, LF, CR, CR, LF]" and ?t2 = "[CR, LF, CR, LF]"
  have a: "CR \<notin> set ?a" using assms(1) by simp
  have n1: "strstr (?a @ body) ?t1 = None \<longleftrightarrow> strstr body ?t1 = None" by (rule strstr_after) (use a in simp_all)
  have n2: "strstr (?a @ body) ?t2 = None \<longleftrightarrow> strstr body ?t2 = None" by (rule strstr_after) (use a in simp_all)
  have s1: "length h + 2 \<le> p" if "strstr (?a @ body) ?t1 = Some p" for p
    using strstr_after(2) [of ?t1 ?a body p] a that by simp
  have s2: "length h + 2 \<le> p" if "strstr (?a @ body) ?t2 = Some p" for p
    using strstr_after(2) [of ?t2 ?a body p] a that by simp
  have s3: "strstr (?a @ body) [LF, LF] = Some (length h)" using strstr_prefix [OF assms(2), of body] by simp
  show ?thesis
  proof (cases "strstr (?a @ body) ?t1")
    case None
    then show ?thesis using n1 n2 s2 s3 by (cases "strstr (?a @ body) ?t2") (auto simp: header_end_def)
  next
    case (Some p)
    then show ?thesis using n1 s1 [OF Some] by (auto simp: header_end_def)
  qed
qed

theorem headers_with_line_feeds_witness:
  "header_end (''GET / HTTP/1.0'' @ [LF, LF] @ ''body'') = Some 16
   \<and> header_end (''GET / HTTP/1.0'' @ [LF, LF] @ ''body'' @ [CR, LF, CR, LF]) \<noteq> Some 16"
proof -
  have h: "CR \<notin> set ''GET / HTTP/1.0''" by simp
  have f: "strstr (''GET / HTTP/1.0'' @ [LF, LF]) [LF, LF] = Some (length ''GET / HTTP/1.0'')" by code_simp
  have a: "strstr ''body'' [CR, LF, CR, LF] = None" "strstr ''body'' [CR, CR, LF, CR, CR, LF] = None"
    "strstr (''body'' @ [CR, LF, CR, LF]) [CR, LF, CR, LF] \<noteq> None" by code_simp+
  have l: "length ''GET / HTTP/1.0'' + 2 = 16" by simp
  show ?thesis
    using headers_with_line_feeds [OF h f, of "''body''"]
      headers_with_line_feeds [OF h f, of "''body'' @ [CR, LF, CR, LF]"] a unfolding l by blast
qed

section \<open>The Shoutcast steps\<close>

lemma c_str_bound: "request_wf n \<Longrightarrow> rq_buf n ! rq_offset n = NUL \<Longrightarrow> length (c_str (rq_buf n)) \<le> rq_offset n"
  by (rule c_str_length) (auto simp: request_wf_def)

text \<open>
  The Shoutcast request is built in a buffer that is large enough, so that the parser sees the
  whole of the headers, and the nodes that go on stay within their buffers.
\<close>

theorem shoutcast_request_fits:
  assumes "request_wf n" and "rq_buf n ! rq_offset n = NUL"
  shows "http_compliant mount n = ''SOURCE '' @ mount @ '' HTTP/1.0'' @ [CR, LF] @ c_str (rq_buf n)"
  using c_str_bound [OF assms] by (simp add: http_compliant_def http_compliant_len_def)

theorem shoutcast_request_fits_witness:
  "http_compliant ''/stream'' (ready 2 ''icy-name: x'') = ''SOURCE /stream HTTP/1.0'' @ [CR, LF] @ c_str (rq_buf (ready 2 ''icy-name: x''))"
  using shoutcast_request_fits [of "ready 2 ''icy-name: x''" "''/stream''"] ready_wf [of "''icy-name: x''" 2]
  by (simp add: PER_CLIENT_REFBUF_SIZE_def nth_append, simp add: ready_def nth_append PER_CLIENT_REFBUF_SIZE_def)

text \<open>The bytes that follow the headers, and those the source will read from its buffer.\<close>

definition body :: "'p request \<Rightarrow> string" where
  "body n = take (rq_offset n - rq_stream_offset n) (drop (rq_stream_offset n) (rq_buf n))"

definition delivered :: "'p request \<Rightarrow> string" where
  "delivered n = take (rq_len n) (rq_buf n)"

lemma keep_rest_buffer:
  assumes "request_wf n"
  shows "rq_len (keep_rest n) = rq_offset n - rq_stream_offset n"
    and "length (rq_buf (keep_rest n)) = PER_CLIENT_REFBUF_SIZE"
    and "i < PER_CLIENT_REFBUF_SIZE \<Longrightarrow> rq_buf (keep_rest n) ! i =
      (if i < rq_offset n - rq_stream_offset n then rq_buf n ! (rq_stream_offset n + i) else rq_buf n ! i)"
    and "rq_offset (keep_rest n) = rq_offset n" and "rq_stream_offset (keep_rest n) = rq_stream_offset n"
proof -
  have b: "rq_stream_offset n + (rq_offset n - rq_stream_offset n) \<le> length (rq_buf n)"
    using assms by (auto simp: request_wf_def)
  show "i < PER_CLIENT_REFBUF_SIZE \<Longrightarrow> rq_buf (keep_rest n) ! i =
      (if i < rq_offset n - rq_stream_offset n then rq_buf n ! (rq_stream_offset n + i) else rq_buf n ! i)"
    using assms move_down_nth [OF b] by (auto simp: keep_rest_def request_wf_def)
  show "length (rq_buf (keep_rest n)) = PER_CLIENT_REFBUF_SIZE"
    using assms length_move_down [OF b] by (auto simp: keep_rest_def request_wf_def)
qed (simp_all add: keep_rest_def)

lemma kept_delivered: "request_wf n \<Longrightarrow> delivered (keep_rest n) = body n"
  by (rule nth_equalityI)
    (auto simp: delivered_def body_def keep_rest_buffer request_wf_def)

lemma keep_rest_wf: "request_wf n \<Longrightarrow> request_wf (keep_rest n)"
  using keep_rest_buffer [of n]
  by (auto simp: request_wf_def [of "keep_rest n"]) (auto simp: request_wf_def split: if_splits)

lemma body_nth: "request_wf n \<Longrightarrow> i < length (body n) \<Longrightarrow> body n ! i = rq_buf n ! (rq_stream_offset n + i)"
  by (auto simp: body_def request_wf_def)

lemma length_body: "request_wf n \<Longrightarrow> length (body n) = rq_offset n - rq_stream_offset n"
  by (auto simp: body_def request_wf_def)

lemma body_twice:
  assumes "request_wf n"
  shows "body (keep_rest n) =
    map (\<lambda>i. if rq_stream_offset n + i < length (body n) then body n ! (rq_stream_offset n + i) else body n ! i)
      [0..<length (body n)]"
proof (rule nth_equalityI)
  note k = keep_rest_buffer [OF assms] and w = keep_rest_wf [OF assms]
  show l: "length (body (keep_rest n)) = length (map (\<lambda>i. if rq_stream_offset n + i < length (body n)
      then body n ! (rq_stream_offset n + i) else body n ! i) [0..<length (body n)])"
    by (simp add: length_body w assms k)
  fix i assume "i < length (body (keep_rest n))"
  moreover have "rq_offset n < PER_CLIENT_REFBUF_SIZE" using assms by (simp add: request_wf_def)
  ultimately show "body (keep_rest n) ! i = map (\<lambda>i. if rq_stream_offset n + i < length (body n)
      then body n ! (rq_stream_offset n + i) else body n ! i) [0..<length (body n)] ! i"
    by (simp add: body_nth w assms k length_body)
qed

text \<open>
  What a client sent after its headers is handed on as it came. A Shoutcast source, however, has
  its data moved twice, by the Shoutcast step and by the normal handling: each byte that has another
  one as many bytes further on as the headers are long is replaced by that one, so the data of a
  Shoutcast source is handed on as it came while it is not longer than the headers.
\<close>

theorem shoutcast_body_moved_twice:
  assumes "request_wf n" and "rq_shoutcast n = 2" and "rq_shoutcast_mount n = Some m"
    and "httpp_parse e (http_compliant m n) = Some p"
  shows "delivered (keep_rest n) = body n
    \<and> (\<exists>c. handle_shoutcast_compatible e n = Continue c
        \<and> delivered (keep_rest c) = map (\<lambda>i. if rq_stream_offset n + i < length (body n)
              then body n ! (rq_stream_offset n + i) else body n ! i) [0..<length (body n)]
        \<and> (rq_offset n \<le> 2 * rq_stream_offset n \<longrightarrow> delivered (keep_rest c) = body n))"
proof -
  let ?c = "(keep_rest n)\<lparr>rq_parser := Some p, rq_icy := True, rq_shoutcast := 0\<rparr>"
  have c: "handle_shoutcast_compatible e n = Continue ?c"
    using assms(2-4) by (simp add: handle_shoutcast_compatible_def)
  have "request_wf ?c" using keep_rest_wf [OF assms(1)] by (simp add: request_wf_def)
  then have "delivered (keep_rest ?c) = body ?c" by (rule kept_delivered)
  also have "body ?c = body (keep_rest n)" by (simp add: body_def)
  finally have d: "delivered (keep_rest ?c) = map (\<lambda>i. if rq_stream_offset n + i < length (body n)
      then body n ! (rq_stream_offset n + i) else body n ! i) [0..<length (body n)]"
    using body_twice [OF assms(1)] by simp
  have "delivered (keep_rest ?c) = body n" if "rq_offset n \<le> 2 * rq_stream_offset n"
    unfolding d using that length_body [OF assms(1)] by (intro nth_equalityI) auto
  with c d kept_delivered [OF assms(1)] show ?thesis by blast
qed

definition shoutcast_example :: "nat request" where
  "shoutcast_example = (ready 2 ''abcdef'')\<lparr>rq_stream_offset := 2, rq_shoutcast_mount := Some ''/s''\<rparr>"

theorem shoutcast_body_moved_twice_witness:
  "body shoutcast_example = ''cdef''
   \<and> (\<exists>c. handle_shoutcast_compatible example_env shoutcast_example = Continue c \<and> delivered (keep_rest c) = ''efef'')"
proof -
  have w: "request_wf shoutcast_example"
    using ready_wf [of "''abcdef''" 2] by (simp add: shoutcast_example_def request_wf_def PER_CLIENT_REFBUF_SIZE_def ready_def)
  have b: "body shoutcast_example = ''cdef''"
    by (simp add: body_def shoutcast_example_def ready_def)
  have s: "rq_stream_offset shoutcast_example = 2" "rq_shoutcast shoutcast_example = 2"
    "rq_shoutcast_mount shoutcast_example = Some ''/s''"
    by (simp_all add: shoutcast_example_def ready_def)
  have "httpp_parse example_env x = Some (length x)" for x by (simp add: example_env_def)
  from shoutcast_body_moved_twice [OF w s(2, 3) this] show ?thesis
    by (auto simp: b s upt_rec)
qed

end
