(* ===== verification/Conn_Request.thy ===== *)
theory Conn_Request
  imports Conn_Queue Auth Source_Settings Util_URI
begin

text \<open>
  Handling a complete request (\<^verbatim>\<open>src/src/connection.c\<close>): protocol and TLS checks, aliases, the three
  stages of authentication (the mount, the default mount, the whole server), and the handlers for
  sources, statistics clients and GET requests.

  The callbacks of the authentication are the values of \<open>auth_stage\<close>: a handler ends with an answer to
  the client, or asks a stack of authenticators and names the callback that gets its result. The HTTP
  parser is a library: \<open>getvar\<close> and \<open>get_query_param\<close> are its lookups for the request at hand, \<open>methods\<close> its
  numbers of the request methods. \<open>client_insert\<close>, \<open>source_insert\<close> and \<open>source_delete\<close> are the
  operations of the library for AVL trees, \<open>who\<close> gives user name and role of a listener, \<open>stack_at\<close> the stack a mount
  points to.
\<close>

section \<open>Definitions\<close>

record http_methods =
  meth :: httpp
  req_source :: nat
  req_put :: nat
  req_stats :: nat
  req_get :: nat

record server_config =
  cfg_aliases :: "aliases list"
  cfg_mounts :: "mount_proxy list"
  cfg_authstack :: "nat list"
  cfg_source_limit :: int
  cfg_shoutcast_mount :: string
  cfg_listen_sock :: "listener_t list"
  cfg_settings :: settings

text \<open>A client with its request.\<close>

record rclient =
  getvar :: "string \<Rightarrow> string option"
  get_query_param :: "string \<Rightarrow> string option"
  rc_req_type :: nat
  rc_username :: "string option"
  rc_password :: "string option"
  rc_role :: "string option"
  rc_acl :: "acl option"
  rc_mode :: operation_mode
  rc_admin_command :: int
  rc_icy :: bool
  rc_tlsmode :: tlsmode
  rc_tls :: bool
  rc_serversock :: int
  rc_discon_time :: int
  rc_listener :: client

record conn_params =
  methods :: http_methods
  fnmatch :: "string \<Rightarrow> string \<Rightarrow> bool"
  client_insert :: "client \<Rightarrow> client list \<Rightarrow> client list"
  source_insert :: "source \<Rightarrow> source tree \<Rightarrow> source tree"
  source_delete :: "source \<Rightarrow> source tree \<Rightarrow> source tree"
  who :: "nat \<Rightarrow> string option \<times> string option"
  stack_at :: "nat \<Rightarrow> nat list"
  server_socks :: "int list"
  time_now :: int
  plugin_ok :: "string \<Rightarrow> bool"
  plugin_id :: "string \<Rightarrow> nat"
  can_open :: "string \<Rightarrow> bool"
  mount_get_acl :: "acl option"
  config_get_acl :: "acl option"
  var_protocol :: string
  encoding_identity :: string
  encoding_ok :: "string \<Rightarrow> bool"

text \<open>What a client is answered, or where it is passed on to.\<close>

datatype answered =
  Send_error int
| Destroy
| Upgrade_101
| Upgrade_426
| Admin_request string
| Stats_client
| Xslt_page string
| Serve_file string
| Listening string
| Source_started string int
| Shoutcast_started string

datatype auth_stage = Mount_default | Global | Authed

datatype progress = Done answered | Ask "nat list" auth_stage

record world =
  source_tree :: "source tree"
  n_sources :: int
  stats_inc :: "string list"

section \<open>Listeners\<close>

definition has_room :: "source \<Rightarrow> bool" where
  "has_room s \<longleftrightarrow> src_max_listeners s = -1 \<or> n_listeners s < word_of_int (src_max_listeners s)"

text \<open>The source that takes the listener: the fallbacks of full sources, at most \<open>loop\<close> of them.\<close>

fun find_room :: "(string \<Rightarrow> string \<Rightarrow> bool) \<Rightarrow> mount_proxy list \<Rightarrow> source tree \<Rightarrow> nat \<Rightarrow> source \<Rightarrow> source option" where
  "find_room fnm mounts tree 0 source = (if has_room source then Some source else None)"
| "find_room fnm mounts tree (Suc loop) source =
     (if has_room source then Some source
      else if src_fallback_when_full source \<noteq> 0 \<and> src_fallback_mount source \<noteq> None then
        (case source_find_mount fnm mounts (src_fallback_mount source) tree of
           None \<Rightarrow> None
         | Some other \<Rightarrow> find_room fnm mounts tree loop other)
      else None)"

text \<open>The flag tells whether the listener was taken.\<close>

definition add_listener_to_source ::
    "conn_params \<Rightarrow> server_config \<Rightarrow> source \<Rightarrow> rclient \<Rightarrow> source tree \<Rightarrow> string option \<times> source tree" where
  "add_listener_to_source P cfg source c tree =
     (case find_room (fnmatch P) (cfg_mounts cfg) tree 10 source of
        None \<Rightarrow> (None, tree)
      | Some s \<Rightarrow>
          (Some (src_mount s),
           put_source (s\<lparr>pending_tree := client_insert P ((rc_listener c)\<lparr>clnt_check := Format_check_http_buffer\<rparr>) (pending_tree s),
                         on_demand_req := (if \<not> src_running s \<and> on_demand s then True else on_demand_req s)\<rparr>) tree))"

definition same_user :: "string option \<times> string option \<Rightarrow> rclient \<Rightarrow> bool" where
  "same_user w c \<longleftrightarrow> fst w \<noteq> None \<and> rc_username c = fst w \<and> snd w \<noteq> None \<and> rc_role c = snd w"

definition count_user_role_on_mount :: "conn_params \<Rightarrow> source \<Rightarrow> rclient \<Rightarrow> int" where
  "count_user_role_on_mount P source c =
     int (length (filter (\<lambda>e. same_user (who P (con_id e)) c) (client_tree source)))
     + int (length (filter (\<lambda>e. same_user (who P (con_id e)) c) (pending_tree source)))"

definition over_user_limit :: "conn_params \<Rightarrow> source \<Rightarrow> rclient \<Rightarrow> bool" where
  "over_user_limit P source c \<longleftrightarrow>
     (let limit = acl_get_max_connections_per_user (rc_acl c)
      in limit > 0 \<and> limit \<le> count_user_role_on_mount P source c)"

definition set_discon_time :: "conn_params \<Rightarrow> server_config \<Rightarrow> source \<Rightarrow> rclient \<Rightarrow> rclient" where
  "set_discon_time P cfg source c =
     (if rc_discon_time c \<noteq> 0 then c
      else
        (let d = acl_get_max_connection_duration (rc_acl c);
             d = (if d = -1
                  then (case config_find_mount (fnmatch P) (cfg_mounts cfg) (Some (src_mount source)) MOUNT_TYPE_NORMAL of
                          Some m \<Rightarrow> if max_listener_duration m \<noteq> 0 then uint (max_listener_duration m) else d
                        | None \<Rightarrow> d)
                  else d)
         in if d > 0 then c\<lparr>rc_discon_time := d + time_now P\<rparr> else c))"

definition inc :: "string \<Rightarrow> world \<Rightarrow> world" where
  "inc name w = w\<lparr>stats_inc := stats_inc w @ [name]\<rparr>"

definition handle_get_request ::
    "conn_params \<Rightarrow> server_config \<Rightarrow> rclient \<Rightarrow> string \<Rightarrow> world \<Rightarrow> answered \<times> rclient \<times> world" where
  "handle_get_request P cfg c uri w =
     (let w = inc ''client_connections'' w
      in if uri = ''/admin.cgi'' then (Admin_request (drop 1 uri), c, w)
         else if starts_with ''/admin/'' uri then (Admin_request (drop 7 uri), c, w)
         else if acl_test_web (rc_acl c) \<noteq> ACL_POLICY_ALLOW
         then (if rc_icy c then Destroy else Send_error ICECAST_ERROR_GEN_CLIENT_NEEDS_TO_AUTHENTICATE, c, w)
         else if util_check_valid_extension (Some uri) = XSLT_CONTENT then (Xslt_page uri, c, w)
         else
           (case source_find_mount (fnmatch P) (cfg_mounts cfg) (Some uri) (source_tree w) of
              None \<Rightarrow> (Serve_file uri, c, w)
            | Some source \<Rightarrow>
                if over_user_limit P source c then (Send_error ICECAST_ERROR_CON_PER_CRED_CLIENT_LIMIT, c, w)
                else
                  (let c = set_discon_time P cfg source c
                   in case add_listener_to_source P cfg source c (source_tree w) of
                        (None, _) \<Rightarrow> (Send_error ICECAST_ERROR_CON_rejecting_client_for_whatever_reason, c, w)
                      | (Some m, tree) \<Rightarrow> (Listening m, c, w\<lparr>source_tree := tree\<rparr>))))"

definition handle_stats_request :: "rclient \<Rightarrow> world \<Rightarrow> answered \<times> rclient \<times> world" where
  "handle_stats_request c w = (Stats_client, c, inc ''stats_connections'' w)"

section \<open>Sources\<close>

datatype format_type = FORMAT_TYPE_OGG | FORMAT_TYPE_EBML | FORMAT_TYPE_GENERIC

definition format_get_type :: "string \<Rightarrow> format_type" where
  "format_get_type contenttype =
     (if contenttype = ''application/x-ogg'' then FORMAT_TYPE_OGG
      else if contenttype = ''application/ogg'' then FORMAT_TYPE_OGG
      else if contenttype = ''audio/ogg'' then FORMAT_TYPE_OGG
      else if contenttype = ''video/ogg'' then FORMAT_TYPE_OGG
      else if contenttype = ''audio/webm'' then FORMAT_TYPE_EBML
      else if contenttype = ''video/webm'' then FORMAT_TYPE_EBML
      else if contenttype = ''audio/x-matroska'' then FORMAT_TYPE_EBML
      else if contenttype = ''video/x-matroska'' then FORMAT_TYPE_EBML
      else if contenttype = ''video/x-matroska-3d'' then FORMAT_TYPE_EBML
      else FORMAT_TYPE_GENERIC)"

text \<open>
  Activating a source: the error, or the source with its settings. The format type is never the
  error value, so that branch of the code is dead and has no counterpart.
\<close>

definition connection_complete_source ::
    "conn_params \<Rightarrow> server_config \<Rightarrow> rclient \<Rightarrow> source \<Rightarrow> world \<Rightarrow> (int + source) \<times> world" where
  "connection_complete_source P cfg c source w =
     (if n_sources w < cfg_source_limit cfg then
        (case (case getvar c ''content-type'' of
                 Some contenttype \<Rightarrow> Inr (format_get_type contenttype)
               | None \<Rightarrow> if rc_req_type c = req_put (methods P) then Inl ICECAST_ERROR_CON_NO_CONTENT_TYPE_GIVEN
                         else Inr FORMAT_TYPE_GENERIC) of
           Inl e \<Rightarrow> (Inl e, w)
         | Inr type \<Rightarrow>
             if \<not> plugin_ok P (src_mount source) then (Inl ICECAST_ERROR_CON_INTERNAL_FORMAT_ALLOC_ERROR, w)
             else
               (let contenttype = or_default (getvar c ''content-type'') ''audio/mpeg'';
                    source = source\<lparr>src_format := Some (plugin_id P (src_mount source)), src_running := True\<rparr>;
                    (source, calls) = source_update_settings (cfg_settings cfg) (can_open P) (getvar c) contenttype
                       (mount_get_acl P) (config_get_acl P) source
                       (config_find_mount (fnmatch P) (cfg_mounts cfg) (Some (src_mount source)) MOUNT_TYPE_NORMAL)
                in (Inr source, w\<lparr>n_sources := n_sources w + 1\<rparr>)))
      else (Inl ICECAST_ERROR_CON_SOURCE_CLIENT_LIMIT, w))"

text \<open>A source goes: its listeners are removed, then the source itself.\<close>

definition drop_source :: "conn_params \<Rightarrow> source \<Rightarrow> world \<Rightarrow> world" where
  "drop_source P source w =
     (let (source, freed, sub) = source_clear_source source
      in w\<lparr>source_tree := source_delete P source (source_tree w)\<rparr>)"

definition status_to_send :: "rclient \<Rightarrow> int" where
  "status_to_send c =
     (case getvar c ''expect'' of
        Some e \<Rightarrow> if strcasestr e ''100-continue'' then 100 else 200
      | None \<Rightarrow> 200)"

text \<open>A transfer encoding other than the identity that the library does not know.\<close>

definition bad_encoding :: "conn_params \<Rightarrow> rclient \<Rightarrow> bool" where
  "bad_encoding P c \<longleftrightarrow>
     (case getvar c ''transfer-encoding'' of
        None \<Rightarrow> False
      | Some t \<Rightarrow> \<not> strcaseeq t (encoding_identity P) \<and> \<not> encoding_ok P t)"

definition source_startup :: "conn_params \<Rightarrow> server_config \<Rightarrow> rclient \<Rightarrow> string \<Rightarrow> world \<Rightarrow> answered \<times> rclient \<times> world" where
  "source_startup P cfg c uri w =
     (case source_reserve (source_insert P) uri (source_tree w) of
        (None, _) \<Rightarrow> (Send_error ICECAST_ERROR_CON_MOUNT_IN_USE, c, w)
      | (Some source, tree) \<Rightarrow>
          (let source = source\<lparr>src_client := True, src_con := True\<rparr>;
               w = w\<lparr>source_tree := put_source source tree\<rparr>
           in case connection_complete_source P cfg c source w of
                (Inl e, w) \<Rightarrow> (Send_error e, c, drop_source P source w)
              | (Inr source, w) \<Rightarrow>
                  (let w = w\<lparr>source_tree := put_source source (source_tree w)\<rparr>
                   in if rc_icy c then (Shoutcast_started uri, c, w)
                      else if bad_encoding P c then (Send_error ICECAST_ERROR_CON_UNIMPLEMENTED, c, w)
                      else (Source_started uri (status_to_send c), c, w))))"

definition handle_source_request :: "conn_params \<Rightarrow> server_config \<Rightarrow> rclient \<Rightarrow> string \<Rightarrow> world \<Rightarrow> answered \<times> rclient \<times> world" where
  "handle_source_request P cfg c uri w =
     (if uri = [] \<or> hd uri \<noteq> CHR ''/'' then (Send_error ICECAST_ERROR_CON_MOUNTPOINT_NOT_STARTING_WITH_SLASH, c, w)
      else source_startup P cfg c uri w)"

section \<open>Authentication\<close>

text \<open>The last callback: the client has passed the authentication, or has not.\<close>

definition handle_authed_client ::
    "conn_params \<Rightarrow> server_config \<Rightarrow> rclient \<Rightarrow> string \<Rightarrow> auth_result \<Rightarrow> world \<Rightarrow> answered \<times> rclient \<times> world" where
  "handle_authed_client P cfg c uri result w =
     (if result \<noteq> AUTH_OK then (Send_error ICECAST_ERROR_GEN_CLIENT_NEEDS_TO_AUTHENTICATE, c, w)
      else if acl_test_method (meth (methods P)) (rc_acl c) (rc_req_type c) \<noteq> ACL_POLICY_ALLOW
      then (Send_error ICECAST_ERROR_GEN_CLIENT_NEEDS_TO_AUTHENTICATE, c, w)
      else if rc_req_type c = req_source (methods P) \<or> rc_req_type c = req_put (methods P)
      then handle_source_request P cfg c uri w
      else if rc_req_type c = req_stats (methods P) then handle_stats_request c w
      else if rc_req_type c = req_get (methods P) then handle_get_request P cfg c uri w
      else (Send_error ICECAST_ERROR_CON_UNKNOWN_REQUEST, c, w))"

definition authed :: "conn_params \<Rightarrow> server_config \<Rightarrow> rclient \<Rightarrow> string \<Rightarrow> auth_result \<Rightarrow> world \<Rightarrow> progress \<times> rclient \<times> world" where
  "authed P cfg c uri result w =
     (case handle_authed_client P cfg c uri result w of (a, c, w) \<Rightarrow> (Done a, c, w))"

text \<open>Whether a result of an earlier stage is final.\<close>

definition settled :: "rclient \<Rightarrow> auth_result \<Rightarrow> bool" where
  "settled c result \<longleftrightarrow>
     result \<noteq> AUTH_NOMATCH
     \<and> \<not> (result = AUTH_OK \<and> rc_admin_command c \<noteq> -1
          \<and> acl_test_admin (rc_acl c) (rc_admin_command c) = ACL_POLICY_DENY)"

definition handle_authentication_global ::
    "conn_params \<Rightarrow> server_config \<Rightarrow> rclient \<Rightarrow> string \<Rightarrow> auth_result \<Rightarrow> world \<Rightarrow> progress \<times> rclient \<times> world" where
  "handle_authentication_global P cfg c uri result w =
     (if settled c result then authed P cfg c uri result w
      else (Ask (cfg_authstack cfg) Authed, c, w))"

definition find_non_admin_mount :: "conn_params \<Rightarrow> server_config \<Rightarrow> string \<Rightarrow> mount_type \<Rightarrow> mount_proxy option" where
  "find_non_admin_mount P cfg name type =
     (if name = ''/admin.cgi'' \<or> starts_with ''/admin/'' name then None
      else config_find_mount (fnmatch P) (cfg_mounts cfg) (Some name) type)"

text \<open>The stack of the mount a request is about: the mount itself, or the parameter of a command.\<close>

definition mount_stack :: "conn_params \<Rightarrow> server_config \<Rightarrow> rclient \<Rightarrow> string \<Rightarrow> mount_type \<Rightarrow> nat list option" where
  "mount_stack P cfg c uri type =
     (let mountproxy =
        (case find_non_admin_mount P cfg uri type of
           Some m \<Rightarrow> Some m
         | None \<Rightarrow>
             (let command_type = admin_get_command_type (rc_admin_command c)
              in if command_type = ADMINTYPE_MOUNT \<or> command_type = ADMINTYPE_HYBRID
                 then (case get_query_param c ''mount'' of
                         Some mount \<Rightarrow> find_non_admin_mount P cfg mount type
                       | None \<Rightarrow> None)
                 else None))
      in case mountproxy of
           Some m \<Rightarrow> if mounttype m = type then map_option (stack_at P) (mount_authstack m) else None
         | None \<Rightarrow> None)"

definition handle_authentication_mount_default ::
    "conn_params \<Rightarrow> server_config \<Rightarrow> rclient \<Rightarrow> string \<Rightarrow> auth_result \<Rightarrow> world \<Rightarrow> progress \<times> rclient \<times> world" where
  "handle_authentication_mount_default P cfg c uri result w =
     (if settled c result then authed P cfg c uri result w
      else
        (case mount_stack P cfg c uri MOUNT_TYPE_DEFAULT of
           Some stack \<Rightarrow> (Ask stack Global, c, w)
         | None \<Rightarrow> handle_authentication_global P cfg c uri AUTH_NOMATCH w))"

definition handle_authentication :: "conn_params \<Rightarrow> server_config \<Rightarrow> rclient \<Rightarrow> string \<Rightarrow> world \<Rightarrow> progress \<times> rclient \<times> world" where
  "handle_authentication P cfg c uri w =
     (case mount_stack P cfg c uri MOUNT_TYPE_NORMAL of
        Some stack \<Rightarrow> (Ask stack Mount_default, c, w)
      | None \<Rightarrow> handle_authentication_mount_default P cfg c uri AUTH_NOMATCH w)"

text \<open>The callback of a stage, called with the result of the authenticators.\<close>

definition callback ::
    "conn_params \<Rightarrow> server_config \<Rightarrow> auth_stage \<Rightarrow> rclient \<Rightarrow> string \<Rightarrow> auth_result \<Rightarrow> world \<Rightarrow> progress \<times> rclient \<times> world" where
  "callback P cfg stage =
     (case stage of
        Mount_default \<Rightarrow> handle_authentication_mount_default P cfg
      | Global \<Rightarrow> handle_authentication_global P cfg
      | Authed \<Rightarrow> authed P cfg)"

section \<open>Requests\<close>

text \<open>The listening socket a connection came in on.\<close>

fun listen_loop :: "int list \<Rightarrow> int \<Rightarrow> listener_t list \<Rightarrow> listener_t option" where
  "listen_loop socks sock [] = None"
| "listen_loop [] sock (l # ls) = None"
| "listen_loop (s # socks) sock (l # ls) = (if s = sock then Some l else listen_loop socks sock ls)"

definition config_get_listen_sock :: "conn_params \<Rightarrow> server_config \<Rightarrow> rclient \<Rightarrow> listener_t option" where
  "config_get_listen_sock P cfg c = listen_loop (server_socks P) (rc_serversock c) (cfg_listen_sock cfg)"

definition alias_matches :: "string \<Rightarrow> int \<Rightarrow> string option \<Rightarrow> string option \<Rightarrow> aliases \<Rightarrow> bool" where
  "alias_matches uri serverport serverhost vhost a \<longleftrightarrow>
     uri = al_source a
     \<and> (al_port a = -1 \<or> al_port a = serverport)
     \<and> (al_bind_address a = None \<or> serverhost \<noteq> None \<and> al_bind_address a = serverhost)
     \<and> (al_vhost a = None \<or> vhost \<noteq> None \<and> al_vhost a = vhost)"

definition handle_aliases :: "conn_params \<Rightarrow> server_config \<Rightarrow> rclient \<Rightarrow> string \<Rightarrow> rclient \<times> string" where
  "handle_aliases P cfg c uri =
     (let vhost = map_option (\<lambda>h. case strstr h '':'' of Some p \<Rightarrow> take p h | None \<Rightarrow> h) (getvar c ''host'');
          (serverhost, serverport) =
            (case config_get_listen_sock P cfg c of
               Some l \<Rightarrow> (l_bind_address l, l_port l)
             | None \<Rightarrow> (None, 0))
      in case find (alias_matches uri serverport serverhost vhost) (cfg_aliases cfg) of
           Some a \<Rightarrow>
             (if al_omode a \<noteq> OMODE_DEFAULT then c\<lparr>rc_mode := al_omode a\<rparr> else c,
              case al_destination a of Some d \<Rightarrow> d | None \<Rightarrow> uri)
         | None \<Rightarrow> (c, uri))"

definition prepare_shoutcast_admin_cgi_request :: "conn_params \<Rightarrow> server_config \<Rightarrow> rclient \<Rightarrow> rclient" where
  "prepare_shoutcast_admin_cgi_request P cfg c =
     (case get_query_param c ''pass'' of
        None \<Rightarrow> c
      | Some pass \<Rightarrow>
          if rc_password c \<noteq> None then c
          else
            (let sc_mount =
               (case config_get_listen_sock P cfg c of
                  Some l \<Rightarrow> (case l_shoutcast_mount l of Some m \<Rightarrow> m | None \<Rightarrow> cfg_shoutcast_mount cfg)
                | None \<Rightarrow> cfg_shoutcast_mount cfg)
             in c\<lparr>get_query_param := (get_query_param c)(''mount'' \<mapsto> sc_mount),
                  getvar := (getvar c)(var_protocol P \<mapsto> ''ICY''), rc_password := Some pass\<rparr>))"

text \<open>A request in plain text: the URI is normalised and its alias applied before the client is authenticated.\<close>

definition tls_required :: "rclient \<Rightarrow> bool" where
  "tls_required c \<longleftrightarrow> rc_tlsmode c \<noteq> ICECAST_TLSMODE_DISABLED \<and> rc_tlsmode c \<noteq> ICECAST_TLSMODE_AUTO \<and> \<not> rc_tls c"

definition plain_request ::
    "conn_params \<Rightarrow> server_config \<Rightarrow> string \<Rightarrow> rclient \<Rightarrow> world \<Rightarrow> progress \<times> rclient \<times> world" where
  "plain_request P cfg rawuri c w =
     (if tls_required c then (Done Upgrade_426, c, w)
      else
        (case util_normalise_uri rawuri of
           None \<Rightarrow> (Done Destroy, c, w)
         | Some uri \<Rightarrow>
             (let c = c\<lparr>rc_mode := config_str_to_omode (get_query_param c ''omode'')\<rparr>;
                  (c, uri) = handle_aliases P cfg c uri
              in if uri = ''/admin.cgi'' then
                   (let c = prepare_shoutcast_admin_cgi_request P cfg
                              (c\<lparr>rc_admin_command := admin_get_command (drop 1 uri)\<rparr>)
                    in if rc_password c = None then (Done (Send_error ICECAST_ERROR_CON_MISSING_PASS_PARAMETER), c, w)
                       else handle_authentication P cfg c uri w)
                 else if starts_with ''/admin/'' uri
                 then handle_authentication P cfg (c\<lparr>rc_admin_command := admin_get_command (drop 7 uri)\<rparr>) uri w
                 else handle_authentication P cfg c uri w)))"

text \<open>
  A parsed request. The parser always sets the protocol and the URI; \<open>node_mount\<close> is the mount of a
  listening socket for Shoutcast sources.
\<close>

definition handle_request ::
    "conn_params \<Rightarrow> server_config \<Rightarrow> string \<Rightarrow> string \<Rightarrow> string option \<Rightarrow> rclient \<Rightarrow> world \<Rightarrow> progress \<times> rclient \<times> world" where
  "handle_request P cfg protocol rawuri node_mount c w =
     (let c = (case node_mount of
            Some m \<Rightarrow> if rawuri = ''/admin.cgi'' then c\<lparr>get_query_param := (get_query_param c)(''mount'' \<mapsto> m)\<rparr> else c
          | None \<Rightarrow> c)
      in if protocol \<noteq> ''ICE'' \<and> protocol \<noteq> ''HTTP'' then (Done Destroy, c, w)
         else
           (case (getvar c ''upgrade'', getvar c ''connection'') of
              (Some upgrade, Some connection) \<Rightarrow>
                if strcaseeq connection ''upgrade''
                then (Done (if rc_tlsmode c = ICECAST_TLSMODE_DISABLED \<or> strstr upgrade ''TLS/1.0'' = None
                            then Send_error ICECAST_ERROR_CON_UPGRADE_ERROR else Upgrade_101), c, w)
                else plain_request P cfg rawuri c w
            | _ \<Rightarrow> plain_request P cfg rawuri c w))"

section \<open>Who gets in\<close>

text \<open>An answer that hands out something, and one that hands out a page, a file or a stream.\<close>

fun refused :: "answered \<Rightarrow> bool" where
  "refused (Send_error e) = True"
| "refused Destroy = True"
| "refused Upgrade_101 = True"
| "refused Upgrade_426 = True"
| "refused _ = False"

fun web_content :: "answered \<Rightarrow> bool" where
  "web_content (Xslt_page u) = True"
| "web_content (Serve_file u) = True"
| "web_content (Listening m) = True"
| "web_content _ = False"

lemma get_request_web:
  "handle_get_request P cfg c uri w = (a, c', w') \<Longrightarrow> web_content a \<Longrightarrow> acl_test_web (rc_acl c) = ACL_POLICY_ALLOW"
  by (auto simp: handle_get_request_def Let_def split: if_splits option.splits prod.splits)

lemma source_startup_web: "source_startup P cfg c uri w = (a, c', w') \<Longrightarrow> \<not> web_content a"
  by (auto simp: source_startup_def Let_def split: if_splits option.splits prod.splits sum.splits)

lemma source_request_web: "handle_source_request P cfg c uri w = (a, c', w') \<Longrightarrow> \<not> web_content a"
  by (auto simp: handle_source_request_def source_startup_web split: if_splits)

lemma authed_client_ok:
  assumes "handle_authed_client P cfg c uri result w = (a, c', w')" and "\<not> refused a"
  shows "result = AUTH_OK \<and> acl_test_method (meth (methods P)) (rc_acl c) (rc_req_type c) = ACL_POLICY_ALLOW
    \<and> (web_content a \<longrightarrow> rc_req_type c = req_get (methods P) \<and> acl_test_web (rc_acl c) = ACL_POLICY_ALLOW)"
  using assms unfolding handle_authed_client_def
  by (auto split: if_splits dest: get_request_web source_request_web simp: handle_stats_request_def)

lemma authed_client_refused:
  "result \<noteq> AUTH_OK \<Longrightarrow>
     handle_authed_client P cfg c uri result w = (Send_error ICECAST_ERROR_GEN_CLIENT_NEEDS_TO_AUTHENTICATE, c, w)"
  by (simp add: handle_authed_client_def)

lemma callback_cases:
  "callback P cfg stage c uri result w = authed P cfg c uri result w
   \<or> (\<exists>stack stage'. callback P cfg stage c uri result w = (Ask stack stage', c, w))"
  by (cases stage)
    (auto simp: callback_def handle_authentication_mount_default_def handle_authentication_global_def settled_def
      split: option.splits)

text \<open>
  C17: At every stage of the authentication: a client is handed something only after an authenticator
  accepted it and its access control list allows the method; it gets a page, a file or a stream only
  for a GET request and if the list allows the web interface. Any other result of the authenticators
  leads to the next stage or to the error that asks for authentication, and changes nothing.
\<close>

theorem only_authenticated_clients_get_in:
  "(\<forall>a c' w'. callback P cfg stage c uri result w = (Done a, c', w') \<and> \<not> refused a \<longrightarrow>
      result = AUTH_OK \<and> acl_test_method (meth (methods P)) (rc_acl c) (rc_req_type c) = ACL_POLICY_ALLOW
      \<and> (web_content a \<longrightarrow> rc_req_type c = req_get (methods P) \<and> acl_test_web (rc_acl c) = ACL_POLICY_ALLOW))
   \<and> (result \<noteq> AUTH_OK \<longrightarrow>
      callback P cfg stage c uri result w = (Done (Send_error ICECAST_ERROR_GEN_CLIENT_NEEDS_TO_AUTHENTICATE), c, w)
      \<or> (\<exists>stack stage'. callback P cfg stage c uri result w = (Ask stack stage', c, w)))"
  using callback_cases [of P cfg stage c uri result w] authed_client_ok [of P cfg c uri result w]
  by (auto simp: authed_def authed_client_refused split: prod.splits)

section \<open>The order of the authenticators\<close>

text \<open>The client as the authenticators see it, and with what they leave.\<close>

definition aclient_of :: "rclient \<Rightarrow> aclient" where
  "aclient_of c = \<lparr>clnt_id = con_id (rc_listener c), req_type = rc_req_type c, authorization = getvar c ''authorization'',
     creds = \<lparr>username = rc_username c, password = rc_password c\<rparr>, client_auth = None, client_acl = rc_acl c,
     client_role = rc_role c, authstack = []\<rparr>"

definition with_answer :: "aclient \<Rightarrow> rclient \<Rightarrow> rclient" where
  "with_answer a c = c\<lparr>rc_acl := client_acl a, rc_role := client_role a, rc_username := username (creds a),
     rc_password := password (creds a)\<rparr>"

text \<open>Asking a stack: the first callback, None when there is none.\<close>

definition ask :: "(nat \<Rightarrow> auth) \<Rightarrow> nat list \<Rightarrow> rclient \<Rightarrow> (auth_result \<times> rclient) option" where
  "ask auths stack c =
     (case results (auth_stack_add_client auths stack (aclient_of c) (idle_state (\<lambda>_. 1))) of
        [] \<Rightarrow> None
      | (a, r) # _ \<Rightarrow> Some (r, with_answer a c))"

text \<open>The authentication of a client with its callbacks, \<open>n\<close> stacks at most.\<close>

fun run_auth ::
    "(nat \<Rightarrow> auth) \<Rightarrow> conn_params \<Rightarrow> server_config \<Rightarrow> string \<Rightarrow> nat \<Rightarrow> progress \<times> rclient \<times> world
     \<Rightarrow> (answered \<times> rclient \<times> world) option" where
  "run_auth auths P cfg uri n (Done a, c, w) = Some (a, c, w)"
| "run_auth auths P cfg uri 0 (Ask stack stage, c, w) = None"
| "run_auth auths P cfg uri (Suc n) (Ask stack stage, c, w) =
     (case ask auths stack c of
        None \<Rightarrow> None
      | Some (r, c) \<Rightarrow> run_auth auths P cfg uri n (callback P cfg stage c uri r w))"

text \<open>The stacks of a request in order: the mount, the default mount, the server.\<close>

definition stacks :: "conn_params \<Rightarrow> server_config \<Rightarrow> rclient \<Rightarrow> string \<Rightarrow> nat list list" where
  "stacks P cfg c uri =
     (case mount_stack P cfg c uri MOUNT_TYPE_NORMAL of Some s \<Rightarrow> [s] | None \<Rightarrow> [])
     @ (case mount_stack P cfg c uri MOUNT_TYPE_DEFAULT of Some s \<Rightarrow> [s] | None \<Rightarrow> [])
     @ [cfg_authstack cfg]"

fun first_settled :: "(nat \<Rightarrow> auth) \<Rightarrow> nat list list \<Rightarrow> rclient \<Rightarrow> (auth_result \<times> rclient) option" where
  "first_settled auths [] c = None"
| "first_settled auths [s] c = ask auths s c"
| "first_settled auths (s # t # rest) c =
     (case ask auths s c of
        None \<Rightarrow> None
      | Some (r, c) \<Rightarrow> if settled c r then Some (r, c) else first_settled auths (t # rest) c)"

lemma ask_keeps:
  assumes "ask auths stack c = Some (r, c')"
  shows "mount_stack P cfg c' uri type = mount_stack P cfg c uri type"
proof -
  obtain a where "c' = with_answer a c"
    using assms by (auto simp: ask_def split: list.splits)
  then have "rc_admin_command c' = rc_admin_command c" "get_query_param c' = get_query_param c"
    by (simp_all add: with_answer_def)
  then show ?thesis by (simp only: mount_stack_def)
qed

lemma unmatched_unsettled [simp]: "\<not> settled c AUTH_NOMATCH"
  by (simp add: settled_def)

definition finish ::
    "conn_params \<Rightarrow> server_config \<Rightarrow> string \<Rightarrow> world \<Rightarrow> (auth_result \<times> rclient) option \<Rightarrow> (answered \<times> rclient \<times> world) option" where
  "finish P cfg uri w d = map_option (\<lambda>(r, c). handle_authed_client P cfg c uri r w) d"

lemma run_authed: "run_auth auths P cfg uri n (authed P cfg c uri r w) = finish P cfg uri w (Some (r, c))"
  by (simp add: authed_def finish_def split: prod.splits)

lemma run_last: "run_auth auths P cfg uri (Suc n) (Ask s Authed, c, w) = finish P cfg uri w (ask auths s c)"
  by (auto simp: callback_def run_authed split: option.splits) (simp add: finish_def)

lemma run_global:
  "run_auth auths P cfg uri (Suc n) (handle_authentication_global P cfg c uri r w) =
     (if settled c r then finish P cfg uri w (Some (r, c))
      else finish P cfg uri w (ask auths (cfg_authstack cfg) c))"
  by (simp add: handle_authentication_global_def run_authed run_last del: run_auth.simps)

lemma run_default:
  "run_auth auths P cfg uri (Suc (Suc n)) (handle_authentication_mount_default P cfg c uri r w) =
     (if settled c r then finish P cfg uri w (Some (r, c))
      else finish P cfg uri w (first_settled auths
        ((case mount_stack P cfg c uri MOUNT_TYPE_DEFAULT of Some s \<Rightarrow> [s] | None \<Rightarrow> []) @ [cfg_authstack cfg]) c))"
proof (cases "settled c r")
  case True
  then show ?thesis by (simp add: handle_authentication_mount_default_def run_authed del: run_auth.simps)
next
  case False
  show ?thesis
  proof (cases "mount_stack P cfg c uri MOUNT_TYPE_DEFAULT")
    case None
    then show ?thesis using False run_global [of auths P cfg uri "Suc n" c AUTH_NOMATCH w]
      by (simp add: handle_authentication_mount_default_def)
  next
    case (Some s)
    then show ?thesis using False
      by (cases "ask auths s c")
        (auto simp: handle_authentication_mount_default_def callback_def run_global finish_def)
  qed
qed

lemma run_mount:
  "run_auth auths P cfg uri (Suc (Suc (Suc n))) (handle_authentication P cfg c uri w) =
     finish P cfg uri w (first_settled auths (stacks P cfg c uri) c)"
proof (cases "mount_stack P cfg c uri MOUNT_TYPE_NORMAL")
  case None
  then show ?thesis using run_default [of auths P cfg uri "Suc n" c AUTH_NOMATCH w]
    by (simp add: handle_authentication_def stacks_def)
next
  case (Some s)
  let ?rest = "(case mount_stack P cfg c uri MOUNT_TYPE_DEFAULT of Some s \<Rightarrow> [s] | None \<Rightarrow> []) @ [cfg_authstack cfg]"
  obtain t ts where r: "?rest = t # ts" by (cases ?rest) auto
  have st: "stacks P cfg c uri = s # t # ts" using Some r by (simp add: stacks_def)
  show ?thesis
  proof (cases "ask auths s c")
    case None
    then show ?thesis using Some by (simp add: handle_authentication_def st finish_def)
  next
    case (Some rc)
    obtain r c' where rc: "rc = (r, c')" by (cases rc)
    have "mount_stack P cfg c' uri MOUNT_TYPE_DEFAULT = mount_stack P cfg c uri MOUNT_TYPE_DEFAULT"
      using ask_keeps Some rc by blast
    then show ?thesis
      using run_default [of auths P cfg uri n c' r w] Some rc \<open>mount_stack P cfg c uri MOUNT_TYPE_NORMAL = Some s\<close> r
      by (simp add: handle_authentication_def st callback_def del: run_auth.simps) (simp add: callback_def)
  qed
qed

lemma ask_answers:
  assumes "stack \<noteq> []" and "\<forall>i\<in>set stack. immediate (auths i)"
  shows "ask auths stack c \<noteq> None"
proof -
  obtain c' where "results (auth_stack_add_client auths stack (aclient_of c) (idle_state (\<lambda>_. 1)))
      = results (idle_state (\<lambda>_. 1)) @ [(c', fst (answer auths stack (aclient_of c)))]"
    using stack_answer [of stack auths "idle_state (\<lambda>_. 1)" "aclient_of c"] assms
    by (auto simp: idle_state_def aclient_of_def)
  then show ?thesis by (simp add: ask_def idle_state_def)
qed

lemma first_settled_answers:
  "ss \<noteq> [] \<Longrightarrow> \<forall>s\<in>set ss. s \<noteq> [] \<and> (\<forall>i\<in>set s. immediate (auths i)) \<Longrightarrow> first_settled auths ss c \<noteq> None"
proof (induction auths ss c rule: first_settled.induct)
  case (2 auths s c)
  then show ?case using ask_answers by simp
next
  case (3 auths s t rest c)
  then have "ask auths s c \<noteq> None" using ask_answers by simp
  with 3 show ?case by (auto split: option.splits)
qed simp

lemma ask_nobody [simp]: "ask auths [] c = None"
  by (simp add: ask_def idle_state_def)

text \<open>
  The authentication of a request ends after at most three stacks: the one of the mount, the one of
  the default mount, and the one of the server. The first answer that is settled decides, where
  success does not settle a command the access control list denies; the answer of the server's stack
  decides anyway. Each stack with at least one authenticator gives an answer, but a client that comes
  to the server's stack while the configuration has none is never answered.
\<close>

theorem authentication_order:
  "run_auth auths P cfg uri 3 (handle_authentication P cfg c uri w)
     = finish P cfg uri w (first_settled auths (stacks P cfg c uri) c)
   \<and> ((\<forall>s\<in>set (stacks P cfg c uri). s \<noteq> [] \<and> (\<forall>i\<in>set s. immediate (auths i))) \<longrightarrow>
        first_settled auths (stacks P cfg c uri) c \<noteq> None)
   \<and> (stacks P cfg c uri = [[]] \<longrightarrow> run_auth auths P cfg uri n (handle_authentication P cfg c uri w) = None)"
proof (intro conjI impI)
  show "run_auth auths P cfg uri 3 (handle_authentication P cfg c uri w)
     = finish P cfg uri w (first_settled auths (stacks P cfg c uri) c)"
    using run_mount [of auths P cfg uri 0 c w] by (simp add: numeral_3_eq_3)
  assume "\<forall>s\<in>set (stacks P cfg c uri). s \<noteq> [] \<and> (\<forall>i\<in>set s. immediate (auths i))"
  moreover have "stacks P cfg c uri \<noteq> []" by (simp add: stacks_def)
  ultimately show "first_settled auths (stacks P cfg c uri) c \<noteq> None" by (rule first_settled_answers [rotated])
next
  assume "stacks P cfg c uri = [[]]"
  then have "handle_authentication P cfg c uri w = (Ask [] Authed, c, w)"
    by (auto simp: stacks_def handle_authentication_def handle_authentication_mount_default_def
        handle_authentication_global_def split: option.splits)
  then show "run_auth auths P cfg uri n (handle_authentication P cfg c uri w) = None"
    by (cases n) simp_all
qed

section \<open>Room for listeners\<close>

lemma find_room_room: "find_room fnm mounts tree n s = Some r \<Longrightarrow> has_room r"
  by (induction fnm mounts tree n s rule: find_room.induct) (auto split: if_splits option.splits)

text \<open>The sources a full one hands its listeners to.\<close>

inductive falls_to :: "(string \<Rightarrow> string \<Rightarrow> bool) \<Rightarrow> mount_proxy list \<Rightarrow> source tree \<Rightarrow> nat \<Rightarrow> source \<Rightarrow> source \<Rightarrow> bool"
  for fnm mounts tree where
  here: "falls_to fnm mounts tree n s s"
| fallback: "\<not> has_room s \<Longrightarrow> src_fallback_when_full s \<noteq> 0 \<Longrightarrow> src_fallback_mount s = Some m \<Longrightarrow>
    source_find_mount fnm mounts (Some m) tree = Some s' \<Longrightarrow> falls_to fnm mounts tree n s' r \<Longrightarrow>
    falls_to fnm mounts tree (Suc n) s r"

inductive_cases falls_to_0: "falls_to fnm mounts tree 0 s r"
inductive_cases falls_to_Suc: "falls_to fnm mounts tree (Suc n) s r"

lemma find_room_falls: "find_room fnm mounts tree n s = Some r \<Longrightarrow> falls_to fnm mounts tree n s r"
proof (induction fnm mounts tree n s rule: find_room.induct)
  case (1 fnm mounts tree s)
  then show ?case by (auto split: if_splits intro: falls_to.here)
next
  case (2 fnm mounts tree n s)
  then show ?case by (fastforce split: if_splits option.splits intro: falls_to.intros)
qed

lemma falls_find_room: "falls_to fnm mounts tree n s r \<Longrightarrow> has_room r \<Longrightarrow> find_room fnm mounts tree n s = Some r"
proof (induction rule: falls_to.induct)
  case (here n s)
  then show ?case by (cases n) auto
qed auto


section \<open>Starting a source\<close>

text \<open>What the library for AVL trees promises for the tree of sources.\<close>

definition tree_laws :: "(source \<Rightarrow> source tree \<Rightarrow> source tree) \<Rightarrow> (source \<Rightarrow> source tree \<Rightarrow> source tree) \<Rightarrow> bool" where
  "tree_laws ins del \<longleftrightarrow> ops_ok src_mount \<lparr>t_insert = ins, t_delete = del\<rparr>"

lemma ordered_put [simp]: "ordered (put_source s t) = ordered t"
  unfolding ordered_in_order put_source_def by (rule in_order_map) simp

lemma find_raw_insert:
  assumes "tree_laws ins del" and "ordered t" and "find_raw (src_mount x) t = None"
  shows "ordered (ins x t)" and "find_raw m (ins x t) = (if m = src_mount x then Some x else find_raw m t)"
  using find_in_insert [of src_mount "\<lparr>t_insert = ins, t_delete = del\<rparr>" t x] assms
  by (simp_all add: tree_laws_def find_raw_find_in ordered_in_order)

lemma find_raw_delete:
  assumes "tree_laws ins del" and "ordered t"
  shows "find_raw m (del x t) = (if m = src_mount x then None else find_raw m t)"
  using find_in_delete(2) [where key = src_mount and ops = "\<lparr>t_insert = ins, t_delete = del\<rparr>" and t = t and x = x and m = m] assms
  by (simp add: tree_laws_def find_raw_find_in ordered_in_order)

lemma complete_source_cases:
  "connection_complete_source P cfg c s w = (Inl e, w') \<Longrightarrow> w' = w \<and> e \<noteq> ICECAST_ERROR_CON_UNIMPLEMENTED"
  "connection_complete_source P cfg c s w = (Inr s', w') \<Longrightarrow>
     n_sources w < cfg_source_limit cfg \<and> w' = w\<lparr>n_sources := n_sources w + 1\<rparr>"
  by (auto simp: connection_complete_source_def Let_def split: if_splits option.splits sum.splits prod.splits)

lemma update_settings_keeps:
  "src_mount (fst (source_update_settings cf co gv ct ma ca s m)) = src_mount s"
  "src_running (fst (source_update_settings cf co gv ct ma ca s m)) = src_running s"
  by (auto simp: source_update_settings_def source_apply_mount_def Let_def split: option.splits prod.splits)

lemma complete_source_result:
  assumes "connection_complete_source P cfg c s w = (Inr s', w')"
  shows "src_mount s' = src_mount s \<and> src_running s'"
proof -
  have "\<exists>ct m. s' = fst (source_update_settings (cfg_settings cfg) (can_open P) (getvar c) ct (mount_get_acl P)
      (config_get_acl P) (s\<lparr>src_format := Some (plugin_id P (src_mount s)), src_running := True\<rparr>) m)"
    using assms unfolding connection_complete_source_def Let_def case_prod_beta
    by (auto split: if_splits option.splits sum.splits)
  then show ?thesis using update_settings_keeps by fastforce
qed

text \<open>
  C31: Starting a source never exceeds the limit of sources, and it is all or nothing: either the
  client gets an error and neither the tree of mountpoints nor the number of sources has changed, or
  the mountpoint was free and now has a running source, which is counted. There is one exception:
  for a transfer encoding that is not implemented the client gets an error while its source stays
  in the tree, running and counted.
\<close>

theorem source_start_all_or_nothing:
  assumes "ordered (source_tree w)" and "tree_laws (source_insert P) (source_delete P)"
    and "source_startup P cfg c uri w = (a, c', w')"
  shows "if \<exists>e. a = Send_error e \<and> e \<noteq> ICECAST_ERROR_CON_UNIMPLEMENTED
     then n_sources w' = n_sources w \<and> (\<forall>m. find_raw m (source_tree w') = find_raw m (source_tree w))
     else find_raw uri (source_tree w) = None
       \<and> n_sources w' = n_sources w + 1 \<and> n_sources w' \<le> cfg_source_limit cfg
       \<and> (\<exists>s. find_raw uri (source_tree w') = Some s \<and> src_running s)
       \<and> (\<forall>m. m \<noteq> uri \<longrightarrow> find_raw m (source_tree w') = find_raw m (source_tree w))"
proof (cases "find_raw uri (source_tree w)")
  case (Some s)
  then show ?thesis using assms(3)
    by (auto simp: source_startup_def source_reserve_def source_find_mount_raw_def)
next
  case None
  let ?s = "(new_source uri)\<lparr>src_client := True, src_con := True\<rparr>"
  let ?t = "put_source ?s (source_insert P (new_source uri) (source_tree w))"
  let ?w = "w\<lparr>source_tree := ?t\<rparr>"
  have m: "src_mount (new_source uri) = uri" "src_mount ?s = uri" by simp_all
  have i: "ordered (source_insert P (new_source uri) (source_tree w))"
    "\<And>k. find_raw k (source_insert P (new_source uri) (source_tree w)) =
      (if k = uri then Some (new_source uri) else find_raw k (source_tree w))"
    using find_raw_insert [OF assms(2, 1), of "new_source uri"] None m(1) by simp_all
  have t: "ordered ?t" and f: "\<And>k. find_raw k ?t = (if k = uri then Some ?s else find_raw k (source_tree w))"
    using i find_raw_put_other [of _ ?s] by (auto simp: find_raw_put)
  obtain r w1 where r: "connection_complete_source P cfg c ?s ?w = (r, w1)" by fastforce
  have eq: "source_startup P cfg c uri w =
      (case r of
         Inl e \<Rightarrow> (Send_error e, c, drop_source P ?s w1)
       | Inr s \<Rightarrow>
           (let w2 = w1\<lparr>source_tree := put_source s (source_tree w1)\<rparr>
            in if rc_icy c then (Shoutcast_started uri, c, w2)
               else if bad_encoding P c then (Send_error ICECAST_ERROR_CON_UNIMPLEMENTED, c, w2)
               else (Source_started uri (status_to_send c), c, w2)))"
    using None r by (simp add: source_startup_def source_reserve_def source_find_mount_raw_def Let_def split: sum.splits)
  show ?thesis
  proof (cases r)
    case (Inl e)
    then have "w1 = ?w" "e \<noteq> ICECAST_ERROR_CON_UNIMPLEMENTED" using complete_source_cases(1) r by blast+
    moreover have "find_raw k (source_delete P s ?t) = find_raw k (source_tree w)" if "src_mount s = uri" for k s
      using find_raw_delete [OF assms(2) t, of k s] f None that by simp
    ultimately show ?thesis using assms(3) eq Inl m
      by (auto simp: drop_source_def source_clear_source_def Let_def)
  next
    case (Inr s)
    then have w1: "n_sources w < cfg_source_limit cfg" "w1 = ?w\<lparr>n_sources := n_sources w + 1\<rparr>"
      and s: "src_mount s = uri" "src_running s"
      using complete_source_cases(2) [of P cfg c ?s ?w s w1] complete_source_result [of P cfg c ?s ?w s w1] r m by auto
    have "find_raw k (put_source s ?t) = (if k = uri then Some s else find_raw k (source_tree w))" for k
    proof (cases "k = uri")
      case True
      then show ?thesis using find_raw_put_same [of s ?t] f [of uri] s(1) by simp
    next
      case False
      then show ?thesis using find_raw_put_other [of k s ?t] f [of k] s(1) by simp
    qed
    then show ?thesis using assms(3) eq Inr w1 s None by (auto simp: Let_def split: if_splits)
  qed
qed

section \<open>Examples\<close>

lemma example_tree_laws: "tree_laws (t_insert (bst_ops src_mount)) (t_delete (bst_ops src_mount))"
  using bst_ops_ok [of src_mount] by (simp add: tree_laws_def bst_ops_def)

lemma config_find_mount_empty [simp]: "config_find_mount fn [] m type = None"
  by (cases type) (simp_all add: config_find_mount_def find_default_def)

definition example_params :: conn_params where
  "example_params = \<lparr>methods = \<lparr>meth = sample_httpp, req_source = 2, req_put = 0, req_stats = 3, req_get = 1\<rparr>,
     fnmatch = (=), client_insert = (\<lambda>c cs. c # cs), source_insert = t_insert (bst_ops src_mount),
     source_delete = t_delete (bst_ops src_mount),
     who = (\<lambda>_. (None, None)), stack_at = (\<lambda>_. [2]), server_socks = [], time_now = 0, plugin_ok = (\<lambda>_. True),
     plugin_id = (\<lambda>_. 0), can_open = (\<lambda>_. False), mount_get_acl = None, config_get_acl = None,
     var_protocol = ''protocol'', encoding_identity = ''identity'', encoding_ok = (\<lambda>t. t = ''chunked'')\<rparr>"

definition example_config :: server_config where
  "example_config = \<lparr>cfg_aliases = [], cfg_mounts = [], cfg_authstack = [2], cfg_source_limit = 2,
     cfg_shoutcast_mount = ''/stream'', cfg_listen_sock = [],
     cfg_settings = \<lparr>cfg_queue_size_limit = 0, cfg_source_timeout = 10, cfg_burst_size = 0, cfg_hostname = ''localhost'',
       cfg_port = 8000, cfg_webroot_dir = ''/web''\<rparr>\<rparr>"

definition example_rclient :: "nat \<Rightarrow> (string \<Rightarrow> string option) \<Rightarrow> rclient" where
  "example_rclient method headers = \<lparr>getvar = headers, get_query_param = (\<lambda>_. None), rc_req_type = method,
     rc_username = None, rc_password = None, rc_role = None, rc_acl = None, rc_mode = OMODE_DEFAULT,
     rc_admin_command = -1, rc_icy = False, rc_tlsmode = ICECAST_TLSMODE_DISABLED, rc_tls = False, rc_serversock = 0,
     rc_discon_time = 0, rc_listener = \<lparr>con_id = 1, con_error = False, respcode = 0, clnt_check = Format_check_http_buffer,
       clnt_refbuf = None, clnt_intro_offset = 0\<rparr>\<rparr>"

definition empty_world :: world where
  "empty_world = \<lparr>source_tree = Leaf, n_sources = 0, stats_inc = []\<rparr>"

definition open_acl :: acl where
  "open_acl = \<lparr>refcount = 1, acl_method = replicate 4 ACL_POLICY_ALLOW, admin_commands = [],
     admin_command_policy = ACL_POLICY_DENY, web_policy = ACL_POLICY_ALLOW, max_connection_duration = -1,
     max_connections_per_user = 0\<rparr>"

theorem only_authenticated_clients_get_in_witness:
  "let c = (example_rclient 1 (\<lambda>_. None))\<lparr>rc_acl := Some open_acl\<rparr>
   in fst (callback example_params example_config Authed c ''/file'' AUTH_OK empty_world) = Done (Serve_file ''/file'')
      \<and> acl_test_method sample_httpp (rc_acl c) 1 = ACL_POLICY_ALLOW \<and> acl_test_web (rc_acl c) = ACL_POLICY_ALLOW"
proof -
  let ?c = "(example_rclient 1 (\<lambda>_. None))\<lparr>rc_acl := Some open_acl\<rparr>"
  have x: "util_check_valid_extension (Some ''/file'') \<noteq> XSLT_CONTENT" by code_simp
  have s: "source_find_mount fn [] (Some u) Leaf = None" for fn u
    by (simp add: source_find_mount_def MAX_FALLBACK_DEPTH_def numeral_eq_Suc source_find_mount_raw_def)
  have "callback example_params example_config Authed ?c ''/file'' AUTH_OK empty_world =
      (Done (Serve_file ''/file''), ?c, inc ''client_connections'' empty_world)"
    using x s by (simp add: callback_def authed_def handle_authed_client_def handle_get_request_def Let_def inc_def
        example_params_def example_config_def example_rclient_def empty_world_def acl_test_method_def acl_test_web_def
        open_acl_def sample_httpp_def starts_with_def)
  from this only_authenticated_clients_get_in [THEN conjunct1, of example_params example_config Authed ?c "''/file''" AUTH_OK empty_world]
  show ?thesis by (simp add: Let_def) (simp add: example_params_def example_rclient_def)
qed

theorem authentication_order_witness:
  "run_auth example_auths example_params example_config ''/file'' 3
     (handle_authentication example_params example_config (example_rclient 1 (\<lambda>_. None)) ''/file'' empty_world) \<noteq> None
   \<and> run_auth example_auths example_params (example_config\<lparr>cfg_authstack := []\<rparr>) ''/file'' 99
     (handle_authentication example_params (example_config\<lparr>cfg_authstack := []\<rparr>) (example_rclient 1 (\<lambda>_. None)) ''/file'' empty_world) = None"
proof -
  have m: "mount_stack example_params (example_config\<lparr>cfg_authstack := s\<rparr>) (example_rclient 1 (\<lambda>_. None)) ''/file'' type = None" for s type
    by (simp add: mount_stack_def find_non_admin_mount_def example_config_def example_rclient_def
        admin_get_command_type_def admin_get_handler_def Let_def)
  then have st: "stacks example_params (example_config\<lparr>cfg_authstack := s\<rparr>) (example_rclient 1 (\<lambda>_. None)) ''/file'' = [s]" for s
    by (simp add: stacks_def)
  have c2: "example_config\<lparr>cfg_authstack := [2]\<rparr> = example_config" by (simp add: example_config_def)
  have st2: "stacks example_params example_config (example_rclient 1 (\<lambda>_. None)) ''/file'' = [[2]]"
    using st [of "[2]"] c2 by simp
  have "immediate (example_auths 2)" by (simp add: example_auths_def)
  with st2 authentication_order [of example_auths example_params example_config "''/file''" "example_rclient 1 (\<lambda>_. None)" empty_world 0]
  have a: "run_auth example_auths example_params example_config ''/file'' 3
     (handle_authentication example_params example_config (example_rclient 1 (\<lambda>_. None)) ''/file'' empty_world) \<noteq> None"
    by (simp add: finish_def)
  show ?thesis using a st [of "[]"]
    authentication_order [of example_auths example_params "example_config\<lparr>cfg_authstack := []\<rparr>" "''/file''" "example_rclient 1 (\<lambda>_. None)" empty_world 99]
    by simp
qed


text \<open>A source whose transfer encoding is unknown: the client gets the error, the mountpoint stays taken.\<close>

definition gzip_source :: rclient where
  "gzip_source = example_rclient 2 [''transfer-encoding'' \<mapsto> ''gzip'']"

theorem source_start_all_or_nothing_witness:
  "\<exists>w' s. source_startup example_params example_config gzip_source ''/live'' empty_world
      = (Send_error ICECAST_ERROR_CON_UNIMPLEMENTED, gzip_source, w')
    \<and> n_sources w' = 1 \<and> find_raw ''/live'' (source_tree w') = Some s \<and> src_running s"
proof -
  obtain a c w' where r: "source_startup example_params example_config gzip_source ''/live'' empty_world = (a, c, w')"
    by (metis prod_cases3)
  have b: "bad_encoding example_params gzip_source"
    by (simp add: bad_encoding_def gzip_source_def example_rclient_def example_params_def strcaseeq_def)
  have ac: "a = Send_error ICECAST_ERROR_CON_UNIMPLEMENTED \<and> c = gzip_source"
    using r b by (auto simp: source_startup_def source_reserve_def source_find_mount_raw_def empty_world_def Let_def
        connection_complete_source_def gzip_source_def example_rclient_def example_params_def example_config_def
        split: prod.splits)
  have "ordered (source_tree empty_world)" "tree_laws (source_insert example_params) (source_delete example_params)"
    using example_tree_laws by (simp_all add: empty_world_def example_params_def)
  from source_start_all_or_nothing [OF this r] ac r show ?thesis by (auto simp: empty_world_def)
qed

end
