(* ===== verification/Stats.thy ===== *)
theory Stats
  imports String_Tree Interfaces
begin

text \<open>
  Statistics (\<^verbatim>\<open>src/src/stats.c\<close>): events are queued by every part of the server and applied by one
  thread to two search trees, the global statistics and those of each mountpoint. Listeners get a
  copy of each event after it was applied, on top of the state at the time they registered.

  The AVL trees come from a library, \<open>node_ops\<close> and \<open>source_ops\<close> are its operations. \<open>utf8\<close> is the check for
  UTF-8 of the XML library. Where the code passes NULL on to \<^verbatim>\<open>strdup\<close> or \<^verbatim>\<open>strcmp\<close>, or adds beyond
  the range of \<^verbatim>\<open>int\<close>, the model stops with a fault.
\<close>

section \<open>Definitions\<close>

datatype stats_action =
  STATS_EVENT_SET | STATS_EVENT_INC | STATS_EVENT_DEC | STATS_EVENT_ADD | STATS_EVENT_SUB
| STATS_EVENT_REMOVE | STATS_EVENT_HIDDEN

record stats_node =
  st_name :: string
  st_value :: string
  st_hidden :: bool

record stats_event =
  ev_source :: "string option"
  ev_name :: "string option"
  ev_value :: "string option"
  ev_hidden :: bool
  ev_action :: stats_action

record stats_source =
  ss_source :: string
  ss_hidden :: bool
  ss_tree :: "stats_node tree"

record stats =
  global_tree :: "stats_node tree"
  stats_sources :: "stats_source tree"

record stats_lib =
  node_ops :: "stats_node tree_ops"
  source_ops :: "stats_source tree_ops"

subsection \<open>Events\<close>

definition build_event :: "string option \<Rightarrow> string option \<Rightarrow> string option \<Rightarrow> stats_event" where
  "build_event source name val =
     \<lparr>ev_source = source, ev_name = name, ev_value = val, ev_hidden = False,
      ev_action = (if val = None then STATS_EVENT_REMOVE else STATS_EVENT_SET)\<rparr>"

text \<open>The events the functions of the interface queue; None when they queue none.\<close>

definition stats_event_set :: "(string \<Rightarrow> bool) \<Rightarrow> string option \<Rightarrow> string option \<Rightarrow> string option \<Rightarrow> stats_event option" where
  "stats_event_set utf8 source name val =
     (case val of
        Some v \<Rightarrow> if utf8 v then Some (build_event source name val) else None
      | None \<Rightarrow> Some (build_event source name None))"

definition stats_event_hidden :: "string option \<Rightarrow> string option \<Rightarrow> int \<Rightarrow> stats_event" where
  "stats_event_hidden source name hide =
     (build_event source name (if hide \<noteq> 0 then Some [] else None))\<lparr>ev_action := STATS_EVENT_HIDDEN\<rparr>"

text \<open>The formatted text has room in 1024 bytes or is dropped.\<close>

definition stats_event_args :: "(string \<Rightarrow> bool) \<Rightarrow> string option \<Rightarrow> string option \<Rightarrow> string \<Rightarrow> stats_event option" where
  "stats_event_args utf8 source name text =
     (if name = None then None
      else if length text \<ge> 1024 then None
      else stats_event_set utf8 source name (Some text))"

definition stats_event_inc :: "string option \<Rightarrow> string option \<Rightarrow> stats_event" where
  "stats_event_inc source name = (build_event source name None)\<lparr>ev_action := STATS_EVENT_INC\<rparr>"

definition stats_event_dec :: "string option \<Rightarrow> string option \<Rightarrow> stats_event" where
  "stats_event_dec source name = (build_event source name None)\<lparr>ev_action := STATS_EVENT_DEC\<rparr>"

text \<open>A number printed into 16 bytes.\<close>

definition print16 :: "int \<Rightarrow> string" where
  "print16 v = take 15 (show_int v)"

definition stats_event_add :: "string option \<Rightarrow> string option \<Rightarrow> u64 \<Rightarrow> stats_event" where
  "stats_event_add source name v =
     (build_event source name None)\<lparr>ev_value := Some (print16 (uint v)), ev_action := STATS_EVENT_ADD\<rparr>"

definition stats_event_sub :: "string option \<Rightarrow> string option \<Rightarrow> u64 \<Rightarrow> stats_event" where
  "stats_event_sub source name v =
     (build_event source name None)\<lparr>ev_value := Some (print16 (uint v)), ev_action := STATS_EVENT_SUB\<rparr>"

subsection \<open>Lookups\<close>

definition find_node :: "stats_node tree \<Rightarrow> string \<Rightarrow> stats_node option" where
  "find_node t name = find_in st_name name t"

definition find_source :: "stats_source tree \<Rightarrow> string \<Rightarrow> stats_source option" where
  "find_source t source = find_in ss_source source t"

definition stats_get_value :: "stats \<Rightarrow> string option \<Rightarrow> string \<Rightarrow> string option" where
  "stats_get_value st source name =
     (case source of
        None \<Rightarrow> map_option st_value (find_node (global_tree st) name)
      | Some s \<Rightarrow>
          (case find_source (stats_sources st) s of
             None \<Rightarrow> None
           | Some src \<Rightarrow> map_option st_value (find_node (ss_tree src) name)))"

subsection \<open>Applying an event\<close>

text \<open>Addition of two \<^verbatim>\<open>int\<close>, and the subtraction of two 64-bit numbers.\<close>

definition int_add :: "int \<Rightarrow> int \<Rightarrow> fault + int" where
  "int_add a b = (if - (2 ^ 31) \<le> a + b \<and> a + b < 2 ^ 31 then Inr (a + b) else Inl Int_overflow)"

definition int64_sub :: "int \<Rightarrow> int \<Rightarrow> fault + int" where
  "int64_sub a b = (if - (2 ^ 63) \<le> a - b \<and> a - b < 2 ^ 63 then Inr (a - b) else Inl Int_overflow)"

definition atoll :: "string \<Rightarrow> int" where
  "atoll s = fst (strtol s)"

text \<open>The new number; \<open>val\<close> is the value of the event.\<close>

definition changed_number :: "stats_action \<Rightarrow> string \<Rightarrow> string option \<Rightarrow> fault + int" where
  "changed_number act old val =
     (case act of
        STATS_EVENT_INC \<Rightarrow> int_add (atoi old) 1
      | STATS_EVENT_DEC \<Rightarrow> int_add (atoi old) (-1)
      | STATS_EVENT_ADD \<Rightarrow> (case val of None \<Rightarrow> Inl Null_deref | Some v \<Rightarrow> int_add (atoi old) (atoi v))
      | STATS_EVENT_SUB \<Rightarrow> (case val of None \<Rightarrow> Inl Null_deref | Some v \<Rightarrow> int64_sub (atoll old) (atoll v))
      | _ \<Rightarrow> Inr 0)"

definition modify_node_event :: "stats_node \<Rightarrow> stats_event \<Rightarrow> fault + stats_node \<times> stats_event" where
  "modify_node_event node event =
     (if ev_action event = STATS_EVENT_HIDDEN then Inr (node\<lparr>st_hidden := (ev_value event \<noteq> None)\<rparr>, event)
      else if ev_action event \<noteq> STATS_EVENT_SET then
        (case changed_number (ev_action event) (st_value node) (ev_value event) of
           Inl f \<Rightarrow> Inl f
         | Inr v \<Rightarrow>
             (let str = print16 v
              in Inr (node\<lparr>st_value := str\<rparr>,
                      if ev_value event = None then event\<lparr>ev_value := Some str\<rparr> else event)))
      else
        (case ev_value event of
           None \<Rightarrow> Inl Null_deref
         | Some v \<Rightarrow> Inr (node\<lparr>st_value := v\<rparr>, event)))"

definition process_global_event :: "stats_lib \<Rightarrow> stats_event \<Rightarrow> stats \<Rightarrow> fault + stats \<times> stats_event" where
  "process_global_event lib event st =
     (case ev_name event of
        None \<Rightarrow> Inl Null_deref
      | Some name \<Rightarrow>
          (case find_node (global_tree st) name of
             Some node \<Rightarrow>
               if ev_action event = STATS_EVENT_REMOVE
               then Inr (st\<lparr>global_tree := t_delete (node_ops lib) node (global_tree st)\<rparr>, event)
               else
                 (case modify_node_event node event of
                    Inl f \<Rightarrow> Inl f
                  | Inr (node, event) \<Rightarrow> Inr (st\<lparr>global_tree := put_in st_name node (global_tree st)\<rparr>, event))
           | None \<Rightarrow>
               if ev_action event = STATS_EVENT_REMOVE then Inr (st, event)
               else
                 (case ev_value event of
                    None \<Rightarrow> Inl Null_deref
                  | Some v \<Rightarrow>
                      Inr (st\<lparr>global_tree := t_insert (node_ops lib) \<lparr>st_name = name, st_value = v, st_hidden = False\<rparr>
                                (global_tree st)\<rparr>, event))))"

text \<open>The part of the function for an event that names a statistic.\<close>

definition source_node_event ::
    "stats_lib \<Rightarrow> stats_event \<Rightarrow> string \<Rightarrow> stats_source \<Rightarrow> fault + stats_source \<times> stats_event" where
  "source_node_event lib event name snode =
     (case find_node (ss_tree snode) name of
        None \<Rightarrow>
          if ev_action event = STATS_EVENT_REMOVE then Inr (snode, event)
          else
            (case ev_value event of
               Some v \<Rightarrow>
                 Inr (snode\<lparr>ss_tree := t_insert (node_ops lib) \<lparr>st_name = name, st_value = v, st_hidden = ss_hidden snode\<rparr>
                              (ss_tree snode)\<rparr>, event)
             | None \<Rightarrow> Inr (snode, event))
      | Some node \<Rightarrow>
          if ev_action event = STATS_EVENT_REMOVE
          then Inr (snode\<lparr>ss_tree := t_delete (node_ops lib) node (ss_tree snode)\<rparr>, event)
          else
            (case modify_node_event node event of
               Inl f \<Rightarrow> Inl f
             | Inr (node, event) \<Rightarrow> Inr (snode\<lparr>ss_tree := put_in st_name node (ss_tree snode)\<rparr>, event)))"

definition hide_source :: "bool \<Rightarrow> stats_source \<Rightarrow> stats_source" where
  "hide_source h snode = snode\<lparr>ss_hidden := h, ss_tree := map_tree (\<lambda>n. n\<lparr>st_hidden := h\<rparr>) (ss_tree snode)\<rparr>"

definition process_source_event :: "stats_lib \<Rightarrow> string \<Rightarrow> stats_event \<Rightarrow> stats \<Rightarrow> fault + stats \<times> stats_event" where
  "process_source_event lib source event st =
     (let found = find_source (stats_sources st) source
      in if found = None \<and> ev_action event = STATS_EVENT_REMOVE then Inr (st, event)
         else
           (let (snode, st) =
              (case found of
                 Some s \<Rightarrow> (s, st)
               | None \<Rightarrow>
                   (let s = \<lparr>ss_source = source, ss_hidden = (ev_action event = STATS_EVENT_HIDDEN), ss_tree = Leaf\<rparr>
                    in (s, st\<lparr>stats_sources := t_insert (source_ops lib) s (stats_sources st)\<rparr>)))
            in case ev_name event of
                 Some name \<Rightarrow>
                   (case source_node_event lib event name snode of
                      Inl f \<Rightarrow> Inl f
                    | Inr (snode, event) \<Rightarrow> Inr (st\<lparr>stats_sources := put_in ss_source snode (stats_sources st)\<rparr>, event))
               | None \<Rightarrow>
                   if ev_action event = STATS_EVENT_HIDDEN
                   then Inr (st\<lparr>stats_sources := put_in ss_source (hide_source (ev_value event \<noteq> None) snode) (stats_sources st)\<rparr>, event)
                   else if ev_action event = STATS_EVENT_REMOVE
                   then Inr (st\<lparr>stats_sources := t_delete (source_ops lib) snode (stats_sources st)\<rparr>, event)
                   else Inr (st, event)))"

definition process_event :: "stats_lib \<Rightarrow> stats_event \<Rightarrow> stats \<Rightarrow> fault + stats \<times> stats_event" where
  "process_event lib event st =
     (case ev_source event of
        None \<Rightarrow> process_global_event lib event st
      | Some source \<Rightarrow> process_source_event lib source event st)"

subsection \<open>The thread and its listeners\<close>

record stats_world =
  event_queue :: "stats_event list"
  running_stats :: stats
  listeners :: "(nat \<times> stats_event list) list"

definition queue_global_event :: "stats_event \<Rightarrow> stats_world \<Rightarrow> stats_world" where
  "queue_global_event event w = w\<lparr>event_queue := event_queue w @ [event]\<rparr>"

text \<open>The action is not copied; the field of the new event is zero.\<close>

definition copy_event :: "stats_event \<Rightarrow> stats_event" where
  "copy_event event = event\<lparr>ev_action := STATS_EVENT_SET\<rparr>"

definition stats_thread_round :: "stats_lib \<Rightarrow> stats_world \<Rightarrow> fault + stats_world" where
  "stats_thread_round lib w =
     (case event_queue w of
        [] \<Rightarrow> Inr w
      | event # rest \<Rightarrow>
          (case process_event lib event (running_stats w) of
             Inl f \<Rightarrow> Inl f
           | Inr (st, event) \<Rightarrow>
               Inr (w\<lparr>event_queue := rest, running_stats := st,
                      listeners := map (\<lambda>(i, q). (i, q @ [copy_event event])) (listeners w)\<rparr>)))"

definition make_event_from_node :: "string option \<Rightarrow> stats_node \<Rightarrow> stats_event" where
  "make_event_from_node source node =
     \<lparr>ev_source = source, ev_name = Some (st_name node), ev_value = Some (st_value node),
      ev_hidden = st_hidden node, ev_action = STATS_EVENT_SET\<rparr>"

definition current_events :: "stats \<Rightarrow> stats_event list" where
  "current_events st =
     map (make_event_from_node None) (inorder (global_tree st))
     @ concat (map (\<lambda>s. map (make_event_from_node (Some (ss_source s))) (inorder (ss_tree s))) (inorder (stats_sources st)))"

definition register_listener :: "nat \<Rightarrow> stats_world \<Rightarrow> stats_world" where
  "register_listener i w = w\<lparr>listeners := (i, current_events (running_stats w)) # listeners w\<rparr>"

fun unregister :: "nat \<Rightarrow> (nat \<times> stats_event list) list \<Rightarrow> (nat \<times> stats_event list) list" where
  "unregister i [] = []"
| "unregister i ((j, q) # ls) = (if j = i then ls else (j, q) # unregister i ls)"

text \<open>The line a listener gets; a line of 200 characters or more is not sent.\<close>

definition send_event_to_client :: "stats_event \<Rightarrow> string option" where
  "send_event_to_client event =
     (let line = ''EVENT '' @ (case ev_source event of Some s \<Rightarrow> s | None \<Rightarrow> ''global'') @ '' ''
          @ (case ev_name event of Some n \<Rightarrow> n | None \<Rightarrow> ''null'') @ '' ''
          @ (case ev_value event of Some v \<Rightarrow> v | None \<Rightarrow> ''null'') @ [CHR 0x0A]
      in if length line < 200 then Some line else None)"

subsection \<open>Listings\<close>

definition STREAMLIST_BLKSIZE :: nat where
  "STREAMLIST_BLKSIZE = 4096"

definition stream_line :: "string \<Rightarrow> string" where
  "stream_line source = source @ [CHR 0x0D, CHR 0x0A]"

text \<open>
  The loop over the mountpoints with the finished blocks, the current block and what remains of it
  (an \<^verbatim>\<open>unsigned int\<close>). \<^verbatim>\<open>snprintf\<close> writes at most what remains, with a NUL, and returns the full length.
\<close>

fun streams_loop :: "stats_source list \<Rightarrow> string list \<times> string \<times> u32 \<Rightarrow> string list \<times> string \<times> u32" where
  "streams_loop [] acc = acc"
| "streams_loop (s # ss) (blocks, cur, remaining) =
     streams_loop ss
       (if ss_hidden s then (blocks, cur, remaining)
        else
          (let (blocks, cur, remaining) =
             (if remaining \<le> of_nat (length (ss_source s) + 3)
              then (blocks @ [take (STREAMLIST_BLKSIZE - unat remaining) cur], [], of_nat STREAMLIST_BLKSIZE)
              else (blocks, cur, remaining));
               line = stream_line (ss_source s)
           in (blocks, cur @ take (unat remaining - 1) line, remaining - of_nat (length line))))"

definition stats_get_streams :: "stats \<Rightarrow> string list" where
  "stats_get_streams st =
     (case streams_loop (inorder (stats_sources st)) ([], [], of_nat STREAMLIST_BLKSIZE) of
        (blocks, cur, remaining) \<Rightarrow> blocks @ [take (STREAMLIST_BLKSIZE - unat remaining) cur])"

text \<open>\<open>reserved\<close> tells the mountpoints that have a source.\<close>

fun clear_virtual_loop :: "stats_lib \<Rightarrow> (string \<Rightarrow> bool) \<Rightarrow> stats_source list \<Rightarrow> stats_source tree \<Rightarrow> stats_source tree" where
  "clear_virtual_loop lib reserved [] t = t"
| "clear_virtual_loop lib reserved (s # ss) t =
     clear_virtual_loop lib reserved ss (if reserved (ss_source s) then t else t_delete (source_ops lib) s t)"

definition stats_clear_virtual_mounts :: "stats_lib \<Rightarrow> (string \<Rightarrow> bool) \<Rightarrow> stats \<Rightarrow> stats" where
  "stats_clear_virtual_mounts lib reserved st =
     st\<lparr>stats_sources := clear_virtual_loop lib reserved (inorder (stats_sources st)) (stats_sources st)\<rparr>"

section \<open>The values the trees hold\<close>

definition lib_ok :: "stats_lib \<Rightarrow> bool" where
  "lib_ok lib \<longleftrightarrow> ops_ok st_name (node_ops lib) \<and> ops_ok ss_source (source_ops lib)"

definition stats_wf :: "stats \<Rightarrow> bool" where
  "stats_wf st \<longleftrightarrow> in_order st_name (global_tree st) \<and> in_order ss_source (stats_sources st)
     \<and> (\<forall>s\<in>set_tree (stats_sources st). in_order st_name (ss_tree s))"

definition values_of :: "stats_node tree \<Rightarrow> string \<Rightarrow> string option" where
  "values_of t n = map_option st_value (find_in st_name n t)"

definition source_values :: "stats_source tree \<Rightarrow> string \<Rightarrow> string \<Rightarrow> string option" where
  "source_values t s = (case find_in ss_source s t of None \<Rightarrow> Map.empty | Some x \<Rightarrow> values_of (ss_tree x))"

lemma get_value_views:
  "stats_get_value st None = values_of (global_tree st)"
  "stats_get_value st (Some s) = source_values (stats_sources st) s"
  by (auto simp: stats_get_value_def values_of_def source_values_def find_node_def find_source_def
      split: option.splits)

lemma values_of_Leaf [simp]: "values_of Leaf = Map.empty"
  by (simp add: values_of_def fun_eq_iff)

lemma values_insert:
  "ops_ok st_name ops \<Longrightarrow> in_order st_name t \<Longrightarrow> find_in st_name (st_name x) t = None \<Longrightarrow>
     values_of (t_insert ops x t) = (values_of t)(st_name x \<mapsto> st_value x)"
  by (simp add: values_of_def fun_eq_iff find_in_insert)

lemma values_delete:
  "ops_ok st_name ops \<Longrightarrow> in_order st_name t \<Longrightarrow> values_of (t_delete ops x t) = (values_of t)(st_name x := None)"
  by (simp add: values_of_def fun_eq_iff find_in_delete)

lemma values_put:
  "find_in st_name (st_name x) t \<noteq> None \<Longrightarrow> values_of (put_in st_name x t) = (values_of t)(st_name x \<mapsto> st_value x)"
  by (auto simp: values_of_def fun_eq_iff find_in_put)

lemma values_hide: "values_of (map_tree (\<lambda>n. n\<lparr>st_hidden := h\<rparr>) t) = values_of t"
proof
  fix n
  have "find_in st_name n (map_tree (\<lambda>n. n\<lparr>st_hidden := h\<rparr>) t) = map_option (\<lambda>n. n\<lparr>st_hidden := h\<rparr>) (find_in st_name n t)"
    by (rule find_in_map) simp
  then show "values_of (map_tree (\<lambda>n. n\<lparr>st_hidden := h\<rparr>) t) n = values_of t n"
    by (simp add: values_of_def option.map_comp comp_def)
qed

lemma source_insert_values:
  "ops_ok ss_source ops \<Longrightarrow> in_order ss_source t \<Longrightarrow> find_in ss_source (ss_source x) t = None \<Longrightarrow>
     source_values (t_insert ops x t) = (source_values t)(ss_source x := values_of (ss_tree x))"
  by (simp add: source_values_def fun_eq_iff find_in_insert)

lemma source_delete_values:
  "ops_ok ss_source ops \<Longrightarrow> in_order ss_source t \<Longrightarrow>
     source_values (t_delete ops x t) = (source_values t)(ss_source x := Map.empty)"
  by (simp add: source_values_def fun_eq_iff find_in_delete)

lemma source_put_values:
  "find_in ss_source (ss_source x) t \<noteq> None \<Longrightarrow>
     source_values (put_in ss_source x t) = (source_values t)(ss_source x := values_of (ss_tree x))"
  by (auto simp: source_values_def fun_eq_iff find_in_put)

section \<open>What an event does\<close>

text \<open>
  The value an event leaves for the statistic it names, from the value before: a statistic that does
  not exist yet gets the value of the event whatever the action; without a value a global event
  faults and the event of a source does nothing.
\<close>

definition new_value :: "stats_event \<Rightarrow> string option \<Rightarrow> fault + string option" where
  "new_value e cur =
     (if ev_action e = STATS_EVENT_REMOVE then Inr None
      else
        (case cur of
           None \<Rightarrow>
             (case ev_value e of
                Some v \<Rightarrow> Inr (Some v)
              | None \<Rightarrow> if ev_source e = None then Inl Null_deref else Inr None)
         | Some old \<Rightarrow>
             if ev_action e = STATS_EVENT_HIDDEN then Inr (Some old)
             else if ev_action e = STATS_EVENT_SET
             then (case ev_value e of None \<Rightarrow> Inl Null_deref | Some v \<Rightarrow> Inr (Some v))
             else (case changed_number (ev_action e) old (ev_value e) of
                     Inl f \<Rightarrow> Inl f
                   | Inr v \<Rightarrow> Inr (Some (print16 v)))))"

text \<open>The event after it was applied, as the listeners get it.\<close>

definition told :: "stats_event \<Rightarrow> string option \<Rightarrow> stats_event" where
  "told e v =
     (if ev_value e = None \<and> ev_action e \<noteq> STATS_EVENT_HIDDEN \<and> ev_action e \<noteq> STATS_EVENT_REMOVE
      then e\<lparr>ev_value := v\<rparr> else e)"

lemma modify_spec:
  assumes "ev_action e \<noteq> STATS_EVENT_REMOVE"
  shows "case modify_node_event node e of
     Inl f \<Rightarrow> new_value e (Some (st_value node)) = Inl f
   | Inr (node', e') \<Rightarrow> st_name node' = st_name node
       \<and> new_value e (Some (st_value node)) = Inr (Some (st_value node')) \<and> e' = told e (Some (st_value node'))"
  using assms by (auto simp: modify_node_event_def new_value_def told_def Let_def split: option.splits sum.splits)

text \<open>What both kinds of event do to the tree of their statistic.\<close>

definition tree_event :: "stats_lib \<Rightarrow> stats_event \<Rightarrow> string \<Rightarrow> bool \<Rightarrow> stats_node tree \<Rightarrow> fault + stats_node tree \<times> stats_event" where
  "tree_event lib e name hide t =
     (case find_node t name of
        None \<Rightarrow>
          if ev_action e = STATS_EVENT_REMOVE then Inr (t, e)
          else
            (case ev_value e of
               Some v \<Rightarrow> Inr (t_insert (node_ops lib) \<lparr>st_name = name, st_value = v, st_hidden = hide\<rparr> t, e)
             | None \<Rightarrow> if ev_source e = None then Inl Null_deref else Inr (t, e))
      | Some node \<Rightarrow>
          if ev_action e = STATS_EVENT_REMOVE then Inr (t_delete (node_ops lib) node t, e)
          else
            (case modify_node_event node e of
               Inl f \<Rightarrow> Inl f
             | Inr (node, e) \<Rightarrow> Inr (put_in st_name node t, e)))"

lemma tree_event_spec:
  assumes "lib_ok lib" and "in_order st_name t"
  shows "case tree_event lib e n hide t of
     Inl f \<Rightarrow> new_value e (values_of t n) = Inl f
   | Inr (t', e') \<Rightarrow> in_order st_name t'
       \<and> (\<exists>v. new_value e (values_of t n) = Inr v \<and> values_of t' = (values_of t)(n := v) \<and> e' = told e v)"
proof (cases "find_in st_name n t")
  case None
  have o: "in_order st_name t" "ops_ok st_name (node_ops lib)" using assms by (simp_all add: lib_ok_def)
  have v: "values_of t n = None" by (simp add: values_of_def None)
  show ?thesis
  proof (cases "ev_action e = STATS_EVENT_REMOVE \<or> ev_value e = None")
    case True
    then show ?thesis using None v assms by (auto simp: tree_event_def new_value_def told_def find_node_def fun_eq_iff)
  next
    case False
    then obtain x where x: "ev_value e = Some x" by blast
    let ?n = "\<lparr>st_name = n, st_value = x, st_hidden = hide\<rparr>"
    have "in_order st_name (t_insert (node_ops lib) ?n t)"
      "values_of (t_insert (node_ops lib) ?n t) = (values_of t)(n \<mapsto> x)"
      using find_in_insert(1) [OF o(2, 1), of ?n] values_insert [OF o(2, 1), of ?n] None by simp_all
    then show ?thesis using False x None v by (simp add: tree_event_def new_value_def told_def find_node_def)
  qed
next
  case (Some node)
  have o: "in_order st_name t" "ops_ok st_name (node_ops lib)" using assms by (simp_all add: lib_ok_def)
  have k: "st_name node = n" using find_in_key [OF Some] .
  have v: "values_of t n = Some (st_value node)" by (simp add: values_of_def Some)
  show ?thesis
  proof (cases "ev_action e = STATS_EVENT_REMOVE")
    case True
    have "in_order st_name (t_delete (node_ops lib) node t)"
      "values_of (t_delete (node_ops lib) node t) = (values_of t)(n := None)"
      using find_in_delete(1) [OF o(2, 1)] values_delete [OF o(2, 1), of node] k by simp_all
    then show ?thesis using True Some by (simp add: tree_event_def new_value_def told_def find_node_def)
  next
    case False
    note m = modify_spec [OF False, of node]
    show ?thesis
    proof (cases "modify_node_event node e")
      case (Inl f)
      then show ?thesis using m v Some False by (simp add: tree_event_def find_node_def)
    next
      case (Inr ne)
      obtain node' e' where ne: "ne = (node', e')" by (cases ne)
      have n': "st_name node' = n" "new_value e (Some (st_value node)) = Inr (Some (st_value node'))"
        "e' = told e (Some (st_value node'))" using m Inr ne k by simp_all
      have "values_of (put_in st_name node' t) = (values_of t)(n \<mapsto> st_value node')"
        using values_put [of node' t] n'(1) Some by simp
      then show ?thesis using Inr ne n' v Some False o by (simp add: tree_event_def find_node_def)
    qed
  qed
qed

lemma global_event_tree:
  "ev_source e = None \<Longrightarrow> ev_name e = Some n \<Longrightarrow> process_global_event lib e st =
     (case tree_event lib e n False (global_tree st) of
        Inl f \<Rightarrow> Inl f | Inr (t, e) \<Rightarrow> Inr (st\<lparr>global_tree := t\<rparr>, e))"
  by (auto simp: process_global_event_def tree_event_def split: option.splits sum.splits)

lemma source_event_tree:
  "ev_source e \<noteq> None \<Longrightarrow> source_node_event lib e n snode =
     (case tree_event lib e n (ss_hidden snode) (ss_tree snode) of
        Inl f \<Rightarrow> Inl f | Inr (t, e) \<Rightarrow> Inr (snode\<lparr>ss_tree := t\<rparr>, e))"
  by (auto simp: source_node_event_def tree_event_def split: option.splits sum.splits)

text \<open>The source an event is about, and the tree with that source in it.\<close>

definition with_source :: "stats_lib \<Rightarrow> string \<Rightarrow> bool \<Rightarrow> stats \<Rightarrow> stats_source \<times> stats" where
  "with_source lib source hide st =
     (case find_source (stats_sources st) source of
        Some s \<Rightarrow> (s, st)
      | None \<Rightarrow>
          (let s = \<lparr>ss_source = source, ss_hidden = hide, ss_tree = Leaf\<rparr>
           in (s, st\<lparr>stats_sources := t_insert (source_ops lib) s (stats_sources st)\<rparr>)))"

lemma with_source_spec:
  assumes "lib_ok lib" and "stats_wf st" and "with_source lib source hide st = (snode, st')"
  shows "stats_wf st' \<and> global_tree st' = global_tree st \<and> find_in ss_source source (stats_sources st') = Some snode
    \<and> source_values (stats_sources st') = source_values (stats_sources st)
    \<and> ss_source snode = source \<and> in_order st_name (ss_tree snode)
    \<and> values_of (ss_tree snode) = source_values (stats_sources st) source"
proof (cases "find_in ss_source source (stats_sources st)")
  case (Some s)
  then have "s \<in> set_tree (stats_sources st)" "ss_source s = source"
    using find_in_Some [of ss_source "stats_sources st" source s] assms(2) by (auto simp: stats_wf_def)
  then show ?thesis using Some assms(2, 3)
    by (auto simp: with_source_def find_source_def stats_wf_def source_values_def)
next
  case None
  let ?s = "\<lparr>ss_source = source, ss_hidden = hide, ss_tree = Leaf\<rparr>"
  have o: "ops_ok ss_source (source_ops lib)" "in_order ss_source (stats_sources st)"
    using assms(1, 2) by (simp_all add: lib_ok_def stats_wf_def)
  have eq: "snode = ?s" "st' = st\<lparr>stats_sources := t_insert (source_ops lib) ?s (stats_sources st)\<rparr>"
    using assms(3) None by (auto simp: with_source_def find_source_def Let_def)
  have ins: "set_tree (t_insert (source_ops lib) ?s (stats_sources st)) = insert ?s (set_tree (stats_sources st))"
    using o None by (simp add: ops_ok_def)
  have f: "find_in ss_source m (t_insert (source_ops lib) ?s (stats_sources st)) =
      (if m = source then Some ?s else find_in ss_source m (stats_sources st))" for m
    using find_in_insert(2) [OF o, of ?s m] None by simp
  have "source_values (t_insert (source_ops lib) ?s (stats_sources st)) = source_values (stats_sources st)"
    using None f by (auto simp: source_values_def fun_eq_iff)
  then show ?thesis using eq f ins find_in_insert(1) [OF o, of ?s] None assms(2)
    by (auto simp: stats_wf_def source_values_def)
qed

lemma put_source_spec:
  assumes "stats_wf st" and "find_in ss_source (ss_source x) (stats_sources st) \<noteq> None" and "in_order st_name (ss_tree x)"
  shows "stats_wf (st\<lparr>stats_sources := put_in ss_source x (stats_sources st)\<rparr>)"
    and "source_values (put_in ss_source x (stats_sources st)) =
      (source_values (stats_sources st))(ss_source x := values_of (ss_tree x))"
  using assms source_put_values [OF assms(2)] by (auto simp: stats_wf_def dest: set_put)

lemma delete_source_wf:
  "lib_ok lib \<Longrightarrow> stats_wf st \<Longrightarrow> stats_wf (st\<lparr>stats_sources := t_delete (source_ops lib) x (stats_sources st)\<rparr>)"
  by (auto simp: lib_ok_def stats_wf_def ops_ok_def)

lemma process_source_eq:
  assumes "ev_source e = Some source"
  shows "process_source_event lib source e st =
     (if find_source (stats_sources st) source = None \<and> ev_action e = STATS_EVENT_REMOVE then Inr (st, e)
      else
        (case with_source lib source (ev_action e = STATS_EVENT_HIDDEN) st of
           (snode, st) \<Rightarrow>
             (case ev_name e of
                Some name \<Rightarrow>
                  (case tree_event lib e name (ss_hidden snode) (ss_tree snode) of
                     Inl f \<Rightarrow> Inl f
                   | Inr (t, e) \<Rightarrow>
                       Inr (st\<lparr>stats_sources := put_in ss_source (snode\<lparr>ss_tree := t\<rparr>) (stats_sources st)\<rparr>, e))
              | None \<Rightarrow>
                  if ev_action e = STATS_EVENT_HIDDEN
                  then Inr (st\<lparr>stats_sources := put_in ss_source (hide_source (ev_value e \<noteq> None) snode) (stats_sources st)\<rparr>, e)
                  else if ev_action e = STATS_EVENT_REMOVE
                  then Inr (st\<lparr>stats_sources := t_delete (source_ops lib) snode (stats_sources st)\<rparr>, e)
                  else Inr (st, e))))"
  using assms
  by (auto simp: process_source_event_def with_source_def source_event_tree Let_def split: option.splits sum.splits prod.splits)

text \<open>The values after an event: the named statistic, or all of the source.\<close>

definition event_values ::
    "stats_event \<Rightarrow> (string option \<Rightarrow> string \<Rightarrow> string option) \<Rightarrow> fault + (string option \<Rightarrow> string \<Rightarrow> string option)" where
  "event_values e V =
     (case ev_name e of
        Some n \<Rightarrow>
          (case new_value e (V (ev_source e) n) of
             Inl f \<Rightarrow> Inl f
           | Inr v \<Rightarrow> Inr (V(ev_source e := (V (ev_source e))(n := v))))
      | None \<Rightarrow>
          if ev_source e = None then Inl Null_deref
          else if ev_action e = STATS_EVENT_REMOVE then Inr (V(ev_source e := Map.empty))
          else Inr V)"

definition told_values :: "stats_event \<Rightarrow> (string option \<Rightarrow> string \<Rightarrow> string option) \<Rightarrow> stats_event" where
  "told_values e V =
     (case ev_name e of
        Some n \<Rightarrow> (case new_value e (V (ev_source e) n) of Inl f \<Rightarrow> e | Inr v \<Rightarrow> told e v)
      | None \<Rightarrow> e)"

lemma get_value_eqI:
  assumes "values_of (global_tree st) = V None" and "\<And>s. source_values (stats_sources st) s = V (Some s)"
  shows "stats_get_value st = V"
proof
  fix s show "stats_get_value st s = V s" by (cases s) (simp_all add: get_value_views assms)
qed

lemma global_event_values:
  assumes "lib_ok lib" and "stats_wf st" and "ev_source e = None"
  shows "case process_global_event lib e st of
     Inl f \<Rightarrow> event_values e (stats_get_value st) = Inl f
   | Inr (st', e') \<Rightarrow> stats_wf st' \<and> event_values e (stats_get_value st) = Inr (stats_get_value st')
       \<and> e' = told_values e (stats_get_value st)"
proof (cases "ev_name e")
  case None
  then show ?thesis using assms by (simp add: process_global_event_def event_values_def)
next
  case (Some n)
  have "in_order st_name (global_tree st)" using assms(2) by (simp add: stats_wf_def)
  note s = tree_event_spec [OF assms(1) this, of e n False]
  show ?thesis
  proof (cases "tree_event lib e n False (global_tree st)")
    case (Inl f)
    then show ?thesis using s assms(3) Some
      by (simp add: global_event_tree event_values_def get_value_views)
  next
    case (Inr te)
    obtain t' e' where te: "te = (t', e')" by (cases te)
    obtain v where v: "in_order st_name t'" "new_value e (values_of (global_tree st) n) = Inr v"
      "values_of t' = (values_of (global_tree st))(n := v)" "e' = told e v" using s Inr te by auto
    have "stats_get_value (st\<lparr>global_tree := t'\<rparr>) =
        (stats_get_value st)(None := (stats_get_value st None)(n := v))"
      by (rule get_value_eqI) (simp_all add: get_value_views v(3))
    then show ?thesis using Inr te v assms Some
      by (simp add: global_event_tree event_values_def told_values_def get_value_views stats_wf_def)
  qed
qed

lemma source_event_values:
  assumes "lib_ok lib" and "stats_wf st" and "ev_source e = Some source"
  shows "case process_source_event lib source e st of
     Inl f \<Rightarrow> event_values e (stats_get_value st) = Inl f
   | Inr (st', e') \<Rightarrow> stats_wf st' \<and> event_values e (stats_get_value st) = Inr (stats_get_value st')
       \<and> e' = told_values e (stats_get_value st)"
proof (cases "find_source (stats_sources st) source = None \<and> ev_action e = STATS_EVENT_REMOVE")
  case True
  have "source_values (stats_sources st) source = Map.empty"
    using True by (simp add: source_values_def find_source_def)
  then have "(stats_get_value st)(Some source := Map.empty) = stats_get_value st"
    "(stats_get_value st)(Some source := (stats_get_value st (Some source))(n := None)) = stats_get_value st" for n
    by (auto simp: get_value_views fun_eq_iff)
  then show ?thesis using True assms
    by (auto simp: process_source_eq event_values_def told_values_def new_value_def told_def split: option.splits)
next
  case False
  obtain snode st1 where w: "with_source lib source (ev_action e = STATS_EVENT_HIDDEN) st = (snode, st1)" by fastforce
  note ws = with_source_spec [OF assms(1, 2) w]
  have g1: "stats_get_value st1 = stats_get_value st"
    by (rule get_value_eqI) (simp_all add: get_value_views ws)
  have put: "stats_wf (st1\<lparr>stats_sources := put_in ss_source x (stats_sources st1)\<rparr>)
      \<and> stats_get_value (st1\<lparr>stats_sources := put_in ss_source x (stats_sources st1)\<rparr>)
        = (stats_get_value st)(Some source := values_of (ss_tree x))"
    if "ss_source x = source" "in_order st_name (ss_tree x)" for x
  proof -
    have f: "find_in ss_source (ss_source x) (stats_sources st1) \<noteq> None" using ws that(1) by simp
    have "stats_get_value (st1\<lparr>stats_sources := put_in ss_source x (stats_sources st1)\<rparr>)
        = (stats_get_value st)(Some source := values_of (ss_tree x))"
      by (rule get_value_eqI)
        (use put_source_spec(2) [OF _ f that(2)] ws that in \<open>simp_all add: get_value_views\<close>)
    then show ?thesis using put_source_spec(1) [OF _ f that(2)] ws by simp
  qed
  show ?thesis
  proof (cases "ev_name e")
    case (Some n)
    note s = tree_event_spec [OF assms(1), of "ss_tree snode" e n "ss_hidden snode"]
    have val: "stats_get_value st (Some source) = values_of (ss_tree snode)" using ws by (simp add: get_value_views)
    show ?thesis
    proof (cases "tree_event lib e n (ss_hidden snode) (ss_tree snode)")
      case (Inl f)
      then show ?thesis using s ws False Some assms(3) w val by (simp add: process_source_eq event_values_def)
    next
      case (Inr te)
      obtain t' e' where te: "te = (t', e')" by (cases te)
      obtain v where v: "in_order st_name t'" "new_value e (values_of (ss_tree snode) n) = Inr v"
        "values_of t' = (values_of (ss_tree snode))(n := v)" "e' = told e v" using s Inr te ws by auto
      show ?thesis using put [of "snode\<lparr>ss_tree := t'\<rparr>"] ws v Inr te False Some assms(3) w val
        by (auto simp: process_source_eq event_values_def told_values_def)
    qed
  next
    case None
    consider "ev_action e = STATS_EVENT_HIDDEN" | "ev_action e = STATS_EVENT_REMOVE"
      | "ev_action e \<noteq> STATS_EVENT_HIDDEN" "ev_action e \<noteq> STATS_EVENT_REMOVE" by blast
    then show ?thesis
    proof cases
      case 1
      have "in_order st_name (map_tree (\<lambda>n. n\<lparr>st_hidden := ev_value e \<noteq> None\<rparr>) (ss_tree snode))"
        using ws by (subst in_order_map) simp_all
      then have h: "stats_wf (st1\<lparr>stats_sources := put_in ss_source (hide_source (ev_value e \<noteq> None) snode) (stats_sources st1)\<rparr>)"
        "stats_get_value (st1\<lparr>stats_sources := put_in ss_source (hide_source (ev_value e \<noteq> None) snode) (stats_sources st1)\<rparr>)
          = (stats_get_value st)(Some source := values_of (ss_tree snode))"
        using put [of "hide_source (ev_value e \<noteq> None) snode"] ws by (simp_all add: hide_source_def values_hide)
      have "(stats_get_value st)(Some source := values_of (ss_tree snode)) = stats_get_value st"
        using ws by (auto simp: get_value_views fun_eq_iff)
      then show ?thesis using 1 h None False assms(3) w
        by (simp add: process_source_eq event_values_def told_values_def)
    next
      case 2
      have "stats_get_value (st1\<lparr>stats_sources := t_delete (source_ops lib) snode (stats_sources st1)\<rparr>)
          = (stats_get_value st)(Some source := Map.empty)"
        using source_delete_values [of "source_ops lib" "stats_sources st1" snode] assms(1) ws
        by (intro get_value_eqI) (simp_all add: get_value_views lib_ok_def stats_wf_def)
      then show ?thesis using 2 None False assms w ws delete_source_wf [OF assms(1)]
        by (auto simp: process_source_eq event_values_def told_values_def)
    next
      case 3
      then show ?thesis using None False assms w ws g1
        by (simp add: process_source_eq event_values_def told_values_def)
    qed
  qed
qed

text \<open>
  Applying an event to the trees is the update of one value: the trees stay ordered, the named
  statistic gets the value the action computes from its old one, and no other statistic of any
  source changes. An event without a name removes all statistics of its source or changes no value.
  The thread faults exactly where that update does: for a global statistic that does not exist and an
  event without a value, and for a number beyond the range.
\<close>

theorem stats_event_is_update:
  assumes "lib_ok lib" and "stats_wf st"
  shows "case process_event lib e st of
     Inl f \<Rightarrow> event_values e (stats_get_value st) = Inl f
   | Inr (st', e') \<Rightarrow> stats_wf st' \<and> event_values e (stats_get_value st) = Inr (stats_get_value st')
       \<and> e' = told_values e (stats_get_value st)"
  using global_event_values [OF assms] source_event_values [OF assms]
  by (simp add: process_event_def split: option.splits)

section \<open>What a listener knows\<close>

text \<open>What a client makes of an event it is told, and of all of them.\<close>

definition replay :: "stats_event \<Rightarrow> (string option \<Rightarrow> string \<Rightarrow> string option) \<Rightarrow> string option \<Rightarrow> string \<Rightarrow> string option" where
  "replay e V =
     (case ev_name e of
        Some n \<Rightarrow> V(ev_source e := (V (ev_source e))(n := ev_value e))
      | None \<Rightarrow> if ev_value e = None then V(ev_source e := Map.empty) else V)"

definition mirror :: "stats_event list \<Rightarrow> string option \<Rightarrow> string \<Rightarrow> string option" where
  "mirror q = fold replay q (\<lambda>_. Map.empty)"

text \<open>The events the functions for setting, removing, increasing and decreasing build.\<close>

definition plain_event :: "stats_event \<Rightarrow> bool" where
  "plain_event e \<longleftrightarrow>
     (ev_action e = STATS_EVENT_SET \<and> ev_value e \<noteq> None \<and> ev_name e \<noteq> None
      \<or> ev_action e = STATS_EVENT_REMOVE \<and> ev_value e = None
      \<or> (ev_action e = STATS_EVENT_INC \<or> ev_action e = STATS_EVENT_DEC) \<and> ev_value e = None \<and> ev_name e \<noteq> None)"

lemma plain_events:
  "plain_event (stats_event_inc s (Some n))" "plain_event (stats_event_dec s (Some n))"
  "stats_event_set utf8 s (Some n) v = Some e \<Longrightarrow> plain_event e"
  "stats_event_set utf8 s None None = Some e \<Longrightarrow> plain_event e"
  by (auto simp: plain_event_def stats_event_inc_def stats_event_dec_def stats_event_set_def build_event_def
      split: option.splits if_splits)

lemma replay_told:
  assumes "plain_event e" and "event_values e V = Inr V'"
  shows "replay (copy_event (told_values e V)) V = V'"
proof (cases "ev_name e")
  case None
  then show ?thesis using assms
    by (auto simp: plain_event_def event_values_def told_values_def replay_def copy_event_def split: if_splits)
next
  case (Some n)
  obtain v where v: "new_value e (V (ev_source e) n) = Inr v" "V' = V(ev_source e := (V (ev_source e))(n := v))"
    using assms(2) Some by (auto simp: event_values_def split: sum.splits)
  have "ev_value (told e v) = v"
    using assms(1) v(1) by (auto simp: plain_event_def told_def new_value_def split: option.splits)
  moreover have "ev_source (told e v) = ev_source e" "ev_name (told e v) = Some n"
    using Some by (simp_all add: told_def)
  ultimately show ?thesis using v Some by (simp add: told_values_def replay_def copy_event_def)
qed

lemma find_inorder: "in_order key t \<Longrightarrow> find (\<lambda>x. key x = n) (inorder t) = find_in key n t"
proof -
  assume o: "in_order key t"
  show ?thesis
  proof (cases "find_in key n t")
    case None
    then have "\<forall>x\<in>set_tree t. key x \<noteq> n" using find_in_Some [OF o] by (metis option.distinct(1))
    then show ?thesis using None by (auto simp: find_None_iff)
  next
    case (Some x)
    then have x: "x \<in> set (inorder t)" "key x = n" using find_in_Some [OF o] by auto
    then obtain y where y: "find (\<lambda>x. key x = n) (inorder t) = Some y"
      by (cases "find (\<lambda>x. key x = n) (inorder t)") (auto simp: find_None_iff)
    then obtain k where "k < length (inorder t)" "y = inorder t ! k" "key (inorder t ! k) = n"
      by (auto simp: find_Some_iff simp del: length_inorder)
    then have "y \<in> set (inorder t)" "key y = n" by (metis nth_mem)+
    then have "find_in key n t = Some y" using find_in_Some [OF o] by simp
    then show ?thesis using Some y by simp
  qed
qed

lemma distinct_hd: "distinct (map f (x # xs)) \<Longrightarrow> y \<in> set xs \<Longrightarrow> f y \<noteq> f x"
  by (metis distinct.simps(2) image_eqI list.set_map list.simps(9))

lemma replay_nodes:
  "distinct (map st_name xs) \<Longrightarrow>
     fold replay (map (make_event_from_node s) xs) V =
       V(s := (\<lambda>n. case find (\<lambda>x. st_name x = n) xs of Some x \<Rightarrow> Some (st_value x) | None \<Rightarrow> V s n))"
proof (induction xs arbitrary: V)
  case (Cons x xs)
  have "find (\<lambda>y. st_name y = st_name x) xs = None" using distinct_hd [OF Cons.prems] by (simp add: find_None_iff)
  then show ?case using Cons by (auto simp: replay_def make_event_from_node_def fun_eq_iff split: option.splits)
qed (simp add: fun_eq_iff)

lemma replay_tree:
  assumes "in_order st_name t" and "V s = Map.empty"
  shows "fold replay (map (make_event_from_node s) (inorder t)) V = V(s := values_of t)"
proof -
  have "(case find (\<lambda>x. st_name x = n) (inorder t) of Some x \<Rightarrow> Some (st_value x) | None \<Rightarrow> V s n) = values_of t n" for n
    using find_inorder [OF assms(1), of n] assms(2) by (simp add: values_of_def split: option.splits)
  then show ?thesis using replay_nodes [OF in_order_distinct [OF assms(1)], of s V] by presburger
qed

definition listed_values ::
    "stats_source list \<Rightarrow> (string option \<Rightarrow> string \<Rightarrow> string option) \<Rightarrow> string option \<Rightarrow> string \<Rightarrow> string option" where
  "listed_values xs V s =
     (case s of
        None \<Rightarrow> V None
      | Some m \<Rightarrow> (case find (\<lambda>x. ss_source x = m) xs of Some x \<Rightarrow> values_of (ss_tree x) | None \<Rightarrow> V (Some m)))"

lemma replay_sources:
  assumes "\<forall>x\<in>set xs. in_order st_name (ss_tree x)" and "distinct (map ss_source xs)"
    and "\<forall>x\<in>set xs. V (Some (ss_source x)) = Map.empty"
  shows "fold replay (concat (map (\<lambda>x. map (make_event_from_node (Some (ss_source x))) (inorder (ss_tree x))) xs)) V
    = listed_values xs V"
  using assms
proof (induction xs arbitrary: V)
  case Nil
  then show ?case by (auto simp: listed_values_def fun_eq_iff split: option.splits)
next
  case (Cons x xs)
  let ?V = "V(Some (ss_source x) := values_of (ss_tree x))"
  have step: "fold replay (map (make_event_from_node (Some (ss_source x))) (inorder (ss_tree x))) V = ?V"
    using Cons.prems by (intro replay_tree) auto
  have new: "ss_source y \<noteq> ss_source x" if "y \<in> set xs" for y using distinct_hd [OF Cons.prems(2) that] .
  then have "\<forall>y\<in>set xs. ?V (Some (ss_source y)) = Map.empty" using Cons.prems by simp
  then have IH: "fold replay (concat (map (\<lambda>x. map (make_event_from_node (Some (ss_source x))) (inorder (ss_tree x))) xs)) ?V
    = listed_values xs ?V"
    using Cons by (intro Cons.IH) auto
  have "find (\<lambda>y. ss_source y = ss_source x) xs = None" using new by (auto simp: find_None_iff)
  then have "listed_values xs ?V = listed_values (x # xs) V"
    by (auto simp: listed_values_def fun_eq_iff split: option.splits)
  then show ?case using step IH by simp
qed

lemma mirror_current: "stats_wf st \<Longrightarrow> mirror (current_events st) = stats_get_value st"
proof -
  assume wf: "stats_wf st"
  then have o: "in_order st_name (global_tree st)" "in_order ss_source (stats_sources st)"
    "\<forall>x\<in>set (inorder (stats_sources st)). in_order st_name (ss_tree x)" by (simp_all add: stats_wf_def)
  define V where "V = (\<lambda>_::string option. Map.empty)(None := values_of (global_tree st))"
  have "mirror (current_events st) = fold replay (concat (map (\<lambda>s. map (make_event_from_node (Some (ss_source s)))
      (inorder (ss_tree s))) (inorder (stats_sources st)))) V"
    using replay_tree [OF o(1), of "\<lambda>_. Map.empty" None] by (simp add: mirror_def current_events_def V_def)
  also have "\<dots> = listed_values (inorder (stats_sources st)) V"
    by (rule replay_sources [OF o(3) in_order_distinct [OF o(2)]]) (simp add: V_def)
  also have "\<dots> = stats_get_value st"
  proof
    fix s
    show "listed_values (inorder (stats_sources st)) V s = stats_get_value st s"
      by (cases s) (auto simp: listed_values_def V_def get_value_views find_inorder [OF o(2)] source_values_def
          split: option.splits)
  qed
  finally show ?thesis .
qed

text \<open>
  The runs of the statistics: plain events are queued, the thread applies them, listeners register,
  take events from their queue and leave. \<open>taken\<close> is what a listener has taken so far.
\<close>

inductive stats_reach :: "stats_lib \<Rightarrow> stats_world \<Rightarrow> (nat \<Rightarrow> stats_event list) \<Rightarrow> bool" for lib where
  start: "stats_reach lib \<lparr>event_queue = [], running_stats = \<lparr>global_tree = Leaf, stats_sources = Leaf\<rparr>, listeners = []\<rparr> T"
| queue: "stats_reach lib w T \<Longrightarrow> plain_event e \<Longrightarrow> stats_reach lib (queue_global_event e w) T"
| apply_one: "stats_reach lib w T \<Longrightarrow> stats_thread_round lib w = Inr w' \<Longrightarrow> stats_reach lib w' T"
| register: "stats_reach lib w T \<Longrightarrow> i \<notin> fst ` set (listeners w) \<Longrightarrow> stats_reach lib (register_listener i w) (T(i := []))"
| take_one: "stats_reach lib w T \<Longrightarrow> listeners w = ls @ (i, e # q) # ms \<Longrightarrow>
    stats_reach lib (w\<lparr>listeners := ls @ (i, q) # ms\<rparr>) (T(i := T i @ [e]))"
| leave: "stats_reach lib w T \<Longrightarrow> stats_reach lib (w\<lparr>listeners := unregister i (listeners w)\<rparr>) T"

definition stats_inv :: "stats_world \<Rightarrow> (nat \<Rightarrow> stats_event list) \<Rightarrow> bool" where
  "stats_inv w T \<longleftrightarrow> stats_wf (running_stats w) \<and> (\<forall>e\<in>set (event_queue w). plain_event e)
     \<and> distinct (map fst (listeners w))
     \<and> (\<forall>(i, q)\<in>set (listeners w). mirror (T i @ q) = stats_get_value (running_stats w))"

lemma mirror_snoc: "mirror (q @ [e]) = replay e (mirror q)"
  by (simp add: mirror_def)

lemma round_keeps_inv:
  assumes "lib_ok lib" and "stats_inv w T" and "stats_thread_round lib w = Inr w'"
  shows "stats_inv w' T"
proof (cases "event_queue w")
  case Nil
  then show ?thesis using assms by (simp add: stats_thread_round_def)
next
  case (Cons e rest)
  obtain st e' where p: "process_event lib e (running_stats w) = Inr (st, e')"
    and w': "w' = w\<lparr>event_queue := rest, running_stats := st,
        listeners := map (\<lambda>(i, q). (i, q @ [copy_event e'])) (listeners w)\<rparr>"
    using assms(3) Cons by (auto simp: stats_thread_round_def split: sum.splits)
  have wf: "stats_wf (running_stats w)" and pl: "plain_event e" using assms(2) Cons by (simp_all add: stats_inv_def)
  have s: "stats_wf st" "event_values e (stats_get_value (running_stats w)) = Inr (stats_get_value st)"
    "e' = told_values e (stats_get_value (running_stats w))"
    using global_event_values [OF assms(1) wf, of e] source_event_values [OF assms(1) wf, of e] p
    by (auto simp: process_event_def split: option.splits)
  have "replay (copy_event e') (stats_get_value (running_stats w)) = stats_get_value st"
    using replay_told [OF pl s(2)] s(3) by simp
  then have "mirror (T i @ q @ [copy_event e']) = stats_get_value st"
    if "mirror (T i @ q) = stats_get_value (running_stats w)" for i q
    using mirror_snoc [of "T i @ q"] that by simp
  then show ?thesis using assms(2) s(1) w' Cons
    by (auto simp: stats_inv_def comp_def case_prod_unfold)
qed

lemma unregister_subset: "set (unregister i ls) \<subseteq> set ls"
  by (induction i ls rule: unregister.induct) auto

lemma unregister_distinct: "distinct (map fst ls) \<Longrightarrow> distinct (map fst (unregister i ls))"
proof (induction i ls rule: unregister.induct)
  case (2 i j q ls)
  then show ?case using unregister_subset [of i ls] by auto
qed simp

lemma other_listener: "i \<notin> fst ` set ls \<Longrightarrow> (j, q) \<in> set ls \<Longrightarrow> (T(i := x)) j = T j"
  by force

lemma reach_inv: "stats_reach lib w T \<Longrightarrow> lib_ok lib \<Longrightarrow> stats_inv w T"
proof (induction rule: stats_reach.induct)
  case (start T)
  then show ?case by (simp add: stats_inv_def stats_wf_def)
next
  case (queue w T e)
  then show ?case by (auto simp: stats_inv_def queue_global_event_def)
next
  case (apply_one w T w')
  then show ?case using round_keeps_inv by blast
next
  case (register w T i)
  then have inv: "stats_inv w T" by simp
  have "mirror ((T(i := [])) j @ q) = stats_get_value (running_stats w)" if "(j, q) \<in> set (listeners w)" for j q
    using inv that other_listener [OF register.hyps(2) that, of T "[]"] by (auto simp: stats_inv_def)
  then show ?case using inv mirror_current [of "running_stats w"] register.hyps(2)
    by (simp add: stats_inv_def register_listener_def split_beta)
next
  case (take_one w T ls i e q ms)
  then have inv: "stats_inv w T" by simp
  let ?T = "T(i := T i @ [e])"
  have i: "i \<notin> fst ` set (ls @ ms)" using inv take_one.hyps(2) by (auto simp: stats_inv_def)
  have m: "mirror (T j @ r) = stats_get_value (running_stats w)" if "(j, r) \<in> set (listeners w)" for j r
    using inv that by (auto simp: stats_inv_def)
  have "mirror (?T j @ r) = stats_get_value (running_stats w)" if "(j, r) \<in> set (ls @ (i, q) # ms)" for j r
  proof (cases "(j, r) \<in> set (ls @ ms)")
    case True
    then show ?thesis using m [of j r] other_listener [OF i True, of T "T i @ [e]"] take_one.hyps(2) by auto
  next
    case False
    then show ?thesis using m [of i "e # q"] that take_one.hyps(2) by auto
  qed
  then show ?case using inv take_one.hyps(2) by (simp add: stats_inv_def split_beta)
next
  case (leave w T i)
  then show ?case using unregister_subset [of i "listeners w"] unregister_distinct [of "listeners w" i]
    by (auto simp: stats_inv_def)
qed

text \<open>
  C28: Every listener can rebuild the statistics: whenever it registered and however events and listeners
  come and go, what it was told and took, followed by what still waits in its queue, gives exactly
  the values of the running statistics, as long as statistics are set, removed, increased and
  decreased.
\<close>

theorem listeners_mirror_statistics:
  assumes "stats_reach lib w T" and "lib_ok lib" and "(i, q) \<in> set (listeners w)"
  shows "mirror (T i @ q) = stats_get_value (running_stats w)"
  using reach_inv [OF assms(1, 2)] assms(3) by (auto simp: stats_inv_def)

text \<open>The empty statistics and a library for them, an example.\<close>

definition bst_lib :: stats_lib where
  "bst_lib = \<lparr>node_ops = bst_ops st_name, source_ops = bst_ops ss_source\<rparr>"

definition no_stats :: stats where
  "no_stats = \<lparr>global_tree = Leaf, stats_sources = Leaf\<rparr>"

lemma bst_lib_ok: "lib_ok bst_lib"
  by (simp add: lib_ok_def bst_lib_def bst_ops_ok)

lemma no_stats_wf: "stats_wf no_stats"
  by (simp add: stats_wf_def no_stats_def)

theorem stats_event_is_update_witness:
  "process_event bst_lib (stats_event_inc None (Some ''clients'')) no_stats = Inl Null_deref
   \<and> event_values (stats_event_inc None (Some ''clients'')) (stats_get_value no_stats) = Inl Null_deref"
proof -
  have p: "process_event bst_lib (stats_event_inc None (Some ''clients'')) no_stats = Inl Null_deref"
    by (simp add: process_event_def process_global_event_def stats_event_inc_def build_event_def no_stats_def find_node_def)
  then show ?thesis
    using stats_event_is_update [OF bst_lib_ok no_stats_wf, of "stats_event_inc None (Some ''clients'')"] by simp
qed

definition one_listener :: stats_world where
  "one_listener = register_listener 5 (queue_global_event (build_event None (Some ''clients'') (Some ''3''))
     \<lparr>event_queue = [], running_stats = \<lparr>global_tree = Leaf, stats_sources = Leaf\<rparr>, listeners = []\<rparr>)"

theorem listeners_mirror_statistics_witness:
  "\<exists>w q. stats_thread_round bst_lib one_listener = Inr w \<and> listeners w = [(5, q)] \<and> q \<noteq> []
     \<and> mirror q = stats_get_value (running_stats w)"
proof -
  let ?e = "build_event None (Some ''clients'') (Some ''3'')"
  have pl: "plain_event ?e" by (simp add: plain_event_def build_event_def)
  have r: "stats_reach bst_lib one_listener ((\<lambda>_. [])(5 := []))"
    unfolding one_listener_def
    by (rule stats_reach.register [OF stats_reach.queue [OF stats_reach.start pl]]) (simp add: queue_global_event_def)
  obtain w where w: "stats_thread_round bst_lib one_listener = Inr w" "listeners w = [(5, [copy_event ?e])]"
    by (simp add: stats_thread_round_def one_listener_def register_listener_def queue_global_event_def current_events_def
        process_event_def process_global_event_def build_event_def find_node_def)
  have "stats_reach bst_lib w ((\<lambda>_. [])(5 := []))" by (rule stats_reach.apply_one [OF r w(1)])
  from listeners_mirror_statistics [OF this bst_lib_ok, of 5 "[copy_event ?e]"] w show ?thesis by auto
qed

text \<open>
  Adding to a statistic is told wrongly: the running value is the sum, but the event the listeners
  get carries the amount that was added, and so it is for subtracting.
\<close>

theorem added_amount_is_told:
  assumes "lib_ok lib" and "stats_wf st" and "stats_get_value st s n = Some old"
    and "e = stats_event_add s (Some n) v" and "process_event lib e st = Inr (st', e')"
  shows "stats_get_value st' s n = Some (print16 (atoi old + atoi (print16 (uint v))))
     \<and> replay (copy_event e') (stats_get_value st) s n = Some (print16 (uint v))"
proof -
  have e: "ev_source e = s" "ev_name e = Some n" "ev_value e = Some (print16 (uint v))" "ev_action e = STATS_EVENT_ADD"
    using assms(4) by (simp_all add: stats_event_add_def build_event_def)
  have u: "event_values e (stats_get_value st) = Inr (stats_get_value st')" "e' = told_values e (stats_get_value st)"
    using global_event_values [OF assms(1, 2), of e] source_event_values [OF assms(1, 2), of e] assms(5)
    by (auto simp: process_event_def split: option.splits)
  obtain x where x: "new_value e (Some old) = Inr x" "stats_get_value st' s n = x"
    using u(1) e assms(3) by (auto simp: event_values_def split: sum.splits) (metis fun_upd_same)
  have "x = Some (print16 (atoi old + atoi (print16 (uint v))))"
    using x(1) e by (auto simp: new_value_def changed_number_def int_add_def split: if_splits)
  then show ?thesis using x u(2) e assms(3)
    by (simp add: told_values_def told_def replay_def copy_event_def)
qed

theorem added_amount_is_told_witness:
  "\<exists>st' e'. process_event bst_lib (stats_event_add None (Some ''n'') 5)
       \<lparr>global_tree = Node Leaf \<lparr>st_name = ''n'', st_value = ''2'', st_hidden = False\<rparr> Leaf, stats_sources = Leaf\<rparr> = Inr (st', e')
     \<and> stats_get_value st' None ''n'' = Some ''7''
     \<and> replay (copy_event e') (stats_get_value no_stats) None ''n'' = Some ''5''"
proof -
  let ?st = "\<lparr>global_tree = Node Leaf \<lparr>st_name = ''n'', st_value = ''2'', st_hidden = False\<rparr> Leaf, stats_sources = Leaf\<rparr>"
  let ?e = "stats_event_add None (Some ''n'') 5"
  have num: "atoi ''2'' = 2" "atoi ''5'' = 5" "print16 5 = ''5''" "print16 7 = ''7''" by code_simp+
  obtain st' e' where p: "process_event bst_lib ?e ?st = Inr (st', e')"
    by (simp add: process_event_def process_global_event_def stats_event_add_def build_event_def find_node_def
        modify_node_event_def changed_number_def int_add_def num Let_def)
  have wf: "stats_wf ?st" by (simp add: stats_wf_def)
  have g: "stats_get_value ?st None ''n'' = Some ''2''" by (simp add: stats_get_value_def find_node_def)
  have "stats_get_value st' None ''n'' = Some ''7'' \<and> replay (copy_event e') (stats_get_value ?st) None ''n'' = Some ''5''"
    using added_amount_is_told [OF bst_lib_ok wf g refl p] by (simp add: num)
  moreover have "replay (copy_event e') (stats_get_value no_stats) None ''n'' = replay (copy_event e') (stats_get_value ?st) None ''n''"
    using p by (auto simp: process_event_def process_global_event_def stats_event_add_def build_event_def find_node_def
        modify_node_event_def changed_number_def int_add_def num Let_def replay_def copy_event_def)
  ultimately show ?thesis using p by simp
qed

section \<open>Listings\<close>

definition block_ok :: "string list \<times> string \<times> u32 \<Rightarrow> bool" where
  "block_ok acc \<longleftrightarrow> (case acc of (blocks, cur, remaining) \<Rightarrow>
     unat remaining + length cur = STREAMLIST_BLKSIZE \<and> 1 \<le> unat remaining
     \<and> (\<forall>b\<in>set blocks. length b \<le> STREAMLIST_BLKSIZE))"

definition listed :: "string list \<times> string \<times> u32 \<Rightarrow> string" where
  "listed acc = (case acc of (blocks, cur, remaining) \<Rightarrow> concat blocks @ cur)"

lemma word_left:
  assumes "n \<le> 4096" and "n < unat (r :: u32)"
  shows "unat (r - of_nat n) = unat r - n"
proof -
  have "unat (of_nat n :: u32) = n" using assms(1) by (simp add: unat_of_nat take_bit_eq_mod)
  then show ?thesis using assms(2) by (simp add: unat_sub word_le_nat_alt)
qed

lemma fits_word: "n \<le> 4100 \<Longrightarrow> (r :: u32) \<le> of_nat n \<longleftrightarrow> unat r \<le> n"
  by (simp add: word_le_nat_alt unat_of_nat take_bit_eq_mod)

lemma append_line:
  assumes "block_ok (blocks, cur, remaining)" and "length line < unat remaining" and "length line \<le> 4096"
  shows "block_ok (blocks, cur @ take (unat remaining - 1) line, remaining - of_nat (length line))"
    and "listed (blocks, cur @ take (unat remaining - 1) line, remaining - of_nat (length line)) =
      listed (blocks, cur, remaining) @ line"
  using assms word_left [OF assms(3, 2)] by (auto simp: block_ok_def listed_def)

lemma streams_loop_ok:
  assumes "\<forall>s\<in>set ss. length (ss_source s) \<le> 4092" and "block_ok acc"
  shows "block_ok (streams_loop ss acc)
    \<and> listed (streams_loop ss acc) = listed acc @ concat (map (\<lambda>s. stream_line (ss_source s)) (filter (\<lambda>s. \<not> ss_hidden s) ss))"
  using assms
proof (induction ss arbitrary: acc)
  case (Cons s ss)
  obtain blocks cur remaining where acc: "acc = (blocks, cur, remaining)" by (cases acc) auto
  have IH: "block_ok (streams_loop ss a) \<and> listed (streams_loop ss a)
      = listed a @ concat (map (\<lambda>s. stream_line (ss_source s)) (filter (\<lambda>s. \<not> ss_hidden s) ss))" if "block_ok a" for a
    using Cons.IH [OF _ that] Cons.prems(1) by simp
  show ?case
  proof (cases "ss_hidden s")
    case True
    then show ?thesis using IH [OF Cons.prems(2)] acc by simp
  next
    case False
    let ?line = "stream_line (ss_source s)"
    have len: "length ?line = length (ss_source s) + 2" "length (ss_source s) \<le> 4092"
      using Cons.prems(1) by (simp_all add: stream_line_def)
    show ?thesis
    proof (cases "remaining \<le> of_nat (length (ss_source s) + 3)")
      case True
      let ?new = "(blocks @ [take (STREAMLIST_BLKSIZE - unat remaining) cur], [] :: string, of_nat STREAMLIST_BLKSIZE :: u32)"
      have n: "block_ok ?new" "listed ?new = listed acc"
        using Cons.prems(2) acc by (auto simp: block_ok_def listed_def STREAMLIST_BLKSIZE_def)
      have u: "unat (of_nat STREAMLIST_BLKSIZE :: u32) = 4096" by (simp add: STREAMLIST_BLKSIZE_def)
      have l: "length ?line < unat (of_nat STREAMLIST_BLKSIZE :: u32)" using len unfolding u by linarith
      note a = append_line [OF n(1) l] 
      show ?thesis using IH [OF a(1)] a(2) n(2) len acc True False by (simp add: Let_def)
    next
      case False': False
      then have "length ?line < unat remaining" using fits_word [of "length (ss_source s) + 3" remaining] len by simp
      note a = append_line [OF Cons.prems(2) [unfolded acc] this]
      show ?thesis using IH [OF a(1)] a(2) len acc False' False by (simp add: Let_def)
    qed
  qed
qed simp

text \<open>
  The list of streams holds the line of every mountpoint that is not hidden, in order and uncut, in
  blocks that stay within their memory, if no mountpoint has a name longer than 4092 characters.
\<close>

theorem stream_list_complete:
  assumes "\<forall>s\<in>set_tree (stats_sources st). length (ss_source s) \<le> 4092"
  shows "concat (stats_get_streams st)
      = concat (map (\<lambda>s. stream_line (ss_source s)) (filter (\<lambda>s. \<not> ss_hidden s) (inorder (stats_sources st))))
    \<and> (\<forall>b\<in>set (stats_get_streams st). length b \<le> STREAMLIST_BLKSIZE)"
proof -
  let ?acc = "([], [], of_nat STREAMLIST_BLKSIZE) :: string list \<times> string \<times> u32"
  have ok: "block_ok ?acc" "listed ?acc = []" by (simp_all add: block_ok_def listed_def STREAMLIST_BLKSIZE_def)
  obtain blocks cur remaining where r: "streams_loop (inorder (stats_sources st)) ?acc = (blocks, cur, remaining)"
    by (metis prod_cases3)
  have "block_ok (blocks, cur, remaining) \<and> listed (blocks, cur, remaining)
      = concat (map (\<lambda>s. stream_line (ss_source s)) (filter (\<lambda>s. \<not> ss_hidden s) (inorder (stats_sources st))))"
    using streams_loop_ok [of "inorder (stats_sources st)" ?acc] assms ok r by simp
  then show ?thesis using r by (auto simp: stats_get_streams_def block_ok_def listed_def)
qed

theorem stream_list_complete_witness:
  "concat (stats_get_streams \<lparr>global_tree = Leaf,
      stats_sources = Node Leaf \<lparr>ss_source = ''/a'', ss_hidden = False, ss_tree = Leaf\<rparr> Leaf\<rparr>) = ''/a'' @ [CHR 0x0D, CHR 0x0A]"
  using stream_list_complete [of "\<lparr>global_tree = Leaf,
      stats_sources = Node Leaf \<lparr>ss_source = ''/a'', ss_hidden = False, ss_tree = Leaf\<rparr> Leaf\<rparr>"]
  by (simp add: stream_line_def)

lemma clear_loop_find:
  assumes "ops_ok ss_source (source_ops lib)" and "in_order ss_source t"
  shows "in_order ss_source (clear_virtual_loop lib reserved ss t)
    \<and> find_in ss_source m (clear_virtual_loop lib reserved ss t) =
      (if m \<in> ss_source ` set ss \<and> \<not> reserved m then None else find_in ss_source m t)"
  using assms(2)
proof (induction ss arbitrary: t)
  case (Cons s ss)
  show ?case
  proof (cases "reserved (ss_source s)")
    case True
    then show ?thesis using Cons by auto
  next
    case False
    then show ?thesis using Cons.IH [OF find_in_delete(1) [OF assms(1) Cons.prems, of s]]
        find_in_delete(2) [OF assms(1) Cons.prems, of m s] by auto
  qed
qed simp

text \<open>
  Clearing removes the statistics of exactly those mountpoints that have no source; all others keep
  every value, and the trees stay ordered.
\<close>

theorem clear_virtual_mounts_effect:
  assumes "lib_ok lib" and "stats_wf st"
  shows "stats_get_value (stats_clear_virtual_mounts lib reserved st) s =
     (case s of None \<Rightarrow> stats_get_value st None | Some m \<Rightarrow> if reserved m then stats_get_value st s else Map.empty)"
proof (cases s)
  case None
  then show ?thesis by (simp add: stats_clear_virtual_mounts_def get_value_views)
next
  case (Some m)
  have o: "ops_ok ss_source (source_ops lib)" "in_order ss_source (stats_sources st)"
    using assms by (simp_all add: lib_ok_def stats_wf_def)
  have "find_in ss_source m (stats_sources st) = None" if "m \<notin> ss_source ` set (inorder (stats_sources st))"
    using that find_in_Some [OF o(2), of m] by (metis image_eqI option.exhaust set_inorder)
  then show ?thesis using clear_loop_find [OF o, of reserved "inorder (stats_sources st)" m] Some
    by (auto simp: stats_clear_virtual_mounts_def get_value_views source_values_def)
qed

end
