(* ===== verification/Fserve.thy ===== *)
theory Fserve
  imports Util_Header Util_URI Errors Interfaces "HOL-Library.Multiset"
begin

text \<open>
  The file serving thread (\<^verbatim>\<open>src/src/fserve.c\<close>): the clients that are sent a prepared response or a
  file, the answer to a request for a file with its byte range, generated playlists, and the table
  of MIME types.

  \<open>disk\<close> gives the files by name: a regular file has its content and whether it can be opened. The
  socket of a client is \<open>sock_send\<close>: how many bytes it takes, or an error. The table of MIME types is a
  map; the file it is read from is its text.
\<close>

section \<open>Sending\<close>

definition BUFSIZE :: nat where
  "BUFSIZE = 4096"

text \<open>
  A client of the thread: what is left of its file, the buffer it is sending with the position in it,
  the buffers that follow, and what its socket has taken so far.
\<close>

record fserve_t =
  fs_id :: nat
  fs_file :: "string option"
  fs_buf :: string
  fs_next :: "string list"
  fs_pos :: nat
  fs_ready :: bool
  fs_callback :: bool
  fs_error :: bool
  fs_out :: string

datatype sent = Took nat | Failed

text \<open>The next chunk: from the file, else the next buffer; None when there is nothing left.\<close>

definition grab_chunk :: "fserve_t \<Rightarrow> fserve_t option" where
  "grab_chunk f =
     (let bytes = (case fs_file f of None \<Rightarrow> [] | Some c \<Rightarrow> take BUFSIZE c)
      in if bytes \<noteq> []
         then Some (f\<lparr>fs_buf := bytes, fs_file := map_option (drop BUFSIZE) (fs_file f), fs_pos := 0\<rparr>)
         else (case fs_next f of
                 [] \<Rightarrow> None
               | b # bs \<Rightarrow> Some (f\<lparr>fs_buf := b, fs_next := bs, fs_pos := 0\<rparr>)))"

text \<open>The write: an error of the socket is noted, otherwise the position moves on.\<close>

definition write_to_client :: "sent \<Rightarrow> fserve_t \<Rightarrow> fserve_t" where
  "write_to_client s f =
     (let rest = drop (fs_pos f) (fs_buf f)
      in case s of
           Failed \<Rightarrow> f\<lparr>fs_error := True\<rparr>
         | Took n \<Rightarrow> f\<lparr>fs_out := fs_out f @ take n rest, fs_pos := fs_pos f + min n (length rest)\<rparr>)"

datatype served = Stays fserve_t | Goes fserve_t

definition serve_client :: "sent \<Rightarrow> fserve_t \<Rightarrow> served" where
  "serve_client s f =
     (if \<not> fs_ready f then Stays f
      else
        (let f = f\<lparr>fs_ready := False\<rparr>
         in case (if fs_pos f = length (fs_buf f) then grab_chunk f else Some f) of
              None \<Rightarrow> Goes f
            | Some f \<Rightarrow>
                (let f = write_to_client s f
                 in if fs_error f then Goes f else Stays f)))"

record fserve_state =
  active_list :: "fserve_t list"
  pending_list :: "fserve_t list"
  run_fserv :: bool
  finished :: "fserve_t list"

fun serve_all :: "(nat \<Rightarrow> sent) \<Rightarrow> fserve_t list \<Rightarrow> fserve_t list \<times> fserve_t list" where
  "serve_all sock_send [] = ([], [])"
| "serve_all sock_send (f # fs) =
     (let (act, gone) = serve_all sock_send fs
      in case serve_client (sock_send (fs_id f)) f of
           Stays f \<Rightarrow> (f # act, gone)
         | Goes f \<Rightarrow> (act, f # gone))"

text \<open>The pending clients come to the front of the active list, the last one first.\<close>

definition take_pending :: "fserve_state \<Rightarrow> fserve_state" where
  "take_pending s = s\<lparr>active_list := rev (pending_list s) @ active_list s, pending_list := []\<rparr>"

definition set_ready :: "(nat \<Rightarrow> bool) \<Rightarrow> fserve_t \<Rightarrow> fserve_t" where
  "set_ready ready f = (if ready (fs_id f) then f\<lparr>fs_ready := True\<rparr> else f)"

definition mark_ready :: "(nat \<Rightarrow> bool) \<Rightarrow> fserve_state \<Rightarrow> fserve_state" where
  "mark_ready ready s =
     s\<lparr>active_list := map (set_ready ready) (active_list s)\<rparr>"

definition fserv_pass :: "(nat \<Rightarrow> bool) \<Rightarrow> (nat \<Rightarrow> sent) \<Rightarrow> fserve_state \<Rightarrow> fserve_state" where
  "fserv_pass ready sock_send s =
     (let s = mark_ready ready (take_pending s);
          (act, gone) = serve_all sock_send (active_list s)
      in s\<lparr>active_list := act, finished := finished s @ gone\<rparr>)"

definition fserve_add_pending :: "fserve_t \<Rightarrow> fserve_state \<Rightarrow> fserve_state" where
  "fserve_add_pending f s = s\<lparr>pending_list := f # pending_list s, run_fserv := True\<rparr>"

text \<open>A client with its first buffer, the buffers that follow it, and a file.\<close>

definition fserve_add_client :: "nat \<Rightarrow> string list \<Rightarrow> string option \<Rightarrow> bool \<Rightarrow> fserve_state \<Rightarrow> fserve_state" where
  "fserve_add_client i bufs file cb s =
     fserve_add_pending \<lparr>fs_id = i, fs_file = file, fs_buf = hd (bufs @ [[]]), fs_next = tl bufs, fs_pos = 0,
       fs_ready = False, fs_callback = cb, fs_error = False, fs_out = []\<rparr> s"

section \<open>MIME types\<close>

type_synonym mimetypes = "string \<rightharpoonup> string"

definition fserve_content_type :: "mimetypes option \<Rightarrow> string \<Rightarrow> string" where
  "fserve_content_type mimes path =
     (let ext = util_get_extension path
      in case (case mimes of None \<Rightarrow> None | Some m \<Rightarrow> m ext) of
           Some type \<Rightarrow> type
         | None \<Rightarrow>
             if ext = ''ogg'' then ''application/ogg''
             else if ext = ''mp3'' then ''audio/mpeg''
             else if ext = ''html'' then ''text/html''
             else if ext = ''css'' then ''text/css''
             else if ext = ''txt'' then ''text/plain''
             else if ext = ''jpg'' then ''image/jpeg''
             else if ext = ''png'' then ''image/png''
             else if ext = ''m3u'' then ''audio/x-mpegurl''
             else if ext = ''aac'' then ''audio/aac''
             else ''application/octet-stream'')"

text \<open>
  One line of the file, in the buffer of 4096 bytes it was read into. A position is an index into the
  buffer; reading at its end is a fault. \<open>exts_loop\<close> is the loop over the extensions: after a word the
  byte that ended it is overwritten and skipped, whatever it was.
\<close>

definition blank :: "char \<Rightarrow> bool" where
  "blank c \<longleftrightarrow> c = CHR '' '' \<or> c = CHR 0x09"

definition word_end :: "char \<Rightarrow> bool" where
  "word_end c \<longleftrightarrow> blank c \<or> c = CHR 0x0A \<or> c = NUL"

function exts_loop :: "string \<Rightarrow> string \<Rightarrow> mimetypes \<Rightarrow> fault + mimetypes" where
  "exts_loop type buf m =
     (case dropWhile blank buf of
        [] \<Rightarrow> Inl Out_of_bounds
      | c # cs \<Rightarrow>
          if c = NUL then Inr m
          else
            (let word = takeWhile (\<lambda>c. \<not> word_end c) (c # cs);
                 rest = dropWhile (\<lambda>c. \<not> word_end c) (c # cs)
             in if rest = [] then Inl Out_of_bounds
                else exts_loop type (tl rest) (if word \<noteq> [] then m(word \<mapsto> type) else m)))"
  by pat_completeness auto
termination
proof (relation "measure (\<lambda>(type, buf, m). length buf)", goal_cases)
  case (2 type buf m c cs word rest)
  have "length (dropWhile (\<lambda>c. \<not> word_end c) (c # cs)) \<le> length (c # cs)"
    "length (dropWhile blank buf) \<le> length buf" by (simp_all only: length_dropWhile_le)
  moreover have "length rest > 0" using 2 by simp
  ultimately show ?case using 2 by simp
qed simp

declare exts_loop.simps [simp del]

definition mime_line :: "string \<Rightarrow> mimetypes \<Rightarrow> fault + mimetypes" where
  "mime_line buf m =
     (if buf = [] then Inl Out_of_bounds
      else if hd buf = NUL \<or> hd buf = CHR ''#'' then Inr m
      else
        (let type = takeWhile (\<lambda>c. \<not> blank c \<and> c \<noteq> NUL) buf;
             rest = dropWhile (\<lambda>c. \<not> blank c \<and> c \<noteq> NUL) buf
         in if rest = [] then Inl Out_of_bounds
            else if hd rest = NUL then Inr m
            else exts_loop type (tl rest) m))"

text \<open>
  The lines of the file as \<^verbatim>\<open>fgets\<close> returns them, read one after the other into the same buffer: what
  stands behind the end of a line is left over from the lines before it.
\<close>

definition into_buffer :: "string \<Rightarrow> string \<Rightarrow> string" where
  "into_buffer line buf = line @ NUL # drop (Suc (length line)) buf"

fun mime_file :: "string list \<Rightarrow> string \<Rightarrow> mimetypes \<Rightarrow> fault + mimetypes" where
  "mime_file [] buf m = Inr m"
| "mime_file (l # ls) buf m =
     (let buf = into_buffer l buf
      in case mime_line buf m of Inl f \<Rightarrow> Inl f | Inr m \<Rightarrow> mime_file ls buf m)"

section \<open>Requests for files\<close>

record file_info =
  fi_regular :: bool
  fi_size :: int
  fi_content :: "string option"

record fserve_env =
  fe_fnm :: "string \<Rightarrow> string \<Rightarrow> bool"
  fe_date :: "string option"
  fe_config :: header_config
  fe_client :: "header_client option"
  fe_webroot :: string
  fe_hostname :: string
  fe_port :: int
  fe_fileserve :: int
  fe_disk :: "string \<Rightarrow> file_info option"
  fe_mimes :: "mimetypes option"

datatype file_answer =
  File_error int
| Playlist_m3u string
| Playlist_xslt string string
| File_response int string string

definition response_header :: "fserve_env \<Rightarrow> int \<Rightarrow> string \<Rightarrow> string option \<Rightarrow> int \<times> string" where
  "response_header E status type datablock =
     (case util_http_build_header (fe_fnm E) (fe_date E) (fe_config E) (Some []) (of_nat BUFSIZE) 0 False status None
        (Some type) None datablock None (fe_client E) of
        (ret, out) \<Rightarrow> (ret, case out of Some s \<Rightarrow> s | None \<Rightarrow> []))"

definition no_room :: "int \<Rightarrow> bool" where
  "no_room ret \<longleftrightarrow> ret = -1 \<or> ret \<ge> int (BUFSIZE - 512)"

text \<open>The line of a generated playlist.\<close>

definition m3u_line :: "fserve_env \<Rightarrow> string option \<Rightarrow> string \<Rightarrow> string" where
  "m3u_line E host sourceuri =
     (case (case host of Some h \<Rightarrow> if strchr CHR '':'' h = None then None else Some h | None \<Rightarrow> None) of
        None \<Rightarrow> ''http://'' @ fe_hostname E @ '':'' @ show_int (fe_port E) @ sourceuri @ crlf
      | Some h \<Rightarrow> ''http://'' @ h @ sourceuri @ crlf)"

text \<open>The start of a range; None when it has no such form. \<^verbatim>\<open>sscanf\<close> ignores what follows the number.\<close>

definition range_start :: "string \<Rightarrow> int option" where
  "range_start rng =
     (if starts_with_case ''bytes='' rng
      then (case strtol (drop 6 rng) of (v, rest) \<Rightarrow> if rest = drop 6 rng then None else Some v)
      else None)"

text \<open>The end of the range for the response, and the three numbers of its headers.\<close>

definition range_numbers :: "int \<Rightarrow> int \<Rightarrow> int \<times> int" where
  "range_numbers start siz =
     (let new_len = siz - start; endpos = start + new_len - 1
      in (new_len, if endpos < 0 then 0 else endpos))"

definition range_headers :: "int \<Rightarrow> int \<Rightarrow> string" where
  "range_headers start siz =
     (case range_numbers start siz of (new_len, endpos) \<Rightarrow>
        ''Accept-Ranges: bytes'' @ crlf @ ''Content-Length: '' @ show_int new_len @ crlf
        @ ''Content-Range: bytes '' @ show_int start @ ''-'' @ show_int endpos @ ''/'' @ show_int siz @ crlf @ crlf)"

definition full_headers :: "int \<Rightarrow> string" where
  "full_headers siz = ''Accept-Ranges: bytes'' @ crlf @ ''Content-Length: '' @ show_int siz @ crlf @ crlf"

text \<open>Serving an opened file: the status, the headers and the part of the file that is sent.\<close>

definition send_file :: "fserve_env \<Rightarrow> string option \<Rightarrow> string \<Rightarrow> int \<Rightarrow> string \<Rightarrow> file_answer" where
  "send_file E rng path siz content =
     (case rng of
        Some r \<Rightarrow>
          (case range_start r of
             None \<Rightarrow> File_error ICECAST_ERROR_FSERV_REQUEST_RANGE_NOT_SATISFIABLE
           | Some start \<Rightarrow>
               if start < 0 \<or> siz - start < 0
               then File_error ICECAST_ERROR_FSERV_REQUEST_RANGE_NOT_SATISFIABLE
               else
                 (let (ret, hdr) = response_header E 206 (fserve_content_type (fe_mimes E) path) None
                  in if no_room ret then File_error ICECAST_ERROR_GEN_HEADER_GEN_FAILED
                     else File_response 206 (hdr @ snprintf (BUFSIZE - nat ret) (range_headers start siz))
                            (drop (nat start) content)))
      | None \<Rightarrow>
          (let (ret, hdr) = response_header E 200 (fserve_content_type (fe_mimes E) path) None
           in if no_room ret then File_error ICECAST_ERROR_GEN_HEADER_GEN_FAILED
              else File_response 200 (hdr @ snprintf (BUFSIZE - nat ret) (full_headers siz)) content))"

definition xslt_playlist :: "string \<Rightarrow> string option" where
  "xslt_playlist fullpath =
     (if util_get_extension fullpath = ''vclt'' then Some ''vclt.xsl''
      else if util_get_extension fullpath = ''xspf'' then Some ''xspf.xsl''
      else None)"

text \<open>\<open>rng\<close> and \<open>host\<close> are the headers of the request.\<close>

definition fserve_client_create :: "fserve_env \<Rightarrow> string option \<Rightarrow> string option \<Rightarrow> string \<Rightarrow> fault + file_answer" where
  "fserve_client_create E rng host path =
     (let fullpath = util_get_path_from_normalised_uri (fe_webroot E) path;
          m3u = (util_get_extension fullpath = ''m3u'');
          xslt = xslt_playlist fullpath
      in case fe_disk E fullpath of
           None \<Rightarrow>
             if m3u then
               (case strrchr CHR ''.'' path of
                  None \<Rightarrow> Inl Null_deref
                | Some (sourceuri, _) \<Rightarrow>
                    (let (ret, hdr) = response_header E 200 ''audio/x-mpegurl'' (Some [])
                     in if no_room ret then Inr (File_error ICECAST_ERROR_GEN_HEADER_GEN_FAILED)
                        else Inr (Playlist_m3u (hdr @ snprintf (BUFSIZE - nat ret) (m3u_line E host sourceuri)))))
             else
               (case xslt of
                  Some xsl \<Rightarrow>
                    Inr (Playlist_xslt xsl (case strrchr CHR ''.'' path of Some (r, _) \<Rightarrow> r | None \<Rightarrow> path))
                | None \<Rightarrow> Inr (File_error ICECAST_ERROR_FSERV_FILE_NOT_FOUND))
         | Some fi \<Rightarrow>
             if fe_fileserve E = 0 then Inr (File_error ICECAST_ERROR_FSERV_FILE_NOT_FOUND)
             else if \<not> fi_regular fi then Inr (File_error ICECAST_ERROR_FSERV_FILE_NOT_FOUND)
             else
               (case fi_content fi of
                  None \<Rightarrow> Inr (File_error ICECAST_ERROR_FSERV_FILE_NOT_READABLE)
                | Some content \<Rightarrow> Inr (send_file E rng path (fi_size fi) content)))"

section \<open>Everything is sent, in order\<close>

text \<open>What a client is still to be sent.\<close>

definition outstanding :: "fserve_t \<Rightarrow> string" where
  "outstanding f = drop (fs_pos f) (fs_buf f) @ (case fs_file f of None \<Rightarrow> [] | Some c \<Rightarrow> c) @ concat (fs_next f)"

definition total :: "fserve_t \<Rightarrow> string" where
  "total f = fs_out f @ outstanding f"

definition fs_wf :: "fserve_t \<Rightarrow> bool" where
  "fs_wf f \<longleftrightarrow> fs_pos f \<le> length (fs_buf f)"

lemma grab_chunk_Some:
  assumes "grab_chunk f = Some g" and "fs_pos f = length (fs_buf f)"
  shows "total g = total f \<and> fs_id g = fs_id f \<and> fs_wf g"
  using assms
  by (auto simp: grab_chunk_def Let_def total_def outstanding_def fs_wf_def BUFSIZE_def
      split: if_splits option.splits list.splits)

lemma grab_chunk_None:
  assumes "grab_chunk f = None" and "fs_pos f = length (fs_buf f)"
  shows "outstanding f = []"
  using assms by (auto simp: grab_chunk_def Let_def outstanding_def BUFSIZE_def split: if_splits option.splits list.splits)

lemma write_total: "fs_wf f \<Longrightarrow> total (write_to_client s f) = total f"
proof (cases s)
  case (Took n)
  assume "fs_wf f"
  have "take n r @ drop (min n (length r)) r = r" for r :: string by (simp add: min_def)
  then show ?thesis using Took
    by (simp add: write_to_client_def Let_def total_def outstanding_def)
      (metis append_take_drop_id drop_drop add.commute min.absorb_iff2 nle_le drop_all length_drop)
qed (simp add: write_to_client_def total_def outstanding_def)

lemma write_same: "fs_id (write_to_client s f) = fs_id f" "fs_wf f \<Longrightarrow> fs_wf (write_to_client s f)"
  by (auto simp: write_to_client_def Let_def fs_wf_def split: sent.splits)

definition served_ok :: "fserve_t \<Rightarrow> served \<Rightarrow> bool" where
  "served_ok f r \<longleftrightarrow>
     (case r of
        Stays g \<Rightarrow> total g = total f \<and> fs_id g = fs_id f \<and> fs_wf g
      | Goes g \<Rightarrow> total g = total f \<and> fs_id g = fs_id f \<and> (fs_error g \<or> outstanding g = []))"

lemma serve_client_ok:
  assumes "fs_wf f"
  shows "served_ok f (serve_client s f)"
proof (cases "fs_ready f")
  case False
  then show ?thesis using assms by (simp add: serve_client_def served_ok_def)
next
  case True
  let ?f = "f\<lparr>fs_ready := False\<rparr>"
  have t: "total ?f = total f" "fs_id ?f = fs_id f" "fs_wf ?f" "outstanding ?f = outstanding f"
    using assms by (simp_all add: total_def outstanding_def fs_wf_def)
  show ?thesis
  proof (cases "if fs_pos ?f = length (fs_buf ?f) then grab_chunk ?f else Some ?f")
    case None
    then have "outstanding ?f = []" using grab_chunk_None [of ?f] by (simp split: if_splits)
    moreover have "serve_client s f = Goes ?f"
      using None True unfolding serve_client_def Let_def by (simp only: not_True_eq_False if_False option.case)
    ultimately show ?thesis using t by (simp add: served_ok_def)
  next
    case (Some g)
    then have g: "total g = total f" "fs_id g = fs_id f" "fs_wf g"
      using grab_chunk_Some [of ?f g] t by (auto split: if_splits)
    have "serve_client s f = (if fs_error (write_to_client s g) then Goes (write_to_client s g) else Stays (write_to_client s g))"
      using Some True unfolding serve_client_def Let_def by (simp only: not_True_eq_False if_False option.case)
    then show ?thesis using g write_total [OF g(3), of s] write_same by (auto simp: served_ok_def)
  qed
qed

lemma serve_all_ok:
  assumes "\<forall>f\<in>set fs. fs_wf f" and "serve_all sock_send fs = (act, gone)"
  shows "(\<forall>g\<in>set act. fs_wf g \<and> (\<exists>f\<in>set fs. fs_id f = fs_id g \<and> total f = total g))
    \<and> (\<forall>g\<in>set gone. (fs_error g \<or> outstanding g = []) \<and> (\<exists>f\<in>set fs. fs_id f = fs_id g \<and> total f = total g))
    \<and> mset (map fs_id act) + mset (map fs_id gone) = mset (map fs_id fs)"
  using assms
proof (induction fs arbitrary: act gone)
  case (Cons f fs)
  obtain act' gone' where r: "serve_all sock_send fs = (act', gone')" by fastforce
  note IH = Cons.IH [OF _ r]
  have o: "served_ok f (serve_client (sock_send (fs_id f)) f)" using Cons.prems(1) by (intro serve_client_ok) simp
  show ?case
  proof (cases "serve_client (sock_send (fs_id f)) f")
    case (Stays g)
    then have "act = g # act'" "gone = gone'" using Cons.prems(2) r by simp_all
    then show ?thesis using IH Cons.prems(1) o Stays by (auto simp: served_ok_def)
  next
    case (Goes g)
    then have "act = act'" "gone = g # gone'" using Cons.prems(2) r by simp_all
    then show ?thesis using IH Cons.prems(1) o Goes by (auto simp: served_ok_def)
  qed
qed simp

text \<open>The clients of the thread, and the state all of them are in order in.\<close>

definition everyone :: "fserve_state \<Rightarrow> fserve_t list" where
  "everyone s = pending_list s @ active_list s @ finished s"

definition fserve_ok :: "fserve_state \<Rightarrow> bool" where
  "fserve_ok s \<longleftrightarrow> (\<forall>f\<in>set (pending_list s @ active_list s). fs_wf f)
     \<and> (\<forall>f\<in>set (finished s). fs_error f \<or> outstanding f = [])"

definition same_clients :: "fserve_state \<Rightarrow> fserve_state \<Rightarrow> bool" where
  "same_clients s s' \<longleftrightarrow> mset (map fs_id (everyone s')) = mset (map fs_id (everyone s))
     \<and> (\<forall>g\<in>set (everyone s'). \<exists>f\<in>set (everyone s). fs_id f = fs_id g \<and> total f = total g)"

lemma same_clients_trans: "same_clients s t \<Longrightarrow> same_clients t u \<Longrightarrow> same_clients s u"
  unfolding same_clients_def by (metis (no_types, lifting))

lemma ready_same [simp]:
  "total (set_ready r f) = total f" "fs_id (set_ready r f) = fs_id f" "fs_wf (set_ready r f) = fs_wf f"
  by (simp_all add: set_ready_def total_def outstanding_def fs_wf_def)

lemma pass_ok:
  assumes "fserve_ok s"
  shows "fserve_ok (fserv_pass ready sock_send s) \<and> same_clients s (fserv_pass ready sock_send s)"
proof -
  let ?l = "map (set_ready ready) (rev (pending_list s) @ active_list s)"
  obtain act gone where r: "serve_all sock_send ?l = (act, gone)" by fastforce
  have wf: "\<forall>f\<in>set ?l. fs_wf f" using assms by (auto simp: fserve_ok_def)
  have eq: "fserv_pass ready sock_send s = s\<lparr>active_list := act, pending_list := [], finished := finished s @ gone\<rparr>"
    using r by (simp add: fserv_pass_def mark_ready_def take_pending_def Let_def)
  have m: "mset (map fs_id ?l) = mset (map fs_id (pending_list s)) + mset (map fs_id (active_list s))"
    by (simp add: comp_def)
  have old: "\<exists>f\<in>set (everyone s). fs_id f = fs_id g \<and> total f = total g"
    if "\<exists>f\<in>set ?l. fs_id f = fs_id g \<and> total f = total g" for g
    using that by (fastforce simp: everyone_def)
  note a = serve_all_ok [OF wf r]
  have "fserve_ok (fserv_pass ready sock_send s)"
    using a assms unfolding eq by (auto simp: fserve_ok_def)
  moreover have "mset (map fs_id (everyone (fserv_pass ready sock_send s))) = mset (map fs_id (everyone s))"
    using a m unfolding eq by (simp add: everyone_def ac_simps)
  moreover have "\<forall>g\<in>set (everyone (fserv_pass ready sock_send s)). \<exists>f\<in>set (everyone s). fs_id f = fs_id g \<and> total f = total g"
    using a old unfolding eq by (auto simp: everyone_def)
  ultimately show ?thesis by (simp add: same_clients_def)
qed

text \<open>Any number of passes, with any sockets ready and taking any number of bytes.\<close>

fun run_passes :: "((nat \<Rightarrow> bool) \<times> (nat \<Rightarrow> sent)) list \<Rightarrow> fserve_state \<Rightarrow> fserve_state" where
  "run_passes [] s = s"
| "run_passes ((ready, sock_send) # ps) s = run_passes ps (fserv_pass ready sock_send s)"

lemma passes_ok: "fserve_ok s \<Longrightarrow> fserve_ok (run_passes ps s) \<and> same_clients s (run_passes ps s)"
proof (induction ps s rule: run_passes.induct)
  case (1 s)
  then show ?case by (auto simp: same_clients_def)
next
  case (2 ready sock_send ps s)
  then show ?case using pass_ok [OF 2(2), of ready sock_send] same_clients_trans by fastforce
qed

text \<open>
  C32: The file serving thread sends every client exactly its response: whatever sockets are ready, in
  whatever portions they take the data, what a client has got is always the beginning of its
  buffer, its file and the buffers that follow, in this order; a client leaves when it has got all of
  it or its connection failed, and no client is lost or added.
\<close>

theorem fserve_sends_response:
  assumes "fserve_ok s" and "distinct (map fs_id (everyone s))"
    and "f \<in> set (everyone s)" and "g \<in> set (everyone (run_passes ps s))" and "fs_id g = fs_id f"
  shows "(\<exists>rest. fs_out g @ rest = fs_out f @ outstanding f)
    \<and> (g \<in> set (finished (run_passes ps s)) \<and> \<not> fs_error g \<longrightarrow> fs_out g = fs_out f @ outstanding f)
    \<and> mset (map fs_id (everyone (run_passes ps s))) = mset (map fs_id (everyone s))"
proof -
  have p: "fserve_ok (run_passes ps s)" "same_clients s (run_passes ps s)" using passes_ok [OF assms(1)] by simp_all
  then obtain f' where f': "f' \<in> set (everyone s)" "fs_id f' = fs_id g" "total f' = total g"
    using assms(4) unfolding same_clients_def by blast
  have "f' = f" using f'(1, 2) assms(2, 3, 5) by (metis eq_key_imp_eq_value distinct_map inj_on_def)
  then have t: "fs_out g @ outstanding g = fs_out f @ outstanding f" using f'(3) by (simp add: total_def)
  then have "g \<in> set (finished (run_passes ps s)) \<and> \<not> fs_error g \<longrightarrow> fs_out g = fs_out f @ outstanding f"
    using p(1) by (auto simp: fserve_ok_def)
  with t p(2) show ?thesis unfolding same_clients_def by blast
qed

definition one_file :: fserve_state where
  "one_file = fserve_add_client 3 [''head''] (Some ''body'') False
     \<lparr>active_list = [], pending_list = [], run_fserv = False, finished = []\<rparr>"

theorem fserve_sends_response_witness:
  "\<exists>g. finished (run_passes (replicate 3 (\<lambda>_. True, \<lambda>_. Took 9)) one_file) = [g] \<and> fs_out g = ''headbody''"
proof -
  let ?s = "run_passes (replicate 3 (\<lambda>_. True, \<lambda>_. Took 9)) one_file"
  obtain f where f: "pending_list one_file = [f]" "fs_id f = 3" "fs_out f @ outstanding f = ''headbody''"
    "active_list one_file = []" "finished one_file = []"
    by (simp add: one_file_def fserve_add_client_def fserve_add_pending_def outstanding_def)
  have "map (\<lambda>g. (fs_id g, fs_error g)) (finished ?s) = [(3, False)]" by code_simp
  then obtain g where g: "finished ?s = [g]" "fs_id g = 3" "\<not> fs_error g" by auto
  have "fserve_ok one_file"
    by (simp add: fserve_ok_def one_file_def fserve_add_client_def fserve_add_pending_def fs_wf_def)
  from fserve_sends_response [OF this, of f g "replicate 3 (\<lambda>_. True, \<lambda>_. Took 9)"] f g show ?thesis
    by (auto simp: everyone_def)
qed

section \<open>Ranges\<close>

definition header_fits :: "fserve_env \<Rightarrow> int \<Rightarrow> string \<Rightarrow> bool" where
  "header_fits E status path \<longleftrightarrow> \<not> no_room (fst (response_header E status (fserve_content_type (fe_mimes E) path) None))"

text \<open>
  A request with a range is refused exactly if the range gives no start or one before the beginning
  or behind the end of the file. Otherwise the client gets the rest of the file from there on, with
  a content length that is the number of bytes that follow; the range of the headers is that of the
  bytes sent, except that a range that starts right at the end of the file is answered with no
  bytes and an end before its start.
\<close>

theorem range_answer:
  assumes "header_fits E 206 path" and "siz = int (length content)"
  shows "case range_start r of
     None \<Rightarrow> send_file E (Some r) path siz content = File_error ICECAST_ERROR_FSERV_REQUEST_RANGE_NOT_SATISFIABLE
   | Some start \<Rightarrow>
       if start < 0 \<or> siz < start
       then send_file E (Some r) path siz content = File_error ICECAST_ERROR_FSERV_REQUEST_RANGE_NOT_SATISFIABLE
       else (\<exists>hdr room. send_file E (Some r) path siz content =
               File_response 206 (hdr @ snprintf room (range_headers start siz)) (drop (nat start) content))
         \<and> fst (range_numbers start siz) = int (length (drop (nat start) content))
         \<and> (start < siz \<longrightarrow> snd (range_numbers start siz) = start + int (length (drop (nat start) content)) - 1)
         \<and> (start = siz \<and> 0 < siz \<longrightarrow> snd (range_numbers start siz) = start - 1)"
proof (cases "range_start r")
  case None
  then show ?thesis by (simp add: send_file_def)
next
  case (Some start)
  obtain ret hdr where h: "response_header E 206 (fserve_content_type (fe_mimes E) path) None = (ret, hdr)" by fastforce
  then have "\<not> no_room ret" using assms(1) by (simp add: header_fits_def)
  then show ?thesis using Some h assms(2) by (auto simp: send_file_def range_numbers_def Let_def)
qed

definition plain_env :: fserve_env where
  "plain_env = \<lparr>fe_fnm = (=), fe_date = None, fe_config = \<lparr>server_id = ''Icecast'', cfg_headers = [], cfg_mounts = []\<rparr>,
     fe_client = None, fe_webroot = ''/web'', fe_hostname = ''localhost'', fe_port = 8000, fe_fileserve = 1,
     fe_disk = (\<lambda>_. None), fe_mimes = None\<rparr>"

theorem range_answer_witness:
  "\<exists>hdr room. send_file plain_env (Some ''bytes=2-'') ''/a.txt'' 4 ''abcd'' = File_response 206 (hdr @ snprintf room (range_headers 2 4)) ''cd''"
proof -
  have f: "header_fits plain_env 206 ''/a.txt''" by code_simp
  have s: "range_start ''bytes=2-'' = Some 2" by code_simp
  show ?thesis using range_answer [OF f, of 4 "''abcd''" "''bytes=2-''"] s by (simp add: numeral_2_eq_2)
qed

section \<open>The file of MIME types\<close>

definition mime_word :: "string \<Rightarrow> bool" where
  "mime_word w \<longleftrightarrow> w \<noteq> [] \<and> (\<forall>c\<in>set w. \<not> word_end c)"

text \<open>A line of the file without its end.\<close>

definition mime_entry :: "string \<Rightarrow> string list \<Rightarrow> string" where
  "mime_entry type exts = type @ CHR '' '' # join CHR '' '' exts"

lemma word_chars: "mime_word w \<Longrightarrow> c \<in> set w \<Longrightarrow> \<not> blank c \<and> c \<noteq> NUL \<and> \<not> word_end c"
  by (auto simp: mime_word_def word_end_def)

lemma exts_loop_word:
  assumes "mime_word w" and "word_end e"
  shows "exts_loop type (w @ e # rest) m = exts_loop type rest (m(w \<mapsto> type))"
proof -
  obtain c cs where w: "w = c # cs" using assms(1) by (cases w) (auto simp: mime_word_def)
  have c: "\<not> blank c" "c \<noteq> NUL" using word_chars [OF assms(1), of c] w by simp_all
  have t: "takeWhile (\<lambda>c. \<not> word_end c) (w @ e # rest) = w" "dropWhile (\<lambda>c. \<not> word_end c) (w @ e # rest) = e # rest"
    using word_chars [OF assms(1)] assms(2) by (simp_all add: takeWhile_append dropWhile_append)
  show ?thesis using c t w by (subst exts_loop.simps) (simp add: Let_def)
qed

lemma blank_word_end [simp]: "word_end CHR '' ''" "word_end CHR 0x0A" "word_end NUL"
  by (simp_all add: word_end_def blank_def)

lemma exts_loop_words:
  "exts \<noteq> [] \<Longrightarrow> \<forall>w\<in>set exts. mime_word w \<Longrightarrow> word_end e \<Longrightarrow>
     exts_loop type (join CHR '' '' exts @ e # rest) m = exts_loop type rest (fold (\<lambda>w m. m(w \<mapsto> type)) exts m)"
proof (induction exts arbitrary: m)
  case (Cons w ws)
  show ?case
  proof (cases ws)
    case Nil
    then show ?thesis using Cons.prems exts_loop_word by (simp del: fun_upd_apply)
  next
    case (Cons v vs)
    have "join CHR '' '' (w # ws) @ e # rest = w @ CHR '' '' # (join CHR '' '' ws @ e # rest)" by (simp add: Cons)
    then show ?thesis using Cons.IH Cons.prems Cons exts_loop_word [of w "CHR '' ''"] by (simp del: fun_upd_apply)
  qed
qed simp

lemma mime_line_entry:
  assumes "mime_word type" and "hd type \<noteq> CHR ''#''" and "exts \<noteq> []" and "\<forall>w\<in>set exts. mime_word w" and "word_end e"
  shows "mime_line (mime_entry type exts @ e # rest) m = exts_loop type rest (fold (\<lambda>w m. m(w \<mapsto> type)) exts m)"
proof -
  obtain c cs where w: "type = c # cs" using assms(1) by (cases type) (auto simp: mime_word_def)
  let ?r = "CHR '' '' # join CHR '' '' exts @ e # rest"
  have t: "takeWhile (\<lambda>c. \<not> blank c \<and> c \<noteq> NUL) (type @ ?r) = type"
    "dropWhile (\<lambda>c. \<not> blank c \<and> c \<noteq> NUL) (type @ ?r) = ?r"
    using word_chars [OF assms(1)] by (simp_all add: takeWhile_append dropWhile_append blank_def)
  have n: "c \<noteq> NUL" using word_chars [OF assms(1), of c] w by simp
  have "mime_line (type @ ?r) m = exts_loop type (join CHR '' '' exts @ e # rest) m"
    unfolding mime_line_def using t w n assms(2) by (simp add: NUL_def)
  then show ?thesis using exts_loop_words [OF assms(3-5)] by (simp add: mime_entry_def)
qed

text \<open>
  A line of the file with a type and its extensions gives each extension this type, if it ends in a
  line feed. On a line without one, as the last line of a file may be, the code goes on behind the
  end of the line with what the buffer holds from the lines before.
\<close>

theorem mime_types_read:
  assumes "mime_word type" and "hd type \<noteq> CHR ''#''" and "exts \<noteq> []" and "\<forall>w\<in>set exts. mime_word w"
  shows "mime_line (into_buffer (mime_entry type exts @ [CHR 0x0A]) buf) m = Inr (fold (\<lambda>w m. m(w \<mapsto> type)) exts m)
    \<and> mime_line (into_buffer (mime_entry type exts) buf) m =
        exts_loop type (drop (Suc (length (mime_entry type exts))) buf) (fold (\<lambda>w m. m(w \<mapsto> type)) exts m)"
proof -
  have n: "exts_loop type (NUL # rest) m' = Inr m'" for rest m'
    by (subst exts_loop.simps) (simp add: blank_def NUL_def)
  show ?thesis
    using mime_line_entry [OF assms, of "CHR 0x0A"] mime_line_entry [OF assms, of NUL] n
    by (simp add: into_buffer_def)
qed

theorem mime_types_read_witness:
  "mime_line (into_buffer (''a/b x'' @ [CHR 0x0A]) []) Map.empty = Inr [''x'' \<mapsto> ''a/b'']
   \<and> mime_line (into_buffer ''a/b x'' (''a/b x y'' @ [CHR 0x0A, NUL])) Map.empty
        = exts_loop ''a/b'' [CHR ''y'', CHR 0x0A, NUL] [''x'' \<mapsto> ''a/b'']"
  using mime_types_read [of "''a/b''" "[''x'']" "[]" Map.empty]
    mime_types_read [of "''a/b''" "[''x'']" "''a/b x y'' @ [CHR 0x0A, NUL]" Map.empty]
  by (simp add: mime_word_def mime_entry_def word_end_def blank_def NUL_def)

end
