(* ===== verification/EBML_Ints.thy ===== *)
theory EBML_Ints
  imports Interfaces
begin

text \<open>
  The numbers of EBML, from \<^verbatim>\<open>format_ebml.c\<close>: \<^verbatim>\<open>ebml_parse_var_int\<close>, \<^verbatim>\<open>ebml_parse_sized_int\<close> and
  \<^verbatim>\<open>ebml_parse_tag\<close>. A buffer between two pointers is the list of its bytes; values are words of 64
  bits, as in the code. The three answers of the functions (0, -1 and a length with a value) are the
  constructors of \<open>parsed\<close>. It is shown that a number that was encoded is read back, that the
  answers do not change when more bytes arrive, and how many bytes they need at most.
\<close>

unbundle bit_operations_syntax

section \<open>Model\<close>

definition EBML_UNKNOWN :: u64 where
  "EBML_UNKNOWN = - 1"

datatype parsed = Incomplete | Corrupt | Parsed nat u64

text \<open>The length marker: the first set bit of the first byte.\<close>

function find_marker :: "nat \<Rightarrow> byte \<Rightarrow> u64 \<Rightarrow> (nat \<times> byte) option" where
  "find_marker sz msk value =
     (if msk = 0 then None
      else if value AND ucast msk \<noteq> 0 then Some (sz, msk)
      else find_marker (sz + 1) (drop_bit 1 msk) value)"
  by pat_completeness auto
termination
proof (relation "measure (\<lambda>(sz, msk, value). unat msk)")
  fix sz :: nat and msk :: byte and v :: u64
  assume "msk \<noteq> 0"
  then have "unat msk \<noteq> 0" by (simp add: unat_eq_zero)
  then show "((sz + 1, drop_bit 1 msk, v), sz, msk, v) \<in> measure (\<lambda>(sz, msk, value). unat msk)"
    by (simp add: drop_bit_Suc unat_div)
qed simp

declare find_marker.simps [simp del]

text \<open>The remaining bytes: the value and the value that stands for an unknown one.\<close>

definition var_int_rest :: "byte list \<Rightarrow> u64 \<times> u64 \<Rightarrow> u64 \<times> u64" where
  "var_int_rest bs vu =
     fold (\<lambda>b (value, unknown_marker). (push_bit 8 value + ucast b, push_bit 8 unknown_marker + 0xFF)) bs vu"

definition ebml_parse_var_int :: "byte list \<Rightarrow> parsed" where
  "ebml_parse_var_int buf =
     (if buf = [] then Incomplete
      else
        (let value = ucast (hd buf)
         in case find_marker 1 0x80 value of
              None \<Rightarrow> Corrupt
            | Some (sz, msk) \<Rightarrow>
                if length buf \<le> sz - 1 then Incomplete
                else
                  (let (value, unknown_marker) =
                         var_int_rest (take (sz - 1) (tl buf)) (value AND NOT (ucast msk), ucast (msk - 1))
                   in Parsed sz (if value = unknown_marker then EBML_UNKNOWN else value))))"

definition ebml_parse_sized_int :: "byte list \<Rightarrow> u64 \<Rightarrow> bool \<Rightarrow> parsed" where
  "ebml_parse_sized_int buf len is_signed =
     (if len < 1 \<or> len > 8 then Corrupt
      else if length buf \<le> unat len then Incomplete
      else
        (let value = (if is_signed \<and> bit (hd buf) 7 then - 1 else 0)
         in Parsed (unat len) (fold (\<lambda>b value. push_bit 8 value + ucast b) (take (unat len) buf) value)))"

datatype tag = Tag_incomplete | Tag_corrupt | Tag nat u64 u64

definition ebml_parse_tag :: "byte list \<Rightarrow> tag" where
  "ebml_parse_tag buf =
     (case ebml_parse_var_int buf of
        Incomplete \<Rightarrow> Tag_incomplete
      | Corrupt \<Rightarrow> Tag_corrupt
      | Parsed type_length tag_id \<Rightarrow>
          (case ebml_parse_var_int (drop type_length buf) of
             Incomplete \<Rightarrow> Tag_incomplete
           | Corrupt \<Rightarrow> Tag_corrupt
           | Parsed size_length payload_length \<Rightarrow> Tag (type_length + size_length) tag_id payload_length))"

section \<open>Numbers as they are written\<close>

text \<open>A number in so many bytes, the most significant first.\<close>

fun be_bytes :: "nat \<Rightarrow> nat \<Rightarrow> byte list" where
  "be_bytes 0 x = []"
| "be_bytes (Suc n) x = be_bytes n (x div 256) @ [of_nat x]"

text \<open>A number of EBML in \<open>n\<close> bytes: a marker bit, then seven bits for each byte.\<close>

definition ebml_var_int :: "nat \<Rightarrow> nat \<Rightarrow> byte list" where
  "ebml_var_int n v = be_bytes n (2 ^ (7 * n) + v)"

lemma length_be_bytes [simp]: "length (be_bytes n x) = n"
  by (induction n arbitrary: x) auto

lemma be_bytes_Cons: "be_bytes (Suc n) x = of_nat (x div 256 ^ n) # be_bytes n x"
proof (induction n arbitrary: x)
  case (Suc n)
  have "be_bytes (Suc (Suc n)) x = be_bytes (Suc n) (x div 256) @ [of_nat x]" by simp
  also have "\<dots> = of_nat (x div 256 div 256 ^ n) # be_bytes n (x div 256) @ [of_nat x]" by (simp only: Suc.IH append_Cons)
  finally show ?case by (simp add: div_mult2_eq)
qed simp

lemma ucast_of_nat_byte: "(ucast (word_of_nat x :: byte) :: u64) = word_of_nat (x mod 256)"
  by (simp add: unsigned_of_nat take_bit_eq_mod)

lemma step_be: "push_bit 8 (word_of_nat a :: u64) + word_of_nat (x mod 256) = word_of_nat (a * 256 + x mod 256)"
  by (simp add: push_bit_eq_mult)

lemma fold_be_bytes:
  "fold (\<lambda>b value. push_bit 8 value + ucast b) (be_bytes n x) (word_of_nat a :: u64)
     = word_of_nat (a * 256 ^ n + x mod 256 ^ n)"
proof (induction n arbitrary: x)
  case (Suc n)
  have m: "(a * 256 ^ n + x div 256 mod 256 ^ n) * 256 + x mod 256 = a * 256 ^ Suc n + x mod 256 ^ Suc n"
    using mod_mult2_eq [of x 256 "256 ^ n"] by (simp add: algebra_simps)
  show ?case by (simp only: be_bytes.simps fold_append Suc.IH fold_Cons fold_Nil comp_def id_apply
      ucast_of_nat_byte step_be m)
qed simp

lemma var_int_rest_eq:
  "var_int_rest bs (v, u) =
     (fold (\<lambda>b value. push_bit 8 value + ucast b) bs v,
      fold (\<lambda>b value. push_bit 8 value + ucast b) (replicate (length bs) (0xFF :: byte)) u)"
  by (induction bs arbitrary: v u) (simp_all add: var_int_rest_def)

text \<open>The first byte decides the length: its marker bit is the highest bit that is set.\<close>

definition marked :: "nat \<Rightarrow> nat \<Rightarrow> bool" where
  "marked k r \<longleftrightarrow>
     (let b = word_of_nat (2 ^ (7 - k) + r) :: byte
      in find_marker 1 0x80 (ucast b) = Some (Suc k, 2 ^ (7 - k))
         \<and> (ucast b AND NOT (ucast (2 ^ (7 - k) :: byte)) :: u64) = word_of_nat r)"

lemma all_marked: "list_all (\<lambda>k. list_all (marked k) [0..<2 ^ (7 - k)]) [0..<8]"
  by code_simp

lemma find_marker_first: "k < 8 \<Longrightarrow> r < 2 ^ (7 - k) \<Longrightarrow> marked k r"
  using all_marked by (auto simp: list_all_iff)

lemma find_marker_zero: "find_marker 1 0x80 0 = None"
  by code_simp

lemma unat_byte: "unat (b :: byte) < 256"
  using unsigned_less [of b, where 'a = nat] by simp

lemma byte_marker:
  assumes "b \<noteq> (0 :: byte)"
  obtains k r where "k < 8" "r < 2 ^ (7 - k)" "b = word_of_nat (2 ^ (7 - k) + r)"
proof -
  have l: "\<forall>n\<in>set [1..<256]. \<exists>k\<in>set [0..<8]. 2 ^ (7 - k) \<le> n \<and> n < 2 * (2 :: nat) ^ (7 - k)" by code_simp
  have "unat b \<noteq> 0" "unat b < 256" using assms unat_byte by (simp_all add: unat_eq_zero)
  then have "unat b \<in> set [1..<256]" by simp
  from bspec [OF l this] obtain k where "k \<in> set [0..<8]" "2 ^ (7 - k) \<le> unat b \<and> unat b < 2 * 2 ^ (7 - k)" by blast
  then have k: "k < 8" "2 ^ (7 - k) \<le> unat b" "unat b < 2 * 2 ^ (7 - k)" by simp_all
  have "b = word_of_nat (2 ^ (7 - k) + (unat b - 2 ^ (7 - k)))" using k(2) by simp
  then show ?thesis using that [of k "unat b - 2 ^ (7 - k)"] k by linarith
qed

lemma bytes_are_be: "\<exists>x. x < 256 ^ length bs \<and> bs = be_bytes (length bs) x"
proof (induction bs rule: rev_induct)
  case (snoc b bs)
  then obtain x where x: "x < 256 ^ length bs" "bs = be_bytes (length bs) x" by auto
  let ?y = "x * 256 + unat b"
  have b: "unat b < 256" by (rule unat_byte)
  then have "?y div 256 = x" by simp
  moreover have "(word_of_nat ?y :: byte) = b"
    by (simp only: word_unat_eq_iff unat_of_nat) (use b in simp)
  moreover have "?y < 256 ^ Suc (length bs)"
  proof -
    have "?y < (x + 1) * 256" using b by simp
    also have "\<dots> \<le> 256 ^ length bs * 256" using x(1) by (intro mult_right_mono) auto
    finally show ?thesis by simp
  qed
  ultimately show ?case using x(2) by (intro exI [of _ ?y]) simp
qed simp

lemma u64_of_nat_eq: "a < 2 ^ 64 \<Longrightarrow> b < 2 ^ 64 \<Longrightarrow> (word_of_nat a :: u64) = word_of_nat b \<longleftrightarrow> a = b"
  by (simp add: word_of_nat_eq_iff take_bit_nat_eq_self)

lemma fold_FF:
  "fold (\<lambda>b value. push_bit 8 value + ucast b) (replicate k (0xFF :: byte)) (word_of_nat u :: u64)
     = word_of_nat ((u + 1) * 256 ^ k - 1)"
proof (induction k arbitrary: u)
  case (Suc k)
  have "push_bit 8 (word_of_nat u :: u64) + ucast (0xFF :: byte) = word_of_nat (u * 256 + 255)"
    by (simp add: push_bit_eq_mult)
  moreover have "(u * 256 + 255 + 1) * 256 ^ k = (u + 1) * 256 ^ Suc k" by (simp add: algebra_simps)
  ultimately show ?case using Suc.IH [of "u * 256 + 255"] by (simp only: replicate_Suc fold_Cons comp_def)
qed simp

lemma parse_var_int_Cons:
  assumes "find_marker 1 0x80 (ucast b) = Some (Suc k, m)" and "length bs = k"
  shows "ebml_parse_var_int (b # bs @ rest) =
     (case var_int_rest bs (ucast b AND NOT (ucast m), ucast (m - 1)) of
        (v, u) \<Rightarrow> Parsed (Suc k) (if v = u then EBML_UNKNOWN else v))"
  using assms by (simp add: ebml_parse_var_int_def)

text \<open>What a number in \<open>k + 1\<close> bytes is read as.\<close>

lemma parse_var_int_value:
  assumes "k < 8" "r < 2 ^ (7 - k)" "x < 256 ^ k"
  shows "ebml_parse_var_int (word_of_nat (2 ^ (7 - k) + r) # be_bytes k x @ rest) =
     Parsed (Suc k) (if r * 256 ^ k + x = 2 ^ (7 * Suc k) - 1 then EBML_UNKNOWN else word_of_nat (r * 256 ^ k + x))"
proof -
  let ?b = "word_of_nat (2 ^ (7 - k) + r) :: byte" and ?v = "r * 256 ^ k + x"
  have m: "find_marker 1 0x80 (ucast ?b) = Some (Suc k, 2 ^ (7 - k))"
    "(ucast ?b AND NOT (ucast (2 ^ (7 - k) :: byte)) :: u64) = word_of_nat r"
    using find_marker_first [OF assms(1, 2)] by (simp_all add: marked_def Let_def)
  have e: "(7 - k) + 8 * k = 7 * Suc k" using assms(1) by simp
  have p: "2 ^ (7 - k) * 256 ^ k = (2 :: nat) ^ (7 * Suc k)"
    by (simp only: e [symmetric] power_add power_mult) simp
  have "(2 ^ (7 - k) :: byte) - 1 = word_of_nat (2 ^ (7 - k) - 1)" by (simp add: of_nat_diff)
  moreover have "2 ^ (7 - k) - 1 < (256 :: nat)"
    using power_increasing [of "7 - k" 7 "2 :: nat"] by simp
  ultimately have u: "(ucast ((2 ^ (7 - k) :: byte) - 1) :: u64) = word_of_nat (2 ^ (7 - k) - 1)"
    by (simp only: ucast_of_nat_byte) simp
  have w: "fold (\<lambda>b value. push_bit 8 value + ucast b) (replicate k (0xFF :: byte)) (ucast ((2 ^ (7 - k) :: byte) - 1) :: u64)
      = word_of_nat (2 ^ (7 * Suc k) - 1)" unfolding u fold_FF by (simp add: p)
  have "(r + 1) * 256 ^ k \<le> 2 ^ (7 - k) * 256 ^ k" using assms(2) by (intro mult_right_mono) auto
  then have v: "?v < 2 ^ (7 * Suc k)" using assms(3) p by simp
  have "(2 :: nat) ^ (7 * Suc k) \<le> 2 ^ 56" using assms(1) by (intro power_increasing) auto
  then have lt: "?v < 2 ^ 64" "2 ^ (7 * Suc k) - 1 < (2 :: nat) ^ 64" using v by simp_all
  have eq: "(word_of_nat ?v :: u64) = word_of_nat (2 ^ (7 * Suc k) - 1) \<longleftrightarrow> ?v = 2 ^ (7 * Suc k) - 1"
    using lt by (rule u64_of_nat_eq)
  have "ebml_parse_var_int (?b # be_bytes k x @ rest) =
      Parsed (Suc k) (if (word_of_nat ?v :: u64) = word_of_nat (2 ^ (7 * Suc k) - 1) then EBML_UNKNOWN else word_of_nat ?v)"
    using parse_var_int_Cons [OF m(1) length_be_bytes, of x rest] fold_be_bytes [of k x r] mod_less [OF assms(3)]
    by (simp only: m(2) var_int_rest_eq length_be_bytes w prod.case)
  then show ?thesis by (simp only: eq)
qed

lemma parse_var_int_cases:
  assumes "ebml_parse_var_int buf = Parsed n v"
  obtains k r x rest where "n = Suc k" "k < 8" "r < 2 ^ (7 - k)" "x < 256 ^ k"
    "buf = word_of_nat (2 ^ (7 - k) + r) # be_bytes k x @ rest"
proof -
  from assms obtain b bs where b: "buf = b # bs" by (cases buf) (auto simp: ebml_parse_var_int_def)
  with assms have "b \<noteq> 0" by (auto simp: ebml_parse_var_int_def find_marker_zero [simplified])
  then obtain k r where k: "k < 8" "r < 2 ^ (7 - k)" "b = word_of_nat (2 ^ (7 - k) + r)" by (rule byte_marker)
  with find_marker_first [OF k(1, 2)] have "find_marker 1 0x80 (ucast b) = Some (Suc k, 2 ^ (7 - k))"
    by (simp add: marked_def Let_def)
  with assms b have n: "n = Suc k" "k \<le> length bs"
    by (auto simp: ebml_parse_var_int_def Let_def split: if_splits prod.splits)
  obtain x where x: "x < 256 ^ k" "take k bs = be_bytes k x" using bytes_are_be [of "take k bs"] n(2) by auto
  show ?thesis using that [OF n(1) k(1, 2) x(1), of "drop k bs"] b k(3) x(2)
    by (metis append_take_drop_id)
qed

section \<open>Reading back\<close>

lemma ebml_var_int_bytes:
  assumes "k < 8" and "v < 2 ^ (7 * Suc k)"
  shows "ebml_var_int (Suc k) v = word_of_nat (2 ^ (7 - k) + v div 256 ^ k) # be_bytes k (v mod 256 ^ k)"
    and "v div 256 ^ k < 2 ^ (7 - k)"
proof -
  have e: "(7 - k) + 8 * k = 7 * Suc k" using assms(1) by simp
  have p: "(2 :: nat) ^ (7 * Suc k) = 256 ^ k * 2 ^ (7 - k)"
    by (simp only: e [symmetric] power_add power_mult) simp
  show "v div 256 ^ k < 2 ^ (7 - k)" using assms(2) p by (simp add: less_mult_imp_div_less mult.commute)
  have d: "(256 ^ k * 2 ^ (7 - k) + v) div 256 ^ k = 2 ^ (7 - k) + v div (256 :: nat) ^ k" by simp
  have "be_bytes k (256 ^ k * a + v) = be_bytes k (v mod 256 ^ k)" for a
  proof (induction k arbitrary: v)
    case (Suc k)
    have "(256 ^ Suc k * a + v) div 256 = 256 ^ k * a + v div 256" by simp
    moreover have "v mod 256 ^ Suc k div 256 = v div 256 mod 256 ^ k"
      using mod_mult2_eq [of v 256 "256 ^ k"] by simp
    moreover have "(word_of_nat (256 ^ Suc k * a + v) :: byte) = word_of_nat (v mod 256 ^ Suc k)"
      by (simp only: word_unat_eq_iff unat_of_nat) (simp add: mod_mod_cancel mult.assoc)
    ultimately show ?case using Suc.IH [of "v div 256"] by (simp only: be_bytes.simps)
  qed simp
  then show "ebml_var_int (Suc k) v = word_of_nat (2 ^ (7 - k) + v div 256 ^ k) # be_bytes k (v mod 256 ^ k)"
    by (simp only: ebml_var_int_def p be_bytes_Cons d)
qed

lemma var_int_read_back:
  assumes "0 < n" and "n \<le> 8" and "v < 2 ^ (7 * n)"
  shows "ebml_parse_var_int (ebml_var_int n v @ rest) =
       Parsed n (if v = 2 ^ (7 * n) - 1 then EBML_UNKNOWN else word_of_nat v)"
    and "m < n \<Longrightarrow> ebml_parse_var_int (take m (ebml_var_int n v)) = Incomplete"
proof -
  obtain k where k: "n = Suc k" "k < 8" using assms(1, 2) by (cases n) auto
  note b = ebml_var_int_bytes [OF k(2), of v]
  have v: "v < 2 ^ (7 * Suc k)" using assms(3) k(1) by simp
  let ?b = "word_of_nat (2 ^ (7 - k) + v div 256 ^ k) :: byte"
  have r: "v div 256 ^ k * 256 ^ k + v mod 256 ^ k = v" by (rule div_mult_mod_eq)
  show "ebml_parse_var_int (ebml_var_int n v @ rest) =
      Parsed n (if v = 2 ^ (7 * n) - 1 then EBML_UNKNOWN else word_of_nat v)"
    using parse_var_int_value [OF k(2) b(2) [OF v], of "v mod 256 ^ k" rest]
    by (simp only: k(1) b(1) [OF v] append_Cons r) simp
  have "find_marker 1 0x80 (ucast ?b) = Some (Suc k, 2 ^ (7 - k))"
    using find_marker_first [OF k(2) b(2) [OF v]] by (simp only: marked_def Let_def)
  then show "m < n \<Longrightarrow> ebml_parse_var_int (take m (ebml_var_int n v)) = Incomplete"
    by (cases m) (simp_all add: ebml_parse_var_int_def k(1) b(1) [OF v] del: of_nat_add of_nat_power)
qed

text \<open>
  A variable-length number is read back, whatever length was chosen for it and whatever follows; the
  number with all bits set is the unknown one, and while bytes of it are missing the function asks
  for more.
\<close>

theorem var_int_roundtrip:
  assumes "0 < n" and "n \<le> 8" and "v < 2 ^ (7 * n)"
  shows "ebml_parse_var_int (ebml_var_int n v @ rest) =
       Parsed n (if v = 2 ^ (7 * n) - 1 then EBML_UNKNOWN else word_of_nat v)
     \<and> (m < n \<longrightarrow> ebml_parse_var_int (take m (ebml_var_int n v)) = Incomplete)"
  using var_int_read_back [OF assms] by blast

theorem var_int_roundtrip_witness:
  "ebml_parse_var_int (ebml_var_int 2 500 @ [7]) = Parsed 2 500
   \<and> ebml_parse_var_int (take 1 (ebml_var_int 2 500)) = Incomplete"
  using var_int_roundtrip [of 2 500 "[7]" 1] by simp

text \<open>The numbers with their lengths as a code.\<close>

definition read_var_int :: "byte list \<Rightarrow> (nat \<times> nat) option" where
  "read_var_int bs = (case ebml_parse_var_int bs of Parsed n v \<Rightarrow> Some (n, unat v) | _ \<Rightarrow> None)"

interpretation var_int: codec "\<lambda>(n, v). ebml_var_int n v" read_var_int
  "\<lambda>(n, v). 0 < n \<and> n \<le> 8 \<and> v < 2 ^ (7 * n) - 1"
proof
  fix x :: "nat \<times> nat"
  obtain n v where x: "x = (n, v)" by (cases x)
  assume "case x of (n, v) \<Rightarrow> 0 < n \<and> n \<le> 8 \<and> v < 2 ^ (7 * n) - 1"
  then have n: "0 < n" "n \<le> 8" "v < 2 ^ (7 * n)" "v \<noteq> 2 ^ (7 * n) - 1" using x by auto
  have "(2 :: nat) ^ (7 * n) \<le> 2 ^ 56" using n(2) by (intro power_increasing) auto
  then have "unat (word_of_nat v :: u64) = v" using n(3) by (simp add: unat_of_nat)
  then show "read_var_int (case x of (n, v) \<Rightarrow> ebml_var_int n v) = Some x"
    using var_int_read_back(1) [OF n(1-3), of "[]"] n(4) x by (simp add: read_var_int_def)
qed

text \<open>
  The fixed-size numbers: read back if a further byte follows; without one the function asks for
  more although the number is complete.
\<close>

theorem sized_int_roundtrip:
  assumes "0 < n" and "n \<le> 8" and "x < 256 ^ n"
  shows "ebml_parse_sized_int (be_bytes n x @ b # rest) (word_of_nat n) False = Parsed n (word_of_nat x)
    \<and> ebml_parse_sized_int (be_bytes n x) (word_of_nat n) s = Incomplete"
proof -
  have u: "unat (word_of_nat n :: u64) = n" using assms(2) by (simp add: unat_of_nat)
  then have "\<not> (word_of_nat n < (1 :: u64) \<or> word_of_nat n > (8 :: u64))"
    using assms(1, 2) by (simp add: word_less_nat_alt)
  with u show ?thesis using fold_be_bytes [of n x 0] assms(3) by (simp add: ebml_parse_sized_int_def)
qed

theorem sized_int_roundtrip_witness:
  "ebml_parse_sized_int (be_bytes 2 258 @ [9]) 2 False = Parsed 2 258
   \<and> ebml_parse_sized_int (be_bytes 2 258) 2 False = Incomplete"
  using sized_int_roundtrip [of 2 258 9 "[]" False] by simp

section \<open>What the parser needs\<close>

lemma var_int_bounds:
  assumes "ebml_parse_var_int buf = Parsed n v"
  shows "0 < n" "n \<le> 8" "n \<le> length buf" "v = EBML_UNKNOWN \<or> unat v < 2 ^ 56"
proof -
  from assms obtain k r x rest where k: "n = Suc k" "k < 8" "r < 2 ^ (7 - k)" "x < 256 ^ k"
    "buf = word_of_nat (2 ^ (7 - k) + r) # be_bytes k x @ rest" by (rule parse_var_int_cases)
  then show "0 < n" "n \<le> 8" "n \<le> length buf" by simp_all
  have "r * 256 ^ k + x < (r + 1) * 256 ^ k" using k(4) by simp
  also have "\<dots> \<le> 2 ^ (7 - k) * 256 ^ k" using k(3) by (intro mult_right_mono) auto
  also have "\<dots> = 2 ^ (7 - k + 8 * k)" by (simp only: power_add power_mult) simp
  also have "\<dots> \<le> 2 ^ 56" using k(2) by (intro power_increasing) auto
  finally have l: "r * 256 ^ k + x < 2 ^ 56" .
  have "v = EBML_UNKNOWN \<or> v = word_of_nat (r * 256 ^ k + x)"
    using assms parse_var_int_value [OF k(2-4), of rest] k(5) by (simp only: parsed.inject split: if_splits) auto
  then show "v = EBML_UNKNOWN \<or> unat v < 2 ^ 56" using l by (auto simp only: unat_of_nat) simp
qed

lemma var_int_needs: "ebml_parse_var_int buf = Incomplete \<Longrightarrow> length buf < 8"
proof (rule ccontr)
  assume a: "ebml_parse_var_int buf = Incomplete" and "\<not> length buf < 8"
  then obtain b bs where b: "buf = b # bs" "7 \<le> length bs" by (cases buf) auto
  with a have "b \<noteq> 0" by (auto simp: ebml_parse_var_int_def find_marker_zero [simplified])
  then obtain k r where k: "k < 8" "r < 2 ^ (7 - k)" "b = word_of_nat (2 ^ (7 - k) + r)" by (rule byte_marker)
  with find_marker_first [OF k(1, 2)] have "find_marker 1 0x80 (ucast b) = Some (Suc k, 2 ^ (7 - k))"
    by (simp add: marked_def Let_def)
  from parse_var_int_Cons [OF this, of "take k bs" "drop k bs"] a b k(1) show False by (auto split: prod.splits)
qed

lemma var_int_more:
  "ebml_parse_var_int buf \<noteq> Incomplete \<Longrightarrow> ebml_parse_var_int (buf @ more) = ebml_parse_var_int buf"
  by (cases buf) (auto simp: ebml_parse_var_int_def Let_def split: option.splits if_splits)

lemma tag_bounds:
  assumes "ebml_parse_tag buf = Tag n t v"
  shows "2 \<le> n" "n \<le> 16" "n \<le> length buf" "v = EBML_UNKNOWN \<or> unat v < 2 ^ 56"
proof -
  from assms obtain a b t' where p: "ebml_parse_var_int buf = Parsed a t'" "ebml_parse_var_int (drop a buf) = Parsed b v" "n = a + b"
    by (auto simp: ebml_parse_tag_def split: parsed.splits)
  from var_int_bounds [OF p(1)] var_int_bounds [OF p(2)] p(3)
  show "2 \<le> n" "n \<le> 16" "n \<le> length buf" "v = EBML_UNKNOWN \<or> unat v < 2 ^ 56" by auto
qed

lemma tag_needs: "ebml_parse_tag buf = Tag_incomplete \<Longrightarrow> length buf < 16"
  using var_int_needs [of buf] var_int_bounds [of buf]
  by (auto simp: ebml_parse_tag_def split: parsed.splits dest!: var_int_needs)

lemma tag_more: "ebml_parse_tag buf \<noteq> Tag_incomplete \<Longrightarrow> ebml_parse_tag (buf @ more) = ebml_parse_tag buf"
proof (cases "ebml_parse_var_int buf")
  case (Parsed n v)
  moreover assume "ebml_parse_tag buf \<noteq> Tag_incomplete"
  ultimately have "ebml_parse_var_int (drop n buf) \<noteq> Incomplete" by (auto simp: ebml_parse_tag_def)
  with Parsed var_int_more [of buf more] var_int_more [of "drop n buf" more] var_int_bounds(3) [OF Parsed]
  show ?thesis by (simp add: ebml_parse_tag_def)
qed (auto simp: ebml_parse_tag_def var_int_more)

lemma sized_int_bounds:
  "ebml_parse_sized_int buf len s = Parsed n v \<Longrightarrow> n < length buf"
  "ebml_parse_sized_int buf len s = Incomplete \<Longrightarrow> length buf \<le> 8"
  by (auto simp: ebml_parse_sized_int_def Let_def word_less_nat_alt not_less split: if_splits)

end
