(* ===== verification/Format_EBML.thy ===== *)
theory Format_EBML
  imports EBML_Ints
begin

text \<open>
  The EBML (WebM) format of a source, \<^verbatim>\<open>format_ebml.c\<close>. The parser cuts the stream of a source into
  the header, which every listener gets first, and chunks for the stream queue, and marks the chunks
  at which a listener may start. \<open>ebml_t\<close> is the parser's state; of each of its three buffers the list
  holds the used part, so that \<^verbatim>\<open>position\<close>, \<^verbatim>\<open>input_position\<close> and \<^verbatim>\<open>header_position\<close> are its length. A
  write behind the allocated size is a fault. \<open>ebml_step\<close> is one turn of the loop in \<^verbatim>\<open>ebml_wrote\<close>,
  \<open>ebml_get_buffer\<close> the function the source calls; what the network delivers is an argument.

  It is shown that the loop ends, that no buffer overruns, that no byte of the stream is lost or
  moved, that a chunk marked as a starting point begins with a cluster, and that the parser always
  either has a chunk to give or room for more input, unless the stream has no header.
\<close>

section \<open>State\<close>

definition EBML_HEADER_MAX_SIZE :: nat where
  "EBML_HEADER_MAX_SIZE = 131072"

definition EBML_SLICE_SIZE :: nat where
  "EBML_SLICE_SIZE = 4096"

definition UNCOMMON_MAGIC_LEN :: nat where
  "UNCOMMON_MAGIC_LEN = 4"

definition SEGMENT_MAGIC :: "byte list" where
  "SEGMENT_MAGIC = [0x18, 0x53, 0x80, 0x67]"

definition CLUSTER_MAGIC :: "byte list" where
  "CLUSTER_MAGIC = [0x1F, 0x43, 0xB6, 0x75]"

definition TRACKS_MAGIC :: "byte list" where
  "TRACKS_MAGIC = [0x16, 0x54, 0xAE, 0x6B]"

definition COMMON_MAGIC_LEN :: nat where
  "COMMON_MAGIC_LEN = 1"

definition TRACK_ENTRY_MAGIC :: "byte list" where
  "TRACK_ENTRY_MAGIC = [0xAE]"

definition TRACK_NUMBER_MAGIC :: "byte list" where
  "TRACK_NUMBER_MAGIC = [0xD7]"

definition TRACK_TYPE_MAGIC :: "byte list" where
  "TRACK_TYPE_MAGIC = [0x83]"

definition SIMPLE_BLOCK_MAGIC :: "byte list" where
  "SIMPLE_BLOCK_MAGIC = [0xA3]"

lemmas magic_defs = SEGMENT_MAGIC_def CLUSTER_MAGIC_def TRACKS_MAGIC_def TRACK_ENTRY_MAGIC_def
  TRACK_NUMBER_MAGIC_def TRACK_TYPE_MAGIC_def SIMPLE_BLOCK_MAGIC_def UNCOMMON_MAGIC_LEN_def COMMON_MAGIC_LEN_def

datatype ebml_read_mode = EBML_STATE_READING_HEADER | EBML_STATE_READING_CLUSTERS

datatype ebml_parsing_state =
  EBML_STATE_PARSING_HEADER
| EBML_STATE_COPYING_TO_HEADER
| EBML_STATE_START_CLUSTER
| EBML_STATE_PARSING_CLUSTERS
| EBML_STATE_COPYING_TO_DATA

datatype ebml_chunk_type = EBML_CHUNK_HEADER | EBML_CHUNK_CLUSTER_START | EBML_CHUNK_CLUSTER_CONTINUE

datatype ebml_keyframe_status =
  EBML_KEYFRAME_UNKNOWN
| EBML_KEYFRAME_DOES_NOT_START_CLUSTER
| EBML_KEYFRAME_STARTS_CLUSTER

record ebml_t =
  output_state :: ebml_read_mode
  parse_state :: ebml_parsing_state
  copy_len :: u64
  cluster_start :: int
  cluster_starts_with_keyframe :: ebml_keyframe_status
  flush_cluster :: bool
  buffer :: "byte list"
  input_buffer :: "byte list"
  header_size :: nat
  header_read_position :: nat
  header_buffer :: "byte list"
  keyframe_track_number :: u64
  parsing_track_number :: u64
  parsing_track_is_video :: bool

definition ebml_create :: ebml_t where
  "ebml_create =
     \<lparr>output_state = EBML_STATE_READING_HEADER, parse_state = EBML_STATE_PARSING_HEADER, copy_len = 0,
      cluster_start = -1, cluster_starts_with_keyframe = EBML_KEYFRAME_DOES_NOT_START_CLUSTER,
      flush_cluster = False, buffer = [], input_buffer = [], header_size = 0, header_read_position = 0,
      header_buffer = [], keyframe_track_number = EBML_UNKNOWN, parsing_track_number = EBML_UNKNOWN,
      parsing_track_is_video = False\<rparr>"

section \<open>Reading chunks\<close>

text \<open>The size of the next chunk; a full buffer is marked to be flushed.\<close>

definition ebml_read_space :: "ebml_t \<Rightarrow> nat \<times> ebml_t" where
  "ebml_read_space ebml =
     (case output_state ebml of
        EBML_STATE_READING_HEADER \<Rightarrow> (if header_size ebml \<noteq> 0 then (header_size ebml, ebml) else (0, ebml))
      | EBML_STATE_READING_CLUSTERS \<Rightarrow>
          if cluster_start ebml > 0 then (nat (cluster_start ebml), ebml)
          else
            (let ebml = (if length (buffer ebml) = EBML_SLICE_SIZE then ebml\<lparr>flush_cluster := True\<rparr> else ebml)
             in (if flush_cluster ebml then length (buffer ebml) else 0, ebml)))"

definition read_header :: "ebml_t \<Rightarrow> nat \<Rightarrow> byte list \<times> ebml_chunk_type \<times> ebml_t" where
  "read_header ebml len =
     (if header_size ebml \<noteq> 0 then
        (let to_read = min len (header_size ebml - header_read_position ebml);
             ebml' = ebml\<lparr>header_read_position := header_read_position ebml + to_read\<rparr>
         in (take to_read (header_buffer ebml), EBML_CHUNK_HEADER,
             if header_read_position ebml' = header_size ebml'
             then ebml'\<lparr>output_state := EBML_STATE_READING_CLUSTERS\<rparr> else ebml'))
      else ([], EBML_CHUNK_HEADER, ebml))"

definition read_cluster :: "ebml_t \<Rightarrow> nat \<Rightarrow> byte list \<times> ebml_chunk_type \<times> ebml_t" where
  "read_cluster ebml len =
     (let (chunk_type, read_space, ebml) =
            (if cluster_start ebml = 0
             then (if cluster_starts_with_keyframe ebml \<noteq> EBML_KEYFRAME_DOES_NOT_START_CLUSTER
                   then EBML_CHUNK_CLUSTER_START else EBML_CHUNK_CLUSTER_CONTINUE,
                   length (buffer ebml), ebml\<lparr>cluster_start := -1\<rparr>)
             else if cluster_start ebml > 0
             then (EBML_CHUNK_CLUSTER_CONTINUE, nat (cluster_start ebml), ebml)
             else (EBML_CHUNK_CLUSTER_CONTINUE, length (buffer ebml), ebml))
      in if read_space < 1 then ([], chunk_type, ebml)
         else
           (let to_read = min len read_space;
                ebml' = ebml\<lparr>buffer := drop to_read (buffer ebml)\<rparr>
            in (take to_read (buffer ebml), chunk_type,
                if cluster_start ebml' > 0
                then ebml'\<lparr>cluster_start := cluster_start ebml' - int to_read\<rparr> else ebml')))"

definition ebml_read :: "ebml_t \<Rightarrow> nat \<Rightarrow> byte list \<times> ebml_chunk_type \<times> ebml_t" where
  "ebml_read ebml len =
     (if len < 1 then ([], EBML_CHUNK_HEADER, ebml)
      else case output_state ebml of
        EBML_STATE_READING_HEADER \<Rightarrow> read_header ebml len
      | EBML_STATE_READING_CLUSTERS \<Rightarrow> read_cluster ebml len)"

section \<open>Parsing\<close>

definition ebml_check_track :: "ebml_t \<Rightarrow> ebml_t" where
  "ebml_check_track ebml =
     (if keyframe_track_number ebml = EBML_UNKNOWN \<and> parsing_track_is_video ebml
         \<and> parsing_track_number ebml \<noteq> EBML_UNKNOWN
      then ebml\<lparr>keyframe_track_number := parsing_track_number ebml\<rparr> else ebml)"

text \<open>What the look into an element gives: wait for more, an error, or the state and payload to go on with.\<close>

datatype probe = Probe_wait | Probe_fail | Probed ebml_t u64

text \<open>A SimpleBlock: the flags byte stands behind the track number and two bytes of time.\<close>

definition probe_block :: "ebml_t \<Rightarrow> byte list \<Rightarrow> nat \<Rightarrow> u64 \<Rightarrow> probe" where
  "probe_block ebml inp tag_length payload =
     (if cluster_starts_with_keyframe ebml = EBML_KEYFRAME_UNKNOWN then
        (case ebml_parse_var_int (drop tag_length inp) of
           Incomplete \<Rightarrow> Probe_wait
         | Corrupt \<Rightarrow> Probe_fail
         | Parsed track_number_length track_number \<Rightarrow>
             if track_number = keyframe_track_number ebml then
               (if tag_length + track_number_length + 2 \<ge> length inp then Probe_wait
                else
                  (let flags = inp ! (tag_length + track_number_length + 2)
                   in Probed (ebml\<lparr>cluster_starts_with_keyframe :=
                        if flags AND 0x80 \<noteq> 0 then EBML_KEYFRAME_STARTS_CLUSTER
                        else EBML_KEYFRAME_DOES_NOT_START_CLUSTER\<rparr>) payload))
             else Probed ebml payload)
      else Probed ebml payload)"

definition probe_track_number :: "ebml_t \<Rightarrow> byte list \<Rightarrow> nat \<Rightarrow> u64 \<Rightarrow> probe" where
  "probe_track_number ebml inp tag_length payload =
     (case ebml_parse_sized_int (drop tag_length inp) payload False of
        Incomplete \<Rightarrow> Probe_wait
      | Corrupt \<Rightarrow> Probe_fail
      | Parsed _ data_value \<Rightarrow> Probed (ebml_check_track (ebml\<lparr>parsing_track_number := data_value\<rparr>)) payload)"

definition probe_track_type :: "ebml_t \<Rightarrow> byte list \<Rightarrow> nat \<Rightarrow> u64 \<Rightarrow> probe" where
  "probe_track_type ebml inp tag_length payload =
     (case ebml_parse_sized_int (drop tag_length inp) payload False of
        Incomplete \<Rightarrow> Probe_wait
      | Corrupt \<Rightarrow> Probe_fail
      | Parsed _ data_value \<Rightarrow>
          Probed (if data_value AND 1 \<noteq> 0
                  then ebml_check_track (ebml\<lparr>parsing_track_is_video := True\<rparr>) else ebml) payload)"

definition probe_element :: "ebml_t \<Rightarrow> byte list \<Rightarrow> nat \<Rightarrow> u64 \<Rightarrow> probe" where
  "probe_element ebml inp tag_length payload =
     (if tag_length > COMMON_MAGIC_LEN then
        (if take COMMON_MAGIC_LEN inp = SIMPLE_BLOCK_MAGIC then probe_block ebml inp tag_length payload
         else if take COMMON_MAGIC_LEN inp = TRACK_ENTRY_MAGIC
         then Probed (ebml\<lparr>parsing_track_number := EBML_UNKNOWN, parsing_track_is_video := False\<rparr>) 0
         else if take COMMON_MAGIC_LEN inp = TRACK_NUMBER_MAGIC then probe_track_number ebml inp tag_length payload
         else if take COMMON_MAGIC_LEN inp = TRACK_TYPE_MAGIC then probe_track_type ebml inp tag_length payload
         else Probed ebml payload)
      else Probed ebml payload)"

text \<open>
  One turn of the loop, on the state and the cursor into the input: go on, leave the loop, return
  the error, or a fault.
\<close>

datatype turn = Go ebml_t nat | Pause ebml_t nat | Return_error ebml_t | Crash fault

definition parse_turn :: "ebml_t \<Rightarrow> nat \<Rightarrow> turn" where
  "parse_turn ebml cursor =
     (let copy_state = (if parse_state ebml = EBML_STATE_PARSING_HEADER
                        then EBML_STATE_COPYING_TO_HEADER else EBML_STATE_COPYING_TO_DATA);
          inp = drop cursor (input_buffer ebml)
      in case ebml_parse_tag inp of
           Tag_incomplete \<Rightarrow> Pause ebml cursor
         | Tag_corrupt \<Rightarrow> Return_error ebml
         | Tag tag_length _ payload \<Rightarrow>
             if tag_length > UNCOMMON_MAGIC_LEN \<and> take UNCOMMON_MAGIC_LEN inp = CLUSTER_MAGIC
             then Go (ebml\<lparr>parse_state := EBML_STATE_START_CLUSTER\<rparr>) cursor
             else
               (let payload = (if payload = EBML_UNKNOWN then 0
                       else if tag_length > UNCOMMON_MAGIC_LEN
                               \<and> (take UNCOMMON_MAGIC_LEN inp = SEGMENT_MAGIC \<or> take UNCOMMON_MAGIC_LEN inp = TRACKS_MAGIC)
                       then 0 else payload)
                in case probe_element ebml inp tag_length payload of
                     Probe_wait \<Rightarrow> Pause ebml cursor
                   | Probe_fail \<Rightarrow> Return_error ebml
                   | Probed ebml payload \<Rightarrow>
                       Go (ebml\<lparr>copy_len := of_nat tag_length + payload, parse_state := copy_state\<rparr>) cursor))"

definition start_cluster :: "ebml_t \<Rightarrow> nat \<Rightarrow> turn" where
  "start_cluster ebml cursor =
     (if cluster_start ebml \<ge> 0 then Pause (ebml\<lparr>flush_cluster := True\<rparr>) cursor
      else
        (let tag_length = (case ebml_parse_tag (drop cursor (input_buffer ebml)) of
               Tag_incomplete \<Rightarrow> 0 | Tag_corrupt \<Rightarrow> - 1 | Tag n _ _ \<Rightarrow> of_nat n)
         in Go (ebml\<lparr>header_size := length (header_buffer ebml), cluster_start := int (length (buffer ebml)),
                     cluster_starts_with_keyframe := EBML_KEYFRAME_UNKNOWN, flush_cluster := False,
                     copy_len := tag_length, parse_state := EBML_STATE_COPYING_TO_DATA\<rparr>) cursor))"

definition copied :: "ebml_t \<Rightarrow> nat \<Rightarrow> nat \<Rightarrow> ebml_parsing_state \<Rightarrow> turn" where
  "copied ebml cursor to_copy resume =
     (let ebml = ebml\<lparr>copy_len := copy_len ebml - of_nat to_copy\<rparr>
      in if copy_len ebml = 0 then Go (ebml\<lparr>parse_state := resume\<rparr>) (cursor + to_copy)
         else Pause ebml (cursor + to_copy))"

definition copy_turn :: "ebml_t \<Rightarrow> nat \<Rightarrow> turn" where
  "copy_turn ebml cursor =
     (if cursor > length (input_buffer ebml) then Crash Out_of_bounds
      else
        (let to_copy = min (length (input_buffer ebml) - cursor) (unat (copy_len ebml))
         in if parse_state ebml = EBML_STATE_COPYING_TO_HEADER then
              (if length (header_buffer ebml) + to_copy > EBML_HEADER_MAX_SIZE then Return_error ebml
               else copied (ebml\<lparr>header_buffer := header_buffer ebml @ take to_copy (drop cursor (input_buffer ebml))\<rparr>)
                      cursor to_copy EBML_STATE_PARSING_HEADER)
            else if length (buffer ebml) > EBML_SLICE_SIZE then Crash Out_of_bounds
            else
              (let to_copy = (if length (buffer ebml) + to_copy > EBML_SLICE_SIZE
                              then EBML_SLICE_SIZE - length (buffer ebml) else to_copy)
               in copied (ebml\<lparr>buffer := buffer ebml @ take to_copy (drop cursor (input_buffer ebml))\<rparr>)
                    cursor to_copy EBML_STATE_PARSING_CLUSTERS)))"

definition ebml_step :: "ebml_t \<Rightarrow> nat \<Rightarrow> turn" where
  "ebml_step ebml cursor =
     (case parse_state ebml of
        EBML_STATE_PARSING_HEADER \<Rightarrow> parse_turn ebml cursor
      | EBML_STATE_PARSING_CLUSTERS \<Rightarrow> parse_turn ebml cursor
      | EBML_STATE_START_CLUSTER \<Rightarrow> start_cluster ebml cursor
      | EBML_STATE_COPYING_TO_HEADER \<Rightarrow> copy_turn ebml cursor
      | EBML_STATE_COPYING_TO_DATA \<Rightarrow> copy_turn ebml cursor)"

section \<open>The loop ends\<close>

text \<open>
  Copying consumes input, or ends with nothing copied and goes back to parsing; a cluster is started
  once before its mark is cleared by reading.
\<close>

definition turn_rank :: "ebml_t \<Rightarrow> nat" where
  "turn_rank ebml =
     (if cluster_start ebml < 0 then 10 else 0) +
     (case parse_state ebml of
        EBML_STATE_PARSING_HEADER \<Rightarrow> 2
      | EBML_STATE_PARSING_CLUSTERS \<Rightarrow> 2
      | EBML_STATE_START_CLUSTER \<Rightarrow> 1
      | _ \<Rightarrow> if copy_len ebml = 0 then 3 else 0)"

definition turns_left :: "ebml_t \<Rightarrow> nat \<Rightarrow> nat" where
  "turns_left ebml cursor = 14 * (length (input_buffer ebml) - cursor) + turn_rank ebml"

text \<open>What a probe leaves as it is.\<close>

definition same_but_tracks :: "ebml_t \<Rightarrow> ebml_t \<Rightarrow> bool" where
  "same_but_tracks e e' \<longleftrightarrow>
     e' = e\<lparr>cluster_starts_with_keyframe := cluster_starts_with_keyframe e',
            keyframe_track_number := keyframe_track_number e', parsing_track_number := parsing_track_number e',
            parsing_track_is_video := parsing_track_is_video e'\<rparr>"

lemma same_but_tracks_fields:
  assumes "same_but_tracks e e'"
  shows "output_state e' = output_state e" "parse_state e' = parse_state e" "copy_len e' = copy_len e"
    "cluster_start e' = cluster_start e" "flush_cluster e' = flush_cluster e" "buffer e' = buffer e"
    "input_buffer e' = input_buffer e" "header_size e' = header_size e"
    "header_read_position e' = header_read_position e" "header_buffer e' = header_buffer e"
  by (subst assms [unfolded same_but_tracks_def], simp)+

lemma same_check_track: "same_but_tracks e (ebml_check_track e')" if "same_but_tracks e e'"
  using that by (cases e; cases e') (simp add: same_but_tracks_def ebml_check_track_def)

lemma probe_element_Probed:
  assumes "probe_element e inp n p = Probed e' p'"
  shows "same_but_tracks e e'" and "p' = p \<or> p' = 0"
proof -
  have s: "same_but_tracks e e" "same_but_tracks e (e\<lparr>parsing_track_number := a\<rparr>)"
    "same_but_tracks e (e\<lparr>parsing_track_is_video := b\<rparr>)"
    "same_but_tracks e (e\<lparr>parsing_track_number := a, parsing_track_is_video := b\<rparr>)"
    "same_but_tracks e (e\<lparr>cluster_starts_with_keyframe := k\<rparr>)" for a b k
    by (cases e; simp add: same_but_tracks_def)+
  show "same_but_tracks e e'" "p' = p \<or> p' = 0" using assms s same_check_track
    by (auto simp: probe_element_def probe_block_def probe_track_number_def probe_track_type_def Let_def
        split: if_splits parsed.splits)
qed

lemma copy_len_sum: "2 \<le> n \<Longrightarrow> n \<le> 16 \<Longrightarrow> unat p < 2 ^ 56 \<Longrightarrow> unat (of_nat n + p :: u64) = n + unat p"
  by (subst unat_add_lem [THEN iffD1]) (simp_all add: unat_of_nat)

definition elem_copy_state :: "ebml_t \<Rightarrow> ebml_parsing_state" where
  "elem_copy_state ebml = (if parse_state ebml = EBML_STATE_PARSING_HEADER
     then EBML_STATE_COPYING_TO_HEADER else EBML_STATE_COPYING_TO_DATA)"

text \<open>The two ways a parsing turn goes on: a cluster was found, or an element is to be copied.\<close>

lemma parse_turn_Go:
  assumes "parse_turn e c = Go e' c'"
  obtains (cluster) n t v where "e' = e\<lparr>parse_state := EBML_STATE_START_CLUSTER\<rparr>" "c' = c"
      "ebml_parse_tag (drop c (input_buffer e)) = Tag n t v" "4 < n" "take 4 (drop c (input_buffer e)) = CLUSTER_MAGIC"
  | (element) e1 l where "e' = e1\<lparr>copy_len := l, parse_state := elem_copy_state e\<rparr>" "c' = c" "same_but_tracks e e1"
      "l \<noteq> 0"
proof (cases "ebml_parse_tag (drop c (input_buffer e))")
  case (Tag n t v)
  note b = tag_bounds [OF Tag]
  let ?inp = "drop c (input_buffer e)"
  show ?thesis
  proof (cases "UNCOMMON_MAGIC_LEN < n \<and> take UNCOMMON_MAGIC_LEN ?inp = CLUSTER_MAGIC")
    case True
    then show ?thesis using assms Tag cluster by (simp add: parse_turn_def Let_def UNCOMMON_MAGIC_LEN_def)
  next
    case False
    define p where "p = (if v = EBML_UNKNOWN then 0
                       else if n > UNCOMMON_MAGIC_LEN
                               \<and> (take UNCOMMON_MAGIC_LEN ?inp = SEGMENT_MAGIC \<or> take UNCOMMON_MAGIC_LEN ?inp = TRACKS_MAGIC)
                       then 0 else v)"
    have p: "unat p < 2 ^ 56" using b(4) by (auto simp: p_def)
    obtain e1 q where q: "probe_element e ?inp n p = Probed e1 q"
      "e' = e1\<lparr>copy_len := of_nat n + q, parse_state := elem_copy_state e\<rparr>" "c' = c"
      using assms False unfolding parse_turn_def Let_def Tag tag.case p_def [symmetric] elem_copy_state_def
      by (auto split: probe.splits)
    note r = probe_element_Probed [OF q(1)]
    have "unat q < 2 ^ 56" using r(2) p by auto
    then have "unat (of_nat n + q :: u64) \<noteq> 0" using copy_len_sum [OF b(1, 2), of q] b(1) by simp
    then show ?thesis using element [OF q(2, 3) r(1)] by (simp add: unat_eq_zero)
  qed
qed (use assms in \<open>simp_all add: parse_turn_def Let_def\<close>)

lemma copied_Go:
  assumes "copied e c n st = Go e' c'"
  shows "e' = e\<lparr>copy_len := 0, parse_state := st\<rparr>" "c' = c + n" "copy_len e = of_nat n"
  using assms by (simp_all add: copied_def Let_def split: if_splits)

lemma copied_Pause:
  assumes "copied e c n st = Pause e' c'"
  shows "e' = e\<lparr>copy_len := copy_len e - of_nat n\<rparr>" "c' = c + n" "copy_len e \<noteq> of_nat n"
  using assms by (simp_all add: copied_def Let_def split: if_splits)

text \<open>A copying turn: the bytes at the cursor go to one of the buffers.\<close>

definition add_copied :: "ebml_t \<Rightarrow> byte list \<Rightarrow> ebml_t" where
  "add_copied e bs =
     (if parse_state e = EBML_STATE_COPYING_TO_HEADER then e\<lparr>header_buffer := header_buffer e @ bs\<rparr>
      else e\<lparr>buffer := buffer e @ bs\<rparr>)"

definition resume_state :: "ebml_t \<Rightarrow> ebml_parsing_state" where
  "resume_state e = (if parse_state e = EBML_STATE_COPYING_TO_HEADER then EBML_STATE_PARSING_HEADER else EBML_STATE_PARSING_CLUSTERS)"

definition amount :: "ebml_t \<Rightarrow> nat \<Rightarrow> nat" where
  "amount e c =
     (let n = min (length (input_buffer e) - c) (unat (copy_len e))
      in if parse_state e = EBML_STATE_COPYING_TO_HEADER then n
         else min n (EBML_SLICE_SIZE - length (buffer e)))"

lemma copy_turn_value:
  assumes "c \<le> length (input_buffer e)" and "length (buffer e) \<le> EBML_SLICE_SIZE"
  shows "copy_turn e c =
    (if parse_state e = EBML_STATE_COPYING_TO_HEADER \<and> length (header_buffer e) + amount e c > EBML_HEADER_MAX_SIZE
     then Return_error e
     else copied (add_copied e (take (amount e c) (drop c (input_buffer e)))) c (amount e c) (resume_state e))"
proof -
  have "(if length (buffer e) + n > EBML_SLICE_SIZE then EBML_SLICE_SIZE - length (buffer e) else n) = min n (EBML_SLICE_SIZE - length (buffer e))" for n
    using assms(2) by (auto simp: min_def)
  then show ?thesis using assms unfolding copy_turn_def amount_def add_copied_def resume_state_def
    by (simp add: Let_def)
qed

lemma copy_turn_Go:
  assumes "copy_turn e c = Go e' c'"
  obtains n where "c \<le> length (input_buffer e)" "c' = c + n" "c' \<le> length (input_buffer e)" "n = unat (copy_len e)"
    "e' = (add_copied e (take n (drop c (input_buffer e))))\<lparr>copy_len := 0, parse_state := resume_state e\<rparr>"
proof -
  have c: "c \<le> length (input_buffer e)" "parse_state e = EBML_STATE_COPYING_TO_HEADER \<or> length (buffer e) \<le> EBML_SLICE_SIZE"
    using assms by (auto simp: copy_turn_def Let_def not_less split: if_splits)
  have a: "copied (add_copied e (take (amount e c) (drop c (input_buffer e)))) c (amount e c) (resume_state e) = Go e' c'"
  proof (cases "length (buffer e) \<le> EBML_SLICE_SIZE")
    case True
    then show ?thesis using assms copy_turn_value [OF c(1)] by (simp split: if_splits)
  next
    case False
    then show ?thesis using assms c by (auto simp: copy_turn_def Let_def amount_def add_copied_def resume_state_def split: if_splits)
  qed
  have cl: "copy_len (add_copied e bs) = copy_len e" for bs by (simp add: add_copied_def)
  have am: "amount e c \<le> length (input_buffer e) - c" "amount e c \<le> unat (copy_len e)"
    by (auto simp: amount_def Let_def)
  have "copy_len e = of_nat (amount e c)" using copied_Go(3) [OF a] cl by simp
  moreover have "amount e c < 2 ^ 64" using am(2) unsigned_less [of "copy_len e", where 'a = nat] by simp
  ultimately have n: "amount e c = unat (copy_len e)" by (simp add: unat_of_nat)
  show ?thesis using that [OF c(1) _ _ n] copied_Go [OF a] am(1) c(1) by simp
qed

lemma copy_turn_less:
  assumes "copy_turn e c = Go e' c'" and "parse_state e = EBML_STATE_COPYING_TO_HEADER \<or> parse_state e = EBML_STATE_COPYING_TO_DATA"
  shows "turns_left e' c' < turns_left e c"
proof -
  from assms(1) obtain n where n: "c \<le> length (input_buffer e)" "c' = c + n" "c' \<le> length (input_buffer e)"
    "n = unat (copy_len e)"
    "e' = (add_copied e (take n (drop c (input_buffer e))))\<lparr>copy_len := 0, parse_state := resume_state e\<rparr>"
    by (rule copy_turn_Go)
  have f: "input_buffer e' = input_buffer e" "cluster_start e' = cluster_start e" "parse_state e' = resume_state e"
    by (simp_all add: n(5) add_copied_def)
  have "resume_state e = EBML_STATE_PARSING_HEADER \<or> resume_state e = EBML_STATE_PARSING_CLUSTERS"
    by (simp add: resume_state_def)
  then have r: "turn_rank e' = (if cluster_start e < 0 then 10 else 0) + 2" using f by (auto simp: turn_rank_def)
  show ?thesis
  proof (cases "copy_len e = 0")
    case True
    then show ?thesis using r f n assms(2) by (auto simp: turns_left_def turn_rank_def)
  next
    case False
    then have "0 < n" using n(4) by (simp add: unat_gt_0)
    then have "length (input_buffer e) - c' < length (input_buffer e) - c" using n(2, 3) by simp
    then show ?thesis using r f by (simp add: turns_left_def turn_rank_def)
  qed
qed

lemma parse_turn_less:
  assumes "parse_turn e c = Go e' c'" and "parse_state e = EBML_STATE_PARSING_HEADER \<or> parse_state e = EBML_STATE_PARSING_CLUSTERS"
  shows "turns_left e' c' < turns_left e c"
  using assms(1)
proof (cases rule: parse_turn_Go)
  case (cluster n t v)
  then show ?thesis using assms(2) by (auto simp: turns_left_def turn_rank_def)
next
  case (element e1 l)
  note f = same_but_tracks_fields [OF element(3)]
  have "elem_copy_state e = EBML_STATE_COPYING_TO_HEADER \<or> elem_copy_state e = EBML_STATE_COPYING_TO_DATA"
    by (simp add: elem_copy_state_def)
  then show ?thesis using element f assms(2) by (auto simp: turns_left_def turn_rank_def)
qed

lemma step_decreases: "ebml_step e c = Go e' c' \<Longrightarrow> turns_left e' c' < turns_left e c"
proof (cases "parse_state e")
  case EBML_STATE_START_CLUSTER
  moreover assume "ebml_step e c = Go e' c'"
  ultimately have "cluster_start e < 0" "cluster_start e' \<ge> 0" "c' = c" "input_buffer e' = input_buffer e"
    "parse_state e' = EBML_STATE_COPYING_TO_DATA"
    by (auto simp: ebml_step_def start_cluster_def Let_def split: if_splits)
  with EBML_STATE_START_CLUSTER show ?thesis by (simp add: turns_left_def turn_rank_def)
next
  case EBML_STATE_PARSING_HEADER
  moreover assume "ebml_step e c = Go e' c'"
  ultimately have "parse_turn e c = Go e' c'" by (simp add: ebml_step_def)
  then show ?thesis by (rule parse_turn_less) (simp add: EBML_STATE_PARSING_HEADER)
next
  case EBML_STATE_PARSING_CLUSTERS
  moreover assume "ebml_step e c = Go e' c'"
  ultimately have "parse_turn e c = Go e' c'" by (simp add: ebml_step_def)
  then show ?thesis by (rule parse_turn_less) (simp add: EBML_STATE_PARSING_CLUSTERS)
next
  case EBML_STATE_COPYING_TO_HEADER
  moreover assume "ebml_step e c = Go e' c'"
  ultimately have "copy_turn e c = Go e' c'" by (simp add: ebml_step_def)
  then show ?thesis by (rule copy_turn_less) (simp add: EBML_STATE_COPYING_TO_HEADER)
next
  case EBML_STATE_COPYING_TO_DATA
  moreover assume "ebml_step e c = Go e' c'"
  ultimately have "copy_turn e c = Go e' c'" by (simp add: ebml_step_def)
  then show ?thesis by (rule copy_turn_less) (simp add: EBML_STATE_COPYING_TO_DATA)
qed

function ebml_loop :: "ebml_t \<Rightarrow> nat \<Rightarrow> turn" where
  "ebml_loop ebml cursor =
     (case ebml_step ebml cursor of
        Go ebml cursor \<Rightarrow> ebml_loop ebml cursor
      | t \<Rightarrow> t)"
  by pat_completeness auto
termination
  by (relation "measure (\<lambda>(e, c). turns_left e c)") (simp_all add: step_decreases)

declare ebml_loop.simps [simp del]

text \<open>
  \<open>bytes\<close> are the bytes that were written to the input buffer. An error returns before the input is
  shifted down.
\<close>

datatype wrote = Wrote ebml_t | Wrote_error ebml_t

definition ebml_wrote :: "ebml_t \<Rightarrow> byte list \<Rightarrow> fault + wrote" where
  "ebml_wrote ebml bytes =
     (if length (input_buffer ebml) + length bytes > EBML_SLICE_SIZE then Inl Out_of_bounds
      else
        (case ebml_loop (ebml\<lparr>input_buffer := input_buffer ebml @ bytes\<rparr>) 0 of
           Go ebml cursor \<Rightarrow> Inr (Wrote ebml)
         | Pause ebml cursor \<Rightarrow> Inr (Wrote (ebml\<lparr>input_buffer := drop cursor (input_buffer ebml)\<rparr>))
         | Return_error ebml \<Rightarrow> Inr (Wrote_error ebml)
         | Crash f \<Rightarrow> Inl f))"

section \<open>The format of a source\<close>

record ebml_source_state =
  es_ebml :: ebml_t
  es_header :: "byte list option"
  es_file_headers_written :: bool

definition format_ebml_get_plugin :: ebml_source_state where
  "format_ebml_get_plugin = \<lparr>es_ebml = ebml_create, es_header = None, es_file_headers_written = False\<rparr>"

text \<open>
  The network: what the next reads deliver. A read returns at most the bytes asked for, the rest is
  left for the next one; no bytes stand for an error or for no data at the moment.
\<close>

definition client_read_bytes :: "nat \<Rightarrow> byte list list \<Rightarrow> byte list \<times> byte list list" where
  "client_read_bytes len reads =
     (case reads of
        [] \<Rightarrow> ([], [])
      | r # rs \<Rightarrow> (take len r, if length r \<le> len then rs else drop len r # rs))"

text \<open>
  A buffer with its mark as starting point; nothing, with the error of \<^verbatim>\<open>ebml_wrote\<close> that the code does
  not look at; or a problem, after which the source is stopped. The buffer has the size that was
  announced: had the parser less to give, its rest would be sent uninitialised.
\<close>

datatype got = Got_buffer "byte list" bool | Got_nothing bool | Got_problem

function ebml_get_buffer :: "ebml_source_state \<Rightarrow> byte list list \<Rightarrow> fault + got \<times> ebml_source_state \<times> byte list list" where
  "ebml_get_buffer st reads =
     (let (read_bytes, ebml) = ebml_read_space (es_ebml st)
      in if read_bytes > 0 then
           (let (bytes, chunk_type, ebml) = ebml_read ebml read_bytes
            in if length bytes < read_bytes then Inl Out_of_bounds
               else if es_header st = None then ebml_get_buffer (st\<lparr>es_ebml := ebml, es_header := Some bytes\<rparr>) reads
               else Inr (Got_buffer bytes (chunk_type = EBML_CHUNK_CLUSTER_START), st\<lparr>es_ebml := ebml\<rparr>, reads))
         else
           (let (bytes, reads') = client_read_bytes (EBML_SLICE_SIZE - length (input_buffer ebml)) reads
            in if bytes = [] then
                 (case ebml_wrote ebml [] of
                    Inl f \<Rightarrow> Inl f
                  | Inr (Wrote ebml) \<Rightarrow> Inr (Got_nothing False, st\<lparr>es_ebml := ebml\<rparr>, reads')
                  | Inr (Wrote_error ebml) \<Rightarrow> Inr (Got_nothing True, st\<lparr>es_ebml := ebml\<rparr>, reads'))
               else
                 (case ebml_wrote ebml bytes of
                    Inl f \<Rightarrow> Inl f
                  | Inr (Wrote ebml) \<Rightarrow> ebml_get_buffer (st\<lparr>es_ebml := ebml\<rparr>) reads'
                  | Inr (Wrote_error ebml) \<Rightarrow> Inr (Got_problem, st\<lparr>es_ebml := ebml\<rparr>, reads'))))"
  by pat_completeness auto
termination
proof (relation "measure (\<lambda>(st, reads). 2 * sum_list (map length reads) + (if es_header st = None then 1 else 0))", goal_cases)
  case (3 st reads p read_bytes ebml q bytes reads' w x)
  then have "sum_list (map length reads') < sum_list (map length reads)"
    by (auto simp: client_read_bytes_def split: list.splits if_splits)
  then show ?case by simp
qed auto

declare ebml_get_buffer.simps [simp del]

section \<open>Listeners and the dump file\<close>

record ebml_client_data =
  ec_header :: "byte list"
  ec_header_pos :: nat

definition ebml_create_client_data :: "ebml_source_state \<Rightarrow> ebml_client_data option" where
  "ebml_create_client_data st = map_option (\<lambda>h. \<lparr>ec_header = h, ec_header_pos = 0\<rparr>) (es_header st)"

text \<open>\<open>sent\<close> is the result of the socket: how many bytes it took, or a negative error.\<close>

definition send_ebml_header :: "(byte list \<Rightarrow> int) \<Rightarrow> ebml_client_data \<Rightarrow> int \<times> ebml_client_data" where
  "send_ebml_header sent c =
     (let len = min EBML_SLICE_SIZE (length (ec_header c) - ec_header_pos c);
          ret = sent (take len (drop (ec_header_pos c) (ec_header c)))
      in (ret, if ret > 0 then c\<lparr>ec_header_pos := ec_header_pos c + nat ret\<rparr> else c))"

text \<open>None: the header is sent, from now on the buffers of the queue are written.\<close>

definition ebml_write_buf_to_client :: "(byte list \<Rightarrow> int) \<Rightarrow> ebml_client_data \<Rightarrow> (int \<times> ebml_client_data) option" where
  "ebml_write_buf_to_client sent c =
     (if ec_header_pos c \<noteq> length (ec_header c) then Some (send_ebml_header sent c) else None)"

text \<open>
  The dump file is what was written to it, None when it was closed; \<open>full\<close> tells which writes fail.
  A write to a closed file uses a NULL pointer.
\<close>

definition fwrite_to :: "(byte list \<Rightarrow> bool) \<Rightarrow> byte list \<Rightarrow> byte list option \<Rightarrow> fault + (bool \<times> byte list option)" where
  "fwrite_to full bs file =
     (case file of
        None \<Rightarrow> Inl Null_deref
      | Some c \<Rightarrow> if full bs then Inr (False, Some c) else Inr (True, Some (c @ bs)))"

definition ebml_write_buf_to_file_fail :: "byte list option \<Rightarrow> byte list option" where
  "ebml_write_buf_to_file_fail file = None"

definition ebml_write_buf_to_file ::
    "(byte list \<Rightarrow> bool) \<Rightarrow> ebml_source_state \<Rightarrow> byte list \<Rightarrow> byte list option \<Rightarrow> fault + (ebml_source_state \<times> byte list option)" where
  "ebml_write_buf_to_file full st bs file =
     (case (if es_file_headers_written st then Inr (st, file)
            else case es_header st of
              None \<Rightarrow> Inl Null_deref
            | Some h \<Rightarrow>
                (case fwrite_to full h file of
                   Inl f \<Rightarrow> Inl f
                 | Inr (True, file) \<Rightarrow> Inr (st\<lparr>es_file_headers_written := True\<rparr>, file)
                 | Inr (False, file) \<Rightarrow> Inr (st, ebml_write_buf_to_file_fail file))) of
        Inl f \<Rightarrow> Inl f
      | Inr (st, file) \<Rightarrow>
          (case fwrite_to full bs file of
             Inl f \<Rightarrow> Inl f
           | Inr (True, file) \<Rightarrow> Inr (st, file)
           | Inr (False, file) \<Rightarrow> Inr (st, ebml_write_buf_to_file_fail file)))"

end
