(* ===== verification/EBML_Stream.thy ===== *)
theory EBML_Stream
  imports Format_EBML
begin

text \<open>
  What holds of the EBML parser in every state it can reach: its buffers never overrun, even after an
  error that the source does not notice; and as long as there was no error, the bytes of the stream
  come out in order, header first, and the marked chunks begin with a cluster.
\<close>

section \<open>Bounds\<close>

definition ebml_bounds :: "ebml_t \<Rightarrow> nat \<Rightarrow> bool" where
  "ebml_bounds e c \<longleftrightarrow>
     c \<le> length (input_buffer e) \<and> length (input_buffer e) \<le> EBML_SLICE_SIZE
     \<and> length (buffer e) \<le> EBML_SLICE_SIZE \<and> length (header_buffer e) \<le> EBML_HEADER_MAX_SIZE
     \<and> cluster_start e \<le> int (length (buffer e)) \<and> header_size e \<le> length (header_buffer e)
     \<and> (output_state e = EBML_STATE_READING_HEADER \<longrightarrow> header_read_position e = 0)"

lemma bounds_same_tracks:
  assumes "ebml_bounds e c" and "same_but_tracks e e1"
  shows "ebml_bounds (e1\<lparr>copy_len := l, parse_state := st\<rparr>) c"
  using assms(1) by (simp add: ebml_bounds_def same_but_tracks_fields [OF assms(2)])

lemma parse_turn_bounds:
  assumes "ebml_bounds e c"
  shows "case parse_turn e c of
      Go e' c' \<Rightarrow> ebml_bounds e' c' | Pause e' c' \<Rightarrow> e' = e \<and> c' = c | Return_error e' \<Rightarrow> e' = e | Crash f \<Rightarrow> False"
proof (cases "parse_turn e c")
  case (Go e' c')
  then have "ebml_bounds e' c'"
  proof (cases rule: parse_turn_Go)
    case (cluster n t v)
    then show ?thesis using assms by (simp add: ebml_bounds_def)
  next
    case (element e1 l)
    then show ?thesis using bounds_same_tracks [OF assms] by simp
  qed
  then show ?thesis using Go by simp
qed (auto simp: parse_turn_def Let_def split: tag.splits if_splits probe.splits)

lemma start_cluster_bounds:
  assumes "ebml_bounds e c"
  shows "case start_cluster e c of
      Go e' c' \<Rightarrow> ebml_bounds e' c' | Pause e' c' \<Rightarrow> ebml_bounds e' c' | Return_error e' \<Rightarrow> False | Crash f \<Rightarrow> False"
  using assms by (simp add: start_cluster_def ebml_bounds_def Let_def)

lemma amount_le:
  "amount e c \<le> length (input_buffer e) - c" "amount e c \<le> unat (copy_len e)"
  "parse_state e \<noteq> EBML_STATE_COPYING_TO_HEADER \<Longrightarrow> amount e c \<le> EBML_SLICE_SIZE - length (buffer e)"
  by (auto simp: amount_def Let_def)

lemma add_copied_bounds:
  assumes "ebml_bounds e c"
    and "\<not> (parse_state e = EBML_STATE_COPYING_TO_HEADER \<and> length (header_buffer e) + amount e c > EBML_HEADER_MAX_SIZE)"
  shows "ebml_bounds ((add_copied e (take (amount e c) (drop c (input_buffer e))))\<lparr>copy_len := l, parse_state := st\<rparr>) (c + amount e c)"
proof (cases "parse_state e = EBML_STATE_COPYING_TO_HEADER")
  case True
  have "c + amount e c \<le> length (input_buffer e)" using assms(1) amount_le(1) [of e c] unfolding ebml_bounds_def by linarith
  then show ?thesis using assms True by (simp add: ebml_bounds_def add_copied_def)
next
  case False
  have "c + amount e c \<le> length (input_buffer e)" "length (buffer e) + amount e c \<le> EBML_SLICE_SIZE"
    using assms(1) amount_le(1) [of e c] amount_le(3) [OF False, of c] unfolding ebml_bounds_def by linarith+
  then show ?thesis using assms(1) False by (simp add: ebml_bounds_def add_copied_def)
qed

lemma copy_turn_bounds:
  assumes "ebml_bounds e c"
  shows "case copy_turn e c of
      Go e' c' \<Rightarrow> ebml_bounds e' c' | Pause e' c' \<Rightarrow> ebml_bounds e' c' | Return_error e' \<Rightarrow> e' = e | Crash f \<Rightarrow> False"
proof -
  have v: "c \<le> length (input_buffer e)" "length (buffer e) \<le> EBML_SLICE_SIZE" using assms by (simp_all add: ebml_bounds_def)
  let ?e = "add_copied e (take (amount e c) (drop c (input_buffer e)))"
  show ?thesis
  proof (cases "parse_state e = EBML_STATE_COPYING_TO_HEADER \<and> length (header_buffer e) + amount e c > EBML_HEADER_MAX_SIZE")
    case True
    then show ?thesis using copy_turn_value [OF v] by simp
  next
    case False
    have e: "ebml_bounds (?e\<lparr>copy_len := l, parse_state := parse_state ?e\<rparr>) (c + amount e c) = ebml_bounds (?e\<lparr>copy_len := l\<rparr>) (c + amount e c)" for l
      by (simp add: ebml_bounds_def)
    show ?thesis using add_copied_bounds [OF assms False] e
      by (simp only: copy_turn_value [OF v] False if_False copied_def Let_def) (auto simp: split: if_splits)
  qed
qed

text \<open>Every turn keeps the bounds, also one that ends in an error, and never faults.\<close>

lemma step_bounds:
  assumes "ebml_bounds e c"
  shows "case ebml_step e c of
      Go e' c' \<Rightarrow> ebml_bounds e' c' | Pause e' c' \<Rightarrow> ebml_bounds e' c' | Return_error e' \<Rightarrow> ebml_bounds e' 0 | Crash f \<Rightarrow> False"
proof -
  have z: "ebml_bounds e 0" using assms by (simp add: ebml_bounds_def)
  show ?thesis
    using parse_turn_bounds [OF assms] start_cluster_bounds [OF assms] copy_turn_bounds [OF assms] assms z
    by (cases "parse_state e") (auto simp: ebml_step_def split: turn.splits)
qed

lemma loop_bounds:
  "ebml_bounds e c \<Longrightarrow> case ebml_loop e c of
      Go e' c' \<Rightarrow> False | Pause e' c' \<Rightarrow> ebml_bounds e' c' | Return_error e' \<Rightarrow> ebml_bounds e' 0 | Crash f \<Rightarrow> False"
proof (induction e c rule: ebml_loop.induct)
  case (1 e c)
  then show ?case using step_bounds [OF 1(2)]
    by (cases "ebml_step e c") (auto simp: ebml_loop.simps [of e c])
qed

lemma wrote_bounds:
  assumes "ebml_bounds e 0" and "length (input_buffer e) + length bytes \<le> EBML_SLICE_SIZE"
  shows "case ebml_wrote e bytes of
      Inl f \<Rightarrow> False | Inr (Wrote e') \<Rightarrow> ebml_bounds e' 0 | Inr (Wrote_error e') \<Rightarrow> ebml_bounds e' 0"
proof -
  have "ebml_bounds (e\<lparr>input_buffer := input_buffer e @ bytes\<rparr>) 0" using assms by (simp add: ebml_bounds_def)
  from loop_bounds [OF this] show ?thesis using assms(2)
    by (auto simp: ebml_wrote_def ebml_bounds_def split: turn.splits)
qed

lemma read_space_bounds:
  assumes "ebml_bounds e 0" and "ebml_read_space e = (n, e')"
  shows "ebml_bounds e' 0" "input_buffer e' = input_buffer e" "buffer e' = buffer e" "header_buffer e' = header_buffer e"
  using assms by (auto simp: ebml_read_space_def ebml_bounds_def Let_def split: ebml_read_mode.splits if_splits)

lemma read_bounds:
  assumes "ebml_bounds e 0" and "ebml_read_space e = (n, e')" and "0 < n" and "ebml_read e' n = (bs, ty, e'')"
  shows "length bs = n" and "ebml_bounds e'' 0"
proof (atomize (full), cases "output_state e")
  case EBML_STATE_READING_HEADER
  then have "e' = e" "n = header_size e" using assms(2, 3) by (auto simp: ebml_read_space_def split: if_splits)
  then show "length bs = n \<and> ebml_bounds e'' 0" using assms EBML_STATE_READING_HEADER
    by (auto simp: ebml_read_def read_header_def ebml_bounds_def Let_def)
next
  case EBML_STATE_READING_CLUSTERS
  show "length bs = n \<and> ebml_bounds e'' 0"
  proof (cases "cluster_start e > 0")
    case True
    then have "e' = e" "n = nat (cluster_start e)" using assms(2) EBML_STATE_READING_CLUSTERS
      by (auto simp: ebml_read_space_def split: if_splits)
    then show ?thesis using assms(1, 3, 4) EBML_STATE_READING_CLUSTERS True
      by (auto simp: ebml_read_def read_cluster_def ebml_bounds_def Let_def)
  next
    case False
    then have e: "output_state e' = EBML_STATE_READING_CLUSTERS" "n = length (buffer e')" "cluster_start e' \<le> 0"
      using assms(2, 3) EBML_STATE_READING_CLUSTERS by (auto simp: ebml_read_space_def Let_def split: if_splits)
    then show ?thesis using read_space_bounds(1) [OF assms(1, 2)] assms(3, 4)
      by (auto simp: ebml_read_def read_cluster_def ebml_bounds_def Let_def split: if_splits)
  qed
qed

section \<open>As long as there is no error\<close>

definition in_header :: "ebml_t \<Rightarrow> bool" where
  "in_header e \<longleftrightarrow> parse_state e = EBML_STATE_PARSING_HEADER \<or> parse_state e = EBML_STATE_COPYING_TO_HEADER"

definition in_clusters :: "ebml_t \<Rightarrow> bool" where
  "in_clusters e \<longleftrightarrow> parse_state e = EBML_STATE_PARSING_CLUSTERS \<or> parse_state e = EBML_STATE_COPYING_TO_DATA"

text \<open>The mark of a cluster: its identifier stands there, or what is still to be copied completes it.\<close>

definition marked_part :: "ebml_t \<Rightarrow> byte list" where
  "marked_part e = drop (nat (cluster_start e)) (buffer e)"

definition mark_ok :: "ebml_t \<Rightarrow> nat \<Rightarrow> bool" where
  "mark_ok e c \<longleftrightarrow>
     take 4 (marked_part e @ drop c (input_buffer e)) = CLUSTER_MAGIC
     \<and> (4 \<le> length (marked_part e)
        \<or> parse_state e = EBML_STATE_COPYING_TO_DATA \<and> 4 \<le> unat (copy_len e) + length (marked_part e))
     \<and> (flush_cluster e \<longrightarrow> 4 \<le> length (marked_part e))"

definition at_cluster :: "ebml_t \<Rightarrow> nat \<Rightarrow> bool" where
  "at_cluster e c \<longleftrightarrow> (\<exists>n t v. ebml_parse_tag (drop c (input_buffer e)) = Tag n t v \<and> 4 < n
     \<and> take 4 (drop c (input_buffer e)) = CLUSTER_MAGIC)"

definition header_ok :: "ebml_t \<Rightarrow> bool" where
  "header_ok e \<longleftrightarrow>
     (in_header e \<longrightarrow> header_size e = 0 \<and> buffer e = [] \<and> cluster_start e = -1 \<and> output_state e = EBML_STATE_READING_HEADER)
     \<and> (output_state e = EBML_STATE_READING_CLUSTERS \<longrightarrow> header_size e \<noteq> 0)
     \<and> (header_size e \<noteq> 0 \<or> in_clusters e \<or> cluster_start e \<ge> 0 \<longrightarrow> header_size e = length (header_buffer e))
     \<and> cluster_start e \<ge> -1"

definition ebml_inv :: "ebml_t \<Rightarrow> nat \<Rightarrow> bool" where
  "ebml_inv e c \<longleftrightarrow> ebml_bounds e c \<and> header_ok e
     \<and> (parse_state e = EBML_STATE_START_CLUSTER \<longrightarrow> at_cluster e c)
     \<and> (cluster_start e \<ge> 0 \<longrightarrow> mark_ok e c)"

text \<open>What a turn does to the bytes: they go on to the header or to the buffer.\<close>

definition moves :: "ebml_t \<Rightarrow> nat \<Rightarrow> ebml_t \<Rightarrow> nat \<Rightarrow> bool" where
  "moves e c e' c' \<longleftrightarrow> output_state e' = output_state e
     \<and> header_buffer e' @ buffer e' @ drop c' (input_buffer e') = header_buffer e @ buffer e @ drop c (input_buffer e)
     \<and> (output_state e = EBML_STATE_READING_CLUSTERS \<longrightarrow> header_buffer e' = header_buffer e)"

lemma moves_trans: "moves e c e' c' \<Longrightarrow> moves e' c' e'' c'' \<Longrightarrow> moves e c e'' c''"
  by (simp add: moves_def)

lemma parse_turn_inv:
  assumes "ebml_inv e c" and "parse_turn e c = Go e' c'"
    and "parse_state e = EBML_STATE_PARSING_HEADER \<or> parse_state e = EBML_STATE_PARSING_CLUSTERS"
  shows "ebml_inv e' c' \<and> moves e c e' c'"
proof -
  have b: "ebml_bounds e' c'" using parse_turn_bounds [of e c] assms(1, 2) by (simp add: ebml_inv_def)
  show ?thesis using assms(2)
  proof (cases rule: parse_turn_Go)
    case (cluster n t v)
    then show ?thesis using assms(1, 3) b
      by (auto simp: ebml_inv_def header_ok_def at_cluster_def mark_ok_def marked_part_def moves_def in_header_def in_clusters_def)
  next
    case (element e1 l)
    note f = same_but_tracks_fields [OF element(3)]
    have "elem_copy_state e = (if parse_state e = EBML_STATE_PARSING_HEADER then EBML_STATE_COPYING_TO_HEADER else EBML_STATE_COPYING_TO_DATA)"
      by (simp add: elem_copy_state_def)
    then show ?thesis using assms(1, 3) b element(1, 2) f
      by (auto simp: ebml_inv_def header_ok_def mark_ok_def marked_part_def moves_def in_header_def in_clusters_def)
  qed
qed

lemma start_cluster_inv:
  assumes "ebml_inv e c" and "parse_state e = EBML_STATE_START_CLUSTER"
  shows "case start_cluster e c of
      Go e' c' \<Rightarrow> ebml_inv e' c' \<and> moves e c e' c'
    | Pause e' c' \<Rightarrow> ebml_inv e' c' \<and> moves e c e' c' \<and> flush_cluster e' \<and> cluster_start e' \<ge> 0 \<and> parse_state e' = EBML_STATE_START_CLUSTER
    | _ \<Rightarrow> False"
proof (cases "cluster_start e \<ge> 0")
  case True
  then show ?thesis using assms
    by (auto simp: start_cluster_def ebml_inv_def ebml_bounds_def header_ok_def at_cluster_def mark_ok_def marked_part_def
        moves_def in_header_def in_clusters_def)
next
  case False
  from assms obtain n t v where n: "ebml_parse_tag (drop c (input_buffer e)) = Tag n t v" "4 < n"
    "take 4 (drop c (input_buffer e)) = CLUSTER_MAGIC" by (auto simp: ebml_inv_def at_cluster_def)
  have "unat (of_nat n :: u64) = n" using tag_bounds(2) [OF n(1)] by (simp add: unat_of_nat)
  then show ?thesis using False assms n
    by (auto simp: start_cluster_def Let_def ebml_inv_def ebml_bounds_def header_ok_def mark_ok_def marked_part_def
        moves_def in_header_def in_clusters_def)
qed

text \<open>Copying: what is added to a buffer is taken off the input.\<close>

lemma copied_bytes:
  assumes "c + n \<le> length (input_buffer e)"
  shows "take n (drop c (input_buffer e)) @ drop (c + n) (input_buffer e) = drop c (input_buffer e)"
    and "length (take n (drop c (input_buffer e))) = n"
proof -
  show "take n (drop c (input_buffer e)) @ drop (c + n) (input_buffer e) = drop c (input_buffer e)"
    by (metis append_take_drop_id drop_drop add.commute)
  show "length (take n (drop c (input_buffer e))) = n" using assms by simp
qed

lemma copy_inv:
  assumes "ebml_inv e c" and "parse_state e = EBML_STATE_COPYING_TO_HEADER \<or> parse_state e = EBML_STATE_COPYING_TO_DATA"
    and "c + n \<le> length (input_buffer e)" and "n \<le> unat (copy_len e)"
    and "e' = (add_copied e (take n (drop c (input_buffer e))))\<lparr>copy_len := l, parse_state := st\<rparr>"
    and "ebml_bounds e' (c + n)"
    and "st = parse_state e \<and> unat l = unat (copy_len e) - n \<or> st = resume_state e \<and> n = unat (copy_len e)"
  shows "ebml_inv e' (c + n) \<and> moves e c e' (c + n)"
proof (cases "parse_state e = EBML_STATE_COPYING_TO_HEADER")
  case True
  then show ?thesis using assms(1, 6, 7) copied_bytes(1) [OF assms(3)]
    by (auto simp: assms(5) add_copied_def resume_state_def ebml_inv_def header_ok_def in_header_def in_clusters_def moves_def)
next
  case False
  let ?bs = "take n (drop c (input_buffer e))"
  have h: "header_ok e'" using False assms(1, 2, 7)
    by (auto simp: assms(5) add_copied_def resume_state_def ebml_inv_def header_ok_def in_header_def in_clusters_def)
  have m: "moves e c e' (c + n)" using False copied_bytes(1) [OF assms(3)]
    by (simp add: assms(5) add_copied_def moves_def)
  have "mark_ok e' (c + n)" if "cluster_start e' \<ge> 0"
  proof -
    have cs: "cluster_start e' = cluster_start e" by (simp add: assms(5) add_copied_def)
    then have "mark_ok e c" "cluster_start e \<le> int (length (buffer e))" using that assms(1) by (auto simp: ebml_inv_def ebml_bounds_def)
    moreover from this have p: "marked_part e' = marked_part e @ ?bs" using that False cs
      by (simp add: assms(5) add_copied_def marked_part_def)
    moreover have "input_buffer e' = input_buffer e" "flush_cluster e' = flush_cluster e" "parse_state e' = st" "copy_len e' = l"
      by (simp_all add: assms(5) add_copied_def)
    ultimately show ?thesis using assms(2, 4, 7) False copied_bytes [OF assms(3)]
      by (auto simp: mark_ok_def)
  qed
  moreover have "parse_state e' \<noteq> EBML_STATE_START_CLUSTER" using assms(2, 7) by (auto simp: assms(5) add_copied_def resume_state_def)
  ultimately show ?thesis using h m assms(6) by (simp add: ebml_inv_def)
qed

text \<open>Why the loop stops: too little input, a cluster that waits for the last one, or no room.\<close>

definition paused :: "ebml_t \<Rightarrow> nat \<Rightarrow> bool" where
  "paused e c \<longleftrightarrow>
     (case parse_state e of
        EBML_STATE_START_CLUSTER \<Rightarrow> flush_cluster e \<and> cluster_start e \<ge> 0
      | EBML_STATE_COPYING_TO_HEADER \<Rightarrow> c = length (input_buffer e)
      | EBML_STATE_COPYING_TO_DATA \<Rightarrow> c = length (input_buffer e) \<or> length (buffer e) = EBML_SLICE_SIZE
      | _ \<Rightarrow> length (drop c (input_buffer e)) < 28)"

lemma probe_waits:
  assumes "probe_element e inp n p = Probe_wait" and "n \<le> 16"
  shows "length inp < 28"
proof -
  have "length inp < 24" if "ebml_parse_var_int (drop n inp) = Incomplete" using var_int_needs [OF that] assms(2) by simp
  moreover have "length inp \<le> n + k + 2 \<Longrightarrow> length inp < 28" if "ebml_parse_var_int (drop n inp) = Parsed k v" for k v
    using var_int_bounds(2) [OF that] assms(2) by simp
  moreover have "length inp < 28" if "ebml_parse_sized_int (drop n inp) p False = Incomplete"
    using sized_int_bounds(2) [OF that] assms(2) by simp
  ultimately show ?thesis using assms(1)
    by (auto simp: probe_element_def probe_block_def probe_track_number_def probe_track_type_def Let_def
        split: if_splits parsed.splits)
qed

lemma parse_turn_paused:
  assumes "parse_turn e c = Pause e' c'"
  shows "e' = e \<and> c' = c \<and> length (drop c (input_buffer e)) < 28"
proof (cases "ebml_parse_tag (drop c (input_buffer e))")
  case Tag_incomplete
  then show ?thesis using assms tag_needs [OF Tag_incomplete] by (simp add: parse_turn_def Let_def)
next
  case (Tag n t v)
  have "probe_element e (drop c (input_buffer e)) n p = Probe_wait \<Longrightarrow> length (input_buffer e) - c < 28" for p
    using probe_waits [of e "drop c (input_buffer e)" n p] tag_bounds(2) [OF Tag] by simp
  then show ?thesis using assms Tag
    by (auto simp: parse_turn_def Let_def split: if_splits probe.splits)
qed (use assms in \<open>simp add: parse_turn_def Let_def\<close>)

lemma copy_turn_inv:
  assumes "ebml_inv e c" and "parse_state e = EBML_STATE_COPYING_TO_HEADER \<or> parse_state e = EBML_STATE_COPYING_TO_DATA"
  shows "copy_turn e c = Go e' c' \<Longrightarrow> ebml_inv e' c' \<and> moves e c e' c'"
    and "copy_turn e c = Pause e' c' \<Longrightarrow> ebml_inv e' c' \<and> moves e c e' c' \<and> paused e' c'"
proof -
  have b: "ebml_bounds e c" using assms(1) by (simp add: ebml_inv_def)
  have v: "c \<le> length (input_buffer e)" "length (buffer e) \<le> EBML_SLICE_SIZE" using b by (simp_all add: ebml_bounds_def)
  {
    assume g: "copy_turn e c = Go e' c'"
    then obtain n where "c' = c + n" "c' \<le> length (input_buffer e)" "n = unat (copy_len e)"
      "e' = (add_copied e (take n (drop c (input_buffer e))))\<lparr>copy_len := 0, parse_state := resume_state e\<rparr>"
      by (rule copy_turn_Go)
    then show "ebml_inv e' c' \<and> moves e c e' c'"
      using copy_inv [OF assms, where n = n and e' = e' and l = 0 and st = "resume_state e"] copy_turn_bounds [OF b] g by simp
  next
    assume g: "copy_turn e c = Pause e' c'"
    let ?n = "amount e c" and ?e = "add_copied e (take (amount e c) (drop c (input_buffer e)))"
    have "copied ?e c ?n (resume_state e) = Pause e' c'"
      using g copy_turn_value [OF v] by (simp split: if_splits)
    from copied_Pause [OF this] have p: "e' = ?e\<lparr>copy_len := copy_len e - of_nat ?n\<rparr>" "c' = c + ?n" "copy_len e \<noteq> of_nat ?n"
      by (simp_all add: add_copied_def split: if_splits)
    have n: "?n \<le> length (input_buffer e) - c" "?n \<le> unat (copy_len e)" by (rule amount_le)+
    then have u: "unat (of_nat ?n :: u64) = ?n"
      using unsigned_less [of "copy_len e", where 'a = nat] by (simp add: unat_of_nat)
    then have l: "unat (copy_len e - of_nat ?n) = unat (copy_len e) - ?n"
      using n(2) by (simp add: unat_sub_if')
    have e: "e' = ?e\<lparr>copy_len := copy_len e - of_nat ?n, parse_state := parse_state e\<rparr>" by (simp add: p(1) add_copied_def)
    have bd: "ebml_bounds e' (c + ?n)" using copy_turn_bounds [OF b] g p(2) by simp
    have m: "ebml_inv e' c' \<and> moves e c e' c'" using copy_inv [OF assms _ n(2) e bd] n(1) v(1) l p(2) by simp
    have "?n \<noteq> unat (copy_len e)" using p(3) by auto
    then have "?n = length (input_buffer e) - c \<or> parse_state e \<noteq> EBML_STATE_COPYING_TO_HEADER \<and> ?n = EBML_SLICE_SIZE - length (buffer e)"
      by (auto simp: amount_def Let_def min_def split: if_splits)
    then have "paused e' c'" using assms(2) v n(1)
      by (auto simp: paused_def e p(2) add_copied_def)
    with m show "ebml_inv e' c' \<and> moves e c e' c' \<and> paused e' c'" by simp
  }
qed

lemma step_inv:
  assumes "ebml_inv e c"
  shows "case ebml_step e c of
      Go e' c' \<Rightarrow> ebml_inv e' c' \<and> moves e c e' c'
    | Pause e' c' \<Rightarrow> ebml_inv e' c' \<and> moves e c e' c' \<and> paused e' c'
    | _ \<Rightarrow> True"
proof -
  have m: "moves e c e c" by (simp add: moves_def)
  show ?thesis
    using parse_turn_inv [OF assms] parse_turn_paused [of e c] start_cluster_inv [OF assms] copy_turn_inv [OF assms] assms m
    by (cases "parse_state e") (auto simp: ebml_step_def paused_def split: turn.splits)
qed

lemma loop_inv:
  "ebml_inv e c \<Longrightarrow> ebml_loop e c = Pause e' c' \<Longrightarrow> ebml_inv e' c' \<and> moves e c e' c' \<and> paused e' c'"
proof (induction e c rule: ebml_loop.induct)
  case (1 e c)
  show ?case
  proof (cases "ebml_step e c")
    case (Go e1 c1)
    then have s: "ebml_inv e1 c1" "moves e c e1 c1" using step_inv [OF 1(2)] by simp_all
    have "ebml_loop e1 c1 = Pause e' c'" using 1(3) Go by (simp add: ebml_loop.simps [of e c])
    from 1(1) [OF Go s(1) this] s(2) show ?thesis using moves_trans by blast
  qed (use step_inv [OF 1(2)] 1(3) in \<open>simp_all add: ebml_loop.simps [of e c]\<close>)
qed

text \<open>More input does not disturb what was found.\<close>

lemma inv_more_input:
  assumes "ebml_inv e 0" and "length (input_buffer e) + length bytes \<le> EBML_SLICE_SIZE"
  shows "ebml_inv (e\<lparr>input_buffer := input_buffer e @ bytes\<rparr>) 0"
proof -
  have t: "take 4 (xs @ bytes) = CLUSTER_MAGIC" if "take 4 xs = CLUSTER_MAGIC" for xs
  proof -
    have "length (take 4 xs) = 4" unfolding that by (simp add: CLUSTER_MAGIC_def)
    then have "4 \<le> length xs" by simp
    then show ?thesis using that by simp
  qed
  have "at_cluster (e\<lparr>input_buffer := input_buffer e @ bytes\<rparr>) 0" if "at_cluster e 0"
    using that t [of "input_buffer e"] tag_more [of "input_buffer e" bytes] by (auto simp: at_cluster_def simp del: take_append)
  moreover have "mark_ok (e\<lparr>input_buffer := input_buffer e @ bytes\<rparr>) 0" if "mark_ok e 0"
    using that t [of "marked_part e @ input_buffer e"] by (auto simp: mark_ok_def marked_part_def simp del: take_append)
  ultimately show ?thesis using assms
    by (auto simp: ebml_inv_def ebml_bounds_def header_ok_def in_header_def in_clusters_def)
qed

lemma inv_shift:
  assumes "ebml_inv e c"
  shows "ebml_inv (e\<lparr>input_buffer := drop c (input_buffer e)\<rparr>) 0"
proof -
  let ?e = "e\<lparr>input_buffer := drop c (input_buffer e)\<rparr>"
  have "ebml_bounds ?e 0" using assms by (auto simp: ebml_inv_def ebml_bounds_def)
  moreover have "header_ok ?e" using assms by (simp add: ebml_inv_def header_ok_def in_header_def in_clusters_def)
  moreover have "at_cluster ?e 0 = at_cluster e c" "mark_ok ?e 0 = mark_ok e c"
    by (simp_all add: at_cluster_def mark_ok_def marked_part_def)
  ultimately show ?thesis using assms by (simp add: ebml_inv_def)
qed

lemma wrote_inv:
  assumes "ebml_inv e 0" and "ebml_wrote e bytes = Inr (Wrote e')"
  shows "ebml_inv e' 0 \<and> paused e' 0 \<and> moves (e\<lparr>input_buffer := input_buffer e @ bytes\<rparr>) 0 e' 0"
proof -
  let ?e = "e\<lparr>input_buffer := input_buffer e @ bytes\<rparr>"
  have l: "length (input_buffer e) + length bytes \<le> EBML_SLICE_SIZE" using assms(2) by (auto simp: ebml_wrote_def split: if_splits)
  have i: "ebml_inv ?e 0" using inv_more_input [OF assms(1) l] .
  then have "ebml_bounds ?e 0" by (simp add: ebml_inv_def)
  from loop_bounds [OF this] obtain e1 c1 where p: "ebml_loop ?e 0 = Pause e1 c1"
    using assms(2) l by (auto simp: ebml_wrote_def split: turn.splits)
  with assms(2) l have e': "e' = e1\<lparr>input_buffer := drop c1 (input_buffer e1)\<rparr>" by (simp add: ebml_wrote_def)
  from loop_inv [OF i p] have "ebml_inv e1 c1" "moves ?e 0 e1 c1" "paused e1 c1" by simp_all
  then show ?thesis using inv_shift [of e1 c1]
    by (auto simp: e' moves_def paused_def split: ebml_parsing_state.splits)
qed

section \<open>Reading chunks\<close>

lemma read_space_inv:
  assumes "ebml_inv e 0" and "ebml_read_space e = (n, e')"
  shows "ebml_inv e' 0" "output_state e' = output_state e" "buffer e' = buffer e" "input_buffer e' = input_buffer e"
    "header_buffer e' = header_buffer e"
proof -
  have "e' = e \<or> e' = e\<lparr>flush_cluster := True\<rparr> \<and> cluster_start e \<le> 0 \<and> length (buffer e) = EBML_SLICE_SIZE"
    using assms(2) by (auto simp: ebml_read_space_def Let_def split: ebml_read_mode.splits if_splits)
  moreover have "ebml_inv (e\<lparr>flush_cluster := True\<rparr>) 0" if "cluster_start e \<le> 0" "length (buffer e) = EBML_SLICE_SIZE"
  proof -
    let ?e = "e\<lparr>flush_cluster := True\<rparr>"
    have "ebml_bounds ?e 0" "header_ok ?e" "at_cluster ?e 0 = at_cluster e 0"
      using assms(1) by (simp_all add: ebml_inv_def ebml_bounds_def header_ok_def in_header_def in_clusters_def at_cluster_def)
    moreover have "mark_ok ?e 0" if "mark_ok e 0"
      using that \<open>cluster_start e \<le> 0\<close> \<open>length (buffer e) = EBML_SLICE_SIZE\<close>
      by (simp add: mark_ok_def marked_part_def EBML_SLICE_SIZE_def)
    ultimately show ?thesis using assms(1) by (simp add: ebml_inv_def)
  qed
  ultimately show "ebml_inv e' 0" "output_state e' = output_state e" "buffer e' = buffer e" "input_buffer e' = input_buffer e"
    "header_buffer e' = header_buffer e" using assms(1) by auto
qed

lemma read_header_inv:
  assumes "ebml_inv e 0" and "ebml_read_space e = (n, e')" and "0 < n" and "ebml_read e' n = (bs, ty, e'')"
    and "output_state e = EBML_STATE_READING_HEADER"
  shows "bs = header_buffer e" "ebml_inv e'' 0" "output_state e'' = EBML_STATE_READING_CLUSTERS"
    "header_buffer e'' = header_buffer e" "buffer e'' = buffer e" "input_buffer e'' = input_buffer e"
proof -
  have n: "e' = e" "n = header_size e" using assms(2, 3, 5) by (auto simp: ebml_read_space_def split: if_splits)
  then have h: "header_size e = length (header_buffer e)" "header_read_position e = 0" "header_size e \<noteq> 0"
    using assms(1, 3, 5) by (auto simp: ebml_inv_def ebml_bounds_def header_ok_def)
  then have r: "bs = header_buffer e" "e'' = e\<lparr>header_read_position := header_size e, output_state := EBML_STATE_READING_CLUSTERS\<rparr>"
    using assms(3-5) n by (auto simp: ebml_read_def read_header_def Let_def)
  then show "bs = header_buffer e" "output_state e'' = EBML_STATE_READING_CLUSTERS"
    "header_buffer e'' = header_buffer e" "buffer e'' = buffer e" "input_buffer e'' = input_buffer e" by simp_all
  have "at_cluster e'' 0 = at_cluster e 0" "mark_ok e'' 0 = mark_ok e 0"
    by (simp_all add: r at_cluster_def mark_ok_def marked_part_def)
  then show "ebml_inv e'' 0" using assms(1) h
    by (auto simp: r(2) ebml_inv_def ebml_bounds_def header_ok_def in_header_def in_clusters_def)
qed

text \<open>A chunk of the clusters: up to the mark, or all there is, beginning at the mark.\<close>

lemma read_cluster_inv:
  assumes "ebml_inv e 0" and "ebml_read_space e = (n, e')" and "0 < n" and "ebml_read e' n = (bs, ty, e'')"
    and "output_state e = EBML_STATE_READING_CLUSTERS"
  shows "buffer e = bs @ buffer e''" "ebml_inv e'' 0" "output_state e'' = EBML_STATE_READING_CLUSTERS"
    "header_buffer e'' = header_buffer e" "input_buffer e'' = input_buffer e"
    "ty = EBML_CHUNK_CLUSTER_START \<Longrightarrow> take 4 bs = CLUSTER_MAGIC"
proof -
  have b: "ebml_bounds e'' 0" using read_bounds(2) [OF _ assms(2-4)] assms(1) by (simp add: ebml_inv_def)
  have i': "ebml_inv e' 0" using read_space_inv(1) [OF assms(1, 2)] .
  consider (before) "cluster_start e > 0" | (at_mark) "cluster_start e = 0" | (none) "cluster_start e < 0" by linarith
  then have "buffer e = bs @ buffer e'' \<and> ebml_inv e'' 0 \<and> output_state e'' = EBML_STATE_READING_CLUSTERS
      \<and> header_buffer e'' = header_buffer e \<and> input_buffer e'' = input_buffer e
      \<and> (ty = EBML_CHUNK_CLUSTER_START \<longrightarrow> take 4 bs = CLUSTER_MAGIC)"
  proof cases
    case before
    then have n: "e' = e" "n = nat (cluster_start e)" using assms(2, 5) by (auto simp: ebml_read_space_def split: if_splits)
    with before have r: "bs = take n (buffer e)" "e'' = e\<lparr>buffer := drop n (buffer e), cluster_start := 0\<rparr>" "ty = EBML_CHUNK_CLUSTER_CONTINUE"
      using assms(3-5) by (auto simp: ebml_read_def read_cluster_def Let_def)
    have "marked_part e'' = marked_part e" by (simp add: r(2) n marked_part_def)
    then have "at_cluster e'' 0 = at_cluster e 0" "mark_ok e'' 0 = mark_ok e 0"
      by (simp_all add: r(2) at_cluster_def mark_ok_def)
    moreover have "header_ok e''" using assms(1) before
      by (auto simp: r(2) ebml_inv_def header_ok_def in_header_def in_clusters_def)
    ultimately show ?thesis using assms(1, 5) before b by (auto simp: r ebml_inv_def)
  next
    case at_mark
    have e: "cluster_start e' = 0" "output_state e' = EBML_STATE_READING_CLUSTERS" "n = length (buffer e')" "flush_cluster e'"
      using assms(2, 3, 5) at_mark by (auto simp: ebml_read_space_def Let_def split: if_splits)
    then have r: "bs = buffer e'" "e'' = e'\<lparr>buffer := [], cluster_start := -1\<rparr>"
      using assms(3, 4) by (auto simp: ebml_read_def read_cluster_def Let_def)
    have "mark_ok e' 0" using i' e(1) by (simp add: ebml_inv_def)
    then have "take 4 bs = CLUSTER_MAGIC" using e by (auto simp: mark_ok_def marked_part_def r(1))
    moreover have "ebml_inv e'' 0" using i' b e
      by (auto simp: r(2) ebml_inv_def header_ok_def in_header_def in_clusters_def at_cluster_def)
    ultimately show ?thesis using read_space_inv [OF assms(1, 2)] e by (simp add: r)
  next
    case none
    have e: "cluster_start e' = cluster_start e" "output_state e' = EBML_STATE_READING_CLUSTERS" "n = length (buffer e')"
      using assms(2, 3, 5) none by (auto simp: ebml_read_space_def Let_def split: if_splits)
    then have r: "bs = buffer e'" "e'' = e'\<lparr>buffer := []\<rparr>" "ty = EBML_CHUNK_CLUSTER_CONTINUE"
      using assms(3, 4) none by (auto simp: ebml_read_def read_cluster_def Let_def)
    have "ebml_inv e'' 0" using i' b e none
      by (auto simp: r(2) ebml_inv_def header_ok_def in_header_def in_clusters_def at_cluster_def)
    then show ?thesis using read_space_inv [OF assms(1, 2)] e by (simp add: r)
  qed
  then show "buffer e = bs @ buffer e''" "ebml_inv e'' 0" "output_state e'' = EBML_STATE_READING_CLUSTERS"
    "header_buffer e'' = header_buffer e" "input_buffer e'' = input_buffer e"
    "ty = EBML_CHUNK_CLUSTER_START \<Longrightarrow> take 4 bs = CLUSTER_MAGIC" by blast+
qed

section \<open>The source\<close>

lemma client_read_bytes_prefix:
  assumes "client_read_bytes len reads = (bs, reads')"
  shows "concat reads = bs @ concat reads'" "length bs \<le> len"
  using assms by (auto simp: client_read_bytes_def split: list.splits if_splits)

definition src_bounds :: "ebml_source_state \<Rightarrow> bool" where
  "src_bounds st \<longleftrightarrow> ebml_bounds (es_ebml st) 0"

lemma get_buffer_bounds:
  "src_bounds st \<Longrightarrow> case ebml_get_buffer st reads of Inl f \<Rightarrow> False | Inr (g, st', reads') \<Rightarrow>
     src_bounds st' \<and> (\<exists>taken. concat reads = taken @ concat reads')"
proof (induction st reads rule: ebml_get_buffer.induct)
  case (1 st reads)
  obtain n e where n: "ebml_read_space (es_ebml st) = (n, e)" by (cases "ebml_read_space (es_ebml st)")
  have b: "ebml_bounds (es_ebml st) 0" "ebml_bounds e 0"
    using 1(3) read_space_bounds(1) [OF _ n] by (simp_all add: src_bounds_def)
  show ?case
  proof (cases "n > 0")
    case True
    obtain bs ty e' where r: "ebml_read e n = (bs, ty, e')" by (cases "ebml_read e n")
    have d: "length bs = n" "ebml_bounds e' 0" using read_bounds [OF b(1) n True r] by simp_all
    show ?thesis
    proof (cases "es_header st")
      case None
      have "src_bounds (st\<lparr>es_ebml := e', es_header := Some bs\<rparr>)" using d by (simp add: src_bounds_def)
      from 1(1) [OF n [symmetric] refl True r [symmetric] refl refl _ None this] show ?thesis
        using None True d by (simp add: ebml_get_buffer.simps [of st reads] n r)
    next
      case (Some h)
      then show ?thesis using True d by (simp add: ebml_get_buffer.simps [of st reads] n r src_bounds_def)
    qed
  next
    case False
    obtain bs reads' where r: "client_read_bytes (EBML_SLICE_SIZE - length (input_buffer e)) reads = (bs, reads')"
      by (cases "client_read_bytes (EBML_SLICE_SIZE - length (input_buffer e)) reads")
    note p = client_read_bytes_prefix [OF r]
    have l: "length (input_buffer e) + length bs \<le> EBML_SLICE_SIZE" using p(2) b(2) unfolding ebml_bounds_def by linarith
    note w = wrote_bounds [OF b(2) l]
    show ?thesis
    proof (cases "ebml_wrote e bs")
      case (Inl f)
      then show ?thesis using w by simp
    next
      case (Inr x)
      then show ?thesis
      proof (cases x)
        case (Wrote e')
        then have "src_bounds (st\<lparr>es_ebml := e'\<rparr>)" using w Inr by (simp add: src_bounds_def)
        with 1(2) [OF n [symmetric] refl False r [symmetric] refl _ Inr Wrote] False Inr Wrote p(1) show ?thesis
          by (cases "bs = []") (auto simp: ebml_get_buffer.simps [of st reads] n r split: sum.splits)
      next
        case (Wrote_error e')
        then have "ebml_bounds e' 0" using w Inr by simp
        then show ?thesis using False Inr Wrote_error p(1)
          by (auto simp: ebml_get_buffer.simps [of st reads] n r src_bounds_def)
      qed
    qed
  qed
qed

text \<open>The bytes of the stream: the header, what was handed out, and what the parser holds.\<close>

definition whole :: "byte list \<Rightarrow> ebml_t \<Rightarrow> byte list" where
  "whole X e = header_buffer e @ X @ buffer e @ input_buffer e"

definition src_inv :: "ebml_source_state \<Rightarrow> byte list \<Rightarrow> bool" where
  "src_inv st X \<longleftrightarrow> ebml_inv (es_ebml st) 0
     \<and> (if output_state (es_ebml st) = EBML_STATE_READING_HEADER then es_header st = None \<and> X = []
        else es_header st = Some (header_buffer (es_ebml st)))"

lemma wrote_whole:
  assumes "src_inv st X" and "ebml_inv e 0" and "ebml_wrote e bs = Inr (Wrote e')"
    and "output_state e = output_state (es_ebml st)" and "header_buffer e = header_buffer (es_ebml st)"
  shows "src_inv (st\<lparr>es_ebml := e'\<rparr>) X" "whole X e' = whole X e @ bs" "paused e' 0"
proof -
  have m: "ebml_inv e' 0" "paused e' 0" "moves (e\<lparr>input_buffer := input_buffer e @ bs\<rparr>) 0 e' 0"
    using wrote_inv [OF assms(2, 3)] by simp_all
  then show "paused e' 0" by simp
  show "src_inv (st\<lparr>es_ebml := e'\<rparr>) X" using assms(1, 4, 5) m(1, 3) by (cases "output_state e") (auto simp: src_inv_def moves_def)
  show "whole X e' = whole X e @ bs" using m(3) assms(1, 4)
    by (cases "output_state e") (auto simp: whole_def moves_def src_inv_def)
qed

definition got_ok :: "got \<Rightarrow> ebml_source_state \<Rightarrow> byte list \<Rightarrow> byte list \<Rightarrow> bool" where
  "got_ok g st' X W \<longleftrightarrow>
     (case g of
        Got_buffer bs sync \<Rightarrow> src_inv st' (X @ bs) \<and> whole (X @ bs) (es_ebml st') = W \<and> (sync \<longrightarrow> take 4 bs = CLUSTER_MAGIC)
          \<and> es_header st' \<noteq> None
      | Got_nothing e \<Rightarrow> \<not> e \<longrightarrow> src_inv st' X \<and> whole X (es_ebml st') = W
      | Got_problem \<Rightarrow> True)"

lemma get_buffer_inv:
  "src_inv st X \<Longrightarrow> ebml_get_buffer st reads = Inr (g, st', reads') \<Longrightarrow>
     \<exists>taken. concat reads = taken @ concat reads' \<and> got_ok g st' X (whole X (es_ebml st) @ taken)"
proof (induction st reads rule: ebml_get_buffer.induct)
  case (1 st reads)
  obtain n e where n: "ebml_read_space (es_ebml st) = (n, e)" by (cases "ebml_read_space (es_ebml st)")
  have i: "ebml_inv (es_ebml st) 0" using 1(3) by (simp add: src_inv_def)
  note f = read_space_inv [OF i n]
  show ?case
  proof (cases "n > 0")
    case True
    obtain bs ty e' where r: "ebml_read e n = (bs, ty, e')" by (cases "ebml_read e n")
    have d: "length bs = n" using read_bounds(1) [OF _ n True r] i by (simp add: ebml_inv_def)
    show ?thesis
    proof (cases "output_state (es_ebml st)")
      case EBML_STATE_READING_HEADER
      then have h: "es_header st = None" "X = []" using 1(3) by (simp_all add: src_inv_def)
      note q = read_header_inv [OF i n True r EBML_STATE_READING_HEADER]
      let ?st = "st\<lparr>es_ebml := e', es_header := Some bs\<rparr>"
      have "src_inv ?st X" using q by (simp add: src_inv_def h(2))
      moreover have "ebml_get_buffer ?st reads = Inr (g, st', reads')"
        using 1(4) h(1) True d by (simp add: ebml_get_buffer.simps [of st reads] n r)
      moreover have "whole X (es_ebml ?st) = whole X (es_ebml st)" using q by (simp add: whole_def)
      ultimately show ?thesis using 1(1) [OF n [symmetric] refl True r [symmetric] refl refl _ h(1)] d by simp
    next
      case EBML_STATE_READING_CLUSTERS
      then have h: "es_header st = Some (header_buffer (es_ebml st))" using 1(3) by (simp add: src_inv_def)
      note q = read_cluster_inv [OF i n True r EBML_STATE_READING_CLUSTERS]
      have "g = Got_buffer bs (ty = EBML_CHUNK_CLUSTER_START)" "st' = st\<lparr>es_ebml := e'\<rparr>" "reads' = reads"
        using 1(4) h True d by (simp_all add: ebml_get_buffer.simps [of st reads] n r)
      then show ?thesis using q h by (simp add: got_ok_def src_inv_def whole_def)
    qed
  next
    case False
    obtain bs rest where r: "client_read_bytes (EBML_SLICE_SIZE - length (input_buffer e)) reads = (bs, rest)"
      by (cases "client_read_bytes (EBML_SLICE_SIZE - length (input_buffer e)) reads")
    note p = client_read_bytes_prefix(1) [OF r]
    have we: "whole X e = whole X (es_ebml st)" using f by (simp add: whole_def)
    show ?thesis
    proof (cases "ebml_wrote e bs")
      case (Inl x)
      then show ?thesis using 1(4) False by (auto simp: ebml_get_buffer.simps [of st reads] n r split: if_splits)
    next
      case (Inr x)
      then show ?thesis
      proof (cases x)
        case (Wrote e')
        note w = wrote_whole [OF 1(3) f(1) Inr [unfolded Wrote] f(2, 5)]
        show ?thesis
        proof (cases "bs = []")
          case True
          then have "g = Got_nothing False" "st' = st\<lparr>es_ebml := e'\<rparr>" "reads' = rest"
            using 1(4) False Inr Wrote by (simp_all add: ebml_get_buffer.simps [of st reads] n r)
          then show ?thesis using p w we True by (intro exI [of _ "[]"]) (simp add: got_ok_def)
        next
          case bs: False
          then have "ebml_get_buffer (st\<lparr>es_ebml := e'\<rparr>) rest = Inr (g, st', reads')"
            using 1(4) False Inr Wrote by (simp add: ebml_get_buffer.simps [of st reads] n r)
          from 1(2) [OF n [symmetric] refl False r [symmetric] refl bs Inr Wrote w(1) this] obtain taken
            where "concat rest = taken @ concat reads'" "got_ok g st' X (whole X e' @ taken)" by auto
          then show ?thesis using p w(2) we by (intro exI [of _ "bs @ taken"]) simp
        qed
      next
        case (Wrote_error e')
        then have "(g = Got_nothing True \<or> g = Got_problem) \<and> reads' = rest"
          using 1(4) False Inr by (auto simp: ebml_get_buffer.simps [of st reads] n r split: if_splits)
        then show ?thesis using p by (auto simp: got_ok_def)
      qed
    qed
  qed
qed

text \<open>
  The states of a source: what it received so far, the buffers it handed out with their marks, and
  whether the parser has reported no error yet.
\<close>

inductive ebml_reach :: "ebml_source_state \<Rightarrow> byte list \<Rightarrow> (byte list \<times> bool) list \<Rightarrow> bool \<Rightarrow> bool" where
  start: "ebml_reach format_ebml_get_plugin [] [] True"
| handed: "ebml_reach st received out clean \<Longrightarrow> ebml_get_buffer st reads = Inr (Got_buffer bs sync, st', reads') \<Longrightarrow>
    concat reads = taken @ concat reads' \<Longrightarrow> ebml_reach st' (received @ taken) (out @ [(bs, sync)]) clean"
| no_data: "ebml_reach st received out clean \<Longrightarrow> ebml_get_buffer st reads = Inr (Got_nothing err, st', reads') \<Longrightarrow>
    concat reads = taken @ concat reads' \<Longrightarrow> ebml_reach st' (received @ taken) out (clean \<and> \<not> err)"
| problem: "ebml_reach st received out clean \<Longrightarrow> ebml_get_buffer st reads = Inr (Got_problem, st', reads') \<Longrightarrow>
    concat reads = taken @ concat reads' \<Longrightarrow> ebml_reach st' (received @ taken) out False"

lemma create_inv: "ebml_inv ebml_create 0"
  by (simp add: ebml_create_def ebml_inv_def ebml_bounds_def header_ok_def in_header_def in_clusters_def)

lemma ebml_reach_bounds: "ebml_reach st received out clean \<Longrightarrow> src_bounds st"
proof (induction rule: ebml_reach.induct)
  case start
  then show ?case using create_inv by (simp add: src_bounds_def format_ebml_get_plugin_def ebml_inv_def)
next
  case (handed st received out clean reads bs sync st' reads' taken)
  then show ?case using get_buffer_bounds [of st reads] by simp
next
  case (no_data st received out clean reads err st' reads' taken)
  then show ?case using get_buffer_bounds [of st reads] by simp
next
  case (problem st received out clean reads st' reads' taken)
  then show ?case using get_buffer_bounds [of st reads] by simp
qed

definition reach_ok :: "ebml_source_state \<Rightarrow> byte list \<Rightarrow> (byte list \<times> bool) list \<Rightarrow> bool" where
  "reach_ok st received out \<longleftrightarrow> src_inv st (concat (map fst out))
     \<and> whole (concat (map fst out)) (es_ebml st) = received
     \<and> (\<forall>(bs, sync)\<in>set out. sync \<longrightarrow> take 4 bs = CLUSTER_MAGIC)"

lemma ebml_reach_inv: "ebml_reach st received out clean \<Longrightarrow> clean \<Longrightarrow> reach_ok st received out"
proof (induction rule: ebml_reach.induct)
  case start
  then show ?case using create_inv
    by (simp add: reach_ok_def src_inv_def whole_def format_ebml_get_plugin_def) (simp add: ebml_create_def)
next
  case (handed st received out clean reads bs sync st' reads' taken)
  then have r: "reach_ok st received out" by simp
  from get_buffer_inv [OF _ handed(2), of "concat (map fst out)"] r handed(3) show ?case
    by (auto simp: reach_ok_def got_ok_def)
next
  case (no_data st received out clean reads err st' reads' taken)
  then have r: "reach_ok st received out" by simp
  from get_buffer_inv [OF _ no_data(2), of "concat (map fst out)"] r no_data(3, 5) show ?case
    by (auto simp: reach_ok_def got_ok_def)
qed simp

text \<open>
  C8: No buffer of the parser overruns in any state a source can reach, whatever it sends and in whatever
  portions, also after an error the source did not notice; and the next call faults in none of them.
\<close>

theorem parser_stays_in_bounds:
  assumes "ebml_reach st received out clean"
  shows "length (buffer (es_ebml st)) \<le> EBML_SLICE_SIZE \<and> length (input_buffer (es_ebml st)) \<le> EBML_SLICE_SIZE
    \<and> length (header_buffer (es_ebml st)) \<le> EBML_HEADER_MAX_SIZE
    \<and> (\<forall>f. ebml_get_buffer st reads \<noteq> Inl f)"
  using ebml_reach_bounds [OF assms] get_buffer_bounds [of st reads]
  by (auto simp: src_bounds_def ebml_bounds_def)

text \<open>
  C7: No byte of the stream is lost, added or moved: until the parser reports an error, the header, the
  buffers handed out and what the parser still holds are together exactly what the source has sent.
  The header that every listener gets first is complete before the first buffer is handed out.
\<close>

theorem stream_passes_unchanged:
  assumes "ebml_reach st received out True"
  shows "header_buffer (es_ebml st) @ concat (map fst out) @ buffer (es_ebml st) @ input_buffer (es_ebml st) = received
    \<and> (concat (map fst out) \<noteq> [] \<longrightarrow> es_header st = Some (header_buffer (es_ebml st)))"
  using ebml_reach_inv [OF assms] by (auto simp: reach_ok_def whole_def src_inv_def split: if_splits)

text \<open>
  C9: A buffer marked as a starting point for listeners begins with the identifier of a cluster, until
  the parser reports an error.
\<close>

theorem sync_points_start_clusters:
  assumes "ebml_reach st received out True" and "(bs, True) \<in> set out"
  shows "take 4 bs = CLUSTER_MAGIC"
  using ebml_reach_inv [OF assms(1)] assms(2) by (auto simp: reach_ok_def)

text \<open>
  After each portion of input the parser has a chunk to hand out, or room for more input; the
  exception is a stream without a header, for which it never has anything to hand out.
\<close>

theorem parser_not_stuck:
  assumes "ebml_reach st received out True" and "ebml_wrote (es_ebml st) bytes = Inr (Wrote e)"
    and "header_buffer e \<noteq> []"
  shows "0 < fst (ebml_read_space e) \<or> length (input_buffer e) < EBML_SLICE_SIZE"
proof -
  have "ebml_inv (es_ebml st) 0" using ebml_reach_inv [OF assms(1)] by (simp add: reach_ok_def src_inv_def)
  then have w: "ebml_inv e 0" "paused e 0" using wrote_inv [OF _ assms(2)] by simp_all
  show ?thesis
  proof (cases "parse_state e")
    case EBML_STATE_START_CLUSTER
    then have c: "flush_cluster e" "cluster_start e \<ge> 0" using w(2) by (simp_all add: paused_def)
    then have "header_size e \<noteq> 0" "4 \<le> length (marked_part e)" using w(1) assms(3) by (auto simp: ebml_inv_def header_ok_def mark_ok_def)
    then show ?thesis using c by (auto simp: ebml_read_space_def marked_part_def split: ebml_read_mode.splits)
  next
    case EBML_STATE_COPYING_TO_DATA
    then have "header_size e \<noteq> 0" using w(1) assms(3) by (auto simp: ebml_inv_def header_ok_def in_clusters_def)
    then show ?thesis using w(2) EBML_STATE_COPYING_TO_DATA
      by (auto simp: paused_def ebml_read_space_def Let_def EBML_SLICE_SIZE_def split: ebml_read_mode.splits)
  qed (use w(2) in \<open>auto simp: paused_def EBML_SLICE_SIZE_def\<close>)
qed

lemmas ebml_eval = ebml_get_buffer.simps ebml_loop.simps ebml_wrote_def ebml_step_def parse_turn_def start_cluster_def
  copy_turn_def copied_def probe_element_def ebml_parse_tag_def ebml_parse_var_int_def find_marker.simps var_int_rest_def
  ebml_read_space_def ebml_read_def read_header_def read_cluster_def client_read_bytes_def format_ebml_get_plugin_def
  ebml_create_def EBML_HEADER_MAX_SIZE_def EBML_SLICE_SIZE_def EBML_UNKNOWN_def magic_defs Let_def

text \<open>A stream of a header, a cluster with a time code, and a second cluster.\<close>

definition demo_stream :: "byte list" where
  "demo_stream = [0x1A, 0x45, 0xDF, 0xA3, 0x80, 0x1F, 0x43, 0xB6, 0x75, 0x83, 0xE7, 0x81, 0x07, 0x1F, 0x43, 0xB6, 0x75, 0x80]"

lemma demo_run:
  "case ebml_get_buffer format_ebml_get_plugin [demo_stream] of
     Inr (g, st, reads) \<Rightarrow> g = Got_buffer [0x1F, 0x43, 0xB6, 0x75, 0x83, 0xE7, 0x81, 0x07] True \<and> reads = []
       \<and> es_header st = Some [0x1A, 0x45, 0xDF, 0xA3, 0x80] \<and> input_buffer (es_ebml st) = [0x1F, 0x43, 0xB6, 0x75, 0x80]
   | Inl f \<Rightarrow> False"
  by (simp add: ebml_eval demo_stream_def)

lemma ebml_demo_reach:
  obtains st where "ebml_reach st demo_stream [([0x1F, 0x43, 0xB6, 0x75, 0x83, 0xE7, 0x81, 0x07], True)] True"
    "es_header st = Some [0x1A, 0x45, 0xDF, 0xA3, 0x80]"
proof -
  from demo_run obtain st where st: "ebml_get_buffer format_ebml_get_plugin [demo_stream] =
      Inr (Got_buffer [0x1F, 0x43, 0xB6, 0x75, 0x83, 0xE7, 0x81, 0x07] True, st, [])"
    "es_header st = Some [0x1A, 0x45, 0xDF, 0xA3, 0x80]" by (auto split: sum.splits)
  from ebml_reach.handed [OF ebml_reach.start st(1), of demo_stream] that st(2) show ?thesis by simp
qed

theorem parser_stays_in_bounds_witness:
  "\<exists>st. es_header st = Some [0x1A, 0x45, 0xDF, 0xA3, 0x80] \<and> length (buffer (es_ebml st)) \<le> EBML_SLICE_SIZE
     \<and> length (input_buffer (es_ebml st)) \<le> EBML_SLICE_SIZE \<and> ebml_get_buffer st [] \<noteq> Inl Out_of_bounds"
proof -
  obtain st where "ebml_reach st demo_stream [([0x1F, 0x43, 0xB6, 0x75, 0x83, 0xE7, 0x81, 0x07], True)] True"
    "es_header st = Some [0x1A, 0x45, 0xDF, 0xA3, 0x80]" by (rule ebml_demo_reach)
  then show ?thesis using parser_stays_in_bounds by blast
qed

theorem stream_passes_unchanged_witness:
  "\<exists>st :: ebml_source_state. header_buffer (es_ebml st) @ [0x1F, 0x43, 0xB6, 0x75, 0x83, 0xE7, 0x81, 0x07] @ buffer (es_ebml st) @ input_buffer (es_ebml st)
      = demo_stream \<and> es_header st = Some (header_buffer (es_ebml st))"
proof -
  obtain st where "ebml_reach st demo_stream [([0x1F, 0x43, 0xB6, 0x75, 0x83, 0xE7, 0x81, 0x07], True)] True" by (rule ebml_demo_reach)
  from stream_passes_unchanged [OF this] show ?thesis by (intro exI [of _ st]) simp
qed

theorem sync_points_start_clusters_witness:
  "take 4 [0x1F, 0x43, 0xB6, 0x75, 0x83, 0xE7, 0x81, 0x07] = CLUSTER_MAGIC"
proof -
  obtain st where "ebml_reach st demo_stream [([0x1F, 0x43, 0xB6, 0x75, 0x83, 0xE7, 0x81, 0x07], True)] True" by (rule ebml_demo_reach)
  from sync_points_start_clusters [OF this] show ?thesis by simp
qed

theorem parser_not_stuck_witness:
  "\<exists>e. ebml_wrote ebml_create demo_stream = Inr (Wrote e) \<and> header_buffer e \<noteq> []
     \<and> (0 < fst (ebml_read_space e) \<or> length (input_buffer e) < EBML_SLICE_SIZE)"
proof -
  have "case ebml_wrote ebml_create demo_stream of Inr (Wrote e) \<Rightarrow> header_buffer e \<noteq> [] | _ \<Rightarrow> False"
    by (simp add: ebml_eval demo_stream_def)
  then obtain e where e: "ebml_wrote ebml_create demo_stream = Inr (Wrote e)" "header_buffer e \<noteq> []"
    by (auto split: sum.splits wrote.splits)
  then show ?thesis using parser_not_stuck [OF ebml_reach.start, of demo_stream e]
    by (simp add: format_ebml_get_plugin_def)
qed

section \<open>Where the code goes wrong\<close>

text \<open>
  A cluster that begins just where a read of a whole buffer begins: while the cluster before it is
  handed out the input stays full, and the next call asks the network for no bytes at all, which it
  takes for the end of the connection.
\<close>

theorem full_input_reads_nothing:
  assumes "length rest = 4091"
  shows "\<exists>st received out. ebml_reach st received out True \<and> fst (ebml_read_space (es_ebml st)) = 0
    \<and> EBML_SLICE_SIZE - length (input_buffer (es_ebml st)) = 0
    \<and> input_buffer (es_ebml st) = [0x1F, 0x43, 0xB6, 0x75, 0x80] @ rest"
proof -
  let ?big = "[0x1F, 0x43, 0xB6, 0x75, 0x80] @ rest"
  have "case ebml_get_buffer format_ebml_get_plugin [take 13 demo_stream] of
      Inr (g, st, reads) \<Rightarrow> g = Got_nothing False \<and> reads = []
        \<and> (case ebml_get_buffer st [?big] of
             Inr (g', st', reads') \<Rightarrow> g' = Got_buffer [0x1F, 0x43, 0xB6, 0x75, 0x83, 0xE7, 0x81, 0x07] True \<and> reads' = []
               \<and> fst (ebml_read_space (es_ebml st')) = 0 \<and> input_buffer (es_ebml st') = ?big
           | Inl f \<Rightarrow> False)
    | Inl f \<Rightarrow> False"
    by (simp add: ebml_eval demo_stream_def assms)
  then obtain st st' where r: "ebml_get_buffer format_ebml_get_plugin [take 13 demo_stream] = Inr (Got_nothing False, st, [])"
    "ebml_get_buffer st [?big] = Inr (Got_buffer [0x1F, 0x43, 0xB6, 0x75, 0x83, 0xE7, 0x81, 0x07] True, st', [])"
    "fst (ebml_read_space (es_ebml st')) = 0" "input_buffer (es_ebml st') = ?big" by (auto split: sum.splits)
  from ebml_reach.handed [OF ebml_reach.no_data [OF ebml_reach.start r(1), of "take 13 demo_stream"] r(2), of ?big]
  have "ebml_reach st' (([] @ take 13 demo_stream) @ ?big) ([] @ [([0x1F, 0x43, 0xB6, 0x75, 0x83, 0xE7, 0x81, 0x07], True)]) True" by simp
  then show ?thesis using r(3, 4) assms by (intro exI conjI) (auto simp: EBML_SLICE_SIZE_def)
qed

theorem full_input_reads_nothing_witness:
  "\<exists>st received out. ebml_reach st received out True \<and> fst (ebml_read_space (es_ebml st)) = 0
    \<and> EBML_SLICE_SIZE - length (input_buffer (es_ebml st)) = 0
    \<and> input_buffer (es_ebml st) = [0x1F, 0x43, 0xB6, 0x75, 0x80] @ replicate 4091 0"
  by (rule full_input_reads_nothing) simp

text \<open>
  When the header cannot be written to the dump file, the file is closed and the buffer is written to
  it all the same, through a NULL pointer.
\<close>

theorem dump_failure_is_fatal:
  assumes "\<not> es_file_headers_written st" and "es_header st = Some h"
  shows "ebml_write_buf_to_file full st bs (Some file) =
    (if full h then Inl Null_deref
     else Inr (st\<lparr>es_file_headers_written := True\<rparr>, if full bs then None else Some (file @ h @ bs)))"
  using assms by (simp add: ebml_write_buf_to_file_def fwrite_to_def ebml_write_buf_to_file_fail_def)

theorem dump_failure_is_fatal_witness:
  "ebml_write_buf_to_file (\<lambda>bs. length bs > 2) \<lparr>es_ebml = ebml_create, es_header = Some [1, 2, 3], es_file_headers_written = False\<rparr> [4] (Some [])
     = Inl Null_deref"
  using dump_failure_is_fatal [of "\<lparr>es_ebml = ebml_create, es_header = Some [1, 2, 3], es_file_headers_written = False\<rparr>" "[1, 2, 3]"]
  by simp

end
