(* ===== verification/Format_MP3.thy ===== *)
theory Format_MP3
  imports Util_Header
begin

text \<open>
  The MP3 format, \<^verbatim>\<open>format_mp3.c\<close>, with the metadata of Shoutcast (ICY): a source may send blocks of
  metadata inside its stream, after every \<^verbatim>\<open>icy-metaint\<close> bytes a length byte and so many times sixteen
  bytes of text; a listener may ask for the same. The source side takes the blocks out
  (\<open>mp3_get_filter_meta\<close>) and hangs them on the buffers of the queue, the listener side puts them in
  again (\<open>format_mp3_write_buf_to_client\<close>).

  A block of metadata is a pair of its address, by which the code compares blocks, and its bytes. The
  pointer \<^verbatim>\<open>inline_url\<close> into a block is the block's address and the string it points to. The text of
  the stream, the socket and the comment library are arguments. The buffer \<^verbatim>\<open>build_metadata\<close> is a list
  of its 4081 bytes. The order of the definitions is that of the file.
\<close>

section \<open>State\<close>

definition ICY_METADATA_INTERVAL :: nat where
  "ICY_METADATA_INTERVAL = 16000"

definition REFBUF_SIZE :: nat where
  "REFBUF_SIZE = 1400"

definition MAX_META_LEN :: nat where
  "MAX_META_LEN = 255 * 16"

definition BUILD_METADATA_SIZE :: nat where
  "BUILD_METADATA_SIZE = 4081"

type_synonym meta = "nat \<times> string"

record mp3_state =
  inline_metadata_interval :: int
  offset :: nat
  interval :: int
  inline_url :: "(nat \<times> string) option"
  update_metadata :: bool
  metadata :: meta
  read_data :: "string option"
  build_metadata_len :: nat
  build_metadata_offset :: nat
  build_metadata :: string
  next_address :: nat

text \<open>The literals of the file; the quote is a character of its own.\<close>

definition quote_end :: string where
  "quote_end = [CHR 0x27, CHR '';'']"

definition streamtitle :: string where
  "streamtitle = ''StreamTitle='' @ [CHR 0x27]"

definition streamurl :: string where
  "streamurl = ''StreamUrl='' @ [CHR 0x27]"

definition blank_metadata :: string where
  "blank_metadata = CHR 0x01 # streamtitle @ quote_end @ [NUL]"

text \<open>The state, and whether the source sends metadata in its stream.\<close>

definition format_mp3_get_plugin :: "string option \<Rightarrow> mp3_state \<times> bool" where
  "format_mp3_get_plugin icy_metaint =
     (let n = (case icy_metaint of None \<Rightarrow> 0 | Some s \<Rightarrow> atoi s);
          st = \<lparr>inline_metadata_interval = n, offset = 0, interval = -1, inline_url = None,
                update_metadata = False, metadata = (0, blank_metadata), read_data = None,
                build_metadata_len = 0, build_metadata_offset = 0,
                build_metadata = replicate BUILD_METADATA_SIZE NUL, next_address = 1\<rparr>
      in if icy_metaint \<noteq> None \<and> n > 0 then (st\<lparr>interval := n\<rparr>, True) else (st, False))"

text \<open>The name under which a tag is stored.\<close>

definition mp3_tag_name :: "string \<Rightarrow> string" where
  "mp3_tag_name tag =
     (if tag = ''title'' \<or> tag = ''song'' then ''X_ICY_TITLE''
      else if tag = ''artist'' then ''X_ICY_ARTIST''
      else if tag = ''url'' then ''X_ICY_URL''
      else tag)"

text \<open>
  \<open>conv\<close> converts between character sets, None when it cannot; \<open>add\<close> stores a comment. Without a tag
  the collected values take effect.
\<close>

definition mp3_set_tag ::
    "(string \<Rightarrow> string option) \<Rightarrow> (string \<Rightarrow> string option \<Rightarrow> 'vc \<Rightarrow> 'vc) \<Rightarrow> string option \<Rightarrow> string option
      \<Rightarrow> mp3_state \<times> 'vc \<Rightarrow> mp3_state \<times> 'vc" where
  "mp3_set_tag conv add tag in_value s =
     (case s of (st, vc) \<Rightarrow>
        case tag of
          None \<Rightarrow> (st\<lparr>update_metadata := True\<rparr>, vc)
        | Some tag \<Rightarrow>
            (let val = (case in_value of
                   None \<Rightarrow> None
                 | Some v \<Rightarrow> (case conv v of None \<Rightarrow> Some v | Some w \<Rightarrow> Some w))
             in (st, add (mp3_tag_name tag) val vc)))"

text \<open>The title that is written to the playlist log and the statistics, if there is one.\<close>

definition filter_shoutcast_metadata :: "string \<Rightarrow> string option" where
  "filter_shoutcast_metadata meta =
     (let m = c_str (drop 1 meta)
      in if \<not> starts_with streamtitle m then None
         else map_option (\<lambda>len. take len (drop 13 m)) (strstr (drop 13 m) quote_end))"

definition format_mp3_apply_settings :: "int \<Rightarrow> string option \<Rightarrow> mp3_state \<Rightarrow> mp3_state" where
  "format_mp3_apply_settings mount_interval icy_metaint st =
     (if mount_interval \<ge> 0 then st\<lparr>interval := mount_interval\<rparr>
      else st\<lparr>interval :=
        (case icy_metaint of
           None \<Rightarrow> int ICY_METADATA_INTERVAL
         | Some s \<Rightarrow> if atoi s > 0 then atoi s else int ICY_METADATA_INTERVAL)\<rparr>)"

section \<open>A block of metadata from tags\<close>

record mp3_tags =
  url_artist :: "string option"
  url_title :: "string option"
  url_url :: "string option"

definition opt_len :: "string option \<Rightarrow> nat" where
  "opt_len s = (case s of None \<Rightarrow> 0 | Some s \<Rightarrow> length s)"

text \<open>The length the code works out, with the terminating NUL. \<open>iurl\<close> is the string at \<^verbatim>\<open>inline_url\<close>.\<close>

definition title_len :: "mp3_tags \<Rightarrow> string option \<Rightarrow> nat" where
  "title_len tags iurl =
     16 + opt_len (url_artist tags) + opt_len (url_title tags)
     + (if url_artist tags \<noteq> None \<and> url_title tags \<noteq> None then 3 else 0)
     + (case iurl of
          Some u \<Rightarrow> (case strstr u quote_end of Some p \<Rightarrow> p + 2 | None \<Rightarrow> 0)
        | None \<Rightarrow> (case url_url tags of Some u \<Rightarrow> length u + 11 + 2 | None \<Rightarrow> 0))"

definition title_text :: "mp3_tags \<Rightarrow> string" where
  "title_text tags =
     (case (url_artist tags, url_title tags) of
        (Some a, Some t) \<Rightarrow> streamtitle @ a @ '' - '' @ t @ quote_end
      | (None, Some t) \<Rightarrow> streamtitle @ t @ quote_end
      | _ \<Rightarrow> streamtitle @ quote_end)"

definition url_text :: "mp3_tags \<Rightarrow> string option \<Rightarrow> nat \<Rightarrow> nat \<Rightarrow> string" where
  "url_text tags iurl siz r =
     (case iurl of
        Some u \<Rightarrow>
          (let urllen = (case strstr u quote_end of Some p \<Rightarrow> p + 2 | None \<Rightarrow> siz)
           in if siz - r > urllen then snprintf (siz - r) (streamurl @ drop 11 u @ quote_end) else [])
      | None \<Rightarrow>
          (case url_url tags of
             Some u \<Rightarrow> snprintf (siz - r) (streamurl @ u @ quote_end)
           | None \<Rightarrow> []))"

definition pad :: "nat \<Rightarrow> string \<Rightarrow> string" where
  "pad n s = s @ replicate (n - length s) NUL"

text \<open>The new block; None when it would be too long.\<close>

definition title_block :: "mp3_tags \<Rightarrow> string option \<Rightarrow> string option" where
  "title_block tags iurl =
     (let len = title_len tags iurl
      in if len > MAX_META_LEN then None
         else
           (let len_byte = (len - 1) div 16 + 1;
                siz = len_byte * 16 + 1;
                first = snprintf siz (char_of len_byte # title_text tags)
            in Some (pad siz (first @ url_text tags iurl siz (Suc (length (title_text tags)))))))"

text \<open>
  \<open>alive\<close> tells which other blocks still exist. The string at \<^verbatim>\<open>inline_url\<close> is read through its block;
  when the block was freed, that is a fault. The result has the title that was announced.
\<close>

definition mp3_set_title :: "(nat \<Rightarrow> bool) \<Rightarrow> mp3_tags \<Rightarrow> mp3_state \<Rightarrow> fault + mp3_state \<times> string option" where
  "mp3_set_title alive tags st =
     (case inline_url st of
        Some (a, u) \<Rightarrow>
          if a \<noteq> fst (metadata st) \<and> \<not> alive a then Inl Use_after_free
          else (case title_block tags (Some u) of
                  None \<Rightarrow> Inr (st, None)
                | Some p \<Rightarrow> Inr (st\<lparr>metadata := (next_address st, p), next_address := Suc (next_address st)\<rparr>,
                                filter_shoutcast_metadata p))
      | None \<Rightarrow>
          (case title_block tags None of
             None \<Rightarrow> Inr (st, None)
           | Some p \<Rightarrow> Inr (st\<lparr>metadata := (next_address st, p), next_address := Suc (next_address st)\<rparr>,
                           filter_shoutcast_metadata p)))"

section \<open>Sending to a listener\<close>

record mp3_client =
  mc_interval :: nat
  mc_metadata_offset :: nat
  mc_since_meta_block :: nat
  mc_in_metadata :: bool
  mc_associated :: "nat option"
  mc_pos :: nat
  mc_out :: string
  mc_net :: "nat list"

record mp3_buf =
  mb_data :: string
  mb_associated :: "meta option"

text \<open>The socket takes some of the bytes; \<open>mc_net\<close> says how many the next calls take, \<open>mc_out\<close> is what was sent.\<close>

definition client_send_bytes :: "string \<Rightarrow> mp3_client \<Rightarrow> nat \<times> mp3_client" where
  "client_send_bytes bs c =
     (let n = (case mc_net c of [] \<Rightarrow> 0 | k # _ \<Rightarrow> min k (length bs))
      in (n, c\<lparr>mc_out := mc_out c @ take n bs, mc_net := tl (mc_net c)\<rparr>))"

text \<open>The bytes to send; a negative length would be a read far behind the block.\<close>

definition metadata_to_send :: "meta option \<Rightarrow> mp3_client \<Rightarrow> fault + string" where
  "metadata_to_send associated c =
     (case associated of
        Some (a, m) \<Rightarrow>
          if Some a \<noteq> mc_associated c
          then (if mc_metadata_offset c > length m then Inl Out_of_bounds else Inr (drop (mc_metadata_offset c) m))
          else Inr [NUL]
      | None \<Rightarrow>
          if mc_metadata_offset c > 17 then Inl Out_of_bounds else Inr (drop (mc_metadata_offset c) blank_metadata))"

definition send_stream_metadata :: "meta option \<Rightarrow> mp3_client \<Rightarrow> fault + nat \<times> mp3_client" where
  "send_stream_metadata associated c =
     (case metadata_to_send associated c of
        Inl f \<Rightarrow> Inl f
      | Inr m \<Rightarrow>
          (let (ret, c) = client_send_bytes m c
           in if ret = length m
              then Inr (ret, c\<lparr>mc_associated := map_option fst associated, mc_metadata_offset := 0,
                               mc_in_metadata := False, mc_since_meta_block := 0\<rparr>)
              else Inr (ret, c\<lparr>mc_metadata_offset := mc_metadata_offset c + ret, mc_in_metadata := True\<rparr>)))"

text \<open>MP3 data: the bytes at the listener's position.\<close>

definition send_mp3 :: "string \<Rightarrow> mp3_client \<Rightarrow> nat \<times> mp3_client" where
  "send_mp3 bs c =
     (let (ret, c) = client_send_bytes bs c
      in (ret, c\<lparr>mc_since_meta_block := mc_since_meta_block c + ret, mc_pos := mc_pos c + ret\<rparr>))"

text \<open>The end of the function: what is left of the buffer after the metadata.\<close>

definition write_rest :: "string \<Rightarrow> nat \<Rightarrow> mp3_client \<Rightarrow> fault + nat \<times> mp3_client" where
  "write_rest buf written c =
     (if buf \<noteq> [] then (let (ret, c) = send_mp3 buf c in Inr (written + ret, c)) else Inr (written, c))"

definition write_with_metadata :: "meta option \<Rightarrow> string \<Rightarrow> nat \<Rightarrow> mp3_client \<Rightarrow> fault + nat \<times> mp3_client" where
  "write_with_metadata associated buf written c =
     (if mc_interval c \<noteq> 0 then
        (if mc_since_meta_block c > mc_interval c then Inl Int_overflow
         else
           (let remaining = mc_interval c - mc_since_meta_block c
            in if remaining \<le> length buf then
                 (let (ret, c) = (if remaining \<noteq> 0 then send_mp3 (take remaining buf) c else (0, c))
                  in if ret < remaining then Inr (written + ret, c)
                     else
                       (case send_stream_metadata associated c of
                          Inl f \<Rightarrow> Inl f
                        | Inr (mret, c) \<Rightarrow>
                            if mc_in_metadata c then Inr (written + ret + mret, c)
                            else write_rest (take (mc_interval c) (drop remaining buf)) (written + ret + mret) c))
               else write_rest buf written c))
      else write_rest buf written c)"

definition format_mp3_write_buf_to_client :: "mp3_buf \<Rightarrow> mp3_client \<Rightarrow> fault + nat \<times> mp3_client" where
  "format_mp3_write_buf_to_client refbuf c =
     (let buf = drop (mc_pos c) (mb_data refbuf)
      in if mc_in_metadata c then
           (case send_stream_metadata (mb_associated refbuf) c of
              Inl f \<Rightarrow> Inl f
            | Inr (ret, c) \<Rightarrow>
                if mc_in_metadata c then Inr (ret, c)
                else write_with_metadata (mb_associated refbuf) buf ret c)
         else write_with_metadata (mb_associated refbuf) buf 0 c)"

section \<open>Reading from the source\<close>

text \<open>\<open>r\<close> is what the read delivers, None for an error; \<open>con_error\<close> whether the connection failed.\<close>

definition complete_read :: "string option \<Rightarrow> bool \<Rightarrow> mp3_state \<Rightarrow> bool \<times> mp3_state" where
  "complete_read r con_error st =
     (let d = (case read_data st of None \<Rightarrow> [] | Some d \<Rightarrow> d)
      in case r of
           None \<Rightarrow> (False, st\<lparr>read_data := if con_error then None else Some d\<rparr>)
         | Some bs \<Rightarrow>
             (let d = d @ take (REFBUF_SIZE - length d) bs
              in if length d < REFBUF_SIZE
                 then (False, st\<lparr>read_data := if d = [] then None else Some d\<rparr>)
                 else (True, st\<lparr>read_data := Some d\<rparr>)))"

text \<open>What both readers do with a complete block: take it, and make new metadata if there are new tags.\<close>

definition take_read :: "(nat \<Rightarrow> bool) \<Rightarrow> mp3_tags \<Rightarrow> mp3_state \<Rightarrow> fault + string \<times> mp3_state" where
  "take_read alive tags st =
     (let bs = (case read_data st of None \<Rightarrow> [] | Some d \<Rightarrow> d);
          st = st\<lparr>read_data := None\<rparr>
      in if update_metadata st then
           (case mp3_set_title alive tags st of
              Inl f \<Rightarrow> Inl f
            | Inr (st, _) \<Rightarrow> Inr (bs, st\<lparr>update_metadata := False\<rparr>))
         else Inr (bs, st))"

definition mp3_get_no_meta ::
    "(nat \<Rightarrow> bool) \<Rightarrow> mp3_tags \<Rightarrow> string option \<Rightarrow> bool \<Rightarrow> mp3_state \<Rightarrow> fault + mp3_buf option \<times> mp3_state" where
  "mp3_get_no_meta alive tags r con_error st =
     (let (complete, st) = complete_read r con_error st
      in if \<not> complete then Inr (None, st)
         else
           (case take_read alive tags st of
              Inl f \<Rightarrow> Inl f
            | Inr (bs, st) \<Rightarrow> Inr (Some \<lparr>mb_data = bs, mb_associated = Some (metadata st)\<rparr>, st)))"

text \<open>\<^verbatim>\<open>memcpy\<close> into the buffer for metadata; a fault when it does not fit.\<close>

definition overwrite :: "nat \<Rightarrow> string \<Rightarrow> string \<Rightarrow> fault + string" where
  "overwrite at src buf =
     (if at + length src > length buf then Inl Out_of_bounds
      else Inr (take at buf @ src @ drop (at + length src) buf))"

text \<open>A length byte starts a block.\<close>

definition begin_metadata :: "char \<Rightarrow> mp3_state \<Rightarrow> mp3_state" where
  "begin_metadata b st =
     (if build_metadata_len st = 0
      then st\<lparr>build_metadata := replicate BUILD_METADATA_SIZE NUL, build_metadata_offset := 0,
              build_metadata_len := 1 + code b * 16\<rparr>
      else st)"

text \<open>A block is complete: None when the stream is to be ended.\<close>

definition end_metadata :: "mp3_state \<Rightarrow> mp3_state option" where
  "end_metadata st =
     (let meta = take (build_metadata_len st) (build_metadata st);
          st' = st\<lparr>offset := 0, build_metadata_len := 0\<rparr>
      in if build_metadata_len st > 1 \<and> c_str (drop 1 (build_metadata st)) \<noteq> c_str (drop 1 (snd (metadata st)))
         then (if starts_with ''StreamTitle='' (drop 1 meta)
               then Some (st'\<lparr>metadata := (next_address st, meta), next_address := Suc (next_address st),
                       inline_url := map_option (\<lambda>p. (next_address st, drop p (c_str (drop 1 meta))))
                                       (strstr (c_str (drop 1 meta)) streamurl)\<rparr>)
               else None)
         else Some st')"

text \<open>
  The loop over the bytes read: \<open>out\<close> collects the MP3 data, which the code moves together in place.
  The unsigned differences must not be negative.
\<close>

function filter_loop :: "mp3_state \<Rightarrow> string \<Rightarrow> string \<Rightarrow> fault + (string \<times> mp3_state) option" where
  "filter_loop st src out =
     (if src = [] then Inr (Some (out, st))
      else if int (offset st) > inline_metadata_interval st then Inl Int_overflow
      else
        (let mp3_block = nat (inline_metadata_interval st) - offset st
         in if length src \<le> mp3_block
            then Inr (Some (out @ src, st\<lparr>offset := offset st + length src\<rparr>))
            else if mp3_block \<noteq> 0
            then filter_loop (st\<lparr>offset := offset st + mp3_block\<rparr>) (drop mp3_block src) (out @ take mp3_block src)
            else
              (let st = begin_metadata (hd src) st
               in if build_metadata_offset st \<ge> build_metadata_len st then Inl Int_overflow
                  else
                    (let remaining = build_metadata_len st - build_metadata_offset st
                     in if length src < remaining
                        then (case overwrite (build_metadata_offset st) src (build_metadata st) of
                                Inl f \<Rightarrow> Inl f
                              | Inr b \<Rightarrow> Inr (Some (out, st\<lparr>build_metadata := b,
                                           build_metadata_offset := build_metadata_offset st + length src\<rparr>)))
                        else
                          (case overwrite (build_metadata_offset st) (take (remaining - 1) src) (build_metadata st) of
                             Inl f \<Rightarrow> Inl f
                           | Inr b \<Rightarrow>
                               (case end_metadata (st\<lparr>build_metadata := b\<rparr>) of
                                  None \<Rightarrow> Inr None
                                | Some st \<Rightarrow> filter_loop st (drop remaining src) out))))))"
  by pat_completeness auto
termination
  by (relation "measure (\<lambda>(st, src, out). length src)") auto

declare filter_loop.simps [simp del]

datatype filtered = Filtered mp3_buf | Only_metadata | Wrong_metadata

definition mp3_get_filter_meta ::
    "(nat \<Rightarrow> bool) \<Rightarrow> mp3_tags \<Rightarrow> string option \<Rightarrow> bool \<Rightarrow> mp3_state \<Rightarrow> fault + filtered \<times> mp3_state" where
  "mp3_get_filter_meta alive tags r con_error st =
     (let (complete, st) = complete_read r con_error st
      in if \<not> complete then Inr (Only_metadata, st)
         else
           (case take_read alive tags st of
              Inl f \<Rightarrow> Inl f
            | Inr (bs, st) \<Rightarrow>
                (case filter_loop st bs [] of
                   Inl f \<Rightarrow> Inl f
                 | Inr None \<Rightarrow> Inr (Wrong_metadata, st)
                 | Inr (Some (out, st)) \<Rightarrow>
                     if out = [] then Inr (Only_metadata, st)
                     else Inr (Filtered \<lparr>mb_data = out, mb_associated = Some (metadata st)\<rparr>, st))))"

section \<open>A new listener\<close>

definition listener_interval :: "string option \<Rightarrow> mp3_state \<Rightarrow> nat" where
  "listener_interval icy_metadata st =
     (case icy_metadata of
        None \<Rightarrow> 0
      | Some s \<Rightarrow> if atoi s = 0 then 0
                  else if interval st \<ge> 0 then nat (interval st) else ICY_METADATA_INTERVAL)"

text \<open>
  The headers added behind the response, over its last line end, into the buffer of 4096 bytes. The
  code counts what \<^verbatim>\<open>snprintf\<close> returns, also for what was cut off: text that just fits loses its last
  character to the NUL, and for longer text the space left wraps around.
\<close>

definition add_header :: "string \<Rightarrow> string \<Rightarrow> fault + string" where
  "add_header s buf =
     (if length buf + length s < 4096 then Inr (buf @ s)
      else if length buf + length s = 4096 then Inr (buf @ butlast s @ [NUL])
      else Inl Out_of_bounds)"

definition format_mp3_create_client_data ::
    "string option \<Rightarrow> bool \<Rightarrow> mp3_state \<Rightarrow> string \<Rightarrow> fault + string \<times> mp3_client" where
  "format_mp3_create_client_data icy_metadata flash st response =
     (let n = listener_interval icy_metadata st;
          c = \<lparr>mc_interval = n, mc_metadata_offset = 0, mc_since_meta_block = 0, mc_in_metadata = False,
               mc_associated = None, mc_pos = 0, mc_out = [], mc_net = []\<rparr>;
          buf = take (length response - 2) response
      in case (if flash then add_header (''Content-Length: 221183499'' @ crlf) buf else Inr buf) of
           Inl f \<Rightarrow> Inl f
         | Inr buf \<Rightarrow>
             (case (if n \<noteq> 0 then add_header (''icy-metaint:'' @ show_nat n @ crlf) buf else Inr buf) of
                Inl f \<Rightarrow> Inl f
              | Inr buf \<Rightarrow>
                  (case add_header crlf buf of Inl f \<Rightarrow> Inl f | Inr buf \<Rightarrow> Inr (buf, c))))"

text \<open>The dump file: what is in it, None when it is closed.\<close>

definition write_mp3_to_file :: "(string \<Rightarrow> bool) \<Rightarrow> mp3_buf \<Rightarrow> string option \<Rightarrow> fault + string option" where
  "write_mp3_to_file full refbuf file =
     (if mb_data refbuf = [] then Inr file
      else case file of
        None \<Rightarrow> Inl Null_deref
      | Some c \<Rightarrow> Inr (if full (mb_data refbuf) then None else Some (c @ mb_data refbuf)))"

end
