(* ===== verification/ICY_Stream.thy ===== *)
theory ICY_Stream
  imports Format_MP3
begin

text \<open>
  The two sides of ICY metadata against one reference, a decoder that looks at one byte after the
  other: the source side takes out of a stream exactly the MP3 data the decoder sees, however the
  stream is cut into reads, and what a listener is sent decodes to the MP3 data of its buffers,
  whatever portions the socket takes. So a server that relays another one's stream gets its MP3 data
  back.
\<close>

section \<open>The reference decoder\<close>

text \<open>So many bytes of MP3 data until the length byte; or so many bytes missing of a block.\<close>

datatype icy = Audio nat | Block nat string

text \<open>A byte gives the next state, MP3 data and completed blocks.\<close>

fun icy_byte :: "nat \<Rightarrow> icy \<Rightarrow> char \<Rightarrow> icy \<times> string \<times> string list" where
  "icy_byte n (Audio (Suc k)) b = (Audio k, [b], [])"
| "icy_byte n (Audio 0) b = (if code b = 0 then (Audio n, [], [[b]]) else (Block (16 * code b) [b], [], []))"
| "icy_byte n (Block k acc) b = (if k \<le> 1 then (Audio n, [], [acc @ [b]]) else (Block (k - 1) (acc @ [b]), [], []))"

fun icy_run :: "nat \<Rightarrow> icy \<Rightarrow> string \<Rightarrow> icy \<times> string \<times> string list" where
  "icy_run n s [] = (s, [], [])"
| "icy_run n s (b # bs) =
     (case icy_byte n s b of (s, a, m) \<Rightarrow> case icy_run n s bs of (s', a', m') \<Rightarrow> (s', a @ a', m @ m'))"

lemma icy_run_append:
  "icy_run n s (xs @ ys) =
     (case icy_run n s xs of (s, a, m) \<Rightarrow> case icy_run n s ys of (s', a', m') \<Rightarrow> (s', a @ a', m @ m'))"
  by (induction xs arbitrary: s) (auto split: prod.splits)

lemma icy_run_audio: "length xs \<le> k \<Longrightarrow> icy_run n (Audio k) xs = (Audio (k - length xs), xs, [])"
proof (induction xs arbitrary: k)
  case (Cons x xs)
  then show ?case by (cases k) auto
qed simp

lemma icy_run_block_part: "length xs < k \<Longrightarrow> icy_run n (Block k acc) xs = (Block (k - length xs) (acc @ xs), [], [])"
proof (induction xs arbitrary: k acc)
  case (Cons x xs)
  then show ?case by (cases k) auto
qed simp

lemma icy_run_block_all: "0 < k \<Longrightarrow> length xs = k \<Longrightarrow> icy_run n (Block k acc) xs = (Audio n, [], [acc @ xs])"
proof (induction xs arbitrary: k acc)
  case (Cons x xs)
  then show ?case by (cases xs) auto
qed simp

text \<open>A block as it is sent: the length byte says how long it is.\<close>

definition block_wf :: "string \<Rightarrow> bool" where
  "block_wf m \<longleftrightarrow> m \<noteq> [] \<and> length m = 1 + 16 * code (hd m)"

text \<open>The decoder after so many bytes of a block.\<close>

definition icy_at :: "nat \<Rightarrow> string \<Rightarrow> nat \<Rightarrow> icy" where
  "icy_at n m p = (if p = 0 then Audio 0 else if p = length m then Audio n else Block (length m - p) (take p m))"

lemma icy_run_at:
  assumes "block_wf m" and "p + length xs \<le> length m" and "xs = take (length xs) (drop p m)" and "p < length m"
  shows "\<exists>bs. icy_run n (icy_at n m p) xs = (icy_at n m (p + length xs), [], bs)"
  using assms(2-4)
proof (induction xs arbitrary: p)
  case (Cons x xs)
  let ?s = "icy_at n m (Suc p)"
  have x: "x = m ! p" "xs = take (length xs) (drop (Suc p) m)"
    using Cons.prems(2, 3) by (simp_all add: Cons_nth_drop_Suc [symmetric])
  have "fst (icy_byte n (icy_at n m p) x) = ?s \<and> fst (snd (icy_byte n (icy_at n m p) x)) = []"
  proof (cases "p = 0")
    case True
    then have "x = hd m" using x(1) assms(1) by (simp add: hd_conv_nth block_wf_def)
    then show ?thesis using True assms(1) by (cases m) (auto simp: icy_at_def block_wf_def)
  next
    case False
    then show ?thesis using x(1) Cons.prems(3) by (auto simp: icy_at_def take_Suc_conv_app_nth)
  qed
  then obtain bs where b: "icy_byte n (icy_at n m p) x = (?s, [], bs)" by (metis prod.collapse)
  show ?case
  proof (cases "xs = []")
    case True
    then show ?thesis using b by simp
  next
    case False
    then obtain y ys where "xs = y # ys" by (cases xs) auto
    then have "Suc p < length m" "Suc p + length xs \<le> length m" using Cons.prems(1) by simp_all
    from Cons.IH [OF this(2) x(2) this(1)] show ?thesis using b by auto
  qed
qed simp

definition icy_goes :: "nat \<Rightarrow> icy \<Rightarrow> string \<Rightarrow> icy \<Rightarrow> string \<Rightarrow> bool" where
  "icy_goes n s xs s' a \<longleftrightarrow> (\<exists>ms. icy_run n s xs = (s', a, ms))"

lemma icy_goes_append: "icy_goes n s xs s' a \<Longrightarrow> icy_goes n s' ys s'' b \<Longrightarrow> icy_goes n s (xs @ ys) s'' (a @ b)"
  by (auto simp: icy_goes_def icy_run_append)

section \<open>The listener\<close>

definition block_of :: "meta option \<Rightarrow> mp3_client \<Rightarrow> string" where
  "block_of assoc c =
     (case assoc of Some (a, m) \<Rightarrow> if Some a \<noteq> mc_associated c then m else [NUL] | None \<Rightarrow> blank_metadata)"

definition assoc_wf :: "meta option \<Rightarrow> bool" where
  "assoc_wf assoc \<longleftrightarrow> (case assoc of Some (a, m) \<Rightarrow> block_wf m | None \<Rightarrow> True)"

lemma block_wf_blank [simp]: "block_wf blank_metadata" "length blank_metadata = 17"
  by (simp_all add: block_wf_def blank_metadata_def streamtitle_def quote_end_def code_def)

lemma block_of_wf: "assoc_wf assoc \<Longrightarrow> block_wf (block_of assoc c)"
proof -
  have "block_wf [NUL]" by (simp add: block_wf_def NUL_def code_def)
  then show "assoc_wf assoc \<Longrightarrow> block_wf (block_of assoc c)" by (auto simp: block_of_def assoc_wf_def split: option.splits)
qed

text \<open>The listener's counters and the decoder of what it was sent agree; \<open>A\<close> is the MP3 data so far.\<close>

definition decoder_state :: "nat \<Rightarrow> meta option \<Rightarrow> mp3_client \<Rightarrow> icy" where
  "decoder_state n assoc c =
     (if mc_in_metadata c then icy_at n (block_of assoc c) (mc_metadata_offset c) else Audio (n - mc_since_meta_block c))"

definition listener_ok :: "nat \<Rightarrow> meta option \<Rightarrow> mp3_client \<Rightarrow> string \<Rightarrow> bool" where
  "listener_ok n assoc c A \<longleftrightarrow>
     mc_interval c = n \<and> mc_since_meta_block c \<le> n
     \<and> (if mc_in_metadata c
        then mc_since_meta_block c = n \<and> mc_metadata_offset c < length (block_of assoc c)
        else mc_metadata_offset c = 0)
     \<and> icy_goes n (Audio n) (mc_out c) (decoder_state n assoc c) A"

lemma client_send_bytes_fields:
  assumes "client_send_bytes bs c = (ret, c')"
  shows "ret \<le> length bs" "c' = c\<lparr>mc_out := mc_out c @ take ret bs, mc_net := tl (mc_net c)\<rparr>"
  using assms by (auto simp: client_send_bytes_def Let_def split: list.splits)

lemma send_mp3_ok:
  assumes "listener_ok n assoc c A" and "\<not> mc_in_metadata c" and "length bs \<le> n - mc_since_meta_block c"
    and "send_mp3 bs c = (ret, c')"
  shows "listener_ok n assoc c' (A @ take ret bs)" "\<not> mc_in_metadata c'" "ret \<le> length bs"
    "mc_since_meta_block c' = mc_since_meta_block c + ret" "mc_pos c' = mc_pos c + ret"
proof -
  obtain c1 where c1: "client_send_bytes bs c = (ret, c1)"
    "c' = c1\<lparr>mc_since_meta_block := mc_since_meta_block c1 + ret, mc_pos := mc_pos c1 + ret\<rparr>"
    using assms(4) by (auto simp: send_mp3_def split: prod.splits)
  note f = client_send_bytes_fields [OF c1(1)]
  then show r: "\<not> mc_in_metadata c'" "ret \<le> length bs"
    "mc_since_meta_block c' = mc_since_meta_block c + ret" "mc_pos c' = mc_pos c + ret"
    using assms(2) c1(2) by simp_all
  have "icy_goes n (Audio (n - mc_since_meta_block c)) (take ret bs) (Audio (n - mc_since_meta_block c - ret)) (take ret bs)"
    using icy_run_audio [of "take ret bs" "n - mc_since_meta_block c" n] f(1) assms(3) by (simp add: icy_goes_def)
  then have "icy_goes n (Audio n) (mc_out c') (Audio (n - mc_since_meta_block c - ret)) (A @ take ret bs)"
    using assms(1, 2) icy_goes_append by (simp add: listener_ok_def decoder_state_def c1(2) f(2)) blast
  moreover have "mc_since_meta_block c + ret \<le> n" using f(1) assms(1, 3) unfolding listener_ok_def by linarith
  ultimately show "listener_ok n assoc c' (A @ take ret bs)"
    using assms(1, 2) r(1) by (simp add: listener_ok_def decoder_state_def c1(2) f(2))
qed

lemma send_metadata_ok:
  assumes "listener_ok n assoc c A" and "assoc_wf assoc" and "mc_in_metadata c \<or> mc_since_meta_block c = n"
  obtains ret c' where "send_stream_metadata assoc c = Inr (ret, c')" "listener_ok n assoc c' A" "mc_pos c' = mc_pos c"
    "mc_in_metadata c' \<or> mc_since_meta_block c' = 0"
proof -
  let ?m = "block_of assoc c" and ?p = "mc_metadata_offset c"
  have wf: "block_wf ?m" using assms(2) by (rule block_of_wf)
  then have pos: "0 < length ?m" by (simp add: block_wf_def)
  have p: "?p < length ?m" using assms(1) pos by (auto simp: listener_ok_def split: if_splits)
  have s: "decoder_state n assoc c = icy_at n ?m ?p" using assms(1, 3) by (auto simp: listener_ok_def decoder_state_def icy_at_def)
  have t: "metadata_to_send assoc c = Inr (drop ?p ?m)"
  proof (cases assoc)
    case (Some am)
    then show ?thesis using p by (auto simp: metadata_to_send_def block_of_def split: prod.splits if_splits)
  next
    case None
    then show ?thesis using p by (simp add: metadata_to_send_def block_of_def)
  qed
  obtain ret c1 where c1: "client_send_bytes (drop ?p ?m) c = (ret, c1)" by (cases "client_send_bytes (drop ?p ?m) c")
  note f = client_send_bytes_fields [OF c1]
  have r: "?p + ret \<le> length ?m" using f(1) p by simp
  have "icy_goes n (icy_at n ?m ?p) (take ret (drop ?p ?m)) (icy_at n ?m (?p + ret)) []"
    using icy_run_at [OF wf, of ?p "take ret (drop ?p ?m)" n] r p by (simp add: icy_goes_def)
  then have g: "icy_goes n (Audio n) (mc_out c1) (icy_at n ?m (?p + ret)) A"
    using assms(1) s icy_goes_append [of n "Audio n" "mc_out c" "icy_at n ?m ?p" A _ _ "[]"] by (simp add: listener_ok_def f(2))
  show ?thesis
  proof (cases "ret = length ?m - ?p")
    case True
    let ?c = "c1\<lparr>mc_associated := map_option fst assoc, mc_metadata_offset := 0, mc_in_metadata := False, mc_since_meta_block := 0\<rparr>"
    have "icy_at n ?m (?p + ret) = Audio n" using True p by (auto simp: icy_at_def)
    then have "listener_ok n assoc ?c A" using g assms(1) by (simp add: listener_ok_def decoder_state_def f(2))
    then show ?thesis using that [of ret ?c] t c1 True by (simp add: send_stream_metadata_def f(2))
  next
    case False
    let ?c = "c1\<lparr>mc_metadata_offset := mc_metadata_offset c1 + ret, mc_in_metadata := True\<rparr>"
    have b: "block_of assoc ?c = ?m" by (simp add: block_of_def f(2) split: option.splits)
    have "mc_since_meta_block c = n" using assms(1, 3) by (auto simp: listener_ok_def)
    then have "listener_ok n assoc ?c A" using g assms(1) b r False by (simp add: listener_ok_def decoder_state_def f(2))
    then show ?thesis using that [of ret ?c] t c1 False by (simp add: send_stream_metadata_def f(2))
  qed
qed

lemma write_rest_ok:
  assumes "listener_ok n assoc c A" and "\<not> mc_in_metadata c" and "length buf \<le> n - mc_since_meta_block c"
  obtains w' c' k where "write_rest buf w c = Inr (w', c')" "listener_ok n assoc c' (A @ take k buf)"
    "mc_pos c' = mc_pos c + k" "k \<le> length buf"
proof (cases "buf = []")
  case True
  then show ?thesis using that [of w c 0] assms(1) by (simp add: write_rest_def)
next
  case False
  obtain ret c' where s: "send_mp3 buf c = (ret, c')" by (cases "send_mp3 buf c")
  note m = send_mp3_ok [OF assms s]
  show ?thesis using that [of "w + ret" c' ret] False s m by (simp add: write_rest_def)
qed

text \<open>After the MP3 data before a block: the block, and what may follow it.\<close>

lemma write_after_block:
  assumes "listener_ok n assoc c A" and "assoc_wf assoc" and "mc_since_meta_block c = n" and "\<not> mc_in_metadata c"
  obtains w' c' k where
    "(case send_stream_metadata assoc c of
        Inl f \<Rightarrow> Inl f
      | Inr (mret, c) \<Rightarrow> if mc_in_metadata c then Inr (w + mret, c) else write_rest (take (mc_interval c) buf) (w + mret) c) = Inr (w', c')"
    "listener_ok n assoc c' (A @ take k buf)" "mc_pos c' = mc_pos c + k" "k \<le> length buf"
proof -
  from send_metadata_ok [OF assms(1, 2)] assms(3) obtain mret c1 where m: "send_stream_metadata assoc c = Inr (mret, c1)"
    "listener_ok n assoc c1 A" "mc_pos c1 = mc_pos c" "mc_in_metadata c1 \<or> mc_since_meta_block c1 = 0" by blast
  show ?thesis
  proof (cases "mc_in_metadata c1")
    case True
    then show ?thesis using that [of "w + mret" c1 0] m by simp
  next
    case False
    then have "length (take n buf) \<le> n - mc_since_meta_block c1" using m(4) by simp
    note l = this
    have i: "mc_interval c1 = n" using m(2) by (simp add: listener_ok_def)
    from write_rest_ok [OF m(2) False l, of "w + mret"] obtain w' c' k where
      "write_rest (take n buf) (w + mret) c1 = Inr (w', c')" "listener_ok n assoc c' (A @ take k (take n buf))"
      "mc_pos c' = mc_pos c1 + k" "k \<le> length (take n buf)" by blast
    then show ?thesis using that [of w' c' k] m i False by (simp add: min_def split: if_splits)
  qed
qed

lemma write_with_metadata_ok:
  assumes "listener_ok n assoc c A" and "assoc_wf assoc" and "\<not> mc_in_metadata c" and "0 < n"
  obtains w' c' k where "write_with_metadata assoc buf w c = Inr (w', c')" "listener_ok n assoc c' (A @ take k buf)"
    "mc_pos c' = mc_pos c + k" "k \<le> length buf"
proof -
  let ?r = "n - mc_since_meta_block c"
  have i: "mc_interval c = n" "mc_since_meta_block c \<le> n" using assms(1) by (simp_all add: listener_ok_def)
  show ?thesis
  proof (cases "?r \<le> length buf")
    case False
    then have "length buf \<le> ?r" by simp
    from write_rest_ok [OF assms(1, 3) this, of w] obtain w' c' k where "write_rest buf w c = Inr (w', c')"
      "listener_ok n assoc c' (A @ take k buf)" "mc_pos c' = mc_pos c + k" "k \<le> length buf" by blast
    then show ?thesis using that [of w' c' k] i False assms(4) by (simp add: write_with_metadata_def)
  next
    case r: True
    obtain ret c1 where s: "(if ?r \<noteq> 0 then send_mp3 (take ?r buf) c else (0, c)) = (ret, c1)"
      by (cases "if ?r \<noteq> 0 then send_mp3 (take ?r buf) c else (0, c)")
    have "listener_ok n assoc c1 (A @ take ret buf) \<and> \<not> mc_in_metadata c1 \<and> ret \<le> ?r
        \<and> mc_since_meta_block c1 = mc_since_meta_block c + ret \<and> mc_pos c1 = mc_pos c + ret"
    proof (cases "?r = 0")
      case True
      then show ?thesis using s assms by auto
    next
      case False
      then have "send_mp3 (take ?r buf) c = (ret, c1)" using s by simp
      note q = send_mp3_ok [OF assms(1, 3) _ this]
      have l: "length (take ?r buf) = ?r" using r by simp
      then have "take ret (take ?r buf) = take ret buf" using q(3) by (simp only: order_refl take_take min_absorb1)
      then show ?thesis using q l by simp
    qed
    then have m: "listener_ok n assoc c1 (A @ take ret buf)" "\<not> mc_in_metadata c1" "ret \<le> ?r"
      "mc_since_meta_block c1 = mc_since_meta_block c + ret" "mc_pos c1 = mc_pos c + ret" by simp_all
    have i1: "mc_interval c1 = n" using m(1) by (simp add: listener_ok_def)
    show ?thesis
    proof (cases "ret < ?r")
      case True
      then show ?thesis using that [of "w + ret" c1 ret] m i s r assms(4) by (simp add: write_with_metadata_def Let_def)
    next
      case False
      then have ret: "ret = ?r" using m(3) by simp
      then have "mc_since_meta_block c1 = n" using m(4) i(2) by simp
      from write_after_block [OF m(1) assms(2) this m(2), of "w + ret" "drop ?r buf"] obtain w' c' k where
        a: "(case send_stream_metadata assoc c1 of Inl f \<Rightarrow> Inl f
          | Inr (mret, c) \<Rightarrow> if mc_in_metadata c then Inr (w + ret + mret, c) else write_rest (take (mc_interval c) (drop ?r buf)) (w + ret + mret) c)
           = Inr (w', c')"
        "listener_ok n assoc c' ((A @ take ret buf) @ take k (drop ?r buf))" "mc_pos c' = mc_pos c1 + k" "k \<le> length (drop ?r buf)"
        by blast
      have k: "take (ret + k) buf = take ret buf @ take k (drop ?r buf)" by (simp add: ret take_add)
      have "write_with_metadata assoc buf w c = Inr (w', c')"
        using i(2) r False assms(4) a(1) unfolding write_with_metadata_def Let_def i(1) s prod.case by simp
      then show ?thesis using that [of w' c' "ret + k"] a m(5) k ret r by simp
    qed
  qed
qed

lemma write_ok:
  assumes "listener_ok n (mb_associated r) c A" and "assoc_wf (mb_associated r)" and "0 < n"
    and "mc_pos c \<le> length (mb_data r)"
  obtains w' c' where "format_mp3_write_buf_to_client r c = Inr (w', c')"
    "listener_ok n (mb_associated r) c' (A @ take (mc_pos c' - mc_pos c) (drop (mc_pos c) (mb_data r)))"
    "mc_pos c \<le> mc_pos c'" "mc_pos c' \<le> length (mb_data r)"
proof (cases "mc_in_metadata c")
  case False
  from write_with_metadata_ok [OF assms(1, 2) False assms(3), of "drop (mc_pos c) (mb_data r)" 0] obtain w' c' k where
    "write_with_metadata (mb_associated r) (drop (mc_pos c) (mb_data r)) 0 c = Inr (w', c')"
    "listener_ok n (mb_associated r) c' (A @ take k (drop (mc_pos c) (mb_data r)))"
    "mc_pos c' = mc_pos c + k" "k \<le> length (drop (mc_pos c) (mb_data r))" by blast
  then show ?thesis using that [of w' c'] False assms(4) by (simp add: format_mp3_write_buf_to_client_def)
next
  case True
  from send_metadata_ok [OF assms(1, 2)] True obtain ret c1 where m: "send_stream_metadata (mb_associated r) c = Inr (ret, c1)"
    "listener_ok n (mb_associated r) c1 A" "mc_pos c1 = mc_pos c" by blast
  show ?thesis
  proof (cases "mc_in_metadata c1")
    case in1: True
    then show ?thesis using that [of ret c1] True m assms(4) by (simp add: format_mp3_write_buf_to_client_def)
  next
    case False
    from write_with_metadata_ok [OF m(2) assms(2) False assms(3), of "drop (mc_pos c) (mb_data r)" ret] obtain w' c' k where
      "write_with_metadata (mb_associated r) (drop (mc_pos c) (mb_data r)) ret c1 = Inr (w', c')"
      "listener_ok n (mb_associated r) c' (A @ take k (drop (mc_pos c) (mb_data r)))"
      "mc_pos c' = mc_pos c1 + k" "k \<le> length (drop (mc_pos c) (mb_data r))" by blast
    then show ?thesis using that [of w' c'] True False m assms(4) by (simp add: format_mp3_write_buf_to_client_def)
  qed
qed

text \<open>
  A listener that asked for metadata every \<open>n\<close> bytes: it is at a buffer, \<open>A\<close> is the MP3 data up to its
  position in it. It writes, as much as its socket takes, or goes on to the next buffer when it has
  sent this one. While a block is sent in part, the next buffer must have the same block.
\<close>

inductive icy_listener :: "nat \<Rightarrow> mp3_client \<Rightarrow> mp3_buf \<Rightarrow> string \<Rightarrow> bool" for n where
  join: "assoc_wf (mb_associated r) \<Longrightarrow> c = \<lparr>mc_interval = n, mc_metadata_offset = 0, mc_since_meta_block = 0,
      mc_in_metadata = False, mc_associated = None, mc_pos = 0, mc_out = [], mc_net = net\<rparr> \<Longrightarrow> icy_listener n c r []"
| writes: "icy_listener n c r A \<Longrightarrow> format_mp3_write_buf_to_client r c = Inr (w, c') \<Longrightarrow>
    icy_listener n c' r (A @ take (mc_pos c' - mc_pos c) (drop (mc_pos c) (mb_data r)))"
| advances: "icy_listener n c r A \<Longrightarrow> mc_pos c = length (mb_data r) \<Longrightarrow> assoc_wf (mb_associated r') \<Longrightarrow>
    (mc_in_metadata c \<longrightarrow> mb_associated r' = mb_associated r) \<Longrightarrow> icy_listener n (c\<lparr>mc_pos := 0\<rparr>) r' A"
| socket: "icy_listener n c r A \<Longrightarrow> icy_listener n (c\<lparr>mc_net := net\<rparr>) r A"

lemma listener_ok_pos: "listener_ok n assoc (c\<lparr>mc_pos := p\<rparr>) A = listener_ok n assoc c A"
  by (simp add: listener_ok_def decoder_state_def block_of_def split: option.splits)

lemma listener_ok_net: "listener_ok n assoc (c\<lparr>mc_net := net\<rparr>) A = listener_ok n assoc c A"
  by (simp add: listener_ok_def decoder_state_def block_of_def split: option.splits)

lemma listener_ok_other: "\<not> mc_in_metadata c \<Longrightarrow> listener_ok n assoc' c A = listener_ok n assoc c A"
  by (simp add: listener_ok_def decoder_state_def)

lemma icy_listener_ok:
  assumes "icy_listener n c r A" and "0 < n"
  shows "listener_ok n (mb_associated r) c A \<and> assoc_wf (mb_associated r) \<and> mc_pos c \<le> length (mb_data r)"
  using assms(1)
proof (induction rule: icy_listener.induct)
  case (join r c net)
  then show ?case by (simp add: listener_ok_def decoder_state_def icy_goes_def)
next
  case (writes c r A w c')
  then have o: "listener_ok n (mb_associated r) c A" "assoc_wf (mb_associated r)" "mc_pos c \<le> length (mb_data r)" by simp_all
  obtain w2 c2 where "format_mp3_write_buf_to_client r c = Inr (w2, c2)"
    "listener_ok n (mb_associated r) c2 (A @ take (mc_pos c2 - mc_pos c) (drop (mc_pos c) (mb_data r)))"
    "mc_pos c2 \<le> length (mb_data r)" by (rule write_ok [OF o(1, 2) assms(2) o(3)])
  with writes(2) o(2) show ?case by simp
next
  case (advances c r A r')
  then have l: "listener_ok n (mb_associated r) c A" by simp
  have "listener_ok n (mb_associated r') c A"
  proof (cases "mc_in_metadata c")
    case True
    then show ?thesis using l advances(4) by simp
  next
    case False
    then show ?thesis using l listener_ok_other [of c n "mb_associated r'" A "mb_associated r"] by simp
  qed
  then show ?case using advances(3) by (simp add: listener_ok_pos)
next
  case (socket c r A net)
  then show ?case by (simp add: listener_ok_net)
qed

text \<open>
  C10: What a listener with metadata has been sent decodes to the MP3 data of its buffers up to its
  position, complete and in order, however little its socket took at a time; and the next write does
  not fault. This holds as long as no new block of metadata comes up while a block is sent in part.
\<close>

theorem listener_stream_decodes:
  assumes "icy_listener n c r A" and "0 < n"
  shows "fst (snd (icy_run n (Audio n) (mc_out c))) = A
    \<and> (\<forall>f. format_mp3_write_buf_to_client r c \<noteq> Inl f)"
proof -
  have o: "listener_ok n (mb_associated r) c A" "assoc_wf (mb_associated r)" "mc_pos c \<le> length (mb_data r)"
    using icy_listener_ok [OF assms] by simp_all
  have "format_mp3_write_buf_to_client r c \<noteq> Inl f" for f using write_ok [OF o(1, 2) assms(2) o(3)] by (metis Inl_Inr_False)
  then show ?thesis using o(1) by (auto simp: listener_ok_def icy_goes_def)
qed

section \<open>The source\<close>

text \<open>The decoder's state in the state of the format.\<close>

definition decoder_of :: "mp3_state \<Rightarrow> icy" where
  "decoder_of st =
     (if build_metadata_len st = 0 then Audio (nat (inline_metadata_interval st) - offset st)
      else Block (build_metadata_len st - build_metadata_offset st) (take (build_metadata_offset st) (build_metadata st)))"

text \<open>A block in the making: its length byte is there, and behind it the buffer is still zero.\<close>

definition building :: "mp3_state \<Rightarrow> bool" where
  "building st \<longleftrightarrow>
     offset st = nat (inline_metadata_interval st) \<and> 0 < build_metadata_offset st
     \<and> build_metadata_offset st < build_metadata_len st
     \<and> build_metadata_len st = 1 + 16 * code (hd (build_metadata st))
     \<and> drop (build_metadata_offset st) (build_metadata st) = replicate (BUILD_METADATA_SIZE - build_metadata_offset st) NUL"

definition source_ok :: "mp3_state \<Rightarrow> bool" where
  "source_ok st \<longleftrightarrow>
     0 < inline_metadata_interval st \<and> offset st \<le> nat (inline_metadata_interval st)
     \<and> length (build_metadata st) = BUILD_METADATA_SIZE
     \<and> (build_metadata_len st \<noteq> 0 \<longrightarrow> building st)"

text \<open>What a block does to the metadata: its last byte is replaced by NUL; a change takes effect.\<close>

definition closed_block :: "string \<Rightarrow> string" where
  "closed_block blk = butlast blk @ [NUL]"

definition new_text :: "string \<Rightarrow> string \<Rightarrow> bool" where
  "new_text blk m \<longleftrightarrow> length blk > 1 \<and> c_str (drop 1 (closed_block blk)) \<noteq> c_str (drop 1 m)"

definition take_block :: "string \<Rightarrow> string \<Rightarrow> string" where
  "take_block blk m = (if new_text blk m then closed_block blk else m)"

lemma len_byte_le: "1 + 16 * code b \<le> BUILD_METADATA_SIZE"
proof -
  have "code b < 256" by simp
  then show ?thesis unfolding BUILD_METADATA_SIZE_def by linarith
qed

lemma c_str_pad: "c_str (xs @ replicate (Suc k) NUL) = c_str (xs @ [NUL])"
  by (induction xs) (simp_all add: c_str_def)

lemma overwrite_at:
  assumes "p + length src \<le> length buf"
  shows "overwrite p src buf = Inr (take p buf @ src @ drop (p + length src) buf)"
  using assms by (simp add: overwrite_def)

text \<open>Beginning a block: the decoder is still before the length byte.\<close>

definition begun :: "mp3_state \<Rightarrow> string \<Rightarrow> bool" where
  "begun st src \<longleftrightarrow>
     0 < inline_metadata_interval st \<and> offset st = nat (inline_metadata_interval st)
     \<and> length (build_metadata st) = BUILD_METADATA_SIZE
     \<and> build_metadata_offset st < build_metadata_len st
     \<and> build_metadata_len st \<le> BUILD_METADATA_SIZE
     \<and> build_metadata_len st = 1 + 16 * code (hd (take (build_metadata_offset st) (build_metadata st) @ src))
     \<and> drop (build_metadata_offset st) (build_metadata st) = replicate (BUILD_METADATA_SIZE - build_metadata_offset st) NUL"

lemma begin_metadata_begun:
  assumes "source_ok st" and "src \<noteq> []" and "offset st = nat (inline_metadata_interval st)"
  shows "begun (begin_metadata (hd src) st) src" "metadata (begin_metadata (hd src) st) = metadata st"
    "build_metadata_len st = 0 \<Longrightarrow> build_metadata_offset (begin_metadata (hd src) st) = 0"
    "build_metadata_len st \<noteq> 0 \<Longrightarrow> begin_metadata (hd src) st = st"
proof -
  show "metadata (begin_metadata (hd src) st) = metadata st"
    "build_metadata_len st = 0 \<Longrightarrow> build_metadata_offset (begin_metadata (hd src) st) = 0"
    "build_metadata_len st \<noteq> 0 \<Longrightarrow> begin_metadata (hd src) st = st" by (simp_all add: begin_metadata_def)
  show "begun (begin_metadata (hd src) st) src"
  proof (cases "build_metadata_len st = 0")
    case True
    then show ?thesis using assms len_byte_le [of "hd src"]
      by (simp add: begin_metadata_def begun_def source_ok_def mult.commute)
  next
    case False
    then have b: "building st" "length (build_metadata st) = BUILD_METADATA_SIZE" using assms(1) by (simp_all add: source_ok_def)
    have "hd (take (build_metadata_offset st) (build_metadata st) @ src) = hd (build_metadata st)"
      using b by (cases "build_metadata st") (auto simp: building_def BUILD_METADATA_SIZE_def)
    then show ?thesis using False assms b len_byte_le [of "hd (build_metadata st)"]
      by (simp add: begin_metadata_def begun_def source_ok_def building_def)
  qed
qed

text \<open>The decoder over a whole block, begun before this read or not.\<close>

lemma icy_run_block:
  assumes "blk \<noteq> []" and "length blk = 1 + 16 * code (hd blk)" and "p < length blk"
  shows "icy_run n (if p = 0 then Audio 0 else Block (length blk - p) (take p blk)) (drop p blk) = (Audio n, [], [blk])"
proof (cases "p = 0")
  case True
  obtain b bs where b: "blk = b # bs" using assms(1) by (cases blk) auto
  show ?thesis
  proof (cases "code b = 0")
    case z: True
    then show ?thesis using True b assms(2) by simp
  next
    case False
    then show ?thesis using True b assms(2) icy_run_block_all [of "16 * code b" bs n "[b]"] by simp
  qed
next
  case False
  then show ?thesis using icy_run_block_all [of "length blk - p" "drop p blk" n "take p blk"] assms(3) by simp
qed

lemma icy_run_block_piece:
  assumes "xs \<noteq> []" and "length pre + length xs < 1 + 16 * code (hd (pre @ xs))"
  shows "icy_run n (if pre = [] then Audio 0 else Block (1 + 16 * code (hd (pre @ xs)) - length pre) pre) xs =
    (Block (1 + 16 * code (hd (pre @ xs)) - length (pre @ xs)) (pre @ xs), [], [])"
proof (cases pre)
  case Nil
  obtain b bs where b: "xs = b # bs" using assms(1) by (cases xs) auto
  then have "0 < code b" using assms(2) Nil by (cases "code b") auto
  then show ?thesis using Nil b assms(2) icy_run_block_part [of bs "16 * code b" n "[b]"] by simp
next
  case (Cons b bs)
  then show ?thesis using assms(2) icy_run_block_part [of xs "1 + 16 * code b - length pre" n pre] by simp
qed

text \<open>The end of a block: the metadata is updated as the block says, or the stream ended.\<close>

lemma end_metadata_value:
  assumes "blk \<noteq> []" and "length blk = build_metadata_len st" and "length blk \<le> BUILD_METADATA_SIZE"
    and "build_metadata st = closed_block blk @ replicate (BUILD_METADATA_SIZE - length blk) NUL"
  shows "end_metadata st = None \<and> new_text blk (snd (metadata st)) \<and> \<not> starts_with ''StreamTitle='' (drop 1 (closed_block blk))
    \<or> (\<exists>st'. end_metadata st = Some st' \<and> snd (metadata st') = take_block blk (snd (metadata st))
         \<and> offset st' = 0 \<and> build_metadata_len st' = 0 \<and> inline_metadata_interval st' = inline_metadata_interval st
         \<and> read_data st' = read_data st
         \<and> length (build_metadata st') = length (build_metadata st))"
proof -
  have l: "length (closed_block blk) = length blk" using assms(1) by (simp add: closed_block_def)
  have t: "take (build_metadata_len st) (build_metadata st) = closed_block blk" using assms(2, 4) l by simp
  have c: "c_str (drop 1 (build_metadata st)) = c_str (drop 1 (closed_block blk))" if "length blk > 1"
  proof -
    have "drop 1 (build_metadata st) = drop 1 (butlast blk) @ replicate (Suc (BUILD_METADATA_SIZE - length blk)) NUL"
      using that by (simp add: assms(4) closed_block_def)
    moreover have "drop 1 (closed_block blk) = drop 1 (butlast blk) @ [NUL]" using that by (simp add: closed_block_def)
    ultimately show ?thesis by (simp only: c_str_pad)
  qed
  show ?thesis using t c assms(2) by (auto simp: end_metadata_def Let_def new_text_def take_block_def)
qed

text \<open>Over a read, the loop does what the decoder does.\<close>

definition loop_refines :: "mp3_state \<Rightarrow> string \<Rightarrow> string \<Rightarrow> fault + (string \<times> mp3_state) option \<Rightarrow> bool" where
  "loop_refines st src out res \<longleftrightarrow>
     (case icy_run (nat (inline_metadata_interval st)) (decoder_of st) src of (s, a, blks) \<Rightarrow>
        (case res of
           Inl f \<Rightarrow> False
         | Inr None \<Rightarrow> (\<exists>blk\<in>set blks. 1 < length blk \<and> \<not> starts_with ''StreamTitle='' (drop 1 (closed_block blk)))
         | Inr (Some (out', st')) \<Rightarrow> out' = out @ a \<and> decoder_of st' = s \<and> source_ok st'
             \<and> inline_metadata_interval st' = inline_metadata_interval st \<and> read_data st' = read_data st
             \<and> snd (metadata st') = fold take_block blks (snd (metadata st))))"

lemma loop_refines_chain:
  assumes "icy_run (nat (inline_metadata_interval st)) (decoder_of st) xs = (decoder_of st1, a, blks)"
    and "loop_refines st1 ys (out @ a) res" and "inline_metadata_interval st1 = inline_metadata_interval st"
    and "read_data st1 = read_data st"
    and "snd (metadata st1) = fold take_block blks (snd (metadata st))"
  shows "loop_refines st (xs @ ys) out res"
  using assms unfolding loop_refines_def
  by (auto simp: icy_run_append split: prod.splits sum.splits option.splits)

lemma decoder_of_begun:
  assumes "source_ok st" and "src \<noteq> []" and "offset st = nat (inline_metadata_interval st)"
    and "st1 = begin_metadata (hd src) st"
  shows "decoder_of st = (if take (build_metadata_offset st1) (build_metadata st1) = [] then Audio 0
     else Block (build_metadata_len st1 - build_metadata_offset st1) (take (build_metadata_offset st1) (build_metadata st1)))"
proof (cases "build_metadata_len st = 0")
  case True
  then show ?thesis using assms(3, 4) by (simp add: begin_metadata_def decoder_of_def)
next
  case False
  then have "building st" "length (build_metadata st) = BUILD_METADATA_SIZE" using assms(1) by (simp_all add: source_ok_def)
  then have "take (build_metadata_offset st) (build_metadata st) \<noteq> []" by (auto simp: building_def BUILD_METADATA_SIZE_def)
  then show ?thesis using False assms(4) by (simp add: begin_metadata_def decoder_of_def)
qed

text \<open>A block that does not end in this read.\<close>

lemma block_piece_refines:
  assumes "source_ok st" and "src \<noteq> []" and "offset st = nat (inline_metadata_interval st)"
    and "st1 = begin_metadata (hd src) st" and "length src < build_metadata_len st1 - build_metadata_offset st1"
    and "b = take (build_metadata_offset st1) (build_metadata st1) @ src @ drop (build_metadata_offset st1 + length src) (build_metadata st1)"
  shows "overwrite (build_metadata_offset st1) src (build_metadata st1) = Inr b"
    and "loop_refines st src out (Inr (Some (out, st1\<lparr>build_metadata := b,
           build_metadata_offset := build_metadata_offset st1 + length src\<rparr>)))"
proof -
  let ?p = "build_metadata_offset st1" and ?B = "build_metadata st1"
  have g: "begun st1 src" "metadata st1 = metadata st" using begin_metadata_begun [OF assms(1-3)] assms(4) by simp_all
  then have lp: "?p + length src < build_metadata_len st1" "build_metadata_len st1 \<le> BUILD_METADATA_SIZE" "length ?B = BUILD_METADATA_SIZE"
    using assms(5) by (auto simp: begun_def)
  then show "overwrite ?p src ?B = Inr b" using overwrite_at [of ?p src ?B] assms(6) by simp
  let ?pre = "take ?p ?B"
  have pre: "length ?pre = ?p" using lp by simp
  have L: "build_metadata_len st1 = 1 + 16 * code (hd (?pre @ src))" using g(1) by (simp add: begun_def)
  have r: "icy_run (nat (inline_metadata_interval st)) (decoder_of st) src =
      (Block (build_metadata_len st1 - length (?pre @ src)) (?pre @ src), [], [])"
    using icy_run_block_piece [OF assms(2), of ?pre "nat (inline_metadata_interval st)"] lp(1)
    by (simp only: decoder_of_begun [OF assms(1-4)] L [symmetric] pre)
  have i: "inline_metadata_interval st1 = inline_metadata_interval st" "read_data st1 = read_data st"
    using assms(4) by (simp_all add: begin_metadata_def)
  have b: "take (?p + length src) b = ?pre @ src" "length b = BUILD_METADATA_SIZE" "hd b = hd (?pre @ src)"
    "drop (?p + length src) b = drop (?p + length src) ?B" using lp assms(2, 6) pre by (simp_all add: hd_append)
  have "drop (?p + length src) ?B = replicate (BUILD_METADATA_SIZE - (?p + length src)) NUL"
    using g(1) unfolding begun_def by (metis drop_drop drop_replicate add.commute diff_diff_left)
  then have "source_ok (st1\<lparr>build_metadata := b, build_metadata_offset := ?p + length src\<rparr>)"
    using g(1) lp(1) assms(2) b L by (simp add: begun_def source_ok_def building_def)
  then show "loop_refines st src out (Inr (Some (out, st1\<lparr>build_metadata := b, build_metadata_offset := ?p + length src\<rparr>)))"
    using r b i lp(1) pre g(2) by (simp add: loop_refines_def decoder_of_def)
qed

text \<open>A block that ends in this read: the decoder has seen it, and the state begins anew.\<close>

lemma block_end_refines:
  assumes "source_ok st" and "src \<noteq> []" and "offset st = nat (inline_metadata_interval st)"
    and "st1 = begin_metadata (hd src) st" and "k = build_metadata_len st1 - build_metadata_offset st1" and "k \<le> length src"
  obtains b where "overwrite (build_metadata_offset st1) (take (k - 1) src) (build_metadata st1) = Inr b"
    "end_metadata (st1\<lparr>build_metadata := b\<rparr>) = None \<Longrightarrow> loop_refines st src out (Inr None)"
    "\<And>st2. end_metadata (st1\<lparr>build_metadata := b\<rparr>) = Some st2 \<Longrightarrow> source_ok st2
       \<and> (\<forall>res. loop_refines st2 (drop k src) out res \<longrightarrow> loop_refines st src out res)"
proof -
  let ?p = "build_metadata_offset st1" and ?B = "build_metadata st1" and ?n = "nat (inline_metadata_interval st)"
  have g: "begun st1 src" "metadata st1 = metadata st" using begin_metadata_begun [OF assms(1-3)] assms(4) by simp_all
  have lp: "?p < build_metadata_len st1" "build_metadata_len st1 \<le> BUILD_METADATA_SIZE" "length ?B = BUILD_METADATA_SIZE"
    "drop ?p ?B = replicate (BUILD_METADATA_SIZE - ?p) NUL"
    using g(1) by (auto simp: begun_def)
  have k: "0 < k" "?p + k = build_metadata_len st1" using assms(5) lp(1) by simp_all
  define blk where "blk = take ?p ?B @ take k src"
  have bl: "length blk = build_metadata_len st1" "blk \<noteq> []" using k lp(3) assms(2, 6) lp(1, 2) by (auto simp: blk_def)
  have h: "hd blk = hd (take ?p ?B @ src)" using k(1) assms(2) by (cases src) (auto simp: blk_def hd_append)
  then have L: "length blk = 1 + 16 * code (hd blk)" using bl(1) g(1) by (simp add: begun_def)
  have pre: "take ?p blk = take ?p ?B" "drop ?p blk = take k src" "length (take ?p ?B) = ?p"
    using lp by (simp_all add: blk_def)
  have "decoder_of st = (if ?p = 0 then Audio 0 else Block (length blk - ?p) (take ?p blk))"
    using decoder_of_begun [OF assms(1-4)] pre lp bl(1) by (auto simp: BUILD_METADATA_SIZE_def)
  then have r: "icy_run ?n (decoder_of st) (take k src) = (Audio ?n, [], [blk])"
    using icy_run_block [OF bl(2) L, of ?p ?n] pre(2) lp(1) bl(1) by simp
  have i: "inline_metadata_interval st1 = inline_metadata_interval st" "read_data st1 = read_data st"
    using assms(4) by (simp_all add: begin_metadata_def)
  define b where "b = take ?p ?B @ take (k - 1) src @ drop (?p + (k - 1)) ?B"
  have o: "overwrite ?p (take (k - 1) src) ?B = Inr b"
    using overwrite_at [of ?p "take (k - 1) src" ?B] k lp assms(6) by (simp add: b_def)
  have "drop (?p + (k - 1)) ?B = replicate (BUILD_METADATA_SIZE - (?p + (k - 1))) NUL"
    using lp(4) by (metis drop_drop drop_replicate add.commute diff_diff_left)
  also have "BUILD_METADATA_SIZE - (?p + (k - 1)) = Suc (BUILD_METADATA_SIZE - length blk)" using k lp bl(1) by simp
  finally have cb: "b = closed_block blk @ replicate (BUILD_METADATA_SIZE - length blk) NUL"
    using k(1) assms(2, 6) by (simp add: b_def blk_def closed_block_def butlast_append butlast_take)
  have lb: "length b = BUILD_METADATA_SIZE" using bl lp(2) by (cases blk rule: rev_cases) (simp_all add: cb closed_block_def)
  have e: "end_metadata (st1\<lparr>build_metadata := b\<rparr>) = None \<and> 1 < length blk \<and> \<not> starts_with ''StreamTitle='' (drop 1 (closed_block blk))
    \<or> (\<exists>st'. end_metadata (st1\<lparr>build_metadata := b\<rparr>) = Some st' \<and> snd (metadata st') = take_block blk (snd (metadata st))
         \<and> offset st' = 0 \<and> build_metadata_len st' = 0 \<and> inline_metadata_interval st' = inline_metadata_interval st
         \<and> read_data st' = read_data st
         \<and> length (build_metadata st') = BUILD_METADATA_SIZE)"
  proof -
    have "length blk = build_metadata_len (st1\<lparr>build_metadata := b\<rparr>)" "length blk \<le> BUILD_METADATA_SIZE"
      "build_metadata (st1\<lparr>build_metadata := b\<rparr>) = closed_block blk @ replicate (BUILD_METADATA_SIZE - length blk) NUL"
      using bl lp(2) cb by simp_all
    from end_metadata_value [OF bl(2) this] show ?thesis using g(2) i lb by (auto simp: new_text_def)
  qed
  show ?thesis
  proof (rule that [OF o])
    assume "end_metadata (st1\<lparr>build_metadata := b\<rparr>) = None"
    then have "1 < length blk" "\<not> starts_with ''StreamTitle='' (drop 1 (closed_block blk))" using e by simp_all
    then show "loop_refines st src out (Inr None)"
      using r icy_run_append [of ?n "decoder_of st" "take k src" "drop k src"] by (auto simp: loop_refines_def split: prod.splits)
  next
    fix st2
    assume "end_metadata (st1\<lparr>build_metadata := b\<rparr>) = Some st2"
    with e have s2: "snd (metadata st2) = take_block blk (snd (metadata st))" "offset st2 = 0" "build_metadata_len st2 = 0"
      "inline_metadata_interval st2 = inline_metadata_interval st" "length (build_metadata st2) = BUILD_METADATA_SIZE"
      "read_data st2 = read_data st" by auto
    have "source_ok st2" using s2 assms(1) by (simp add: source_ok_def)
    moreover have "loop_refines st (take k src @ drop k src) out res" if "loop_refines st2 (drop k src) out res" for res
      by (rule loop_refines_chain [of st "take k src" st2 "[]" "[blk]"]) (use r s2 that in \<open>simp_all add: decoder_of_def\<close>)
    ultimately show "source_ok st2 \<and> (\<forall>res. loop_refines st2 (drop k src) out res \<longrightarrow> loop_refines st src out res)" by simp
  qed
qed

lemma filter_loop_refines: "source_ok st \<Longrightarrow> loop_refines st src out (filter_loop st src out)"
proof (induction st src out rule: filter_loop.induct)
  case (1 st src out)
  let ?n = "nat (inline_metadata_interval st)" and ?b = "nat (inline_metadata_interval st) - offset st"
  have o: "offset st \<le> ?n" "0 < inline_metadata_interval st" using 1(3) by (simp_all add: source_ok_def)
  then have g: "\<not> int (offset st) > inline_metadata_interval st" by linarith
  have audio: "decoder_of st = Audio ?b" "build_metadata_len st = 0" if "?b \<noteq> 0"
    using that 1(3) by (auto simp: decoder_of_def source_ok_def building_def)
  consider (empty) "src = []" | (short) "src \<noteq> []" "length src \<le> ?b" | (upto) "src \<noteq> []" "\<not> length src \<le> ?b" "?b \<noteq> 0"
    | (meta) "src \<noteq> []" "?b = 0" by fastforce
  then show ?case
  proof cases
    case empty
    then show ?thesis using 1(3) by (simp add: filter_loop.simps [of st] loop_refines_def)
  next
    case short
    then have "?b \<noteq> 0" by (cases src) auto
    then have "icy_run ?n (decoder_of st) src = (Audio (?b - length src), src, [])" using icy_run_audio audio short(2) by simp
    moreover have "source_ok (st\<lparr>offset := offset st + length src\<rparr>)" using 1(3) short(2) audio(2) [OF \<open>?b \<noteq> 0\<close>] o
      by (simp add: source_ok_def)
    ultimately show ?thesis using short g audio(2) [OF \<open>?b \<noteq> 0\<close>]
      by (simp add: filter_loop.simps [of st] loop_refines_def decoder_of_def)
  next
    case upto
    let ?st = "st\<lparr>offset := offset st + ?b\<rparr>"
    have s: "source_ok ?st" using 1(3) o audio(2) [OF upto(3)] by (simp add: source_ok_def)
    have r: "icy_run ?n (decoder_of st) (take ?b src) = (decoder_of ?st, take ?b src, [])"
      using icy_run_audio [of "take ?b src" ?b ?n] audio [OF upto(3)] upto(2) o by (simp add: decoder_of_def)
    have "loop_refines ?st (drop ?b src) (out @ take ?b src) (filter_loop ?st (drop ?b src) (out @ take ?b src))"
      using 1(1) [OF upto(1) g refl upto(2, 3) s] .
    from loop_refines_chain [OF r this] have "loop_refines st (take ?b src @ drop ?b src) out (filter_loop ?st (drop ?b src) (out @ take ?b src))" by simp
    then show ?thesis using upto g by (simp add: filter_loop.simps [of st] Let_def)
  next
    case meta
    define st1 where "st1 = begin_metadata (hd src) st"
    have off: "offset st = ?n" using meta(2) o by simp
    have l: "\<not> length src \<le> ?b" "\<not> ?b \<noteq> 0" using meta by auto
    have bl: "\<not> build_metadata_len st1 \<le> build_metadata_offset st1"
      using begin_metadata_begun(1) [OF 1(3) meta(1) off] by (simp add: begun_def st1_def)
    define k where "k = build_metadata_len st1 - build_metadata_offset st1"
    have f: "filter_loop st src out =
       (if length src < k
        then (case overwrite (build_metadata_offset st1) src (build_metadata st1) of Inl f \<Rightarrow> Inl f
              | Inr b \<Rightarrow> Inr (Some (out, st1\<lparr>build_metadata := b, build_metadata_offset := build_metadata_offset st1 + length src\<rparr>)))
        else (case overwrite (build_metadata_offset st1) (take (k - 1) src) (build_metadata st1) of Inl f \<Rightarrow> Inl f
              | Inr b \<Rightarrow> (case end_metadata (st1\<lparr>build_metadata := b\<rparr>) of None \<Rightarrow> Inr None
                         | Some st \<Rightarrow> filter_loop st (drop k src) out)))"
      using meta g l bl by (subst filter_loop.simps) (simp add: Let_def st1_def [symmetric] k_def [symmetric])
    show ?thesis
    proof (cases "length src < k")
      case True
      from block_piece_refines [OF 1(3) meta(1) off st1_def True [unfolded k_def] refl] show ?thesis
        using True by (simp add: f)
    next
      case False
      then have "k \<le> length src" by simp
      from block_end_refines [OF 1(3) meta(1) off st1_def k_def this, of out] obtain b where
        b: "overwrite (build_metadata_offset st1) (take (k - 1) src) (build_metadata st1) = Inr b"
        "end_metadata (st1\<lparr>build_metadata := b\<rparr>) = None \<Longrightarrow> loop_refines st src out (Inr None)"
        "\<And>st2. end_metadata (st1\<lparr>build_metadata := b\<rparr>) = Some st2 \<Longrightarrow> source_ok st2
           \<and> (\<forall>res. loop_refines st2 (drop k src) out res \<longrightarrow> loop_refines st src out res)" by blast
      show ?thesis
      proof (cases "end_metadata (st1\<lparr>build_metadata := b\<rparr>)")
        case None
        then show ?thesis using b(1, 2) False by (simp add: f)
      next
        case (Some st2)
        have "loop_refines st2 (drop k src) out (filter_loop st2 (drop k src) out)"
          using 1(2) [OF meta(1) g refl l(1) l(2) st1_def bl k_def False b(1) Some] b(3) [OF Some] by simp
        then show ?thesis using b(1) b(3) [OF Some] Some False by (simp add: f)
      qed
    qed
  qed
qed

section \<open>Blocks have the length their first byte says\<close>

fun icy_wf :: "icy \<Rightarrow> bool" where
  "icy_wf (Audio k) = True"
| "icy_wf (Block k acc) \<longleftrightarrow> 0 < k \<and> acc \<noteq> [] \<and> length acc + k = 1 + 16 * code (hd acc)"

lemma icy_byte_wf: "icy_wf s \<Longrightarrow> icy_byte n s b = (s', a, blks) \<Longrightarrow> icy_wf s' \<and> (\<forall>blk\<in>set blks. block_wf blk)"
  by (cases "(n, s, b)" rule: icy_byte.cases) (auto simp: block_wf_def hd_append split: if_splits)

lemma icy_run_wf: "icy_wf s \<Longrightarrow> icy_run n s xs = (s', a, blks) \<Longrightarrow> icy_wf s' \<and> (\<forall>blk\<in>set blks. block_wf blk)"
proof (induction xs arbitrary: s s' a blks)
  case (Cons b bs)
  obtain s1 a1 m1 where b: "icy_byte n s b = (s1, a1, m1)" by (cases "icy_byte n s b")
  obtain s2 a2 m2 where r: "icy_run n s1 bs = (s2, a2, m2)" by (cases "icy_run n s1 bs")
  have "icy_wf s1" "\<forall>blk\<in>set m1. block_wf blk" using icy_byte_wf [OF Cons.prems(1) b] by simp_all
  with Cons.IH [OF this(1) r] Cons.prems(2) b r show ?case by auto
qed simp

lemma decoder_of_wf: "source_ok st \<Longrightarrow> icy_wf (decoder_of st)"
proof (cases "build_metadata_len st = 0")
  case False
  assume "source_ok st"
  with False have b: "building st" "length (build_metadata st) = BUILD_METADATA_SIZE" by (simp_all add: source_ok_def)
  let ?acc = "take (build_metadata_offset st) (build_metadata st)"
  have l: "length ?acc = build_metadata_offset st"
    using b len_byte_le [of "hd (build_metadata st)"] by (auto simp: building_def)
  have "hd ?acc = hd (build_metadata st)" "?acc \<noteq> []" using b by (auto simp: building_def BUILD_METADATA_SIZE_def)
  then show ?thesis using False b(1) l by (simp add: decoder_of_def building_def)
qed (simp add: decoder_of_def)

lemma take_block_wf: "block_wf blk \<Longrightarrow> block_wf m \<Longrightarrow> block_wf (take_block blk m)"
  by (cases blk) (auto simp: take_block_def new_text_def closed_block_def block_wf_def)

lemma fold_take_block_wf: "\<forall>blk\<in>set blks. block_wf blk \<Longrightarrow> block_wf m \<Longrightarrow> block_wf (fold take_block blks m)"
  by (induction blks arbitrary: m) (simp_all add: take_block_wf)

lemma url_text_fits: "length (url_text tags iurl siz r) \<le> siz - r - 1"
proof -
  have "length (snprintf (siz - r) s) \<le> siz - r - 1" for s by (simp add: snprintf_def)
  then show ?thesis by (auto simp: url_text_def Let_def split: option.splits)
qed

lemma title_block_wf:
  assumes "title_block tags iurl = Some p"
  shows "block_wf p"
proof -
  let ?len = "title_len tags iurl"
  define lb where "lb = (?len - 1) div 16 + 1"
  let ?siz = "lb * 16 + 1" and ?r = "Suc (length (title_text tags))"
  have len: "?len \<le> MAX_META_LEN" using assms by (simp add: title_block_def Let_def split: if_splits)
  then have lb: "lb < 256" "0 < lb" by (simp_all add: lb_def MAX_META_LEN_def)
  let ?s = "snprintf ?siz (char_of lb # title_text tags) @ url_text tags iurl ?siz ?r"
  have p: "p = pad ?siz ?s" using assms len by (simp add: title_block_def Let_def lb_def)
  have "length ?s \<le> ?siz" using url_text_fits [of tags iurl ?siz ?r] by (auto simp: snprintf_def min_def)
  then have "length p = ?siz" by (simp add: p pad_def)
  moreover have "hd p = char_of lb" "p \<noteq> []" using lb(2) by (simp_all add: p pad_def snprintf_def take_Cons')
  ultimately show ?thesis using lb(1) by (simp add: block_wf_def)
qed

lemma set_title_wf:
  assumes "mp3_set_title alive tags st = Inr (st', t)" and "block_wf (snd (metadata st))"
  shows "block_wf (snd (metadata st'))" "st' = st\<lparr>metadata := metadata st', next_address := next_address st'\<rparr>"
proof -
  show "block_wf (snd (metadata st'))" using assms title_block_wf
    by (auto simp: mp3_set_title_def split: option.splits if_splits)
  show "st' = st\<lparr>metadata := metadata st', next_address := next_address st'\<rparr>" using assms(1)
    by (auto simp: mp3_set_title_def split: option.splits if_splits)
qed

section \<open>A source with metadata\<close>

definition pending :: "mp3_state \<Rightarrow> string" where
  "pending st = (case read_data st of None \<Rightarrow> [] | Some d \<Rightarrow> d)"

definition handed_out :: "filtered \<Rightarrow> mp3_buf list" where
  "handed_out g = (case g of Filtered b \<Rightarrow> [b] | _ \<Rightarrow> [])"

text \<open>
  The states of a source that sends metadata, what it has sent so far and the buffers it was cut into.
  A read delivers at most what fits; new tags may come at any time.
\<close>

inductive icy_source :: "mp3_state \<Rightarrow> string \<Rightarrow> mp3_buf list \<Rightarrow> bool" where
  connect: "format_mp3_get_plugin icy_metaint = (st, True) \<Longrightarrow> icy_source st [] []"
| settings: "icy_source st received out \<Longrightarrow> icy_source (format_mp3_apply_settings i icy_metaint st) received out"
| new_tags: "icy_source st received out \<Longrightarrow> icy_source (fst (mp3_set_tag conv add None v (st, vc :: string list))) received out"
| reads: "icy_source st received out \<Longrightarrow> length bs \<le> REFBUF_SIZE - length (pending st) \<Longrightarrow>
    mp3_get_filter_meta alive tags (Some bs) e st = Inr (g, st') \<Longrightarrow> g \<noteq> Wrong_metadata \<Longrightarrow>
    icy_source st' (received @ bs) (out @ handed_out g)"

definition icy_source_ok :: "mp3_state \<Rightarrow> string \<Rightarrow> mp3_buf list \<Rightarrow> bool" where
  "icy_source_ok st received out \<longleftrightarrow> source_ok st \<and> block_wf (snd (metadata st)) \<and> (\<forall>b\<in>set out. assoc_wf (mb_associated b))
     \<and> (\<exists>processed. received = processed @ pending st
        \<and> icy_goes (nat (inline_metadata_interval st)) (Audio (nat (inline_metadata_interval st))) processed (decoder_of st)
            (concat (map mb_data out)))"

lemma source_ok_fields:
  assumes "inline_metadata_interval st' = inline_metadata_interval st" "offset st' = offset st"
    "build_metadata_len st' = build_metadata_len st" "build_metadata_offset st' = build_metadata_offset st"
    "build_metadata st' = build_metadata st"
  shows "source_ok st' = source_ok st" "decoder_of st' = decoder_of st"
  using assms by (simp_all add: source_ok_def building_def decoder_of_def)

lemma take_read_ok:
  assumes "take_read alive tags st = Inr (bs, st')" and "source_ok st" and "block_wf (snd (metadata st))"
  shows "bs = pending st" "source_ok st'" "decoder_of st' = decoder_of st" "block_wf (snd (metadata st'))"
    "inline_metadata_interval st' = inline_metadata_interval st" "read_data st' = None"
proof -
  have c: "bs = pending st \<and> block_wf (snd (metadata st')) \<and> st' = st\<lparr>read_data := None, metadata := metadata st',
      next_address := next_address st', update_metadata := update_metadata st'\<rparr>"
  proof (cases "update_metadata st")
    case True
    then obtain st1 t where t: "mp3_set_title alive tags (st\<lparr>read_data := None\<rparr>) = Inr (st1, t)" "bs = pending st" "st' = st1\<lparr>update_metadata := False\<rparr>"
      using assms(1) by (auto simp: take_read_def pending_def Let_def split: sum.splits)
    obtain m a where "st1 = st\<lparr>read_data := None, metadata := m, next_address := a\<rparr>" using set_title_wf(2) [OF t(1)] assms(3) by auto
    then show ?thesis using set_title_wf(1) [OF t(1)] assms(3) t(2, 3) by simp
  next
    case False
    then show ?thesis using assms(1, 3) by (cases st) (auto simp: take_read_def pending_def Let_def)
  qed
  then obtain m a u where e: "st' = st\<lparr>read_data := None, metadata := m, next_address := a, update_metadata := u\<rparr>" by blast
  show "bs = pending st" "block_wf (snd (metadata st'))" using c by simp_all
  show "source_ok st'" "decoder_of st' = decoder_of st"
    "inline_metadata_interval st' = inline_metadata_interval st" "read_data st' = None"
    using source_ok_fields [of st' st] assms(2) by (simp_all add: e)
qed

lemma reads_ok:
  assumes "icy_source_ok st received out" and "length bs \<le> REFBUF_SIZE - length (pending st)"
    and "mp3_get_filter_meta alive tags (Some bs) e st = Inr (g, st')" and "g \<noteq> Wrong_metadata"
  shows "icy_source_ok st' (received @ bs) (out @ handed_out g)"
proof -
  let ?n = "nat (inline_metadata_interval st)"
  from assms(1) obtain processed where o: "source_ok st" "block_wf (snd (metadata st))" "\<forall>b\<in>set out. assoc_wf (mb_associated b)"
    "received = processed @ pending st" "icy_goes ?n (Audio ?n) processed (decoder_of st) (concat (map mb_data out))"
    by (auto simp: icy_source_ok_def)
  obtain c st1 where c: "complete_read (Some bs) e st = (c, st1)" by (cases "complete_read (Some bs) e st")
  have s1: "st1 = st\<lparr>read_data := if c \<or> pending st @ bs \<noteq> [] then Some (pending st @ bs) else None\<rparr>"
    using c assms(2) by (auto simp: complete_read_def pending_def Let_def split: if_splits option.splits)
  then have p: "pending st1 = pending st @ bs" by (auto simp: pending_def)
  have f1: "source_ok st1" "decoder_of st1 = decoder_of st" "metadata st1 = metadata st"
    "inline_metadata_interval st1 = inline_metadata_interval st" using s1 source_ok_fields [of st1 st] o(1) by simp_all
  show ?thesis
  proof (cases c)
    case False
    then have "g = Only_metadata" "st' = st1" using assms(3) c by (simp_all add: mp3_get_filter_meta_def)
    then show ?thesis using o f1 p by (auto simp: icy_source_ok_def handed_out_def)
  next
    case True
    obtain xs st2 where t: "take_read alive tags st1 = Inr (xs, st2)"
      using assms(3) c True by (auto simp: mp3_get_filter_meta_def split: sum.splits)
    note r = take_read_ok [OF t f1(1)]
    have f2: "xs = pending st @ bs" "source_ok st2" "decoder_of st2 = decoder_of st" "block_wf (snd (metadata st2))"
      "inline_metadata_interval st2 = inline_metadata_interval st" using r f1 o(2) p by simp_all
    obtain mp3 st3 where l: "filter_loop st2 xs [] = Inr (Some (mp3, st3))"
      "st' = st3" "g = (if mp3 = [] then Only_metadata else Filtered \<lparr>mb_data = mp3, mb_associated = Some (metadata st3)\<rparr>)"
      using assms(3, 4) c True t by (auto simp: mp3_get_filter_meta_def split: sum.splits option.splits if_splits)
    obtain s a blks where i: "icy_run ?n (decoder_of st) xs = (s, a, blks)" by (cases "icy_run ?n (decoder_of st) xs")
    have q: "mp3 = a" "decoder_of st3 = s" "source_ok st3" "inline_metadata_interval st3 = inline_metadata_interval st"
      "snd (metadata st3) = fold take_block blks (snd (metadata st2))" "read_data st3 = read_data st2"
      using filter_loop_refines [OF f2(2), of xs "[]"] l(1) i f2 by (simp_all add: loop_refines_def)
    have w: "block_wf (snd (metadata st3))" using q(5) fold_take_block_wf icy_run_wf [OF decoder_of_wf [OF o(1)] i] f2(4) by simp
    have "pending st3 = []" using q(6) r(6) f1 o(2) by (simp add: pending_def)
    moreover have "icy_goes ?n (Audio ?n) (received @ bs) (decoder_of st3) (concat (map mb_data out) @ a)"
      using icy_goes_append [OF o(5), of xs s a] i q(2) f2(1) o(4) by (simp add: icy_goes_def)
    moreover have "concat (map mb_data (out @ handed_out g)) = concat (map mb_data out) @ a" using l(3) q(1) by (simp add: handed_out_def)
    moreover have "\<forall>b\<in>set (out @ handed_out g). assoc_wf (mb_associated b)" using o(3) l(3) w
      by (auto simp: handed_out_def assoc_wf_def split: prod.splits)
    ultimately show ?thesis using q w l(2) by (auto simp: icy_source_ok_def)
  qed
qed

lemma icy_source_invariant: "icy_source st received out \<Longrightarrow> icy_source_ok st received out"
proof (induction rule: icy_source.induct)
  case (connect icy_metaint st)
  then have "source_ok st" "decoder_of st = Audio (nat (inline_metadata_interval st))" "metadata st = (0, blank_metadata)" "pending st = []"
    by (auto simp: format_mp3_get_plugin_def source_ok_def decoder_of_def pending_def Let_def split: option.splits if_splits)
  then show ?case by (simp add: icy_source_ok_def icy_goes_def)
next
  case (settings st received out i icy_metaint)
  let ?st = "format_mp3_apply_settings i icy_metaint st"
  obtain v where v: "?st = st\<lparr>interval := v\<rparr>" by (cases "0 \<le> i") (auto simp: format_mp3_apply_settings_def)
  then have "source_ok ?st = source_ok st" "decoder_of ?st = decoder_of st" using source_ok_fields [of ?st st] by simp_all
  then show ?case using settings(2) v by (simp add: icy_source_ok_def pending_def)
next
  case (new_tags st received out conv add v vc)
  let ?st = "st\<lparr>update_metadata := True\<rparr>"
  have "source_ok ?st = source_ok st" "decoder_of ?st = decoder_of st" using source_ok_fields [of ?st st] by simp_all
  then show ?case using new_tags(2) by (simp add: mp3_set_tag_def icy_source_ok_def pending_def)
next
  case (reads st received out bs alive tags e g st')
  then show ?case using reads_ok by blast
qed

text \<open>
  C11: The source side takes exactly the metadata out of a stream: however the reads cut the stream, the
  buffers handed out hold the MP3 data that the reference decoder finds in what was processed, and
  only the last read, not yet full, is pending. The metadata on the buffers always consists of
  complete blocks, whether they came in the stream or from tags.
\<close>

theorem source_takes_metadata_out:
  assumes "icy_source st received out" and "n = nat (inline_metadata_interval st)"
  shows "\<exists>processed. received = processed @ pending st
      \<and> fst (snd (icy_run n (Audio n) processed)) = concat (map mb_data out)
      \<and> (\<forall>b\<in>set out. assoc_wf (mb_associated b))"
  using icy_source_invariant [OF assms(1)] assms(2) by (auto simp: icy_source_ok_def icy_goes_def)

text \<open>A stream with metadata every 1390 bytes, in one read: 1390 bytes, an empty block, nine bytes more.\<close>

definition no_tags :: mp3_tags where
  "no_tags = \<lparr>url_artist = None, url_title = None, url_url = None\<rparr>"

lemma icy_run_empty_block:
  assumes "length xs = n" and "length ys \<le> n"
  shows "icy_run n (Audio n) (xs @ NUL # ys) = (Audio (n - length ys), xs @ ys, [[NUL]])"
  using icy_run_audio [of xs n n] icy_run_audio [of ys n n] assms by (simp add: icy_run_append NUL_def code_def)

lemma icy_source_example:
  assumes "length xs = 1390" and "length ys = 9"
  obtains st m where "icy_source st (xs @ NUL # ys) [\<lparr>mb_data = xs @ ys, mb_associated = Some m\<rparr>]"
    "inline_metadata_interval st = 1390" "pending st = []"
proof -
  let ?s = "xs @ NUL # ys"
  have a: "atoi ''1390'' = 1390" by code_simp
  obtain st0 where st0: "format_mp3_get_plugin (Some ''1390'') = (st0, True)" "inline_metadata_interval st0 = 1390"
    "pending st0 = []" "update_metadata st0 = False" "decoder_of st0 = Audio 1390"
    by (simp add: format_mp3_get_plugin_def a pending_def decoder_of_def)
  from icy_source_invariant [OF icy_source.connect [OF st0(1)]] have ok: "source_ok st0" by (simp add: icy_source_ok_def)
  have l: "length ?s = 1400" using assms by simp
  have c: "complete_read (Some ?s) False st0 = (True, st0\<lparr>read_data := Some ?s\<rparr>)"
    using st0(3) l by (auto simp: complete_read_def pending_def REFBUF_SIZE_def split: option.splits)
  have t: "take_read (\<lambda>_. False) no_tags (st0\<lparr>read_data := Some ?s\<rparr>) = Inr (?s, st0\<lparr>read_data := None\<rparr>)"
    using st0(4) by (simp add: take_read_def)
  let ?st = "st0\<lparr>read_data := None\<rparr>"
  have d: "source_ok ?st" "decoder_of ?st = Audio 1390" using ok st0(5) source_ok_fields [of ?st st0] by simp_all
  have r: "icy_run 1390 (Audio 1390) ?s = (Audio 1381, xs @ ys, [[NUL]])" using icy_run_empty_block [of xs 1390 ys] assms by simp
  obtain res where res: "filter_loop ?st ?s [] = res" by simp
  have "loop_refines ?st ?s [] res" using filter_loop_refines [OF d(1), of ?s "[]"] res by simp
  then obtain st1 where f: "filter_loop ?st ?s [] = Inr (Some (xs @ ys, st1))"
    "inline_metadata_interval st1 = 1390" "read_data st1 = None"
    using d(2) r st0(2) res
    by (auto simp: loop_refines_def split: sum.splits option.splits)
  let ?g = "Filtered \<lparr>mb_data = xs @ ys, mb_associated = Some (metadata st1)\<rparr>"
  have "mp3_get_filter_meta (\<lambda>_. False) no_tags (Some ?s) False st0 = Inr (?g, st1)"
    using assms by (simp add: mp3_get_filter_meta_def c t f(1) del: append_is_Nil_conv) auto
  from icy_source.reads [OF icy_source.connect [OF st0(1)] _ this] l st0(3)
  have "icy_source st1 ([] @ ?s) ([] @ handed_out ?g)" by (simp add: REFBUF_SIZE_def)
  then show ?thesis using that [of st1 "metadata st1"] f(2, 3) by (simp add: pending_def handed_out_def)
qed

theorem source_takes_metadata_out_witness:
  "\<exists>st m. icy_source st (replicate 1390 CHR ''a'' @ NUL # replicate 9 CHR ''b'')
       [\<lparr>mb_data = replicate 1390 CHR ''a'' @ replicate 9 CHR ''b'', mb_associated = Some m\<rparr>]
     \<and> (\<exists>processed. replicate 1390 CHR ''a'' @ NUL # replicate 9 CHR ''b'' = processed @ pending st
          \<and> fst (snd (icy_run 1390 (Audio 1390) processed)) = replicate 1390 CHR ''a'' @ replicate 9 CHR ''b'')
     \<and> assoc_wf (Some m)"
proof -
  have l: "length (replicate 1390 CHR ''a'') = 1390" "length (replicate 9 CHR ''b'') = 9" by simp_all
  obtain st m where s: "icy_source st (replicate 1390 CHR ''a'' @ NUL # replicate 9 CHR ''b'')
       [\<lparr>mb_data = replicate 1390 CHR ''a'' @ replicate 9 CHR ''b'', mb_associated = Some m\<rparr>]"
    "inline_metadata_interval st = 1390" by (rule icy_source_example [OF l])
  then have "(1390 :: nat) = nat (inline_metadata_interval st)" by simp
  from source_takes_metadata_out [OF s(1) this] obtain processed where
    "replicate 1390 CHR ''a'' @ NUL # replicate 9 CHR ''b'' = processed @ pending st"
    "fst (snd (icy_run 1390 (Audio 1390) processed)) = replicate 1390 CHR ''a'' @ replicate 9 CHR ''b''" "assoc_wf (Some m)"
    by auto
  then show ?thesis using s(1) by blast
qed

section \<open>Examples and what goes wrong\<close>

definition new_listener :: "nat \<Rightarrow> nat list \<Rightarrow> mp3_client" where
  "new_listener n net = \<lparr>mc_interval = n, mc_metadata_offset = 0, mc_since_meta_block = 0, mc_in_metadata = False,
     mc_associated = None, mc_pos = 0, mc_out = [], mc_net = net\<rparr>"

theorem listener_stream_decodes_witness:
  "\<exists>c. icy_listener 3 c \<lparr>mb_data = ''abcdef'', mb_associated = None\<rparr> ''abcdef''
     \<and> mc_out c = ''abc'' @ blank_metadata @ ''def'' \<and> fst (snd (icy_run 3 (Audio 3) (mc_out c))) = ''abcdef''"
proof -
  let ?r = "\<lparr>mb_data = ''abcdef'', mb_associated = None\<rparr>"
  have w: "format_mp3_write_buf_to_client ?r (new_listener 3 [3, 17, 3]) =
      Inr (23, (new_listener 3 [])\<lparr>mc_since_meta_block := 3, mc_pos := 6, mc_out := ''abc'' @ blank_metadata @ ''def''\<rparr>)"
    by (simp add: format_mp3_write_buf_to_client_def write_with_metadata_def send_mp3_def client_send_bytes_def
        send_stream_metadata_def metadata_to_send_def write_rest_def new_listener_def Let_def)
  let ?c = "(new_listener 3 [])\<lparr>mc_since_meta_block := 3, mc_pos := 6, mc_out := ''abc'' @ blank_metadata @ ''def''\<rparr>"
  have "icy_listener 3 (new_listener 3 [3, 17, 3]) ?r []" by (rule icy_listener.join) (simp_all add: assoc_wf_def new_listener_def)
  from icy_listener.writes [OF this w] have l: "icy_listener 3 ?c ?r ''abcdef''" by (simp add: new_listener_def)
  then show ?thesis using listener_stream_decodes [OF l] by (intro exI [of _ ?c]) simp
qed

text \<open>
  A block that is sent in part when its buffer ends goes on with the block of the next buffer: if
  that is another one, its bytes follow those of the first block, and if it is shorter than what was
  sent, its length becomes negative and memory behind it is sent.
\<close>

theorem metadata_change_overruns:
  assumes "0 < length d" and "length m' < k" and "k < length m"
  shows "\<exists>w c. format_mp3_write_buf_to_client \<lparr>mb_data = d, mb_associated = Some (a, m)\<rparr> (new_listener (length d) [length d, k]) = Inr (w, c)
    \<and> mc_pos c = length d
    \<and> format_mp3_write_buf_to_client \<lparr>mb_data = d', mb_associated = Some (a', m')\<rparr> (c\<lparr>mc_pos := 0\<rparr>) = Inl Out_of_bounds"
  using assms
  by (simp add: format_mp3_write_buf_to_client_def write_with_metadata_def send_mp3_def client_send_bytes_def
      send_stream_metadata_def metadata_to_send_def new_listener_def Let_def)

theorem metadata_change_overruns_witness:
  "\<exists>w c. format_mp3_write_buf_to_client \<lparr>mb_data = ''abc'', mb_associated = Some (1, pad 33 [CHR 0x02])\<rparr> (new_listener 3 [3, 20]) = Inr (w, c)
    \<and> format_mp3_write_buf_to_client \<lparr>mb_data = ''def'', mb_associated = Some (2, blank_metadata)\<rparr> (c\<lparr>mc_pos := 0\<rparr>) = Inl Out_of_bounds"
  using metadata_change_overruns [of "''abc''" blank_metadata 20 "pad 33 [CHR 0x02]" 1 "''def''" 2] by (auto simp: pad_def numeral_3_eq_3)

text \<open>
  The pointer to the URL of a block from the stream is kept when the block is replaced because of new
  tags: the next tags read it although the block may be freed.
\<close>

theorem url_pointer_dangles:
  assumes "inline_url st = Some (a, u)" and "a < next_address st" and "\<not> alive a"
    and "title_block tags (Some u) \<noteq> None" and "mp3_set_title alive tags st = Inr (st', t)"
  shows "mp3_set_title alive tags' st' = Inl Use_after_free"
  using assms by (auto simp: mp3_set_title_def split: if_splits option.splits)

theorem url_pointer_dangles_witness:
  "\<exists>st' t. mp3_set_title (\<lambda>_. False) no_tags ((fst (format_mp3_get_plugin None))\<lparr>inline_url := Some (0, streamurl @ quote_end)\<rparr>) = Inr (st', t)
     \<and> mp3_set_title (\<lambda>_. False) no_tags st' = Inl Use_after_free"
proof -
  let ?st = "(fst (format_mp3_get_plugin None))\<lparr>inline_url := Some (0, streamurl @ quote_end)\<rparr>"
  have b: "title_block no_tags (Some (streamurl @ quote_end)) \<noteq> None"
    by (simp add: title_block_def title_len_def no_tags_def opt_len_def MAX_META_LEN_def Let_def streamurl_def quote_end_def
        strstr.simps split: option.splits)
  then obtain p where "title_block no_tags (Some (streamurl @ quote_end)) = Some p" by auto
  then obtain st' t where s: "mp3_set_title (\<lambda>_. False) no_tags ?st = Inr (st', t)"
    by (simp add: mp3_set_title_def format_mp3_get_plugin_def)
  from url_pointer_dangles [OF _ _ _ b s, of 0 no_tags] s show ?thesis by (auto simp: format_mp3_get_plugin_def)
qed

section \<open>The title\<close>

text \<open>The text of the title: artist and title, or the title alone.\<close>

definition shown_title :: "mp3_tags \<Rightarrow> string" where
  "shown_title tags =
     (case (url_artist tags, url_title tags) of
        (Some a, Some t) \<Rightarrow> a @ '' - '' @ t
      | (None, Some t) \<Rightarrow> t
      | _ \<Rightarrow> [])"

lemma title_text_shown: "title_text tags = streamtitle @ shown_title tags @ quote_end"
  by (simp add: title_text_def shown_title_def split: option.splits)

lemma title_text_fits: "Suc (length (title_text tags)) \<le> title_len tags iurl"
  by (simp add: title_text_def title_len_def opt_len_def streamtitle_def quote_end_def split: option.splits)

lemma strstr_quote_end: "strstr s quote_end = None \<Longrightarrow> strstr (s @ quote_end @ r) quote_end = Some (length s)"
proof (induction s)
  case Nil
  then show ?case by (subst strstr.simps) simp
next
  case (Cons x xs)
  then have n: "take 2 (x # xs) \<noteq> quote_end" "strstr xs quote_end = None"
    by (subst (asm) strstr.simps, auto simp: quote_end_def numeral_2_eq_2 split: if_splits)+
  have "take 2 ((x # xs) @ quote_end @ r) \<noteq> quote_end"
    using n(1) by (cases xs) (auto simp: quote_end_def numeral_2_eq_2)
  then have "take (length quote_end) ((x # xs) @ quote_end @ r) \<noteq> quote_end" by (simp add: quote_end_def numeral_2_eq_2)
  with Cons.IH [OF n(2)] show ?case by (subst strstr.simps) simp
qed

text \<open>
  A block made from tags carries them: the title that is logged from the new block is the artist and
  title that were set, unless they contain the end of the quotation themselves.
\<close>

theorem title_announced:
  assumes "title_block tags iurl = Some p" and "no_nul (shown_title tags)" and "strstr (shown_title tags) quote_end = None"
  shows "filter_shoutcast_metadata p = Some (shown_title tags)"
proof -
  let ?len = "title_len tags iurl"
  define lb where "lb = (?len - 1) div 16 + 1"
  let ?siz = "lb * 16 + 1"
  have len: "?len \<le> MAX_META_LEN" using assms(1) by (simp add: title_block_def Let_def split: if_splits)
  have "?len \<le> lb * 16" by (simp add: lb_def)
  then have f: "snprintf ?siz (char_of lb # title_text tags) = char_of lb # title_text tags"
    using title_text_fits [of tags iurl] by (simp add: snprintf_def)
  obtain rest where p: "p = (char_of lb # title_text tags) @ rest"
    using assms(1) len f by (auto simp: title_block_def Let_def pad_def lb_def)
  have nn: "no_nul (title_text tags)" using assms(2)
    by (auto simp: title_text_shown no_nul_def streamtitle_def quote_end_def NUL_def)
  have app: "c_str (x @ y) = x @ c_str y" if "no_nul x" for x y
    using that by (induction x) (auto simp: c_str_def no_nul_def)
  have m: "c_str (drop 1 p) = streamtitle @ shown_title tags @ quote_end @ c_str rest"
    using app [OF nn, of rest] by (simp add: p title_text_shown)
  have l: "length streamtitle = 13" by (simp add: streamtitle_def)
  show ?thesis unfolding filter_shoutcast_metadata_def Let_def m
    using strstr_quote_end [OF assms(3), of "c_str rest"] l by (simp add: starts_with_def)
qed

theorem title_announced_witness:
  "\<exists>p. title_block \<lparr>url_artist = Some ''A'', url_title = Some ''b'', url_url = None\<rparr> None = Some p
     \<and> filter_shoutcast_metadata p = Some ''A - b''"
proof -
  let ?t = "\<lparr>url_artist = Some ''A'', url_title = Some ''b'', url_url = None\<rparr>"
  obtain p where "title_block ?t None = Some p"
    by (simp add: title_block_def title_len_def opt_len_def MAX_META_LEN_def)
  then show ?thesis using title_announced [of ?t None p]
    by (simp add: shown_title_def no_nul_def NUL_def quote_end_def strstr.simps)
qed

end
