(* ===== verification/Slave.thy ===== *)
theory Slave
  imports Source_Settings String_Tree Util_Base64 "HOL-Library.Multiset"
begin

text \<open>
  Relays, \<^verbatim>\<open>slave.c\<close>: streams the server fetches from other servers. The lists of relays come from the
  configuration and from a master server; a thread goes over them once a second, starts a thread for
  each relay that is due, collects the threads that have ended, and shuts down relays that are no
  longer listed.

  A relay's \<^verbatim>\<open>source\<close> pointer is the flag \<open>r_source\<close>; the source itself is the one in the tree under the
  relay's local mountpoint, where it stays from its reservation until the relay is freed. Threads
  are numbered in the order they are started, and \<open>sl_joined\<close> collects those that were joined. The
  other server's answers, the time, the URI parser of libxml2 and the AVL trees are arguments.
\<close>

section \<open>Relays\<close>

record relay_server =
  r_server :: string
  r_port :: int
  r_mount :: string
  r_username :: "string option"
  r_password :: "string option"
  r_localmount :: string
  r_bind :: "string option"
  r_source :: bool
  r_mp3metadata :: bool
  r_on_demand :: bool
  r_running :: bool
  r_cleanup :: bool
  r_start :: int
  r_thread :: "nat option"

record slave =
  sl_tree :: "source tree"
  sl_relays :: "relay_server list"
  sl_master_relays :: "relay_server list"
  sl_update_settings :: bool
  sl_update_all_mounts :: bool
  sl_max_interval :: nat
  sl_interval :: nat
  sl_threads :: nat
  sl_joined :: "nat list"

record slave_env =
  se_insert :: "source \<Rightarrow> source tree \<Rightarrow> source tree"
  se_delete :: "source \<Rightarrow> source tree \<Rightarrow> source tree"
  se_client_insert :: "client \<Rightarrow> client list \<Rightarrow> client list"
  se_fnm :: "string \<Rightarrow> string \<Rightarrow> bool"
  se_mounts :: "mount_proxy list"
  se_config :: settings
  se_can_open :: "string \<Rightarrow> bool"
  se_getvar :: "string \<Rightarrow> string option"
  se_contenttype :: string
  se_mount_acl :: "acl option"
  se_config_acl :: "acl option"
  se_streamed :: "relay_server \<Rightarrow> bool"

text \<open>The source of a relay, and a change of it.\<close>

definition relay_source :: "relay_server \<Rightarrow> slave \<Rightarrow> source option" where
  "relay_source r s = (if r_source r then find_raw (r_localmount r) (sl_tree s) else None)"

definition on_source :: "relay_server \<Rightarrow> (source \<Rightarrow> source) \<Rightarrow> slave \<Rightarrow> slave" where
  "on_source r f s =
     (case relay_source r s of None \<Rightarrow> s | Some src \<Rightarrow> s\<lparr>sl_tree := put_source (f src) (sl_tree s)\<rparr>)"

definition relay_free :: "slave_env \<Rightarrow> relay_server \<Rightarrow> slave \<Rightarrow> slave" where
  "relay_free E r s =
     (case relay_source r s of
        None \<Rightarrow> s
      | Some src \<Rightarrow> s\<lparr>sl_tree := se_delete E (fst (source_clear_source src)) (sl_tree s)\<rparr>)"

text \<open>The address to bind to is not copied.\<close>

definition relay_copy :: "relay_server \<Rightarrow> relay_server" where
  "relay_copy r =
     \<lparr>r_server = r_server r, r_port = r_port r, r_mount = r_mount r, r_username = r_username r,
      r_password = r_password r, r_localmount = r_localmount r, r_bind = None, r_source = False,
      r_mp3metadata = r_mp3metadata r, r_on_demand = r_on_demand r, r_running = False, r_cleanup = False,
      r_start = 0, r_thread = None\<rparr>"

definition slave_update_all_mounts :: "slave \<Rightarrow> slave" where
  "slave_update_all_mounts s = s\<lparr>sl_max_interval := 0, sl_update_all_mounts := True, sl_update_settings := True\<rparr>"

definition slave_rebuild_mounts :: "slave \<Rightarrow> slave" where
  "slave_rebuild_mounts s = s\<lparr>sl_update_settings := True\<rparr>"

section \<open>Connecting\<close>

text \<open>The authorization header; the terminating NUL is encoded with the credentials.\<close>

definition relay_authorization :: "relay_server \<Rightarrow> string" where
  "relay_authorization r =
     (case (r_username r, r_password r) of
        (Some u, Some p) \<Rightarrow>
          ''Authorization: Basic ''
          @ util_base64_encode 0 (map (\<lambda>c. word_of_nat (code c)) (u @ '':'' @ p @ [NUL])) @ [CHR 0x0D, CHR 0x0A]
      | _ \<Rightarrow> [])"

text \<open>What the other server does with the request.\<close>

datatype reply =
  No_connection
| No_header
| Bad_header
| Moved "string option"
| Http_error
| Streams

text \<open>The target of a redirect: server, port and mountpoint; None when it is not an \<^verbatim>\<open>http\<close> URI.\<close>

definition redirect_target :: "string \<Rightarrow> (string \<times> int \<times> string) option" where
  "redirect_target location =
     (if \<not> starts_with ''http://'' location then None
      else
        (let uri = drop 7 location;
             mount = (case strchr CHR ''/'' uri of None \<Rightarrow> ''/'' | Some (_, rest) \<Rightarrow> CHR ''/'' # rest);
             server = takeWhile (\<lambda>c. c \<noteq> CHR '':'' \<and> c \<noteq> CHR ''/'') uri;
             rest = drop (length server) uri;
             port = (case rest of c # cs \<Rightarrow> if c = CHR '':'' then atoi cs else 80 | [] \<Rightarrow> 80)
         in Some (server, port, mount)))"

text \<open>
  The loop over redirects. The result is where the stream was found, None when it was given up; the
  trace has the places that were asked.
\<close>

fun open_loop :: "(string \<times> int \<times> string \<Rightarrow> reply) \<Rightarrow> nat \<Rightarrow> string \<times> int \<times> string
    \<Rightarrow> fault + (string \<times> int \<times> string) option \<times> (string \<times> int \<times> string) list" where
  "open_loop ask 0 place = Inr (None, [])"
| "open_loop ask (Suc n) place =
     (case ask place of
        Moved location \<Rightarrow>
          (case location of
             None \<Rightarrow> Inl Null_deref
           | Some l \<Rightarrow>
               (case redirect_target l of
                  None \<Rightarrow> Inr (None, [place])
                | Some p \<Rightarrow>
                    (case open_loop ask n p of
                       Inl f \<Rightarrow> Inl f
                     | Inr (res, tr) \<Rightarrow> Inr (res, place # tr))))
      | Streams \<Rightarrow> Inr (Some place, [place])
      | _ \<Rightarrow> Inr (None, [place]))"

definition open_relay_connection ::
    "(string \<times> int \<times> string \<Rightarrow> reply) \<Rightarrow> relay_server \<Rightarrow> fault + (string \<times> int \<times> string) option \<times> (string \<times> int \<times> string) list" where
  "open_relay_connection ask r = open_loop ask 10 (r_server r, r_port r, r_mount r)"

section \<open>The thread of a relay\<close>

text \<open>
  After the stream has ended: the last thing \<^verbatim>\<open>source_main\<close> does is to shut its source down, then the
  relay is left for its thread to be collected.
\<close>

definition relay_stream_ended :: "slave_env \<Rightarrow> int \<Rightarrow> relay_server \<Rightarrow> slave \<Rightarrow> relay_server \<times> slave" where
  "relay_stream_ended E now r s =
     (let s = (case relay_source r s of
                 None \<Rightarrow> s
               | Some src \<Rightarrow> s\<lparr>sl_tree := fst (shutdown_listeners (se_fnm E) (se_mounts E) (se_client_insert E) src (sl_tree s))\<rparr>);
          (r, s) =
            (if \<not> r_on_demand r
             then (r\<lparr>r_start := now + 10\<rparr>,
                   slave_update_all_mounts (on_source r (\<lambda>src. src\<lparr>src_yp_public := -1\<rparr>) s))
             else (r, s))
      in (r\<lparr>r_cleanup := True\<rparr>, slave_rebuild_mounts s))"

text \<open>Moving the listeners to the fallback of a source; both are changed in the tree.\<close>

definition move_to_fallback :: "slave_env \<Rightarrow> source \<Rightarrow> source tree \<Rightarrow> source \<times> source tree" where
  "move_to_fallback E src tree =
     (case src_fallback_mount src of
        None \<Rightarrow> (src, tree)
      | Some fb \<Rightarrow>
          (case source_find_mount (se_fnm E) (se_mounts E) (Some fb) tree of
             None \<Rightarrow> (src, tree)
           | Some dest \<Rightarrow>
               (let (src, dest) = source_move_clients (se_client_insert E) src dest
                in (src, put_source dest tree))))"

text \<open>When no stream could be opened.\<close>

definition relay_failed :: "slave_env \<Rightarrow> int \<Rightarrow> relay_server \<Rightarrow> slave \<Rightarrow> relay_server \<times> slave" where
  "relay_failed E now r s =
     (case relay_source r s of
        None \<Rightarrow> (r\<lparr>r_start := now + int (sl_max_interval s), r_cleanup := True\<rparr>, s)
      | Some src \<Rightarrow>
          (let (src, tree) = move_to_fallback E src (sl_tree s);
               src = (fst (source_clear_source src))\<lparr>on_demand := False\<rparr>
           in (r\<lparr>r_start := now + int (sl_max_interval s), r_cleanup := True\<rparr>,
               s\<lparr>sl_tree := put_source src tree\<rparr>)))"

definition start_relay_stream :: "slave_env \<Rightarrow> int \<Rightarrow> bool \<Rightarrow> relay_server \<Rightarrow> slave \<Rightarrow> relay_server \<times> slave" where
  "start_relay_stream E now streamed r s =
     (if streamed then relay_stream_ended E now r s else relay_failed E now r s)"

section \<open>Checking a relay\<close>

definition update_of :: "slave_env \<Rightarrow> mount_proxy option \<Rightarrow> source \<Rightarrow> source" where
  "update_of E mountinfo src =
     fst (source_update_settings (se_config E) (se_can_open E) (se_getvar E) (se_contenttype E)
            (se_mount_acl E) (se_config_acl E) src mountinfo)"

definition mountinfo_of :: "slave_env \<Rightarrow> relay_server \<Rightarrow> mount_proxy option" where
  "mountinfo_of E r = config_find_mount (se_fnm E) (se_mounts E) (Some (r_localmount r)) MOUNT_TYPE_NORMAL"

text \<open>A new relay reserves its mountpoint. The flag tells whether to go on.\<close>

definition reserve_relay :: "slave_env \<Rightarrow> relay_server \<Rightarrow> slave \<Rightarrow> bool \<times> relay_server \<times> slave" where
  "reserve_relay E r s =
     (if r_source r then (True, r, s)
      else if take 1 (r_localmount r) \<noteq> ''/'' then (False, r, s)
      else
        (case source_reserve (se_insert E) (r_localmount r) (sl_tree s) of
           (None, _) \<Rightarrow> (False, if r_start r = 0 then r\<lparr>r_start := 1\<rparr> else r, s)
         | (Some _, tree) \<Rightarrow>
             (let r = r\<lparr>r_source := True\<rparr>; s = s\<lparr>sl_tree := tree\<rparr>
              in if r_on_demand r
                 then (True, r, slave_update_all_mounts
                         (on_source r (\<lambda>src. (if mountinfo_of E r = None then update_of E None else id)
                                               (src\<lparr>on_demand := r_on_demand r\<rparr>)) s))
                 else (True, r, s))))"

text \<open>An idle relay on demand is wanted when its fallback, which it overrides, has listeners.\<close>

definition fallback_has_listeners :: "slave_env \<Rightarrow> source \<Rightarrow> slave \<Rightarrow> bool" where
  "fallback_has_listeners E src s \<longleftrightarrow>
     src_fallback_mount src \<noteq> None \<and> src_fallback_override src \<noteq> 0
     \<and> (case source_find_mount (se_fnm E) (se_mounts E) (src_fallback_mount src) (sl_tree s) of
          None \<Rightarrow> False
        | Some fb \<Rightarrow> src_running fb \<and> n_listeners fb \<noteq> 0)"

text \<open>Whether the relay is to be started now; the demand is noted in its source.\<close>

definition relay_wanted :: "slave_env \<Rightarrow> int \<Rightarrow> relay_server \<Rightarrow> slave \<Rightarrow> bool \<times> slave" where
  "relay_wanted E now r s =
     (if r_running r \<or> r_start r > now then (False, s)
      else case relay_source r s of
        None \<Rightarrow> (False, s)
      | Some src \<Rightarrow>
          if r_on_demand r \<and> \<not> on_demand_req src then
            (let s = on_source r (\<lambda>src. src\<lparr>on_demand := r_on_demand r\<rparr>) s
             in if fallback_has_listeners E src s
                then (True, on_source r (\<lambda>src. src\<lparr>on_demand_req := True\<rparr>) s)
                else (False, s))
          else (True, s))"

text \<open>The thread of a relay.\<close>

definition held :: "relay_server \<Rightarrow> nat list" where
  "held r = (case r_thread r of None \<Rightarrow> [] | Some t \<Rightarrow> [t])"

text \<open>A thread that has ended is joined.\<close>

definition collect_relay :: "slave_env \<Rightarrow> relay_server \<Rightarrow> slave \<Rightarrow> relay_server \<times> slave" where
  "collect_relay E r s =
     (if r_cleanup r then
        (let s = s\<lparr>sl_joined := sl_joined s @ held r\<rparr>;
             r = r\<lparr>r_thread := None, r_cleanup := False, r_running := False\<rparr>
         in (r, if r_on_demand r then on_source r (update_of E (mountinfo_of E r)) s else s))
      else (r, s))"

definition check_relay_stream :: "slave_env \<Rightarrow> int \<Rightarrow> relay_server \<Rightarrow> slave \<Rightarrow> relay_server \<times> slave" where
  "check_relay_stream E now r s =
     (let (go, r, s) = reserve_relay E r s
      in if \<not> go then (r, s)
         else
           (let (wanted, s) = relay_wanted E now r s
            in if wanted
               then (r\<lparr>r_start := now + 5, r_running := True, r_thread := Some (sl_threads s)\<rparr>,
                     s\<lparr>sl_threads := Suc (sl_threads s)\<rparr>)
               else collect_relay E r s))"

section \<open>Updating the lists\<close>

text \<open>None when the relay has to be restarted; otherwise the old relay with the new \<^verbatim>\<open>on_demand\<close>.\<close>

definition relay_has_changed :: "relay_server \<Rightarrow> relay_server \<Rightarrow> relay_server option" where
  "relay_has_changed new old =
     (if r_mount new = r_mount old \<and> r_server new = r_server old \<and> r_port new = r_port old
         \<and> r_mp3metadata new = r_mp3metadata old
      then Some (old\<lparr>r_on_demand := r_on_demand new\<rparr>) else None)"

text \<open>The first relay of the list that can be kept, and the others.\<close>

fun take_existing :: "relay_server \<Rightarrow> relay_server list \<Rightarrow> (relay_server \<times> relay_server list) option" where
  "take_existing new [] = None"
| "take_existing new (old # rest) =
     (case (if r_localmount new = r_localmount old then relay_has_changed new old else None) of
        Some kept \<Rightarrow> Some (kept, rest)
      | None \<Rightarrow> map_option (\<lambda>(kept, others). (kept, old # others)) (take_existing new rest))"

fun update_relay_set :: "relay_server list \<Rightarrow> relay_server list \<Rightarrow> relay_server list \<Rightarrow> relay_server list \<times> relay_server list" where
  "update_relay_set current [] new_list = (new_list, current)"
| "update_relay_set current (relay # updated) new_list =
     (case take_existing relay current of
        None \<Rightarrow> update_relay_set current updated (relay_copy relay # new_list)
      | Some (kept, rest) \<Rightarrow> update_relay_set rest updated (kept # new_list))"

text \<open>The new list, and the relays to shut down.\<close>

definition update_relays :: "relay_server list \<Rightarrow> relay_server list \<Rightarrow> relay_server list \<times> relay_server list" where
  "update_relays relay_list new_relay_list = update_relay_set relay_list new_relay_list []"

text \<open>
  A relay that is to go: an active one is stopped and its thread joined, which first comes to its end.
  The end of a relay that could not connect takes the lock of the lists of relays, and it never comes
  while the thread that joins holds this lock.
\<close>

datatype trouble = Null_pointer | Deadlock

definition join_relay :: "slave_env \<Rightarrow> int \<Rightarrow> bool \<Rightarrow> relay_server \<Rightarrow> slave \<Rightarrow> trouble + slave" where
  "join_relay E now locked r s =
     (if r_cleanup r then Inr s
      else if locked \<and> \<not> se_streamed E r then Inl Deadlock
      else Inr (snd (start_relay_stream E now (se_streamed E r) r s)))"

definition stop_relay :: "slave_env \<Rightarrow> int \<Rightarrow> bool \<Rightarrow> relay_server \<Rightarrow> slave \<Rightarrow> trouble + slave" where
  "stop_relay E now locked r s =
     (if r_source r \<and> r_running r then
        (case join_relay E now locked r (on_source r (\<lambda>src. src\<lparr>src_running := False\<rparr>) s) of
           Inl f \<Rightarrow> Inl f
         | Inr s \<Rightarrow> Inr (relay_free E r (s\<lparr>sl_joined := sl_joined s @ held r\<rparr>)))
      else Inr (relay_free E r s))"

fun stop_relays :: "slave_env \<Rightarrow> int \<Rightarrow> bool \<Rightarrow> relay_server list \<Rightarrow> slave \<Rightarrow> trouble + slave" where
  "stop_relays E now locked [] s = Inr s"
| "stop_relays E now locked (r # rs) s =
     (case stop_relay E now locked r s of
        Inl f \<Rightarrow> Inl f
      | Inr s \<Rightarrow> stop_relays E now locked rs s)"

fun check_relays :: "slave_env \<Rightarrow> int \<Rightarrow> bool \<Rightarrow> relay_server list \<Rightarrow> slave \<Rightarrow> relay_server list \<times> slave" where
  "check_relays E now skip_timer [] s = ([], s)"
| "check_relays E now skip_timer (r # rs) s =
     (let (r, s) = check_relay_stream E now (if skip_timer then r\<lparr>r_start := 0\<rparr> else r) s;
          (rs, s) = check_relays E now skip_timer rs s
      in (r # rs, s))"

definition relay_check_streams ::
    "slave_env \<Rightarrow> int \<Rightarrow> bool \<Rightarrow> relay_server list \<Rightarrow> relay_server list \<Rightarrow> bool \<Rightarrow> slave
      \<Rightarrow> trouble + relay_server list \<times> slave" where
  "relay_check_streams E now locked to_start to_free skip_timer s =
     map_sum id (check_relays E now skip_timer to_start) (stop_relays E now locked to_free s)"

section \<open>The master server\<close>

record parsed_uri =
  u_server :: "string option"
  u_port :: int
  u_path :: "string option"

text \<open>A line of the list of streams; a URI without a path is copied from NULL.\<close>

definition master_relay :: "string \<Rightarrow> int \<Rightarrow> bool \<Rightarrow> parsed_uri \<Rightarrow> trouble + relay_server" where
  "master_relay master port od u =
     (case u_path u of
        None \<Rightarrow> Inl Null_pointer
      | Some path \<Rightarrow>
          (let (server, p) = (case u_server u of
                 Some h \<Rightarrow> (h, if u_port u = 0 then 80 else u_port u)
               | None \<Rightarrow> (master, port))
           in Inr \<lparr>r_server = server, r_port = p, r_mount = path, r_username = None, r_password = None,
                   r_localmount = path, r_bind = None, r_source = False, r_mp3metadata = True,
                   r_on_demand = od, r_running = False, r_cleanup = False, r_start = 0, r_thread = None\<rparr>))"

fun master_list :: "(string \<Rightarrow> parsed_uri option) \<Rightarrow> string \<Rightarrow> int \<Rightarrow> bool \<Rightarrow> string list \<Rightarrow> relay_server list \<Rightarrow> trouble + relay_server list" where
  "master_list parse master port od [] new_relays = Inr new_relays"
| "master_list parse master port od (l # ls) new_relays =
     (if l = [] then master_list parse master port od ls new_relays
      else case parse l of
        None \<Rightarrow> master_list parse master port od ls new_relays
      | Some u \<Rightarrow>
          (case master_relay master port od u of
             Inl f \<Rightarrow> Inl f
           | Inr r \<Rightarrow> master_list parse master port od ls (r # new_relays)))"

record master_config =
  mc_server :: "string option"
  mc_port :: int
  mc_password :: "string option"
  mc_on_demand :: bool
  mc_update_interval :: nat

text \<open>The list of the master is taken over under the lock of the relays; then it is freed.\<close>

definition take_master_list :: "slave_env \<Rightarrow> int \<Rightarrow> relay_server list \<Rightarrow> slave \<Rightarrow> trouble + slave" where
  "take_master_list E now new_relays s =
     (let (active, cleanup) = update_relays (sl_master_relays s) new_relays
      in case relay_check_streams E now True active cleanup False (s\<lparr>sl_master_relays := active\<rparr>) of
           Inl f \<Rightarrow> Inl f
         | Inr (active, s) \<Rightarrow>
             map_sum id (\<lambda>(_, s). s\<lparr>sl_master_relays := active\<rparr>)
               (relay_check_streams E now True [] new_relays False s))"

text \<open>
  \<open>answer\<close> is the body of the master's answer, None when there is none or it refuses.
\<close>

definition update_from_master ::
    "slave_env \<Rightarrow> int \<Rightarrow> (string \<Rightarrow> parsed_uri option) \<Rightarrow> string list option \<Rightarrow> master_config \<Rightarrow> slave \<Rightarrow> trouble + slave" where
  "update_from_master E now parse answer cfg s =
     (case (mc_password cfg, mc_server cfg) of
        (Some _, Some master) \<Rightarrow>
          if mc_port cfg = 0 then Inr s
          else (case answer of
                  None \<Rightarrow> Inr s
                | Some ls \<Rightarrow>
                    (case master_list parse master (mc_port cfg) (mc_on_demand cfg) ls [] of
                       Inl f \<Rightarrow> Inl f
                     | Inr new_relays \<Rightarrow> take_master_list E now new_relays s))
      | _ \<Rightarrow> Inr s)"

text \<open>
  One round of the thread, after the sleep: \<open>relays\<close> are those of the configuration. When settings have
  changed \<^verbatim>\<open>source_recheck_mounts\<close>, which works on the sources and the statistics only, is called; the
  result tells how.
\<close>

definition update_lists ::
    "slave_env \<Rightarrow> int \<Rightarrow> (string \<Rightarrow> parsed_uri option) \<Rightarrow> string list option \<Rightarrow> master_config \<Rightarrow> relay_server list \<Rightarrow> slave
      \<Rightarrow> trouble + bool \<times> relay_server list \<times> slave" where
  "update_lists E now parse answer cfg relays s =
     (if sl_max_interval s \<le> sl_interval s
      then (let skip = (sl_max_interval s = 0);
                s = s\<lparr>sl_interval := 0, sl_max_interval := mc_update_interval cfg\<rparr>
            in case update_from_master E now parse answer cfg s of
                 Inl f \<Rightarrow> Inl f
               | Inr s \<Rightarrow>
                   (let (active, cleanup) = update_relays (sl_relays s) relays
                    in Inr (skip, cleanup, s\<lparr>sl_relays := active\<rparr>)))
      else Inr (False, [], s))"

definition check_all :: "slave_env \<Rightarrow> int \<Rightarrow> bool \<Rightarrow> relay_server list \<Rightarrow> slave \<Rightarrow> trouble + slave" where
  "check_all E now skip_timer cleanup s =
     (case relay_check_streams E now True (sl_relays s) cleanup skip_timer s of
        Inl f \<Rightarrow> Inl f
      | Inr (rs, s) \<Rightarrow>
          (let s = s\<lparr>sl_relays := rs\<rparr>
           in map_sum id (\<lambda>(ms, s). s\<lparr>sl_master_relays := ms\<rparr>)
                (relay_check_streams E now True (sl_master_relays s) [] skip_timer s)))"

definition recheck_mounts :: "slave \<Rightarrow> bool option \<times> slave" where
  "recheck_mounts s =
     (if sl_update_settings s
      then (Some (sl_update_all_mounts s), s\<lparr>sl_update_settings := False, sl_update_all_mounts := False\<rparr>)
      else (None, s))"

definition slave_round ::
    "slave_env \<Rightarrow> int \<Rightarrow> (string \<Rightarrow> parsed_uri option) \<Rightarrow> string list option \<Rightarrow> master_config \<Rightarrow> relay_server list \<Rightarrow> slave
      \<Rightarrow> trouble + bool option \<times> slave" where
  "slave_round E now parse answer cfg relays s =
     (case update_lists E now parse answer cfg relays (s\<lparr>sl_interval := Suc (sl_interval s)\<rparr>) of
        Inl f \<Rightarrow> Inl f
      | Inr (skip, cleanup, s) \<Rightarrow> map_sum id recheck_mounts (check_all E now skip cleanup s))"

text \<open>When the server stops the lists are freed, without the lock.\<close>

definition slave_stop :: "slave_env \<Rightarrow> int \<Rightarrow> slave \<Rightarrow> trouble + slave" where
  "slave_stop E now s =
     (case relay_check_streams E now False [] (sl_relays s) False s of
        Inl f \<Rightarrow> Inl f
      | Inr (_, s) \<Rightarrow> map_sum id snd (relay_check_streams E now False [] (sl_master_relays s) False s))"

definition slave_initialize :: "source tree \<Rightarrow> slave" where
  "slave_initialize tree =
     \<lparr>sl_tree = tree, sl_relays = [], sl_master_relays = [], sl_update_settings = False,
      sl_update_all_mounts = False, sl_max_interval = 0, sl_interval = 0, sl_threads = 0, sl_joined = []\<rparr>"

end
