(* ===== verification/Relays.thy ===== *)
theory Relays
  imports Slave
begin

text \<open>
  What the relays of \<^verbatim>\<open>slave.c\<close> promise. The lists are brought up to date in place: a relay whose
  place in the configuration has not changed keeps its thread and its source. Every thread that was
  started is held by exactly one relay or has been joined once, through all rounds and all ways a thread
  can end, and at the end all are joined. A relay that is removed while it still connects can block the
  whole server. The search for a stream follows at most ten redirects.
\<close>

section \<open>Updating a list\<close>

text \<open>What makes a relay the same relay.\<close>

definition ident :: "relay_server \<Rightarrow> string \<times> string \<times> string \<times> int \<times> bool" where
  "ident r = (r_localmount r, r_mount r, r_server r, r_port r, r_mp3metadata r)"

definition kept_as :: "relay_server \<Rightarrow> relay_server \<Rightarrow> relay_server" where
  "kept_as n r = r\<lparr>r_on_demand := r_on_demand n\<rparr>"

lemma take_existing_Cons:
  "take_existing n (r # rs) =
     (if ident n = ident r then Some (kept_as n r, rs)
      else map_option (\<lambda>(kept, others). (kept, r # others)) (take_existing n rs))"
  by (auto simp: relay_has_changed_def ident_def kept_as_def)

declare take_existing.simps(2) [simp del]

declare take_existing_Cons [simp]

lemma take_existing_Some:
  "take_existing n rs = Some (k, rest) \<Longrightarrow>
     \<exists>r as bs. rs = as @ r # bs \<and> rest = as @ bs \<and> ident r = ident n \<and> k = kept_as n r"
proof (induction rs arbitrary: rest)
  case (Cons r rs)
  show ?case
  proof (cases "ident n = ident r")
    case True
    with Cons.prems have "r # rs = [] @ r # rs \<and> rest = [] @ rs \<and> ident r = ident n \<and> k = kept_as n r" by simp
    then show ?thesis by blast
  next
    case False
    with Cons.prems obtain rest' where r: "take_existing n rs = Some (k, rest')" "rest = r # rest'" by auto
    from Cons.IH [OF r(1)] obtain x as bs
      where x: "rs = as @ x # bs" "rest' = as @ bs" "ident x = ident n" "k = kept_as n x" by blast
    then have "r # rs = (r # as) @ x # bs \<and> rest = (r # as) @ bs" using r(2) by simp
    with x show ?thesis by blast
  qed
qed simp

lemma take_existing_None: "take_existing n rs = None \<longleftrightarrow> ident n \<notin> ident ` set rs"
  by (induction rs) auto

lemma take_existing_distinct:
  "distinct (map ident rs) \<Longrightarrow>
     take_existing n rs =
       map_option (\<lambda>r. (kept_as n r, filter (\<lambda>r. ident r \<noteq> ident n) rs)) (find (\<lambda>r. ident r = ident n) rs)"
proof (induction rs)
  case (Cons r rs)
  show ?case
  proof (cases "ident r = ident n")
    case True
    then have "filter (\<lambda>r. ident r \<noteq> ident n) rs = rs"
      using Cons.prems by (intro filter_True) (auto simp: image_iff)
    with True show ?thesis by simp
  next
    case False
    then show ?thesis using Cons by (cases "find (\<lambda>r. ident r = ident n) rs") auto
  qed
qed simp

lemma find_filter_other:
  "ident n \<noteq> ident m \<Longrightarrow>
     find (\<lambda>r. ident r = ident m) (filter (\<lambda>r. ident r \<noteq> ident n) rs) = find (\<lambda>r. ident r = ident m) rs"
  by (induction rs) auto

text \<open>The reference: each configured relay looks for its old one in the whole old list.\<close>

definition renewed :: "relay_server list \<Rightarrow> relay_server \<Rightarrow> relay_server" where
  "renewed old n = (case find (\<lambda>r. ident r = ident n) old of None \<Rightarrow> relay_copy n | Some r \<Rightarrow> kept_as n r)"

lemma filter_keeps_distinct: "distinct (map ident rs) \<Longrightarrow> distinct (map ident (filter P rs))"
  by (induction rs) auto

lemma renewed_filter: "ident n \<noteq> ident m \<Longrightarrow> renewed (filter (\<lambda>r. ident r \<noteq> ident n) old) m = renewed old m"
  by (simp add: renewed_def find_filter_other)

lemma update_relay_set_reference:
  "distinct (map ident old) \<Longrightarrow> distinct (map ident new) \<Longrightarrow>
     update_relay_set old new acc
       = (rev (map (renewed old) new) @ acc, filter (\<lambda>r. ident r \<notin> ident ` set new) old)"
proof (induction new arbitrary: old acc)
  case (Cons n new)
  let ?old = "filter (\<lambda>r. ident r \<noteq> ident n) old"
  have same: "map (renewed ?old) new = map (renewed old) new"
    using Cons.prems(2) by (intro map_cong refl renewed_filter) (auto simp: image_iff)
  show ?case
  proof (cases "find (\<lambda>r. ident r = ident n) old")
    case None
    then have "ident r \<noteq> ident n" if "r \<in> set old" for r using that by (auto simp: find_None_iff)
    then have "filter (\<lambda>r. ident r \<notin> ident ` set (n # new)) old = filter (\<lambda>r. ident r \<notin> ident ` set new) old"
      by (intro filter_cong refl) auto
    moreover have "map (renewed old) (n # new) = relay_copy n # map (renewed old) new" using None by (simp add: renewed_def)
    moreover have "take_existing n old = None" using None Cons.prems(1) by (simp add: take_existing_distinct)
    ultimately show ?thesis using Cons.IH [OF Cons.prems(1), of "relay_copy n # acc"] Cons.prems(2) by simp
  next
    case (Some r)
    have "filter (\<lambda>r. ident r \<notin> ident ` set new) ?old = filter (\<lambda>r. ident r \<notin> ident ` set (n # new)) old"
      by (auto simp: conj_commute intro: filter_cong)
    moreover have "map (renewed old) (n # new) = kept_as n r # map (renewed ?old) new"
      using Some same by (simp add: renewed_def [of old n])
    moreover have "take_existing n old = Some (kept_as n r, ?old)"
      using Some Cons.prems(1) by (simp add: take_existing_distinct)
    ultimately show ?thesis
      using Cons.IH [OF filter_keeps_distinct [OF Cons.prems(1)], of _ "kept_as n r # acc"] Cons.prems(2) by simp
  qed
qed simp


text \<open>Two configured relays, of which one is running.\<close>

definition demo_relay :: "string \<Rightarrow> string \<Rightarrow> relay_server" where
  "demo_relay host mount =
     \<lparr>r_server = host, r_port = 8000, r_mount = mount, r_username = None, r_password = None, r_localmount = mount,
      r_bind = None, r_source = False, r_mp3metadata = True, r_on_demand = False, r_running = False,
      r_cleanup = False, r_start = 0, r_thread = None\<rparr>"

definition demo_running :: "nat \<Rightarrow> string \<Rightarrow> string \<Rightarrow> relay_server" where
  "demo_running t host mount = (demo_relay host mount)\<lparr>r_source := True, r_running := True, r_thread := Some t\<rparr>"


section \<open>Threads\<close>

text \<open>The threads the relays of a list hold; one relay is in order when its flags agree with its thread.\<close>

abbreviation held_by :: "relay_server list \<Rightarrow> nat multiset" where
  "held_by rs \<equiv> mset (concat (map held rs))"

definition relay_ok :: "relay_server \<Rightarrow> bool" where
  "relay_ok r \<longleftrightarrow> (r_running r \<longleftrightarrow> r_thread r \<noteq> None) \<and> (r_cleanup r \<longrightarrow> r_running r) \<and> (r_running r \<longrightarrow> r_source r)"

lemma relay_ok_start [simp]: "relay_ok (r\<lparr>r_start := t\<rparr>) = relay_ok r" "held (r\<lparr>r_start := t\<rparr>) = held r"
  by (simp_all add: relay_ok_def held_def)

lemma relay_ok_kept_as [simp]: "relay_ok (kept_as n r) = relay_ok r" "held (kept_as n r) = held r"
  by (simp_all add: relay_ok_def held_def kept_as_def)

lemma relay_ok_copy [simp]: "relay_ok (relay_copy r)" "held (relay_copy r) = []"
  by (simp_all add: relay_ok_def held_def relay_copy_def)

text \<open>The threads that are accounted for: joined, or held by one of the relays.\<close>

definition threads_ok :: "relay_server list \<Rightarrow> slave \<Rightarrow> bool" where
  "threads_ok rs s \<longleftrightarrow>
     (\<forall>r\<in>set rs. relay_ok r) \<and> mset (sl_joined s) + held_by rs = mset [0..<sl_threads s]"

definition lists_of :: "slave \<Rightarrow> relay_server list" where
  "lists_of s = sl_relays s @ sl_master_relays s"

text \<open>What an operation that starts and joins no thread leaves alone.\<close>

definition same_threads :: "slave \<Rightarrow> slave \<Rightarrow> bool" where
  "same_threads s s' \<longleftrightarrow> sl_joined s' = sl_joined s \<and> sl_threads s' = sl_threads s
     \<and> sl_relays s' = sl_relays s \<and> sl_master_relays s' = sl_master_relays s"

lemma same_threads_refl [simp]: "same_threads s s"
  by (simp add: same_threads_def)

lemma same_threads_trans: "same_threads s t \<Longrightarrow> same_threads t u \<Longrightarrow> same_threads s u"
  by (simp add: same_threads_def)

lemma same_on_source [simp]: "same_threads s (on_source r f s)"
  by (simp add: same_threads_def on_source_def split: option.split)

lemma same_update_all [simp]: "same_threads s (slave_update_all_mounts t) = same_threads s t"
  by (simp add: same_threads_def slave_update_all_mounts_def)

lemma same_rebuild [simp]: "same_threads s (slave_rebuild_mounts t) = same_threads s t"
  by (simp add: same_threads_def slave_rebuild_mounts_def)

lemma same_tree [simp]: "same_threads s (t\<lparr>sl_tree := x\<rparr>) = same_threads s t" "same_threads (s\<lparr>sl_tree := x\<rparr>) t = same_threads s t"
  by (simp_all add: same_threads_def)

lemma same_relay_free [simp]: "same_threads s (relay_free E r s)"
  by (simp add: relay_free_def split: option.split)

lemma same_threads_ok: "same_threads s s' \<Longrightarrow> threads_ok rs s' = threads_ok rs s"
  by (simp add: threads_ok_def same_threads_def)

lemma same_lists: "same_threads s s' \<Longrightarrow> lists_of s' = lists_of s"
  by (simp add: lists_of_def same_threads_def)

text \<open>The end of a relay's thread leaves the thread to be collected.\<close>

lemma start_relay_stream_end:
  assumes "start_relay_stream E now streamed r s = (r', s')" and "relay_ok r" and "r_running r"
  shows "relay_ok r'" and "held r' = held r" and "r_cleanup r'" and "same_threads s s'"
proof -
  have m: "r_running r' = r_running r \<and> r_thread r' = r_thread r \<and> r_source r' = r_source r \<and> r_cleanup r' \<and> same_threads s s'"
  proof (cases streamed)
    case True
    let ?s = "case relay_source r s of None \<Rightarrow> s | Some src \<Rightarrow>
        s\<lparr>sl_tree := fst (shutdown_listeners (se_fnm E) (se_mounts E) (se_client_insert E) src (sl_tree s))\<rparr>"
    have "same_threads s ?s" by (simp split: option.split)
    then have "same_threads s (on_source r f ?s)" for f using same_threads_trans same_on_source by blast
    then show ?thesis using assms(1) True \<open>same_threads s ?s\<close>
      by (auto simp: start_relay_stream_def relay_stream_ended_def Let_def split: if_splits)
  next
    case False
    then show ?thesis using assms(1)
      by (auto simp: start_relay_stream_def relay_failed_def Let_def split: option.splits prod.splits)
  qed
  then show "relay_ok r'" "held r' = held r" "r_cleanup r'" "same_threads s s'"
    using assms(2,3) by (auto simp: relay_ok_def held_def)
qed

lemma threads_ok_perm: "mset rs = mset rs' \<Longrightarrow> threads_ok rs s = threads_ok rs' s"
proof -
  assume m: "mset rs = mset rs'"
  have "held_by rs = \<Sum>\<^sub># (image_mset (\<lambda>r. mset (held r)) (mset rs))" for rs
    by (induction rs) simp_all
  with m have "held_by rs = held_by rs'" by simp
  moreover from m have "set rs = set rs'" by (rule mset_eq_setD)
  ultimately show ?thesis by (simp add: threads_ok_def)
qed

lemma threads_ok_Cons:
  "threads_ok (r # rs) s \<longleftrightarrow> relay_ok r \<and> (\<forall>r\<in>set rs. relay_ok r)
     \<and> mset (sl_joined s) + mset (held r) + held_by rs = mset [0..<sl_threads s]"
  by (simp add: threads_ok_def add.assoc)

definition lists_kept :: "slave \<Rightarrow> slave \<Rightarrow> bool" where
  "lists_kept s s' \<longleftrightarrow> sl_relays s' = sl_relays s \<and> sl_master_relays s' = sl_master_relays s"

lemma lists_kept_trans: "lists_kept s t \<Longrightarrow> lists_kept t u \<Longrightarrow> lists_kept s u"
  by (simp add: lists_kept_def)

lemma same_lists_kept: "same_threads s s' \<Longrightarrow> lists_kept s s'"
  by (simp add: lists_kept_def same_threads_def)

lemma reserve_relay_threads:
  assumes "reserve_relay E r s = (go, r', s')"
  shows "same_threads s s'" and "r_thread r' = r_thread r" and "r_running r' = r_running r"
    and "r_cleanup r' = r_cleanup r" and "r_source r \<longrightarrow> r_source r'" and "go \<longrightarrow> r_source r'"
proof -
  have k: "same_threads s (on_source q f (s\<lparr>sl_tree := t\<rparr>))" for q f t
    using same_on_source [of "s\<lparr>sl_tree := t\<rparr>" q f] by (simp only: same_tree)
  have "same_threads s s' \<and> r_thread r' = r_thread r \<and> r_running r' = r_running r \<and> r_cleanup r' = r_cleanup r
      \<and> (r_source r \<longrightarrow> r_source r') \<and> (go \<longrightarrow> r_source r')"
    using assms k by (auto simp: reserve_relay_def Let_def split: if_splits option.splits prod.splits)
  then show "same_threads s s'" and "r_thread r' = r_thread r" and "r_running r' = r_running r"
    and "r_cleanup r' = r_cleanup r" and "r_source r \<longrightarrow> r_source r'" and "go \<longrightarrow> r_source r'" by blast+
qed

lemma relay_wanted_threads:
  assumes "relay_wanted E now r s = (wanted, s')"
  shows "same_threads s s'" and "wanted \<longrightarrow> \<not> r_running r"
proof -
  have k: "same_threads s (on_source q f (on_source q' f' s))" for q f q' f'
    using same_threads_trans [OF same_on_source same_on_source] .
  have "same_threads s s' \<and> (wanted \<longrightarrow> \<not> r_running r)"
    using assms k by (auto simp: relay_wanted_def Let_def split: if_splits option.splits)
  then show "same_threads s s'" and "wanted \<longrightarrow> \<not> r_running r" by blast+
qed

lemma collect_relay_threads:
  assumes "threads_ok (r # X) s" and "collect_relay E r s = (r', s')"
  shows "threads_ok (r' # X) s'" and "lists_kept s s'"
proof -
  let ?s = "s\<lparr>sl_joined := sl_joined s @ held r\<rparr>" and ?r = "r\<lparr>r_thread := None, r_cleanup := False, r_running := False\<rparr>"
  have "threads_ok (r' # X) s' \<and> lists_kept s s'"
  proof (cases "r_cleanup r")
    case True
    then have r: "r' = ?r" "s' = (if r_on_demand r then on_source ?r (update_of E (mountinfo_of E ?r)) ?s else ?s)"
      using assms(2) by (simp_all add: collect_relay_def Let_def split: if_splits)
    then have "same_threads ?s s'" by simp
    moreover have "threads_ok (?r # X) ?s"
      using assms(1) by (simp add: threads_ok_Cons relay_ok_def [of ?r] held_def [of ?r])
    moreover have "lists_kept s ?s" by (simp add: lists_kept_def)
    ultimately show ?thesis using r(1) same_threads_ok lists_kept_trans same_lists_kept by blast
  next
    case False
    then show ?thesis using assms by (simp add: collect_relay_def lists_kept_def)
  qed
  then show "threads_ok (r' # X) s'" and "lists_kept s s'" by blast+
qed

lemma check_relay_stream_threads:
  assumes "threads_ok (r # X) s" and "check_relay_stream E now r s = (r', s')"
  shows "threads_ok (r' # X) s' \<and> lists_kept s s'"
proof -
  obtain go r1 s1 where 1: "reserve_relay E r s = (go, r1, s1)" by (cases "reserve_relay E r s")
  obtain wanted s2 where 2: "relay_wanted E now r1 s1 = (wanted, s2)" by fastforce
  note f1 = reserve_relay_threads [OF 1] and f2 = relay_wanted_threads [OF 2]
  have ok1: "threads_ok (r1 # X) s1" "threads_ok (r1 # X) s2" and k: "lists_kept s s1" "lists_kept s s2"
  proof -
    have "threads_ok (r1 # X) s" using assms(1) f1(2-5) by (auto simp: threads_ok_Cons relay_ok_def held_def)
    then show "threads_ok (r1 # X) s1" "threads_ok (r1 # X) s2" "lists_kept s s1" "lists_kept s s2"
      using same_threads_ok f1(1) f2(1) same_lists_kept lists_kept_trans by blast+
  qed
  consider "\<not> go" "r' = r1" "s' = s1" | "go" "\<not> wanted" "collect_relay E r1 s2 = (r', s')"
    | "go" "wanted" "r' = r1\<lparr>r_start := now + 5, r_running := True, r_thread := Some (sl_threads s2)\<rparr>"
        "s' = s2\<lparr>sl_threads := Suc (sl_threads s2)\<rparr>"
    using assms(2) 1 2 by (auto simp: check_relay_stream_def split: if_splits)
  then show ?thesis
  proof cases
    case 1
    then show ?thesis using ok1(1) k(1) by simp
  next
    case 2
    then show ?thesis using collect_relay_threads [OF ok1(2)] k(2) lists_kept_trans by blast
  next
    case 3
    then have "held r1 = []" using ok1(2) f2(2) by (auto simp: threads_ok_Cons relay_ok_def held_def)
    moreover have "relay_ok r'" "held r' = [sl_threads s2]" using 3 f1(6) by (simp_all add: relay_ok_def held_def)
    moreover have "lists_kept s s'" using k(2) 3(4) by (simp add: lists_kept_def)
    ultimately show ?thesis using 3(4) ok1(2) by (simp add: threads_ok_Cons)
  qed
qed

lemma check_relays_threads:
  "threads_ok (rs @ X) s \<Longrightarrow> check_relays E now skip rs s = (rs', s') \<Longrightarrow>
     threads_ok (rs' @ X) s' \<and> lists_kept s s' \<and> length rs' = length rs"
proof (induction rs arbitrary: X s rs')
  case Nil
  then show ?case by (simp add: lists_kept_def)
next
  case (Cons r rs)
  let ?r = "if skip then r\<lparr>r_start := 0\<rparr> else r"
  obtain r1 s1 where 1: "check_relay_stream E now ?r s = (r1, s1)" by fastforce
  obtain rs2 where 2: "check_relays E now skip rs s1 = (rs2, s')" "rs' = r1 # rs2"
    using Cons.prems(2) 1 by (auto simp: Let_def split: prod.splits)
  have "threads_ok (?r # rs @ X) s"
    using Cons.prems(1) by (simp add: threads_ok_Cons)
  from check_relay_stream_threads [OF this 1] have 3: "threads_ok (r1 # rs @ X) s1" "lists_kept s s1" by blast+
  then have "threads_ok (rs @ r1 # X) s1" by (subst threads_ok_perm [of _ "r1 # rs @ X"]) simp_all
  from Cons.IH [OF this 2(1)] have 4: "threads_ok (rs2 @ r1 # X) s'" "lists_kept s1 s'" "length rs2 = length rs" by blast+
  then have "threads_ok (rs' @ X) s'" by (subst threads_ok_perm [of _ "rs2 @ r1 # X"]) (simp_all add: 2(2))
  with 3(2) 4(2,3) 2(2) show ?case using lists_kept_trans by auto
qed

lemma join_relay_threads: "join_relay E now locked r s = Inr s' \<Longrightarrow> relay_ok r \<Longrightarrow> r_running r \<Longrightarrow> same_threads s s'"
  using start_relay_stream_end(4) [of E now "se_streamed E r" r s "fst (start_relay_stream E now (se_streamed E r) r s)"]
  by (auto simp: join_relay_def split: if_splits)

lemma stop_relay_threads:
  assumes "threads_ok (r # X) s" and "stop_relay E now locked r s = Inr s'"
  shows "threads_ok X s' \<and> lists_kept s s'"
proof (cases "r_source r \<and> r_running r")
  case True
  let ?s = "on_source r (\<lambda>src. src\<lparr>src_running := False\<rparr>) s"
  obtain t where t: "join_relay E now locked r ?s = Inr t" "s' = relay_free E r (t\<lparr>sl_joined := sl_joined t @ held r\<rparr>)"
    using assms(2) True by (auto simp: stop_relay_def split: sum.splits)
  have "same_threads ?s t" using join_relay_threads [OF t(1)] assms(1) True by (auto simp: threads_ok_Cons)
  then have st: "same_threads s t" using same_threads_trans same_on_source by blast
  then have "threads_ok (r # X) t" using assms(1) same_threads_ok by blast
  then have "threads_ok X (t\<lparr>sl_joined := sl_joined t @ held r\<rparr>)" by (simp add: threads_ok_def add.assoc)
  moreover have "lists_kept t (t\<lparr>sl_joined := sl_joined t @ held r\<rparr>)" by (simp add: lists_kept_def)
  ultimately show ?thesis
    using t(2) st same_relay_free same_threads_ok same_lists_kept lists_kept_trans by metis
next
  case False
  then have "held r = []" using assms(1) by (auto simp: threads_ok_Cons relay_ok_def held_def)
  then have "threads_ok X s" using assms(1) by (simp add: threads_ok_Cons threads_ok_def)
  moreover have "s' = relay_free E r s" using assms(2) False by (auto simp: stop_relay_def split: if_splits)
  ultimately show ?thesis using same_relay_free same_threads_ok same_lists_kept by metis
qed

lemma stop_relays_threads:
  "threads_ok (rs @ X) s \<Longrightarrow> stop_relays E now locked rs s = Inr s' \<Longrightarrow> threads_ok X s' \<and> lists_kept s s'"
proof (induction rs arbitrary: s)
  case Nil
  then show ?case by (simp add: lists_kept_def)
next
  case (Cons r rs)
  then obtain t where t: "stop_relay E now locked r s = Inr t" "stop_relays E now locked rs t = Inr s'"
    by (auto split: sum.splits)
  from stop_relay_threads [OF _ t(1), of "rs @ X"] Cons.prems(1)
  have "threads_ok (rs @ X) t" "lists_kept s t" by auto
  with Cons.IH [OF _ t(2)] show ?case using lists_kept_trans by blast
qed

lemma relay_check_streams_threads:
  assumes "threads_ok (to_free @ to_start @ X) s"
    and "relay_check_streams E now locked to_start to_free skip s = Inr (rs', s')"
  shows "threads_ok (rs' @ X) s'" and "lists_kept s s'"
proof -
  obtain t where t: "stop_relays E now locked to_free s = Inr t" "check_relays E now skip to_start t = (rs', s')"
    using assms(2) by (cases "stop_relays E now locked to_free s") (auto simp: relay_check_streams_def)
  show "threads_ok (rs' @ X) s'" "lists_kept s s'"
    using stop_relays_threads [OF assms(1) t(1)] check_relays_threads [OF _ t(2)] lists_kept_trans by blast+
qed

text \<open>Bringing a list up to date loses no thread, even when a relay is listed twice.\<close>

lemma update_relay_set_threads:
  "threads_ok (current @ acc @ X) s \<Longrightarrow> update_relay_set current new acc = (keep, cleanup) \<Longrightarrow>
     threads_ok (cleanup @ keep @ X) s"
proof (induction new arbitrary: current acc)
  case Nil
  then show ?case by (simp add: threads_ok_def)
next
  case (Cons n new)
  show ?case
  proof (cases "take_existing n current")
    case None
    have "threads_ok (current @ (relay_copy n # acc) @ X) s"
      using Cons.prems(1) by (simp add: threads_ok_def)
    from Cons.IH [OF this] show ?thesis using Cons.prems(2) None by simp
  next
    case (Some p)
    obtain k rest where p: "p = (k, rest)" by (cases p)
    obtain r as bs where r: "current = as @ r # bs" "rest = as @ bs" "k = kept_as n r"
      using take_existing_Some [of n current k rest] Some p by blast
    have "threads_ok (rest @ (k # acc) @ X) s"
      using Cons.prems(1) unfolding threads_ok_def r by (simp add: ac_simps)
    from Cons.IH [OF this] show ?thesis using Cons.prems(2) Some p by simp
  qed
qed

lemma update_relays_threads:
  "threads_ok (old @ X) s \<Longrightarrow> update_relays old new = (keep, cleanup) \<Longrightarrow> threads_ok (cleanup @ keep @ X) s"
  using update_relay_set_threads [of old "[]" X s new] by (simp add: update_relays_def)

lemma master_relay_fresh: "master_relay m p d u = Inr r \<Longrightarrow> relay_ok r \<and> held r = [] \<and> \<not> r_running r"
  by (auto simp: master_relay_def relay_ok_def held_def Let_def split: option.splits prod.splits)

lemma master_list_fresh:
  "master_list parse m p d ls acc = Inr rs \<Longrightarrow> \<forall>r\<in>set acc. relay_ok r \<and> held r = [] \<Longrightarrow>
     \<forall>r\<in>set rs. relay_ok r \<and> held r = []"
proof (induction ls arbitrary: acc)
  case (Cons l ls)
  show ?case
  proof (cases "l = [] \<or> parse l = None")
    case True
    then have "master_list parse m p d ls acc = Inr rs" using Cons.prems(1) by (cases "l = []") simp_all
    from Cons.IH [OF this Cons.prems(2)] show ?thesis .
  next
    case False
    then obtain u where u: "parse l = Some u" "l \<noteq> []" by auto
    then obtain r where r: "master_relay m p d u = Inr r" using Cons.prems(1) by (auto split: sum.splits)
    with u Cons.prems have "master_list parse m p d ls (r # acc) = Inr rs" by simp
    from Cons.IH [OF this] show ?thesis using master_relay_fresh [OF r] Cons.prems(2) by simp
  qed
qed simp

lemma threads_ok_fresh: "\<forall>r\<in>set rs. relay_ok r \<and> held r = [] \<Longrightarrow> threads_ok (rs @ X) s = threads_ok X s"
  by (induction rs) (simp_all add: threads_ok_def)

lemma take_master_list_threads:
  assumes "threads_ok (lists_of s) s" and "take_master_list E now rs s = Inr s'"
    and "\<forall>r\<in>set rs. relay_ok r \<and> held r = []"
  shows "threads_ok (lists_of s') s'"
proof -
  obtain keep cleanup where u: "update_relays (sl_master_relays s) rs = (keep, cleanup)" by fastforce
  let ?s = "s\<lparr>sl_master_relays := keep\<rparr>"
  obtain a1 s1 where c1: "relay_check_streams E now True keep cleanup False ?s = Inr (a1, s1)"
    and c2: "map_sum id (\<lambda>(_, s). s\<lparr>sl_master_relays := a1\<rparr>) (relay_check_streams E now True [] rs False s1) = Inr s'"
    using assms(2) u by (auto simp: take_master_list_def split: sum.splits)
  obtain a2 s2 where c2': "relay_check_streams E now True [] rs False s1 = Inr (a2, s2)" "s' = s2\<lparr>sl_master_relays := a1\<rparr>"
    using c2 by (cases "relay_check_streams E now True [] rs False s1") auto
  have "threads_ok (sl_master_relays s @ sl_relays s) s"
    using assms(1) by (subst threads_ok_perm [of _ "lists_of s"]) (simp_all add: lists_of_def)
  from update_relays_threads [OF this u] have "threads_ok (cleanup @ keep @ sl_relays s) ?s" by (simp add: threads_ok_def)
  note k1 = relay_check_streams_threads [OF this c1]
  then have "threads_ok (rs @ [] @ a1 @ sl_relays s) s1" using threads_ok_fresh [OF assms(3)] by simp
  note k2 = relay_check_streams_threads [OF this c2'(1)]
  have "a2 = []" using c2'(1) by (cases "stop_relays E now True rs s1") (auto simp: relay_check_streams_def)
  with k2 have "threads_ok (a1 @ sl_relays s) s2" by simp
  moreover have "sl_relays s2 = sl_relays s" using k1(2) k2(2) by (simp add: lists_kept_def)
  ultimately have "threads_ok (a1 @ sl_relays s2) s'" using c2'(2) by (simp add: threads_ok_def)
  then show ?thesis by (subst threads_ok_perm [of _ "a1 @ sl_relays s2"]) (simp_all add: lists_of_def c2'(2))
qed

lemma update_from_master_cases:
  "update_from_master E now parse answer cfg s = Inr s' \<Longrightarrow>
     s' = s \<or> (\<exists>master ls rs. master_list parse master (mc_port cfg) (mc_on_demand cfg) ls [] = Inr rs
                 \<and> take_master_list E now rs s = Inr s')"
  by (force simp: update_from_master_def split: option.splits if_splits sum.splits)

lemma update_from_master_threads:
  assumes "threads_ok (lists_of s) s" and "update_from_master E now parse answer cfg s = Inr s'"
  shows "threads_ok (lists_of s') s'"
proof -
  from update_from_master_cases [OF assms(2)]
  consider "s' = s" | master ls rs where "master_list parse master (mc_port cfg) (mc_on_demand cfg) ls [] = Inr rs"
    "take_master_list E now rs s = Inr s'" by blast
  then show ?thesis
  proof cases
    case 2
    from master_list_fresh [OF this(1)] take_master_list_threads [OF assms(1) this(2)] show ?thesis by simp
  qed (simp add: assms(1))
qed

lemma update_lists_threads:
  assumes "threads_ok (lists_of s) s" and "update_lists E now parse answer cfg relays s = Inr (skip, cleanup, s')"
  shows "threads_ok (cleanup @ lists_of s') s'"
proof (cases "sl_max_interval s \<le> sl_interval s")
  case True
  let ?s = "s\<lparr>sl_interval := 0, sl_max_interval := mc_update_interval cfg\<rparr>"
  obtain t keep where t: "update_from_master E now parse answer cfg ?s = Inr t"
    "update_relays (sl_relays t) relays = (keep, cleanup)" "s' = t\<lparr>sl_relays := keep\<rparr>"
    using assms(2) True by (auto simp: update_lists_def Let_def split: sum.splits prod.splits)
  have "threads_ok (lists_of ?s) ?s" using assms(1) by (simp add: threads_ok_def lists_of_def)
  from update_from_master_threads [OF this t(1)] have "threads_ok (sl_relays t @ sl_master_relays t) t"
    by (simp add: lists_of_def)
  from update_relays_threads [OF this t(2)] show ?thesis using t(3) by (simp add: threads_ok_def lists_of_def)
next
  case False
  then show ?thesis using assms by (auto simp: update_lists_def)
qed

lemma check_all_threads:
  assumes "threads_ok (cleanup @ lists_of s) s" and "check_all E now skip cleanup s = Inr s'"
  shows "threads_ok (lists_of s') s'"
proof -
  obtain rs s1 where 1: "relay_check_streams E now True (sl_relays s) cleanup skip s = Inr (rs, s1)"
    using assms(2) by (auto simp: check_all_def split: sum.splits)
  let ?s = "s1\<lparr>sl_relays := rs\<rparr>"
  obtain ms s2 where 2: "relay_check_streams E now True (sl_master_relays ?s) [] skip ?s = Inr (ms, s2)"
      "s' = s2\<lparr>sl_master_relays := ms\<rparr>"
    using assms(2) 1
    by (cases "relay_check_streams E now True (sl_master_relays ?s) [] skip ?s") (auto simp: check_all_def Let_def)
  note k1 = relay_check_streams_threads [OF assms(1) [unfolded lists_of_def] 1]
  then have "threads_ok (rs @ sl_master_relays s1) ?s" by (simp add: lists_kept_def threads_ok_def)
  then have "threads_ok ([] @ sl_master_relays ?s @ rs) ?s"
    by (subst threads_ok_perm [of _ "rs @ sl_master_relays s1"]) simp_all
  note k2 = relay_check_streams_threads [OF this 2(1)]
  then have "threads_ok (ms @ sl_relays s2) s'" using 2(2) by (simp add: lists_kept_def threads_ok_def)
  then show ?thesis by (subst threads_ok_perm [of _ "ms @ sl_relays s2"]) (simp_all add: lists_of_def 2(2))
qed

section \<open>All rounds\<close>

text \<open>
  The states the relays go through: rounds of the thread that looks after them, ends of their threads, in
  any order, and changes of the sources by the rest of the server. The configuration may be another one
  at each step.
\<close>

inductive slave_reach :: "slave \<Rightarrow> bool" where
  start: "slave_reach (slave_initialize tree)"
| round: "slave_reach s \<Longrightarrow> slave_round E now parse answer cfg relays s = Inr (recheck, s') \<Longrightarrow> slave_reach s'"
| ended: "slave_reach s \<Longrightarrow> i < length (sl_relays s) \<Longrightarrow> r_running (sl_relays s ! i) \<Longrightarrow> \<not> r_cleanup (sl_relays s ! i) \<Longrightarrow>
    start_relay_stream E now streamed (sl_relays s ! i) s = (r, s') \<Longrightarrow>
    slave_reach (s'\<lparr>sl_relays := (sl_relays s)[i := r]\<rparr>)"
| ended_master: "slave_reach s \<Longrightarrow> i < length (sl_master_relays s) \<Longrightarrow> r_running (sl_master_relays s ! i) \<Longrightarrow>
    \<not> r_cleanup (sl_master_relays s ! i) \<Longrightarrow>
    start_relay_stream E now streamed (sl_master_relays s ! i) s = (r, s') \<Longrightarrow>
    slave_reach (s'\<lparr>sl_master_relays := (sl_master_relays s)[i := r]\<rparr>)"
| elsewhere: "slave_reach s \<Longrightarrow> slave_reach (s\<lparr>sl_tree := tree\<rparr>)"

lemma threads_ok_update:
  assumes "threads_ok rs s" and "i < length rs" and "relay_ok r" and "held r = held (rs ! i)"
  shows "threads_ok (rs[i := r]) s"
proof -
  have "map held (rs[i := r]) = map held rs" using assms(2,4) by (simp add: map_update list_update_same_conv)
  moreover have "\<forall>x\<in>set (rs[i := r]). relay_ok x" using assms(1,3) by (auto simp: threads_ok_def dest: set_update_subset_insert [THEN subsetD])
  ultimately show ?thesis using assms(1) by (simp add: threads_ok_def)
qed

lemma slave_round_threads:
  assumes "threads_ok (lists_of s) s" and "slave_round E now parse answer cfg relays s = Inr (recheck, s')"
  shows "threads_ok (lists_of s') s'"
proof -
  let ?s = "s\<lparr>sl_interval := Suc (sl_interval s)\<rparr>"
  obtain skip cleanup t where t: "update_lists E now parse answer cfg relays ?s = Inr (skip, cleanup, t)"
    using assms(2) by (auto simp: slave_round_def split: sum.splits)
  then obtain u where u: "check_all E now skip cleanup t = Inr u" "recheck_mounts u = (recheck, s')"
    using assms(2) by (cases "check_all E now skip cleanup t") (auto simp: slave_round_def)
  have "threads_ok (lists_of ?s) ?s" using assms(1) by (simp add: threads_ok_def lists_of_def)
  from check_all_threads [OF update_lists_threads [OF this t] u(1)] show ?thesis
    using u(2) by (auto simp: recheck_mounts_def threads_ok_def lists_of_def split: if_splits)
qed

lemma reach_threads: "slave_reach s \<Longrightarrow> threads_ok (lists_of s) s"
proof (induction rule: slave_reach.induct)
  case (start tree)
  then show ?case by (simp add: threads_ok_def lists_of_def slave_initialize_def)
next
  case (round s E now parse answer cfg relays recheck s')
  then show ?case using slave_round_threads by blast
next
  case (ended s i E now streamed r s')
  have "relay_ok (sl_relays s ! i)" using ended.IH ended.hyps(2) by (simp add: threads_ok_def lists_of_def)
  note e = start_relay_stream_end [OF ended.hyps(5) this ended.hyps(3)]
  have "threads_ok ((lists_of s)[i := r]) s"
    using threads_ok_update [OF ended.IH, of i r] e(1,2) ended.hyps(2) by (simp add: lists_of_def nth_append)
  then show ?case using e(4) ended.hyps(2) by (simp add: lists_of_def same_threads_def threads_ok_def list_update_append)
next
  case (ended_master s i E now streamed r s')
  let ?i = "length (sl_relays s) + i"
  have "relay_ok (sl_master_relays s ! i)" using ended_master.IH ended_master.hyps(2) by (simp add: threads_ok_def lists_of_def)
  note e = start_relay_stream_end [OF ended_master.hyps(5) this ended_master.hyps(3)]
  have "threads_ok ((lists_of s)[?i := r]) s"
    using threads_ok_update [OF ended_master.IH, of ?i r] e(1,2) ended_master.hyps(2) by (simp add: lists_of_def nth_append)
  then show ?case using e(4) ended_master.hyps(2)
    by (simp add: lists_of_def same_threads_def threads_ok_def list_update_append)
next
  case (elsewhere s tree)
  then show ?case by (simp add: threads_ok_def lists_of_def)
qed

text \<open>Which relays block the thread that stops them.\<close>

lemma stop_relay_blocks:
  "isl (stop_relay E now locked r s) \<longleftrightarrow> locked \<and> r_source r \<and> r_running r \<and> \<not> r_cleanup r \<and> \<not> se_streamed E r"
  by (auto simp: stop_relay_def join_relay_def split: sum.splits)

lemma stop_relays_block:
  "isl (stop_relays E now locked rs s) \<longleftrightarrow>
     locked \<and> (\<exists>r\<in>set rs. r_source r \<and> r_running r \<and> \<not> r_cleanup r \<and> \<not> se_streamed E r)"
proof (induction rs arbitrary: s)
  case (Cons r rs)
  show ?case using stop_relay_blocks [of E now locked r s] Cons by (cases "stop_relay E now locked r s") auto
qed simp

lemma relay_check_streams_blocks:
  "isl (relay_check_streams E now locked to_start to_free skip s) \<longleftrightarrow>
     locked \<and> (\<exists>r\<in>set to_free. r_source r \<and> r_running r \<and> \<not> r_cleanup r \<and> \<not> se_streamed E r)"
  unfolding relay_check_streams_def by (simp add: isl_map_sum stop_relays_block)

lemma stop_relay_count:
  assumes "stop_relay E now locked r s = Inr s'" and "relay_ok r"
  shows "sl_threads s' = sl_threads s"
proof (cases "r_source r \<and> r_running r")
  case True
  let ?s = "on_source r (\<lambda>src. src\<lparr>src_running := False\<rparr>) s"
  obtain t where t: "join_relay E now locked r ?s = Inr t" "s' = relay_free E r (t\<lparr>sl_joined := sl_joined t @ held r\<rparr>)"
    using assms(1) True by (auto simp: stop_relay_def split: sum.splits)
  have "same_threads ?s t" using join_relay_threads [OF t(1)] assms(2) True by blast
  then show ?thesis
    using t(2) same_relay_free [of "t\<lparr>sl_joined := sl_joined t @ held r\<rparr>" E r] same_on_source [of s r]
    by (simp add: same_threads_def)
next
  case False
  then have "s' = relay_free E r s" using assms(1) by (auto simp: stop_relay_def split: if_splits)
  then show ?thesis using same_relay_free [of s E r] by (simp add: same_threads_def)
qed

lemma stop_relays_count:
  "stop_relays E now locked rs s = Inr s' \<Longrightarrow> \<forall>r\<in>set rs. relay_ok r \<Longrightarrow> sl_threads s' = sl_threads s"
proof (induction rs arbitrary: s)
  case (Cons r rs)
  obtain t where t: "stop_relay E now locked r s = Inr t" "stop_relays E now locked rs t = Inr s'"
    using Cons.prems(1) by (auto split: sum.splits)
  from Cons.IH [OF t(2)] stop_relay_count [OF t(1)] Cons.prems(2) show ?case by simp
qed simp

lemma unlocked_stop: "\<exists>s'. stop_relays E now False rs s = Inr s'"
  using stop_relays_block [of E now False rs s] by (cases "stop_relays E now False rs s") auto

lemma slave_stop_threads:
  assumes "threads_ok (lists_of s) s"
  shows "\<exists>s'. slave_stop E now s = Inr s' \<and> threads_ok [] s' \<and> sl_threads s' = sl_threads s"
proof -
  obtain t where t: "stop_relays E now False (sl_relays s) s = Inr t" using unlocked_stop by blast
  obtain u where u: "stop_relays E now False (sl_master_relays t) t = Inr u" using unlocked_stop by blast
  have k: "threads_ok (sl_master_relays s) t" "lists_kept s t"
    using stop_relays_threads [OF _ t, of "sl_master_relays s"] assms by (simp_all add: lists_of_def)
  then have m: "threads_ok (sl_master_relays t @ []) t" by (simp add: lists_kept_def)
  have "threads_ok [] u" using stop_relays_threads [OF m u] by blast
  moreover have "sl_threads u = sl_threads s"
    using stop_relays_count [OF t] stop_relays_count [OF u] assms m by (simp add: threads_ok_def lists_of_def)
  moreover have "slave_stop E now s = Inr u" using t u by (simp add: slave_stop_def relay_check_streams_def)
  ultimately show ?thesis by blast
qed

lemma all_accounted:
  "mset xs = mset [0..<n] \<Longrightarrow> distinct xs \<and> set xs = {0..<n}"
  using mset_eq_imp_distinct_iff [of xs "[0..<n]"] mset_eq_setD [of xs "[0..<n]"] by simp

text \<open>
  C12: the threads of the relays. In every state the relays can come to, through rounds of the slave
  thread with any configuration and any list of a master, and through ends of relay threads in any
  order, the threads started so far are exactly those that were joined and those that a relay of the
  lists holds, each of them once; a relay is marked as running exactly while it holds a thread. When
  the server stops, the lists are freed without blocking and then every thread has been joined once.
\<close>

theorem relay_threads_accounted:
  assumes "slave_reach s"
  shows "distinct (sl_joined s @ concat (map held (lists_of s)))
     \<and> set (sl_joined s @ concat (map held (lists_of s))) = {0..<sl_threads s}
     \<and> (\<forall>r\<in>set (lists_of s). r_running r \<longleftrightarrow> r_thread r \<noteq> None)
     \<and> (\<exists>s'. slave_stop E now s = Inr s' \<and> distinct (sl_joined s') \<and> set (sl_joined s') = {0..<sl_threads s})"
proof -
  have ok: "threads_ok (lists_of s) s" by (rule reach_threads [OF assms])
  then have "mset (sl_joined s @ concat (map held (lists_of s))) = mset [0..<sl_threads s]" by (simp add: threads_ok_def)
  moreover obtain s' where s': "slave_stop E now s = Inr s'" "threads_ok [] s'" "sl_threads s' = sl_threads s"
    using slave_stop_threads [OF ok] by blast
  then have "mset (sl_joined s') = mset [0..<sl_threads s]" by (simp add: threads_ok_def)
  moreover have "\<forall>r\<in>set (lists_of s). r_running r \<longleftrightarrow> r_thread r \<noteq> None"
    using ok by (simp add: threads_ok_def relay_ok_def)
  ultimately show ?thesis using s'(1) all_accounted by blast
qed

text \<open>An environment without configured mounts, in which no stream can be opened, and a relay of the configuration.\<close>

definition demo_env :: slave_env where
  "demo_env = \<lparr>se_insert = plain_insert, se_delete = t_delete (bst_ops src_mount), se_client_insert = (#),
     se_fnm = (=), se_mounts = [],
     se_config = \<lparr>cfg_queue_size_limit = 524288, cfg_source_timeout = 10, cfg_burst_size = 65536,
       cfg_hostname = ''localhost'', cfg_port = 8000, cfg_webroot_dir = ''/web''\<rparr>,
     se_can_open = (\<lambda>_. False), se_getvar = (\<lambda>_. None), se_contenttype = ''audio/mpeg'', se_mount_acl = None,
     se_config_acl = None, se_streamed = (\<lambda>_. False)\<rparr>"

definition demo_master :: master_config where
  "demo_master = \<lparr>mc_server = None, mc_port = 0, mc_password = None, mc_on_demand = False, mc_update_interval = 120\<rparr>"

definition demo_round :: slave where
  "demo_round = snd (projr (slave_round demo_env 100 (\<lambda>_. None) None demo_master [demo_relay ''a'' ''/one''] (slave_initialize Leaf)))"

lemmas round_defs = slave_round_def update_lists_def update_from_master_def update_relays_def check_all_def
  relay_check_streams_def check_relay_stream_def reserve_relay_def relay_wanted_def relay_source_def source_reserve_def
  source_find_mount_raw_def recheck_mounts_def demo_env_def demo_master_def demo_relay_def slave_initialize_def
  relay_copy_def

lemma demo_round_ok:
  "slave_round demo_env 100 (\<lambda>_. None) None demo_master [demo_relay ''a'' ''/one''] (slave_initialize Leaf) = Inr (None, demo_round)
   \<and> sl_relays demo_round = [(demo_running 0 ''a'' ''/one'')\<lparr>r_start := 105\<rparr>] \<and> sl_threads demo_round = 1"
  unfolding demo_round_def by (simp add: round_defs demo_running_def Let_def)

lemma demo_round_reach: "slave_reach demo_round"
  using slave_reach.round [OF slave_reach.start] demo_round_ok by blast

theorem relay_threads_accounted_witness:
  "sl_threads demo_round = 1
   \<and> (\<exists>s'. slave_stop demo_env 200 demo_round = Inr s' \<and> distinct (sl_joined s') \<and> set (sl_joined s') = {0..<1})"
  using relay_threads_accounted [OF demo_round_reach, of demo_env 200] demo_round_ok by simp

lemma stop_relays_fault: "stop_relays E now locked rs s = Inl f \<Longrightarrow> f = Deadlock"
proof (induction rs arbitrary: s)
  case (Cons r rs)
  show ?case
  proof (cases "stop_relay E now locked r s")
    case (Inl g)
    then have "g = Deadlock" by (auto simp: stop_relay_def join_relay_def split: if_splits sum.splits)
    then show ?thesis using Cons.prems Inl by simp
  qed (use Cons in simp)
qed simp



section \<open>Following redirects\<close>

text \<open>A chain of places, each of which sends to the next one.\<close>

fun redirected :: "(string \<times> int \<times> string \<Rightarrow> reply) \<Rightarrow> (string \<times> int \<times> string) list \<Rightarrow> bool" where
  "redirected ask (p # q # ps) \<longleftrightarrow>
     (\<exists>l. ask p = Moved (Some l) \<and> redirect_target l = Some q) \<and> redirected ask (q # ps)"
| "redirected ask ps = True"

lemma open_loop_follows:
  "open_loop ask n p = Inr (res, tr) \<Longrightarrow> 0 < n \<Longrightarrow>
     tr \<noteq> [] \<and> hd tr = p \<and> length tr \<le> n \<and> redirected ask tr
     \<and> res = (if ask (last tr) = Streams then Some (last tr) else None)"
proof (induction n arbitrary: p tr)
  case (Suc n)
  show ?case
  proof (cases "\<exists>l q. ask p = Moved (Some l) \<and> redirect_target l = Some q \<and> n \<noteq> 0")
    case True
    then obtain l q where q: "ask p = Moved (Some l)" "redirect_target l = Some q" "n \<noteq> 0" by blast
    then obtain tr' where tr: "open_loop ask n q = Inr (res, tr')" "tr = p # tr'"
      using Suc.prems(1) by (auto split: sum.splits)
    from Suc.IH [OF this(1)] q(3) have *: "tr' \<noteq> []" "hd tr' = q" "length tr' \<le> n" "redirected ask tr'"
      "res = (if ask (last tr') = Streams then Some (last tr') else None)" by blast+
    then obtain ps where "tr' = q # ps" by (cases tr') auto
    with * q tr(2) show ?thesis by auto
  next
    case False
    then have "tr = [p] \<and> res = (if ask p = Streams then Some p else None)"
      using Suc.prems(1) by (auto split: reply.splits option.splits sum.splits)
    then show ?thesis by simp
  qed
qed simp

text \<open>
  the search for a stream. A relay asks at most ten places, starting with the configured one; each
  further one is where the one before has sent it. The stream is taken from the last place
  exactly when that one streams.
\<close>

theorem redirects_followed:
  assumes "open_relay_connection ask r = Inr (res, tr)"
  shows "tr \<noteq> [] \<and> hd tr = (r_server r, r_port r, r_mount r) \<and> length tr \<le> 10 \<and> redirected ask tr
     \<and> res = (if ask (last tr) = Streams then Some (last tr) else None)"
  using open_loop_follows [of ask 10 "(r_server r, r_port r, r_mount r)" res tr] assms
  by (simp add: open_relay_connection_def)

definition demo_ask :: "string \<times> int \<times> string \<Rightarrow> reply" where
  "demo_ask p = (if fst p = ''a'' then Moved (Some ''http://b:81/two'') else Streams)"

theorem redirects_followed_witness:
  "open_relay_connection demo_ask (demo_relay ''a'' ''/one'')
     = Inr (Some (''b'', 81, ''/two''), [(''a'', 8000, ''/one''), (''b'', 81, ''/two'')])
   \<and> redirected demo_ask [(''a'', 8000, ''/one''), (''b'', 81, ''/two'')]"
proof -
  have e: "open_relay_connection demo_ask (demo_relay ''a'' ''/one'')
     = Inr (Some (''b'', 81, ''/two''), [(''a'', 8000, ''/one''), (''b'', 81, ''/two'')])" by code_simp
  show ?thesis using e redirects_followed [OF e] by blast
qed

lemma atoi_show_nat_rest:
  assumes "n < 2 ^ 31" and "\<not> is_digit c"
  shows "atoi (show_nat n @ c # cs) = int n"
proof -
  obtain d ds where s: "show_nat n = d # ds" by (cases "show_nat n") auto
  then have d: "is_digit d" using hd_show_nat_digit [of n] by simp
  have "digits_val 0 (show_nat n @ c # cs) = (int n, c # cs)"
    using digits_val_show_nat [of 0 n "c # cs"] assms(2) by simp
  with s d is_digit_not_space [OF d] assms(1) have "fst (strtol (show_nat n @ c # cs)) = int n"
    by (auto simp: strtol_def Let_def clamp_long_def)
  then show ?thesis using sint_of_small [of "int n"] assms(1) by (simp add: atoi_def)
qed

text \<open>
  An address \<^verbatim>\<open>http://host:port/mount\<close> in a redirect is read back as its three parts.
\<close>

lemma redirect_target_address:
  assumes "\<forall>c\<in>set host. c \<noteq> CHR '':'' \<and> c \<noteq> CHR ''/''" and "port < 2 ^ 31"
  shows "redirect_target (''http://'' @ host @ '':'' @ show_nat port @ ''/'' @ mount) = Some (host, int port, CHR ''/'' # mount)"
proof -
  let ?uri = "host @ CHR '':'' # show_nat port @ CHR ''/'' # mount"
  have "CHR ''/'' \<notin> set (show_nat port)" using show_nat_digits [of "CHR ''/''" port] by (auto simp: is_digit_def in_range_def code_def)
  then have "strchr CHR ''/'' ?uri = Some (host @ CHR '':'' # show_nat port, mount)"
    using assms(1) by (auto simp: strchr_Some)
  moreover have "takeWhile (\<lambda>c. c \<noteq> CHR '':'' \<and> c \<noteq> CHR ''/'') ?uri = host"
    using assms(1) by (simp add: takeWhile_append2)
  moreover have "atoi (show_nat port @ CHR ''/'' # mount) = int port"
    using assms(2) by (intro atoi_show_nat_rest) (simp_all add: is_digit_def in_range_def code_def)
  ultimately show ?thesis by (simp add: redirect_target_def starts_with_def)
qed

end
