(* ===== verification/YP.thy ===== *)
theory YP
  imports Source Util_URI
begin

text \<open>
  The listing of streams in directories, \<^verbatim>\<open>yp.c\<close>. The server keeps a list of directory servers, and for
  each of them a list of entries, one for each public stream. A thread goes over the entries: an
  entry is added to the directory, touched in intervals, and removed when its stream ends.

  A request to a directory is an argument: \<open>ye_perform\<close> gives for a URL and the text of a request
  the lines of the header that come back and whether the transfer worked. The lines are without their
  line ends, which libcurl hands over with them. The time of a pass is \<open>ye_now\<close>, and \<open>ye_later\<close> the time after
  a request. Entries point to their server; here they are in its list. What is sent, and the statistic that
  is set, is kept as a list of calls.
\<close>

section \<open>Data\<close>

datatype yp_command = Do_yp_remove | Do_yp_add | Do_yp_touch

record ypdata =
  y_remove :: bool
  y_release :: bool
  y_cmd_ok :: bool
  y_sid :: "string option"
  y_mount :: string
  y_url :: string
  y_listen_url :: string
  y_server_name :: string
  y_server_desc :: string
  y_server_genre :: string
  y_cluster_password :: string
  y_bitrate :: string
  y_audio_info :: string
  y_server_type :: string
  y_current_song :: string
  y_subtype :: string
  y_next_update :: int
  y_touch_interval :: u32
  y_error_msg :: "string option"
  y_process :: yp_command

record yp_server =
  ys_url :: string
  ys_server_id :: string
  ys_url_timeout :: u32
  ys_touch_interval :: u32
  ys_remove :: bool
  ys_mounts :: "ypdata list"
  ys_pending_mounts :: "ypdata list"

record yp_state =
  active_yps :: "yp_server list"
  pending_yps :: "yp_server list"
  yp_update :: bool
  yp_client_limit :: u32
  server_version :: string

datatype yp_call = Post string string | Now_playing string string

record yp_env =
  ye_now :: int
  ye_later :: int
  ye_stats :: "string \<Rightarrow> string \<Rightarrow> string option"
  ye_perform :: "string \<Rightarrow> string \<Rightarrow> string list \<times> bool"
  ye_admin :: string
  ye_hostname :: string
  ye_port :: int
  ye_fnm :: "string \<Rightarrow> string \<Rightarrow> bool"
  ye_mounts :: "mount_proxy list"
  ye_sources :: "source tree"

section \<open>Answers of a directory\<close>

text \<open>\<^verbatim>\<open>sscanf\<close> with \<^verbatim>\<open>%[^\r\n]\<close>.\<close>

definition scan_line :: "string \<Rightarrow> string" where
  "scan_line s = takeWhile (\<lambda>c. c \<noteq> CHR 0x0D \<and> c \<noteq> CHR 0x0A) s"

definition handle_returned_header :: "string \<Rightarrow> ypdata \<Rightarrow> ypdata" where
  "handle_returned_header line yp =
     (let yp = (if starts_with_case ''YPResponse: 1'' line then yp\<lparr>y_cmd_ok := True\<rparr> else yp);
          yp = (if starts_with_case ''YPMessage: '' line then yp\<lparr>y_error_msg := Some (scan_line (drop 11 line))\<rparr> else yp);
          yp = (if y_process yp = Do_yp_add \<and> starts_with_case ''SID: '' line
                then yp\<lparr>y_sid := Some (scan_line (drop 5 line))\<rparr> else yp)
      in if starts_with_case ''TouchFreq: '' line
         then (let secs = (case scan_unsigned (drop 11 line) of None \<Rightarrow> 0 | Some n \<Rightarrow> n)
               in yp\<lparr>y_touch_interval := (if secs < 30 then 30 else secs)\<rparr>)
         else yp)"

text \<open>The result is 0, or -1 when the directory refuses, -2 when it cannot be reached.\<close>

definition refused :: "int \<Rightarrow> ypdata \<Rightarrow> ypdata" where
  "refused now yp =
     (let yp = (if y_error_msg yp = None then yp\<lparr>y_error_msg := Some ''no response from server''\<rparr> else yp);
          yp = (if y_process yp = Do_yp_add then yp\<lparr>y_next_update := now + 7200\<rparr> else yp);
          yp = (if y_process yp = Do_yp_touch
                then yp\<lparr>y_next_update := now + (if y_touch_interval yp < 1200 then 1200 else uint (y_touch_interval yp))\<rparr>
                else yp)
      in yp\<lparr>y_process := Do_yp_add, y_sid := None\<rparr>)"

definition send_to_yp :: "yp_env \<Rightarrow> string \<Rightarrow> ypdata \<Rightarrow> string \<Rightarrow> int \<times> ypdata" where
  "send_to_yp E url yp post =
     (let (header, done) = ye_perform E url post;
          yp = fold handle_returned_header header (yp\<lparr>y_cmd_ok := False\<rparr>)
      in if \<not> done then (-2, yp\<lparr>y_process := Do_yp_add, y_next_update := ye_now E + 1200\<rparr>)
         else if \<not> y_cmd_ok yp then (-1, refused (ye_now E) yp)
         else (0, yp))"

section \<open>The requests\<close>

datatype yp_info = YP_SERVER_NAME | YP_SERVER_DESC | YP_SERVER_GENRE | YP_SERVER_URL | YP_BITRATE | YP_AUDIO_INFO
  | YP_SERVER_TYPE | YP_CURRENT_SONG | YP_CLUSTER_PASSWORD | YP_SUBTYPE

definition add_yp_info :: "ypdata \<Rightarrow> string option \<Rightarrow> yp_info \<Rightarrow> ypdata" where
  "add_yp_info yp info ty =
     (case util_url_escape info of
        None \<Rightarrow> yp
      | Some escaped \<Rightarrow>
          (case ty of
             YP_SERVER_NAME \<Rightarrow> yp\<lparr>y_server_name := escaped\<rparr>
           | YP_SERVER_DESC \<Rightarrow> yp\<lparr>y_server_desc := escaped\<rparr>
           | YP_SERVER_GENRE \<Rightarrow> yp\<lparr>y_server_genre := escaped\<rparr>
           | YP_SERVER_URL \<Rightarrow> yp\<lparr>y_url := escaped\<rparr>
           | YP_BITRATE \<Rightarrow> yp\<lparr>y_bitrate := escaped\<rparr>
           | YP_AUDIO_INFO \<Rightarrow> yp\<lparr>y_audio_info := escaped\<rparr>
           | YP_SERVER_TYPE \<Rightarrow> yp\<lparr>y_server_type := escaped\<rparr>
           | YP_CURRENT_SONG \<Rightarrow> yp\<lparr>y_current_song := escaped\<rparr>
           | YP_CLUSTER_PASSWORD \<Rightarrow> yp\<lparr>y_cluster_password := escaped\<rparr>
           | YP_SUBTYPE \<Rightarrow> yp\<lparr>y_subtype := escaped\<rparr>))"

text \<open>\<^verbatim>\<open>printf\<close> shows a NULL string as \<^verbatim>\<open>(null)\<close>.\<close>

definition shown :: "string option \<Rightarrow> string" where
  "shown s = (case s of None \<Rightarrow> ''(null)'' | Some t \<Rightarrow> t)"

text \<open>
  The results of a request: what the C function returns, the entry, whether the lists are to be updated, and the
  calls. A text that does not fit into the buffer of the length given is not sent.
\<close>

type_synonym yp_result = "int \<times> ypdata \<times> bool \<times> yp_call list"

definition do_yp_remove :: "yp_env \<Rightarrow> string \<Rightarrow> ypdata \<Rightarrow> nat \<Rightarrow> yp_result" where
  "do_yp_remove E url yp bufsize =
     (case y_sid yp of
        None \<Rightarrow> (0, yp\<lparr>y_remove := True, y_process := Do_yp_add\<rparr>, True, [])
      | Some sid \<Rightarrow>
          (let s = ''action=remove&sid='' @ sid
           in if bufsize \<le> length s then (int (length s) + 1, yp, False, [])
              else (let (ret, yp) = send_to_yp E url yp s
                    in (ret, yp\<lparr>y_sid := None, y_remove := True, y_process := Do_yp_add\<rparr>, True, [Post url s]))))"

definition collect_infos :: "yp_env \<Rightarrow> ypdata \<Rightarrow> ypdata" where
  "collect_infos E yp =
     (let stat = ye_stats E (y_mount yp);
          yp = add_yp_info yp (stat ''server_type'') YP_SERVER_TYPE;
          yp = add_yp_info yp (stat ''server_name'') YP_SERVER_NAME;
          yp = add_yp_info yp (stat ''server_url'') YP_SERVER_URL;
          yp = add_yp_info yp (stat ''genre'') YP_SERVER_GENRE;
          yp = add_yp_info yp (if stat ''bitrate'' = None then stat ''ice-bitrate'' else stat ''bitrate'') YP_BITRATE;
          yp = add_yp_info yp (stat ''server_description'') YP_SERVER_DESC;
          yp = add_yp_info yp (stat ''subtype'') YP_SUBTYPE
      in add_yp_info yp (stat ''audio_info'') YP_AUDIO_INFO)"

definition add_text :: "yp_env \<Rightarrow> ypdata \<Rightarrow> string" where
  "add_text E yp =
     ''action=add&admin='' @ shown (util_url_escape (Some (ye_admin E))) @ ''&sn='' @ y_server_name yp
     @ ''&genre='' @ y_server_genre yp @ ''&cpswd='' @ y_cluster_password yp @ ''&desc='' @ y_server_desc yp
     @ ''&url='' @ y_url yp @ ''&listenurl='' @ y_listen_url yp @ ''&type='' @ y_server_type yp
     @ ''&stype='' @ y_subtype yp @ ''&b='' @ y_bitrate yp @ ''&'' @ y_audio_info yp @ [CHR 0x0D, CHR 0x0A]"

definition do_yp_add :: "yp_env \<Rightarrow> string \<Rightarrow> ypdata \<Rightarrow> nat \<Rightarrow> yp_result" where
  "do_yp_add E url yp bufsize =
     (let yp = collect_infos E yp; s = add_text E yp
      in if bufsize \<le> length s then (int (length s) + 1, yp, False, [])
         else (let (ret, yp) = send_to_yp E url yp s
               in (ret, if ret = 0 then yp\<lparr>y_process := Do_yp_touch, y_next_update := ye_later E + 5\<rparr> else yp,
                   False, [Post url s])))"

text \<open>The song that is playing, from the artist and the title.\<close>

definition current_song :: "yp_env \<Rightarrow> ypdata \<Rightarrow> string option" where
  "current_song E yp =
     (case (ye_stats E (y_mount yp) ''artist'', ye_stats E (y_mount yp) ''title'') of
        (None, None) \<Rightarrow> None
      | (None, Some t) \<Rightarrow> Some t
      | (Some a, None) \<Rightarrow> Some (a @ '' - '')
      | (Some a, Some t) \<Rightarrow> Some (a @ '' - '' @ t))"

definition touch_infos :: "yp_env \<Rightarrow> ypdata \<Rightarrow> ypdata" where
  "touch_infos E yp =
     (let yp = add_yp_info yp (current_song E yp) YP_CURRENT_SONG
      in add_yp_info yp (ye_stats E (y_mount yp) ''subtype'') YP_SUBTYPE)"

definition touch_text :: "yp_env \<Rightarrow> u32 \<Rightarrow> ypdata \<Rightarrow> string" where
  "touch_text E limit yp =
     (let n = (case ye_stats E (y_mount yp) ''listeners'' of None \<Rightarrow> 0 | Some v \<Rightarrow> word_of_int (atoi v));
          m = (case ye_stats E (y_mount yp) ''max_listeners'' of
                 None \<Rightarrow> limit
               | Some v \<Rightarrow> if v = ''unlimited'' \<or> atoi v < 0 then limit else word_of_int (atoi v))
      in ''action=touch&sid='' @ shown (y_sid yp) @ ''&st='' @ y_current_song yp
         @ ''&listeners='' @ show_nat (unat (n :: u32)) @ ''&max_listeners='' @ show_nat (unat m)
         @ ''&stype='' @ y_subtype yp @ [CHR 0x0D, CHR 0x0A])"

definition do_yp_touch :: "yp_env \<Rightarrow> string \<Rightarrow> u32 \<Rightarrow> ypdata \<Rightarrow> nat \<Rightarrow> yp_result" where
  "do_yp_touch E url limit yp bufsize =
     (let playing = (case current_song E yp of None \<Rightarrow> [] | Some song \<Rightarrow> [Now_playing (y_mount yp) song]);
          yp = touch_infos E yp; s = touch_text E limit yp
      in if bufsize \<le> length s then (int (length s) + 1, yp, False, playing)
         else (let (ret, yp) = send_to_yp E url yp s
               in if ret = 0
                  then (0, yp\<lparr>y_next_update := ye_now E + uint (y_touch_interval yp)\<rparr>, False, playing @ [Post url s])
                  else (-1, yp, False, playing @ [Post url s])))"

definition run_process :: "yp_env \<Rightarrow> string \<Rightarrow> u32 \<Rightarrow> ypdata \<Rightarrow> nat \<Rightarrow> yp_result" where
  "run_process E url limit yp bufsize =
     (case y_process yp of
        Do_yp_remove \<Rightarrow> do_yp_remove E url yp bufsize
      | Do_yp_add \<Rightarrow> do_yp_add E url yp bufsize
      | Do_yp_touch \<Rightarrow> do_yp_touch E url limit yp bufsize)"

definition if_released :: "ypdata \<Rightarrow> ypdata" where
  "if_released yp = (if y_release yp then yp\<lparr>y_process := Do_yp_remove, y_next_update := 0\<rparr> else yp)"

text \<open>An information goes into its own field, and nowhere else.\<close>

definition renewed_by :: "string option \<Rightarrow> string \<Rightarrow> string" where
  "renewed_by info old = (case info of None \<Rightarrow> old | Some s \<Rightarrow> url_escape_loop s)"

lemma renewed_by_twice [simp]: "renewed_by i (renewed_by i s) = renewed_by i s"
  by (simp add: renewed_by_def split: option.split)

lemma add_yp_info_others [simp]:
  "y_remove (add_yp_info yp i t) = y_remove yp"
  "y_release (add_yp_info yp i t) = y_release yp"
  "y_cmd_ok (add_yp_info yp i t) = y_cmd_ok yp"
  "y_sid (add_yp_info yp i t) = y_sid yp"
  "y_mount (add_yp_info yp i t) = y_mount yp"
  "y_listen_url (add_yp_info yp i t) = y_listen_url yp"
  "y_next_update (add_yp_info yp i t) = y_next_update yp"
  "y_touch_interval (add_yp_info yp i t) = y_touch_interval yp"
  "y_error_msg (add_yp_info yp i t) = y_error_msg yp"
  "y_process (add_yp_info yp i t) = y_process yp"
  by (cases t; simp add: add_yp_info_def split: option.split)+

lemma add_yp_info_field [simp]:
  "y_server_name (add_yp_info yp i t) = (if t = YP_SERVER_NAME then renewed_by i (y_server_name yp) else y_server_name yp)"
  "y_server_desc (add_yp_info yp i t) = (if t = YP_SERVER_DESC then renewed_by i (y_server_desc yp) else y_server_desc yp)"
  "y_server_genre (add_yp_info yp i t) = (if t = YP_SERVER_GENRE then renewed_by i (y_server_genre yp) else y_server_genre yp)"
  "y_url (add_yp_info yp i t) = (if t = YP_SERVER_URL then renewed_by i (y_url yp) else y_url yp)"
  "y_bitrate (add_yp_info yp i t) = (if t = YP_BITRATE then renewed_by i (y_bitrate yp) else y_bitrate yp)"
  "y_audio_info (add_yp_info yp i t) = (if t = YP_AUDIO_INFO then renewed_by i (y_audio_info yp) else y_audio_info yp)"
  "y_server_type (add_yp_info yp i t) = (if t = YP_SERVER_TYPE then renewed_by i (y_server_type yp) else y_server_type yp)"
  "y_current_song (add_yp_info yp i t) = (if t = YP_CURRENT_SONG then renewed_by i (y_current_song yp) else y_current_song yp)"
  "y_cluster_password (add_yp_info yp i t) = (if t = YP_CLUSTER_PASSWORD then renewed_by i (y_cluster_password yp) else y_cluster_password yp)"
  "y_subtype (add_yp_info yp i t) = (if t = YP_SUBTYPE then renewed_by i (y_subtype yp) else y_subtype yp)"
  by (cases t; simp add: add_yp_info_def util_url_escape_def renewed_by_def split: option.split)+

lemma collect_infos_others [simp]:
  "y_remove (collect_infos E yp) = y_remove yp"
  "y_release (collect_infos E yp) = y_release yp"
  "y_cmd_ok (collect_infos E yp) = y_cmd_ok yp"
  "y_sid (collect_infos E yp) = y_sid yp"
  "y_mount (collect_infos E yp) = y_mount yp"
  "y_listen_url (collect_infos E yp) = y_listen_url yp"
  "y_next_update (collect_infos E yp) = y_next_update yp"
  "y_touch_interval (collect_infos E yp) = y_touch_interval yp"
  "y_error_msg (collect_infos E yp) = y_error_msg yp"
  "y_process (collect_infos E yp) = y_process yp"
  "y_current_song (collect_infos E yp) = y_current_song yp"
  "y_cluster_password (collect_infos E yp) = y_cluster_password yp"
  by (simp_all add: collect_infos_def Let_def)

lemma touch_infos_others [simp]:
  "y_remove (touch_infos E yp) = y_remove yp"
  "y_release (touch_infos E yp) = y_release yp"
  "y_cmd_ok (touch_infos E yp) = y_cmd_ok yp"
  "y_sid (touch_infos E yp) = y_sid yp"
  "y_mount (touch_infos E yp) = y_mount yp"
  "y_listen_url (touch_infos E yp) = y_listen_url yp"
  "y_next_update (touch_infos E yp) = y_next_update yp"
  "y_touch_interval (touch_infos E yp) = y_touch_interval yp"
  "y_error_msg (touch_infos E yp) = y_error_msg yp"
  "y_process (touch_infos E yp) = y_process yp"
  "y_server_name (touch_infos E yp) = y_server_name yp"
  "y_server_desc (touch_infos E yp) = y_server_desc yp"
  "y_server_genre (touch_infos E yp) = y_server_genre yp"
  "y_url (touch_infos E yp) = y_url yp"
  "y_bitrate (touch_infos E yp) = y_bitrate yp"
  "y_audio_info (touch_infos E yp) = y_audio_info yp"
  "y_server_type (touch_infos E yp) = y_server_type yp"
  "y_cluster_password (touch_infos E yp) = y_cluster_password yp"
  by (simp_all add: touch_infos_def Let_def)

lemma collect_infos_idem [simp]: "collect_infos E (collect_infos E yp) = collect_infos E yp"
  by (rule ypdata.equality) (simp_all add: collect_infos_def Let_def)

lemma current_song_infos [simp]: "current_song E (add_yp_info yp i t) = current_song E yp"
  by (simp add: current_song_def)

lemma touch_infos_idem [simp]: "touch_infos E (touch_infos E yp) = touch_infos E yp"
  by (rule ypdata.equality) (simp_all add: touch_infos_def Let_def)

text \<open>
  A text that does not fit asks for a buffer in which the same text fits. Hence the loop around the
  requests ends.
\<close>

lemma if_released_idem [simp]: "if_released (if_released yp) = if_released yp"
  by (simp add: if_released_def)

definition fits :: "yp_env \<Rightarrow> u32 \<Rightarrow> ypdata \<Rightarrow> nat \<Rightarrow> bool" where
  "fits E limit yp bufsize \<longleftrightarrow>
     (case y_process yp of
        Do_yp_remove \<Rightarrow> (case y_sid yp of None \<Rightarrow> True | Some sid \<Rightarrow> length (''action=remove&sid='' @ sid) < bufsize)
      | Do_yp_add \<Rightarrow> length (add_text E (collect_infos E yp)) < bufsize
      | Do_yp_touch \<Rightarrow> length (touch_text E limit (touch_infos E yp)) < bufsize)"

lemma send_to_yp_result: "fst (send_to_yp E url yp s) \<le> 0"
  by (simp add: send_to_yp_def Let_def split: prod.split)

text \<open>Each request, with the text it sends: what it does with a buffer.\<close>

lemma do_yp_remove_grows:
  assumes "do_yp_remove E url yp bufsize = (ret, yp', upd, calls)"
  shows "(0 < ret \<longleftrightarrow> (\<exists>sid. y_sid yp = Some sid \<and> bufsize \<le> length (''action=remove&sid='' @ sid)))
    \<and> (0 < ret \<longrightarrow> yp' = yp \<and> (\<exists>sid. y_sid yp = Some sid \<and> nat ret = Suc (length (''action=remove&sid='' @ sid))))"
proof (cases "y_sid yp")
  case None
  then show ?thesis using assms by (auto simp: do_yp_remove_def)
next
  case (Some sid)
  let ?s = "''action=remove&sid='' @ sid"
  obtain r q where "send_to_yp E url yp ?s = (r, q)" by fastforce
  moreover from this have "r \<le> 0" using send_to_yp_result [of E url yp ?s] by simp
  ultimately show ?thesis using assms Some
    by (cases "bufsize \<le> length ?s") (simp_all add: do_yp_remove_def, linarith+)
qed

lemma do_yp_add_grows:
  assumes "do_yp_add E url yp bufsize = (ret, yp', upd, calls)"
  shows "(0 < ret \<longleftrightarrow> bufsize \<le> length (add_text E (collect_infos E yp)))
    \<and> (0 < ret \<longrightarrow> yp' = collect_infos E yp \<and> nat ret = Suc (length (add_text E (collect_infos E yp))))"
proof -
  let ?yp = "collect_infos E yp" let ?s = "add_text E ?yp"
  obtain r q where "send_to_yp E url ?yp ?s = (r, q)" by fastforce
  moreover from this have "r \<le> 0" using send_to_yp_result [of E url ?yp ?s] by simp
  ultimately show ?thesis using assms
    by (cases "bufsize \<le> length ?s") (auto simp: do_yp_add_def Let_def)
qed

lemma do_yp_touch_grows:
  assumes "do_yp_touch E url limit yp bufsize = (ret, yp', upd, calls)"
  shows "(0 < ret \<longleftrightarrow> bufsize \<le> length (touch_text E limit (touch_infos E yp)))
    \<and> (0 < ret \<longrightarrow> yp' = touch_infos E yp \<and> nat ret = Suc (length (touch_text E limit (touch_infos E yp))))"
proof -
  let ?yp = "touch_infos E yp" let ?s = "touch_text E limit ?yp"
  obtain r q where "send_to_yp E url ?yp ?s = (r, q)" by fastforce
  then show ?thesis using assms
    by (cases "bufsize \<le> length ?s"; cases "r = 0") (auto simp: do_yp_touch_def Let_def)
qed

lemma run_process_grows:
  assumes "run_process E url limit yp bufsize = (ret, yp', upd, calls)"
  shows "0 < ret \<longleftrightarrow> \<not> fits E limit yp bufsize"
    and "0 < ret \<Longrightarrow> fits E limit yp' (nat ret) \<and> y_release yp' = y_release yp \<and> y_process yp' = y_process yp"
proof -
  have "(0 < ret \<longleftrightarrow> \<not> fits E limit yp bufsize)
      \<and> (0 < ret \<longrightarrow> fits E limit yp' (nat ret) \<and> y_release yp' = y_release yp \<and> y_process yp' = y_process yp)"
  proof (cases "y_process yp")
    case Do_yp_remove
    with assms have "do_yp_remove E url yp bufsize = (ret, yp', upd, calls)" by (simp add: run_process_def)
    from do_yp_remove_grows [OF this] show ?thesis using Do_yp_remove by (auto simp: fits_def split: option.splits)
  next
    case Do_yp_add
    with assms have "do_yp_add E url yp bufsize = (ret, yp', upd, calls)" by (simp add: run_process_def)
    from do_yp_add_grows [OF this] show ?thesis using Do_yp_add by (auto simp: fits_def)
  next
    case Do_yp_touch
    with assms have "do_yp_touch E url limit yp bufsize = (ret, yp', upd, calls)" by (simp add: run_process_def)
    from do_yp_touch_grows [OF this] show ?thesis using Do_yp_touch by (auto simp: fits_def)
  qed
  then show "0 < ret \<longleftrightarrow> \<not> fits E limit yp bufsize"
    "0 < ret \<Longrightarrow> fits E limit yp' (nat ret) \<and> y_release yp' = y_release yp \<and> y_process yp' = y_process yp" by blast+
qed

lemma run_process_released:
  assumes "run_process E url limit (if_released yp) bufsize = (ret, yp', upd, calls)" and "0 < ret"
  shows "fits E limit (if_released yp') (nat ret)"
proof -
  have "fits E limit yp' (nat ret)" "y_release yp' = y_release yp" "y_process yp' = y_process (if_released yp)"
    using run_process_grows(2) [OF assms] by (simp_all add: if_released_def)
  then show ?thesis by (simp add: if_released_def fits_def split: if_splits)
qed

function process_loop :: "yp_env \<Rightarrow> string \<Rightarrow> u32 \<Rightarrow> nat \<Rightarrow> ypdata \<Rightarrow> yp_result" where
  "process_loop E url limit bufsize yp =
     (let (ret, yp', upd, calls) = run_process E url limit (if_released yp) bufsize
      in if ret \<le> 0 then (ret, yp', upd, calls)
         else (let (ret', yp'', upd', calls') = process_loop E url limit (nat ret) yp'
               in (ret', yp'', upd \<or> upd', calls @ calls')))"
  by pat_completeness auto

termination
proof (relation "measure (\<lambda>(E, url, limit, bufsize, yp). if fits E limit (if_released yp) bufsize then 0 else 1)")
  fix E url limit bufsize yp x ret y yp' z upd calls
  assume a: "x = run_process E url limit (if_released yp) bufsize" "(ret, y) = x" "(yp', z) = y" "(upd, calls) = z" "\<not> ret \<le> 0"
  then have r: "run_process E url limit (if_released yp) bufsize = (ret, yp', upd, calls)" by simp
  then show "((E, url, limit, nat ret, yp'), E, url, limit, bufsize, yp)
      \<in> measure (\<lambda>(E, url, limit, bufsize, yp). if fits E limit (if_released yp) bufsize then 0 else 1)"
    using run_process_released [OF r] run_process_grows(1) [OF r] a(5) by simp
qed simp

declare process_loop.simps [simp del]

definition process_ypdata :: "yp_env \<Rightarrow> string \<Rightarrow> u32 \<Rightarrow> ypdata \<Rightarrow> yp_result" where
  "process_ypdata E url limit yp =
     (if ye_now E < y_next_update yp then (0, yp, False, []) else process_loop E url limit 1024 yp)"

text \<open>When the directory cannot be reached for one entry, the entries behind it are put off.\<close>

fun process_entries :: "yp_env \<Rightarrow> string \<Rightarrow> u32 \<Rightarrow> int \<Rightarrow> ypdata list \<Rightarrow> ypdata list \<times> bool \<times> yp_call list" where
  "process_entries E url limit state [] = ([], False, [])"
| "process_entries E url limit state (yp # yps) =
     (let (state, yp, upd, calls) =
        (if state = -2 then (state, yp\<lparr>y_process := Do_yp_add, y_next_update := y_next_update yp + 900\<rparr>, False, [])
         else process_ypdata E url limit yp);
          (yps, upd', calls') = process_entries E url limit state yps
      in (yp # yps, upd \<or> upd', calls @ calls'))"

definition yp_process_server :: "yp_env \<Rightarrow> u32 \<Rightarrow> yp_server \<Rightarrow> yp_server \<times> bool \<times> yp_call list" where
  "yp_process_server E limit server =
     (let (yps, upd, calls) = process_entries E (ys_url server) limit 0 (ys_mounts server)
      in (server\<lparr>ys_mounts := yps\<rparr>, upd, calls))"

section \<open>The lists\<close>

definition find_yp_server :: "string \<Rightarrow> yp_state \<Rightarrow> yp_server option" where
  "find_yp_server url st =
     (case find (\<lambda>s. ys_url s = url) (active_yps st) of
        Some s \<Rightarrow> Some s
      | None \<Rightarrow> find (\<lambda>s. ys_url s = url) (pending_yps st))"

definition find_yp_mount :: "ypdata list \<Rightarrow> string \<Rightarrow> ypdata option" where
  "find_yp_mount yps mount = find (\<lambda>yp. y_mount yp = mount) yps"

text \<open>The mark to remove a server is taken back on the one the search has found.\<close>

fun unmark :: "string \<Rightarrow> yp_server list \<Rightarrow> yp_server list" where
  "unmark url [] = []"
| "unmark url (s # ss) = (if ys_url s = url then s\<lparr>ys_remove := False\<rparr> # ss else s # unmark url ss)"

definition new_yp_server :: "string \<Rightarrow> string \<times> u32 \<times> u32 \<Rightarrow> yp_server" where
  "new_yp_server version cfg =
     (case cfg of (url, url_timeout, touch_interval) \<Rightarrow>
        \<lparr>ys_url = url, ys_server_id = version,
         ys_url_timeout = (if url_timeout > 10 \<or> url_timeout < 1 then 6 else url_timeout),
         ys_touch_interval = (if touch_interval < 30 then 30 else touch_interval),
         ys_remove = False, ys_mounts = [], ys_pending_mounts = []\<rparr>)"

text \<open>The directories of the configuration, one by one; without a handle of libcurl the loop ends.\<close>

fun recheck_urls :: "(string \<Rightarrow> bool) \<Rightarrow> (string \<times> u32 \<times> u32) list \<Rightarrow> yp_state \<Rightarrow> yp_state" where
  "recheck_urls curl_new [] st = st"
| "recheck_urls curl_new (cfg # cfgs) st =
     (case find_yp_server (fst cfg) st of
        None \<Rightarrow>
          if curl_new (fst cfg)
          then recheck_urls curl_new cfgs (st\<lparr>pending_yps := new_yp_server (server_version st) cfg # pending_yps st\<rparr>)
          else st
      | Some _ \<Rightarrow>
          recheck_urls curl_new cfgs
            (if fst cfg \<in> ys_url ` set (active_yps st)
             then st\<lparr>active_yps := unmark (fst cfg) (active_yps st)\<rparr>
             else st\<lparr>pending_yps := unmark (fst cfg) (pending_yps st)\<rparr>))"

definition yp_recheck_config ::
    "(string \<Rightarrow> bool) \<Rightarrow> u32 \<Rightarrow> string \<Rightarrow> (string \<times> u32 \<times> u32) list \<Rightarrow> yp_state \<Rightarrow> yp_state" where
  "yp_recheck_config curl_new limit server_id yp_directories st =
     (let st = st\<lparr>active_yps := map (\<lambda>s. s\<lparr>ys_remove := True\<rparr>) (active_yps st), yp_client_limit := limit,
                  server_version := server_id\<rparr>
      in (recheck_urls curl_new yp_directories st)\<lparr>yp_update := True\<rparr>)"

definition create_yp_entry :: "yp_env \<Rightarrow> string \<Rightarrow> ypdata" where
  "create_yp_entry E mount =
     (let url = ''http://'' @ ye_hostname E @ '':'' @ show_int (ye_port E) @ mount;
          yp = \<lparr>y_remove = False, y_release = False, y_cmd_ok = False, y_sid = None, y_mount = mount, y_url = [],
            y_listen_url = [], y_server_name = [], y_server_desc = [], y_server_genre = [], y_cluster_password = [],
            y_bitrate = [], y_audio_info = [], y_server_type = [], y_current_song = [], y_subtype = [],
            y_next_update = 0, y_touch_interval = 0, y_error_msg = None, y_process = Do_yp_add\<rparr>;
          yp = (case config_find_mount (ye_fnm E) (ye_mounts E) (Some mount) MOUNT_TYPE_NORMAL of
                  None \<Rightarrow> yp
                | Some m \<Rightarrow> add_yp_info yp (cluster_password m) YP_CLUSTER_PASSWORD)
      in yp\<lparr>y_listen_url := shown (util_url_escape (Some url))\<rparr>)"

text \<open>A new directory gets an entry for each public source of the tree.\<close>

definition add_source :: "yp_env \<Rightarrow> source \<Rightarrow> yp_server \<Rightarrow> yp_server" where
  "add_source E src server =
     (if src_yp_public src \<noteq> 0
      then server\<lparr>ys_mounts := (create_yp_entry E (src_mount src))\<lparr>y_touch_interval := ys_touch_interval server\<rparr> # ys_mounts server\<rparr>
      else server)"

fun activate :: "yp_env \<Rightarrow> yp_server list \<Rightarrow> yp_server list \<Rightarrow> yp_server list" where
  "activate E [] servers = servers"
| "activate E (s # pending) servers = activate E pending (fold (add_source E) (inorder (ye_sources E)) s # servers)"

definition check_servers :: "yp_env \<Rightarrow> yp_state \<Rightarrow> yp_state" where
  "check_servers E st =
     st\<lparr>active_yps := activate E (pending_yps st) (filter (\<lambda>s. \<not> ys_remove s) (active_yps st)), pending_yps := []\<rparr>"

definition add_pending_yp :: "yp_server \<Rightarrow> yp_server" where
  "add_pending_yp s = s\<lparr>ys_mounts := ys_pending_mounts s @ ys_mounts s, ys_pending_mounts := []\<rparr>"

definition delete_marked_yp :: "yp_server \<Rightarrow> yp_server" where
  "delete_marked_yp s = s\<lparr>ys_mounts := filter (\<lambda>yp. \<not> y_remove yp) (ys_mounts s)\<rparr>"

text \<open>One round of the thread.\<close>

fun process_servers :: "yp_env \<Rightarrow> u32 \<Rightarrow> yp_server list \<Rightarrow> yp_server list \<times> bool \<times> yp_call list" where
  "process_servers E limit [] = ([], False, [])"
| "process_servers E limit (s # ss) =
     (let (s, upd, calls) = yp_process_server E limit s;
          (ss, upd', calls') = process_servers E limit ss
      in (s # ss, upd \<or> upd', calls @ calls'))"

definition update_structure :: "yp_env \<Rightarrow> yp_state \<Rightarrow> yp_state" where
  "update_structure E st =
     (let st = check_servers E st
      in st\<lparr>active_yps := map (\<lambda>s. delete_marked_yp (add_pending_yp s)) (active_yps st), yp_update := False\<rparr>)"

definition yp_round :: "yp_env \<Rightarrow> yp_state \<Rightarrow> yp_state \<times> yp_call list" where
  "yp_round E st =
     (let (servers, upd, calls) = process_servers E (yp_client_limit st) (active_yps st);
          st = st\<lparr>active_yps := servers, yp_update := yp_update st \<or> upd\<rparr>
      in (if yp_update st then update_structure E st else st, calls))"

section \<open>What the rest of the server calls\<close>

definition add_mount :: "yp_env \<Rightarrow> string \<Rightarrow> yp_server \<Rightarrow> yp_server" where
  "add_mount E mount s =
     (case find_yp_mount (ys_mounts s) mount of
        None \<Rightarrow>
          s\<lparr>ys_pending_mounts :=
              (create_yp_entry E mount)\<lparr>y_touch_interval := ys_touch_interval s, y_next_update := ye_now E + 60\<rparr>
              # ys_pending_mounts s\<rparr>
      | Some _ \<Rightarrow> s)"

definition yp_add :: "yp_env \<Rightarrow> string \<Rightarrow> yp_state \<Rightarrow> yp_state" where
  "yp_add E mount st =
     st\<lparr>active_yps := map (add_mount E mount) (active_yps st),
        yp_update := yp_update st \<or> (\<exists>s\<in>set (active_yps st). find_yp_mount (ys_mounts s) mount = None)\<rparr>"

definition old_entry :: "ypdata \<Rightarrow> bool" where
  "old_entry yp \<longleftrightarrow> y_release yp \<or> y_remove yp"

fun release_mount :: "string \<Rightarrow> ypdata list \<Rightarrow> ypdata list" where
  "release_mount mount [] = []"
| "release_mount mount (yp # yps) =
     (if y_mount yp = mount \<and> \<not> old_entry yp then yp\<lparr>y_release := True, y_next_update := 0\<rparr> else yp)
     # release_mount mount yps"

definition yp_remove :: "string \<Rightarrow> yp_state \<Rightarrow> yp_state" where
  "yp_remove mount st =
     st\<lparr>active_yps := map (\<lambda>s. s\<lparr>ys_mounts := release_mount mount (ys_mounts s)\<rparr>) (active_yps st)\<rparr>"

text \<open>The first entry of the mountpoint that is not an old one is touched soon.\<close>

fun touch_mount :: "int \<Rightarrow> string \<Rightarrow> ypdata list \<Rightarrow> ypdata list" where
  "touch_mount now mount [] = []"
| "touch_mount now mount (yp # yps) =
     (if y_mount yp = mount \<and> \<not> old_entry yp
      then (if y_process yp = Do_yp_touch \<and> now + uint (y_touch_interval yp) - y_next_update yp > 60
            then yp\<lparr>y_next_update := now + 3\<rparr> else yp) # yps
      else yp # touch_mount now mount yps)"

definition yp_touch :: "int \<Rightarrow> string \<Rightarrow> yp_state \<Rightarrow> yp_state" where
  "yp_touch now mount st =
     st\<lparr>active_yps := map (\<lambda>s. s\<lparr>ys_mounts := touch_mount now mount (ys_mounts s)\<rparr>) (active_yps st)\<rparr>"

end
