(* ===== verification/YP_Entries.thy ===== *)
theory YP_Entries
  imports YP
begin

text \<open>
  What the listing in directories promises: requests are sent whole and once, the lists and their marks
  stay consistent, changes of the configuration and the end of a stream reach the directories; and the
  order of calls in which the end or the new start of a stream is lost.
\<close>

section \<open>One request\<close>

lemma handle_header_fields [simp]:
  "y_remove (handle_returned_header l yp) = y_remove yp"
  "y_release (handle_returned_header l yp) = y_release yp"
  "y_mount (handle_returned_header l yp) = y_mount yp"
  "y_next_update (handle_returned_header l yp) = y_next_update yp"
  "y_process (handle_returned_header l yp) = y_process yp"
  by (simp_all add: handle_returned_header_def Let_def)

lemma handle_header_interval: "30 \<le> y_touch_interval yp \<Longrightarrow> 30 \<le> y_touch_interval (handle_returned_header l yp)"
  by (simp add: handle_returned_header_def Let_def not_less)

lemma fold_header_fields [simp]:
  "y_remove (fold handle_returned_header ls yp) = y_remove yp"
  "y_release (fold handle_returned_header ls yp) = y_release yp"
  "y_mount (fold handle_returned_header ls yp) = y_mount yp"
  "y_next_update (fold handle_returned_header ls yp) = y_next_update yp"
  "y_process (fold handle_returned_header ls yp) = y_process yp"
  by (induction ls arbitrary: yp) simp_all

lemma fold_header_interval: "30 \<le> y_touch_interval yp \<Longrightarrow> 30 \<le> y_touch_interval (fold handle_returned_header ls yp)"
  by (induction ls arbitrary: yp) (simp_all add: handle_header_interval)

lemma refused_fields [simp]:
  "y_remove (refused now yp) = y_remove yp" "y_release (refused now yp) = y_release yp"
  "y_mount (refused now yp) = y_mount yp" "y_touch_interval (refused now yp) = y_touch_interval yp"
  "y_process (refused now yp) = Do_yp_add"
  by (simp_all add: refused_def Let_def)

text \<open>What a request leaves of an entry, and what it says about the next one.\<close>

lemma send_to_yp_entry:
  assumes "send_to_yp E url yp s = (ret, yp')"
  shows "y_remove yp' = y_remove yp" and "y_release yp' = y_release yp" and "y_mount yp' = y_mount yp"
    and "30 \<le> y_touch_interval yp \<Longrightarrow> 30 \<le> y_touch_interval yp'"
    and "ret = 0 \<Longrightarrow> y_process yp' = y_process yp \<and> y_cmd_ok yp' \<and> y_next_update yp' = y_next_update yp"
    and "ret \<noteq> 0 \<Longrightarrow> y_process yp' = Do_yp_add"
    and "ret = -2 \<longleftrightarrow> \<not> snd (ye_perform E url s)"
proof -
  obtain header finished where p: "ye_perform E url s = (header, finished)" by fastforce
  let ?yp = "fold handle_returned_header header (yp\<lparr>y_cmd_ok := False\<rparr>)"
  have i: "30 \<le> y_touch_interval yp \<Longrightarrow> 30 \<le> y_touch_interval ?yp" by (rule fold_header_interval) simp
  have c: "finished \<and> y_cmd_ok ?yp \<and> ret = 0 \<and> yp' = ?yp
      \<or> finished \<and> \<not> y_cmd_ok ?yp \<and> ret = -1 \<and> yp' = refused (ye_now E) ?yp
      \<or> \<not> finished \<and> ret = -2 \<and> yp' = ?yp\<lparr>y_process := Do_yp_add, y_next_update := ye_now E + 1200\<rparr>"
    using assms by (simp add: send_to_yp_def p Let_def split: if_splits)
  show "y_remove yp' = y_remove yp" "y_release yp' = y_release yp" "y_mount yp' = y_mount yp"
    "30 \<le> y_touch_interval yp \<Longrightarrow> 30 \<le> y_touch_interval yp'"
    "ret = 0 \<Longrightarrow> y_process yp' = y_process yp \<and> y_cmd_ok yp' \<and> y_next_update yp' = y_next_update yp"
    "ret \<noteq> 0 \<Longrightarrow> y_process yp' = Do_yp_add" "ret = -2 \<longleftrightarrow> \<not> snd (ye_perform E url s)"
    using c i p by auto
qed

text \<open>An entry in order: the interval, and what the next request will be.\<close>

definition entry_ok :: "ypdata \<Rightarrow> bool" where
  "entry_ok yp \<longleftrightarrow> 30 \<le> y_touch_interval yp \<and> y_process yp \<noteq> Do_yp_remove \<and> (y_process yp = Do_yp_touch \<longrightarrow> y_cmd_ok yp)"

text \<open>What a request that was sent, or was not needed, does.\<close>

lemma run_process_entry:
  assumes "run_process E url limit yp bufsize = (ret, yp', upd, calls)" and "ret \<le> 0" and "30 \<le> y_touch_interval yp"
  shows "entry_ok yp'" and "y_mount yp' = y_mount yp" and "y_release yp' = y_release yp"
    and "upd \<longleftrightarrow> y_process yp = Do_yp_remove" and "y_remove yp' \<longleftrightarrow> y_remove yp \<or> upd"
proof -
  have f: "fits E limit yp bufsize" using run_process_grows(1) [OF assms(1)] assms(2) by simp
  have "entry_ok yp' \<and> y_mount yp' = y_mount yp \<and> y_release yp' = y_release yp
      \<and> (upd \<longleftrightarrow> y_process yp = Do_yp_remove) \<and> (y_remove yp' \<longleftrightarrow> y_remove yp \<or> upd)"
  proof (cases "y_process yp")
    case Do_yp_remove
    show ?thesis
    proof (cases "y_sid yp")
      case None
      then show ?thesis using assms Do_yp_remove by (auto simp: run_process_def do_yp_remove_def entry_ok_def)
    next
      case (Some sid)
      obtain r q where q: "send_to_yp E url yp (''action=remove&sid='' @ sid) = (r, q)" by fastforce
      have e: "yp' = q\<lparr>y_sid := None, y_remove := True, y_process := Do_yp_add\<rparr> \<and> upd"
        using assms(1) Do_yp_remove Some q f by (simp add: run_process_def do_yp_remove_def fits_def)
      show ?thesis using send_to_yp_entry(1-4) [OF q] e assms(3) Do_yp_remove by (simp add: entry_ok_def)
    qed
  next
    case Do_yp_add
    obtain r q where q: "send_to_yp E url (collect_infos E yp) (add_text E (collect_infos E yp)) = (r, q)" by fastforce
    have e: "ret = r \<and> yp' = (if r = 0 then q\<lparr>y_process := Do_yp_touch, y_next_update := ye_later E + 5\<rparr> else q) \<and> \<not> upd"
      using assms(1) Do_yp_add q f by (auto simp: run_process_def do_yp_add_def fits_def Let_def)
    show ?thesis using send_to_yp_entry [OF q] e assms(3) Do_yp_add by (auto simp: entry_ok_def)
  next
    case Do_yp_touch
    obtain r q where q: "send_to_yp E url (touch_infos E yp) (touch_text E limit (touch_infos E yp)) = (r, q)" by fastforce
    have e: "yp' = (if r = 0 then q\<lparr>y_next_update := ye_now E + uint (y_touch_interval q)\<rparr> else q) \<and> \<not> upd"
      using assms(1) Do_yp_touch q f by (auto simp: run_process_def do_yp_touch_def fits_def Let_def split: if_splits)
    show ?thesis using send_to_yp_entry [OF q] e assms(3) Do_yp_touch by (auto simp: entry_ok_def)
  qed
  then show "entry_ok yp'" "y_mount yp' = y_mount yp" "y_release yp' = y_release yp"
    "upd \<longleftrightarrow> y_process yp = Do_yp_remove" "y_remove yp' \<longleftrightarrow> y_remove yp \<or> upd" by blast+
qed

text \<open>The requests that are sent.\<close>

fun posts :: "yp_call list \<Rightarrow> (string \<times> string) list" where
  "posts [] = []"
| "posts (Post url s # cs) = (url, s) # posts cs"
| "posts (Now_playing m s # cs) = posts cs"

lemma posts_append [simp]: "posts (xs @ ys) = posts xs @ posts ys"
  by (induction xs rule: posts.induct) simp_all

text \<open>A request that does not fit sends nothing, and a later try starts where the first one did.\<close>

lemma playing_posts [simp]: "posts (case song of None \<Rightarrow> [] | Some s \<Rightarrow> [Now_playing m s]) = []"
  by (cases song) simp_all

lemma current_song_touch [simp]: "current_song E (touch_infos E yp) = current_song E yp"
  by (simp add: current_song_def)

lemma run_process_retry:
  assumes "run_process E url limit yp bufsize = (ret, yp', upd, calls)" and "0 < ret"
  shows "posts calls = []" and "\<not> upd" and "y_next_update yp' = y_next_update yp"
    and "run_process E url limit yp' big = run_process E url limit yp big"
proof -
  have f: "\<not> fits E limit yp bufsize" using run_process_grows(1) [OF assms(1)] assms(2) by simp
  have "posts calls = [] \<and> \<not> upd \<and> y_next_update yp' = y_next_update yp \<and> run_process E url limit yp' big = run_process E url limit yp big"
  proof (cases "y_process yp")
    case Do_yp_remove
    then show ?thesis using assms(1) f by (auto simp: run_process_def do_yp_remove_def fits_def split: option.splits)
  next
    case Do_yp_add
    then have "yp' = collect_infos E yp \<and> \<not> upd \<and> calls = []"
      using assms(1) f by (simp add: run_process_def do_yp_add_def fits_def Let_def)
    then show ?thesis using Do_yp_add by (simp add: run_process_def do_yp_add_def)
  next
    case Do_yp_touch
    then have "yp' = touch_infos E yp \<and> \<not> upd \<and> posts calls = []"
      using assms(1) f by (auto simp: run_process_def do_yp_touch_def fits_def Let_def)
    then show ?thesis using Do_yp_touch
      by (cases "current_song E yp") (simp_all add: run_process_def do_yp_touch_def Let_def)
  qed
  then show "posts calls = []" "\<not> upd" "y_next_update yp' = y_next_update yp" "run_process E url limit yp' big = run_process E url limit yp big" by blast+
qed

lemma retry_released:
  assumes "run_process E url limit (if_released yp) bufsize = (ret, yp', upd, calls)" and "0 < ret"
  shows "if_released yp' = yp'"
proof (cases "y_release yp")
  case True
  have "y_process yp' = Do_yp_remove" "y_next_update yp' = 0"
    using run_process_grows(2) [OF assms] run_process_retry(3) [OF assms] True by (simp_all add: if_released_def)
  then show ?thesis by (simp add: if_released_def)
next
  case False
  then show ?thesis using run_process_grows(2) [OF assms] by (simp add: if_released_def)
qed

lemma run_process_fits:
  "fits E limit yp bufsize \<Longrightarrow> fits E limit yp big \<Longrightarrow> run_process E url limit yp bufsize = run_process E url limit yp big"
  by (cases "y_process yp"; cases "y_sid yp")
    (simp_all add: run_process_def do_yp_remove_def do_yp_add_def do_yp_touch_def fits_def Let_def)

lemma process_loop_whole:
  assumes "run_process E url limit (if_released yp) big = (ret, yp', upd, calls)" and "ret \<le> 0"
  shows "\<exists>calls'. process_loop E url limit bufsize yp = (ret, yp', upd, calls') \<and> posts calls' = posts calls"
  using assms
proof (induction E url limit bufsize yp rule: process_loop.induct)
  case (1 E url limit bufsize yp)
  obtain r q u cs where q: "run_process E url limit (if_released yp) bufsize = (r, q, u, cs)"
    by (cases "run_process E url limit (if_released yp) bufsize")
  show ?case
  proof (cases "r \<le> 0")
    case True
    have f: "fits E limit (if_released yp) bufsize" "fits E limit (if_released yp) big"
      using run_process_grows(1) [OF q] run_process_grows(1) [OF "1.prems"(1)] True "1.prems"(2) by simp_all
    have "run_process E url limit (if_released yp) bufsize = run_process E url limit (if_released yp) big"
      by (rule run_process_fits [OF f])
    then show ?thesis using q True "1.prems"(1) by (subst process_loop.simps) simp
  next
    case False
    have "run_process E url limit (if_released q) big = (ret, yp', upd, calls)"
      using run_process_retry(4) [OF q] retry_released [OF q] False "1.prems"(1) by simp
    from "1.IH" [OF q [symmetric] refl refl refl False this "1.prems"(2)]
    obtain cs' where c: "process_loop E url limit (nat r) q = (ret, yp', upd, cs')" "posts cs' = posts calls" by blast
    have "process_loop E url limit bufsize yp = (ret, yp', u \<or> upd, cs @ cs')"
      by (subst process_loop.simps) (use q c(1) False in simp)
    then show ?thesis using run_process_retry(1,2) [OF q] False c(2) by auto
  qed
qed

lemma fits_some: "\<exists>big. fits E limit yp big"
  by (cases "y_process yp"; cases "y_sid yp") (auto simp: fits_def)

lemma one_post: "run_process E url limit yp bufsize = (ret, yp', upd, calls) \<Longrightarrow> length (posts calls) \<le> 1"
  by (auto simp: run_process_def do_yp_remove_def do_yp_add_def do_yp_touch_def Let_def
      split: yp_command.splits option.splits if_splits prod.splits)

text \<open>What an entry goes through in a pass: nothing, or one request with a buffer that is long enough.\<close>

lemma process_ypdata_whole:
  "ye_now E < y_next_update yp \<and> process_ypdata E url limit yp = (0, yp, False, [])
   \<or> \<not> ye_now E < y_next_update yp
     \<and> (\<exists>big ret yp' upd calls calls'. run_process E url limit (if_released yp) big = (ret, yp', upd, calls) \<and> ret \<le> 0
          \<and> process_ypdata E url limit yp = (ret, yp', upd, calls') \<and> posts calls' = posts calls)"
proof (cases "ye_now E < y_next_update yp")
  case False
  obtain big where big: "fits E limit (if_released yp) big" using fits_some by blast
  obtain ret yp' upd calls where r: "run_process E url limit (if_released yp) big = (ret, yp', upd, calls)"
    by (cases "run_process E url limit (if_released yp) big")
  then have "ret \<le> 0" using run_process_grows(1) [OF r] big by simp
  moreover from process_loop_whole [OF r this, of 1024] obtain calls'
    where "process_ypdata E url limit yp = (ret, yp', upd, calls')" "posts calls' = posts calls"
    using False by (auto simp: process_ypdata_def)
  ultimately show ?thesis using r False by blast
qed (simp add: process_ypdata_def)

text \<open>
  requests to a directory. An entry whose time has not come is left alone. Otherwise, however long
  the text of its request is, the loop that enlarges the buffer ends, and the outcome is that of
  the request made once with a buffer that is long enough: the same text goes out in one piece, at most
  one request is sent, and the entry and the result are the same.
\<close>

theorem request_sent_whole:
  "(ye_now E < y_next_update yp \<longrightarrow> process_ypdata E url limit yp = (0, yp, False, []))
   \<and> (y_next_update yp \<le> ye_now E \<longrightarrow>
       (\<exists>big ret yp' upd calls calls'. run_process E url limit (if_released yp) big = (ret, yp', upd, calls) \<and> ret \<le> 0
          \<and> process_ypdata E url limit yp = (ret, yp', upd, calls') \<and> posts calls' = posts calls
          \<and> length (posts calls') \<le> 1))"
  using process_ypdata_whole [of E yp url limit] one_post by (fastforce simp: not_less)

definition demo_yp_env :: yp_env where
  "demo_yp_env = \<lparr>ye_now = 1000, ye_later = 1001, ye_stats = (\<lambda>m name. None),
     ye_perform = (\<lambda>url s. ([''YPResponse: 1'', ''SID: 42'', ''TouchFreq: 200''], True)), ye_admin = ''me'',
     ye_hostname = ''localhost'', ye_port = 8000, ye_fnm = (=), ye_mounts = [], ye_sources = Leaf\<rparr>"

definition demo_entry :: ypdata where
  "demo_entry = (create_yp_entry demo_yp_env ''/a'')\<lparr>y_touch_interval := 60\<rparr>"

theorem request_sent_whole_witness:
  "\<exists>ret yp' upd calls. process_ypdata demo_yp_env ''http://dir'' 100 demo_entry = (ret, yp', upd, calls) \<and> length (posts calls) \<le> 1"
proof -
  have "y_next_update demo_entry \<le> ye_now demo_yp_env"
    by (simp add: demo_entry_def create_yp_entry_def demo_yp_env_def Let_def config_find_mount_def split: option.split)
  with request_sent_whole [of demo_yp_env demo_entry "''http://dir''" 100] show ?thesis by blast
qed

section \<open>All entries\<close>

definition server_ok :: "yp_server \<Rightarrow> bool" where
  "server_ok s \<longleftrightarrow> 30 \<le> ys_touch_interval s \<and> 1 \<le> ys_url_timeout s \<and> ys_url_timeout s \<le> 10
     \<and> (\<forall>yp\<in>set (ys_mounts s @ ys_pending_mounts s). entry_ok yp)"

text \<open>Nothing waits for the thread to update the lists.\<close>

definition settled :: "yp_server \<Rightarrow> bool" where
  "settled s \<longleftrightarrow> \<not> ys_remove s \<and> ys_pending_mounts s = [] \<and> (\<forall>yp\<in>set (ys_mounts s). \<not> y_remove yp)"

lemma entry_ok_released: "entry_ok yp \<Longrightarrow> 30 \<le> y_touch_interval (if_released yp)"
  by (simp add: entry_ok_def if_released_def)

lemma process_ypdata_entry:
  assumes "process_ypdata E url limit yp = (ret, yp', upd, calls)" and "entry_ok yp"
  shows "entry_ok yp' \<and> y_mount yp' = y_mount yp \<and> y_release yp' = y_release yp \<and> (y_remove yp' \<longleftrightarrow> y_remove yp \<or> upd)
    \<and> (upd \<longleftrightarrow> y_release yp \<and> y_next_update yp \<le> ye_now E)"
proof -
  from process_ypdata_whole [of E yp url limit]
  consider "ye_now E < y_next_update yp" "process_ypdata E url limit yp = (0, yp, False, [])"
    | big cs where "\<not> ye_now E < y_next_update yp" "run_process E url limit (if_released yp) big = (ret, yp', upd, cs)" "ret \<le> 0"
    using assms(1) by auto
  then show ?thesis
  proof cases
    case 1
    then show ?thesis using assms by simp
  next
    case 2
    have "y_process (if_released yp) = Do_yp_remove \<longleftrightarrow> y_release yp"
      using assms(2) by (simp add: if_released_def entry_ok_def)
    moreover have "y_mount (if_released yp) = y_mount yp" "y_release (if_released yp) = y_release yp"
      "y_remove (if_released yp) = y_remove yp" by (simp_all add: if_released_def)
    ultimately show ?thesis using run_process_entry [OF 2(2,3) entry_ok_released [OF assms(2)]] 2(1) by simp
  qed
qed

lemma put_off_ok: "entry_ok yp \<Longrightarrow> entry_ok (yp\<lparr>y_process := Do_yp_add, y_next_update := n\<rparr>)"
  by (simp add: entry_ok_def)

text \<open>A pass over the entries keeps them in order; marks appear only together with the request to update the lists.\<close>

lemma process_entries_ok:
  "process_entries E url limit state yps = (yps', upd, calls) \<Longrightarrow> \<forall>yp\<in>set yps. entry_ok yp \<Longrightarrow>
     (\<forall>yp\<in>set yps'. entry_ok yp) \<and> map y_mount yps' = map y_mount yps
     \<and> (\<not> upd \<longrightarrow> map y_remove yps' = map y_remove yps)"
proof (induction yps arbitrary: state yps' upd calls)
  case (Cons yp yps)
  obtain st1 yp1 u1 c1 where 1: "(if state = -2 then (state, yp\<lparr>y_process := Do_yp_add, y_next_update := y_next_update yp + 900\<rparr>, False, [])
      else process_ypdata E url limit yp) = (st1, yp1, u1, c1)" (is "?e = _") by (cases ?e)
  obtain yps2 u2 c2 where 2: "process_entries E url limit st1 yps = (yps2, u2, c2)"
    by (cases "process_entries E url limit st1 yps")
  have r: "yps' = yp1 # yps2" "upd = (u1 \<or> u2)" using Cons.prems(1) 1 2 by (simp_all add: Let_def split: if_splits)
  have e: "entry_ok yp1 \<and> y_mount yp1 = y_mount yp \<and> (\<not> u1 \<longrightarrow> y_remove yp1 = y_remove yp)"
  proof (cases "state = -2")
    case True
    then show ?thesis using 1 Cons.prems(2) put_off_ok by auto
  next
    case False
    then show ?thesis using 1 Cons.prems(2) process_ypdata_entry [of E url limit yp st1 yp1 u1 c1] by auto
  qed
  show ?case using Cons.IH [OF 2] Cons.prems(2) e r by simp
qed simp

lemma process_server_ok:
  assumes "yp_process_server E limit s = (s', upd, calls)" and "server_ok s"
  shows "server_ok s' \<and> ys_url s' = ys_url s \<and> (\<not> upd \<longrightarrow> settled s' = settled s)"
proof -
  obtain yps where y: "process_entries E (ys_url s) limit 0 (ys_mounts s) = (yps, upd, calls)" "s' = s\<lparr>ys_mounts := yps\<rparr>"
    using assms(1) by (auto simp: yp_process_server_def split: prod.splits)
  note e = process_entries_ok [OF y(1)]
  have m: "(\<forall>yp\<in>set yps. \<not> y_remove yp) \<longleftrightarrow> True \<notin> set (map y_remove yps)" for yps by auto
  have ok: "\<forall>yp\<in>set (ys_mounts s). entry_ok yp" using assms(2) by (simp add: server_ok_def)
  then have "server_ok s'" using e assms(2) y(2) by (auto simp: server_ok_def)
  moreover have "\<not> upd \<longrightarrow> settled s' = settled s" using e ok y(2) unfolding settled_def m by simp
  ultimately show ?thesis using y(2) by simp
qed

lemma process_servers_ok:
  "process_servers E limit ss = (ss', upd, calls) \<Longrightarrow> \<forall>s\<in>set ss. server_ok s \<Longrightarrow>
     (\<forall>s\<in>set ss'. server_ok s) \<and> map ys_url ss' = map ys_url ss
     \<and> (\<not> upd \<longrightarrow> (\<forall>s\<in>set ss. settled s) \<longrightarrow> (\<forall>s\<in>set ss'. settled s))"
proof (induction ss arbitrary: ss' upd calls)
  case (Cons s ss)
  obtain s1 u1 c1 where 1: "yp_process_server E limit s = (s1, u1, c1)" by (cases "yp_process_server E limit s")
  obtain ss2 u2 c2 where 2: "process_servers E limit ss = (ss2, u2, c2)" by (cases "process_servers E limit ss")
  have r: "ss' = s1 # ss2" "upd = (u1 \<or> u2)" using Cons.prems(1) 1 2 by simp_all
  show ?case using process_server_ok [OF 1] Cons.IH [OF 2] Cons.prems(2) r by simp
qed simp

text \<open>The update of the lists.\<close>

lemma create_yp_entry_fields [simp]:
  "y_process (create_yp_entry E m) = Do_yp_add" "y_mount (create_yp_entry E m) = m"
  "y_remove (create_yp_entry E m) = False" "y_release (create_yp_entry E m) = False"
  by (simp_all add: create_yp_entry_def Let_def split: option.split)

lemma add_source_ok: "server_ok s \<Longrightarrow> server_ok (add_source E src s)"
  by (simp add: add_source_def server_ok_def entry_ok_def)

lemma add_sources_ok: "server_ok s \<Longrightarrow> server_ok (fold (add_source E) srcs s)"
  by (induction srcs arbitrary: s) (simp_all add: add_source_ok)

lemma add_source_url [simp]: "ys_url (fold (add_source E) srcs s) = ys_url s"
  by (induction srcs arbitrary: s) (simp_all add: add_source_def)

lemma add_source_marks [simp]: "ys_remove (fold (add_source E) srcs s) = ys_remove s"
  by (induction srcs arbitrary: s) (simp_all add: add_source_def)

lemma activate_rev: "activate E ps ss = rev (map (\<lambda>s. fold (add_source E) (inorder (ye_sources E)) s) ps) @ ss"
  by (induction ps arbitrary: ss) simp_all

definition refreshed :: "yp_server \<Rightarrow> yp_server" where
  "refreshed s = delete_marked_yp (add_pending_yp s)"

lemma refreshed_ok: "server_ok s \<Longrightarrow> server_ok (refreshed s)"
  by (auto simp: refreshed_def server_ok_def delete_marked_yp_def add_pending_yp_def)

lemma refreshed_settled [simp]: "settled (refreshed s) \<longleftrightarrow> \<not> ys_remove s"
  by (auto simp: refreshed_def settled_def delete_marked_yp_def add_pending_yp_def)

lemma refreshed_url [simp]: "ys_url (refreshed s) = ys_url s"
  by (simp add: refreshed_def delete_marked_yp_def add_pending_yp_def)

lemma update_structure_servers:
  "active_yps (update_structure E st) =
     map refreshed (rev (map (\<lambda>s. fold (add_source E) (inorder (ye_sources E)) s) (pending_yps st)) @ filter (\<lambda>s. \<not> ys_remove s) (active_yps st))"
  "pending_yps (update_structure E st) = []" "yp_update (update_structure E st) = False"
  by (simp_all add: update_structure_def check_servers_def activate_rev refreshed_def Let_def)

text \<open>The list of servers is well formed: no directory twice, every server in order.\<close>

definition well_listed :: "yp_state \<Rightarrow> bool" where
  "well_listed st \<longleftrightarrow> distinct (map ys_url (active_yps st @ pending_yps st))
     \<and> (\<forall>s\<in>set (active_yps st @ pending_yps st). server_ok s)"

lemma server_ok_mark [simp]: "server_ok (s\<lparr>ys_remove := b\<rparr>) = server_ok s"
  by (simp add: server_ok_def)

lemma unmark_map:
  "distinct (map ys_url ss) \<Longrightarrow> unmark u ss = map (\<lambda>s. if ys_url s = u then s\<lparr>ys_remove := False\<rparr> else s) ss"
proof (induction ss)
  case (Cons s ss)
  show ?case
  proof (cases "ys_url s = u")
    case True
    then have "u \<notin> ys_url ` set ss" using Cons.prems by simp
    then have "ys_url x \<noteq> u" if "x \<in> set ss" for x using that by (metis image_eqI)
    then have "map (\<lambda>s. if ys_url s = u then s\<lparr>ys_remove := False\<rparr> else s) ss = ss"
      by (intro map_idI) auto
    with True show ?thesis by simp
  qed (use Cons in simp)
qed simp

lemma unmark_urls [simp]: "map ys_url (unmark u ss) = map ys_url ss"
  by (induction ss) simp_all

lemma unmark_url_set [simp]: "ys_url ` set (unmark u ss) = ys_url ` set ss"
  by (induction ss) simp_all

lemma unmark_ok: "\<forall>s\<in>set ss. server_ok s \<Longrightarrow> \<forall>s\<in>set (unmark u ss). server_ok s"
  by (induction ss) simp_all

lemma one_le_u32: "(1 :: u32) \<le> a \<longleftrightarrow> a \<noteq> 0"
  by (metis linorder_not_less word_less_1)

lemma new_yp_server_ok: "server_ok (new_yp_server v cfg)" "ys_url (new_yp_server v cfg) = fst cfg"
  "\<not> ys_remove (new_yp_server v cfg)" "ys_mounts (new_yp_server v cfg) = []" "ys_pending_mounts (new_yp_server v cfg) = []"
  by (auto simp: new_yp_server_def server_ok_def not_less one_le_u32 split: prod.split)

lemma find_None_image: "find (\<lambda>x. f x = u) xs = None \<longleftrightarrow> u \<notin> f ` set xs"
  by (induction xs) auto

lemma find_yp_server_None: "find_yp_server u st = None \<longleftrightarrow> u \<notin> ys_url ` set (active_yps st @ pending_yps st)"
  using find_None_image [of ys_url u "active_yps st"] find_None_image [of ys_url u "pending_yps st"]
  by (cases "find (\<lambda>s. ys_url s = u) (active_yps st)") (simp_all add: find_yp_server_def image_Un)

lemma well_listed_new:
  "well_listed st \<Longrightarrow> find_yp_server (fst cfg) st = None \<Longrightarrow> well_listed (st\<lparr>pending_yps := new_yp_server v cfg # pending_yps st\<rparr>)"
  by (simp add: well_listed_def find_yp_server_None new_yp_server_ok image_Un)

lemma well_listed_unmark:
  assumes "well_listed st"
  shows "well_listed (st\<lparr>active_yps := unmark u (active_yps st)\<rparr>)" and "well_listed (st\<lparr>pending_yps := unmark u (pending_yps st)\<rparr>)"
proof -
  have d: "distinct (map ys_url (active_yps st @ pending_yps st))"
    and a: "\<forall>s\<in>set (active_yps st). server_ok s" and p: "\<forall>s\<in>set (pending_yps st). server_ok s"
    using assms by (simp_all add: well_listed_def)
  show "well_listed (st\<lparr>active_yps := unmark u (active_yps st)\<rparr>)"
    using d unmark_ok [OF a, of u] p by (simp add: well_listed_def ball_Un)
  show "well_listed (st\<lparr>pending_yps := unmark u (pending_yps st)\<rparr>)"
    using d unmark_ok [OF p, of u] a by (simp add: well_listed_def ball_Un)
qed

lemma recheck_urls_ok: "well_listed st \<Longrightarrow> well_listed (recheck_urls curl cfgs st)"
proof (induction cfgs arbitrary: st)
  case (Cons cfg cfgs)
  show ?case
  proof (cases "find_yp_server (fst cfg) st")
    case None
    then show ?thesis using Cons.IH [OF well_listed_new [OF Cons.prems None]] Cons.prems by simp
  next
    case (Some s)
    then show ?thesis using Cons.IH [OF well_listed_unmark(1) [OF Cons.prems]] Cons.IH [OF well_listed_unmark(2) [OF Cons.prems]] by simp
  qed
qed simp

text \<open>With a handle for every directory the whole configuration is taken over.\<close>

definition keep_listed :: "string set \<Rightarrow> yp_server list \<Rightarrow> yp_server list" where
  "keep_listed U ss = map (\<lambda>s. if ys_url s \<in> U then s\<lparr>ys_remove := False\<rparr> else s) ss"

lemma keep_listed_absent: "u \<notin> ys_url ` set ss \<Longrightarrow> keep_listed (insert u U) ss = keep_listed U ss"
  by (induction ss) (auto simp: keep_listed_def)

lemma keep_listed_unmark:
  "distinct (map ys_url ss) \<Longrightarrow> keep_listed U (unmark u ss) = keep_listed (insert u U) ss"
  unfolding unmark_map keep_listed_def map_map by (intro map_cong refl) simp

lemma recheck_urls_all:
  assumes "\<And>u. curl u"
  shows "well_listed st \<Longrightarrow>
     active_yps (recheck_urls curl cfgs st) = keep_listed (fst ` set cfgs) (active_yps st)
     \<and> ys_url ` set (pending_yps (recheck_urls curl cfgs st))
       = ys_url ` set (pending_yps st) \<union> (fst ` set cfgs - ys_url ` set (active_yps st))"
proof (induction cfgs arbitrary: st)
  case Nil
  show ?case by (simp add: keep_listed_def)
next
  case (Cons cfg cfgs)
  let ?u = "fst cfg"
  show ?case
  proof (cases "find_yp_server ?u st")
    case None
    then have "?u \<notin> ys_url ` set (active_yps st)" by (simp add: find_yp_server_None image_Un)
    then show ?thesis using Cons.IH [OF well_listed_new [OF Cons.prems None]] None assms
      by (simp add: new_yp_server_ok keep_listed_absent insert_Diff_if)
  next
    case (Some s)
    show ?thesis
    proof (cases "?u \<in> ys_url ` set (active_yps st)")
      case True
      have "distinct (map ys_url (active_yps st))" using Cons.prems by (simp add: well_listed_def)
      then show ?thesis using Cons.IH [OF well_listed_unmark(1) [OF Cons.prems, of ?u]] Some True
        by (simp add: keep_listed_unmark insert_Diff_if)
    next
      case False
      then have "?u \<in> ys_url ` set (pending_yps st)" using Some find_yp_server_None [of ?u st] by (simp add: image_Un)
      then show ?thesis using Cons.IH [OF well_listed_unmark(2) [OF Cons.prems, of ?u]] Some False
        by (simp add: keep_listed_absent insert_Diff_if insert_absorb)
    qed
  qed
qed

section \<open>All calls\<close>

definition nothing_waits :: "yp_state \<Rightarrow> bool" where
  "nothing_waits st \<longleftrightarrow> pending_yps st = [] \<and> (\<forall>s\<in>set (active_yps st). settled s)"

definition yp_inv :: "yp_state \<Rightarrow> bool" where
  "yp_inv st \<longleftrightarrow> well_listed st \<and> (\<forall>s\<in>set (pending_yps st). \<not> ys_remove s) \<and> (yp_update st \<or> nothing_waits st)"

text \<open>The calls of the rest of the server and the rounds of the thread, in any order.\<close>

inductive yp_reach :: "yp_state \<Rightarrow> bool" where
  start: "yp_reach \<lparr>active_yps = [], pending_yps = [], yp_update = False, yp_client_limit = 0, server_version = []\<rparr>"
| recheck: "yp_reach st \<Longrightarrow> yp_reach (yp_recheck_config curl limit server_id dirs st)"
| round: "yp_reach st \<Longrightarrow> yp_reach (fst (yp_round E st))"
| add: "yp_reach st \<Longrightarrow> yp_reach (yp_add E mount st)"
| remove: "yp_reach st \<Longrightarrow> yp_reach (yp_remove mount st)"
| touch: "yp_reach st \<Longrightarrow> yp_reach (yp_touch now mount st)"

text \<open>A change of the entries of each server that keeps them in order.\<close>

lemma well_listed_map:
  assumes "well_listed st" and "\<And>s. server_ok s \<Longrightarrow> server_ok (f s)" and "\<And>s. ys_url (f s) = ys_url s"
  shows "well_listed (st\<lparr>active_yps := map f (active_yps st)\<rparr>)"
  using assms by (auto simp: well_listed_def comp_def image_image)

lemma well_listed_other [simp]:
  "well_listed (st\<lparr>yp_update := u\<rparr>) = well_listed st" "well_listed (st\<lparr>yp_client_limit := l\<rparr>) = well_listed st"
  "well_listed (st\<lparr>server_version := v\<rparr>) = well_listed st"
  by (simp_all add: well_listed_def)

lemma well_listed_recheck:
  assumes "well_listed st"
  shows "well_listed (yp_recheck_config curl limit server_id dirs st)"
proof -
  have "well_listed (st\<lparr>active_yps := map (\<lambda>s. s\<lparr>ys_remove := True\<rparr>) (active_yps st)\<rparr>)"
    by (rule well_listed_map [OF assms]) simp_all
  then have "well_listed (st\<lparr>active_yps := map (\<lambda>s. s\<lparr>ys_remove := True\<rparr>) (active_yps st), yp_client_limit := limit,
      server_version := server_id\<rparr>)" by simp
  then show ?thesis using recheck_urls_ok by (simp add: yp_recheck_config_def Let_def)
qed

lemma yp_round_eq:
  assumes "process_servers E (yp_client_limit st) (active_yps st) = (ss, upd, calls)"
  shows "yp_round E st =
     (if yp_update st \<or> upd then update_structure E (st\<lparr>active_yps := ss, yp_update := True\<rparr>)
      else st\<lparr>active_yps := ss, yp_update := False\<rparr>, calls)"
  using assms by (auto simp: yp_round_def Let_def)

lemma update_structure_inv:
  assumes "well_listed st"
  shows "well_listed (update_structure E st)" and "\<forall>s\<in>set (pending_yps st). \<not> ys_remove s \<Longrightarrow> nothing_waits (update_structure E st)"
proof -
  let ?new = "rev (map (\<lambda>s. fold (add_source E) (inorder (ye_sources E)) s) (pending_yps st))"
  let ?old = "filter (\<lambda>s. \<not> ys_remove s) (active_yps st)"
  have u: "map ys_url (?new @ ?old) = rev (map ys_url (pending_yps st)) @ map ys_url ?old" by (simp add: rev_map comp_def)
  have "distinct (map ys_url ?old)" "set (map ys_url ?old) \<subseteq> ys_url ` set (active_yps st)"
    using assms by (auto simp: well_listed_def distinct_map_filter)
  moreover have "distinct (map ys_url (pending_yps st))" "ys_url ` set (active_yps st) \<inter> ys_url ` set (pending_yps st) = {}"
    using assms by (simp_all add: well_listed_def)
  ultimately have "distinct (map ys_url (?new @ ?old))" unfolding u distinct_append by auto
  moreover have "\<forall>s\<in>set (?new @ ?old). server_ok s" using assms add_sources_ok by (auto simp: well_listed_def)
  ultimately show "well_listed (update_structure E st)"
    using refreshed_ok by (auto simp: well_listed_def update_structure_servers comp_def)
  show "\<forall>s\<in>set (pending_yps st). \<not> ys_remove s \<Longrightarrow> nothing_waits (update_structure E st)"
    by (auto simp: nothing_waits_def update_structure_servers)
qed

lemma recheck_urls_pending:
  "\<forall>s\<in>set (pending_yps st). \<not> ys_remove s \<Longrightarrow> \<forall>s\<in>set (pending_yps (recheck_urls curl cfgs st)). \<not> ys_remove s"
proof (induction cfgs arbitrary: st)
  case (Cons cfg cfgs)
  have "\<forall>s\<in>set ss. \<not> ys_remove s \<Longrightarrow> \<forall>s\<in>set (unmark u ss). \<not> ys_remove s" for u ss by (induction ss) simp_all
  from this [OF Cons.prems, of "fst cfg"] show ?case using Cons.prems
    by (cases "find_yp_server (fst cfg) st"; simp only: recheck_urls.simps option.case split: if_split)
      (auto intro!: Cons.IH simp: new_yp_server_ok)
qed simp

lemma recheck_config_pending:
  "\<forall>s\<in>set (pending_yps st). \<not> ys_remove s \<Longrightarrow> \<forall>s\<in>set (pending_yps (yp_recheck_config curl limit v dirs st)). \<not> ys_remove s"
  unfolding yp_recheck_config_def Let_def by (simp, rule recheck_urls_pending, simp)

lemma add_mount_ok: "server_ok s \<Longrightarrow> server_ok (add_mount E m s)" "ys_url (add_mount E m s) = ys_url s"
  by (simp_all add: add_mount_def server_ok_def entry_ok_def split: option.split)

lemma release_mount_set:
  "yp' \<in> set (release_mount m yps) \<Longrightarrow> \<exists>yp\<in>set yps. yp' = yp \<or> yp' = yp\<lparr>y_release := True, y_next_update := 0\<rparr>"
  by (induction yps) (auto split: if_splits)

lemma touch_mount_set: "yp' \<in> set (touch_mount now m yps) \<Longrightarrow> \<exists>yp\<in>set yps. \<exists>n. yp' = yp \<or> yp' = yp\<lparr>y_next_update := n\<rparr>"
  by (induction yps) (auto split: if_splits)

lemma yp_inv_mounts:
  assumes "yp_inv st" and "\<And>yps yp'. yp' \<in> set (f yps) \<Longrightarrow> \<exists>yp\<in>set yps. (entry_ok yp \<longrightarrow> entry_ok yp') \<and> y_remove yp' = y_remove yp"
  shows "yp_inv (st\<lparr>active_yps := map (\<lambda>s. s\<lparr>ys_mounts := f (ys_mounts s)\<rparr>) (active_yps st)\<rparr>)" (is "yp_inv ?st")
proof -
  have "server_ok (s\<lparr>ys_mounts := f (ys_mounts s)\<rparr>)" if "server_ok s" for s
  proof -
    have "\<forall>yp\<in>set (f (ys_mounts s)). entry_ok yp" using that assms(2) [of _ "ys_mounts s"] by (fastforce simp: server_ok_def)
    then show ?thesis using that by (auto simp: server_ok_def)
  qed
  then have "well_listed ?st" using assms(1) by (intro well_listed_map) (simp_all add: yp_inv_def)
  moreover have "settled (s\<lparr>ys_mounts := f (ys_mounts s)\<rparr>)" if "settled s" for s
    using that assms(2) [of _ "ys_mounts s"] by (fastforce simp: settled_def)
  then have "nothing_waits st \<longrightarrow> nothing_waits ?st" by (simp add: nothing_waits_def)
  ultimately show ?thesis using assms(1) by (auto simp: yp_inv_def)
qed

lemma yp_inv_round:
  assumes "yp_inv st"
  shows "yp_inv (fst (yp_round E st))"
proof -
  obtain ss upd calls where p: "process_servers E (yp_client_limit st) (active_yps st) = (ss, upd, calls)"
    by (cases "process_servers E (yp_client_limit st) (active_yps st)")
  have "\<forall>s\<in>set (active_yps st). server_ok s" using assms by (simp add: yp_inv_def well_listed_def)
  note q = process_servers_ok [OF p this]
  have w: "well_listed (st\<lparr>active_yps := ss, yp_update := u\<rparr>)" for u
  proof -
    have "ys_url ` set ss = ys_url ` set (active_yps st)" using q by (metis list.set_map)
    then show ?thesis using assms q by (simp add: yp_inv_def well_listed_def ball_Un)
  qed
  have np: "\<forall>s\<in>set (pending_yps st). \<not> ys_remove s" using assms by (simp add: yp_inv_def)
  show ?thesis
  proof (cases "yp_update st \<or> upd")
    case True
    let ?st = "st\<lparr>active_yps := ss, yp_update := True\<rparr>"
    show ?thesis using update_structure_inv [OF w [of True], of E] np True
      by (simp add: yp_round_eq [OF p] yp_inv_def update_structure_servers(2))
  next
    case False
    then have "nothing_waits (st\<lparr>active_yps := ss, yp_update := False\<rparr>)"
      using assms q by (simp add: yp_inv_def nothing_waits_def)
    then show ?thesis using w np False by (simp add: yp_round_eq [OF p] yp_inv_def)
  qed
qed

lemma yp_reach_inv: "yp_reach st \<Longrightarrow> yp_inv st"
proof (induction rule: yp_reach.induct)
  case start
  then show ?case by (simp add: yp_inv_def well_listed_def nothing_waits_def)
next
  case (recheck st curl limit server_id dirs)
  have "yp_update (yp_recheck_config curl limit server_id dirs st)" by (simp add: yp_recheck_config_def Let_def)
  with recheck.IH show ?case
    using well_listed_recheck [of st curl limit server_id dirs] recheck_config_pending [of st curl limit server_id dirs]
    unfolding yp_inv_def by blast
next
  case (round st E)
  show ?case by (rule yp_inv_round [OF round.IH])
next
  case (add st E mount)
  have "well_listed (yp_add E mount st)"
    unfolding yp_add_def using well_listed_map [of st "add_mount E mount"] add_mount_ok add.IH by (simp add: yp_inv_def)
  moreover have "nothing_waits (yp_add E mount st)" if "\<not> yp_update (yp_add E mount st)"
  proof -
    have "\<forall>s\<in>set (active_yps st). add_mount E mount s = s" using that by (auto simp: yp_add_def add_mount_def)
    then have "map (add_mount E mount) (active_yps st) = active_yps st" by (simp add: map_idI)
    then show ?thesis using that add.IH by (simp add: yp_add_def yp_inv_def nothing_waits_def)
  qed
  moreover have "pending_yps (yp_add E mount st) = pending_yps st" by (simp add: yp_add_def)
  ultimately show ?case using add.IH unfolding yp_inv_def by auto
next
  case (remove st mount)
  show ?case unfolding yp_remove_def
    by (rule yp_inv_mounts [OF remove.IH], drule release_mount_set) (auto simp: entry_ok_def)
next
  case (touch st now mount)
  show ?case unfolding yp_touch_def
    by (rule yp_inv_mounts [OF touch.IH], drule touch_mount_set) (auto simp: entry_ok_def)
qed

text \<open>
  C15: the lists of the directories. Whatever the order of the calls, no directory is in the lists twice; the
  timeout of a request is one to ten seconds and the interval between touches at least thirty, whatever the
  configuration and the directory say; an entry is touched only after the directory has acknowledged
  the request before; and when no update of the lists is asked for, none of them has anything that
  waits to be added or removed.
\<close>

theorem directories_consistent:
  assumes "yp_reach st"
  shows "distinct (map ys_url (active_yps st @ pending_yps st))
     \<and> (\<forall>s\<in>set (active_yps st @ pending_yps st).
          30 \<le> ys_touch_interval s \<and> 1 \<le> ys_url_timeout s \<and> ys_url_timeout s \<le> 10
          \<and> (\<forall>yp\<in>set (ys_mounts s @ ys_pending_mounts s). 30 \<le> y_touch_interval yp
               \<and> y_process yp \<noteq> Do_yp_remove \<and> (y_process yp = Do_yp_touch \<longrightarrow> y_cmd_ok yp)))
     \<and> (yp_update st \<or> pending_yps st = [] \<and> (\<forall>s\<in>set (active_yps st). \<not> ys_remove s \<and> ys_pending_mounts s = []
          \<and> (\<forall>yp\<in>set (ys_mounts s). \<not> y_remove yp)))"
proof -
  have i: "well_listed st" "yp_update st \<or> nothing_waits st" using yp_reach_inv [OF assms] by (simp_all add: yp_inv_def)
  show ?thesis
    using i(2) i(1) [unfolded well_listed_def server_ok_def entry_ok_def] unfolding nothing_waits_def settled_def
    by (intro conjI) simp_all
qed

section \<open>The end of a stream\<close>

lemma process_ypdata_result:
  assumes "process_ypdata E url limit yp = (ret, yp', upd, calls)" and "\<And>u s. snd (ye_perform E u s)"
  shows "ret \<noteq> -2"
proof -
  have n: "send_to_yp E url q s = (r, q') \<Longrightarrow> r \<noteq> -2" for q s r q'
    using send_to_yp_entry(7) [of E url q s r q'] assms(2) by simp
  have "run_process E url limit q b = (r, q', u, c) \<Longrightarrow> r \<noteq> -2" for q b r q' u c
  proof (cases "y_process q")
    case Do_yp_remove
    moreover assume "run_process E url limit q b = (r, q', u, c)"
    ultimately show ?thesis
      by (auto dest: n simp: run_process_def do_yp_remove_def Let_def split: option.splits if_splits prod.splits)
  next
    case Do_yp_add
    moreover assume "run_process E url limit q b = (r, q', u, c)"
    ultimately show ?thesis
      by (auto dest: n simp: run_process_def do_yp_add_def Let_def split: if_splits prod.splits)
  next
    case Do_yp_touch
    moreover assume "run_process E url limit q b = (r, q', u, c)"
    ultimately show ?thesis
      by (auto simp: run_process_def do_yp_touch_def Let_def split: if_splits prod.splits)
  qed
  note r = this
  from process_ypdata_whole [of E yp url limit] assms(1)
  consider "ret = 0" | big cs where "run_process E url limit (if_released yp) big = (ret, yp', upd, cs)" by auto
  then show ?thesis using r by cases auto
qed

text \<open>What a released entry says to its directory.\<close>

lemma released_posts:
  assumes "process_ypdata E url limit yp = (ret, yp', upd, calls)" and "y_release yp" and "y_next_update yp \<le> ye_now E"
    and "y_sid yp = Some sid"
  shows "(url, ''action=remove&sid='' @ sid) \<in> set (posts calls)"
proof -
  from process_ypdata_whole [of E yp url limit] assms(1,3)
  obtain big cs where r: "run_process E url limit (if_released yp) big = (ret, yp', upd, cs)" "ret \<le> 0" "posts calls = posts cs"
    by (auto simp: not_less)
  have "y_process (if_released yp) = Do_yp_remove" "y_sid (if_released yp) = Some sid"
    using assms(2,4) by (simp_all add: if_released_def)
  moreover have "fits E limit (if_released yp) big" using run_process_grows(1) [OF r(1)] r(2) by simp
  ultimately have "cs = [Post url (''action=remove&sid='' @ sid)]"
    using r(1) by (auto simp: run_process_def do_yp_remove_def fits_def Let_def split: prod.splits)
  then show ?thesis using r(3) by simp
qed

text \<open>With a directory that can be reached every entry gets its turn.\<close>

lemma process_entries_all:
  assumes "\<And>u s. snd (ye_perform E u s)"
  shows "process_entries E url limit state yps = (yps', upd, calls) \<Longrightarrow> state \<noteq> -2 \<Longrightarrow> \<forall>yp\<in>set yps. entry_ok yp \<Longrightarrow>
     \<forall>yp\<in>set yps. y_release yp \<and> y_next_update yp \<le> ye_now E \<longrightarrow>
         upd \<and> (\<forall>sid. y_sid yp = Some sid \<longrightarrow> (url, ''action=remove&sid='' @ sid) \<in> set (posts calls))"
    and "process_entries E url limit state yps = (yps', upd, calls) \<Longrightarrow> state \<noteq> -2 \<Longrightarrow> \<forall>yp\<in>set yps. entry_ok yp \<Longrightarrow>
     \<forall>yp\<in>set yps. y_mount yp = m \<longrightarrow> y_release yp \<and> y_next_update yp \<le> ye_now E \<Longrightarrow>
     \<forall>yp\<in>set yps'. y_mount yp = m \<longrightarrow> y_remove yp"
proof -
  have *: "process_entries E url limit state yps = (yps', upd, calls) \<Longrightarrow> state \<noteq> -2 \<Longrightarrow> \<forall>yp\<in>set yps. entry_ok yp \<Longrightarrow>
     (\<forall>yp\<in>set yps. y_release yp \<and> y_next_update yp \<le> ye_now E \<longrightarrow>
         upd \<and> (\<forall>sid. y_sid yp = Some sid \<longrightarrow> (url, ''action=remove&sid='' @ sid) \<in> set (posts calls)))
     \<and> ((\<forall>yp\<in>set yps. y_mount yp = m \<longrightarrow> y_release yp \<and> y_next_update yp \<le> ye_now E) \<longrightarrow>
         (\<forall>yp\<in>set yps'. y_mount yp = m \<longrightarrow> y_remove yp))"
  proof (induction yps arbitrary: state yps' upd calls)
    case (Cons yp yps)
    obtain st1 yp1 u1 c1 where 1: "process_ypdata E url limit yp = (st1, yp1, u1, c1)" by (cases "process_ypdata E url limit yp")
    obtain yps2 u2 c2 where 2: "process_entries E url limit st1 yps = (yps2, u2, c2)" by (cases "process_entries E url limit st1 yps")
    have r: "yps' = yp1 # yps2" "upd = (u1 \<or> u2)" "calls = c1 @ c2"
      using Cons.prems(1,2) 1 2 by (simp_all add: Let_def split: if_splits)
    have e: "y_mount yp1 = y_mount yp" "y_remove yp1 \<longleftrightarrow> y_remove yp \<or> u1" "u1 \<longleftrightarrow> y_release yp \<and> y_next_update yp \<le> ye_now E"
      using process_ypdata_entry [OF 1] Cons.prems(3) by simp_all
    have "y_release yp \<and> y_next_update yp \<le> ye_now E \<longrightarrow>
        (\<forall>sid. y_sid yp = Some sid \<longrightarrow> (url, ''action=remove&sid='' @ sid) \<in> set (posts c1))"
      using released_posts [OF 1] by blast
    then show ?case using Cons.IH [OF 2 process_ypdata_result [OF 1 assms]] Cons.prems(3) r e by auto
  qed simp
  show "process_entries E url limit state yps = (yps', upd, calls) \<Longrightarrow> state \<noteq> -2 \<Longrightarrow> \<forall>yp\<in>set yps. entry_ok yp \<Longrightarrow>
     \<forall>yp\<in>set yps. y_release yp \<and> y_next_update yp \<le> ye_now E \<longrightarrow>
         upd \<and> (\<forall>sid. y_sid yp = Some sid \<longrightarrow> (url, ''action=remove&sid='' @ sid) \<in> set (posts calls))" using * by blast
  show "process_entries E url limit state yps = (yps', upd, calls) \<Longrightarrow> state \<noteq> -2 \<Longrightarrow> \<forall>yp\<in>set yps. entry_ok yp \<Longrightarrow>
     \<forall>yp\<in>set yps. y_mount yp = m \<longrightarrow> y_release yp \<and> y_next_update yp \<le> ye_now E \<Longrightarrow>
     \<forall>yp\<in>set yps'. y_mount yp = m \<longrightarrow> y_remove yp" using * by blast
qed

lemma process_servers_all:
  assumes "\<And>u s. snd (ye_perform E u s)"
  shows "process_servers E limit ss = (ss', upd, calls) \<Longrightarrow> \<forall>s\<in>set ss. server_ok s \<Longrightarrow>
     (\<forall>s\<in>set ss. \<forall>yp\<in>set (ys_mounts s). y_release yp \<and> y_next_update yp \<le> ye_now E \<longrightarrow>
         upd \<and> (\<forall>sid. y_sid yp = Some sid \<longrightarrow> (ys_url s, ''action=remove&sid='' @ sid) \<in> set (posts calls)))
     \<and> ((\<forall>s\<in>set ss. \<forall>yp\<in>set (ys_mounts s). y_mount yp = m \<longrightarrow> y_release yp \<and> y_next_update yp \<le> ye_now E) \<longrightarrow>
         (\<forall>s\<in>set ss'. \<forall>yp\<in>set (ys_mounts s). y_mount yp = m \<longrightarrow> y_remove yp))
     \<and> map ys_pending_mounts ss' = map ys_pending_mounts ss"
proof (induction ss arbitrary: ss' upd calls)
  case (Cons s ss)
  obtain yps u1 c1 where y: "process_entries E (ys_url s) limit 0 (ys_mounts s) = (yps, u1, c1)"
    by (cases "process_entries E (ys_url s) limit 0 (ys_mounts s)")
  have 1: "yp_process_server E limit s = (s\<lparr>ys_mounts := yps\<rparr>, u1, c1)" by (simp add: yp_process_server_def y)
  obtain ss2 u2 c2 where 2: "process_servers E limit ss = (ss2, u2, c2)" by (cases "process_servers E limit ss")
  have r: "ss' = s\<lparr>ys_mounts := yps\<rparr> # ss2" "upd = (u1 \<or> u2)" "calls = c1 @ c2" using Cons.prems(1) 1 2 by simp_all
  have ok: "\<forall>yp\<in>set (ys_mounts s). entry_ok yp" using Cons.prems(2) by (simp add: server_ok_def)
  note a = process_entries_all(1) [OF assms y _ ok] process_entries_all(2) [OF assms y _ ok, of m]
  show ?case using a Cons.IH [OF 2] Cons.prems(2) r by auto
qed simp

text \<open>The entries of a mountpoint that is removed.\<close>

lemma release_mount_all:
  "\<forall>yp\<in>set yps. y_mount yp = m \<longrightarrow> \<not> old_entry yp \<Longrightarrow>
     \<forall>yp\<in>set (release_mount m yps). y_mount yp = m \<longrightarrow> y_release yp \<and> y_next_update yp = 0"
  by (induction yps) auto

lemma release_mount_mem:
  "yp \<in> set yps \<Longrightarrow> y_mount yp = m \<Longrightarrow> \<not> old_entry yp \<Longrightarrow> yp\<lparr>y_release := True, y_next_update := 0\<rparr> \<in> set (release_mount m yps)"
  by (induction yps) auto

lemma removed_mount_gone:
  assumes "yp_reach st" and "pending_yps st = []" and "\<And>u s. snd (ye_perform E u s)" and "0 \<le> ye_now E"
    and "\<forall>s\<in>set (active_yps st). m \<notin> y_mount ` set (ys_pending_mounts s)
           \<and> (\<forall>yp\<in>set (ys_mounts s). y_mount yp = m \<longrightarrow> \<not> old_entry yp)"
    and "yp_round E (yp_remove m st) = (st', calls)"
  shows "\<forall>s\<in>set (active_yps st'). m \<notin> y_mount ` set (ys_mounts s)"
    and "\<forall>s\<in>set (active_yps st). \<forall>yp\<in>set (ys_mounts s). \<forall>sid. y_mount yp = m \<and> y_sid yp = Some sid \<longrightarrow>
      (ys_url s, ''action=remove&sid='' @ sid) \<in> set (posts calls)"
proof -
  let ?st = "yp_remove m st"
  obtain ss upd cs where p: "process_servers E (yp_client_limit ?st) (active_yps ?st) = (ss, upd, cs)"
    by (cases "process_servers E (yp_client_limit ?st) (active_yps ?st)")
  have inv: "yp_inv ?st" using yp_reach_inv yp_reach.remove [OF assms(1)] by blast
  then have ok: "\<forall>s\<in>set (active_yps ?st). server_ok s" by (simp add: yp_inv_def well_listed_def)
  note q = process_servers_all [OF assms(3) p ok, of m]
  have rel: "\<forall>s\<in>set (active_yps ?st). \<forall>yp\<in>set (ys_mounts s). y_mount yp = m \<longrightarrow> y_release yp \<and> y_next_update yp \<le> ye_now E"
    using assms(4,5) release_mount_all [of _ m] by (fastforce simp: yp_remove_def)
  with q have gone: "\<forall>s\<in>set ss. \<forall>yp\<in>set (ys_mounts s). y_mount yp = m \<longrightarrow> y_remove yp" by blast
  have calls: "calls = cs" and st': "st' = (if yp_update ?st \<or> upd then update_structure E (?st\<lparr>active_yps := ss, yp_update := True\<rparr>)
      else ?st\<lparr>active_yps := ss, yp_update := False\<rparr>)"
    using assms(6) by (auto simp: yp_round_eq [OF p])
  have "map ys_pending_mounts ss = map ys_pending_mounts (active_yps st)" using q by (simp add: yp_remove_def comp_def)
  then have "ys_pending_mounts ` set ss = ys_pending_mounts ` set (active_yps st)" by (metis list.set_map)
  then have "\<exists>s0\<in>set (active_yps st). ys_pending_mounts s = ys_pending_mounts s0" if "s \<in> set ss" for s
    using that by (metis image_iff)
  then have pend: "\<forall>s\<in>set ss. m \<notin> y_mount ` set (ys_pending_mounts s)" using assms(5) by metis
  show "\<forall>s\<in>set (active_yps st'). m \<notin> y_mount ` set (ys_mounts s)"
  proof (cases "yp_update ?st \<or> upd")
    case True
    have "pending_yps ?st = []" using assms(2) by (simp add: yp_remove_def)
    then have "active_yps st' = map refreshed (filter (\<lambda>s. \<not> ys_remove s) ss)"
      using st' True by (simp add: update_structure_servers)
    moreover have "m \<notin> y_mount ` set (ys_mounts (refreshed s))" if "s \<in> set ss" for s
      using gone pend that by (auto simp: refreshed_def delete_marked_yp_def add_pending_yp_def)
    ultimately show ?thesis by auto
  next
    case False
    then have "\<forall>s\<in>set ss. settled s"
      using process_servers_ok [OF p ok] inv by (simp add: yp_inv_def nothing_waits_def)
    then show ?thesis using st' False gone by (auto simp: settled_def)
  qed
  show "\<forall>s\<in>set (active_yps st). \<forall>yp\<in>set (ys_mounts s). \<forall>sid. y_mount yp = m \<and> y_sid yp = Some sid \<longrightarrow>
      (ys_url s, ''action=remove&sid='' @ sid) \<in> set (posts calls)"
  proof (intro ballI allI impI)
    fix s yp sid assume a: "s \<in> set (active_yps st)" "yp \<in> set (ys_mounts s)" "y_mount yp = m \<and> y_sid yp = Some sid"
    let ?s = "s\<lparr>ys_mounts := release_mount m (ys_mounts s)\<rparr>" and ?yp = "yp\<lparr>y_release := True, y_next_update := 0\<rparr>"
    have "?s \<in> set (active_yps ?st)" using a(1) by (simp add: yp_remove_def)
    moreover have "?yp \<in> set (ys_mounts ?s)" using release_mount_mem [OF a(2)] a assms(5) by simp
    ultimately show "(ys_url s, ''action=remove&sid='' @ sid) \<in> set (posts calls)" using q a(3) assms(4) calls by fastforce
  qed
qed


text \<open>
  a stream that starts again at once is lost. When every directory has an entry for a mountpoint and
  its stream ends and starts again before the thread has made a round, the new start finds the old
  entry, which is already released, and adds nothing; after the round the stream is in no list.
\<close>

theorem restarted_stream_not_listed:
  assumes "yp_reach st" and "pending_yps st = []" and "\<And>u s. snd (ye_perform E u s)" and "0 \<le> ye_now E"
    and "\<forall>s\<in>set (active_yps st). m \<in> y_mount ` set (ys_mounts s) \<and> m \<notin> y_mount ` set (ys_pending_mounts s)
           \<and> (\<forall>yp\<in>set (ys_mounts s). y_mount yp = m \<longrightarrow> \<not> old_entry yp)"
  shows "\<forall>s\<in>set (active_yps (fst (yp_round E (yp_add E' m (yp_remove m st))))). m \<notin> y_mount ` set (ys_mounts s)"
proof -
  have u: "y_mount ` set (release_mount m yps) = y_mount ` set yps" for yps
    by (induction yps) (simp_all add: insert_commute)
  have "find_yp_mount (ys_mounts s) m \<noteq> None" if "s \<in> set (active_yps (yp_remove m st))" for s
    using that assms(5) unfolding find_yp_mount_def find_None_image by (auto simp: yp_remove_def u)
  then have f: "\<forall>s\<in>set (active_yps (yp_remove m st)). add_mount E' m s = s \<and> find_yp_mount (ys_mounts s) m \<noteq> None"
    by (auto simp: add_mount_def split: option.split)
  then have "map (add_mount E' m) (active_yps (yp_remove m st)) = active_yps (yp_remove m st)" by (simp add: map_idI)
  moreover have "\<not> (\<exists>s\<in>set (active_yps (yp_remove m st)). find_yp_mount (ys_mounts s) m = None)" using f by simp
  ultimately have "yp_add E' m (yp_remove m st) = yp_remove m st" unfolding yp_add_def by (simp only:) simp
  then show ?thesis using removed_mount_gone(1) [OF assms(1-4), of m] assms(5) by (metis prod.collapse)
qed

text \<open>A directory with a listed stream.\<close>

definition demo_yp0 :: yp_state where
  "demo_yp0 = fst (yp_round demo_yp_env (yp_add demo_yp_env ''/a''
     (fst (yp_round demo_yp_env (yp_recheck_config (\<lambda>_. True) 100 ''me'' [(''http://dir'', 15, 20)]
       \<lparr>active_yps = [], pending_yps = [], yp_update = False, yp_client_limit = 0, server_version = []\<rparr>)))))"

definition demo_yp :: yp_state where
  "demo_yp = fst (yp_round (demo_yp_env\<lparr>ye_now := 2000\<rparr>) demo_yp0)"

lemma demo_yp_reach: "yp_reach demo_yp"
  unfolding demo_yp_def demo_yp0_def by (intro yp_reach.intros)

definition demo_new :: ypdata where
  "demo_new = (create_yp_entry demo_yp_env ''/a'')\<lparr>y_touch_interval := 30, y_next_update := 1060\<rparr>"

lemma demo_yp0_value:
  "demo_yp0 = \<lparr>active_yps = [\<lparr>ys_url = ''http://dir'', ys_server_id = ''me'', ys_url_timeout = 6, ys_touch_interval = 30,
       ys_remove = False, ys_mounts = [demo_new], ys_pending_mounts = []\<rparr>],
     pending_yps = [], yp_update = False, yp_client_limit = 100, server_version = ''me''\<rparr>"
  by (simp add: demo_yp0_def yp_recheck_config_def find_yp_server_def new_yp_server_def yp_round_def update_structure_def
      check_servers_def delete_marked_yp_def add_pending_yp_def yp_add_def add_mount_def find_yp_mount_def
      yp_process_server_def demo_new_def demo_yp_env_def Let_def)

lemma demo_send:
  assumes "y_process q = Do_yp_add"
  shows "\<exists>q'. send_to_yp (demo_yp_env\<lparr>ye_now := n\<rparr>) url q s = (0, q') \<and> y_sid q' = Some ''42''"
  using assms by (simp add: send_to_yp_def demo_yp_env_def handle_returned_header_def Let_def starts_with_case_def strcaseeq_def
      tolower_def in_range_def code_def scan_line_def)

lemma demo_answer:
  "\<exists>ret yp' calls. process_ypdata (demo_yp_env\<lparr>ye_now := 2000\<rparr>) ''http://dir'' 100 demo_new = (ret, yp', False, calls)
    \<and> y_mount yp' = ''/a'' \<and> y_sid yp' = Some ''42'' \<and> \<not> old_entry yp'"
proof -
  let ?E = "demo_yp_env\<lparr>ye_now := 2000\<rparr>"
  have d: "if_released demo_new = demo_new" "y_process demo_new = Do_yp_add" "entry_ok demo_new" "\<not> y_release demo_new"
    "\<not> y_remove demo_new" "y_mount demo_new = ''/a''" "\<not> ye_now ?E < y_next_update demo_new"
    by (simp_all add: demo_new_def if_released_def entry_ok_def)
  from process_ypdata_whole [of ?E demo_new "''http://dir''" 100] d(7)
  obtain big ret yp' upd calls calls' where r: "run_process ?E ''http://dir'' 100 demo_new big = (ret, yp', upd, calls)"
    "ret \<le> 0" "process_ypdata ?E ''http://dir'' 100 demo_new = (ret, yp', upd, calls')" unfolding d(1) by blast
  obtain q where q: "send_to_yp ?E ''http://dir'' (collect_infos ?E demo_new) (add_text ?E (collect_infos ?E demo_new)) = (0, q)"
    "y_sid q = Some ''42''" using demo_send [of "collect_infos ?E demo_new" 2000] d(2) by auto
  have "fits ?E 100 demo_new big" using run_process_grows(1) [OF r(1)] r(2) by simp
  then have "yp' = q\<lparr>y_process := Do_yp_touch, y_next_update := ye_later ?E + 5\<rparr>"
    using r(1) d(2) q(1) by (simp add: run_process_def do_yp_add_def fits_def Let_def)
  then show ?thesis using process_ypdata_entry [OF r(3) d(3)] d r(3) q(2) by (simp add: old_entry_def)
qed

lemma demo_yp_value:
  "\<exists>s yp. active_yps demo_yp = [s] \<and> ys_url s = ''http://dir'' \<and> ys_pending_mounts s = [] \<and> ys_mounts s = [yp]
     \<and> y_mount yp = ''/a'' \<and> y_sid yp = Some ''42'' \<and> \<not> old_entry yp"
  and demo_yp_pending: "pending_yps demo_yp = []"
  using demo_answer unfolding demo_yp_def demo_yp0_value by (auto simp: yp_round_def yp_process_server_def Let_def)


theorem restarted_stream_not_listed_witness:
  "''/a'' \<notin> set (concat (map (\<lambda>s. map y_mount (ys_mounts s))
     (active_yps (fst (yp_round demo_yp_env (yp_add demo_yp_env ''/a'' (yp_remove ''/a'' demo_yp)))))))"
proof -
  have "\<forall>s\<in>set (active_yps (fst (yp_round demo_yp_env (yp_add demo_yp_env ''/a'' (yp_remove ''/a'' demo_yp))))).
     ''/a'' \<notin> y_mount ` set (ys_mounts s)"
    using demo_yp_value by (intro restarted_stream_not_listed [OF demo_yp_reach demo_yp_pending]) (auto simp: demo_yp_env_def)
  then show ?thesis by auto
qed

theorem directories_consistent_witness:
  "\<exists>s. active_yps demo_yp = [s] \<and> 30 \<le> ys_touch_interval s \<and> ys_url_timeout s \<le> 10"
proof -
  obtain s where s: "active_yps demo_yp = [s]" using demo_yp_value by blast
  then have "s \<in> set (active_yps demo_yp @ pending_yps demo_yp)" by simp
  from bspec [OF conjunct1 [OF conjunct2 [OF directories_consistent [OF demo_yp_reach]]] this] s show ?thesis by blast
qed

lemma process_servers_marks:
  "process_servers E limit ss = (ss', upd, calls) \<Longrightarrow> map (\<lambda>s. (ys_url s, ys_remove s)) ss' = map (\<lambda>s. (ys_url s, ys_remove s)) ss"
proof (induction ss arbitrary: ss' upd calls)
  case (Cons s ss)
  obtain yps u1 c1 where 1: "process_entries E (ys_url s) limit 0 (ys_mounts s) = (yps, u1, c1)"
    by (cases "process_entries E (ys_url s) limit 0 (ys_mounts s)")
  obtain ss2 u2 c2 where 2: "process_servers E limit ss = (ss2, u2, c2)" by (cases "process_servers E limit ss")
  show ?case using Cons.IH [OF 2] Cons.prems 1 2 by (auto simp: yp_process_server_def)
qed simp

lemma unmarked_urls:
  "ys_url ` set (filter (\<lambda>s. \<not> ys_remove s) ss) = {u. (u, False) \<in> set (map (\<lambda>s. (ys_url s, ys_remove s)) ss)}"
  by force

text \<open>
  the directories follow the configuration. When the configuration is read again, and no new
  directory waits from before, the next round of the thread leaves exactly the configured directories,
  each once, and nothing waits.
\<close>

theorem directories_follow_configuration:
  assumes "yp_reach st" and "pending_yps st = []" and "\<And>u. curl u"
  shows "ys_url ` set (active_yps (fst (yp_round E (yp_recheck_config curl limit server_id dirs st)))) = fst ` set dirs
     \<and> distinct (map ys_url (active_yps (fst (yp_round E (yp_recheck_config curl limit server_id dirs st)))))"
proof -
  let ?st = "yp_recheck_config curl limit server_id dirs st"
  let ?marked = "st\<lparr>active_yps := map (\<lambda>s. s\<lparr>ys_remove := True\<rparr>) (active_yps st), yp_client_limit := limit, server_version := server_id\<rparr>"
  have inv: "yp_inv ?st" by (rule yp_reach_inv [OF yp_reach.recheck [OF assms(1)]])
  have wl: "well_listed st" using yp_reach_inv [OF assms(1)] by (simp add: yp_inv_def)
  have wl0: "well_listed ?marked" using well_listed_map [OF wl, of "\<lambda>s. s\<lparr>ys_remove := True\<rparr>"] by simp
  note a = recheck_urls_all [OF _ wl0, of curl dirs, OF assms(3)]
  have act: "active_yps ?st = keep_listed (fst ` set dirs) (active_yps ?marked)"
    and pen: "ys_url ` set (pending_yps ?st) = fst ` set dirs - ys_url ` set (active_yps st)"
    using a assms(2) by (simp_all add: yp_recheck_config_def Let_def image_image)
  obtain ss upd calls where p: "process_servers E (yp_client_limit ?st) (active_yps ?st) = (ss, upd, calls)"
    by (cases "process_servers E (yp_client_limit ?st) (active_yps ?st)")
  have m: "map (\<lambda>s. (ys_url s, ys_remove s)) ss = map (\<lambda>s. (ys_url s, ys_url s \<notin> fst ` set dirs)) (active_yps st)"
    using process_servers_marks [OF p] unfolding act keep_listed_def by (simp add: comp_def if_distrib)
  have "yp_update ?st" by (simp add: yp_recheck_config_def Let_def)
  then have r: "fst (yp_round E ?st) = update_structure E (?st\<lparr>active_yps := ss, yp_update := True\<rparr>)"
    by (simp add: yp_round_eq [OF p])
  have "ys_url ` set (filter (\<lambda>s. \<not> ys_remove s) ss) = fst ` set dirs \<inter> ys_url ` set (active_yps st)"
    unfolding unmarked_urls m by (force simp: image_iff)
  then have "ys_url ` set (active_yps (fst (yp_round E ?st))) = fst ` set dirs"
    unfolding r update_structure_servers using pen by (auto simp: image_image image_Un)
  moreover have "yp_inv (fst (yp_round E ?st))" by (rule yp_inv_round [OF inv])
  ultimately show ?thesis by (simp add: yp_inv_def well_listed_def)
qed

theorem directories_follow_configuration_witness:
  "ys_url ` set (active_yps (fst (yp_round demo_yp_env
       (yp_recheck_config (\<lambda>_. True) 100 ''me'' [(''http://a'', 5, 60), (''http://b'', 5, 60)] demo_yp)))) = {''http://a'', ''http://b''}"
  using directories_follow_configuration [OF demo_yp_reach demo_yp_pending,
      of "\<lambda>_. True" demo_yp_env 100 "''me''" "[(''http://a'', 5, 60), (''http://b'', 5, 60)]"] by simp

end
