(* ===== verification/Admin.thy ===== *)
theory Admin
  imports Admin_Commands ACL Errors Playlist Source Util_Header Auth_Backends Stats Conn_Queue
begin

text \<open>
  The administration commands, \<^verbatim>\<open>admin.c\<close>: the checks before a command, the handlers and the answers they
  send. A document of libxml2 is a value of the type \<open>xml\<close>; its text, \<open>ae_dump\<close>, the document of the
  statistics and what is known of a source or a listener beyond their records are arguments. An
  authenticator appears with its operations on a store of users. Of the locks only the one of the
  configuration is kept, as the number of times it is held.
\<close>

section \<open>Data\<close>

type_synonym xml = xspf

text \<open>What is sent: an error, a buffer with its length, a buffer followed by others, or a document through a stylesheet.\<close>

datatype answer =
  Error_answer int
| Buffer_answer string int
| Chain_answer string "string list"
| Xslt_answer string xml

record source_info =
  si_client_ip :: string
  si_con_time :: int
  si_contenttype :: string
  si_put :: bool
  si_shoutcast_compat :: bool
  si_set_tag :: bool

record listener_info =
  li_ip :: string
  li_user_agent :: "string option"
  li_referer :: "string option"
  li_con_time :: int
  li_username :: "string option"
  li_role :: "string option"
  li_tls :: bool
  li_icy :: bool

record 'u admin_auth =
  aa_id :: u64
  aa_type :: "string option"
  aa_role :: "string option"
  aa_management_url :: "string option"
  aa_adduser :: "(string \<Rightarrow> string \<Rightarrow> 'u \<Rightarrow> auth_result \<times> 'u) option"
  aa_deleteuser :: "(string \<Rightarrow> 'u \<Rightarrow> auth_result \<times> 'u) option"
  aa_listuser :: "('u \<Rightarrow> xml list) option"

record 'u admin_env =
  ae_now :: int
  ae_fnm :: "string \<Rightarrow> string \<Rightarrow> bool"
  ae_mounts :: "mount_proxy list"
  ae_client_insert :: "Source.client \<Rightarrow> Source.client list \<Rightarrow> Source.client list"
  ae_date :: "string option"
  ae_hconf :: header_config
  ae_hclient :: header_client
  ae_adminroot :: string
  ae_hostname :: string
  ae_port :: int
  ae_dump :: "xml \<Rightarrow> string"
  ae_stats_xml :: "string option \<Rightarrow> bool \<Rightarrow> xml"
  ae_stats :: Stats.stats
  ae_authstack :: "'u admin_auth list"
  ae_mount_stacks :: "'u admin_auth list list"
  ae_anonymous_mount :: "mount_proxy \<Rightarrow> acl option"
  ae_anonymous :: "acl option"
  ae_info :: "string \<Rightarrow> source_info"
  ae_listener :: "nat \<Rightarrow> listener_info"
  ae_httpp :: httpp
  ae_req_source :: nat
  ae_req_put :: nat

record admin_client =
  ac_command :: int
  ac_acl :: "acl option"
  ac_ip :: string
  ac_legacy :: bool
  ac_param :: "string \<Rightarrow> string option"

record 'u admin_world =
  aw_tree :: "source tree"
  aw_reread :: bool
  aw_config_locks :: nat
  aw_users :: "u64 \<Rightarrow> 'u"
  aw_tags :: "(string \<times> string option \<times> string option \<times> string option) list"
  aw_answers :: "answer list"

section \<open>Answers\<close>

definition send :: "answer \<Rightarrow> 'u admin_world \<Rightarrow> 'u admin_world" where
  "send a w = w\<lparr>aw_answers := aw_answers w @ [a]\<rparr>"

text \<open>The header of an answer, built into a buffer.\<close>

definition build_header :: "'u admin_env \<Rightarrow> nat \<Rightarrow> string \<Rightarrow> string option \<Rightarrow> string option \<Rightarrow> int \<times> string" where
  "build_header E bufsize contenttype cs datablock =
     (case util_http_build_header (ae_fnm E) (ae_date E) (ae_hconf E) (Some []) (word_of_nat bufsize) 0 False 200 None
             (Some contenttype) cs datablock None (Some (ae_hclient E)) of
        (ret, buf) \<Rightarrow> (ret, case buf of None \<Rightarrow> [] | Some s \<Rightarrow> s))"

text \<open>
  A document as it is: the buffer is enlarged when the header and the text do not fit, with the
  header built anew.
\<close>

definition send_raw :: "'u admin_env \<Rightarrow> xml \<Rightarrow> 'u admin_world \<Rightarrow> 'u admin_world" where
  "send_raw E doc w =
     (let buff = ae_dump E doc;
          buf_len = max 4096 (length buff + 1024);
          (ret, text) = build_header E buf_len ''text/xml'' (Some ''utf-8'') None
      in if ret < 0 then send (Error_answer ICECAST_ERROR_GEN_HEADER_GEN_FAILED) w
         else
           (let (buf_len, ret, text) =
              (if buf_len < length buff + nat ret + 64
               then (let buf_len = nat ret + length buff + 64 in (buf_len, build_header E buf_len ''text/xml'' (Some ''utf-8'') None))
               else (buf_len, ret, text))
            in if ret = -1 then send (Error_answer ICECAST_ERROR_GEN_HEADER_GEN_FAILED) w
               else
                 (let rest = ''Content-Length: '' @ show_nat (length buff) @ crlf @ crlf @ buff
                  in send (Buffer_answer (text @ snprintf (buf_len - nat ret) rest) (ret + int (length rest))) w)))"

definition admin_send_response :: "'u admin_env \<Rightarrow> xml \<Rightarrow> admin_format \<Rightarrow> string \<Rightarrow> 'u admin_world \<Rightarrow> 'u admin_world" where
  "admin_send_response E doc response xslt_template w =
     (case response of
        RAW \<Rightarrow> send_raw E doc w
      | TRANSFORMED \<Rightarrow> send (Xslt_answer (ae_adminroot E @ ''/'' @ xslt_template) doc) w
      | PLAINTEXT \<Rightarrow> w)"

definition html_success :: "'u admin_env \<Rightarrow> string \<Rightarrow> 'u admin_world \<Rightarrow> 'u admin_world" where
  "html_success E message w =
     (let (ret, text) = build_header E PER_CLIENT_REFBUF_SIZE ''text/html'' (Some ''utf-8'') (Some [])
      in if ret = -1 \<or> int PER_CLIENT_REFBUF_SIZE \<le> ret then send (Error_answer ICECAST_ERROR_GEN_HEADER_GEN_FAILED) w
         else
           (let data = text @ snprintf (PER_CLIENT_REFBUF_SIZE - nat ret)
                  (''<html><head><title>Admin request successful</title></head><body><p>'' @ message @ ''</p></body></html>'')
            in send (Buffer_answer data (int (length data))) w))"

section \<open>Documents\<close>

definition iceresponse :: "string \<Rightarrow> string \<Rightarrow> xml" where
  "iceresponse message ret = Element ''iceresponse'' [] [Text_element ''message'' message, Text_element ''return'' ret]"

definition show_ulong :: "int \<Rightarrow> string" where
  "show_ulong i = show_nat (nat (i mod 2 ^ 64))"

definition optional :: "string \<Rightarrow> string option \<Rightarrow> xml list" where
  "optional name val = (case val of None \<Rightarrow> [] | Some s \<Rightarrow> [Text_element name s])"

text \<open>One source of the list; a running source is expected to have its format.\<close>

definition source_node :: "'u admin_env \<Rightarrow> source \<Rightarrow> fault + xml" where
  "source_node E src =
     (let info = ae_info E (src_mount src);
          acl = (case config_find_mount (ae_fnm E) (ae_mounts E) (Some (src_mount src)) MOUNT_TYPE_NORMAL of
                   None \<Rightarrow> None | Some m \<Rightarrow> ae_anonymous_mount E m);
          acl = (if acl = None then ae_anonymous E else acl);
          head = [Text_element ''fallback'' (case src_fallback_mount src of None \<Rightarrow> [] | Some f \<Rightarrow> f),
                  Text_element ''listeners'' (show_nat (unat (n_listeners src)))]
            @ (if acl \<noteq> None \<and> acl_test_web acl = ACL_POLICY_DENY then [Text_element ''authenticator'' ''(dummy)''] else [])
      in if src_running src
         then (if src_format src = None then Inl Null_deref
               else Inr (Element ''source'' [(''mount'', src_mount src)]
                      (head @ (if src_client src then [Text_element ''Connected'' (show_ulong (ae_now E - si_con_time info))] else [])
                       @ [Text_element ''content-type'' (si_contenttype info)])))
         else Inr (Element ''source'' [(''mount'', src_mount src)] head))"

fun source_nodes :: "'u admin_env \<Rightarrow> string option \<Rightarrow> source list \<Rightarrow> fault + xml list" where
  "source_nodes E mount [] = Inr []"
| "source_nodes E mount (src # srcs) =
     (if mount = Some (src_mount src) \<or> \<not> (src_running src \<or> on_demand src) then source_nodes E mount srcs
      else (case source_node E src of
              Inl f \<Rightarrow> Inl f
            | Inr n \<Rightarrow> map_sum id ((#) n) (source_nodes E mount srcs)))"

definition admin_build_sourcelist :: "'u admin_env \<Rightarrow> string option \<Rightarrow> source tree \<Rightarrow> fault + xml" where
  "admin_build_sourcelist E mount tree =
     map_sum id (\<lambda>ns. Element ''icestats'' [] (optional ''current_source'' mount @ ns)) (source_nodes E mount (inorder tree))"

definition add_listener :: "'u admin_env \<Rightarrow> bool \<Rightarrow> Source.client \<Rightarrow> xml" where
  "add_listener E legacy c =
     (let li = ae_listener E (con_id c); i = show_nat (con_id c)
      in Element ''listener'' [(''id'', i)]
           ([Text_element (if legacy then ''ID'' else ''id'') i, Text_element (if legacy then ''IP'' else ''ip'') (li_ip li)]
            @ optional (if legacy then ''UserAgent'' else ''useragent'') (li_user_agent li)
            @ optional ''referer'' (li_referer li)
            @ [Text_element (if legacy then ''Connected'' else ''connected'') (show_ulong (ae_now E - li_con_time li))]
            @ optional ''username'' (li_username li) @ optional ''role'' (li_role li)
            @ [Text_element ''tls'' (if li_tls li then ''true'' else ''false''),
               Text_element ''protocol'' (if li_icy li then ''icy'' else ''http'')]))"

definition admin_add_listeners_to_mount :: "'u admin_env \<Rightarrow> source \<Rightarrow> bool \<Rightarrow> xml list" where
  "admin_add_listeners_to_mount E src legacy = map (add_listener E legacy) (client_tree src)"

definition role_node :: "'u admin_auth \<Rightarrow> xml list \<Rightarrow> xml" where
  "role_node a children =
     (let flag = (\<lambda>b. if b then ''true'' else ''false''); prop = (\<lambda>n v. case v of None \<Rightarrow> [] | Some s \<Rightarrow> [(n, s)])
      in Element ''role''
           ([(''id'', show_nat (unat (aa_id a)))] @ prop ''type'' (aa_type a) @ prop ''name'' (aa_role a)
            @ prop ''management-url'' (aa_management_url a)
            @ [(''can-adduser'', flag (aa_adduser a \<noteq> None)), (''can-deleteuser'', flag (aa_deleteuser a \<noteq> None)),
               (''can-listuser'', flag (aa_listuser a \<noteq> None))])
           children)"

section \<open>The handlers\<close>

text \<open>A handler that needs a parameter answers with an error when the request does not have it.\<close>

definition command_require ::
    "admin_client \<Rightarrow> string \<Rightarrow> 'u admin_world \<Rightarrow> (string \<Rightarrow> fault + 'u admin_world) \<Rightarrow> fault + 'u admin_world" where
  "command_require c name w k =
     (case ac_param c name of None \<Rightarrow> Inr (send (Error_answer ICECAST_ERROR_ADMIN_MISSING_PARAMETER) w) | Some v \<Rightarrow> k v)"

text \<open>The source is None when the request names no mountpoint; its fields are then read through NULL.\<close>

definition move_clients_between ::
    "'u admin_env \<Rightarrow> source \<Rightarrow> string \<Rightarrow> admin_format \<Rightarrow> 'u admin_world \<Rightarrow> 'u admin_world" where
  "move_clients_between E src dest_source response w =
     (case source_find_mount (ae_fnm E) (ae_mounts E) (Some dest_source) (aw_tree w) of
        None \<Rightarrow> send (Error_answer ICECAST_ERROR_ADMIN_NO_SUCH_DESTINATION) w
      | Some dest \<Rightarrow>
          if src_mount dest = src_mount src
          then send (Error_answer ICECAST_ERROR_ADMIN_SUPPLIED_MOUNTPOINTS_ARE_IDENTICAL) w
          else if \<not> src_running dest \<and> \<not> on_demand dest then send (Error_answer ICECAST_ERROR_ADMIN_DEST_NOT_RUNNING) w
          else
            (let (s, d) = source_move_clients (ae_client_insert E) src dest
             in admin_send_response E
                  (iceresponse (snprintf 255 (''Clients moved from '' @ src_mount src @ '' to '' @ dest_source)) ''1'')
                  response ''response.xsl'' (w\<lparr>aw_tree := put_source s (put_source d (aw_tree w))\<rparr>)))"

definition command_move_clients ::
    "'u admin_env \<Rightarrow> admin_client \<Rightarrow> source option \<Rightarrow> admin_format \<Rightarrow> 'u admin_world \<Rightarrow> fault + 'u admin_world" where
  "command_move_clients E c src response w =
     (case ac_param c ''destination'' of
        None \<Rightarrow>
          (case src of
             None \<Rightarrow> Inl Null_deref
           | Some s \<Rightarrow>
               map_sum id (\<lambda>doc. admin_send_response E doc response ''moveclients.xsl'' w)
                 (admin_build_sourcelist E (Some (src_mount s)) (aw_tree w)))
      | Some dest_source \<Rightarrow>
          (case src of
             Some s \<Rightarrow> Inr (move_clients_between E s dest_source response w)
           | None \<Rightarrow>
               if source_find_mount (ae_fnm E) (ae_mounts E) (Some dest_source) (aw_tree w) = None
               then Inr (send (Error_answer ICECAST_ERROR_ADMIN_NO_SUCH_DESTINATION) w)
               else Inl Null_deref))"

definition command_show_listeners ::
    "'u admin_env \<Rightarrow> admin_client \<Rightarrow> source \<Rightarrow> admin_format \<Rightarrow> 'u admin_world \<Rightarrow> 'u admin_world" where
  "command_show_listeners E c src response w =
     admin_send_response E
       (Element ''icestats'' [] [Element ''source'' [(''mount'', src_mount src)]
          (Text_element (if ac_legacy c then ''Listeners'' else ''listeners'') (show_nat (unat (n_listeners src)))
           # admin_add_listeners_to_mount E src (ac_legacy c))])
       response ''listclients.xsl'' w"

definition command_buildm3u ::
    "'u admin_env \<Rightarrow> admin_client \<Rightarrow> source \<Rightarrow> 'u admin_world \<Rightarrow> fault + 'u admin_world" where
  "command_buildm3u E c src w =
     command_require c ''username'' w (\<lambda>user. command_require c ''password'' w (\<lambda>pass.
       (let (ret, text) = build_header E PER_CLIENT_REFBUF_SIZE ''audio/x-mpegurl'' None None
        in Inr (if ret = -1 \<or> int PER_CLIENT_REFBUF_SIZE - 512 \<le> ret
                then send (Error_answer ICECAST_ERROR_GEN_HEADER_GEN_FAILED) w
                else
                  (let data = text @ snprintf (PER_CLIENT_REFBUF_SIZE - nat ret)
                         (''Content-Disposition: attachment; filename=listen.m3u'' @ crlf @ crlf @ ''http://'' @ user @ '':'' @ pass
                          @ ''@'' @ ae_hostname E @ '':'' @ show_int (ae_port E) @ src_mount src @ crlf)
                   in send (Buffer_answer data (int (length data))) w)))))"

text \<open>The authenticator with a number: in the stack of the server, then in those of the mountpoints.\<close>

definition auth_stack_getbyid :: "'u admin_auth list \<Rightarrow> u64 \<Rightarrow> 'u admin_auth option" where
  "auth_stack_getbyid stack i = find (\<lambda>a. aa_id a = i) stack"

fun getbyid_mounts :: "'u admin_auth list list \<Rightarrow> u64 \<Rightarrow> 'u admin_auth option" where
  "getbyid_mounts [] i = None"
| "getbyid_mounts (stack # stacks) i =
     (case auth_stack_getbyid stack i of Some a \<Rightarrow> Some a | None \<Rightarrow> getbyid_mounts stacks i)"

definition find_auth :: "'u admin_env \<Rightarrow> u64 \<Rightarrow> 'u admin_auth option" where
  "find_auth E i =
     (case auth_stack_getbyid (ae_authstack E) i of Some a \<Rightarrow> Some a | None \<Rightarrow> getbyid_mounts (ae_mount_stacks E) i)"

text \<open>The change of the users, with the message, or the error it is given up with.\<close>

definition manage_add ::
    "admin_client \<Rightarrow> 'u admin_auth \<Rightarrow> 'u admin_world \<Rightarrow> int + string option \<times> 'u admin_world" where
  "manage_add c a w =
     (case (ac_param c ''username'', ac_param c ''password'') of
        (Some user, Some pass) \<Rightarrow>
          (case aa_adduser a of
             None \<Rightarrow> Inl ICECAST_ERROR_ADMIN_ROLEMGN_ADD_NOSYS
           | Some f \<Rightarrow>
               (let (ret, u) = f user pass (aw_users w (aa_id a))
                in Inr (case ret of
                          AUTH_FAILED \<Rightarrow> Some ''User add failed - check the icecast error log''
                        | AUTH_USERADDED \<Rightarrow> Some ''User added''
                        | AUTH_USEREXISTS \<Rightarrow> Some ''User already exists - not added''
                        | _ \<Rightarrow> None,
                        w\<lparr>aw_users := (aw_users w)(aa_id a := u)\<rparr>)))
      | _ \<Rightarrow> Inl ICECAST_ERROR_ADMIN_missing_parameter)"

definition manage_delete ::
    "admin_client \<Rightarrow> 'u admin_auth \<Rightarrow> 'u admin_world \<Rightarrow> int + string option \<times> 'u admin_world" where
  "manage_delete c a w =
     (case ac_param c ''username'' of
        Some user \<Rightarrow>
          (case aa_deleteuser a of
             None \<Rightarrow> Inl ICECAST_ERROR_ADMIN_ROLEMGN_DELETE_NOSYS
           | Some f \<Rightarrow>
               (let (ret, u) = f user (aw_users w (aa_id a))
                in Inr (case ret of
                          AUTH_FAILED \<Rightarrow> Some ''User delete failed - check the icecast error log''
                        | AUTH_USERDELETED \<Rightarrow> Some ''User deleted''
                        | _ \<Rightarrow> None,
                        w\<lparr>aw_users := (aw_users w)(aa_id a := u)\<rparr>)))
      | None \<Rightarrow> Inl ICECAST_ERROR_ADMIN_missing_parameter)"

definition manage_users ::
    "admin_client \<Rightarrow> 'u admin_auth \<Rightarrow> 'u admin_world \<Rightarrow> int + string option \<times> 'u admin_world" where
  "manage_users c a w =
     (let action = (case ac_param c ''action'' of None \<Rightarrow> ''list'' | Some s \<Rightarrow> s)
      in if action = ''add'' then manage_add c a w
         else if action = ''delete'' then manage_delete c a w
         else Inr (None, w))"

definition lock_config :: "'u admin_world \<Rightarrow> 'u admin_world" where
  "lock_config w = w\<lparr>aw_config_locks := Suc (aw_config_locks w)\<rparr>"

definition unlock_config :: "'u admin_world \<Rightarrow> 'u admin_world" where
  "unlock_config w = w\<lparr>aw_config_locks := aw_config_locks w - 1\<rparr>"

definition manage_role ::
    "'u admin_env \<Rightarrow> admin_client \<Rightarrow> 'u admin_auth \<Rightarrow> admin_format \<Rightarrow> 'u admin_world \<Rightarrow> 'u admin_world" where
  "manage_role E c a response w =
     (case manage_users c a w of
        Inl e \<Rightarrow> send (Error_answer e) (unlock_config w)
      | Inr (message, w) \<Rightarrow>
          admin_send_response E
            (Element ''icestats'' []
               (role_node a (case aa_listuser a of None \<Rightarrow> [] | Some f \<Rightarrow> [Element ''users'' [] (f (aw_users w (aa_id a)))])
                # (case message of None \<Rightarrow> [] | Some m \<Rightarrow> [Element ''iceresponse'' [] [Text_element ''message'' m]])))
            response ''manageauth.xsl'' (unlock_config w))"

text \<open>
  The lock of the configuration is taken first; a request without a number leaves the function without
  releasing it.
\<close>

definition command_manageauth ::
    "'u admin_env \<Rightarrow> admin_client \<Rightarrow> admin_format \<Rightarrow> 'u admin_world \<Rightarrow> fault + 'u admin_world" where
  "command_manageauth E c response w =
     (let w = lock_config w
      in command_require c ''id'' w (\<lambda>idstring. Inr
           (case find_auth E (word_of_int (fst (strtol idstring))) of
              None \<Rightarrow> send (Error_answer ICECAST_ERROR_ADMIN_ROLEMGN_ROLE_NOT_FOUND) (unlock_config w)
            | Some a \<Rightarrow> manage_role E c a response w)))"

definition command_kill_source :: "'u admin_env \<Rightarrow> source \<Rightarrow> admin_format \<Rightarrow> 'u admin_world \<Rightarrow> 'u admin_world" where
  "command_kill_source E src response w =
     admin_send_response E (iceresponse ''Source Removed'' ''1'') response ''response.xsl''
       (w\<lparr>aw_tree := put_source (src\<lparr>src_running := False\<rparr>) (aw_tree w)\<rparr>)"

text \<open>The listener with a number; the number is compared as an unsigned one.\<close>

definition source_find_client :: "source \<Rightarrow> int \<Rightarrow> Source.client option" where
  "source_find_client src i = find (\<lambda>c. int (con_id c) = i mod 2 ^ 64) (client_tree src)"

definition mark_client :: "nat \<Rightarrow> source \<Rightarrow> source" where
  "mark_client i src = src\<lparr>client_tree := map (\<lambda>c. if con_id c = i then c\<lparr>con_error := True\<rparr> else c) (client_tree src)\<rparr>"

definition command_kill_client ::
    "'u admin_env \<Rightarrow> admin_client \<Rightarrow> source \<Rightarrow> admin_format \<Rightarrow> 'u admin_world \<Rightarrow> fault + 'u admin_world" where
  "command_kill_client E c src response w =
     command_require c ''id'' w (\<lambda>idtext.
       (let i = atoi idtext
        in Inr (case source_find_client src i of
                  Some l \<Rightarrow>
                    admin_send_response E (iceresponse (''Client '' @ show_int i @ '' removed'') ''1'') response ''response.xsl''
                      (w\<lparr>aw_tree := put_source (mark_client (con_id l) src) (aw_tree w)\<rparr>)
                | None \<Rightarrow>
                    admin_send_response E (iceresponse (''Client '' @ show_int i @ '' not found'') ''0'') response ''response.xsl'' w)))"

definition command_fallback ::
    "'u admin_env \<Rightarrow> admin_client \<Rightarrow> source \<Rightarrow> 'u admin_world \<Rightarrow> fault + 'u admin_world" where
  "command_fallback E c src w =
     command_require c ''fallback'' w (\<lambda>fallback.
       Inr (html_success E ''Fallback configured'' (w\<lparr>aw_tree := put_source (src\<lparr>src_fallback_mount := Some fallback\<rparr>) (aw_tree w)\<rparr>)))"

text \<open>Whether a client may change the metadata: from the address of the source, or with the right to the command.\<close>

definition may_update :: "'u admin_env \<Rightarrow> admin_client \<Rightarrow> source \<Rightarrow> bool \<Rightarrow> bool" where
  "may_update E c src raw \<longleftrightarrow>
     \<not> (src_client src \<and> ac_ip c \<noteq> si_client_ip (ae_info E (src_mount src))
        \<and> raw \<and> acl_test_admin (ac_acl c) (ac_command c) \<noteq> ACL_POLICY_ALLOW)"

definition takes_tags :: "'u admin_env \<Rightarrow> source \<Rightarrow> bool" where
  "takes_tags E src \<longleftrightarrow> src_format src \<noteq> None \<and> si_set_tag (ae_info E (src_mount src))"

definition set_tags ::
    "string \<Rightarrow> (string option \<times> string option \<times> string option) list \<Rightarrow> 'u admin_world \<Rightarrow> 'u admin_world" where
  "set_tags mount tags w = w\<lparr>aw_tags := aw_tags w @ map (\<lambda>t. (mount, t)) tags\<rparr>"

definition metadata_tags :: "admin_client \<Rightarrow> (string option \<times> string option \<times> string option) list" where
  "metadata_tags c =
     (let cs = ac_param c ''charset''
      in (case ac_param c ''song'' of
            Some song \<Rightarrow> [(Some ''song'', Some song, cs)]
          | None \<Rightarrow>
              (case (ac_param c ''artist'', ac_param c ''title'') of
                 (Some artist', Some title') \<Rightarrow> [(Some ''title'', Some title', cs), (Some ''artist'', Some artist', cs)]
               | _ \<Rightarrow> []))
         @ [(None, None, None)])"

definition command_metadata ::
    "'u admin_env \<Rightarrow> admin_client \<Rightarrow> source \<Rightarrow> admin_format \<Rightarrow> 'u admin_world \<Rightarrow> fault + 'u admin_world" where
  "command_metadata E c src response w =
     command_require c ''mode'' w (\<lambda>action. Inr
       (if action \<noteq> ''updinfo''
        then admin_send_response E (iceresponse ''No such action'' ''0'') response ''response.xsl'' w
        else if may_update E c src (response = RAW) \<and> takes_tags E src
        then admin_send_response E (iceresponse ''Metadata update successful'' ''1'') response ''response.xsl''
               (set_tags (src_mount src) (metadata_tags c) w)
        else admin_send_response E (iceresponse ''Mountpoint will not accept URL updates'' ''1'') response ''response.xsl'' w))"

definition command_shoutcast_metadata ::
    "'u admin_env \<Rightarrow> admin_client \<Rightarrow> source \<Rightarrow> 'u admin_world \<Rightarrow> fault + 'u admin_world" where
  "command_shoutcast_metadata E c src w =
     (if \<not> si_shoutcast_compat (ae_info E (src_mount src)) then Inr (send (Error_answer ICECAST_ERROR_ADMIN_METADAT_BADCALL) w)
      else command_require c ''mode'' w (\<lambda>action. command_require c ''song'' w (\<lambda>val. Inr
        (if action \<noteq> ''updinfo'' then send (Error_answer ICECAST_ERROR_ADMIN_METADAT_NO_SUCH_ACTION) w
         else if may_update E c src True \<and> takes_tags E src
         then html_success E ''Metadata update successful''
                (set_tags (src_mount src) [(Some ''title'', Some val, None), (None, None, None)] w)
         else send (Error_answer ICECAST_ERROR_ADMIN_MOUNT_NOT_ACCEPT_URL_UPDATES) w))))"

definition command_stats ::
    "'u admin_env \<Rightarrow> admin_client \<Rightarrow> source option \<Rightarrow> admin_format \<Rightarrow> 'u admin_world \<Rightarrow> 'u admin_world" where
  "command_stats E c src response w =
     admin_send_response E (ae_stats_xml E (map_option src_mount src) (ac_legacy c)) response ''stats.xsl'' w"

definition command_queue_reload :: "'u admin_env \<Rightarrow> admin_format \<Rightarrow> 'u admin_world \<Rightarrow> 'u admin_world" where
  "command_queue_reload E response w =
     admin_send_response E (iceresponse ''Config reload queued'' ''1'') response ''response.xsl'' (w\<lparr>aw_reread := True\<rparr>)"

definition command_list_mounts :: "'u admin_env \<Rightarrow> admin_format \<Rightarrow> 'u admin_world \<Rightarrow> fault + 'u admin_world" where
  "command_list_mounts E response w =
     (if response = PLAINTEXT then
        (let (ret, text) = build_header E PER_CLIENT_REFBUF_SIZE ''text/plain'' (Some ''utf-8'') (Some [])
         in Inr (if ret = -1 \<or> int PER_CLIENT_REFBUF_SIZE \<le> ret
                 then send (Error_answer ICECAST_ERROR_GEN_HEADER_GEN_FAILED) w
                 else send (Chain_answer text (stats_get_streams (ae_stats E))) w))
      else map_sum id (\<lambda>doc. admin_send_response E doc response ''listmounts.xsl'' w)
             (admin_build_sourcelist E None (aw_tree w)))"

definition command_updatemetadata :: "'u admin_env \<Rightarrow> source \<Rightarrow> admin_format \<Rightarrow> 'u admin_world \<Rightarrow> 'u admin_world" where
  "command_updatemetadata E src response w =
     admin_send_response E (Element ''icestats'' [] [Element ''source'' [(''mount'', src_mount src)] []])
       response ''updatemetadata.xsl'' w"

section \<open>A request\<close>

text \<open>
  The call of the handler. The handlers of commands on a mountpoint read the source they are given; without one,
  which the check before excludes, they would read through NULL.
\<close>

definition for_source :: "source option \<Rightarrow> (source \<Rightarrow> fault + 'u admin_world) \<Rightarrow> fault + 'u admin_world" where
  "for_source src k = (case src of None \<Rightarrow> Inl Null_deref | Some s \<Rightarrow> k s)"

definition run_command ::
    "'u admin_env \<Rightarrow> admin_command_handler \<Rightarrow> admin_client \<Rightarrow> source option \<Rightarrow> 'u admin_world \<Rightarrow> fault + 'u admin_world" where
  "run_command E h c src w =
     (let response = adm_format h
      in case adm_function h of
           None \<Rightarrow> Inl Null_deref
         | Some Command_fallback \<Rightarrow> for_source src (\<lambda>s. command_fallback E c s w)
         | Some Command_metadata \<Rightarrow> for_source src (\<lambda>s. command_metadata E c s response w)
         | Some Command_shoutcast_metadata \<Rightarrow> for_source src (\<lambda>s. command_shoutcast_metadata E c s w)
         | Some Command_show_listeners \<Rightarrow> for_source src (\<lambda>s. Inr (command_show_listeners E c s response w))
         | Some Command_stats \<Rightarrow> Inr (command_stats E c src response w)
         | Some Command_queue_reload \<Rightarrow> Inr (command_queue_reload E response w)
         | Some Command_list_mounts \<Rightarrow> command_list_mounts E response w
         | Some Command_move_clients \<Rightarrow> command_move_clients E c src response w
         | Some Command_kill_client \<Rightarrow> for_source src (\<lambda>s. command_kill_client E c s response w)
         | Some Command_kill_source \<Rightarrow> for_source src (\<lambda>s. Inr (command_kill_source E s response w))
         | Some Command_manageauth \<Rightarrow> command_manageauth E c response w
         | Some Command_updatemetadata \<Rightarrow> for_source src (\<lambda>s. Inr (command_updatemetadata E s response w))
         | Some Command_buildm3u \<Rightarrow> for_source src (\<lambda>s. command_buildm3u E c s w))"

text \<open>The right to the command, or for the metadata of a source the right to be a source.\<close>

definition admin_allowed :: "'u admin_env \<Rightarrow> admin_command_handler \<Rightarrow> admin_client \<Rightarrow> bool" where
  "admin_allowed E h c \<longleftrightarrow>
     acl_test_admin (ac_acl c) (ac_command c) = ACL_POLICY_ALLOW
     \<or> adm_function h = Some Command_metadata \<and> adm_format h = RAW
       \<and> (acl_test_method (ae_httpp E) (ac_acl c) (ae_req_source E) = ACL_POLICY_ALLOW
          \<or> acl_test_method (ae_httpp E) (ac_acl c) (ae_req_put E) = ACL_POLICY_ALLOW)"

definition admin_handle_request :: "'u admin_env \<Rightarrow> admin_client \<Rightarrow> 'u admin_world \<Rightarrow> fault + 'u admin_world" where
  "admin_handle_request E c w =
     (case admin_get_handler (ac_command c) of
        None \<Rightarrow> Inr (send (Error_answer ICECAST_ERROR_ADMIN_UNRECOGNISED_COMMAND) w)
      | Some h \<Rightarrow>
          if \<not> admin_allowed E h c then Inr (send (Error_answer ICECAST_ERROR_GEN_CLIENT_NEEDS_TO_AUTHENTICATE) w)
          else
            (case ac_param c ''mount'' of
               None \<Rightarrow>
                 if adm_type h = ADMINTYPE_MOUNT then Inr (send (Error_answer ICECAST_ERROR_ADMIN_MISSING_PARAMETER) w)
                 else run_command E h c None w
             | Some mount \<Rightarrow>
                 (case source_find_mount_raw (Some mount) (aw_tree w) of
                    None \<Rightarrow> Inr (send (Error_answer ICECAST_ERROR_ADMIN_SOURCE_DOES_NOT_EXIST) w)
                  | Some s \<Rightarrow>
                      if \<not> src_running s \<and> \<not> on_demand s
                      then Inr (send (Error_answer ICECAST_ERROR_ADMIN_SOURCE_IS_NOT_AVAILABLE) w)
                      else run_command E h c (Some s) w)))"

end
