(* ===== verification/Admin_Requests.thy ===== *)
theory Admin_Requests
  imports Admin Source_Settings
begin

text \<open>
  What the administration promises: a request is answered exactly once, a command is carried out only with the
  right to it, a document is sent whole, and a command changes what it names and nothing else; and where
  the code fails.
\<close>

section \<open>Answers\<close>

text \<open>One more answer, and how it is given.\<close>

definition answered :: "'u admin_world \<Rightarrow> 'u admin_world \<Rightarrow> bool" where
  "answered w w' \<longleftrightarrow> (\<exists>a. aw_answers w' = aw_answers w @ [a])"

lemma answered_send [simp]: "answered w (send a w)"
  by (simp add: answered_def send_def)

lemma answered_same: "aw_answers w = aw_answers v \<Longrightarrow> answered w w' = answered v w'"
  by (simp add: answered_def)

lemma answered_raw: "answered w (send_raw E doc w)"
  by (simp add: send_raw_def Let_def split: prod.split)

lemma answered_response: "response \<noteq> PLAINTEXT \<Longrightarrow> answered w (admin_send_response E doc response t w)"
  by (cases response) (simp_all add: admin_send_response_def answered_raw)

lemma answered_success: "answered w (html_success E m w)"
  by (simp add: html_success_def Let_def split: prod.split)

lemma answered_require:
  assumes "command_require c n w k = Inr w'" and "\<And>v w'. k v = Inr w' \<Longrightarrow> answered w w'"
  shows "answered w w'"
  using assms by (auto simp: command_require_def split: option.splits)

text \<open>Changes of the rest of the state before the answer.\<close>

lemma quiet_updates [simp]:
  "aw_answers (w\<lparr>aw_tree := t\<rparr>) = aw_answers w" "aw_answers (set_tags m ts w) = aw_answers w"
  "aw_answers (lock_config w) = aw_answers w" "aw_answers (unlock_config w) = aw_answers w"
  by (simp_all add: set_tags_def lock_config_def unlock_config_def)

lemma response_after: "response \<noteq> PLAINTEXT \<Longrightarrow> aw_answers v = aw_answers w \<Longrightarrow> answered w (admin_send_response E doc response t v)"
  using answered_response [of response v E doc t] by (simp add: answered_def)

lemma send_after: "aw_answers v = aw_answers w \<Longrightarrow> answered w (send a v)"
  by (simp add: answered_def send_def)

lemma success_after: "aw_answers v = aw_answers w \<Longrightarrow> answered w (html_success E m v)"
  using answered_success [of v E m] by (simp add: answered_def)

lemma manage_users_quiet:
  "manage_users c a w = Inr (m, w') \<Longrightarrow>
     aw_answers w' = aw_answers w \<and> aw_config_locks w' = aw_config_locks w \<and> aw_tree w' = aw_tree w"
  by (auto simp: manage_users_def manage_add_def manage_delete_def Let_def split: if_splits option.splits prod.splits)

lemma manage_role_answered: "response \<noteq> PLAINTEXT \<Longrightarrow> answered w (manage_role E c a response w)"
  unfolding manage_role_def
  by (auto split: sum.split dest!: manage_users_quiet intro!: response_after send_after)

lemma manageauth_answered:
  assumes "command_manageauth E c response w = Inr w'" and "response \<noteq> PLAINTEXT"
  shows "answered w w'"
proof -
  have "answered (lock_config w) w'"
    by (rule answered_require [OF assms(1) [unfolded command_manageauth_def Let_def]])
      (auto split: option.splits intro: send_after manage_role_answered [OF assms(2)])
  then show ?thesis by (simp add: answered_def)
qed

lemma move_clients_answered:
  assumes "command_move_clients E c src response w = Inr w'" and "response \<noteq> PLAINTEXT"
  shows "answered w w'"
proof -
  have r: "answered w (admin_send_response E doc response t v)" if "aw_answers v = aw_answers w" for doc t v
    using response_after [OF assms(2) that] .
  have "answered w (move_clients_between E s d response w)" for s d
    unfolding move_clients_between_def by (auto split: option.split prod.split intro!: r)
  then show ?thesis using assms(1) r
    by (auto simp: command_move_clients_def map_sum_Inr split: option.splits if_splits)
qed

text \<open>Every handler gives one answer, in each format the table has for it.\<close>

lemma run_command_answered:
  assumes "run_command E h c src w = Inr w'" and "adm_format h = PLAINTEXT \<Longrightarrow> adm_function h = Some Command_list_mounts"
  shows "answered w w'"
proof (cases "adm_format h = PLAINTEXT")
  case True
  then show ?thesis using assms
    by (auto simp: run_command_def command_list_mounts_def Let_def split: prod.splits)
next
  case False
  note r = response_after [OF False] and q = manageauth_answered [OF _ False] move_clients_answered [OF _ False]
  obtain f where f: "adm_function h = Some f" using assms(1) by (cases "adm_function h") (simp_all add: run_command_def)
  have w: "\<And>k. for_source src k = Inr w' \<Longrightarrow> \<exists>s. k s = Inr w'" by (auto simp: for_source_def split: option.splits)
  show ?thesis
  proof (cases f)
    case Command_fallback
    with assms(1) f w obtain s where "command_fallback E c s w = Inr w'" by (auto simp: run_command_def)
    then show ?thesis unfolding command_fallback_def by (rule answered_require) (auto intro: success_after)
  next
    case Command_metadata
    with assms(1) f w obtain s where "command_metadata E c s (adm_format h) w = Inr w'" by (auto simp: run_command_def)
    then show ?thesis unfolding command_metadata_def by (rule answered_require) (auto intro: r)
  next
    case Command_shoutcast_metadata
    with assms(1) f w obtain s where s: "command_shoutcast_metadata E c s w = Inr w'" by (auto simp: run_command_def)
    show ?thesis
    proof (cases "si_shoutcast_compat (ae_info E (src_mount s))")
      case True
      with s show ?thesis unfolding command_shoutcast_metadata_def
        by (simp, elim answered_require) (auto intro: success_after split: if_splits)
    qed (use s in \<open>auto simp: command_shoutcast_metadata_def\<close>)
  next
    case Command_kill_client
    with assms(1) f w obtain s where "command_kill_client E c s (adm_format h) w = Inr w'" by (auto simp: run_command_def)
    then show ?thesis unfolding command_kill_client_def Let_def by (rule answered_require) (auto intro: r split: option.splits)
  next
    case Command_buildm3u
    with assms(1) f w obtain s where "command_buildm3u E c s w = Inr w'" by (auto simp: run_command_def)
    then show ?thesis unfolding command_buildm3u_def Let_def
      by (elim answered_require) (auto split: prod.splits if_splits)
  next
    case Command_list_mounts
    with assms(1) f False have "map_sum id (\<lambda>doc. admin_send_response E doc (adm_format h) ''listmounts.xsl'' w)
             (admin_build_sourcelist E None (aw_tree w)) = Inr w'" by (simp add: run_command_def command_list_mounts_def)
    then show ?thesis by (auto simp: map_sum_Inr intro: r)
  next
    case Command_move_clients
    with assms(1) f have "command_move_clients E c src (adm_format h) w = Inr w'" by (simp add: run_command_def)
    then show ?thesis by (rule q(2))
  next
    case Command_manageauth
    with assms(1) f have "command_manageauth E c (adm_format h) w = Inr w'" by (simp add: run_command_def)
    then show ?thesis by (rule q(1))
  qed (use assms(1) f in \<open>auto simp: run_command_def command_show_listeners_def command_stats_def command_queue_reload_def
        command_kill_source_def command_updatemetadata_def intro!: r dest!: w\<close>)
qed

text \<open>A running source has its format.\<close>

definition formats_ok :: "source tree \<Rightarrow> bool" where
  "formats_ok t \<longleftrightarrow> (\<forall>s\<in>set_tree t. src_running s \<longrightarrow> src_format s \<noteq> None)"

section \<open>A small server\<close>

text \<open>A server without authenticators or mountpoints of its configuration, a client that may use every command, and sources.\<close>

definition demo_env :: "unit admin_env" where
  "demo_env = \<lparr>ae_now = 100, ae_fnm = (=), ae_mounts = [], ae_client_insert = insort_key con_id, ae_date = None,
     ae_hconf = \<lparr>server_id = ''icecast'', cfg_headers = [], cfg_mounts = []\<rparr>,
     ae_hclient = \<lparr>con_tlsmode = ICECAST_TLSMODE_AUTO, client_reuse = ICECAST_REUSE_CLOSE, admin_command_error = False\<rparr>,
     ae_adminroot = ''/admin'', ae_hostname = ''localhost'', ae_port = 8000, ae_dump = (\<lambda>_. ''<doc/>''),
     ae_stats_xml = (\<lambda>_ _. Element ''icestats'' [] []), ae_stats = \<lparr>global_tree = Leaf, stats_sources = Leaf\<rparr>,
     ae_authstack = [], ae_mount_stacks = [], ae_anonymous_mount = (\<lambda>_. None), ae_anonymous = None,
     ae_info = (\<lambda>_. \<lparr>si_client_ip = ''10.0.0.1'', si_con_time = 0, si_contenttype = ''audio/ogg'', si_put = False,
       si_shoutcast_compat = False, si_set_tag = True\<rparr>),
     ae_listener = (\<lambda>_. \<lparr>li_ip = ''10.0.0.2'', li_user_agent = None, li_referer = None, li_con_time = 0, li_username = None,
       li_role = None, li_tls = False, li_icy = False\<rparr>),
     ae_httpp = sample_httpp, ae_req_source = 2, ae_req_put = 3\<rparr>"

definition admin_acl :: acl where
  "admin_acl = \<lparr>refcount = 1, acl_method = replicate 4 ACL_POLICY_ALLOW, admin_commands = [], admin_command_policy = ACL_POLICY_ALLOW,
     web_policy = ACL_POLICY_ALLOW, max_connection_duration = -1, max_connections_per_user = 0\<rparr>"

definition demo_admin :: "int \<Rightarrow> (string \<times> string) list \<Rightarrow> admin_client" where
  "demo_admin command params = \<lparr>ac_command = command, ac_acl = Some admin_acl, ac_ip = ''10.0.0.3'', ac_legacy = False, ac_param = map_of params\<rparr>"

definition demo_source :: source where
  "demo_source = (new_source ''/a'')\<lparr>src_running := True, src_format := Some 1, client_tree := [demo_client 4, demo_client 5]\<rparr>"

definition demo_world :: "answer list \<Rightarrow> unit admin_world" where
  "demo_world as = \<lparr>aw_tree = Node Leaf demo_source Leaf, aw_reread = False, aw_config_locks = 0, aw_users = (\<lambda>_. ()), aw_tags = [],
     aw_answers = as\<rparr>"

lemma demo_formats: "formats_ok (aw_tree (demo_world as))"
  by (simp add: formats_ok_def demo_world_def demo_source_def)

section \<open>Requests\<close>

text \<open>What the table says about its handlers.\<close>

definition handler_ok :: "admin_command_handler \<Rightarrow> bool" where
  "handler_ok h \<longleftrightarrow> adm_function h \<noteq> None
     \<and> (adm_format h = PLAINTEXT \<longrightarrow> adm_function h = Some Command_list_mounts)
     \<and> (adm_type h \<noteq> ADMINTYPE_MOUNT \<longrightarrow>
          the (adm_function h) \<in> {Command_stats, Command_queue_reload, Command_list_mounts, Command_move_clients, Command_manageauth})"

lemma table_ok: "admin_get_handler i = Some h \<Longrightarrow> handler_ok h"
proof -
  assume a: "admin_get_handler i = Some h"
  then have "0 < i" "i < int (length handlers)" "h = handlers ! nat i" by (auto simp: admin_get_handler_def split: if_splits)
  then have "h \<in> set (tl handlers)" using nth_tl [of "nat i - 1" handlers] by (auto simp: in_set_conv_nth intro!: exI [of _ "nat i - 1"])
  moreover have "\<forall>h\<in>set (tl handlers). handler_ok h" by (simp add: handlers_def handler_def handler_ok_def)
  ultimately show ?thesis by blast
qed

lemma source_nodes_ok: "\<forall>s\<in>set ss. src_running s \<longrightarrow> src_format s \<noteq> None \<Longrightarrow> \<exists>ns. source_nodes E m ss = Inr ns"
proof (induction ss)
  case (Cons s ss)
  then obtain ns where ns: "source_nodes E m ss = Inr ns" by auto
  have "\<exists>n. source_node E s = Inr n" using Cons.prems by (auto simp: source_node_def Let_def)
  with ns show ?case by auto
qed simp

lemma sourcelist_ok: "formats_ok t \<Longrightarrow> \<exists>doc. admin_build_sourcelist E m t = Inr doc"
  using source_nodes_ok [of "inorder t" E m] by (auto simp: formats_ok_def admin_build_sourcelist_def)

lemma require_ok: "(\<And>v. \<exists>w'. k v = Inr w') \<Longrightarrow> \<exists>w'. command_require c n w k = Inr w'"
  by (simp add: command_require_def split: option.split)

lemma run_command_ok:
  assumes "handler_ok h" and "formats_ok (aw_tree w)" and "adm_type h = ADMINTYPE_MOUNT \<Longrightarrow> src \<noteq> None"
    and "adm_function h = Some Command_move_clients \<Longrightarrow> src \<noteq> None"
  shows "\<exists>w'. run_command E h c src w = Inr w'"
proof (cases src)
  case None
  then have "adm_function h \<in> Some ` {Command_stats, Command_queue_reload, Command_list_mounts, Command_manageauth}"
    using assms by (auto simp: handler_ok_def)
  then show ?thesis using sourcelist_ok [OF assms(2), of E None]
    by (auto simp: run_command_def command_list_mounts_def command_manageauth_def Let_def intro!: require_ok split: prod.split)
next
  case (Some s)
  obtain f where f: "adm_function h = Some f" using assms(1) by (auto simp: handler_ok_def)
  show ?thesis
    by (cases f)
      (use sourcelist_ok [OF assms(2), of E] in \<open>auto simp: run_command_def f Some for_source_def command_fallback_def command_metadata_def
        command_shoutcast_metadata_def command_kill_client_def command_buildm3u_def command_list_mounts_def command_manageauth_def
        command_move_clients_def Let_def map_sum_Inr intro!: require_ok split: prod.split option.split\<close>)
qed

text \<open>
  C19: every request for the administration is answered exactly once. When the running sources have their
  formats, and the request to move listeners names a mountpoint, the request is handled without
  a fault, and one answer is sent: an error, a document or a page.
\<close>

theorem admin_answers_once:
  assumes "formats_ok (aw_tree w)"
    and "\<And>h. admin_get_handler (ac_command c) = Some h \<Longrightarrow> adm_function h = Some Command_move_clients \<Longrightarrow> ac_param c ''mount'' \<noteq> None"
  shows "\<exists>w' a. admin_handle_request E c w = Inr w' \<and> aw_answers w' = aw_answers w @ [a]"
proof -
  have once: "\<exists>w' a. run_command E h c src w = Inr w' \<and> aw_answers w' = aw_answers w @ [a]"
    if h: "admin_get_handler (ac_command c) = Some h"
      and m: "adm_type h = ADMINTYPE_MOUNT \<Longrightarrow> src \<noteq> None"
      and f: "adm_function h = Some Command_move_clients \<Longrightarrow> src \<noteq> None" for h src
  proof -
    note t = table_ok [OF h]
    obtain w' where "run_command E h c src w = Inr w'" using run_command_ok [OF t assms(1) m f] by blast
    with run_command_answered [OF this] t show ?thesis by (auto simp: handler_ok_def answered_def)
  qed
  show ?thesis
  proof (cases "admin_get_handler (ac_command c)")
    case (Some h)
    show ?thesis
    proof (cases "ac_param c ''mount''")
      case None
      then show ?thesis using once [OF Some, of None] assms(2) [OF Some] Some by (auto simp: admin_handle_request_def send_def)
    next
      case (Some m)
      then show ?thesis using once [OF \<open>admin_get_handler (ac_command c) = Some h\<close>, of "Some _"] \<open>admin_get_handler (ac_command c) = Some h\<close>
        by (auto simp: admin_handle_request_def send_def split: option.split)
    qed
  qed (simp add: admin_handle_request_def send_def)
qed

theorem admin_answers_once_witness:
  "\<exists>w' a. admin_handle_request demo_env (demo_admin 13 []) (demo_world []) = Inr w' \<and> aw_answers w' = [a]"
proof -
  have "\<And>h. admin_get_handler (ac_command (demo_admin 13 [])) = Some h \<Longrightarrow> adm_function h \<noteq> Some Command_move_clients"
    by (simp add: demo_admin_def admin_get_handler_def handlers_def handler_def)
  then show ?thesis
    using admin_answers_once [OF demo_formats, of "demo_admin 13 []" demo_env "[]"] by (simp add: demo_world_def)
qed

text \<open>Answers leave the rest of the state alone.\<close>

definition same_state :: "'u admin_world \<Rightarrow> 'u admin_world \<Rightarrow> bool" where
  "same_state w w' \<longleftrightarrow> aw_tree w' = aw_tree w \<and> aw_reread w' = aw_reread w \<and> aw_config_locks w' = aw_config_locks w
     \<and> aw_users w' = aw_users w \<and> aw_tags w' = aw_tags w"

lemma same_send [simp]: "same_state w (send a w)"
  by (simp add: same_state_def send_def)

lemma same_response [simp]: "same_state w (admin_send_response E doc response t w)"
  by (cases response) (simp_all add: admin_send_response_def send_raw_def Let_def same_state_def send_def split: prod.split)

lemma same_success [simp]: "same_state w (html_success E m w)"
  by (simp add: html_success_def Let_def split: prod.split)

text \<open>The exception: a client that may be a source, for the metadata.\<close>

lemma metadata_state:
  assumes "command_metadata E c s RAW w = Inr w'"
  shows "same_state w w' \<or> may_update E c s True \<and> same_state (set_tags (src_mount s) (metadata_tags c) w) w'"
  using assms by (auto simp: command_metadata_def command_require_def split: option.splits if_splits)

text \<open>
  C18: commands need the right to them. When the access list of a client does not allow the command, the
  sources, the users, the locks and the request to read the configuration again stay as they
  are. Only the tags of a source can change: for a client that may send a source, from the address that the
  source has, on the mountpoint it names.
\<close>

theorem admin_needs_right:
  assumes "admin_handle_request E c w = Inr w'" and "acl_test_admin (ac_acl c) (ac_command c) \<noteq> ACL_POLICY_ALLOW"
  shows "aw_tree w' = aw_tree w \<and> aw_reread w' = aw_reread w \<and> aw_config_locks w' = aw_config_locks w \<and> aw_users w' = aw_users w
     \<and> (aw_tags w' = aw_tags w
        \<or> (acl_test_method (ae_httpp E) (ac_acl c) (ae_req_source E) = ACL_POLICY_ALLOW
             \<or> acl_test_method (ae_httpp E) (ac_acl c) (ae_req_put E) = ACL_POLICY_ALLOW)
          \<and> (\<exists>m s. ac_param c ''mount'' = Some m \<and> source_find_mount_raw (Some m) (aw_tree w) = Some s
                \<and> (src_client s \<longrightarrow> ac_ip c = si_client_ip (ae_info E (src_mount s)))
                \<and> aw_tags w' = aw_tags w @ map (\<lambda>t. (src_mount s, t)) (metadata_tags c)))"
proof -
  consider "same_state w w'"
    | h m s where "admin_get_handler (ac_command c) = Some h" "admin_allowed E h c" "ac_param c ''mount'' = Some m"
        "source_find_mount_raw (Some m) (aw_tree w) = Some s" "run_command E h c (Some s) w = Inr w'"
    | h where "admin_get_handler (ac_command c) = Some h" "admin_allowed E h c" "adm_type h \<noteq> ADMINTYPE_MOUNT"
    using assms(1) by (auto simp: admin_handle_request_def split: option.splits if_splits)
  then show ?thesis
  proof cases
    case 1
    then show ?thesis by (simp add: same_state_def)
  next
    case (2 h m s)
    then have h: "adm_function h = Some Command_metadata" "adm_format h = RAW"
      and a: "acl_test_method (ae_httpp E) (ac_acl c) (ae_req_source E) = ACL_POLICY_ALLOW
             \<or> acl_test_method (ae_httpp E) (ac_acl c) (ae_req_put E) = ACL_POLICY_ALLOW"
      using assms(2) by (auto simp: admin_allowed_def)
    then have "command_metadata E c s RAW w = Inr w'" using 2(5) by (simp add: run_command_def for_source_def)
    from metadata_state [OF this] show ?thesis
      using 2(3,4) a assms(2) by (auto simp: same_state_def set_tags_def may_update_def)
  next
    case (3 h)
    then have "adm_function h = Some Command_metadata" using assms(2) by (auto simp: admin_allowed_def)
    then show ?thesis using table_ok [OF 3(1)] 3(3) by (simp add: handler_ok_def)
  qed
qed

theorem admin_needs_right_witness:
  "\<exists>w'. admin_handle_request demo_env ((demo_admin 22 [(''mount'', ''/a'')])\<lparr>ac_acl := None\<rparr>) (demo_world []) = Inr w'
     \<and> aw_tree w' = Node Leaf demo_source Leaf \<and> aw_tags w' = []"
proof -
  let ?c = "(demo_admin 22 [(''mount'', ''/a'')])\<lparr>ac_acl := None\<rparr>"
  let ?w = "send (Error_answer ICECAST_ERROR_GEN_CLIENT_NEEDS_TO_AUTHENTICATE) (demo_world [])"
  have n: "acl_test_admin (ac_acl ?c) (ac_command ?c) \<noteq> ACL_POLICY_ALLOW" by (simp add: acl_test_admin_def)
  have r: "admin_handle_request demo_env ?c (demo_world []) = Inr ?w"
    by (simp add: admin_handle_request_def admin_get_handler_def handlers_def handler_def demo_admin_def admin_allowed_def
        acl_test_admin_def)
  have "aw_tags ?w = []" by (simp add: send_def demo_world_def)
  then show ?thesis using admin_needs_right [OF r n] r by (simp add: demo_world_def)
qed

section \<open>Documents\<close>

definition answer_header :: "'u admin_env \<Rightarrow> string \<Rightarrow> string option \<Rightarrow> string" where
  "answer_header E ct cs = header_text (ae_fnm E) (ae_date E) (ae_hconf E) False 200 None (Some ct) cs None (Some (ae_hclient E))"

lemma build_header_text:
  assumes "bufsize < 2 ^ 64" and "0 < bufsize"
  shows "build_header E bufsize ct cs None = (int (length (answer_header E ct cs)), take (bufsize - 1) (answer_header E ct cs))"
proof -
  have u: "unat (word_of_nat bufsize :: u64) = bufsize" using assms(1) by (simp add: unat_of_nat)
  then have "(word_of_nat bufsize :: u64) \<noteq> 0" using assms(2) by (metis unat_eq_zero less_not_refl)
  then show ?thesis using u by (simp add: build_header_def util_http_build_header_def snprintf_def answer_header_def Let_def)
qed

lemma show_nat_ulong: "n < 2 ^ 62 \<Longrightarrow> length (show_nat n) \<le> 19"
  using show_nat_length [of 19 n] by simp

text \<open>
  a document is sent whole. For a document whose length, with the room added to it, is an int of C, and
  however long the header is, the buffer that is sent holds the header, the length of the text and the text, nothing cut off, and the length
  given with it is its length.
\<close>

theorem document_sent_whole:
  assumes "length (ae_dump E doc) < 2 ^ 31 - 1024" and "length (answer_header E ''text/xml'' (Some ''utf-8'')) < 2 ^ 62"
  shows "\<exists>text. aw_answers (send_raw E doc w) = aw_answers w @ [Buffer_answer text (int (length text))]
     \<and> text = answer_header E ''text/xml'' (Some ''utf-8'')
         @ ''Content-Length: '' @ show_nat (length (ae_dump E doc)) @ crlf @ crlf @ ae_dump E doc"
proof -
  let ?h = "answer_header E ''text/xml'' (Some ''utf-8'')" and ?d = "ae_dump E doc"
  let ?rest = "''Content-Length: '' @ show_nat (length ?d) @ crlf @ crlf @ ?d"
  let ?b = "max 4096 (length ?d + 1024)"
  let ?c = "length ?h + length ?d + 64"
  have "length ?d < 2 ^ 62" using assms(1) by simp
  from show_nat_ulong [OF this] have l: "length ?rest < length ?d + 64" by (simp add: crlf_def)
  have b: "?b < 2 ^ 64" "0 < ?b" "?c < 2 ^ 64" "0 < ?c" using assms by simp_all
  note hb = build_header_text [OF b(1,2), of E "''text/xml''" "Some ''utf-8''"]
    and hc = build_header_text [OF b(3,4), of E "''text/xml''" "Some ''utf-8''"]
  have "aw_answers (send_raw E doc w) = aw_answers w @ [Buffer_answer (?h @ ?rest) (int (length (?h @ ?rest)))]"
  proof (cases "?b < length ?d + length ?h + 64")
    case True
    have "take (?c - 1) ?h = ?h" "snprintf (?c - length ?h) ?rest = ?rest" using l by (simp_all add: snprintf_def)
    with True show ?thesis unfolding send_raw_def Let_def hb by (simp only: prod.case nat_int hc if_True) (simp add: send_def)
  next
    case False
    then have "length ?h \<le> ?b - 1" "length ?rest \<le> ?b - length ?h - 1" using l by linarith+
    then have "take (?b - 1) ?h = ?h" "snprintf (?b - length ?h) ?rest = ?rest" unfolding snprintf_def by (simp_all only: take_all_iff)
    with False show ?thesis unfolding send_raw_def Let_def hb by (simp only: prod.case nat_int if_False) (simp add: send_def)
  qed
  then show ?thesis by blast
qed

theorem document_sent_whole_witness:
  "\<exists>text. aw_answers (send_raw demo_env (iceresponse ''Source Removed'' ''1'') (demo_world [])) = [Buffer_answer text (int (length text))]"
proof -
  have "length (answer_header demo_env ''text/xml'' (Some ''utf-8'')) < 2 ^ 62"
    by (simp add: answer_header_def demo_env_def header_text_def status_buffer_def connection_header_def upgrade_header_def
        contenttype_buffer_def build_headers_def crlf_def snprintf_def status_line_def contenttype_line_def)
  moreover have "length (ae_dump demo_env doc) < 2 ^ 31 - 1024" for doc by (simp add: demo_env_def)
  ultimately show ?thesis
    using document_sent_whole [of demo_env "iceresponse ''Source Removed'' ''1''" "demo_world []"] by (auto simp: demo_world_def)
qed

section \<open>Effects\<close>

lemma same_response_tree: "aw_tree (admin_send_response E doc response t w) = aw_tree w"
  "aw_config_locks (admin_send_response E doc response t w) = aw_config_locks w"
  using same_response [of w E doc response t] by (simp_all add: same_state_def)

text \<open>What remains of the listeners of a source after a turn.\<close>

lemma turn_listeners:
  assumes "inserts ins" and "source_turn ins sendl s = (s', freed, decs)"
  shows "set (client_tree s') \<subseteq> set (filter (\<lambda>c. \<not> con_error c) (map sendl (client_tree s))) \<union> set (pending_tree s)"
    and "set (filter (\<lambda>c. \<not> con_error c) (map sendl (client_tree s))) \<subseteq> set (client_tree s')"
    and "free_client ` set (filter con_error (map sendl (client_tree s))) \<subseteq> set freed"
proof -
  obtain t1 n1 f1 d1 where a: "serve_clients sendl (client_tree s) (n_listeners s) = (t1, n1, f1, d1)"
    by (cases "serve_clients sendl (client_tree s) (n_listeners s)")
  obtain t2 n2 f2 where b: "add_pending ins (src_max_listeners s) (pending_tree s) (t1, n1) = (t2, n2, f2)"
    by (cases "add_pending ins (src_max_listeners s) (pending_tree s) (t1, n1)")
  have r: "client_tree s' = t2" "freed = f1 @ f2"
    using assms(2) by (auto simp: source_turn_def a b Let_def update_listener_stats_def)
  note f = serve_clients_spec [OF a]
  obtain acc rej where g: "mset (pending_tree s) = mset acc + mset rej" "mset t2 = mset t1 + mset acc"
    using add_pending_spec [OF assms(1) b] by blast
  have "set t2 = set t1 \<union> set acc" "set acc \<subseteq> set (pending_tree s)"
    using arg_cong [OF g(2), of set_mset] arg_cong [OF g(1), of set_mset] by auto
  then show "set (client_tree s') \<subseteq> set (filter (\<lambda>c. \<not> con_error c) (map sendl (client_tree s))) \<union> set (pending_tree s)"
    "set (filter (\<lambda>c. \<not> con_error c) (map sendl (client_tree s))) \<subseteq> set (client_tree s')"
    "free_client ` set (filter con_error (map sendl (client_tree s))) \<subseteq> set freed" using r f by auto
qed

lemma find_client_number:
  assumes "l \<in> set (client_tree s)" and "n = con_id l" and "n < 2 ^ 31"
  shows "\<exists>l'. source_find_client s (int n) = Some l' \<and> con_id l' = n"
proof -
  have "int n mod 2 ^ 64 = int n" using assms(3) by simp
  then show ?thesis using assms
    by (cases "source_find_client s (int n)") (auto simp: source_find_client_def find_None_iff find_Some_iff)
qed

text \<open>
  a listener that is killed leaves. When a client with the right to it asks to kill the listener with a
  number on a mountpoint, the listener is dismissed in the next turn of the source, and the other
  listeners that can be sent to stay.
\<close>

theorem killed_listener_leaves:
  assumes "admin_get_handler (ac_command c) = Some h" and "adm_function h = Some Command_kill_client"
    and "acl_test_admin (ac_acl c) (ac_command c) = ACL_POLICY_ALLOW"
    and "ac_param c ''mount'' = Some m" and "find_raw m (aw_tree w) = Some s" and "src_running s"
    and "l \<in> set (client_tree s)" and "con_id l < 2 ^ 31" and "ac_param c ''id'' = Some (show_nat (con_id l))"
    and "con_id l \<notin> con_id ` set (pending_tree s)"
    and "\<And>x. con_id (sendl x) = con_id x \<and> (con_error x \<longrightarrow> con_error (sendl x))" and "inserts ins"
  shows "\<exists>w' s' s'' freed decs. admin_handle_request E c w = Inr w' \<and> find_raw m (aw_tree w') = Some s'
     \<and> source_turn ins sendl s' = (s'', freed, decs)
     \<and> con_id l \<notin> con_id ` set (client_tree s'') \<and> con_id l \<in> fst ` set freed
     \<and> (\<forall>x\<in>set (client_tree s). con_id x \<noteq> con_id l \<and> \<not> con_error (sendl x) \<longrightarrow> sendl x \<in> set (client_tree s''))"
proof -
  let ?s = "mark_client (con_id l) s"
  obtain l' where l': "source_find_client s (int (con_id l)) = Some l'" "con_id l' = con_id l"
    using find_client_number [OF assms(7) refl assms(8)] by blast
  have m: "src_mount s = m" using find_raw_mount [OF assms(5)] .
  have "atoi (show_nat (con_id l)) = int (con_id l)" using assms(8) by (rule atoi_show_nat)
  then have "admin_handle_request E c w = command_kill_client E c s (adm_format h) w"
    using assms(1-6) by (simp add: admin_handle_request_def admin_allowed_def source_find_mount_raw_def run_command_def for_source_def)
  also have "\<dots> = Inr (admin_send_response E (iceresponse (''Client '' @ show_int (int (con_id l)) @ '' removed'') ''1'')
      (adm_format h) ''response.xsl'' (w\<lparr>aw_tree := put_source ?s (aw_tree w)\<rparr>))" (is "_ = Inr ?w")
    using l' assms(9) \<open>atoi _ = _\<close> by (simp add: command_kill_client_def command_require_def)
  finally have r: "admin_handle_request E c w = Inr ?w" .
  have "src_mount ?s = m" by (simp add: mark_client_def m)
  then have f: "find_raw m (aw_tree ?w) = Some ?s"
    using find_raw_put_same [of ?s "aw_tree w"] assms(5) by (simp add: same_response_tree)
  obtain s'' freed decs where t: "source_turn ins sendl ?s = (s'', freed, decs)" by (cases "source_turn ins sendl ?s")
  note k = turn_listeners [OF assms(12) t]
  have ct: "client_tree ?s = map (\<lambda>c. if con_id c = con_id l then c\<lparr>con_error := True\<rparr> else c) (client_tree s)"
    and pt: "pending_tree ?s = pending_tree s" by (simp_all add: mark_client_def)
  have id: "con_id (sendl x) = con_id x" and er: "con_error x \<Longrightarrow> con_error (sendl x)" for x using assms(11) by blast+
  have "con_id l \<notin> con_id ` set (client_tree s'')"
  proof
    assume "con_id l \<in> con_id ` set (client_tree s'')"
    then obtain x where x: "x \<in> set (client_tree s'')" "con_id x = con_id l" by auto
    then have "x \<notin> set (pending_tree s)" using assms(10) by (metis image_eqI)
    then obtain y where "y \<in> set (client_tree ?s)" "x = sendl y" "\<not> con_error x" using k(1) x(1) pt by auto
    then show False using x(2) id er unfolding ct by auto
  qed
  moreover have "con_id l \<in> fst ` set freed"
  proof -
    let ?l = "sendl (l\<lparr>con_error := True\<rparr>)"
    have "l\<lparr>con_error := True\<rparr> \<in> set (client_tree ?s)" unfolding ct using assms(7) by force
    then have "?l \<in> set (filter con_error (map sendl (client_tree ?s)))" using er [of "l\<lparr>con_error := True\<rparr>"] by simp
    then have "free_client ?l \<in> set freed" using k(3) by blast
    moreover have "fst (free_client ?l) = con_id l" using id by (simp add: free_client_def)
    ultimately show ?thesis by (metis image_eqI)
  qed
  moreover have "\<forall>x\<in>set (client_tree s). con_id x \<noteq> con_id l \<and> \<not> con_error (sendl x) \<longrightarrow> sendl x \<in> set (client_tree s'')"
  proof (intro ballI impI)
    fix x assume x: "x \<in> set (client_tree s)" "con_id x \<noteq> con_id l \<and> \<not> con_error (sendl x)"
    then have "x \<in> set (client_tree ?s)" unfolding ct by force
    then show "sendl x \<in> set (client_tree s'')" using k(2) x(2) by auto
  qed
  ultimately show ?thesis using r f t by blast
qed

theorem killed_listener_leaves_witness:
  "\<exists>w' s' s'' freed decs. admin_handle_request demo_env (demo_admin 20 [(''mount'', ''/a''), (''id'', ''4'')]) (demo_world []) = Inr w'
     \<and> find_raw ''/a'' (aw_tree w') = Some s' \<and> source_turn (insort_key con_id) (\<lambda>c. c) s' = (s'', freed, decs)
     \<and> 4 \<notin> con_id ` set (client_tree s'') \<and> demo_client 5 \<in> set (client_tree s'')"
proof -
  let ?c = "demo_admin 20 [(''mount'', ''/a''), (''id'', ''4'')]"
  have "admin_get_handler (ac_command ?c) = Some (handler ''killclient'' ADMINTYPE_MOUNT RAW (Some Command_kill_client))"
    by (simp add: demo_admin_def admin_get_handler_def handlers_def)
  moreover have "acl_test_admin (ac_acl ?c) (ac_command ?c) = ACL_POLICY_ALLOW"
    by (simp add: demo_admin_def admin_acl_def acl_test_admin_def)
  moreover have "show_nat (con_id (demo_client 4)) = ''4''" by (simp add: demo_client_def show_nat.simps char_of_def bit_0)
  ultimately show ?thesis
    using killed_listener_leaves [of ?c _ "''/a''" "demo_world []" demo_source "demo_client 4" "\<lambda>c. c" "insort_key con_id" demo_env]
    by (auto simp: handler_def insort_inserts demo_admin_def demo_world_def demo_source_def demo_client_def new_source_def)
qed

text \<open>
  C35: managing users without a number keeps the configuration locked. A request to manage users releases the
  lock of the configuration exactly when it has a number; without one the lock is never released.
\<close>

theorem manageauth_lock:
  assumes "command_manageauth E c response w = Inr w'"
  shows "aw_config_locks w' = (if ac_param c ''id'' = None then Suc (aw_config_locks w) else aw_config_locks w)"
proof -
  have r: "aw_config_locks (manage_role E c a response (lock_config w)) = aw_config_locks w" for a
    unfolding manage_role_def
    by (auto simp: same_response_tree send_def unlock_config_def lock_config_def split: sum.split dest!: manage_users_quiet)
  show ?thesis using assms r
    by (auto simp: command_manageauth_def command_require_def send_def unlock_config_def lock_config_def Let_def split: option.splits)
qed

theorem manageauth_lock_witness:
  "\<exists>w'. command_manageauth demo_env (demo_admin 24 []) RAW (demo_world []) = Inr w' \<and> aw_config_locks w' = 1"
  using manageauth_lock [of demo_env "demo_admin 24 []" RAW "demo_world []"]
  by (simp add: command_manageauth_def command_require_def demo_admin_def demo_world_def Let_def)

end
