(* ===== verification/Config_Nodes.thy ===== *)
theory Config_Nodes
  imports Prelude
begin

text \<open>
  The nodes of a configuration file as libxml2 hands them out, and the options of a node
  (\<^verbatim>\<open>config_parse_options\<close> of \<^verbatim>\<open>src/src/cfgfile.c\<close>). A node carries what the library's functions
  return for it: its name, whether it is blank, the text below it (\<^verbatim>\<open>xmlNodeListGetString\<close>, NULL when there
  is none), its attributes in order and its children.
\<close>

datatype xmlnode = XML
  (node_name: string) (is_blank: bool) (node_text: "string option")
  (node_props: "(string \<times> string) list") (node_children: "xmlnode list")

definition xmlGetProp :: "xmlnode \<Rightarrow> string \<Rightarrow> string option" where
  "xmlGetProp node name = map_of (node_props node) name"

text \<open>An attribute is replaced where it is, or added at the end.\<close>

fun set_prop :: "string \<Rightarrow> string \<Rightarrow> (string \<times> string) list \<Rightarrow> (string \<times> string) list" where
  "set_prop name val [] = [(name, val)]"
| "set_prop name val ((n, v) # ps) = (if n = name then (n, val) # ps else (n, v) # set_prop name val ps)"

fun xmlSetProp :: "string \<Rightarrow> string \<Rightarrow> xmlnode \<Rightarrow> xmlnode" where
  "xmlSetProp name val (XML nm bl tx ps cs) = XML nm bl tx (set_prop name val ps) cs"

definition xmlNewNode :: "string \<Rightarrow> xmlnode" where
  "xmlNewNode name = XML name False None [] []"

fun xmlAddChild :: "xmlnode \<Rightarrow> xmlnode \<Rightarrow> xmlnode" where
  "xmlAddChild child (XML nm bl tx ps cs) = XML nm bl tx ps (cs @ [child])"

record config_option =
  co_type :: "string option"
  co_name :: "string option"
  co_value :: "string option"

definition config_parse_options :: "xmlnode option \<Rightarrow> config_option list" where
  "config_parse_options node =
     (case node of
        None \<Rightarrow> []
      | Some n \<Rightarrow>
          map (\<lambda>c. \<lparr>co_type = (if xmlGetProp c ''type'' = Some ''default'' then None else xmlGetProp c ''type''),
                   co_name = xmlGetProp c ''name'', co_value = xmlGetProp c ''value''\<rparr>)
            (filter (\<lambda>c. node_name c = ''option'') (node_children n)))"

definition append_option_tag :: "string option \<Rightarrow> string option \<Rightarrow> xmlnode \<Rightarrow> xmlnode" where
  "append_option_tag name val parent =
     (case (name, val) of
        (Some n, Some v) \<Rightarrow> xmlAddChild (xmlSetProp ''value'' v (xmlSetProp ''name'' n (xmlNewNode ''option''))) parent
      | _ \<Rightarrow> parent)"

text \<open>What these functions build and read.\<close>

lemma node_simps [simp]:
  "node_props (xmlSetProp n v x) = set_prop n v (node_props x)" "node_children (xmlSetProp n v x) = node_children x"
  "node_name (xmlSetProp n v x) = node_name x" "node_text (xmlSetProp n v x) = node_text x"
  "node_props (xmlAddChild c x) = node_props x" "node_children (xmlAddChild c x) = node_children x @ [c]"
  "node_name (xmlAddChild c x) = node_name x" "node_text (xmlAddChild c x) = node_text x"
  "node_props (xmlNewNode m) = []" "node_children (xmlNewNode m) = []" "node_name (xmlNewNode m) = m" "node_text (xmlNewNode m) = None"
  by (cases x; simp add: xmlNewNode_def)+

lemma map_of_set_prop [simp]: "map_of (set_prop n v ps) = (map_of ps)(n \<mapsto> v)"
  by (induction n v ps rule: set_prop.induct) (auto simp: fun_eq_iff)

lemma get_set_prop [simp]: "xmlGetProp (xmlSetProp n v x) = (xmlGetProp x)(n \<mapsto> v)"
  by (simp add: xmlGetProp_def fun_eq_iff)

lemma get_prop_new [simp]: "xmlGetProp (xmlNewNode m) n = None"
  by (simp add: xmlGetProp_def)

lemma append_option_props [simp]: "node_props (append_option_tag n v x) = node_props x"
  "xmlGetProp (append_option_tag n v x) = xmlGetProp x"
  by (auto simp: append_option_tag_def xmlGetProp_def fun_eq_iff split: option.split)

lemma append_option_children:
  "node_children (append_option_tag (Some n) v x) =
     node_children x @ (case v of None \<Rightarrow> [] | Some v \<Rightarrow> [xmlSetProp ''value'' v (xmlSetProp ''name'' n (xmlNewNode ''option''))])"
  by (simp add: append_option_tag_def split: option.split)

end
