(* ===== verification/Auth_URL.thy ===== *)
theory Auth_URL
  imports Auth_Backends Util_Header Util_URI
begin

text \<open>
  Authentication by a web service (\<^verbatim>\<open>src/src/auth_url.c\<close>): the request that is posted for a client
  that comes or goes, and the reading of the reply. The service is outside: \<open>perform\<close> gives for a request the
  header lines of the reply and whether there was one. The buffer of the request has a fixed size; \<open>post\<close> is
  the string in it and \<open>off\<close> the offset the code keeps, which counts what did not fit too.
\<close>

section \<open>Definitions\<close>

record auth_url =
  ua_pass_headers :: "string option"
  ua_prefix_headers :: "string option"
  ua_addurl :: "string option"
  ua_removeurl :: "string option"
  ua_addaction :: string
  ua_removeaction :: string
  ua_username :: "string option"
  ua_password :: "string option"
  ua_auth_header :: string
  ua_timelimit_header :: string
  ua_userpwd :: "string option"
  ua_errormsg :: string
  ua_result :: auth_result
  ua_release_client :: bool

record url_client =
  uc_id :: u64
  uc_ip :: string
  uc_creds :: credentials
  uc_getvar :: "string \<Rightarrow> string option"
  uc_rawuri :: "string option"
  uc_uri :: "string option"
  uc_con_time :: int
  uc_discon_time :: int

record curl_request =
  cr_url :: string
  cr_userpwd :: string
  cr_post :: string

record url_env =
  ue_hostname :: string
  ue_port :: int
  ue_now :: int
  perform :: "curl_request \<Rightarrow> string list \<times> bool"

definition POST_SIZE :: nat where
  "POST_SIZE = 4096"

definition CURL_ERROR_SIZE :: nat where
  "CURL_ERROR_SIZE = 256"

subsection \<open>Replies\<close>

definition cut_eol :: "string \<Rightarrow> string" where
  "cut_eol s = (case strchr CHR 0x0D s of
      Some (a, _) \<Rightarrow> a
    | None \<Rightarrow> (case strchr CHR 0x0A s of Some (a, _) \<Rightarrow> a | None \<Rightarrow> s))"

definition auth_header_returned :: "int \<Rightarrow> string \<Rightarrow> auth_url \<times> url_client \<Rightarrow> auth_url \<times> url_client" where
  "auth_header_returned now line = (\<lambda>(url, client).
     (let url = (if starts_with_case (ua_auth_header url) line then url\<lparr>ua_result := AUTH_OK\<rparr> else url);
          client =
            (if starts_with_case (ua_timelimit_header url) line
             then (let limit = (case scan_unsigned (drop (length (ua_timelimit_header url)) line) of None \<Rightarrow> 0 | Some n \<Rightarrow> n)
                   in client\<lparr>uc_discon_time := now + uint limit\<rparr>)
             else client);
          url =
            (if starts_with_case ''icecast-auth-message: '' line
             then url\<lparr>ua_errormsg := cut_eol (snprintf CURL_ERROR_SIZE (drop 22 line))\<rparr>
             else url)
      in (url, client)))"

subsection \<open>Requests\<close>

definition escape_or :: "string \<Rightarrow> string option \<Rightarrow> string" where
  "escape_or dflt src = (case util_url_escape src of None \<Rightarrow> dflt | Some s \<Rightarrow> s)"

definition mountreq :: "url_client \<Rightarrow> string option" where
  "mountreq client = (case uc_rawuri client of None \<Rightarrow> uc_uri client | Some u \<Rightarrow> Some u)"

definition post_text :: "(string \<times> string) list \<Rightarrow> string" where
  "post_text fs = join CHR ''&'' (map (\<lambda>(n, v). n @ CHR ''='' # v) fs)"

definition client_fields :: "url_env \<Rightarrow> string \<Rightarrow> url_client \<Rightarrow> string \<Rightarrow> (string \<times> string) list" where
  "client_fields E act client mount =
     [(''action'', act), (''server'', url_escape_loop (ue_hostname E)), (''port'', show_int (ue_port E)),
      (''client'', show_nat (unat (uc_id client))), (''mount'', url_escape_loop mount),
      (''user'', escape_or [] (username (uc_creds client))), (''pass'', escape_or [] (password (uc_creds client)))]"

definition agent_fields :: "url_client \<Rightarrow> (string \<times> string) list" where
  "agent_fields client =
     [(''ip'', url_escape_loop (uc_ip client)), (''agent'', escape_or ''-'' (uc_getvar client ''user-agent''))]"

definition userpwd_for :: "auth_url \<Rightarrow> string \<Rightarrow> url_client \<Rightarrow> string" where
  "userpwd_for url target client =
     (if strchr CHR ''@'' target = None then
        (case ua_userpwd url of
           Some p \<Rightarrow> p
         | None \<Rightarrow>
             (case (username (uc_creds client), password (uc_creds client)) of
                (Some u, Some p) \<Rightarrow> u @ CHR '':'' # p
              | _ \<Rightarrow> []))
      else [])"

definition url_remove_client ::
    "url_env \<Rightarrow> auth_url \<Rightarrow> url_client \<Rightarrow> fault + auth_result \<times> auth_url \<times> url_client \<times> curl_request list" where
  "url_remove_client E url client =
     (case ua_removeurl url of
        None \<Rightarrow> Inr (AUTH_OK, url, client, [])
      | Some removeurl \<Rightarrow>
          (case mountreq client of
             None \<Rightarrow> Inl Null_deref
           | Some m \<Rightarrow>
               (let duration = show_nat (nat ((ue_now E - uc_con_time client) mod 2 ^ 64));
                    post = snprintf POST_SIZE (post_text (client_fields E (ua_removeaction url) client m
                             @ [(''duration'', duration)] @ agent_fields client));
                    req = \<lparr>cr_url = removeurl, cr_userpwd = userpwd_for url removeurl client, cr_post = post\<rparr>;
                    (url, client) = fold (auth_header_returned (ue_now E)) (fst (perform E req)) (url, client)
                in Inr (AUTH_OK, url, client, [req]))))"

text \<open>
  One header of the client is added behind the others. The room left is the size of the buffer less the
  offset, as an unsigned number: once the offset is past the end it is huge and the write is out of bounds.
\<close>

definition header_piece :: "auth_url \<Rightarrow> string \<Rightarrow> string \<Rightarrow> string" where
  "header_piece url name v =
     CHR ''&'' # (case ua_prefix_headers url of None \<Rightarrow> [] | Some p \<Rightarrow> p) @ name @ CHR ''='' # url_escape_loop v"

definition append_header :: "auth_url \<Rightarrow> url_client \<Rightarrow> string \<Rightarrow> string \<times> nat \<Rightarrow> fault + string \<times> nat" where
  "append_header url client name = (\<lambda>(post, off).
     case uc_getvar client name of
       None \<Rightarrow> Inr (post, off)
     | Some v \<Rightarrow>
         if off > POST_SIZE then Inl Out_of_bounds
         else
           (let piece = header_piece url name v
            in Inr (if off = POST_SIZE then post else take off post @ snprintf (POST_SIZE - off) piece, off + length piece)))"

function pass_headers :: "auth_url \<Rightarrow> url_client \<Rightarrow> string \<Rightarrow> string \<times> nat \<Rightarrow> fault + string \<times> nat" where
  "pass_headers url client cur st =
     (case strchr CHR '','' cur of
        None \<Rightarrow> append_header url client cur st
      | Some (name, nxt) \<Rightarrow>
          (case append_header url client name st of
             Inl f \<Rightarrow> Inl f
           | Inr st \<Rightarrow> pass_headers url client nxt st))"
  by pat_completeness auto
termination
  by (relation "measure (\<lambda>(_, _, cur, _). length cur)") (auto simp: strchr_Some)

definition url_add_post :: "url_env \<Rightarrow> auth_url \<Rightarrow> url_client \<Rightarrow> string \<Rightarrow> fault + string \<times> nat" where
  "url_add_post E url client mount =
     (let text = post_text (client_fields E (ua_addaction url) client mount @ agent_fields client);
          st = (snprintf POST_SIZE text, length text)
      in case ua_pass_headers url of None \<Rightarrow> Inr st | Some hs \<Rightarrow> pass_headers url client hs st)"

definition url_add_client ::
    "url_env \<Rightarrow> auth_url \<Rightarrow> url_client \<Rightarrow> fault + auth_result \<times> auth_url \<times> url_client \<times> curl_request list" where
  "url_add_client E url client =
     (case ua_addurl url of
        None \<Rightarrow> Inr (AUTH_OK, url, client, [])
      | Some addurl \<Rightarrow>
          (case mountreq client of
             None \<Rightarrow> Inl Null_deref
           | Some m \<Rightarrow>
               (case url_add_post E url client m of
                  Inl f \<Rightarrow> Inl f
                | Inr (post, _) \<Rightarrow>
                    (let req = \<lparr>cr_url = addurl, cr_userpwd = userpwd_for url addurl client, cr_post = post\<rparr>;
                         (lines, res) = perform E req;
                         (url, client) = fold (auth_header_returned (ue_now E)) lines
                            (url\<lparr>ua_errormsg := [], ua_result := AUTH_FAILED\<rparr>, client)
                     in Inr (if res then ua_result url else AUTH_FAILED, url, client, [req])))))"

subsection \<open>Setup\<close>

definition auth_url_adduser :: "string \<Rightarrow> string \<Rightarrow> auth_result" where
  "auth_url_adduser user pass = AUTH_FAILED"

definition auth_url_deleteuser :: "string \<Rightarrow> auth_result" where
  "auth_url_deleteuser user = AUTH_FAILED"

definition auth_url_listuser :: auth_result where
  "auth_url_listuser = AUTH_FAILED"

text \<open>One option; the actions are kept apart until all options are read.\<close>

definition url_option :: "string \<times> string \<Rightarrow> auth_url \<Rightarrow> auth_url" where
  "url_option = (\<lambda>(n, v) url.
     if n = ''username'' then url\<lparr>ua_username := Some v\<rparr>
     else if n = ''password'' then url\<lparr>ua_password := Some v\<rparr>
     else if n = ''headers'' then url\<lparr>ua_pass_headers := Some v\<rparr>
     else if n = ''header_prefix'' then url\<lparr>ua_prefix_headers := Some v\<rparr>
     else if n = ''client_add'' then url\<lparr>ua_addurl := Some v\<rparr>
     else if n = ''client_remove'' then url\<lparr>ua_release_client := True, ua_removeurl := Some v\<rparr>
     else if n = ''action_add'' then url\<lparr>ua_addaction := v\<rparr>
     else if n = ''action_remove'' then url\<lparr>ua_removeaction := v\<rparr>
     else if n = ''auth_header'' then url\<lparr>ua_auth_header := v\<rparr>
     else if n = ''timelimit_header'' then url\<lparr>ua_timelimit_header := v\<rparr>
     else url)"

definition new_auth_url :: auth_url where
  "new_auth_url = \<lparr>ua_pass_headers = None, ua_prefix_headers = None, ua_addurl = None, ua_removeurl = None,
     ua_addaction = ''listener_add'', ua_removeaction = ''listener_remove'', ua_username = None, ua_password = None,
     ua_auth_header = ''icecast-auth-user: 1'' @ crlf, ua_timelimit_header = ''icecast-auth-timelimit:'', ua_userpwd = None,
     ua_errormsg = [], ua_result = AUTH_UNDEFINED, ua_release_client = False\<rparr>"

text \<open>
  Without a handle for requests the state is cleared here and cleared again when the authenticator is
  released, which reads through the pointer that is NULL by then.
\<close>

definition auth_get_url_auth :: "bool \<Rightarrow> (string \<times> string) list \<Rightarrow> fault + auth_url" where
  "auth_get_url_auth handle options =
     (let url = fold url_option options new_auth_url;
          url = url\<lparr>ua_addaction := url_escape_loop (ua_addaction url), ua_removeaction := url_escape_loop (ua_removeaction url)\<rparr>
      in if \<not> handle then Inl Null_deref
         else Inr (case (ua_username url, ua_password url) of
                     (Some u, Some p) \<Rightarrow> url\<lparr>ua_userpwd := Some (u @ CHR '':'' # p)\<rparr>
                   | _ \<Rightarrow> url))"

section \<open>The reply decides\<close>

lemma header_returned_result:
  "ua_result (fst (auth_header_returned now l uc)) = (if starts_with_case (ua_auth_header (fst uc)) l then AUTH_OK else ua_result (fst uc))"
  "ua_auth_header (fst (auth_header_returned now l uc)) = ua_auth_header (fst uc)"
  by (simp_all add: auth_header_returned_def Let_def split: prod.split)

lemma replies_result:
  "ua_result (fst (fold (auth_header_returned now) ls uc)) =
     (if \<exists>l\<in>set ls. starts_with_case (ua_auth_header (fst uc)) l then AUTH_OK else ua_result (fst uc))"
  by (induction ls arbitrary: uc) (auto simp: header_returned_result)

section \<open>The buffer of the request\<close>

text \<open>The headers of the client that are passed on, in order, as they are added.\<close>

definition passed :: "auth_url \<Rightarrow> url_client \<Rightarrow> (string \<times> string) list" where
  "passed url client =
     (case ua_pass_headers url of
        None \<Rightarrow> []
      | Some hs \<Rightarrow> concat (map (\<lambda>n. case uc_getvar client n of None \<Rightarrow> [] | Some v \<Rightarrow> [(n, v)]) (split_on CHR '','' hs)))"

definition pieces :: "auth_url \<Rightarrow> (string \<times> string) list \<Rightarrow> string list" where
  "pieces url hs = map (\<lambda>(n, v). header_piece url n v) hs"

text \<open>Whether a piece is added when the offset is past the end of the buffer.\<close>

fun past_end :: "nat \<Rightarrow> string list \<Rightarrow> bool" where
  "past_end off [] = False"
| "past_end off (p # ps) = (POST_SIZE < off \<or> past_end (off + length p) ps)"

lemma past_end_butlast: "past_end off ps \<longleftrightarrow> ps \<noteq> [] \<and> POST_SIZE < off + length (concat (butlast ps))"
  by (induction ps arbitrary: off) auto

definition in_buffer :: "string \<Rightarrow> string \<times> nat" where
  "in_buffer t = (snprintf POST_SIZE t, length t)"

lemma append_in_buffer:
  "append_header url client n (in_buffer t) =
     (case uc_getvar client n of
        None \<Rightarrow> Inr (in_buffer t)
      | Some v \<Rightarrow> if POST_SIZE < length t then Inl Out_of_bounds else Inr (in_buffer (t @ header_piece url n v)))"
proof (cases "length t < POST_SIZE")
  case True
  then show ?thesis by (auto simp: append_header_def in_buffer_def snprintf_def Let_def split: option.split)
next
  case False
  then show ?thesis by (auto simp: append_header_def in_buffer_def snprintf_def Let_def split: option.split)
qed

declare pass_headers.simps [simp del]

lemma pass_in_buffer:
  "pass_headers url client cur (in_buffer t) =
     (let ps = pieces url (concat (map (\<lambda>n. case uc_getvar client n of None \<Rightarrow> [] | Some v \<Rightarrow> [(n, v)]) (split_on CHR '','' cur)))
      in if past_end (length t) ps then Inl Out_of_bounds else Inr (in_buffer (t @ concat ps)))"
proof (induction "length cur" arbitrary: cur t rule: less_induct)
  case less
  show ?case
  proof (cases "strchr CHR '','' cur")
    case None
    then have "split_on CHR '','' cur = [cur]" by (simp add: strchr_None split_on_part)
    with None show ?thesis
      by (auto simp: pass_headers.simps [of _ _ cur] append_in_buffer pieces_def Let_def split: option.split)
  next
    case (Some nn)
    then obtain n cur' where nn: "nn = (n, cur')" "cur = n @ CHR '','' # cur'" "CHR '','' \<notin> set n"
      by (metis strchr_Some prod.exhaust)
    then have "length cur' < length cur" "split_on CHR '','' cur = n # split_on CHR '','' cur'" by (simp_all add: split_on_append)
    note IH = less [OF this(1)] and split = this(2)
    have "pass_headers url client cur st = (case append_header url client n st of Inl f \<Rightarrow> Inl f | Inr st \<Rightarrow> pass_headers url client cur' st)" for st
      using Some nn(1) by (simp add: pass_headers.simps [of _ _ cur])
    then show ?thesis unfolding split by (auto simp: IH append_in_buffer pieces_def Let_def split: option.split)
  qed
qed

lemma url_add_post_value:
  "url_add_post E url client m =
     (let text = post_text (client_fields E (ua_addaction url) client m @ agent_fields client); ps = pieces url (passed url client)
      in if past_end (length text) ps then Inl Out_of_bounds else Inr (in_buffer (text @ concat ps)))"
proof (cases "ua_pass_headers url")
  case None
  then show ?thesis by (simp add: url_add_post_def passed_def pieces_def in_buffer_def Let_def)
next
  case (Some hs)
  have "url_add_post E url client m = pass_headers url client hs
      (in_buffer (post_text (client_fields E (ua_addaction url) client m @ agent_fields client)))"
    by (simp add: url_add_post_def Some in_buffer_def Let_def)
  then show ?thesis by (simp only: pass_in_buffer passed_def Some option.case Let_def)
qed


text \<open>
  C24: a header passed on to the service can be written past the end of the buffer. The request of a client is
  built within its buffer of 4096 bytes, cut off at the end of it, unless a header is added when
  what is there already, counting what was cut off, is longer than the buffer: exactly then
  the code writes out of bounds.
\<close>

theorem url_post_overflow:
  assumes "ua_addurl url = Some target" and "mountreq client = Some m"
  shows "url_add_client E url client = Inl Out_of_bounds \<longleftrightarrow>
     passed url client \<noteq> []
     \<and> 4096 < length (post_text (client_fields E (ua_addaction url) client m @ agent_fields client)) + length (concat (butlast (pieces url (passed url client))))"
proof -
  have "url_add_client E url client = Inl Out_of_bounds \<longleftrightarrow> url_add_post E url client m = Inl Out_of_bounds"
    using assms by (auto simp: url_add_client_def Let_def split: sum.split prod.split)
  then show ?thesis
    by (simp add: url_add_post_value past_end_butlast Let_def POST_SIZE_def) (auto simp: pieces_def)
qed

section \<open>Fields\<close>

text \<open>A value that cannot end a field or a name.\<close>

definition field_ok :: "string \<Rightarrow> bool" where
  "field_ok s \<longleftrightarrow> CHR ''&'' \<notin> set s \<and> CHR ''='' \<notin> set s"

lemma not_safe [simp]: "\<not> is_safe CHR ''&''" "\<not> is_safe CHR ''=''"
  by (simp_all add: is_safe_def safechars_def code_def nth_append)

lemma field_ok_escape [simp]: "field_ok (url_escape_loop s)"
  using url_escape_alphabet [of "CHR ''&''" s] url_escape_alphabet [of "CHR ''=''" s] by (auto simp: field_ok_def)

lemma field_ok_digits: "\<forall>c\<in>set s. is_digit c \<Longrightarrow> field_ok s"
  by (auto simp: field_ok_def is_digit_def in_range_def code_def)

lemma field_ok_numbers [simp]: "field_ok (show_nat n)" "field_ok (show_int i)"
  using field_ok_digits show_nat_digits by (auto simp: show_int_def field_ok_def)

lemma field_ok_const [simp]: "field_ok []" "field_ok ''-''" by (simp_all add: field_ok_def)

lemma field_ok_escape_or [simp]: "field_ok d \<Longrightarrow> field_ok (escape_or d v)"
  by (auto simp: escape_or_def util_url_escape_def split: option.split)

lemma fields_ok:
  "field_ok act \<Longrightarrow> (n, v) \<in> set (client_fields E act client m @ agent_fields client) \<Longrightarrow> field_ok n \<and> field_ok v"
  by (auto simp: client_fields_def agent_fields_def) (simp_all add: field_ok_def)

lemma post_text_fields:
  assumes "fs \<noteq> []" and "\<And>n v. (n, v) \<in> set fs \<Longrightarrow> field_ok n \<and> field_ok v"
  shows "map (strchr CHR ''='') (split_on CHR ''&'' (post_text fs)) = map Some fs"
proof -
  have "split_on CHR ''&'' (post_text fs) = map (\<lambda>(n, v). n @ CHR ''='' # v) fs"
    unfolding post_text_def using assms by (intro split_on_join) (auto simp: field_ok_def)
  then show ?thesis using assms(2) by (auto simp: field_ok_def strchr_Some)
qed

lemma join_append: "es \<noteq> [] \<Longrightarrow> join d (es @ es') = join d es @ concat (map (\<lambda>e. d # e) es')"
proof (induction es)
  case (Cons e es)
  then show ?case
  proof (cases "es = []")
    case True
    then show ?thesis by (induction es' arbitrary: e) (auto simp: join_Cons)
  qed (auto simp: join_Cons)
qed simp

text \<open>
  clients cannot forge fields. When the request fits the buffer, and neither the names of the headers to
  pass on nor the action hold a separator, the service reads from it exactly the fields the
  server wrote, in order: the ones of the client, then its headers. The user name it reads
  is the one the client gave, whatever characters it has.
\<close>

theorem url_fields_not_forged:
  assumes "url_add_post E url client m = Inr (post, length post)" and "length post < 4096"
    and "field_ok (ua_addaction url)"
    and "\<And>n v. (n, v) \<in> set (passed url client) \<Longrightarrow> field_ok ((case ua_prefix_headers url of None \<Rightarrow> [] | Some p \<Rightarrow> p) @ n)"
    and "username (uc_creds client) = Some user" and "no_nul user"
  shows "map (strchr CHR ''='') (split_on CHR ''&'' post) =
       map Some (client_fields E (ua_addaction url) client m @ agent_fields client
         @ map (\<lambda>(n, v). ((case ua_prefix_headers url of None \<Rightarrow> [] | Some p \<Rightarrow> p) @ n, url_escape_loop v)) (passed url client))
     \<and> (\<exists>e. (''user'', e) \<in> set (client_fields E (ua_addaction url) client m) \<and> util_url_unescape e = Some user)"
proof -
  let ?fs = "client_fields E (ua_addaction url) client m @ agent_fields client"
  let ?hs = "map (\<lambda>(n, v). ((case ua_prefix_headers url of None \<Rightarrow> [] | Some p \<Rightarrow> p) @ n, url_escape_loop v)) (passed url client)"
  have ne: "?fs \<noteq> []" by (simp add: client_fields_def)
  have p: "post_text (?fs @ ?hs) = post_text ?fs @ concat (pieces url (passed url client))"
  proof -
    have "post_text (?fs @ ?hs) = post_text ?fs @ concat (map (\<lambda>e. CHR ''&'' # e) (map (\<lambda>(n, v). n @ CHR ''='' # v) ?hs))"
      unfolding post_text_def map_append [of "\<lambda>(n, v). n @ CHR ''='' # v" ?fs] using ne by (intro join_append) simp
    also have "map (\<lambda>e. CHR ''&'' # e) (map (\<lambda>(n, v). n @ CHR ''='' # v) ?hs) = pieces url (passed url client)"
      by (auto simp: pieces_def header_piece_def)
    finally show ?thesis .
  qed
  have "post = snprintf 4096 (post_text (?fs @ ?hs)) \<and> length post = length (post_text (?fs @ ?hs))"
    using assms(1) unfolding p by (auto simp: url_add_post_value in_buffer_def POST_SIZE_def Let_def split: if_splits)
  then have "post = post_text (?fs @ ?hs)" using assms(2) snprintf_fits [of "post_text (?fs @ ?hs)" 4096] by argo
  moreover have "map (strchr CHR ''='') (split_on CHR ''&'' (post_text (?fs @ ?hs))) = map Some (?fs @ ?hs)"
  proof (rule post_text_fields)
    fix n v assume "(n, v) \<in> set (?fs @ ?hs)"
    then consider "(n, v) \<in> set ?fs" | "(n, v) \<in> set ?hs" by (metis Un_iff set_append)
    then show "field_ok n \<and> field_ok v"
    proof cases
      case 1
      then show ?thesis using fields_ok [OF assms(3)] by blast
    next
      case 2
      then show ?thesis using assms(4) by auto
    qed
  qed (use ne in blast)
  moreover have "(''user'', url_escape_loop user) \<in> set (client_fields E (ua_addaction url) client m)"
    by (simp add: client_fields_def escape_or_def util_url_escape_def assms(5))
  ultimately show ?thesis using url.dec_enc [OF assms(6)] by auto
qed

section \<open>Examples\<close>

definition demo_url :: auth_url where
  "demo_url = new_auth_url\<lparr>ua_addurl := Some ''http://auth/'', ua_pass_headers := Some ''host,x-id'', ua_prefix_headers := Some ''h_''\<rparr>"

definition demo_url_client :: "string \<Rightarrow> url_client" where
  "demo_url_client host = \<lparr>uc_id = 7, uc_ip = ''10.0.0.1'', uc_creds = \<lparr>username = Some ''a&b'', password = None\<rparr>,
     uc_getvar = map_of [(''host'', host), (''x-id'', ''1'')], uc_rawuri = None, uc_uri = Some ''/live'', uc_con_time = 0, uc_discon_time = 0\<rparr>"

definition demo_url_env :: url_env where
  "demo_url_env = \<lparr>ue_hostname = ''localhost'', ue_port = 8000, ue_now = 100, perform = (\<lambda>_. ([''icecast-auth-user: 1'' @ crlf], True))\<rparr>"

lemma demo_passed: "passed demo_url (demo_url_client host) = [(''host'', host), (''x-id'', ''1'')]"
  by (simp add: passed_def demo_url_def demo_url_client_def)

lemma escape_long: "length s \<le> length (url_escape_loop s)"
  by (induction s) auto

text \<open>A header of the client that is longer than the buffer.\<close>

theorem url_post_overflow_witness:
  "url_add_client demo_url_env demo_url (demo_url_client (replicate 4096 CHR ''x'')) = Inl Out_of_bounds"
proof -
  let ?c = "demo_url_client (replicate 4096 CHR ''x'')"
  have "length (url_escape_loop (replicate 4096 CHR ''x'')) \<ge> 4096"
    using escape_long [of "replicate 4096 CHR ''x''"] by simp
  then have "4096 < length (concat (butlast (pieces demo_url (passed demo_url ?c))))"
    by (simp add: demo_passed pieces_def header_piece_def)
  moreover have "ua_addurl demo_url = Some ''http://auth/''" "mountreq ?c = Some ''/live''"
    by (simp_all add: demo_url_def demo_url_client_def mountreq_def)
  ultimately show ?thesis
    using url_post_overflow [of demo_url "''http://auth/''" ?c "''/live''" demo_url_env] by (simp add: demo_passed)
qed

lemma demo_post:
  "\<exists>post. url_add_post demo_url_env demo_url (demo_url_client ''h'') ''/live'' = Inr (post, length post) \<and> length post < 4096"
proof -
  let ?c = "demo_url_client ''h''"
  let ?t = "post_text (client_fields demo_url_env (ua_addaction demo_url) ?c ''/live'' @ agent_fields ?c)"
  have n: "length (show_int 8000) = 4" "length (show_nat 7) = 1" by (simp_all add: show_int_def show_nat.simps)
  have e: "length (url_escape_loop s) \<le> length s * 3" for s by (rule url_escape_length)
  have "length ?t \<le> 500"
    using n e [of "''localhost''"] e [of "''/live''"] e [of "''a&b''"] e [of "''10.0.0.1''"]
    by (simp add: post_text_def client_fields_def agent_fields_def demo_url_def new_auth_url_def demo_url_env_def demo_url_client_def
        escape_or_def util_url_escape_def del: url_escape_loop.simps)
  moreover have "length (concat (pieces demo_url (passed demo_url ?c))) \<le> 100"
    using e [of "''h''"] e [of "''1''"] unfolding demo_passed
    by (simp add: pieces_def header_piece_def demo_url_def del: url_escape_loop.simps)
  ultimately have l: "length (?t @ concat (pieces demo_url (passed demo_url ?c))) < 4096" by simp
  then have "\<not> past_end (length ?t) (pieces demo_url (passed demo_url ?c))"
    by (simp add: past_end_butlast POST_SIZE_def demo_passed pieces_def)
  then show ?thesis using l by (simp add: url_add_post_value in_buffer_def POST_SIZE_def snprintf_fits Let_def)
qed


theorem url_fields_not_forged_witness:
  "\<exists>post e. url_add_post demo_url_env demo_url (demo_url_client ''h'') ''/live'' = Inr (post, length post)
     \<and> Some (''user'', e) \<in> set (map (strchr CHR ''='') (split_on CHR ''&'' post)) \<and> util_url_unescape e = Some ''a&b''"
proof -
  obtain post where p: "url_add_post demo_url_env demo_url (demo_url_client ''h'') ''/live'' = Inr (post, length post)" "length post < 4096"
    using demo_post by blast
  have "field_ok (ua_addaction demo_url)" by (simp add: demo_url_def new_auth_url_def field_ok_def)
  moreover have "username (uc_creds (demo_url_client ''h'')) = Some ''a&b''" "no_nul ''a&b''"
    by (simp_all add: demo_url_client_def no_nul_def NUL_def)
  moreover have "field_ok ((case ua_prefix_headers demo_url of None \<Rightarrow> [] | Some p \<Rightarrow> p) @ n)" if "(n, v) \<in> set (passed demo_url (demo_url_client ''h''))" for n v
    using that unfolding demo_passed by (auto simp: demo_url_def field_ok_def)
  ultimately have f: "map (strchr CHR ''='') (split_on CHR ''&'' post) =
      map Some (client_fields demo_url_env (ua_addaction demo_url) (demo_url_client ''h'') ''/live'' @ agent_fields (demo_url_client ''h'')
         @ map (\<lambda>(n, v). ((case ua_prefix_headers demo_url of None \<Rightarrow> [] | Some p \<Rightarrow> p) @ n, url_escape_loop v)) (passed demo_url (demo_url_client ''h'')))
     \<and> (\<exists>e. (''user'', e) \<in> set (client_fields demo_url_env (ua_addaction demo_url) (demo_url_client ''h'') ''/live'')
          \<and> util_url_unescape e = Some ''a&b'')"
    by (intro url_fields_not_forged [OF p])
  then obtain e where e: "(''user'', e) \<in> set (client_fields demo_url_env (ua_addaction demo_url) (demo_url_client ''h'') ''/live'')"
    "util_url_unescape e = Some ''a&b''" by blast
  have "Some (''user'', e) \<in> set (map (strchr CHR ''='') (split_on CHR ''&'' post))"
    unfolding conjunct1 [OF f] map_append set_append set_map using e(1) by blast
  then show ?thesis using p(1) e(2) by blast
qed

end
