(* ===== verification/Config_Roles.thy ===== *)
theory Config_Roles
  imports Config_Nodes ACL Auth_Htpasswd Auth_URL
begin

text \<open>
  Authenticators made from the configuration: a role of the configuration (\<^verbatim>\<open>auth_get_authenticator\<close> of
  \<^verbatim>\<open>src/src/auth.c\<close>) and the roles that the older settings for passwords stand for
  (\<^verbatim>\<open>__append_old_style_auth\<close> and \<^verbatim>\<open>__append_old_style_urlauth\<close> of \<^verbatim>\<open>src/src/cfgfile.c\<close>). A stack of
  authenticators is the list of its entries, the empty list when it is NULL. The counter of the
  identifiers is passed along.
\<close>

section \<open>Definitions\<close>

datatype auth_backend =
  Static_backend auth_static
| Htpasswd_backend "string option"
| Anonymous_backend
| Url_backend auth_url

record authenticator =
  at_id :: u64
  at_type :: string
  at_role :: "string option"
  at_management_url :: "string option"
  at_method :: "nat \<Rightarrow> bool"
  at_acl :: acl
  at_backend :: auth_backend
  at_immediate :: bool
  at_mount :: "string option"

record role_env =
  re_httpp :: httpp
  re_curl :: bool

text \<open>The list of methods of a role; None when one is not known.\<close>

function parse_methods :: "httpp \<Rightarrow> string \<Rightarrow> (nat \<Rightarrow> bool) \<Rightarrow> (nat \<Rightarrow> bool) option" where
  "parse_methods h cur m =
     (let (cur, nxt) = (case strchr CHR '','' cur of
            None \<Rightarrow> (cur, None) | Some (a, b) \<Rightarrow> (a, Some (dropWhile (\<lambda>c. c = CHR '' '') b)))
      in if cur = ''*'' then Some (\<lambda>_. True)
         else if str_to_method h cur = req_unknown h then None
         else (let m = m(str_to_method h cur := True)
               in case nxt of None \<Rightarrow> Some m | Some n \<Rightarrow> parse_methods h n m))"
  by pat_completeness auto
termination
proof (relation "measure (\<lambda>(_, cur, _). length cur)", goal_cases)
  case (2 h cur m x xa y n0 n)
  then obtain a b where s: "strchr CHR '','' cur = Some (a, b)" and n: "n = dropWhile (\<lambda>c. c = CHR '' '') b"
    by (cases "strchr CHR '','' cur") auto
  then have "cur = a @ CHR '','' # b" by (simp add: strchr_Some)
  then have "length b < length cur" by simp
  moreover have "length n \<le> length b" unfolding n by (rule length_dropWhile_le)
  ultimately show ?case by simp
qed simp

declare parse_methods.simps [simp del]

definition role_methods :: "httpp \<Rightarrow> string option \<Rightarrow> (nat \<Rightarrow> bool) option" where
  "role_methods h method = (case method of None \<Rightarrow> Some (\<lambda>_. True) | Some s \<Rightarrow> parse_methods h s (\<lambda>_. False))"

definition role_options :: "xmlnode \<Rightarrow> (string \<times> string) list" where
  "role_options node =
     concat (map (\<lambda>c. case (xmlGetProp c ''name'', xmlGetProp c ''value'') of (Some n, Some v) \<Rightarrow> [(n, v)] | _ \<Rightarrow> [])
       (filter (\<lambda>c. node_name c = ''option'') (node_children node)))"

text \<open>The back end of a type; None when it is not set up. A setup that fails for want of a setting ends in a fault.\<close>

definition get_authenticator :: "role_env \<Rightarrow> string \<Rightarrow> (string \<times> string) list \<Rightarrow> fault + auth_backend option" where
  "get_authenticator R type options =
     (if type = ''url'' then map_sum id (\<lambda>u. Some (Url_backend u)) (auth_get_url_auth (re_curl R) options)
      else if type = ''htpasswd'' then Inr (Some (Htpasswd_backend (htpasswd_options options)))
      else if type = ''anonymous'' then Inr (Some Anonymous_backend)
      else if type = ''static'' \<or> type = ''legacy-password''
      then map_sum id (map_option Static_backend) (static_setup type options)
      else Inr None)"

definition lists_users :: "auth_backend \<Rightarrow> bool" where
  "lists_users b \<longleftrightarrow> b \<noteq> Anonymous_backend"

definition auth_get_authenticator :: "role_env \<Rightarrow> xmlnode \<Rightarrow> u64 \<Rightarrow> fault + authenticator option \<times> u64" where
  "auth_get_authenticator R node ids =
     (case xmlGetProp node ''type'' of
        None \<Rightarrow> Inr (None, ids + 1)
      | Some type \<Rightarrow>
          (case role_methods (re_httpp R) (xmlGetProp node ''method'') of
             None \<Rightarrow> Inr (None, ids + 1)
           | Some methods \<Rightarrow>
               (case acl_new_from_xml_node (re_httpp R) (Some (map (\<lambda>(n, v). (n, Some v)) (node_props node))) of
                  None \<Rightarrow> Inr (None, ids + 1)
                | Some acl \<Rightarrow>
                    then_do (get_authenticator R type (role_options node)) (\<lambda>b. Inr
                      (map_option (\<lambda>b.
                         \<lparr>at_id = ids, at_type = type, at_role = xmlGetProp node ''name'',
                          at_management_url = (case xmlGetProp node ''management-url'' of
                             Some u \<Rightarrow> Some u
                           | None \<Rightarrow> if lists_users b then Some (''/admin/manageauth.xsl?id='' @ show_nat (unat ids)) else None),
                          at_method = methods, at_acl = acl, at_backend = b,
                          at_immediate = (case b of Url_backend _ \<Rightarrow> False | _ \<Rightarrow> True), at_mount = None\<rparr>) b,
                       ids + 1)))))"

definition auth_stack_push :: "authenticator list \<Rightarrow> authenticator option \<Rightarrow> authenticator list" where
  "auth_stack_push stack auth = (case auth of None \<Rightarrow> stack | Some a \<Rightarrow> stack @ [a])"

definition auth_stack_append :: "authenticator list \<Rightarrow> authenticator list \<Rightarrow> authenticator list" where
  "auth_stack_append stack rest = (if stack = [] then [] else stack @ rest)"

definition push_role :: "role_env \<Rightarrow> xmlnode \<Rightarrow> authenticator list \<times> u64 \<Rightarrow> fault + authenticator list \<times> u64" where
  "push_role R node = (\<lambda>(stack, ids).
     map_sum id (\<lambda>(auth, ids). (auth_stack_push stack auth, ids)) (auth_get_authenticator R node ids))"

subsection \<open>Older settings\<close>

definition opt_prop :: "string \<Rightarrow> string option \<Rightarrow> xmlnode \<Rightarrow> xmlnode" where
  "opt_prop name val node = (case val of None \<Rightarrow> node | Some v \<Rightarrow> xmlSetProp name v node)"

definition old_style_role ::
    "string option \<Rightarrow> string \<Rightarrow> string option \<Rightarrow> string option \<Rightarrow> string option \<Rightarrow> string option \<Rightarrow> bool \<Rightarrow> string option \<Rightarrow> xmlnode" where
  "old_style_role name type user pass method allow_method allow_web allow_admin =
     (let role = xmlSetProp ''deny-method'' ''*'' (xmlSetProp ''type'' type (xmlNewNode ''role''));
          role = opt_prop ''method'' method (opt_prop ''name'' name (opt_prop ''allow-method'' allow_method role));
          role = xmlSetProp (if allow_web then ''allow-web'' else ''deny-web'') ''*'' role;
          role = (if allow_admin = Some ''*'' then xmlSetProp ''allow-admin'' ''*'' role
                  else opt_prop ''allow-admin'' allow_admin (xmlSetProp ''deny-admin'' ''*'' role))
      in append_option_tag (Some ''password'') pass (append_option_tag (Some ''username'') user role))"

definition append_old_style_auth ::
    "role_env \<Rightarrow> string option \<Rightarrow> string option \<Rightarrow> string option \<Rightarrow> string option \<Rightarrow> string option \<Rightarrow> string option \<Rightarrow> bool
     \<Rightarrow> string option \<Rightarrow> authenticator list \<times> u64 \<Rightarrow> fault + authenticator list \<times> u64" where
  "append_old_style_auth R name type user pass method allow_method allow_web allow_admin st =
     (case type of
        None \<Rightarrow> Inr st
      | Some t \<Rightarrow> push_role R (old_style_role name t user pass method allow_method allow_web allow_admin) st)"

definition old_style_url_role ::
    "string option \<Rightarrow> string option \<Rightarrow> string option \<Rightarrow> string option \<Rightarrow> string option \<Rightarrow> string option \<Rightarrow> bool
     \<Rightarrow> string option \<Rightarrow> string option \<Rightarrow> string option \<Rightarrow> string option \<Rightarrow> xmlnode" where
  "old_style_url_role client_add client_remove action_add action_remove user pass is_source auth_header timelimit_header hdrs header_prefix =
     (let role = xmlSetProp ''type'' ''url'' (xmlNewNode ''role'');
          m = (if is_source then ''source,put'' else ''get,post,head'');
          role = xmlSetProp ''allow-web'' ''*'' (xmlSetProp ''allow-method'' m (xmlSetProp ''deny-method'' ''*'' (xmlSetProp ''method'' m role)));
          role = xmlSetProp (if is_source then ''allow-admin'' else ''deny-admin'') ''*'' role
      in fold (\<lambda>(n, v). append_option_tag (Some n) v)
           [(''client_add'', client_add), (''client_remove'', client_remove), (''action_add'', action_add),
            (''action_remove'', action_remove), (''username'', user), (''password'', pass), (''auth_header'', auth_header),
            (''timelimit_header'', timelimit_header), (''headers'', hdrs), (''header_prefix'', header_prefix)] role)"

definition append_old_style_urlauth ::
    "role_env \<Rightarrow> string option \<Rightarrow> string option \<Rightarrow> string option \<Rightarrow> string option \<Rightarrow> string option \<Rightarrow> string option \<Rightarrow> bool
     \<Rightarrow> string option \<Rightarrow> string option \<Rightarrow> string option \<Rightarrow> string option \<Rightarrow> authenticator list \<times> u64 \<Rightarrow> fault + authenticator list \<times> u64" where
  "append_old_style_urlauth R client_add client_remove action_add action_remove user pass is_source auth_header timelimit_header
       hdrs header_prefix st =
     (if client_add = None \<and> client_remove = None then Inr st
      else push_role R (old_style_url_role client_add client_remove action_add action_remove user pass is_source
             auth_header timelimit_header hdrs header_prefix) st)"

end
