(* ===== verification/Event_Backends.thy ===== *)
theory Event_Backends
  imports Config_Nodes Events Source Auth_URL Util_Conv
begin

text \<open>
  What happens on an event: a line in the log (\<^verbatim>\<open>src/src/event_log.c\<close>), a program
  (\<^verbatim>\<open>src/src/event_exec.c\<close>) or a request to a web service (\<^verbatim>\<open>src/src/event_url.c\<close>), and the setup of these
  back ends from a node of the configuration (\<^verbatim>\<open>event_new_from_xml_node\<close> of \<^verbatim>\<open>src/src/event.c\<close>). What a
  call does is the effect it leaves; the fork, the file descriptors and the program itself are outside.
\<close>

section \<open>Log\<close>

record event_log =
  el_prefix :: "string option"
  el_level :: int

definition log_option :: "config_option \<Rightarrow> event_log \<Rightarrow> event_log" where
  "log_option opt self =
     (if co_type opt \<noteq> None then self
      else (case co_name opt of
              None \<Rightarrow> self
            | Some n \<Rightarrow>
                if n = ''prefix'' then self\<lparr>el_prefix := co_value opt\<rparr>
                else if n = ''level''
                then self\<lparr>el_level := (case co_value opt of None \<Rightarrow> 3 | Some v \<Rightarrow> util_str_to_loglevel v)\<rparr>
                else self))"

definition event_get_log :: "config_option list \<Rightarrow> event_log" where
  "event_get_log options = fold log_option options \<lparr>el_prefix = Some ''Event'', el_level = 3\<rparr>"

text \<open>The line is printed by the log from the level, the prefix and the fields; a string can be NULL.\<close>

definition event_log_emit :: "event_log \<Rightarrow> event \<Rightarrow> int \<times> string \<times> (string \<times> string option) list" where
  "event_log_emit self event =
     (el_level self,
      (case el_prefix self of None \<Rightarrow> [] | Some p \<Rightarrow> p @ '': ''),
      [(''trigger'', Some (trigger event)), (''uri'', event_uri event),
       (''connection_id'', Some (show_nat (connection_id event))), (''connection_ip'', connection_ip event),
       (''connection_time'', Some (show_int (connection_time event))), (''client_role'', client_role event),
       (''client_username'', client_username event), (''client_useragent'', client_useragent event),
       (''client_admin_command'', Some (show_int (client_admin_command event)))])"

section \<open>Programs\<close>

datatype argvtype = ARGVTYPE_NO_DEFAULTS | ARGVTYPE_ONLY_URI | ARGVTYPE_URI_AND_TRIGGER | ARGVTYPE_LEGACY

record event_exec =
  ex_executable :: string
  ex_argvtype :: argvtype
  ex_argv :: "string option list"

definition argvtype2offset :: "argvtype \<Rightarrow> nat" where
  "argvtype2offset t =
     (case t of ARGVTYPE_NO_DEFAULTS \<Rightarrow> 1 | ARGVTYPE_ONLY_URI \<Rightarrow> 2 | ARGVTYPE_URI_AND_TRIGGER \<Rightarrow> 3 | ARGVTYPE_LEGACY \<Rightarrow> 2)"

definition str2argvtype :: "string option \<Rightarrow> argvtype" where
  "str2argvtype str =
     (if str = Some ''no_defaults'' then ARGVTYPE_NO_DEFAULTS
      else if str = Some ''uri'' then ARGVTYPE_ONLY_URI
      else if str = Some ''uri_and_trigger'' then ARGVTYPE_URI_AND_TRIGGER
      else ARGVTYPE_LEGACY)"

text \<open>The argument vector, up to its NULL; without one the reader runs past the end.\<close>

fun argv_strings :: "string option list \<Rightarrow> fault + string list" where
  "argv_strings [] = Inl Out_of_bounds"
| "argv_strings (None # _) = Inr []"
| "argv_strings (Some a # as) = map_sum id ((#) a) (argv_strings as)"

definition setup_argv :: "event_exec \<Rightarrow> event \<Rightarrow> fault + string list" where
  "setup_argv self event =
     (let argv = (ex_argv self)[0 := Some (ex_executable self)];
          or_empty = (\<lambda>s. Some (case s of None \<Rightarrow> [] | Some u \<Rightarrow> u))
      in case ex_argvtype self of
           ARGVTYPE_NO_DEFAULTS \<Rightarrow> argv_strings argv
         | ARGVTYPE_URI_AND_TRIGGER \<Rightarrow> argv_strings (argv[2 := Some (trigger event), 1 := or_empty (event_uri event)])
         | ARGVTYPE_ONLY_URI \<Rightarrow> argv_strings (argv[1 := or_empty (event_uri event)])
         | ARGVTYPE_LEGACY \<Rightarrow>
             (case event_uri event of
                Some u \<Rightarrow> argv_strings (argv[1 := Some u])
              | None \<Rightarrow> argv_strings (tl (argv[1 := Some (ex_executable self)]))))"

text \<open>The first pass over the options: the program, the kind of arguments and the number of further ones.\<close>

definition exec_option :: "config_option \<Rightarrow> string option \<times> argvtype \<times> nat \<Rightarrow> string option \<times> argvtype \<times> nat" where
  "exec_option opt = (\<lambda>(executable, argvtype, extra_argc).
     case co_name opt of
       Some n \<Rightarrow>
         if n = ''executable'' then (co_value opt, argvtype, extra_argc)
         else if n = ''default_arguments'' then (executable, str2argvtype (co_value opt), extra_argc)
         else (executable, argvtype, extra_argc)
     | None \<Rightarrow> (executable, argvtype, if co_type opt = Some ''argument'' then extra_argc + 1 else extra_argc))"

text \<open>The second pass: the further arguments are stored one after the other.\<close>

fun store_arguments :: "config_option list \<Rightarrow> nat \<Rightarrow> string option list \<Rightarrow> fault + string option list" where
  "store_arguments [] i argv = Inr argv"
| "store_arguments (opt # opts) i argv =
     (if co_type opt = Some ''argument'' \<and> co_value opt \<noteq> None
      then (if i < length argv then store_arguments opts (i + 1) (argv[i := co_value opt]) else Inl Out_of_bounds)
      else store_arguments opts i argv)"

text \<open>Without a program the state is freed, which reads the argument vector that is not there yet.\<close>

definition event_get_exec :: "config_option list \<Rightarrow> fault + event_exec" where
  "event_get_exec options =
     (let (executable, argvtype, extra_argc) = fold exec_option options (None, ARGVTYPE_LEGACY, 0);
          offset = argvtype2offset argvtype
      in case executable of
           None \<Rightarrow> Inl Null_deref
         | Some exe \<Rightarrow>
             map_sum id (\<lambda>argv. \<lparr>ex_executable = exe, ex_argvtype = argvtype, ex_argv = argv\<rparr>)
               (store_arguments options offset (replicate (offset + extra_argc + 1) None)))"

text \<open>The environment of the program; a variable without a value is left out.\<close>

record exec_env =
  xe_version :: string
  xe_hostname :: "string option"
  xe_admin :: "string option"
  xe_log_dir :: "string option"
  xe_fnm :: "string \<Rightarrow> string \<Rightarrow> bool"
  xe_mounts :: "mount_proxy list"
  xe_sources :: "source tree"

definition setup_environ :: "exec_env \<Rightarrow> event \<Rightarrow> (string \<times> string) list" where
  "setup_environ E event =
     (let show_bool = (\<lambda>b. Some (if b then ''true'' else ''false''));
          vars =
            [(''ICECAST_VERSION'', Some (xe_version E)), (''ICECAST_HOSTNAME'', xe_hostname E), (''ICECAST_ADMIN'', xe_admin E),
             (''ICECAST_LOGDIR'', xe_log_dir E), (''EVENT_URI'', event_uri event), (''EVENT_TRIGGER'', Some (trigger event)),
             (''SOURCE_ACTION'', Some (trigger event)), (''CLIENT_IP'', connection_ip event),
             (''CLIENT_ROLE'', client_role event), (''CLIENT_USERNAME'', client_username event),
             (''CLIENT_USERAGENT'', client_useragent event), (''CLIENT_ID'', Some (show_nat (connection_id event))),
             (''CLIENT_CONNECTION_TIME'', Some (show_int (connection_time event))),
             (''CLIENT_ADMIN_COMMAND'', Some (show_int (client_admin_command event)))]
            @ (case config_find_mount (xe_fnm E) (xe_mounts E) (event_uri event) MOUNT_TYPE_NORMAL of
                 None \<Rightarrow> []
               | Some m \<Rightarrow> [(''MOUNT_NAME'', stream_name m), (''MOUNT_DESCRIPTION'', stream_description m),
                           (''MOUNT_URL'', stream_url m), (''MOUNT_GENRE'', stream_genre m)])
            @ (case source_find_mount (xe_fnm E) (xe_mounts E) (event_uri event) (xe_sources E) of
                 None \<Rightarrow> []
               | Some s \<Rightarrow> [(''SOURCE_MOUNTPOINT'', Some (src_mount s)), (''SOURCE_PUBLIC'', show_bool (src_yp_public s \<noteq> 0)),
                           (''SROUCE_HIDDEN'', show_bool (src_hidden s \<noteq> 0))])
      in concat (map (\<lambda>(n, v). case v of None \<Rightarrow> [] | Some v \<Rightarrow> [(n, v)]) vars))"

definition event_exec_emit :: "exec_env \<Rightarrow> event_exec \<Rightarrow> event \<Rightarrow> fault + string \<times> string list \<times> (string \<times> string) list" where
  "event_exec_emit E self event =
     map_sum id (\<lambda>argv. (ex_executable self, argv, setup_environ E event)) (setup_argv self event)"

section \<open>Web services\<close>

text \<open>A pointer to a string: NULL, to a string, or to a string that was freed.\<close>

datatype str_ptr = Null | Points string | Dangling

definition free_str :: "str_ptr \<Rightarrow> fault + unit" where
  "free_str p = (case p of Dangling \<Rightarrow> Inl Use_after_free | _ \<Rightarrow> Inr ())"

record event_url =
  eu_url :: str_ptr
  eu_action :: "string option"
  eu_username :: "string option"
  eu_password :: "string option"

definition to_ptr :: "string option \<Rightarrow> str_ptr" where
  "to_ptr v = (case v of None \<Rightarrow> Null | Some s \<Rightarrow> Points s)"

text \<open>The option \<open>action\<close> frees the URL in place of the action it replaces, and keeps the pointer.\<close>

definition url_event_option :: "config_option \<Rightarrow> event_url \<Rightarrow> fault + event_url" where
  "url_event_option opt self =
     (if co_type opt \<noteq> None then Inr self
      else (case co_name opt of
              None \<Rightarrow> Inr self
            | Some n \<Rightarrow>
                if n = ''url'' then map_sum id (\<lambda>_. self\<lparr>eu_url := to_ptr (co_value opt)\<rparr>) (free_str (eu_url self))
                else if n = ''username'' then Inr (self\<lparr>eu_username := co_value opt\<rparr>)
                else if n = ''password'' then Inr (self\<lparr>eu_password := co_value opt\<rparr>)
                else if n = ''action''
                then map_sum id
                       (\<lambda>_. self\<lparr>eu_url := (if eu_url self = Null then Null else Dangling), eu_action := co_value opt\<rparr>)
                       (free_str (eu_url self))
                else Inr self))"

fun url_event_options :: "config_option list \<Rightarrow> event_url \<Rightarrow> fault + event_url" where
  "url_event_options [] self = Inr self"
| "url_event_options (opt # opts) self =
     (case url_event_option opt self of Inl f \<Rightarrow> Inl f | Inr self \<Rightarrow> url_event_options opts self)"

definition event_get_url :: "bool \<Rightarrow> config_option list \<Rightarrow> fault + event_url option" where
  "event_get_url handle options =
     (case url_event_options options \<lparr>eu_url = Null, eu_action = None, eu_username = None, eu_password = None\<rparr> of
        Inl f \<Rightarrow> Inl f
      | Inr self \<Rightarrow>
          if eu_url self = Null \<or> \<not> handle then map_sum id (\<lambda>_. None) (free_str (eu_url self)) else Inr (Some self))"

definition event_fields :: "url_env \<Rightarrow> event_url \<Rightarrow> event \<Rightarrow> (string \<times> string) list" where
  "event_fields E self event =
     [(''action'', url_escape_loop (case eu_action self of Some a \<Rightarrow> a | None \<Rightarrow> trigger event)),
      (''mount'', escape_or [] (event_uri event)), (''server'', url_escape_loop (ue_hostname E)), (''port'', show_int (ue_port E)),
      (''client'', show_nat (connection_id event)), (''role'', escape_or [] (client_role event)),
      (''username'', escape_or [] (client_username event)), (''ip'', escape_or [] (connection_ip event)),
      (''agent'', escape_or ''-'' (client_useragent event)),
      (''duration'', show_int (if connection_time event \<noteq> 0 then ue_now E - connection_time event else 0)),
      (''admin'', show_int (client_admin_command event))]"

definition event_url_emit :: "url_env \<Rightarrow> event_url \<Rightarrow> event \<Rightarrow> fault + curl_request" where
  "event_url_emit E self event =
     (case eu_url self of
        Null \<Rightarrow> Inl Null_deref
      | Dangling \<Rightarrow> Inl Use_after_free
      | Points url \<Rightarrow>
          Inr \<lparr>cr_url = url,
               cr_userpwd = (case (eu_username self, eu_password self) of
                  (Some u, Some p) \<Rightarrow> if strchr CHR ''@'' url = None then u @ CHR '':'' # p else []
                | _ \<Rightarrow> []),
               cr_post = snprintf POST_SIZE (post_text (event_fields E self event))\<rparr>)"

section \<open>Setup\<close>

datatype backend = Log_backend event_log | Exec_backend event_exec | Web_backend event_url

record event_reg =
  er_trigger :: string
  er_backend :: backend

definition event_new_from_xml_node :: "bool \<Rightarrow> xmlnode \<Rightarrow> fault + event_reg option" where
  "event_new_from_xml_node handle node =
     (case (xmlGetProp node ''type'', xmlGetProp node ''trigger'') of
        (Some ty, Some trig) \<Rightarrow>
          (let options = config_parse_options (Some node); reg = (\<lambda>b. Some \<lparr>er_trigger = trig, er_backend = b\<rparr>)
           in if ty = ''log'' then Inr (reg (Log_backend (event_get_log options)))
              else if ty = ''exec'' then map_sum id (\<lambda>x. reg (Exec_backend x)) (event_get_exec options)
              else if ty = ''url''
              then map_sum id (\<lambda>u. Option.bind u (\<lambda>u. reg (Web_backend u))) (event_get_url handle options)
              else Inr None)
      | _ \<Rightarrow> Inr None)"

text \<open>The call of a back end, and what it leaves.\<close>

datatype effect =
  Log_line int string "(string \<times> string option) list"
| Run string "string list" "(string \<times> string) list"
| Post curl_request

definition backend_emit :: "exec_env \<Rightarrow> url_env \<Rightarrow> backend \<Rightarrow> event \<Rightarrow> fault + effect" where
  "backend_emit X E b event =
     (case b of
        Log_backend l \<Rightarrow> (case event_log_emit l event of (lv, p, fs) \<Rightarrow> Inr (Log_line lv p fs))
      | Exec_backend x \<Rightarrow> map_sum id (\<lambda>(e, as, env). Run e as env) (event_exec_emit X x event)
      | Web_backend u \<Rightarrow> map_sum id Post (event_url_emit E u event))"

section \<open>Arguments of a program\<close>

text \<open>The arguments that are counted in the first pass, and those stored in the second.\<close>

definition counted_args :: "config_option list \<Rightarrow> nat" where
  "counted_args options = length (filter (\<lambda>opt. co_name opt = None \<and> co_type opt = Some ''argument'') options)"

definition arguments :: "config_option list \<Rightarrow> string list" where
  "arguments options = concat (map (\<lambda>opt. case co_value opt of Some v \<Rightarrow> if co_type opt = Some ''argument'' then [v] else [] | None \<Rightarrow> []) options)"

definition executable_of :: "config_option list \<Rightarrow> string option" where
  "executable_of options = fst (fold exec_option options (None, ARGVTYPE_LEGACY, 0))"

definition argvtype_of :: "config_option list \<Rightarrow> argvtype" where
  "argvtype_of options = fst (snd (fold exec_option options (None, ARGVTYPE_LEGACY, 0)))"

lemma exec_options_count: "snd (snd (fold exec_option options st)) = snd (snd st) + counted_args options"
  by (induction options arbitrary: st) (auto simp: exec_option_def counted_args_def split: option.split)

lemma store_arguments_value:
  "i \<le> length argv \<Longrightarrow> store_arguments options i argv =
     (if length argv < i + length (arguments options) then Inl Out_of_bounds
      else Inr (take i argv @ map Some (arguments options) @ drop (i + length (arguments options)) argv))"
proof (induction options i argv rule: store_arguments.induct)
  case (2 opt opts i argv)
  show ?case
  proof (cases "co_type opt = Some ''argument'' \<and> co_value opt \<noteq> None")
    case True
    then obtain v where v: "co_value opt = Some v" by auto
    have a: "arguments (opt # opts) = v # arguments opts" using True v by (simp add: arguments_def)
    show ?thesis
    proof (cases "i < length argv")
      case True
      with 2(1) \<open>co_type opt = _ \<and> _\<close> v show ?thesis
        by (auto simp: a take_Suc_conv_app_nth nth_list_update_eq)
    qed (use 2(3) \<open>co_type opt = _ \<and> _\<close> in \<open>simp add: a\<close>)
  next
    case False
    then have "arguments (opt # opts) = arguments opts" by (auto simp: arguments_def split: option.split)
    then show ?thesis using 2(2) 2(3) False by auto
  qed
qed (simp add: arguments_def)

lemma store_in_new_vector:
  "store_arguments options off (replicate (off + k) None) =
     (if k < length (arguments options) then Inl Out_of_bounds
      else Inr (replicate off None @ map Some (arguments options) @ replicate (k - length (arguments options)) None))"
  by (simp add: store_arguments_value take_replicate)

lemma event_get_exec_value:
  "executable_of options = Some exe \<Longrightarrow> event_get_exec options =
     (let off = argvtype2offset (argvtype_of options)
      in if counted_args options + 1 < length (arguments options) then Inl Out_of_bounds
         else Inr \<lparr>ex_executable = exe, ex_argvtype = argvtype_of options,
           ex_argv = replicate off None @ map Some (arguments options) @ replicate (counted_args options + 1 - length (arguments options)) None\<rparr>)"
proof -
  assume e: "executable_of options = Some exe"
  obtain x t n where f: "fold exec_option options (None, ARGVTYPE_LEGACY, 0) = (x, t, n)" by (rule prod_cases3)
  then have "x = Some exe" "t = argvtype_of options" "n = counted_args options"
    using e exec_options_count [of options "(None, ARGVTYPE_LEGACY, 0)"] by (simp_all add: executable_of_def argvtype_of_def)
  with f show ?thesis
    using store_in_new_vector [of options "argvtype2offset t" "n + 1"] by (simp add: event_get_exec_def Let_def)
qed

lemma argv_strings_value: "argv_strings (map Some as @ None # r) = Inr as" "argv_strings (map Some as) = Inl Out_of_bounds"
  by (induction as) auto

text \<open>The arguments before those of the configuration.\<close>

definition default_arguments :: "string \<Rightarrow> argvtype \<Rightarrow> event \<Rightarrow> string list" where
  "default_arguments exe t event =
     exe # (case t of
        ARGVTYPE_NO_DEFAULTS \<Rightarrow> []
      | ARGVTYPE_ONLY_URI \<Rightarrow> [case event_uri event of None \<Rightarrow> [] | Some u \<Rightarrow> u]
      | ARGVTYPE_URI_AND_TRIGGER \<Rightarrow> [case event_uri event of None \<Rightarrow> [] | Some u \<Rightarrow> u, trigger event]
      | ARGVTYPE_LEGACY \<Rightarrow> (case event_uri event of None \<Rightarrow> [] | Some u \<Rightarrow> [u]))"

lemma setup_argv_value:
  "setup_argv \<lparr>ex_executable = exe, ex_argvtype = t, ex_argv = replicate (argvtype2offset t) None @ as\<rparr> event =
     argv_strings (map Some (default_arguments exe t event) @ as)"
  by (cases t) (auto simp: setup_argv_def argvtype2offset_def default_arguments_def numeral_2_eq_2 numeral_3_eq_3 Let_def split: option.split)

text \<open>
  a program gets its arguments. A program of the configuration is set up and can be run on every event
  exactly when no more arguments are stored than were counted; then it is started with its name, the arguments
  its kind asks for and the arguments of the configuration, in order. An option that has a
  name and is an argument too is stored without being counted: more of these than there is room for
  are written past the end of the vector, or it is read past its end.
\<close>

theorem exec_arguments:
  assumes "executable_of options = Some exe"
  shows "(if length (arguments options) \<le> counted_args options
          then \<exists>x. event_get_exec options = Inr x
             \<and> setup_argv x event = Inr (default_arguments exe (argvtype_of options) event @ arguments options)
          else case event_get_exec options of Inl f \<Rightarrow> f = Out_of_bounds | Inr x \<Rightarrow> setup_argv x event = Inl Out_of_bounds)"
proof -
  let ?as = "arguments options" and ?n = "counted_args options" and ?d = "default_arguments exe (argvtype_of options) event"
  have s: "setup_argv \<lparr>ex_executable = exe, ex_argvtype = argvtype_of options,
           ex_argv = replicate (argvtype2offset (argvtype_of options)) None @ map Some ?as @ replicate k None\<rparr> event
       = argv_strings (map Some (?d @ ?as) @ replicate k None)" for k
    by (simp add: setup_argv_value)
  show ?thesis
  proof (cases "length ?as \<le> ?n")
    case True
    then obtain k where "?n + 1 - length ?as = Suc k" by (metis Suc_diff_le Suc_eq_plus1)
    then show ?thesis using True s [of "Suc k"] argv_strings_value(1) [of "?d @ ?as" "replicate k None"]
      by (simp add: event_get_exec_value [OF assms])
  next
    case False
    then show ?thesis using s [of 0] argv_strings_value(2) [of "?d @ ?as"] by (simp add: event_get_exec_value [OF assms])
  qed
qed

theorem exec_arguments_witness:
  "let opts = [\<lparr>co_type = None, co_name = Some ''executable'', co_value = Some ''/bin/x''\<rparr>,
       \<lparr>co_type = Some ''argument'', co_name = None, co_value = Some ''-v''\<rparr>];
     ev = the (event_new (Some ''source-connect''))
   in \<exists>x. event_get_exec opts = Inr x \<and> setup_argv x ev = Inr [''/bin/x'', ''-v'']"
proof -
  let ?opts = "[\<lparr>co_type = None, co_name = Some ''executable'', co_value = Some ''/bin/x''\<rparr>,
       \<lparr>co_type = Some ''argument'', co_name = None, co_value = Some ''-v''\<rparr>]"
  have e: "executable_of ?opts = Some ''/bin/x''" by (simp add: executable_of_def exec_option_def)
  have "length (arguments ?opts) \<le> counted_args ?opts" by (simp add: arguments_def counted_args_def)
  then show ?thesis
    using exec_arguments [OF e, of "the (event_new (Some ''source-connect''))"]
    by (simp add: arguments_def default_arguments_def argvtype_of_def exec_option_def event_new_def)
qed

end
