(* ===== verification/Config_Parse.thy ===== *)
theory Config_Parse
  imports Config_Roles Event_Backends Cfgfile
begin

text \<open>
  Reading the configuration (\<^verbatim>\<open>src/src/cfgfile.c\<close>): the defaults, one function per element of the file,
  the older settings for passwords and events, and the replacement of the configuration when it is
  read again. libxml2 hands out the document as nodes; \<open>ce_parse\<close> stands for \<^verbatim>\<open>xmlParseFile\<close> and
  \<open>ce_fnm\<close> for \<^verbatim>\<open>fnmatch\<close>. A setting that is not a string is a number or a truth value; a pointer that can be NULL is
  an option. The stacks and event lists of the mounts are kept in \<open>ic_stacks\<close> and \<open>ic_regs\<close>, and a mount
  holds the place of its own. \<open>ce_garbage\<close> is what memory holds that nobody wrote to.
\<close>

section \<open>The configuration\<close>

record relay_conf =
  rl_server :: "string option"
  rl_port :: int
  rl_mount :: "string option"
  rl_localmount :: "string option"
  rl_username :: "string option"
  rl_password :: "string option"
  rl_bind :: "string option"
  rl_mp3metadata :: bool
  rl_on_demand :: bool

record yp_dir =
  yd_url :: "string option"
  yd_timeout :: int
  yd_touch_interval :: int

record ice_config =
  ic_config_filename :: "string option"
  ic_location :: "string option"
  ic_admin :: "string option"
  ic_server_id :: "string option"
  ic_client_limit :: int
  ic_source_limit :: int
  ic_queue_size_limit :: u32
  ic_burst_size :: u32
  ic_client_timeout :: int
  ic_header_timeout :: int
  ic_source_timeout :: int
  ic_fileserve :: bool
  ic_on_demand :: bool
  ic_shoutcast_mount :: "string option"
  ic_shoutcast_user :: "string option"
  ic_authstack :: "authenticator list"
  ic_event :: "event_reg list"
  ic_touch_interval :: int
  ic_dir_list :: "(string option \<times> int) list"
  ic_hostname :: "string option"
  ic_sane_hostname :: bool
  ic_port :: int
  ic_mimetypes_fn :: "string option"
  ic_listen_sock :: "listener_t list"
  ic_listen_sock_count :: nat
  ic_master_server :: "string option"
  ic_master_server_port :: int
  ic_master_update_interval :: int
  ic_master_username :: "string option"
  ic_master_password :: "string option"
  ic_http_headers :: "http_header list"
  ic_relay :: "relay_conf list"
  ic_mounts :: "mount_proxy list"
  ic_stacks :: "authenticator list list"
  ic_regs :: "event_reg list list"
  ic_base_dir :: "string option"
  ic_log_dir :: "string option"
  ic_pidfile :: "string option"
  ic_null_device :: "string option"
  ic_banfile :: "string option"
  ic_allowfile :: "string option"
  ic_webroot_dir :: "string option"
  ic_adminroot_dir :: "string option"
  ic_aliases :: "aliases list"
  ic_access_log :: "string option"
  ic_error_log :: "string option"
  ic_playlist_log :: "string option"
  ic_loglevel :: int
  ic_logsize :: int
  ic_logarchive :: int
  ic_cert_file :: "string option"
  ic_key_file :: "string option"
  ic_cipher_list :: "string option"
  ic_chroot :: bool
  ic_chuid :: bool
  ic_user :: "string option"
  ic_group :: "string option"
  ic_yp :: "yp_dir list"
  ic_num_yp_directories :: nat
  ic_ids :: u64

record config_env =
  ce_roles :: role_env
  ce_version :: string
  ce_ciphers :: string
  ce_openssl :: bool
  ce_tls :: bool
  ce_garbage :: int
  ce_fnm :: "string \<Rightarrow> string \<Rightarrow> bool"
  ce_parse :: "string \<Rightarrow> xmlnode option option"

definition MAX_YP_DIRECTORIES :: nat where
  "MAX_YP_DIRECTORIES = 25"

definition new_listener :: listener_t where
  "new_listener = \<lparr>l_port = 0, l_so_sndbuf = 0, l_bind_address = None, l_shoutcast_compat = False, l_shoutcast_mount = None,
     l_tls = ICECAST_TLSMODE_DISABLED\<rparr>"

definition set_defaults :: "config_env \<Rightarrow> u64 \<Rightarrow> ice_config" where
  "set_defaults E ids = \<lparr>ic_config_filename = None, ic_location = Some ''Earth'', ic_admin = Some ''icemaster@localhost'',
     ic_server_id = Some (ce_version E), ic_client_limit = 256, ic_source_limit = 16, ic_queue_size_limit = 512000,
     ic_burst_size = 65536, ic_client_timeout = 30, ic_header_timeout = 15, ic_source_timeout = 10, ic_fileserve = True,
     ic_on_demand = False, ic_shoutcast_mount = Some ''/stream'', ic_shoutcast_user = Some ''source'', ic_authstack = [],
     ic_event = [], ic_touch_interval = 5, ic_dir_list = [], ic_hostname = Some ''localhost'', ic_sane_hostname = False,
     ic_port = 0, ic_mimetypes_fn = Some ''/etc/mime.types'', ic_listen_sock = [], ic_listen_sock_count = 0,
     ic_master_server = None, ic_master_server_port = 0, ic_master_update_interval = 120, ic_master_username = Some ''relay'',
     ic_master_password = None, ic_http_headers = [], ic_relay = [], ic_mounts = [], ic_stacks = [], ic_regs = [],
     ic_base_dir = Some ''/usr/local/icecast'', ic_log_dir = Some ''/usr/local/icecast/logs'', ic_pidfile = None,
     ic_null_device = Some ''/dev/null'', ic_banfile = None, ic_allowfile = None,
     ic_webroot_dir = Some ''/usr/local/icecast/webroot'', ic_adminroot_dir = Some ''/usr/local/icecast/admin'', ic_aliases = [],
     ic_access_log = Some ''access.log'', ic_error_log = Some ''error.log'', ic_playlist_log = None, ic_loglevel = 3,
     ic_logsize = 0, ic_logarchive = 0, ic_cert_file = None, ic_key_file = None, ic_cipher_list = Some (ce_ciphers E),
     ic_chroot = False, ic_chuid = False, ic_user = None, ic_group = None,
     ic_yp = replicate MAX_YP_DIRECTORIES \<lparr>yd_url = None, yd_timeout = 0, yd_touch_interval = 0\<rparr>, ic_num_yp_directories = 0,
     ic_ids = ids\<rparr>"

section \<open>Values\<close>

definition read_int :: "xmlnode \<Rightarrow> int \<Rightarrow> int" where
  "read_int node val = (case node_text node of None \<Rightarrow> val | Some s \<Rightarrow> if s = [] then val else util_str_to_int (Some s) val)"

definition read_unsigned_int :: "xmlnode \<Rightarrow> u32 \<Rightarrow> u32" where
  "read_unsigned_int node val =
     (case node_text node of None \<Rightarrow> val | Some s \<Rightarrow> if s = [] then val else util_str_to_unsigned_int (Some s) val)"

definition read_bool :: "xmlnode \<Rightarrow> bool" where
  "read_bool node = util_str_to_bool (node_text node)"

definition tls_check_impl :: "config_env \<Rightarrow> string \<Rightarrow> int" where
  "tls_check_impl E impl =
     (if ce_openssl E \<and> strcaseeq impl ''openssl'' then 0 else if ce_tls E \<and> strcaseeq impl ''generic'' then 0 else 1)"

definition check_node_impl :: "config_env \<Rightarrow> xmlnode \<Rightarrow> string \<Rightarrow> int" where
  "check_node_impl E node def =
     tls_check_impl E (case xmlGetProp node ''implementation'' of
        Some i \<Rightarrow> i
      | None \<Rightarrow> (case xmlGetProp node ''impl'' of Some i \<Rightarrow> i | None \<Rightarrow> def))"

text \<open>The nodes of a list that the loops look at.\<close>

definition real_nodes :: "xmlnode list \<Rightarrow> xmlnode list" where
  "real_nodes ns = filter (\<lambda>n. \<not> is_blank n) ns"

section \<open>Sections of the file\<close>

definition limits_node :: "xmlnode \<Rightarrow> ice_config \<Rightarrow> ice_config" where
  "limits_node node c =
     (let n = node_name node
      in if n = ''clients'' then c\<lparr>ic_client_limit := read_int node (ic_client_limit c)\<rparr>
         else if n = ''sources'' then c\<lparr>ic_source_limit := read_int node (ic_source_limit c)\<rparr>
         else if n = ''queue-size'' then c\<lparr>ic_queue_size_limit := read_unsigned_int node (ic_queue_size_limit c)\<rparr>
         else if n = ''client-timeout'' then c\<lparr>ic_client_timeout := read_int node (ic_client_timeout c)\<rparr>
         else if n = ''header-timeout'' then c\<lparr>ic_header_timeout := read_int node (ic_header_timeout c)\<rparr>
         else if n = ''source-timeout'' then c\<lparr>ic_source_timeout := read_int node (ic_source_timeout c)\<rparr>
         else if n = ''burst-on-connect'' then (if util_str_to_int (node_text node) 0 = 0 then c\<lparr>ic_burst_size := 0\<rparr> else c)
         else if n = ''burst-size'' then c\<lparr>ic_burst_size := read_unsigned_int node (ic_burst_size c)\<rparr>
         else c)"

definition parse_limits :: "xmlnode list \<Rightarrow> ice_config \<Rightarrow> ice_config" where
  "parse_limits ns c = fold limits_node (real_nodes ns) c"

text \<open>Headers are read up to the first one that lacks a name or a value, or has an unknown type.\<close>

fun http_headers_loop :: "xmlnode list \<Rightarrow> http_header list \<Rightarrow> http_header list" where
  "http_headers_loop [] hs = hs"
| "http_headers_loop (node # ns) hs =
     (if node_name node \<noteq> ''header'' then http_headers_loop ns hs
      else (case (xmlGetProp node ''name'', xmlGetProp node ''value'') of
              (Some name, Some val) \<Rightarrow>
                if xmlGetProp node ''type'' \<notin> {None, Some ''static''} then hs
                else http_headers_loop ns (hs @ [\<lparr>hdr_type = HTTP_HEADER_TYPE_STATIC, hdr_name = Some name, hdr_value = Some val,
                       hdr_status = (case xmlGetProp node ''status'' of None \<Rightarrow> 0 | Some s \<Rightarrow> util_str_to_int (Some s) 0)\<rparr>])
            | _ \<Rightarrow> hs))"

definition parse_http_headers :: "xmlnode list \<Rightarrow> http_header list \<Rightarrow> http_header list" where
  "parse_http_headers ns hs = http_headers_loop (real_nodes ns) hs"

definition relay_node :: "xmlnode \<Rightarrow> relay_conf \<Rightarrow> relay_conf" where
  "relay_node node r =
     (let n = node_name node
      in if n = ''server'' then r\<lparr>rl_server := node_text node\<rparr>
         else if n = ''port'' then r\<lparr>rl_port := read_int node (rl_port r)\<rparr>
         else if n = ''mount'' then r\<lparr>rl_mount := node_text node\<rparr>
         else if n = ''local-mount'' then r\<lparr>rl_localmount := node_text node\<rparr>
         else if n = ''relay-shoutcast-metadata'' then r\<lparr>rl_mp3metadata := read_bool node\<rparr>
         else if n = ''username'' then r\<lparr>rl_username := node_text node\<rparr>
         else if n = ''password'' then r\<lparr>rl_password := node_text node\<rparr>
         else if n = ''on-demand'' then r\<lparr>rl_on_demand := read_bool node\<rparr>
         else if n = ''bind'' then r\<lparr>rl_bind := node_text node\<rparr>
         else r)"

definition parse_relay :: "xmlnode list \<Rightarrow> ice_config \<Rightarrow> ice_config" where
  "parse_relay ns c =
     (let r = fold relay_node (real_nodes ns)
            \<lparr>rl_server = Some ''127.0.0.1'', rl_port = 0, rl_mount = Some ''/'', rl_localmount = None, rl_username = None,
             rl_password = None, rl_bind = None, rl_mp3metadata = True, rl_on_demand = ic_on_demand c\<rparr>;
          r = (if rl_localmount r = None then r\<lparr>rl_localmount := rl_mount r\<rparr> else r)
      in c\<lparr>ic_relay := ic_relay c @ [r]\<rparr>)"

definition listen_node :: "xmlnode \<Rightarrow> listener_t \<times> int \<Rightarrow> listener_t \<times> int" where
  "listen_node node = (\<lambda>(l, port).
     let n = node_name node
     in if n = ''port''
        then (case node_text node of
                None \<Rightarrow> (l, port)
              | Some s \<Rightarrow> (l\<lparr>l_port := util_str_to_int (Some s) (l_port l)\<rparr>, if port = 0 then util_str_to_int (Some s) 0 else port))
        else if n = ''tls'' \<or> n = ''ssl'' then (l\<lparr>l_tls := str_to_tlsmode (node_text node)\<rparr>, port)
        else if n = ''shoutcast-compat'' then (l\<lparr>l_shoutcast_compat := read_bool node\<rparr>, port)
        else if n = ''shoutcast-mount'' then (l\<lparr>l_shoutcast_mount := node_text node\<rparr>, port)
        else if n = ''bind-address'' then (l\<lparr>l_bind_address := node_text node\<rparr>, port)
        else if n = ''so-sndbuf'' then (l\<lparr>l_so_sndbuf := read_int node (l_so_sndbuf l)\<rparr>, port)
        else (l, port))"

text \<open>The port next to a socket with a mountpoint of its own, for the older protocol.\<close>

definition shoutcast_port :: "listener_t \<Rightarrow> listener_t list" where
  "shoutcast_port l =
     (case l_shoutcast_mount l of
        None \<Rightarrow> []
      | Some m \<Rightarrow> [new_listener\<lparr>l_port := l_port l + 1, l_shoutcast_compat := True, l_shoutcast_mount := Some m,
                    l_bind_address := l_bind_address l\<rparr>])"

definition parse_listen_socket :: "xmlnode list \<Rightarrow> ice_config \<Rightarrow> ice_config" where
  "parse_listen_socket ns c =
     (let (l, port) = fold listen_node (real_nodes ns) (new_listener\<lparr>l_port := 8000\<rparr>, ic_port c);
          ls = l # shoutcast_port l
      in c\<lparr>ic_port := port, ic_listen_sock := take 1 (ic_listen_sock c) @ ls @ drop 1 (ic_listen_sock c),
           ic_listen_sock_count := ic_listen_sock_count c + length ls\<rparr>)"

definition add_server :: "xmlnode list \<Rightarrow> ice_config \<Rightarrow> ice_config" where
  "add_server ns c =
     (let (host, touch, addnode) = fold (\<lambda>node (host, touch, addnode).
            if node_name node = ''host'' then (node_text node, touch, True)
            else if node_name node = ''touch-interval'' then (host, read_int node touch, addnode)
            else (host, touch, addnode)) (real_nodes ns) (None, ic_touch_interval c, False)
      in if addnode then c\<lparr>ic_dir_list := ic_dir_list c @ [(host, touch)]\<rparr> else c)"

definition upd_yp :: "(yp_dir \<Rightarrow> yp_dir) \<Rightarrow> ice_config \<Rightarrow> ice_config" where
  "upd_yp f c = c\<lparr>ic_yp := (ic_yp c)[ic_num_yp_directories c := f (ic_yp c ! ic_num_yp_directories c)]\<rparr>"

definition directory_node :: "xmlnode \<Rightarrow> ice_config \<Rightarrow> ice_config" where
  "directory_node node c =
     (let n = node_name node
      in if n = ''yp-url'' then upd_yp (\<lambda>d. d\<lparr>yd_url := node_text node\<rparr>) c
         else if n = ''yp-url-timeout'' then upd_yp (\<lambda>d. d\<lparr>yd_timeout := read_int node (yd_timeout d)\<rparr>) c
         else if n = ''server'' then add_server (node_children node) c
         else if n = ''touch-interval'' then upd_yp (\<lambda>d. d\<lparr>yd_touch_interval := read_int node (yd_touch_interval d)\<rparr>) c
         else c)"

definition parse_directory :: "xmlnode list \<Rightarrow> ice_config \<Rightarrow> ice_config" where
  "parse_directory ns c =
     (if ic_num_yp_directories c \<ge> MAX_YP_DIRECTORIES then c
      else (let c = fold directory_node (real_nodes ns) c
            in if yd_url (ic_yp c ! ic_num_yp_directories c) = None then c
               else c\<lparr>ic_num_yp_directories := ic_num_yp_directories c + 1\<rparr>))"

text \<open>A directory name without the slash at its end; the name must not be the empty string.\<close>

definition strip_slash :: "string \<Rightarrow> fault + string" where
  "strip_slash s = (if s = [] then Inl Out_of_bounds else Inr (if last s = CHR ''/'' then butlast s else s))"

definition alias_of :: "config_env \<Rightarrow> xmlnode \<Rightarrow> aliases option" where
  "alias_of E node =
     (let source = xmlGetProp node ''source'';
          destination = (case xmlGetProp node ''destination'' of Some d \<Rightarrow> Some d | None \<Rightarrow> xmlGetProp node ''dest'');
          make = (\<lambda>s d. Some \<lparr>al_source = s, al_destination = d,
             al_port = (case xmlGetProp node ''port'' of None \<Rightarrow> -1 | Some t \<Rightarrow> util_str_to_int (Some t) (ce_garbage E)),
             al_bind_address = xmlGetProp node ''bind-address'', al_vhost = xmlGetProp node ''vhost'',
             al_omode = (case xmlGetProp node ''omode'' of None \<Rightarrow> OMODE_DEFAULT | Some t \<Rightarrow> config_str_to_omode (Some t))\<rparr>)
      in case (source, destination) of
           (Some s, d) \<Rightarrow> make s d
         | (None, Some d) \<Rightarrow> make d None
         | (None, None) \<Rightarrow> None)"

definition paths_node :: "config_env \<Rightarrow> xmlnode \<Rightarrow> ice_config \<Rightarrow> fault + ice_config" where
  "paths_node E node c =
     (let n = node_name node; t = node_text node
      in if n = ''basedir'' then Inr (c\<lparr>ic_base_dir := t\<rparr>)
         else if n = ''logdir'' then Inr (if t = None then c else c\<lparr>ic_log_dir := t\<rparr>)
         else if n = ''pidfile'' then Inr (c\<lparr>ic_pidfile := t\<rparr>)
         else if n = ''nulldevice'' then Inr (c\<lparr>ic_null_device := t\<rparr>)
         else if n = ''mime-types'' then Inr (c\<lparr>ic_mimetypes_fn := t\<rparr>)
         else if n = ''deny-ip'' then Inr (c\<lparr>ic_banfile := t\<rparr>)
         else if n = ''allow-ip'' then Inr (c\<lparr>ic_allowfile := t\<rparr>)
         else if n = ''tls-certificate'' \<or> n = ''ssl-certificate''
         then Inr (if check_node_impl E node ''generic'' \<noteq> 0 then c else c\<lparr>ic_cert_file := t\<rparr>)
         else if n = ''tls-allowed-ciphers'' \<or> n = ''ssl-allowed-ciphers''
         then Inr (if check_node_impl E node ''openssl'' \<noteq> 0 then c else c\<lparr>ic_cipher_list := t\<rparr>)
         else if n = ''webroot''
         then (case t of None \<Rightarrow> Inr c | Some s \<Rightarrow> map_sum id (\<lambda>s. c\<lparr>ic_webroot_dir := Some s\<rparr>) (strip_slash s))
         else if n = ''adminroot''
         then (case t of None \<Rightarrow> Inr c | Some s \<Rightarrow> map_sum id (\<lambda>s. c\<lparr>ic_adminroot_dir := Some s\<rparr>) (strip_slash s))
         else if n = ''resource'' \<or> n = ''alias''
         then Inr (case alias_of E node of None \<Rightarrow> c | Some a \<Rightarrow> c\<lparr>ic_aliases := ic_aliases c @ [a]\<rparr>)
         else Inr c)"

definition parse_paths :: "config_env \<Rightarrow> xmlnode list \<Rightarrow> ice_config \<Rightarrow> fault + ice_config" where
  "parse_paths E ns c = fold_sum (paths_node E) (real_nodes ns) c"

definition logging_node :: "xmlnode \<Rightarrow> ice_config \<Rightarrow> fault + ice_config" where
  "logging_node node c =
     (let n = node_name node; t = node_text node
      in if n = ''accesslog'' then Inr (if t = None then c else c\<lparr>ic_access_log := t\<rparr>)
         else if n = ''errorlog'' then Inr (if t = None then c else c\<lparr>ic_error_log := t\<rparr>)
         else if n = ''playlistlog'' then Inr (c\<lparr>ic_playlist_log := t\<rparr>)
         else if n = ''logsize'' then Inr (c\<lparr>ic_logsize := read_int node (ic_logsize c)\<rparr>)
         else if n = ''loglevel''
         then (case t of None \<Rightarrow> Inl Null_deref | Some s \<Rightarrow> Inr (c\<lparr>ic_loglevel := util_str_to_loglevel s\<rparr>))
         else if n = ''logarchive'' then Inr (c\<lparr>ic_logarchive := read_int node (ic_logarchive c)\<rparr>)
         else Inr c)"

definition parse_logging :: "xmlnode list \<Rightarrow> ice_config \<Rightarrow> fault + ice_config" where
  "parse_logging ns c = fold_sum logging_node (real_nodes ns) c"

definition tls_context_node :: "config_env \<Rightarrow> xmlnode \<Rightarrow> ice_config \<Rightarrow> ice_config" where
  "tls_context_node E node c =
     (let n = node_name node; t = node_text node
      in if n = ''tls-certificate'' then (if check_node_impl E node ''generic'' \<noteq> 0 then c else c\<lparr>ic_cert_file := t\<rparr>)
         else if n = ''tls-key'' then (if check_node_impl E node ''generic'' \<noteq> 0 then c else c\<lparr>ic_key_file := t\<rparr>)
         else if n = ''tls-allowed-ciphers'' then (if check_node_impl E node ''openssl'' \<noteq> 0 then c else c\<lparr>ic_cipher_list := t\<rparr>)
         else c)"

definition owner_node :: "xmlnode \<Rightarrow> ice_config \<Rightarrow> ice_config" where
  "owner_node node c =
     (if node_name node = ''user'' then c\<lparr>ic_user := node_text node\<rparr>
      else if node_name node = ''group'' then c\<lparr>ic_group := node_text node\<rparr> else c)"

definition security_node :: "config_env \<Rightarrow> xmlnode \<Rightarrow> ice_config \<Rightarrow> ice_config" where
  "security_node E node c =
     (let n = node_name node
      in if n = ''chroot'' then c\<lparr>ic_chroot := read_bool node\<rparr>
         else if n = ''tls-context'' then fold (tls_context_node E) (real_nodes (node_children node)) c
         else if n = ''changeowner'' then fold owner_node (real_nodes (node_children node)) (c\<lparr>ic_chuid := True\<rparr>)
         else c)"

definition parse_security :: "config_env \<Rightarrow> xmlnode list \<Rightarrow> ice_config \<Rightarrow> ice_config" where
  "parse_security E ns c = fold (security_node E) (real_nodes ns) c"

end
