(* ===== verification/Config_File.thy ===== *)
theory Config_File
  imports Config_Parse
begin

text \<open>
  The rest of \<^verbatim>\<open>src/src/cfgfile.c\<close>: events, authentication and mounts, the file as a whole, and reading it again.
\<close>

section \<open>Events\<close>

definition push_event :: "config_env \<Rightarrow> xmlnode \<Rightarrow> event_reg list \<Rightarrow> fault + event_reg list" where
  "push_event E node events =
     map_sum id (\<lambda>r. case r of None \<Rightarrow> events | Some r \<Rightarrow> events @ [r]) (event_new_from_xml_node (re_curl (ce_roles E)) node)"

definition parse_events :: "config_env \<Rightarrow> xmlnode list \<Rightarrow> event_reg list \<Rightarrow> fault + event_reg list" where
  "parse_events E ns events = fold_sum (push_event E) (filter (\<lambda>n. node_name n = ''event'') ns) events"

definition old_style_exec_node :: "string \<Rightarrow> string \<Rightarrow> xmlnode" where
  "old_style_exec_node trig executable =
     append_option_tag (Some ''executable'') (Some executable)
       (xmlSetProp ''trigger'' trig (xmlSetProp ''type'' ''exec'' (xmlNewNode ''event'')))"

definition append_old_style_exec_event :: "config_env \<Rightarrow> string \<Rightarrow> string \<Rightarrow> event_reg list \<Rightarrow> fault + event_reg list" where
  "append_old_style_exec_event E trig executable events = push_event E (old_style_exec_node trig executable) events"

definition old_style_url_node :: "string \<Rightarrow> string option \<Rightarrow> string \<Rightarrow> string option \<Rightarrow> string option \<Rightarrow> xmlnode" where
  "old_style_url_node trig url action user pass =
     fold (\<lambda>(n, v). append_option_tag (Some n) v)
       [(''url'', url), (''action'', Some action), (''username'', user), (''password'', pass)]
       (xmlSetProp ''trigger'' trig (xmlSetProp ''type'' ''url'' (xmlNewNode ''event'')))"

definition append_old_style_url_event ::
    "config_env \<Rightarrow> string \<Rightarrow> string option \<Rightarrow> string \<Rightarrow> string option \<Rightarrow> string option \<Rightarrow> event_reg list \<Rightarrow> fault + event_reg list" where
  "append_old_style_url_event E trig url action user pass events = push_event E (old_style_url_node trig url action user pass) events"

section \<open>Authentication\<close>

record auth_parse =
  ap_source_password :: "string option"
  ap_admin_password :: "string option"
  ap_admin_username :: "string option"
  ap_relay_password :: "string option"
  ap_relay_username :: "string option"
  ap_shoutcast_user :: "string option"
  ap_roles :: "authenticator list \<times> u64"

definition authentication_node :: "config_env \<Rightarrow> xmlnode \<Rightarrow> auth_parse \<Rightarrow> fault + auth_parse" where
  "authentication_node E node a =
     (let n = node_name node; t = node_text node
      in if n = ''source-password'' then Inr (if xmlGetProp node ''mount'' \<noteq> None then a else a\<lparr>ap_source_password := t\<rparr>)
         else if n = ''admin-password'' then Inr (a\<lparr>ap_admin_password := t\<rparr>)
         else if n = ''admin-user'' then Inr (a\<lparr>ap_admin_username := t\<rparr>)
         else if n = ''relay-password'' then Inr (a\<lparr>ap_relay_password := t\<rparr>)
         else if n = ''relay-user'' then Inr (a\<lparr>ap_relay_username := t\<rparr>)
         else if n = ''shoutcast-user'' then Inr (a\<lparr>ap_shoutcast_user := t\<rparr>)
         else if n = ''role'' then map_sum id (\<lambda>r. a\<lparr>ap_roles := r\<rparr>) (push_role (ce_roles E) node (ap_roles a))
         else Inr a)"

text \<open>The roles of the older settings come first, then the roles of the file, then everybody.\<close>

definition legacy_stack :: "config_env \<Rightarrow> auth_parse \<Rightarrow> u64 \<Rightarrow> fault + authenticator list \<times> u64" where
  "legacy_stack E a ids =
     then_do
       (case (ap_admin_password a, ap_admin_username a) of
          (Some p, Some u) \<Rightarrow>
            append_old_style_auth (ce_roles E) (Some ''legacy-admin'') (Some ''static'') (Some u) (Some p) None
              (Some ''get,post,head,stats'') True (Some ''*'') ([], ids)
        | _ \<Rightarrow> Inr ([], ids))
       (\<lambda>st. case (ap_relay_password a, ap_relay_username a) of
          (Some p, Some u) \<Rightarrow>
            append_old_style_auth (ce_roles E) (Some ''legacy-relay'') (Some ''static'') (Some u) (Some p) None
              (Some ''get'') True (Some ''streamlist.txt'') st
        | _ \<Rightarrow> Inr st)"

definition parse_authentication ::
    "config_env \<Rightarrow> xmlnode list \<Rightarrow> string option \<Rightarrow> ice_config \<Rightarrow> fault + string option \<times> ice_config" where
  "parse_authentication E ns source_password c =
     then_do
       (fold_sum (authentication_node E) (real_nodes ns)
          \<lparr>ap_source_password = source_password, ap_admin_password = None, ap_admin_username = None, ap_relay_password = None,
           ap_relay_username = Some ''relay'', ap_shoutcast_user = ic_shoutcast_user c, ap_roles = ([], ic_ids c)\<rparr>)
       (\<lambda>a. then_do (legacy_stack E a (snd (ap_roles a)))
         (\<lambda>(old_style, ids).
           let new_style = fst (ap_roles a);
               old_style = (if old_style \<noteq> [] \<and> new_style \<noteq> [] then auth_stack_append old_style new_style
                            else if new_style \<noteq> [] then new_style else old_style)
           in map_sum id (\<lambda>(stack, ids).
                (ap_source_password a,
                 c\<lparr>ic_authstack := stack, ic_shoutcast_user := ap_shoutcast_user a, ic_ids := ids\<rparr>))
              (append_old_style_auth (ce_roles E) (Some ''anonymous'') (Some ''anonymous'') None None None
                 (Some ''get,post,head'') True None (old_style, ids))))"

section \<open>Mounts\<close>

record mount_parse =
  mp_mount :: mount_proxy
  mp_username :: "string option"
  mp_password :: "string option"
  mp_roles :: "authenticator list \<times> u64"
  mp_events :: "event_reg list"

definition new_mount :: "mount_type \<Rightarrow> mount_proxy" where
  "new_mount ty = \<lparr>mountname = None, mounttype = ty, dumpfile = None, intro_filename = None, fallback_when_full = 0,
     max_listeners = -1, fallback_mount = None, fallback_override = 0, no_mount = 0, mount_proxy.burst_size = -1, mount_proxy.queue_size_limit = 0,
     hidden = 0, source_timeout = 0, charset = None, mp3_meta_interval = -1, http_headers = [], max_history = -1,
     mount_event = None, cluster_password = None, mount_authstack = None, max_listener_duration = 0, stream_name = None,
     stream_description = None, stream_url = None, stream_genre = None, bitrate = None, mount_mime = None, subtype = None,
     yp_public = -1\<rparr>"

subsection \<open>Authentication of a mount in the older way\<close>

definition old_options :: "xmlnode \<Rightarrow> string \<Rightarrow> string option" where
  "old_options node = map_of (rev (role_options node))"

definition oldstyle_htpasswd :: "config_env \<Rightarrow> xmlnode \<Rightarrow> authenticator list \<times> u64 \<Rightarrow> fault + authenticator list \<times> u64" where
  "oldstyle_htpasswd E node st =
     (let allow_duplicate_users =
            (case old_options node ''allow_duplicate_users'' of None \<Rightarrow> True | Some v \<Rightarrow> util_str_to_bool (Some v));
          node = (if allow_duplicate_users then node else xmlSetProp ''connections-per-user'' ''0'' node)
      in then_do (push_role (ce_roles E) node st)
           (append_old_style_auth (ce_roles E) None (Some ''anonymous'') None None (Some ''get,head,post'') None False None))"

definition oldstyle_url_events :: "config_env \<Rightarrow> xmlnode \<Rightarrow> event_reg list \<Rightarrow> fault + event_reg list" where
  "oldstyle_url_events E node events =
     (let opt = old_options node;
          event = (\<lambda>name trig events.
            if opt name = None then Inr events
            else append_old_style_url_event E trig (opt ''mount_add'') name (opt ''username'') (opt ''password'') events)
      in then_do (event ''mount_add'' ''source-connect'' events) (event ''mount_remove'' ''source-disconnect''))"

definition oldstyle_url_roles :: "config_env \<Rightarrow> xmlnode \<Rightarrow> authenticator list \<times> u64 \<Rightarrow> fault + authenticator list \<times> u64" where
  "oldstyle_url_roles E node st =
     (let opt = old_options node; R = ce_roles E;
          everybody = (\<lambda>name methods st.
            if opt name = None then Inr st
            else append_old_style_auth R None (Some ''anonymous'') None None (Some methods) None False None st)
      in then_do
           (append_old_style_urlauth R (opt ''listener_add'') (opt ''listener_remove'') (Some ''listener_add'') (Some ''listener_remove'')
              (opt ''username'') (opt ''password'') False (opt ''auth_header'') (opt ''timelimit_header'') (opt ''headers'') (opt ''header_prefix'') st)
           (\<lambda>st. then_do
              (append_old_style_urlauth R (opt ''stream_auth'') None (Some ''stream_auth'') None
                 (opt ''username'') (opt ''password'') True (opt ''auth_header'') (opt ''timelimit_header'') (opt ''headers'') (opt ''header_prefix'') st)
              (\<lambda>st. then_do (everybody ''listener_add'' ''get,put,head'' st) (everybody ''stream_auth'' ''source,put''))))"

definition parse_mount_oldstyle_authentication :: "config_env \<Rightarrow> xmlnode \<Rightarrow> string \<Rightarrow> mount_parse \<Rightarrow> fault + mount_parse" where
  "parse_mount_oldstyle_authentication E node type m =
     (if type = ''htpasswd'' then map_sum id (\<lambda>r. m\<lparr>mp_roles := r\<rparr>) (oldstyle_htpasswd E node (mp_roles m))
      else if type = ''url''
      then then_do (oldstyle_url_events E node (mp_events m)) (\<lambda>ev.
             map_sum id (\<lambda>r. m\<lparr>mp_events := ev, mp_roles := r\<rparr>) (oldstyle_url_roles E node (mp_roles m)))
      else map_sum id (\<lambda>r. m\<lparr>mp_roles := r\<rparr>)
             (append_old_style_auth (ce_roles E) None (Some ''anonymous'') None None None None False None (mp_roles m)))"

subsection \<open>The settings of a mount\<close>

definition bool_int :: "bool \<Rightarrow> int" where
  "bool_int b = (if b then 1 else 0)"

text \<open>The settings that only store a value; the mount is given back unchanged by any other name.\<close>

definition mount_setting :: "xmlnode \<Rightarrow> mount_proxy \<Rightarrow> mount_proxy" where
  "mount_setting node m =
     (let n = node_name node; t = node_text node
      in if n = ''mount-name'' then m\<lparr>mountname := t\<rparr>
         else if n = ''dump-file'' then m\<lparr>dumpfile := t\<rparr>
         else if n = ''intro'' then m\<lparr>intro_filename := t\<rparr>
         else if n = ''fallback-mount'' then m\<lparr>fallback_mount := t\<rparr>
         else if n = ''fallback-when-full'' then m\<lparr>fallback_when_full := bool_int (read_bool node)\<rparr>
         else if n = ''max-listeners'' then m\<lparr>max_listeners := read_int node (max_listeners m)\<rparr>
         else if n = ''max-history''
         then (let h = util_str_to_int t (max_history m) in m\<lparr>max_history := (if h < 1 \<or> h > 256 then 256 else h)\<rparr>)
         else if n = ''charset'' then m\<lparr>charset := t\<rparr>
         else if n = ''mp3-metadata-interval'' \<or> n = ''icy-metadata-interval''
         then m\<lparr>mp3_meta_interval := read_int node (mp3_meta_interval m)\<rparr>
         else if n = ''fallback-override'' then m\<lparr>fallback_override := bool_int (read_bool node)\<rparr>
         else if n = ''no-mount'' then m\<lparr>no_mount := bool_int (read_bool node)\<rparr>
         else if n = ''no-yp'' then m\<lparr>yp_public := (if read_bool node then 0 else -1)\<rparr>
         else if n = ''hidden'' then m\<lparr>hidden := bool_int (read_bool node)\<rparr>
         else if n = ''max-listener-duration'' then m\<lparr>max_listener_duration := read_unsigned_int node (max_listener_duration m)\<rparr>
         else if n = ''queue-size'' then m\<lparr>mount_proxy.queue_size_limit := read_unsigned_int node (mount_proxy.queue_size_limit m)\<rparr>
         else if n = ''source-timeout'' then m\<lparr>source_timeout := read_unsigned_int node (source_timeout m)\<rparr>
         else if n = ''burst-size'' then m\<lparr>mount_proxy.burst_size := read_int node (mount_proxy.burst_size m)\<rparr>
         else if n = ''cluster-password'' then m\<lparr>cluster_password := t\<rparr>
         else if n = ''stream-name'' then m\<lparr>stream_name := t\<rparr>
         else if n = ''stream-description'' then m\<lparr>stream_description := t\<rparr>
         else if n = ''stream-url'' then m\<lparr>stream_url := t\<rparr>
         else if n = ''genre'' then m\<lparr>stream_genre := t\<rparr>
         else if n = ''bitrate'' then m\<lparr>bitrate := t\<rparr>
         else if n = ''type'' then m\<lparr>mount_mime := t\<rparr>
         else if n = ''subtype'' then m\<lparr>subtype := t\<rparr>
         else if n = ''http-headers'' then m\<lparr>http_headers := parse_http_headers (node_children node) (http_headers m)\<rparr>
         else m)"

definition mount_authentication :: "config_env \<Rightarrow> xmlnode \<Rightarrow> mount_parse \<Rightarrow> fault + mount_parse" where
  "mount_authentication E node m =
     (case xmlGetProp node ''type'' of
        Some t \<Rightarrow> parse_mount_oldstyle_authentication E node t m
      | None \<Rightarrow>
          map_sum id (\<lambda>r. m\<lparr>mp_roles := r\<rparr>)
            (fold_sum (push_role (ce_roles E)) (filter (\<lambda>c. node_name c = ''role'') (real_nodes (node_children node))) (mp_roles m)))"

definition mount_node :: "config_env \<Rightarrow> xmlnode \<Rightarrow> mount_parse \<Rightarrow> fault + mount_parse" where
  "mount_node E node m =
     (let n = node_name node; t = node_text node; events = (\<lambda>e. map_sum id (\<lambda>ev. m\<lparr>mp_events := ev\<rparr>) e)
      in if n = ''username'' then Inr (m\<lparr>mp_username := t\<rparr>)
         else if n = ''password'' then Inr (m\<lparr>mp_password := t\<rparr>)
         else if n = ''public''
         then (case t of None \<Rightarrow> Inl Null_deref | Some s \<Rightarrow> Inr (m\<lparr>mp_mount := (mp_mount m)\<lparr>yp_public := parse_public s\<rparr>\<rparr>))
         else if n = ''authentication'' then mount_authentication E node m
         else if n = ''on-connect''
         then (case t of None \<Rightarrow> Inr m | Some x \<Rightarrow> events (append_old_style_exec_event E ''source-connect'' x (mp_events m)))
         else if n = ''on-disconnect''
         then (case t of None \<Rightarrow> Inr m | Some x \<Rightarrow> events (append_old_style_exec_event E ''source-disconnect'' x (mp_events m)))
         else if n = ''event-bindings'' \<or> n = ''kartoffelsalat'' then events (parse_events E (node_children node) (mp_events m))
         else Inr (m\<lparr>mp_mount := mount_setting node (mp_mount m)\<rparr>))"

text \<open>A password of the mount becomes a role in front of the others.\<close>

definition mount_password :: "config_env \<Rightarrow> mount_parse \<Rightarrow> fault + authenticator list \<times> u64" where
  "mount_password E m =
     (case mp_password m of
        None \<Rightarrow> Inr (mp_roles m)
      | Some p \<Rightarrow>
          map_sum id (\<lambda>(old_style, ids). (if fst (mp_roles m) \<noteq> [] then auth_stack_append old_style (fst (mp_roles m)) else old_style, ids))
            (append_old_style_auth (ce_roles E) (Some ''legacy-mount-source'') (Some ''static'')
               (Some (case mp_username m of None \<Rightarrow> ''source'' | Some u \<Rightarrow> u)) (Some p) None (Some ''source,put,get'') False (Some ''*'')
               ([], snd (mp_roles m))))"

text \<open>The place of a list that is not NULL, behind those that are there.\<close>

definition place :: "'a list \<Rightarrow> 'b list \<Rightarrow> nat option" where
  "place xs stored = (if xs = [] then None else Some (length stored))"

definition store_mount :: "mount_parse \<Rightarrow> authenticator list \<Rightarrow> u64 \<Rightarrow> ice_config \<Rightarrow> ice_config" where
  "store_mount m stack ids c =
     (let mount = mp_mount m
      in if mountname mount = None \<and> mounttype mount \<noteq> MOUNT_TYPE_DEFAULT then c\<lparr>ic_ids := ids\<rparr>
         else (let named = (case mountname mount of Some n \<Rightarrow> n | None \<Rightarrow> ''(default mount)'');
                   stack = map (\<lambda>a. a\<lparr>at_mount := Some named\<rparr>) stack;
                   mount = mount\<lparr>mount_authstack := place stack (ic_stacks c), mount_event := place (mp_events m) (ic_regs c)\<rparr>
               in c\<lparr>ic_ids := ids, ic_mounts := ic_mounts c @ [mount], ic_stacks := ic_stacks c @ [stack],
                    ic_regs := ic_regs c @ [mp_events m]\<rparr>))"

definition parse_mount :: "config_env \<Rightarrow> xmlnode \<Rightarrow> ice_config \<Rightarrow> fault + ice_config" where
  "parse_mount E node c =
     (if xmlGetProp node ''type'' \<notin> {None, Some ''normal'', Some ''default''} then Inr c
      else
        (let ty = (if xmlGetProp node ''type'' = Some ''default'' then MOUNT_TYPE_DEFAULT else MOUNT_TYPE_NORMAL)
         in then_do
              (fold_sum (mount_node E) (real_nodes (node_children node))
                 \<lparr>mp_mount = new_mount ty, mp_username = None, mp_password = None, mp_roles = ([], ic_ids c), mp_events = []\<rparr>)
              (\<lambda>m. then_do (mount_password E m) (\<lambda>(stack, ids). Inr (store_mount m stack ids c)))))"

section \<open>The file\<close>

definition on_first :: "(listener_t \<Rightarrow> listener_t) \<Rightarrow> ice_config \<Rightarrow> ice_config" where
  "on_first f c = c\<lparr>ic_listen_sock := (case ic_listen_sock c of [] \<Rightarrow> [] | l # ls \<Rightarrow> f l # ls)\<rparr>"

text \<open>The settings of the file itself.\<close>

definition root_setting :: "xmlnode \<Rightarrow> ice_config \<Rightarrow> ice_config" where
  "root_setting node c =
     (let n = node_name node; t = node_text node
      in if n = ''location'' then c\<lparr>ic_location := t\<rparr>
         else if n = ''admin'' then c\<lparr>ic_admin := t\<rparr>
         else if n = ''server-id'' then c\<lparr>ic_server_id := t\<rparr>
         else if n = ''fileserve'' then c\<lparr>ic_fileserve := read_bool node\<rparr>
         else if n = ''relays-on-demand'' then c\<lparr>ic_on_demand := read_bool node\<rparr>
         else if n = ''hostname'' then c\<lparr>ic_hostname := t\<rparr>
         else if n = ''mime-types'' then c\<lparr>ic_mimetypes_fn := t\<rparr>
         else if n = ''listen-socket'' then parse_listen_socket (node_children node) c
         else if n = ''port''
         then (case t of
                 None \<Rightarrow> c
               | Some s \<Rightarrow> if s = [] then c else on_first (\<lambda>l. l\<lparr>l_port := atoi s\<rparr>) (c\<lparr>ic_port := atoi s\<rparr>))
         else if n = ''bind-address'' then on_first (\<lambda>l. l\<lparr>l_bind_address := t\<rparr>) c
         else if n = ''master-server'' then c\<lparr>ic_master_server := t\<rparr>
         else if n = ''master-username'' then c\<lparr>ic_master_username := t\<rparr>
         else if n = ''master-password'' then c\<lparr>ic_master_password := t\<rparr>
         else if n = ''master-server-port'' then c\<lparr>ic_master_server_port := read_int node (ic_master_server_port c)\<rparr>
         else if n = ''master-update-interval'' then c\<lparr>ic_master_update_interval := read_int node (ic_master_update_interval c)\<rparr>
         else if n = ''shoutcast-mount'' then c\<lparr>ic_shoutcast_mount := t\<rparr>
         else if n = ''limits'' then parse_limits (node_children node) c
         else if n = ''http-headers'' then c\<lparr>ic_http_headers := parse_http_headers (node_children node) (ic_http_headers c)\<rparr>
         else if n = ''relay'' then parse_relay (node_children node) c
         else if n = ''directory'' then parse_directory (node_children node) c
         else c)"

definition root_node :: "config_env \<Rightarrow> xmlnode \<Rightarrow> string option \<times> ice_config \<Rightarrow> fault + string option \<times> ice_config" where
  "root_node E node = (\<lambda>(source_password, c).
     let n = node_name node; keep = map_sum id (\<lambda>c. (source_password, c))
     in if n = ''authentication'' then parse_authentication E (node_children node) source_password c
        else if n = ''source-password'' then Inr (node_text node, c)
        else if n = ''mount'' then keep (parse_mount E node c)
        else if n = ''paths'' then keep (parse_paths E (node_children node) c)
        else if n = ''logging'' then keep (parse_logging (node_children node) c)
        else if n = ''security'' then Inr (source_password, parse_security E (node_children node) c)
        else if n = ''event-bindings'' \<or> n = ''kartoffelsalat''
        then keep (map_sum id (\<lambda>ev. c\<lparr>ic_event := ev\<rparr>) (parse_events E (node_children node) (ic_event c)))
        else Inr (source_password, root_setting node c))"

definition find_default_mount :: "config_env \<Rightarrow> ice_config \<Rightarrow> mount_proxy option" where
  "find_default_mount E c = config_find_mount (ce_fnm E) (ic_mounts c) None MOUNT_TYPE_DEFAULT"

text \<open>
  The role of the password of all sources is given to the default mount, which is added when there is none,
  unless it has roles of its own.
\<close>

fun replace_first :: "('a \<Rightarrow> bool) \<Rightarrow> ('a \<Rightarrow> 'a) \<Rightarrow> 'a list \<Rightarrow> 'a list" where
  "replace_first P f [] = []"
| "replace_first P f (x # xs) = (if P x then f x # xs else x # replace_first P f xs)"

definition give_source_role :: "config_env \<Rightarrow> string \<Rightarrow> ice_config \<Rightarrow> fault + ice_config" where
  "give_source_role E source_password c =
     (case find_default_mount E c of
        None \<Rightarrow> Inr c
      | Some m \<Rightarrow>
          if mount_authstack m \<noteq> None then Inr c
          else map_sum id (\<lambda>(stack, ids).
                 c\<lparr>ic_ids := ids, ic_stacks := ic_stacks c @ [stack],
                   ic_mounts := replace_first (mount_matches (ce_fnm E) None MOUNT_TYPE_DEFAULT)
                     (\<lambda>m. m\<lparr>mount_authstack := place stack (ic_stacks c)\<rparr>) (ic_mounts c)\<rparr>)
               (append_old_style_auth (ce_roles E) (Some ''legacy-global-source'') (Some ''static'') (Some ''source'')
                  (Some source_password) None (Some ''source,put,get'') False (Some ''*'') ([], ic_ids c)))"

definition global_source_password :: "config_env \<Rightarrow> string option \<Rightarrow> ice_config \<Rightarrow> fault + ice_config" where
  "global_source_password E source_password c =
     (case source_password of
        None \<Rightarrow> Inr c
      | Some p \<Rightarrow>
          then_do
            (if find_default_mount E c = None then parse_mount E (xmlSetProp ''type'' ''default'' (xmlNewNode ''mount'')) c else Inr c)
            (give_source_role E p))"

definition finish_root :: "ice_config \<Rightarrow> ice_config" where
  "finish_root c =
     (let c = (if ic_listen_sock_count c > 1
               then c\<lparr>ic_listen_sock := drop 1 (ic_listen_sock c), ic_listen_sock_count := ic_listen_sock_count c - 1\<rparr> else c);
          (h, sane) = check_hostname (ic_hostname c)
      in c\<lparr>ic_port := (if ic_port c = 0 then 8000 else ic_port c), ic_hostname := Some h, ic_sane_hostname := sane,
           ic_location := (case ic_location c of None \<Rightarrow> Some ''Earth'' | Some l \<Rightarrow> Some l),
           ic_admin := (case ic_admin c of None \<Rightarrow> Some ''icemaster@localhost'' | Some a \<Rightarrow> Some a)\<rparr>)"

definition parse_root :: "config_env \<Rightarrow> xmlnode list \<Rightarrow> ice_config \<Rightarrow> fault + ice_config" where
  "parse_root E ns c =
     then_do (fold_sum (root_node E) (real_nodes ns)
               (None, c\<lparr>ic_listen_sock := [new_listener\<lparr>l_port := 8000\<rparr>], ic_listen_sock_count := 1\<rparr>))
       (\<lambda>(source_password, c). map_sum id finish_root (global_source_password E source_password c))"

definition CONFIG_EINSANE :: int where "CONFIG_EINSANE = -1"
definition CONFIG_ENOROOT :: int where "CONFIG_ENOROOT = -2"
definition CONFIG_EBADROOT :: int where "CONFIG_EBADROOT = -3"
definition CONFIG_EPARSE :: int where "CONFIG_EPARSE = -4"

text \<open>A file that cannot be read is an error number, on the left.\<close>

definition config_parse_file :: "config_env \<Rightarrow> u64 \<Rightarrow> string option \<Rightarrow> fault + int + ice_config" where
  "config_parse_file E ids filename =
     (case filename of
        None \<Rightarrow> Inr (Inl CONFIG_EINSANE)
      | Some f \<Rightarrow>
          if f = [] then Inr (Inl CONFIG_EINSANE)
          else (case ce_parse E f of
                  None \<Rightarrow> Inr (Inl CONFIG_EPARSE)
                | Some None \<Rightarrow> Inr (Inl CONFIG_ENOROOT)
                | Some (Some node) \<Rightarrow>
                    if node_name node \<noteq> ''icecast'' then Inr (Inl CONFIG_EBADROOT)
                    else map_sum id (\<lambda>c. Inr (c\<lparr>ic_mounts := merge_mounts_all (ce_fnm E) (ic_mounts c)\<rparr>))
                           (parse_root E (node_children node) ((set_defaults E ids)\<lparr>ic_config_filename := Some f\<rparr>))))"

section \<open>Reading the file again\<close>

text \<open>What the other parts are told, in order.\<close>

datatype notice =
  Restart_logging | Connection_reread_config | Yp_recheck_config | Fserve_recheck_mime_types | Stats_global | Slave_update_all_mounts

record config_state =
  cs_config :: ice_config
  cs_wlocked :: bool
  cs_notices :: "(notice \<times> ice_config \<times> bool) list"

definition notify :: "notice \<Rightarrow> config_state \<Rightarrow> config_state" where
  "notify n s = s\<lparr>cs_notices := cs_notices s @ [(n, cs_config s, cs_wlocked s)]\<rparr>"

definition config_reread_config :: "config_env \<Rightarrow> config_state \<Rightarrow> fault + config_state" where
  "config_reread_config E s =
     (let s = s\<lparr>cs_wlocked := True\<rparr>
      in then_do (config_parse_file E (ic_ids (cs_config s)) (ic_config_filename (cs_config s)))
           (\<lambda>r. Inr (case r of
              Inl e \<Rightarrow> s\<lparr>cs_wlocked := False\<rparr>
            | Inr c \<Rightarrow>
                (let s = fold notify [Restart_logging, Connection_reread_config, Yp_recheck_config, Fserve_recheck_mime_types, Stats_global]
                           (s\<lparr>cs_config := c\<rparr>)
                 in notify Slave_update_all_mounts (s\<lparr>cs_wlocked := False\<rparr>)))))"

end
