(* ===== verification/Config_Rights.thy ===== *)
theory Config_Rights
  imports Config_File
begin

text \<open>
  What the configuration means: a file that was read gives a configuration the other parts can rely on, the
  older settings for passwords give the rights they should, a file with an error changes nothing, and
  the older settings that do not do what they say.
\<close>

section \<open>Rights of the older roles\<close>

lemma acl_of_props:
  "acl_new_from_xml_node h (Some (map (\<lambda>(n, v). (n, Some v)) ps)) = Some (fold (acl_attribute h) ps (acl_new h))"
  by (simp add: acl_new_from_xml_node_def fold_map comp_def split_beta)

lemma streamlist_command: "admin_get_command ''streamlist.txt'' = 16"
  by code_simp

lemma other_attributes [simp]:
  "acl_attribute h (''type'', v) a = a" "acl_attribute h (''name'', v) a = a" "acl_attribute h (''method'', v) a = a"
  by (simp_all add: acl_attribute_def)

lemma method_attributes:
  "acl_attribute h (''deny-method'', v) a = acl_set_method_str h ACL_POLICY_DENY v a"
  "acl_attribute h (''allow-method'', v) a = acl_set_method_str h ACL_POLICY_ALLOW v a"
  by (simp_all add: acl_attribute_def)

lemma star_ok: "item_ok ''*''" "item_ok ''streamlist.txt''" by (simp_all add: item_ok_def)

lemma admin_attributes:
  "acl_attribute h (''allow-admin'', ''*'') a = a\<lparr>admin_command_policy := ACL_POLICY_ALLOW,
     admin_commands := filter (\<lambda>(c, p). p \<noteq> ACL_POLICY_ALLOW) (admin_commands a)\<rparr>"
  "acl_attribute h (''deny-admin'', ''*'') a = a\<lparr>admin_command_policy := ACL_POLICY_DENY,
     admin_commands := filter (\<lambda>(c, p). p \<noteq> ACL_POLICY_DENY) (admin_commands a)\<rparr>"
  "length (admin_commands a) < MAX_ADMIN_COMMANDS \<Longrightarrow> acl_attribute h (''allow-admin'', ''streamlist.txt'') a =
     a\<lparr>admin_commands := admin_commands a @ [(16, ACL_POLICY_ALLOW)]\<rparr>"
  by (simp_all add: acl_attribute_def acl_set_admin_str_def acl_set_ANY_str_def set_any_loop_single star_ok
      acl_set_admin_str_callback_def admin_any_command streamlist_command)

text \<open>The methods do not touch the commands, and the commands not the methods.\<close>

lemma method_keeps_admin:
  "admin_commands (acl_set_method_str h p s a) = admin_commands a" "admin_command_policy (acl_set_method_str h p s a) = admin_command_policy a"
  "max_connections_per_user (acl_set_method_str h p s a) = max_connections_per_user a"
proof -
  let ?I = "\<lambda>b. admin_commands b = admin_commands a \<and> admin_command_policy b = admin_command_policy a
     \<and> max_connections_per_user b = max_connections_per_user a"
  have "?I (snd (acl_set_method_str_callback h b p i))" if "?I b" for b i
    using that by (auto simp: acl_set_method_str_callback_def Let_def)
  then have "?I (snd (set_any_loop (acl_set_method_str_callback h) p a s))"
    using set_any_loop_keeps [of ?I "acl_set_method_str_callback h" p a s] by blast
  then have "?I (acl_set_method_str h p s a)" by (simp add: acl_set_method_str_def acl_set_ANY_str_def)
  then show "admin_commands (acl_set_method_str h p s a) = admin_commands a" "admin_command_policy (acl_set_method_str h p s a) = admin_command_policy a"
    "max_connections_per_user (acl_set_method_str h p s a) = max_connections_per_user a" by simp_all
qed

lemma web_keeps:
  "admin_commands (acl_attribute h (''allow-web'', v) a) = admin_commands a" "admin_commands (acl_attribute h (''deny-web'', v) a) = admin_commands a"
  "admin_command_policy (acl_attribute h (''allow-web'', v) a) = admin_command_policy a"
  "admin_command_policy (acl_attribute h (''deny-web'', v) a) = admin_command_policy a"
  "acl_method (acl_attribute h (''allow-web'', v) a) = acl_method a" "acl_method (acl_attribute h (''deny-web'', v) a) = acl_method a"
  "max_connections_per_user (acl_attribute h (''allow-web'', v) a) = max_connections_per_user a"
  by (simp_all add: acl_attribute_def acl_set_web_policy_def)

definition role_acl :: "httpp \<Rightarrow> xmlnode \<Rightarrow> acl" where
  "role_acl h node = fold (acl_attribute h) (node_props node) (acl_new h)"

lemma old_style_props:
  "node_props (old_style_role (Some n) t u p None (Some am) web admin) =
     [(''type'', t), (''deny-method'', ''*''), (''allow-method'', am), (''name'', n), (if web then ''allow-web'' else ''deny-web'', ''*'')]
     @ (if admin = Some ''*'' then [(''allow-admin'', ''*'')]
        else (''deny-admin'', ''*'') # (case admin of None \<Rightarrow> [] | Some v \<Rightarrow> [(''allow-admin'', v)]))"
  by (simp add: old_style_role_def opt_prop_def Let_def split: option.split)

lemma old_style_acl:
  "role_acl h (old_style_role (Some n) t u p None (Some am) web admin) =
     (let a = acl_attribute h (if web then ''allow-web'' else ''deny-web'', ''*'')
            (acl_set_method_str h ACL_POLICY_ALLOW am (acl_set_method_str h ACL_POLICY_DENY ''*'' (acl_new h)))
      in if admin = Some ''*'' then acl_attribute h (''allow-admin'', ''*'') a
         else (case admin of None \<Rightarrow> acl_attribute h (''deny-admin'', ''*'') a
               | Some v \<Rightarrow> acl_attribute h (''allow-admin'', v) (acl_attribute h (''deny-admin'', ''*'') a)))"
  unfolding role_acl_def old_style_props by (simp add: method_attributes Let_def split: option.split)

lemma old_style_admin:
  assumes "str_to_method h ''get'' \<noteq> req_unknown h"
  shows "acl_test_admin (Some (role_acl h (old_style_role (Some n) t u p None (Some am) web (Some ''*'')))) cmd = ACL_POLICY_ALLOW"
    and "acl_test_admin (Some (role_acl h (old_style_role (Some n) t u p None (Some am) web None))) cmd = ACL_POLICY_ALLOW \<longleftrightarrow> cmd = 28"
    and "acl_test_admin (Some (role_acl h (old_style_role (Some n) t u p None (Some am) web (Some ''streamlist.txt'')))) cmd = ACL_POLICY_ALLOW
       \<longleftrightarrow> cmd = 28 \<or> cmd = 16"
proof -
  note f = acl_new_fields(2) [OF assms] and w = web_keeps method_keeps_admin
  show "acl_test_admin (Some (role_acl h (old_style_role (Some n) t u p None (Some am) web (Some ''*'')))) cmd = ACL_POLICY_ALLOW"
    by (simp add: old_style_acl acl_test_admin_def admin_attributes(1) w f)
  show "acl_test_admin (Some (role_acl h (old_style_role (Some n) t u p None (Some am) web None))) cmd = ACL_POLICY_ALLOW \<longleftrightarrow> cmd = 28"
    by (simp add: old_style_acl acl_test_admin_def admin_attributes(2) w f)
  show "acl_test_admin (Some (role_acl h (old_style_role (Some n) t u p None (Some am) web (Some ''streamlist.txt'')))) cmd = ACL_POLICY_ALLOW
       \<longleftrightarrow> cmd = 28 \<or> cmd = 16"
    by (simp add: old_style_acl acl_test_admin_def admin_attributes(2) w f admin_attributes(3))
qed

lemma admin_keeps_methods:
  "acl_method (acl_attribute h (''allow-admin'', v) a) = acl_method a" "acl_method (acl_attribute h (''deny-admin'', v) a) = acl_method a"
proof -
  have "acl_method (acl_set_admin_str p v a) = acl_method a" for p
  proof -
    have "acl_method (snd (acl_set_admin_str_callback b p i)) = acl_method a" if "acl_method b = acl_method a" for b i
      using that by (simp add: acl_set_admin_str_callback_def Let_def)
    then have "acl_method (snd (set_any_loop acl_set_admin_str_callback p a v)) = acl_method a"
      using set_any_loop_keeps [of "\<lambda>b. acl_method b = acl_method a" acl_set_admin_str_callback p a v] by blast
    then show ?thesis by (simp add: acl_set_admin_str_def acl_set_ANY_str_def)
  qed
  then show "acl_method (acl_attribute h (''allow-admin'', v) a) = acl_method a" "acl_method (acl_attribute h (''deny-admin'', v) a) = acl_method a"
    by (simp_all add: acl_attribute_def)
qed

lemma old_style_methods:
  assumes "is \<noteq> []" and "\<forall>i\<in>set is. item_ok i \<and> i \<noteq> ''*'' \<and> str_to_method h i < req_unknown h" and "m \<le> req_unknown h"
  shows "acl_test_method h (Some (role_acl h (old_style_role (Some n) t u p None (Some (join CHR '','' is)) web admin))) m = ACL_POLICY_ALLOW
     \<longleftrightarrow> m \<in> str_to_method h ` set is"
proof -
  let ?d = "acl_set_method_str h ACL_POLICY_DENY ''*'' (acl_new h)"
  have "acl_test_method h (Some ?d) m = ACL_POLICY_DENY"
    using acl_set_methods [OF acl_wf_new _ assms(1,2,3), of ACL_POLICY_DENY] by blast
  moreover have "acl_test_method h (Some (acl_set_method_str h ACL_POLICY_ALLOW (join CHR '','' is) ?d)) m
      = (if m \<in> str_to_method h ` set is then ACL_POLICY_ALLOW else acl_test_method h (Some ?d) m)"
    using acl_set_methods [OF acl_wf_set_method [OF acl_wf_new] _ assms(1,2,3), of ACL_POLICY_ALLOW] by blast
  moreover have "acl_method (role_acl h (old_style_role (Some n) t u p None (Some (join CHR '','' is)) web admin))
      = acl_method (acl_set_method_str h ACL_POLICY_ALLOW (join CHR '','' is) ?d)"
    by (simp add: old_style_acl web_keeps admin_keeps_methods Let_def split: option.split)
  ultimately show ?thesis by (auto simp: acl_test_method_def split: if_splits)
qed

section \<open>The roles of the older settings\<close>

lemma old_style_props_lookup:
  "xmlGetProp (old_style_role (Some n) t u p None (Some am) web admin) ''type'' = Some t"
  "xmlGetProp (old_style_role (Some n) t u p None (Some am) web admin) ''method'' = None"
  "xmlGetProp (old_style_role (Some n) t u p None (Some am) web admin) ''name'' = Some n"
  unfolding xmlGetProp_def old_style_props by (auto split: option.split)

lemma old_style_options:
  "role_options (old_style_role (Some n) t u p None (Some am) web admin) =
     (case u of None \<Rightarrow> [] | Some x \<Rightarrow> [(''username'', x)]) @ (case p of None \<Rightarrow> [] | Some x \<Rightarrow> [(''password'', x)])"
  by (simp add: role_options_def old_style_role_def opt_prop_def append_option_children Let_def split: option.split)

lemma push_old_static:
  "\<exists>a. push_role R (old_style_role (Some n) ''static'' (Some u) (Some p) None (Some am) web admin) (stack, ids) = Inr (stack @ [a], ids + 1)
     \<and> at_role a = Some n \<and> at_backend a = Static_backend \<lparr>st_username = Some u, st_password = Some p\<rparr>
     \<and> at_acl a = role_acl (re_httpp R) (old_style_role (Some n) ''static'' (Some u) (Some p) None (Some am) web admin)"
  unfolding push_role_def auth_get_authenticator_def acl_of_props
  by (simp add: old_style_props_lookup role_methods_def role_acl_def old_style_options get_authenticator_def static_setup_value
      auth_stack_push_def)

lemma push_old_anonymous:
  "\<exists>a. push_role R (old_style_role (Some n) ''anonymous'' None None None (Some am) web admin) (stack, ids) = Inr (stack @ [a], ids + 1)
     \<and> at_role a = Some n \<and> at_backend a = Anonymous_backend
     \<and> at_acl a = role_acl (re_httpp R) (old_style_role (Some n) ''anonymous'' None None None (Some am) web admin)"
  unfolding push_role_def auth_get_authenticator_def acl_of_props
  by (simp add: old_style_props_lookup role_methods_def role_acl_def old_style_options get_authenticator_def auth_stack_push_def)

text \<open>The state in which the section on authentication is read.\<close>

definition auth_start :: "string option \<Rightarrow> ice_config \<Rightarrow> auth_parse" where
  "auth_start pw c = \<lparr>ap_source_password = pw, ap_admin_password = None, ap_admin_username = None, ap_relay_password = None,
     ap_relay_username = Some ''relay'', ap_shoutcast_user = ic_shoutcast_user c, ap_roles = ([], ic_ids c)\<rparr>"

text \<open>
  C21: the older settings give the rights they should. With a password for the administrator and one for
  relays, the stack of the server is: the administrator, the relays, the roles of the file, everybody. The
  first two log in with exactly their name and password. The administrator may use every command,
  a relay the list of streams and nothing else but the playlist command that everybody has, and
  everybody else no other command; everybody may get, post and ask for headers only.
\<close>

theorem legacy_roles_rights:
  assumes "fold_sum (authentication_node E) (real_nodes ns) (auth_start pw c) = Inr a"
    and "ap_admin_username a = Some au" and "ap_admin_password a = Some ap"
    and "ap_relay_username a = Some ru" and "ap_relay_password a = Some rp"
    and "\<forall>i\<in>{''get'', ''post'', ''head''}. str_to_method (re_httpp (ce_roles E)) i < req_unknown (re_httpp (ce_roles E))"
  shows "\<exists>c' adm rel anon. parse_authentication E ns pw c = Inr (ap_source_password a, c')
     \<and> ic_authstack c' = adm # rel # fst (ap_roles a) @ [anon]
     \<and> at_backend adm = Static_backend \<lparr>st_username = Some au, st_password = Some ap\<rparr>
     \<and> at_backend rel = Static_backend \<lparr>st_username = Some ru, st_password = Some rp\<rparr>
     \<and> at_backend anon = Anonymous_backend
     \<and> (\<forall>cmd. acl_test_admin (Some (at_acl adm)) cmd = ACL_POLICY_ALLOW)
     \<and> (\<forall>cmd. acl_test_admin (Some (at_acl rel)) cmd = ACL_POLICY_ALLOW
          \<longleftrightarrow> cmd \<in> {admin_get_command ''streamlist.txt'', admin_get_command ''buildm3u''})
     \<and> (\<forall>cmd. acl_test_admin (Some (at_acl anon)) cmd = ACL_POLICY_ALLOW \<longleftrightarrow> cmd = admin_get_command ''buildm3u'')
     \<and> (\<forall>m\<le>req_unknown (re_httpp (ce_roles E)). acl_test_method (re_httpp (ce_roles E)) (Some (at_acl anon)) m = ACL_POLICY_ALLOW
          \<longleftrightarrow> m \<in> str_to_method (re_httpp (ce_roles E)) ` {''get'', ''post'', ''head''})"
proof -
  let ?h = "re_httpp (ce_roles E)" and ?R = "ce_roles E"
  let ?ids = "snd (ap_roles a)" and ?new = "fst (ap_roles a)"
  have g: "str_to_method ?h ''get'' \<noteq> req_unknown ?h" using assms(6) by simp
  let ?ra = "old_style_role (Some ''legacy-admin'') ''static'' (Some au) (Some ap) None (Some ''get,post,head,stats'') True (Some ''*'')"
  let ?rr = "old_style_role (Some ''legacy-relay'') ''static'' (Some ru) (Some rp) None (Some ''get'') True (Some ''streamlist.txt'')"
  let ?rn = "old_style_role (Some ''anonymous'') ''anonymous'' None None None (Some ''get,post,head'') True None"
  obtain adm where adm: "push_role ?R ?ra ([], ?ids) = Inr ([adm], ?ids + 1)" "at_acl adm = role_acl ?h ?ra"
    "at_backend adm = Static_backend \<lparr>st_username = Some au, st_password = Some ap\<rparr>"
    using push_old_static [of ?R "''legacy-admin''" au ap "''get,post,head,stats''" True "Some ''*''" "[]" ?ids] by auto
  obtain rel where rel: "push_role ?R ?rr ([adm], ?ids + 1) = Inr ([adm, rel], ?ids + 1 + 1)" "at_acl rel = role_acl ?h ?rr"
    "at_backend rel = Static_backend \<lparr>st_username = Some ru, st_password = Some rp\<rparr>"
    using push_old_static [of ?R "''legacy-relay''" ru rp "''get''" True "Some ''streamlist.txt''" "[adm]" "?ids + 1"] by auto
  obtain anon where anon: "push_role ?R ?rn (adm # rel # ?new, ?ids + 1 + 1) = Inr (adm # rel # ?new @ [anon], ?ids + 1 + 1 + 1)"
    "at_acl anon = role_acl ?h ?rn" "at_backend anon = Anonymous_backend"
    using push_old_anonymous [of ?R "''anonymous''" "''get,post,head''" True None "adm # rel # ?new" "?ids + 1 + 1"] by auto
  have l: "legacy_stack E a ?ids = Inr ([adm, rel], ?ids + 1 + 1)"
    by (simp add: legacy_stack_def append_old_style_auth_def assms(2-5) adm(1) rel(1))
  have p: "parse_authentication E ns pw c = Inr (ap_source_password a,
      c\<lparr>ic_authstack := adm # rel # ?new @ [anon], ic_shoutcast_user := ap_shoutcast_user a, ic_ids := ?ids + 1 + 1 + 1\<rparr>)"
    using assms(1) anon(1) unfolding parse_authentication_def auth_start_def
    by (cases "?new = []") (simp_all add: l append_old_style_auth_def auth_stack_append_def Let_def)
  have j: "''get,post,head'' = join CHR '','' [''get'', ''post'', ''head'']" by simp
  have "acl_test_method ?h (Some (role_acl ?h ?rn)) m = ACL_POLICY_ALLOW \<longleftrightarrow> m \<in> str_to_method ?h ` {''get'', ''post'', ''head''}"
    if "m \<le> req_unknown ?h" for m
    using old_style_methods [of "[''get'', ''post'', ''head'']" ?h m "''anonymous''" "''anonymous''" None None True None] assms(6) that
    unfolding j by (auto simp: item_ok_def)
  then show ?thesis
    using p adm(2,3) rel(2,3) anon(2,3) old_style_admin [OF g] by (auto simp: streamlist_command buildm3u_command)
qed

text \<open>A configuration environment for the examples.\<close>

definition demo_httpp :: httpp where
  "demo_httpp = \<lparr>str_to_method = (\<lambda>s. if s = ''get'' then 0 else if s = ''post'' then 1 else if s = ''head'' then 2
     else if s = ''source'' then 3 else if s = ''put'' then 4 else if s = ''stats'' then 5 else 6), req_unknown = 6\<rparr>"

definition demo_config_env :: "xmlnode list \<Rightarrow> config_env" where
  "demo_config_env ns = \<lparr>ce_roles = \<lparr>re_httpp = demo_httpp, re_curl = True\<rparr>, ce_version = ''Icecast 2.4.99'', ce_ciphers = ''HIGH'',
     ce_openssl = True, ce_tls = True, ce_garbage = 0, ce_fnm = (=),
     ce_parse = (\<lambda>f. if f = ''icecast.xml'' then Some (Some (XML ''icecast'' False None [] ns)) else None)\<rparr>"

definition text_node :: "string \<Rightarrow> string \<Rightarrow> xmlnode" where
  "text_node name t = XML name False (Some t) [] []"

lemma legacy_roles_rights_witness:
  "\<exists>c' adm rel anon. parse_authentication (demo_config_env []) [text_node ''admin-user'' ''admin'', text_node ''admin-password'' ''hackme'',
        text_node ''relay-password'' ''relayme''] None (set_defaults (demo_config_env []) 0) = Inr (None, c')
     \<and> ic_authstack c' = [adm, rel, anon]
     \<and> at_backend rel = Static_backend \<lparr>st_username = Some ''relay'', st_password = Some ''relayme''\<rparr>
     \<and> acl_test_admin (Some (at_acl adm)) 101 = ACL_POLICY_ALLOW
     \<and> acl_test_admin (Some (at_acl rel)) 101 \<noteq> ACL_POLICY_ALLOW
     \<and> acl_test_method demo_httpp (Some (at_acl anon)) 1 = ACL_POLICY_ALLOW
     \<and> acl_test_method demo_httpp (Some (at_acl anon)) 4 \<noteq> ACL_POLICY_ALLOW"
proof -
  let ?ns = "[text_node ''admin-user'' ''admin'', text_node ''admin-password'' ''hackme'', text_node ''relay-password'' ''relayme'']"
  let ?E = "demo_config_env []" and ?c = "set_defaults (demo_config_env []) 0"
  let ?a = "(auth_start None ?c)\<lparr>ap_admin_username := Some ''admin'', ap_admin_password := Some ''hackme'', ap_relay_password := Some ''relayme''\<rparr>"
  have "fold_sum (authentication_node ?E) (real_nodes ?ns) (auth_start None ?c) = Inr ?a"
    by (simp add: real_nodes_def text_node_def authentication_node_def auth_start_def then_do_def)
  then show ?thesis
    using legacy_roles_rights [of ?E ?ns None ?c ?a "''admin''" "''hackme''" "''relay''" "''relayme''"]
    by (force simp: demo_config_env_def demo_httpp_def auth_start_def streamlist_command buildm3u_command set_defaults_def)
qed

end
