(* ===== verification/Config_Valid.thy ===== *)
theory Config_Valid
  imports Config_Rights Conn_Request
begin

text \<open>
  What the rest of the server may rely on after the configuration was read (\<^verbatim>\<open>src/src/cfgfile.c\<close>): an
  invariant of the configuration that every function of \<open>Config_Parse\<close> and \<open>Config_File\<close> keeps, what happens when the
  file is read again, and the older settings that do not do what they say.
\<close>

section \<open>A configuration that can be used\<close>

definition place_ok :: "'a list list \<Rightarrow> nat option \<Rightarrow> bool" where
  "place_ok stored p = (case p of None \<Rightarrow> True | Some i \<Rightarrow> i < length stored \<and> stored ! i \<noteq> [])"

definition mount_ok :: "authenticator list list \<Rightarrow> event_reg list list \<Rightarrow> mount_proxy \<Rightarrow> bool" where
  "mount_ok sts regs m \<longleftrightarrow> (mountname m \<noteq> None \<or> mounttype m = MOUNT_TYPE_DEFAULT)
     \<and> (max_history m = -1 \<or> 1 \<le> max_history m \<and> max_history m \<le> 256)
     \<and> place_ok sts (mount_authstack m) \<and> place_ok regs (mount_event m)"

definition config_ok :: "ice_config \<Rightarrow> bool" where
  "config_ok c \<longleftrightarrow> ic_listen_sock c \<noteq> [] \<and> ic_listen_sock_count c = length (ic_listen_sock c)
     \<and> length (ic_yp c) = MAX_YP_DIRECTORIES \<and> ic_num_yp_directories c \<le> MAX_YP_DIRECTORIES
     \<and> list_all (\<lambda>d. yd_url d \<noteq> None) (take (ic_num_yp_directories c) (ic_yp c))
     \<and> list_all (mount_ok (ic_stacks c) (ic_regs c)) (ic_mounts c)"

subsection \<open>The settings of the file\<close>

text \<open>The part of the configuration the invariant looks at.\<close>

definition core :: "ice_config \<Rightarrow> listener_t list \<times> nat \<times> yp_dir list \<times> nat \<times> mount_proxy list \<times> authenticator list list \<times> event_reg list list" where
  "core c = (ic_listen_sock c, ic_listen_sock_count c, ic_yp c, ic_num_yp_directories c, ic_mounts c, ic_stacks c, ic_regs c)"

lemma config_ok_core: "core c = core d \<Longrightarrow> config_ok c \<longleftrightarrow> config_ok d"
  by (simp add: core_def config_ok_def list_all_iff)

lemma fold_core: "(\<And>x c. core (f x c) = core c) \<Longrightarrow> core (fold f xs c) = core c"
  by (induction xs arbitrary: c) simp_all

lemma fold_sum_core:
  "fold_sum f xs c = Inr d \<Longrightarrow> (\<And>x c d. f x c = Inr d \<Longrightarrow> core d = core c) \<Longrightarrow> core d = core c"
  by (rule fold_sum_inv [where P = "\<lambda>d. core d = core c"]) auto

lemma core_sections:
  "core (parse_limits ns c) = core c" "core (parse_relay ns c) = core c" "core (parse_security E ns c) = core c"
proof -
  show "core (parse_limits ns c) = core c"
    unfolding parse_limits_def by (rule fold_core) (simp add: limits_node_def Let_def core_def)
  show "core (parse_relay ns c) = core c" by (simp add: parse_relay_def Let_def core_def)
  have "core (security_node E n c) = core c" for n c
  proof -
    have t: "core (fold (tls_context_node E) xs d) = core d" for xs d
      by (rule fold_core) (simp add: tls_context_node_def Let_def core_def)
    have o: "core (fold owner_node xs d) = core d" for xs d
      by (rule fold_core) (simp add: owner_node_def core_def)
    show ?thesis by (simp add: security_node_def Let_def t o) (simp add: core_def)
  qed
  then show "core (parse_security E ns c) = core c" unfolding parse_security_def by (rule fold_core)
qed

lemma core_paths: "parse_paths E ns c = Inr d \<Longrightarrow> core d = core c"
  unfolding parse_paths_def
proof (rule fold_sum_core)
  fix x c d assume "paths_node E x c = Inr d"
  then show "core d = core c"
    by (auto simp: paths_node_def Let_def core_def map_sum_Inr split: if_splits option.splits)
qed

lemma core_logging: "parse_logging ns c = Inr d \<Longrightarrow> core d = core c"
  unfolding parse_logging_def
proof (rule fold_sum_core)
  fix x c d assume "logging_node x c = Inr d"
  then show "core d = core c"
    by (auto simp: logging_node_def Let_def core_def split: if_splits option.splits)
qed

lemma config_ok_listen: "config_ok c \<Longrightarrow> config_ok (parse_listen_socket ns c)"
  by (auto simp: config_ok_def parse_listen_socket_def Let_def split: prod.split)

lemma config_ok_first: "config_ok c \<Longrightarrow> config_ok (on_first f c)"
  by (auto simp: config_ok_def on_first_def split: list.split)

text \<open>While a directory is read, the entries in front of it stay and the entry itself exists.\<close>

lemma core_add_server: "core (add_server ns c) = core c"
  by (simp add: add_server_def core_def split: prod.split)

lemma take_update: "take n (xs[n := x]) = take n xs"
  by (rule nth_equalityI) simp_all

lemma config_ok_directory_node:
  assumes "config_ok c" shows "config_ok (directory_node n c) \<and> ic_num_yp_directories (directory_node n c) = ic_num_yp_directories c"
proof -
  have u: "config_ok (upd_yp f c) \<and> ic_num_yp_directories (upd_yp f c) = ic_num_yp_directories c" for f
    using assms by (simp add: upd_yp_def config_ok_def take_update)
  have "config_ok (add_server ns c) \<and> ic_num_yp_directories (add_server ns c) = ic_num_yp_directories c" for ns
    using assms core_add_server [of ns c] config_ok_core [OF core_add_server [of ns c]] by (simp add: core_def)
  with u assms show ?thesis by (simp add: directory_node_def Let_def)
qed

lemma config_ok_directory:
  assumes "config_ok c" shows "config_ok (parse_directory ns c)"
proof (cases "ic_num_yp_directories c \<ge> MAX_YP_DIRECTORIES")
  case False
  let ?d = "fold directory_node (real_nodes ns) c"
  have d: "config_ok ?d \<and> ic_num_yp_directories ?d = ic_num_yp_directories c"
  proof -
    have "config_ok (fold directory_node xs c) \<and> ic_num_yp_directories (fold directory_node xs c) = ic_num_yp_directories c"
      if "config_ok c" for xs c
      using that config_ok_directory_node by (induction xs arbitrary: c) auto
    then show ?thesis using assms by blast
  qed
  then have "config_ok (?d\<lparr>ic_num_yp_directories := ic_num_yp_directories ?d + 1\<rparr>)" if "yd_url (ic_yp ?d ! ic_num_yp_directories ?d) \<noteq> None"
    using False that by (auto simp: config_ok_def take_Suc_conv_app_nth)
  with d False show ?thesis by (simp add: parse_directory_def Let_def)
qed (use assms in \<open>simp add: parse_directory_def\<close>)

lemma config_ok_root_setting:
  assumes "config_ok c" shows "config_ok (root_setting node c)"
proof -
  have k: "config_ok d" if "core d = core c" for d using that config_ok_core assms by blast
  have p: "config_ok (on_first (\<lambda>l. l\<lparr>l_port := p\<rparr>) (c\<lparr>ic_port := p\<rparr>))" for p
    by (rule config_ok_first, rule k) (simp add: core_def)
  have f: "config_ok (on_first g c)" for g using assms by (rule config_ok_first)
  have s: "config_ok (parse_limits ns c)" "config_ok (parse_relay ns c)" for ns by (rule k, rule core_sections)+
  have "config_ok (c\<lparr>ic_http_headers := h\<rparr>)" "config_ok (c\<lparr>ic_location := t\<rparr>)" "config_ok (c\<lparr>ic_admin := t\<rparr>)" "config_ok (c\<lparr>ic_server_id := t\<rparr>)"
    "config_ok (c\<lparr>ic_fileserve := b\<rparr>)" "config_ok (c\<lparr>ic_on_demand := b\<rparr>)" "config_ok (c\<lparr>ic_hostname := t\<rparr>)" "config_ok (c\<lparr>ic_mimetypes_fn := t\<rparr>)"
    "config_ok (c\<lparr>ic_master_server := t\<rparr>)" "config_ok (c\<lparr>ic_master_username := t\<rparr>)" "config_ok (c\<lparr>ic_master_password := t\<rparr>)"
    "config_ok (c\<lparr>ic_master_server_port := i\<rparr>)" "config_ok (c\<lparr>ic_master_update_interval := i\<rparr>)" "config_ok (c\<lparr>ic_shoutcast_mount := t\<rparr>)"
    for h t b i by (rule k, simp add: core_def)+
  note this p f s config_ok_listen [OF assms] config_ok_directory [OF assms]
  then show ?thesis unfolding root_setting_def Let_def using assms by (simp split: option.split)
qed

subsection \<open>The mounts\<close>

lemma place_ok_place: "place_ok (stored @ [xs]) (place xs stored)" by (simp add: place_ok_def place_def)

lemma place_ok_append: "place_ok stored p \<Longrightarrow> place_ok (stored @ xs) p"
  by (auto simp: place_ok_def nth_append split: option.splits)

text \<open>While a mount is read it has no stack and no events yet, and a history within its bounds.\<close>

definition fresh_mount :: "mount_proxy \<Rightarrow> bool" where
  "fresh_mount m \<longleftrightarrow> mount_authstack m = None \<and> mount_event m = None \<and> (max_history m = -1 \<or> 1 \<le> max_history m \<and> max_history m \<le> 256)"

lemma fresh_mount_setting: "fresh_mount m \<Longrightarrow> fresh_mount (mount_setting node m)"
  unfolding mount_setting_def Let_def fresh_mount_def by simp

lemma mount_authentication_keeps: "mount_authentication E node m = Inr m' \<Longrightarrow> mp_mount m' = mp_mount m"
  by (auto simp: mount_authentication_def parse_mount_oldstyle_authentication_def map_sum_Inr then_do_Inr split: option.splits if_splits)

lemma fresh_mount_node:
  assumes "mount_node E node m = Inr m'" and "fresh_mount (mp_mount m)" shows "fresh_mount (mp_mount m')"
proof -
  have "fresh_mount ((mp_mount m)\<lparr>yp_public := i\<rparr>)" for i using assms(2) by (simp add: fresh_mount_def)
  then show ?thesis
    using assms fresh_mount_setting [OF assms(2), of node]
    by (auto simp: mount_node_def Let_def map_sum_Inr dest!: mount_authentication_keeps split: if_splits option.splits)
qed

lemma config_ok_store_mount:
  assumes "config_ok c" and "fresh_mount (mp_mount m)" shows "config_ok (store_mount m stack ids c)"
proof -
  let ?s = "map (\<lambda>a. a\<lparr>at_mount := Some (case mountname (mp_mount m) of Some n \<Rightarrow> n | None \<Rightarrow> ''(default mount)'')\<rparr>) stack"
  have "mount_ok (ic_stacks c @ [?s]) (ic_regs c @ [mp_events m]) x" if "x \<in> set (ic_mounts c)" for x
    using that assms(1) by (auto simp: config_ok_def mount_ok_def list_all_iff place_ok_append)
  moreover have "place ?s xs = place stack xs" for xs :: "authenticator list list" by (simp add: place_def)
  ultimately show ?thesis
    using assms place_ok_place [of "ic_stacks c" ?s] place_ok_place [of "ic_regs c" "mp_events m"]
    by (auto simp: store_mount_def Let_def config_ok_def list_all_iff mount_ok_def fresh_mount_def)
qed

lemma config_ok_mount:
  assumes "parse_mount E node c = Inr d" and "config_ok c" shows "config_ok d"
proof (cases "xmlGetProp node ''type'' \<notin> {None, Some ''normal'', Some ''default''}")
  case False
  then obtain ty m stack ids where m: "fold_sum (mount_node E) (real_nodes (node_children node))
      \<lparr>mp_mount = new_mount ty, mp_username = None, mp_password = None, mp_roles = ([], ic_ids c), mp_events = []\<rparr> = Inr m"
    and d: "d = store_mount m stack ids c"
    using assms(1) by (auto simp: parse_mount_def Let_def then_do_Inr split: if_splits)
  have "fresh_mount (new_mount ty)" by (simp add: new_mount_def fresh_mount_def)
  then have "fresh_mount (mp_mount m)"
    by (intro fold_sum_inv [OF m, where P = "\<lambda>m. fresh_mount (mp_mount m)"]) (auto intro: fresh_mount_node)
  then show ?thesis unfolding d using assms(2) by (rule config_ok_store_mount [rotated])
qed (use assms in \<open>simp add: parse_mount_def\<close>)

lemma config_ok_root_node:
  assumes "root_node E node (pw, c) = Inr (pw', d)" and "config_ok c" shows "config_ok d"
proof -
  have k: "config_ok d" if "core d = core c" for d using that config_ok_core assms(2) by blast
  have "core d = core c" if "parse_authentication E ns pw c = Inr (q, d)" for ns q d
    using that by (auto simp: parse_authentication_def then_do_Inr map_sum_Inr Let_def core_def split: prod.splits)
  moreover have "core (c\<lparr>ic_event := ev\<rparr>) = core c" for ev by (simp add: core_def)
  ultimately show ?thesis
    using assms config_ok_root_setting [OF assms(2), of node]
    by (auto simp: root_node_def Let_def map_sum_Inr split: if_splits
        intro: k config_ok_mount core_paths core_logging core_sections)
qed

lemma replace_first_all: "list_all P xs \<Longrightarrow> (\<And>x. x \<in> set xs \<Longrightarrow> P x \<Longrightarrow> P (f x)) \<Longrightarrow> list_all P (replace_first Q f xs)"
  by (induction Q f xs rule: replace_first.induct) auto

lemma config_ok_source_role:
  assumes "give_source_role E pw c = Inr d" and "config_ok c" shows "config_ok d"
proof -
  have "config_ok (c\<lparr>ic_ids := ids, ic_stacks := ic_stacks c @ [stack],
      ic_mounts := replace_first Q (\<lambda>m. m\<lparr>mount_authstack := place stack (ic_stacks c)\<rparr>) (ic_mounts c)\<rparr>)" for ids stack Q
  proof -
    have "list_all (mount_ok (ic_stacks c @ [stack]) (ic_regs c)) (ic_mounts c)"
      using assms(2) by (auto simp: config_ok_def mount_ok_def list_all_iff place_ok_append)
    then have "list_all (mount_ok (ic_stacks c @ [stack]) (ic_regs c))
        (replace_first Q (\<lambda>m. m\<lparr>mount_authstack := place stack (ic_stacks c)\<rparr>) (ic_mounts c))"
      by (rule replace_first_all) (simp add: mount_ok_def place_ok_place)
    then show ?thesis using assms(2) by (simp add: config_ok_def)
  qed
  then show ?thesis using assms by (auto simp: give_source_role_def map_sum_Inr split: option.splits if_splits)
qed

lemma config_ok_source_password: "global_source_password E pw c = Inr d \<Longrightarrow> config_ok c \<Longrightarrow> config_ok d"
  by (auto simp: global_source_password_def then_do_Inr split: option.splits if_splits
      dest: config_ok_mount intro: config_ok_source_role)

lemma config_ok_finish:
  assumes "config_ok c" shows "config_ok (finish_root c)"
proof -
  have "drop (Suc 0) (ic_listen_sock c) \<noteq> []" if "ic_listen_sock_count c > 1"
    using that assms by (auto simp: config_ok_def)
  then show ?thesis using assms by (auto simp: finish_root_def Let_def config_ok_def split: prod.split)
qed

lemma config_ok_merge:
  assumes "config_ok c" shows "config_ok (c\<lparr>ic_mounts := merge_mounts_all fnm (ic_mounts c)\<rparr>)"
proof -
  have m: "mount_ok s r (merge_mounts m (Some d))" if "mount_ok s r m" "mount_ok s r d" for s r m d
    using that by (auto simp: mount_ok_def merge_mounts_def or_minus_def)
  have "mount_ok (ic_stacks c) (ic_regs c) (merged fnm (ic_mounts c) m)" if "m \<in> set (ic_mounts c)" for m
  proof (cases "find_default fnm (ic_mounts c) (mountname m)")
    case (Some d)
    then have "d \<in> set (ic_mounts c)" by (auto simp: find_default_def find_Some_iff)
    then show ?thesis using that assms m Some by (auto simp: merged_def config_ok_def list_all_iff)
  qed (use that assms in \<open>auto simp: merged_def merge_mounts_def config_ok_def list_all_iff\<close>)
  then show ?thesis using assms by (simp add: config_ok_def merge_mounts_all_map list_all_iff)
qed

subsection \<open>The file\<close>

lemma config_ok_root:
  assumes "parse_root E ns c = Inr d" and "length (ic_yp c) = MAX_YP_DIRECTORIES" and "ic_num_yp_directories c = 0" and "ic_mounts c = []"
  shows "config_ok d"
proof -
  let ?c = "c\<lparr>ic_listen_sock := [new_listener\<lparr>l_port := 8000\<rparr>], ic_listen_sock_count := 1\<rparr>"
  obtain pw e g where e: "fold_sum (root_node E) (real_nodes ns) (None, ?c) = Inr (pw, e)" and g: "global_source_password E pw e = Inr g"
    and d: "d = finish_root g"
    using assms(1) by (auto simp: parse_root_def then_do_Inr map_sum_Inr)
  have "config_ok ?c" using assms(2-4) by (simp add: config_ok_def)
  then have "config_ok e"
    using fold_sum_inv [OF e, where P = "\<lambda>s. config_ok (snd s)"] config_ok_root_node by auto
  then show ?thesis unfolding d by (intro config_ok_finish config_ok_source_password [OF g])
qed

lemma finish_root_fields:
  "ic_port (finish_root c) \<noteq> 0" "ic_hostname (finish_root c) \<noteq> None" "ic_location (finish_root c) \<noteq> None" "ic_admin (finish_root c) \<noteq> None"
  by (simp_all add: finish_root_def Let_def split: prod.split option.split)

lemma config_parse_cases:
  assumes "config_parse_file E ids f = Inr (Inr c)"
  shows "\<exists>node d. ce_parse E (the f) = Some (Some node) \<and> node_name node = ''icecast'' \<and> f = Some (the f)
    \<and> parse_root E (node_children node) ((set_defaults E ids)\<lparr>ic_config_filename := f\<rparr>) = Inr d
    \<and> c = d\<lparr>ic_mounts := merge_mounts_all (ce_fnm E) (ic_mounts d)\<rparr>"
  using assms by (auto simp: config_parse_file_def map_sum_Inr split: option.splits if_splits)

lemma config_ok_file:
  assumes "config_parse_file E ids f = Inr (Inr c)" shows "config_ok c"
proof -
  obtain node d where d: "parse_root E (node_children node) ((set_defaults E ids)\<lparr>ic_config_filename := f\<rparr>) = Inr d"
    and c: "c = d\<lparr>ic_mounts := merge_mounts_all (ce_fnm E) (ic_mounts d)\<rparr>"
    using config_parse_cases [OF assms] by blast
  have "config_ok d" using d by (rule config_ok_root) (simp_all add: set_defaults_def)
  then show ?thesis unfolding c by (rule config_ok_merge)
qed

text \<open>
  C20: a configuration that was read can be used. There is at least one listening socket and the number kept beside
  the list is right; the port, the host name, the location and the contact are set; at most 25 directories are
  kept and each of them has an address; a mount that is not a default has a name; a mount keeps between
  1 and 256 entries of history, or the number is not set; and its roles and events are those of a list that is not empty.
\<close>

theorem parsed_config_ok:
  assumes "config_parse_file E ids f = Inr (Inr c)"
  shows "config_ok c \<and> ic_port c \<noteq> 0 \<and> ic_hostname c \<noteq> None \<and> ic_location c \<noteq> None \<and> ic_admin c \<noteq> None"
proof -
  obtain node d where d: "parse_root E (node_children node) ((set_defaults E ids)\<lparr>ic_config_filename := f\<rparr>) = Inr d"
    and c: "c = d\<lparr>ic_mounts := merge_mounts_all (ce_fnm E) (ic_mounts d)\<rparr>"
    using config_parse_cases [OF assms] by blast
  obtain g where g: "d = finish_root g" using d by (auto simp: parse_root_def then_do_Inr map_sum_Inr)
  show ?thesis using finish_root_fields [of g] config_ok_file [OF assms] by (simp add: c g)
qed

definition demo_document :: "xmlnode list" where
  "demo_document = [text_node ''hostname'' ''radio.example.org'',
     XML ''directory'' False None [] [text_node ''yp-url'' ''http://dir.example.org/''],
     XML ''mount'' False None [] [text_node ''mount-name'' ''/live'', text_node ''max-history'' ''1000''],
     XML ''listen-socket'' False None [] [text_node ''port'' ''8010'', text_node ''shoutcast-mount'' ''/live'']]"

definition demo_result :: "fault + int + ice_config" where
  "demo_result = config_parse_file (demo_config_env demo_document) 0 (Some ''icecast.xml'')"

lemma case_Inr_Inr: "(case r of Inr (Inr c) \<Rightarrow> P c | _ \<Rightarrow> False) \<longleftrightarrow> (\<exists>c. r = Inr (Inr c) \<and> P c)"
  by (auto split: sum.splits)

lemma demo_config_value:
  "(case demo_result of
      Inr (Inr c) \<Rightarrow> map max_history (ic_mounts c) = [256] \<and> map l_port (ic_listen_sock c) = [8010, 8011] \<and> ic_port c = 8010
    | _ \<Rightarrow> False)"
  by code_simp

lemma parsed_config_ok_witness:
  "\<exists>c. config_parse_file (demo_config_env demo_document) 0 (Some ''icecast.xml'') = Inr (Inr c) \<and> map max_history (ic_mounts c) = [256]
     \<and> map l_port (ic_listen_sock c) = [8010, 8011] \<and> config_ok c \<and> ic_admin c \<noteq> None"
proof -
  obtain c where c: "demo_result = Inr (Inr c)" "map max_history (ic_mounts c) = [256]" "map l_port (ic_listen_sock c) = [8010, 8011]"
    using demo_config_value unfolding case_Inr_Inr by (elim exE conjE)
  note r = c(1) [unfolded demo_result_def]
  from r c(2,3) parsed_config_ok [OF r] show ?thesis by (intro exI [of _ c] conjI) simp_all
qed

section \<open>Reading the file again\<close>


lemma reread_returns:
  "config_parse_file E (ic_ids (cs_config s)) (ic_config_filename (cs_config s)) = Inr r \<Longrightarrow> \<exists>s'. config_reread_config E s = Inr s'"
  by (simp add: config_reread_config_def Let_def then_do_def)


section \<open>Older settings that do not do what they say\<close>

lemma set_prop_new: "map_of ps n = None \<Longrightarrow> set_prop n v ps = ps @ [(n, v)]"
  by (induction n v ps rule: set_prop.induct) (auto split: if_splits)

lemma per_user_attribute: "max_connections_per_user (acl_attribute h (''connections-per-user'', ''0'') a) = 0"
  by (simp add: acl_attribute_def acl_set_max_connections_per_user_def) code_simp

lemma push_anonymous_methods:
  assumes "\<forall>i\<in>{''get'', ''head'', ''post''}. str_to_method (re_httpp R) i \<noteq> req_unknown (re_httpp R)"
  shows "\<exists>a. push_role R (old_style_role None ''anonymous'' None None (Some ''get,head,post'') None False None) (stack, ids) = Inr (stack @ [a], ids + 1)"
proof -
  let ?r = "old_style_role None ''anonymous'' None None (Some ''get,head,post'') None False None"
  have p: "xmlGetProp ?r ''type'' = Some ''anonymous''" "xmlGetProp ?r ''method'' = Some ''get,head,post''"
    by (simp_all add: old_style_role_def opt_prop_def Let_def)
  have "role_methods (re_httpp R) (Some ''get,head,post'') \<noteq> None"
    using assms by (simp add: role_methods_def parse_methods.simps)
  then show ?thesis
    unfolding push_role_def auth_get_authenticator_def acl_of_props p
    by (auto simp: get_authenticator_def auth_stack_push_def)
qed

text \<open>
  \<^verbatim>\<open>allow_duplicate_users\<close> set to false does not limit the connections of a user: the role that is made for the
  password file has the limit 0, which stands for no limit, so that a client that logged in by it is
  never refused for the number of connections its user has.
\<close>

theorem duplicate_users_not_limited:
  assumes "old_options node ''allow_duplicate_users'' = Some v" and "\<not> util_str_to_bool (Some v)"
    and "xmlGetProp node ''type'' = Some ''htpasswd''" and "xmlGetProp node ''method'' = None"
    and "xmlGetProp node ''connections-per-user'' = None"
    and "\<forall>i\<in>{''get'', ''head'', ''post''}. str_to_method (re_httpp (ce_roles E)) i \<noteq> req_unknown (re_httpp (ce_roles E))"
  shows "\<exists>a anon. oldstyle_htpasswd E node (stack, ids) = Inr (stack @ [a, anon], ids + 2)
     \<and> at_backend a = Htpasswd_backend (htpasswd_options (role_options node))
     \<and> acl_get_max_connections_per_user (Some (at_acl a)) = 0
     \<and> (\<forall>P source c. rc_acl c = Some (at_acl a) \<longrightarrow> \<not> over_user_limit P source c)"
proof -
  let ?n = "xmlSetProp ''connections-per-user'' ''0'' node" and ?h = "re_httpp (ce_roles E)"
  have ps: "node_props ?n = node_props node @ [(''connections-per-user'', ''0'')]"
    using assms(5) by (simp add: set_prop_new xmlGetProp_def)
  have ro: "role_options ?n = role_options node" by (simp add: role_options_def)
  obtain a where a: "push_role (ce_roles E) ?n (stack, ids) = Inr (stack @ [a], ids + 1)"
    "at_backend a = Htpasswd_backend (htpasswd_options (role_options node))"
    "at_acl a = acl_attribute ?h (''connections-per-user'', ''0'') (fold (acl_attribute ?h) (node_props node) (acl_new ?h))"
    using assms(3,4) unfolding push_role_def auth_get_authenticator_def acl_of_props ps
    by (simp add: ro role_methods_def get_authenticator_def auth_stack_push_def)
  obtain anon where anon: "push_role (ce_roles E) (old_style_role None ''anonymous'' None None (Some ''get,head,post'') None False None) (stack @ [a], ids + 1)
      = Inr (stack @ [a, anon], ids + 2)"
    using push_anonymous_methods [OF assms(6), of "stack @ [a]" "ids + 1"] by (auto simp: add.assoc)
  have "oldstyle_htpasswd E node (stack, ids) = Inr (stack @ [a, anon], ids + 2)"
    using assms(1,2) by (simp add: oldstyle_htpasswd_def Let_def a(1) append_old_style_auth_def anon)
  moreover have "acl_get_max_connections_per_user (Some (at_acl a)) = 0"
    by (simp add: acl_get_max_connections_per_user_def a(3) per_user_attribute)
  ultimately show ?thesis using a(2) by (auto simp: over_user_limit_def Let_def)
qed

lemma duplicate_users_not_limited_witness:
  "\<exists>a anon. oldstyle_htpasswd (demo_config_env []) (XML ''authentication'' False None [(''type'', ''htpasswd'')]
        [XML ''option'' False None [(''name'', ''filename''), (''value'', ''users'')] [],
         XML ''option'' False None [(''name'', ''allow_duplicate_users''), (''value'', ''0'')] []]) ([], 7) = Inr ([a, anon], 9)
     \<and> at_backend a = Htpasswd_backend (Some ''users'') \<and> acl_get_max_connections_per_user (Some (at_acl a)) = 0"
proof -
  let ?n = "XML ''authentication'' False None [(''type'', ''htpasswd'')]
        [XML ''option'' False None [(''name'', ''filename''), (''value'', ''users'')] [],
         XML ''option'' False None [(''name'', ''allow_duplicate_users''), (''value'', ''0'')] []]"
  have "\<not> util_str_to_bool (Some ''0'')" by code_simp
  moreover have "role_options ?n = [(''filename'', ''users''), (''allow_duplicate_users'', ''0'')]"
    by (simp add: role_options_def xmlGetProp_def)
  moreover from this have "old_options ?n ''allow_duplicate_users'' = Some ''0''" "htpasswd_options (role_options ?n) = Some ''users''"
    by (simp_all add: old_options_def htpasswd_options_def)
  ultimately show ?thesis
    using duplicate_users_not_limited [of ?n "''0''" "demo_config_env []" "[]" 7]
    by (force simp: xmlGetProp_def demo_config_env_def demo_httpp_def)
qed

text \<open>
  C25: the events of a mount that are set in the older way cannot be sent: the event is registered with a pointer to an
  address that was freed, and every attempt to send it reads freed memory.
\<close>

theorem old_url_event_dangling:
  assumes "re_curl (ce_roles E)"
  shows "\<exists>b. append_old_style_url_event E trig (Some url) action user pass events
           = Inr (events @ [\<lparr>er_trigger = trig, er_backend = b\<rparr>])
         \<and> (\<forall>X U event. backend_emit X U b event = Inl Use_after_free)"
proof -
  let ?n = "old_style_url_node trig (Some url) action user pass"
  let ?self = "\<lparr>eu_url = Dangling, eu_action = Some action, eu_username = user, eu_password = pass\<rparr>"
  have p: "xmlGetProp ?n ''type'' = Some ''url''" "xmlGetProp ?n ''trigger'' = Some trig"
    by (simp_all add: old_style_url_node_def)
  have o: "config_parse_options (Some ?n) = map (\<lambda>(n, v). \<lparr>co_type = None, co_name = Some n, co_value = Some v\<rparr>)
      ([(''url'', url), (''action'', action)] @ (case user of None \<Rightarrow> [] | Some u \<Rightarrow> [(''username'', u)])
        @ (case pass of None \<Rightarrow> [] | Some p \<Rightarrow> [(''password'', p)]))"
    by (simp add: old_style_url_node_def config_parse_options_def append_option_children split: option.split)
  have "event_get_url True (config_parse_options (Some ?n)) = Inr (Some ?self)"
    unfolding o by (simp add: event_get_url_def url_event_option_def free_str_def to_ptr_def split: option.split)
  then have "append_old_style_url_event E trig (Some url) action user pass events
      = Inr (events @ [\<lparr>er_trigger = trig, er_backend = Web_backend ?self\<rparr>])"
    using assms p by (simp add: append_old_style_url_event_def push_event_def event_new_from_xml_node_def Let_def)
  then show ?thesis by (auto simp: backend_emit_def event_url_emit_def)
qed

lemma old_url_event_dangling_witness:
  "\<exists>b. append_old_style_url_event (demo_config_env []) ''source-connect'' (Some ''http://localhost/add'') ''mount_add'' None None []
        = Inr [\<lparr>er_trigger = ''source-connect'', er_backend = b\<rparr>]
     \<and> (\<forall>X U event. backend_emit X U b event = Inl Use_after_free)"
  using old_url_event_dangling [of "demo_config_env []" "''source-connect''" "''http://localhost/add''" "''mount_add''" None None "[]"]
  by (simp add: demo_config_env_def)

end
