(* ===== verification/Spec2Isabelle.thy ===== *)
theory Spec2Isabelle
  imports Util_Base64 Util_Conv Util_Dict Util_HTTP_CN Util_Header MD5 Cfgfile ACL Errors Matchfile
    Playlist Events Refbuf Stream_Queue Source Source_Settings Auth_Backends Auth_Htpasswd Auth
    Conn_Queue Conn_Request Stats Fserve EBML_Stream ICY_Stream Relays YP_Entries Admin_Requests Config_Valid
begin

text \<open>
  Verification of the Icecast streaming server (\<^verbatim>\<open>src/src\<close>, C).

  \<^bold>\<open>The program.\<close> A source client connects to a mountpoint and sends a stream; the server cuts it into
  reference counted buffers, keeps them in a queue per source, and sends them to the listeners of the
  mountpoint. When a source ends its listeners move to a fallback mount if there is one. Around this
  core are the HTTP layer (parsing and negotiating headers, building responses), the configuration
  with its default mounts, access control lists and match files that decide who may do what, an event
  queue, a history of played tracks, and helpers for strings, dictionaries, base64 and MD5.

  \<^bold>\<open>The theories.\<close>

  \<^item> \<open>Prelude\<close>: types, the C string and number functions, runs that may fault or run out of fuel.
  \<^item> \<open>Interfaces\<close>: the contracts as locales: codec (interpreted by URL escaping, base64 and the
    hexadecimal form), reference counted object (ACL, match file, playlist), string dictionary
    (\<^verbatim>\<open>util_dict\<close>) and bounded queue (event queue).
  \<^item> \<open>Util_URI\<close>, \<open>Util_Base64\<close>, \<open>Util_Conv\<close>, \<open>Util_Dict\<close>, \<open>Util_HTTP_CN\<close>, \<open>Util_Header\<close>: the parts of
    \<^verbatim>\<open>util.c\<close>: percent escaping and paths, base64, number conversions, the dictionary, content negotiation,
    response headers. They show round trips, that request paths stay below the web root, that the
    negotiation chooses as a reference definition does, and where fixed buffers or missing values
    break the result.
  \<^item> \<open>MD5\<close>: \<^verbatim>\<open>md5.c\<close>; feeding a message in pieces equals feeding it at once, and test vectors of the RFC.
  \<^item> \<open>Cfgfile\<close>: \<^verbatim>\<open>cfgfile.c\<close>; the search for a mount and the merge of default mounts.
  \<^item> \<open>Admin_Commands\<close>, \<open>ACL\<close>, \<open>Errors\<close>, \<open>Matchfile\<close>: the tables of \<^verbatim>\<open>admin.c\<close> and \<^verbatim>\<open>errors.c\<close>, \<^verbatim>\<open>acl.c\<close> and
    \<^verbatim>\<open>matchfile.c\<close>; what a configuration node allows, what a new list denies, who is accepted by the
    allow and deny files.
  \<^item> \<open>Playlist\<close>, \<open>Events\<close>: \<^verbatim>\<open>playlist.c\<close> and \<^verbatim>\<open>event.c\<close>; the newest tracks are kept, events are delivered in
    order to the registrations that want them.
  \<^item> \<open>Refbuf\<close>: \<^verbatim>\<open>refbuf.c\<close>; buffers in an explicit heap (a map from addresses), because releases follow
    pointers and a freed buffer must not be touched.
  \<^item> \<open>Stream_Queue\<close>: the queue of a source, from \<^verbatim>\<open>source_main\<close> (append, burst point, reduction),
    \<^verbatim>\<open>source_clear_source\<close>, \<^verbatim>\<open>format.c\<close> (\<^verbatim>\<open>find_client_start\<close>, \<^verbatim>\<open>format_advance_queue\<close>,
    \<^verbatim>\<open>format_generic_write_to_client\<close>) and \<^verbatim>\<open>client_set_queue\<close>. The state machine \<open>queue_step\<close> interleaves
    these operations in any order; the invariant accounts for every reference, and from it every
    operation is free of faults in every reachable state, a full queue shrinks, listeners read
    without gaps, and the end of a source frees the queue.
  \<^item> \<open>Source\<close>: \<^verbatim>\<open>source.c\<close> with its listeners as values: the search in the tree of mountpoints and along
    the fallbacks, moving listeners, the listener part of a turn of the main loop with its limit, and
    the end of a source. No listener is lost or counted twice.
  \<^item> \<open>Source_Settings\<close>: \<^verbatim>\<open>source_update_settings\<close> and \<^verbatim>\<open>source_apply_mount\<close>: mount before header before default.

  \<^bold>\<open>Conventions.\<close> A C string is a list of characters, a pointer that may be NULL an option, an address a
  number. Integers keep their width as words where they can wrap (\<^verbatim>\<open>queue_size\<close>, \<^verbatim>\<open>listeners\<close>, lengths);
  \<^verbatim>\<open>int\<close> values that stay small are integers. Errors and undefined behaviour are values: an option, a
  sum, or a fault. Log messages and locks are left out; an operation is one step, which is what the
  locks of the code provide. Allocation succeeds.

  \<^bold>\<open>Fuel.\<close> Loops along pointers carry fuel. The theorems say how much is enough: the number of buffers
  in the queue plus one, and for a release the length of the associated chain plus three; with more
  fuel the result is the same. All other loops are total functions; the search along the fallbacks has
  the bound of ten that the code has.

  \<^bold>\<open>Parameters.\<close> The HTTP parser, the AVL trees, \<^verbatim>\<open>fnmatch\<close>, the Vorbis library, the file system and the
  network are not part of the sources: lookups, insertion, matching and results of sending are
  arguments of the definitions, with what the code relies on as hypotheses.

  \<^bold>\<open>Not modelled.\<close> Sockets and threads, TLS, libcurl, libxml2 and libxslt glue, the Ogg formats (their
  logic is in the codec libraries), relays, directory listing, logging and start-up. Planned next:
  authentication stacks, connections and requests, the EBML and MP3 formats, statistics, file
  serving, the admin handlers.
\<close>

end
